(* ===== verification/Clock_Prelude.thy ===== *)
theory Clock_Prelude
  imports Main "HOL-Library.Word" "HOL-Library.Monad_Syntax"
begin

text \<open>
  Shared vocabulary of the development: names for the fixed-width integers of the target
  (Cortex-M3, 32-bit, little endian), the two collections of facts that component proofs
  pass to the simplifier, and generic lemmas on words, options and lists.
\<close>

unbundle bit_operations_syntax

type_synonym u8 = "8 word"
type_synonym u16 = "16 word"
type_synonym u32 = "32 word"

named_theorems cdefs
  \<comment> \<open>definitions of register masks and configuration constants\<close>

named_theorems wconv
  \<comment> \<open>reading word expressions as natural numbers\<close>

subsection \<open>Words\<close>

lemma unat_mod_word [wconv]: "unat ((a :: 'a::len word) mod b) = unat a mod unat b"
  by (simp add: unat_mod)

lemma unat_div_word [wconv]: "unat ((a :: 'a::len word) div b) = unat a div unat b"
  by (simp add: unat_div)

lemma unat_ucast_u8 [wconv]: "unat (ucast (w :: u32) :: u8) = unat w mod 256"
  by (simp add: unsigned_ucast_eq take_bit_nat_def)

lemma unat_u8_less [simp]: "unat (w :: u8) < 256"
  using unsigned_less [of w] by simp

lemma unat_u16_less [simp]: "unat (w :: u16) < 65536"
  using unsigned_less [of w] by simp

lemma unat_u32_less [simp]: "unat (w :: u32) < 4294967296"
  using unsigned_less [of w] by simp

lemma unat_ucast_16_32 [simp]: "unat (ucast (w :: u16) :: u32) = unat w"
  by (simp add: unsigned_ucast_eq take_bit_nat_eq_self order.strict_trans [OF unat_u16_less] order.strict_trans [OF unat_u8_less])

lemma unat_ucast_8_32 [simp]: "unat (ucast (w :: u8) :: u32) = unat w"
  by (simp add: unsigned_ucast_eq take_bit_nat_eq_self order.strict_trans [OF unat_u16_less] order.strict_trans [OF unat_u8_less])

lemma unat_ucast_8_16 [simp]: "unat (ucast (w :: u8) :: u16) = unat w"
  by (simp add: unsigned_ucast_eq take_bit_nat_eq_self order.strict_trans [OF unat_u16_less] order.strict_trans [OF unat_u8_less])

lemma unat_of_nat_u8 [wconv]: "unat (of_nat n :: u8) = n mod 256"
  by (simp add: unsigned_of_nat take_bit_nat_def)

lemma unat_of_nat_u16 [wconv]: "unat (of_nat n :: u16) = n mod 65536"
  by (simp add: unsigned_of_nat take_bit_nat_def)

lemma unat_of_nat_u32 [wconv]: "unat (of_nat n :: u32) = n mod 4294967296"
  by (simp add: unsigned_of_nat take_bit_nat_def)

lemma unat_add_u32 [wconv]: "unat ((a :: u32) + b) = (unat a + unat b) mod 4294967296"
  by (simp add: unat_word_ariths)

text \<open>Clearing the low bits rounds down to a multiple of a power of two.\<close>

lemma and_not_mask: "(x :: 'a::len word) AND NOT (mask n) = x - take_bit n x"
proof -
  have "x AND NOT (mask n) = push_bit n (drop_bit n x)"
    by (rule bit_eqI) (auto simp: bit_simps)
  also have "\<dots> = x - take_bit n x" by (metis add_diff_cancel_right' bits_ident)
  finally show ?thesis .
qed

lemma unat_and_not_mask: "unat ((x :: 'a::len word) AND NOT (mask n)) = unat x div 2 ^ n * 2 ^ n"
proof -
  have tb: "unat (take_bit n x) = unat x mod 2 ^ n"
    by (simp add: unsigned_take_bit_eq take_bit_nat_def)
  then have "take_bit n x \<le> x" by (simp add: word_le_nat_alt)
  then have "unat (x - take_bit n x) = unat x - unat x mod 2 ^ n" by (simp add: unat_sub tb)
  then show ?thesis by (simp add: and_not_mask minus_mod_eq_div_mult)
qed

lemma unat_and_not_3 [wconv]: "unat ((x :: u32) AND NOT 3) = unat x div 4 * 4"
  using unat_and_not_mask [of x 2] by (simp add: mask_eq_exp_minus_1)

lemma unat_and_not_7 [wconv]: "unat ((x :: u32) AND NOT 7) = unat x div 8 * 8"
  using unat_and_not_mask [of x 3] by (simp add: mask_eq_exp_minus_1)

lemma unat_and_7 [wconv]: "unat ((x :: u32) AND 7) = unat x mod 8"
proof -
  have "x AND 7 = take_bit 3 x" by (simp add: take_bit_eq_mask mask_eq_exp_minus_1)
  then show ?thesis by (simp add: unsigned_take_bit_eq take_bit_nat_def)
qed

lemma u8_eq_iff: "(a :: u8) = b \<longleftrightarrow> unat a = unat b"
  by (rule word_unat_eq_iff)

subsection \<open>Options\<close>

lemma bind_eq_Some_conv': "Option.bind x f = Some y \<longleftrightarrow> (\<exists>z. x = Some z \<and> f z = Some y)"
  by (cases x) auto

subsection \<open>Characters\<close>

text \<open>
  A \<open>char\<close> of the target is unsigned (the ARM ABI), so the conversions
  \<open>(uint32_t)c\<close> and \<open>(char)(w & 0xFF)\<close> are the two functions below.
\<close>

definition u32_of_char :: "char \<Rightarrow> u32" where
  "u32_of_char c = word_of_nat (of_char c)"

definition char_of_u32 :: "u32 \<Rightarrow> char" where
  "char_of_u32 w = char_of (unat (w AND 0xFF))"

lemma of_char_less [simp]: "of_char c < (256 :: nat)"
  by (metis mod_less_divisor of_char_mod_256 zero_less_numeral)

lemma unat_u32_of_char [wconv]: "unat (u32_of_char c) = of_char c"
  using of_char_less [of c] by (simp add: u32_of_char_def unat_of_nat_u32 del: of_char_less)

lemma unat_and_255: "unat ((w :: u32) AND 0xFF) = unat w mod 256"
proof -
  have "w AND 0xFF = take_bit 8 w" by (simp add: take_bit_eq_mask mask_eq_exp_minus_1)
  then show ?thesis by (simp add: unsigned_take_bit_eq take_bit_nat_def)
qed

lemma char_of_u32_of_char [simp]: "char_of_u32 (u32_of_char c) = c"
  by (simp add: char_of_u32_def unat_and_255 unat_u32_of_char)

lemma u32_of_char_inj [simp]: "u32_of_char c = u32_of_char d \<longleftrightarrow> c = d"
  by (metis char_of_u32_of_char)

end
