(* ===== verification/Uart.thy ===== *)
theory Uart
  imports Clock_Prelude
begin

text \<open>
  The console of \<open>src/main.c\<close>: the CMSDK UART0 registers, the busy-waiting
  \<open>uart_putc\<close>, \<open>uart_puts\<close>, the formatter behind \<open>uart_printf\<close>,
  \<open>system_init\<close>, the fatal hooks and fault handlers, and \<open>_sbrk\<close>.

  A register that hardware changes is a sequence of the values successive reads return
  (\<open>uart_state\<close>, \<open>uart_rx\<close>) with a count of the reads done; a register the program
  writes is a field, and \<open>UART0_DATA\<close> writes are logged in \<open>uart_tx\<close> in order. A
  busy-wait that never sees the flag clear does not return: the value \<open>None\<close>.
\<close>

section \<open>Registers\<close>

record uart =
  uart_state :: "nat \<Rightarrow> u32"
  uart_state_n :: nat
  uart_rx :: "nat \<Rightarrow> u32"
  uart_rx_n :: nat
  uart_ctrl :: u32
  uart_bauddiv :: u32
  uart_tx :: "u32 list"
  uart_buf :: string

definition UART_STATE_TXFULL :: u32 where [cdefs]: "UART_STATE_TXFULL = 1"
definition UART_STATE_RXFULL :: u32 where [cdefs]: "UART_STATE_RXFULL = 2"
definition UART_CTRL_TXEN :: u32 where [cdefs]: "UART_CTRL_TXEN = 1"
definition UART_CTRL_RXEN :: u32 where [cdefs]: "UART_CTRL_RXEN = 2"

definition UART0_STATE :: "'a uart_scheme \<Rightarrow> u32 \<times> 'a uart_scheme" where
  "UART0_STATE u = (uart_state u (uart_state_n u), u\<lparr>uart_state_n := Suc (uart_state_n u)\<rparr>)"

definition UART0_DATA :: "'a uart_scheme \<Rightarrow> u32 \<times> 'a uart_scheme" where
  "UART0_DATA u = (uart_rx u (uart_rx_n u), u\<lparr>uart_rx_n := Suc (uart_rx_n u)\<rparr>)"

section \<open>Output\<close>

partial_function (option) uart_putc :: "char \<Rightarrow> 'a uart_scheme \<Rightarrow> 'a uart_scheme option" where
  "uart_putc c u =
     (let (s, u1) = UART0_STATE u in
      if s AND UART_STATE_TXFULL \<noteq> 0 then uart_putc c u1
      else Some (u1\<lparr>uart_tx := uart_tx u1 @ [u32_of_char c]\<rparr>))"

text \<open>A C string is the characters before its terminating NUL; a NUL inside ends it.\<close>

fun uart_puts :: "string \<Rightarrow> 'a uart_scheme \<Rightarrow> 'a uart_scheme option" where
  "uart_puts [] u = Some u"
| "uart_puts (c # s) u =
     (if c = CHR 0x00 then Some u else do { u1 \<leftarrow> uart_putc c u; uart_puts s u1 })"

fun uart_puts_all :: "string list \<Rightarrow> 'a uart_scheme \<Rightarrow> 'a uart_scheme option" where
  "uart_puts_all [] u = Some u"
| "uart_puts_all (s # ss) u = do { u1 \<leftarrow> uart_puts s u; uart_puts_all ss u1 }"

subsection \<open>The conversions of vsnprintf the program uses: d, u, x and s with zero flag and width\<close>

datatype parg = AInt int | AUns u32 | AStr string

fun digit_char :: "nat \<Rightarrow> char" where
  "digit_char d = char_of (if d < 10 then 48 + d else 87 + d)"

fun render_nat :: "nat \<Rightarrow> nat \<Rightarrow> string" where
  "render_nat b n = (if b < 2 \<or> n < b then [digit_char n]
                     else render_nat b (n div b) @ [digit_char (n mod b)])"

declare render_nat.simps [simp del]

definition render_int :: "int \<Rightarrow> string" where
  "render_int i = (if i < 0 then CHR ''-'' # render_nat 10 (nat (- i)) else render_nat 10 (nat i))"

fun render_arg :: "char \<Rightarrow> parg \<Rightarrow> string" where
  "render_arg k (AInt i) = render_int i"
| "render_arg k (AUns w) = render_nat (if k = CHR ''x'' then 16 else 10) (unat w)"
| "render_arg k (AStr s) = s"

definition pad_left :: "bool \<Rightarrow> nat \<Rightarrow> string \<Rightarrow> string" where
  "pad_left z w s = replicate (w - length s) (if z then CHR ''0'' else CHR '' '') @ s"

text \<open>
  \<open>vformat m fmt args\<close>: \<open>m\<close> is \<open>None\<close> in literal text and \<open>Some (zero, width)\<close>
  between a percent sign and its conversion character.
\<close>

fun vformat :: "(bool \<times> nat) option \<Rightarrow> string \<Rightarrow> parg list \<Rightarrow> string" where
  "vformat m [] as = []"
| "vformat None (c # cs) as =
     (if c = CHR ''%'' then vformat (Some (False, 0)) cs as else c # vformat None cs as)"
| "vformat (Some (z, w)) (c # cs) as =
     (if 48 \<le> (of_char c :: nat) \<and> of_char c \<le> (57 :: nat)
      then vformat (Some (z \<or> (c = CHR ''0'' \<and> w = 0), 10 * w + (of_char c - 48))) cs as
      else case as of [] \<Rightarrow> vformat None cs []
           | a # as' \<Rightarrow> pad_left z w (render_arg c a) @ vformat None cs as')"

text \<open>
  \<open>uart_buf\<close> is the static array of \<open>uart_printf\<close>, which all tasks share: \<open>vsnprintf\<close> writes at
  most 255 characters and a NUL at its start and leaves the rest as it was.
\<close>

definition vsnprintf_to :: "string \<Rightarrow> string \<Rightarrow> string" where
  "vsnprintf_to out buf = (let t = take 255 out @ [CHR 0x00] in t @ drop (length t) buf)"

definition uart_printf :: "string \<Rightarrow> parg list \<Rightarrow> 'a uart_scheme \<Rightarrow> (int \<times> 'a uart_scheme) option" where
  "uart_printf fmt as u =
     (let out = vformat None fmt as;
          u1 = u\<lparr>uart_buf := vsnprintf_to out (uart_buf u)\<rparr>
      in do { u2 \<leftarrow> uart_puts (uart_buf u1) u1; Some (int (length out), u2) })"

definition uart_print :: "string \<Rightarrow> parg list \<Rightarrow> 'a uart_scheme \<Rightarrow> 'a uart_scheme option" where
  "uart_print fmt as u = map_option snd (uart_printf fmt as u)"

section \<open>Initialisation and fatal paths\<close>

definition crlf :: string where
  "crlf = [CHR 0x0D, CHR 0x0A]"

definition system_init :: "'a uart_scheme \<Rightarrow> 'a uart_scheme option" where
  "system_init u =
     (let u1 = u\<lparr>uart_ctrl := 0\<rparr>;
          u2 = u1\<lparr>uart_bauddiv := 25000000 div 115200\<rparr>;
          u3 = u2\<lparr>uart_ctrl := UART_CTRL_TXEN OR UART_CTRL_RXEN\<rparr>
      in uart_puts_all
           [crlf,
            ''================================================'' @ crlf,
            ''  Speaking Clock - STM32 / FreeRTOS / QEMU'' @ crlf,
            ''  Network Time Protocol (NTP) Client'' @ crlf,
            ''================================================'' @ crlf,
            crlf] u3)"

text \<open>
  The hooks and fault handlers print and then spin in \<open>while (1)\<close>. Their model is the state
  in which they spin.
\<close>

datatype 's halted = Spinning 's

definition vApplicationStackOverflowHook :: "string \<Rightarrow> 'a uart_scheme \<Rightarrow> 'a uart_scheme halted option" where
  "vApplicationStackOverflowHook pcTaskName u =
     map_option Spinning
       (uart_puts_all [''FATAL: Stack overflow in task: '', pcTaskName, crlf] u)"

definition vApplicationMallocFailedHook :: "'a uart_scheme \<Rightarrow> 'a uart_scheme halted option" where
  "vApplicationMallocFailedHook u =
     map_option Spinning (uart_puts (''FATAL: Malloc failed!'' @ crlf) u)"

definition vAssertCalled :: "string \<Rightarrow> u32 \<Rightarrow> 'a uart_scheme \<Rightarrow> 'a uart_scheme halted option" where
  "vAssertCalled pcFile ulLine u =
     map_option Spinning
       (uart_print (''ASSERT FAILED: %s:%u'' @ crlf) [AStr pcFile, AUns ulLine] u)"

definition HardFault_Handler :: "'a uart_scheme \<Rightarrow> 'a uart_scheme halted option" where
  "HardFault_Handler u = map_option Spinning (uart_puts (crlf @ ''!!! HARDFAULT !!!'' @ crlf) u)"

definition MemManage_Handler :: "'a uart_scheme \<Rightarrow> 'a uart_scheme halted option" where
  "MemManage_Handler u = map_option Spinning (uart_puts (crlf @ ''!!! MEMMANAGE FAULT !!!'' @ crlf) u)"

definition BusFault_Handler :: "'a uart_scheme \<Rightarrow> 'a uart_scheme halted option" where
  "BusFault_Handler u = map_option Spinning (uart_puts (crlf @ ''!!! BUS FAULT !!!'' @ crlf) u)"

definition UsageFault_Handler :: "'a uart_scheme \<Rightarrow> 'a uart_scheme halted option" where
  "UsageFault_Handler u = map_option Spinning (uart_puts (crlf @ ''!!! USAGE FAULT !!!'' @ crlf) u)"

subsection \<open>The newlib heap break\<close>

text \<open>
  \<open>_sbrk\<close>: the static pointer starts as NULL (0); the linker script gives the addresses of
  \<open>_heap_bottom\<close> and \<open>_heap_top\<close>, which are parameters. The second component of the
  result is the returned pointer, \<open>(void *)-1\<close> on failure.
\<close>

definition sbrk :: "u32 \<Rightarrow> u32 \<Rightarrow> u32 \<Rightarrow> u32 \<Rightarrow> u32 \<times> u32" where
  "sbrk heap_bottom heap_top incr heap_ptr =
     (let p0 = (if heap_ptr = 0 then heap_bottom else heap_ptr);
          prev = p0
      in if p0 + incr > heap_top then (p0, - 1) else (p0 + incr, prev))"

section \<open>What an output operation does\<close>

text \<open>
  \<open>uart_ready\<close>: the transmitter drains, so from any read on some later read of the state
  register has TXFULL clear. \<open>uart_emits u s u'\<close>: \<open>u'\<close> is \<open>u\<close> after writing
  exactly the characters of \<open>s\<close> to the data register, with only status reads and the
  printf buffer changed besides.
\<close>

definition uart_ready :: "'a uart_scheme \<Rightarrow> bool" where
  "uart_ready u \<longleftrightarrow> (\<forall>n. \<exists>m\<ge>n. uart_state u m AND UART_STATE_TXFULL = 0)"

definition uart_emits :: "'a uart_scheme \<Rightarrow> string \<Rightarrow> 'a uart_scheme \<Rightarrow> bool" where
  "uart_emits u s u' \<longleftrightarrow>
     (\<exists>n b. u' = u\<lparr>uart_state_n := n, uart_tx := uart_tx u @ map u32_of_char s, uart_buf := b\<rparr>)"

definition emitter ::
  "('s \<Rightarrow> bool) \<Rightarrow> ('s \<Rightarrow> string \<Rightarrow> 's \<Rightarrow> bool) \<Rightarrow> ('s \<Rightarrow> 's option) \<Rightarrow> string \<Rightarrow> bool" where
  "emitter ready emitted p s \<longleftrightarrow> (\<forall>x. ready x \<longrightarrow> (\<exists>y. p x = Some y \<and> emitted x s y))"

locale console =
  fixes puts :: "string \<Rightarrow> 's \<Rightarrow> 's option"
    and ready :: "'s \<Rightarrow> bool"
    and emitted :: "'s \<Rightarrow> string \<Rightarrow> 's \<Rightarrow> bool"
  assumes puts_emits: "ready x \<Longrightarrow> CHR 0x00 \<notin> set s \<Longrightarrow> \<exists>y. puts s x = Some y \<and> emitted x s y"
    and emitted_refl: "emitted x [] x"
    and emitted_trans: "emitted x s y \<Longrightarrow> emitted y t z \<Longrightarrow> emitted x (s @ t) z"
    and emitted_ready: "emitted x s y \<Longrightarrow> ready x \<Longrightarrow> ready y"
begin

lemma emitter_puts: "CHR 0x00 \<notin> set s \<Longrightarrow> emitter ready emitted (puts s) s"
  by (simp add: emitter_def puts_emits)

lemma emitter_done: "emitter ready emitted Some []"
  by (simp add: emitter_def emitted_refl)

lemma emitter_bind:
  assumes "emitter ready emitted p s" and "emitter ready emitted q t" and "st = s @ t"
  shows "emitter ready emitted (\<lambda>x. Option.bind (p x) q) st"
  unfolding emitter_def
proof (intro allI impI)
  fix x assume "ready x"
  then obtain y where y: "p x = Some y" "emitted x s y"
    using assms(1) unfolding emitter_def by blast
  then have "ready y" using \<open>ready x\<close> emitted_ready by blast
  then obtain z where "q y = Some z" "emitted y t z"
    using assms(2) unfolding emitter_def by blast
  with y show "\<exists>z. Option.bind (p x) q = Some z \<and> emitted x st z"
    unfolding assms(3) by (auto intro: emitted_trans)
qed

lemma emitter_run: "emitter ready emitted p s \<Longrightarrow> ready x \<Longrightarrow> \<exists>y. p x = Some y \<and> emitted x s y \<and> ready y"
  using emitted_ready unfolding emitter_def by blast

end

lemma uart_putc_at:
  assumes "uart_state u m AND UART_STATE_TXFULL = 0" and "uart_state_n u \<le> m"
  shows "\<exists>n. uart_putc c u = Some (u\<lparr>uart_state_n := n, uart_tx := uart_tx u @ [u32_of_char c]\<rparr>)"
  using assms
proof (induction "m - uart_state_n u" arbitrary: u)
  case 0
  then have "uart_state_n u = m" by simp
  with "0.prems" show ?case
    by (auto simp: uart_putc.simps [of c u] UART0_STATE_def)
next
  case (Suc k)
  let ?u = "u\<lparr>uart_state_n := Suc (uart_state_n u)\<rparr>"
  show ?case
  proof (cases "uart_state u (uart_state_n u) AND UART_STATE_TXFULL = 0")
    case True
    then show ?thesis by (auto simp: uart_putc.simps [of c u] UART0_STATE_def)
  next
    case False
    have "\<exists>n. uart_putc c ?u = Some (?u\<lparr>uart_state_n := n, uart_tx := uart_tx ?u @ [u32_of_char c]\<rparr>)"
      by (rule Suc.hyps(1)) (use Suc.hyps(2) Suc.prems in auto)
    with False show ?thesis by (simp add: uart_putc.simps [of c u] UART0_STATE_def)
  qed
qed

lemma uart_emitsI:
  "u' = u\<lparr>uart_state_n := n, uart_tx := uart_tx u @ map u32_of_char s, uart_buf := b\<rparr> \<Longrightarrow> uart_emits u s u'"
  unfolding uart_emits_def by blast

lemma uart_putc_emits:
  assumes "uart_ready u"
  shows "\<exists>u'. uart_putc c u = Some u' \<and> uart_emits u [c] u'"
proof -
  obtain m where "uart_state u m AND UART_STATE_TXFULL = 0" "uart_state_n u \<le> m"
    using assms unfolding uart_ready_def by blast
  then obtain n where "uart_putc c u = Some (u\<lparr>uart_state_n := n, uart_tx := uart_tx u @ [u32_of_char c]\<rparr>)"
    using uart_putc_at by blast
  then show ?thesis by (auto intro!: uart_emitsI [where n = n and b = "uart_buf u"])
qed

lemma uart_emits_refl: "uart_emits u [] u"
  unfolding uart_emits_def by (rule exI [of _ "uart_state_n u"], rule exI [of _ "uart_buf u"]) simp

lemma uart_emits_trans: "uart_emits u s v \<Longrightarrow> uart_emits v t w \<Longrightarrow> uart_emits u (s @ t) w"
  unfolding uart_emits_def [of u s] uart_emits_def [of v t]
  by (elim exE, rule uart_emitsI) simp

lemma uart_emits_ready: "uart_emits u s v \<Longrightarrow> uart_ready u \<Longrightarrow> uart_ready v"
  by (auto simp: uart_emits_def uart_ready_def)

lemma uart_puts_emits:
  "uart_ready u \<Longrightarrow> CHR 0x00 \<notin> set s \<Longrightarrow> \<exists>v. uart_puts s u = Some v \<and> uart_emits u s v"
proof (induction s arbitrary: u)
  case Nil
  then show ?case by (auto intro: uart_emits_refl)
next
  case (Cons c s)
  obtain v where v: "uart_putc c u = Some v" "uart_emits u [c] v"
    using uart_putc_emits Cons.prems(1) by blast
  then have "uart_ready v" using Cons.prems(1) uart_emits_ready by blast
  then obtain w where "uart_puts s v = Some w" "uart_emits v s w"
    using Cons.IH Cons.prems(2) by auto
  with v Cons.prems(2) show ?case by (auto dest: uart_emits_trans)
qed

interpretation con: console uart_puts uart_ready uart_emits
  by unfold_locales
    (fact uart_puts_emits uart_emits_refl uart_emits_trans uart_emits_ready)+

abbreviation uart_emitter :: "('a uart_scheme \<Rightarrow> 'a uart_scheme option) \<Rightarrow> string \<Rightarrow> bool" where
  "uart_emitter \<equiv> emitter uart_ready uart_emits"

section \<open>Correctness of the console operations\<close>

lemma uart_puts_all_emitter:
  "\<forall>s\<in>set ss. CHR 0x00 \<notin> set s \<Longrightarrow> uart_emitter (uart_puts_all ss) (concat ss)"
proof (induction ss)
  case Nil
  have "uart_puts_all [] = (Some :: 'a uart_scheme \<Rightarrow> _)" by (rule ext) simp
  then show ?case using con.emitter_done by simp
next
  case (Cons s ss)
  have eq: "uart_puts_all (s # ss) = (\<lambda>u :: 'a uart_scheme. Option.bind (uart_puts s u) (uart_puts_all ss))"
    by (rule ext) simp
  show ?case unfolding eq
    by (rule con.emitter_bind [OF con.emitter_puts Cons.IH]) (use Cons.prems in auto)
qed

lemma uart_puts_nul: "uart_puts (s @ CHR 0x00 # t) u = uart_puts s u"
  by (induction s arbitrary: u) (auto split: bind_splits)

lemma uart_print_emitter:
  assumes "CHR 0x00 \<notin> set (vformat None fmt as)"
  shows "uart_emitter (uart_print fmt as) (take 255 (vformat None fmt as))"
  unfolding emitter_def
proof (intro allI impI)
  fix u :: "'a uart_scheme"
  let ?t = "take 255 (vformat None fmt as)"
  let ?u = "u\<lparr>uart_buf := vsnprintf_to (vformat None fmt as) (uart_buf u)\<rparr>"
  assume "uart_ready u"
  then have "uart_ready ?u" by (simp add: uart_ready_def)
  moreover have "CHR 0x00 \<notin> set ?t" using assms in_set_takeD by metis
  ultimately obtain v where v: "uart_puts ?t ?u = Some v" "uart_emits ?u ?t v"
    using uart_puts_emits by blast
  from v(2) have "uart_emits u ?t v"
    unfolding uart_emits_def [of ?u] by (elim exE, intro uart_emitsI) simp
  with v(1) show "\<exists>v. uart_print fmt as u = Some v \<and> uart_emits u ?t v"
    by (simp add: uart_print_def uart_printf_def vsnprintf_to_def uart_puts_nul)
qed

text \<open>Formatted output never contains a NUL unless a string argument does.\<close>

definition nul_free :: "string \<Rightarrow> bool" where
  "nul_free s \<longleftrightarrow> CHR 0x00 \<notin> set s"

fun parg_nul_free :: "parg \<Rightarrow> bool" where
  "parg_nul_free (AStr s) = nul_free s"
| "parg_nul_free _ = True"

lemma char_of_nz: "0 < n \<Longrightarrow> n < 256 \<Longrightarrow> char_of (n :: nat) \<noteq> CHR 0x00"
proof
  assume "0 < n" "n < 256" "char_of n = CHR 0x00"
  then have "of_char (char_of n) = (0 :: nat)" by simp
  with \<open>0 < n\<close> \<open>n < 256\<close> show False by simp
qed

lemma render_nat_nul_free: "2 \<le> b \<Longrightarrow> b \<le> 16 \<Longrightarrow> nul_free (render_nat b n)"
proof (induction b n rule: render_nat.induct)
  case (1 b n)
  have "nul_free [digit_char d]" if "d < b" for d
    using that "1.prems" char_of_nz [of "48 + d"] char_of_nz [of "87 + d"] by (auto simp: nul_free_def)
  moreover have "n mod b < b" using "1.prems" by simp
  ultimately show ?case using 1 by (subst render_nat.simps) (auto simp: nul_free_def)
qed

lemma render_arg_nul_free: "parg_nul_free a \<Longrightarrow> nul_free (render_arg k a)"
  using render_nat_nul_free [of 10] render_nat_nul_free [of 16]
  by (cases a) (auto simp: render_int_def nul_free_def)

lemma vformat_nul_free: "nul_free fmt \<Longrightarrow> list_all parg_nul_free as \<Longrightarrow> nul_free (vformat m fmt as)"
proof (induction m fmt as rule: vformat.induct)
  case (3 z w c cs as)
  then show ?case using render_arg_nul_free [of "hd as" c]
    by (auto simp: nul_free_def pad_left_def split: list.splits)
qed (auto simp: nul_free_def)

lemma uart_puts_runs:
  "uart_ready u \<Longrightarrow> nul_free s \<Longrightarrow> \<exists>v. uart_puts s u = Some v \<and> uart_emits u s v \<and> uart_ready v"
  using uart_puts_emits uart_emits_ready unfolding nul_free_def by blast

lemma uart_print_runs:
  "uart_ready u \<Longrightarrow> nul_free fmt \<Longrightarrow> list_all parg_nul_free as \<Longrightarrow>
   \<exists>v. uart_print fmt as u = Some v \<and> uart_emits u (take 255 (vformat None fmt as)) v \<and> uart_ready v"
  using con.emitter_run [OF uart_print_emitter] vformat_nul_free unfolding nul_free_def by blast

end
