(* ===== verification/Speech.thy ===== *)
theory Speech
  imports Uart
begin

text \<open>
  The spoken output: \<open>include/time_msg.h\<close>, the token table of
  \<open>include/speech_tokens.h\<close>, \<open>uart_send_token\<close> and \<open>speak_time\<close> of
  \<open>src/speech_task.c\<close>. The lemmas give the exact text \<open>speak_time\<close> writes for every
  value of its three bytes and show that the text determines the time.
\<close>

section \<open>The time message and the token table\<close>

record time_msg =
  hour :: u8
  minute :: u8
  second :: u8

definition number_words :: "string list" where
  "number_words =
    [''ZERO'', ''ONE'', ''TWO'', ''THREE'', ''FOUR'',
     ''FIVE'', ''SIX'', ''SEVEN'', ''EIGHT'', ''NINE'',
     ''TEN'', ''ELEVEN'', ''TWELVE'', ''THIRTEEN'', ''FOURTEEN'',
     ''FIFTEEN'', ''SIXTEEN'', ''SEVENTEEN'', ''EIGHTEEN'', ''NINETEEN'',
     ''TWENTY'', ''TWENTY_ONE'', ''TWENTY_TWO'', ''TWENTY_THREE'', ''TWENTY_FOUR'',
     ''TWENTY_FIVE'', ''TWENTY_SIX'', ''TWENTY_SEVEN'', ''TWENTY_EIGHT'', ''TWENTY_NINE'',
     ''THIRTY'', ''THIRTY_ONE'', ''THIRTY_TWO'', ''THIRTY_THREE'', ''THIRTY_FOUR'',
     ''THIRTY_FIVE'', ''THIRTY_SIX'', ''THIRTY_SEVEN'', ''THIRTY_EIGHT'', ''THIRTY_NINE'',
     ''FORTY'', ''FORTY_ONE'', ''FORTY_TWO'', ''FORTY_THREE'', ''FORTY_FOUR'',
     ''FORTY_FIVE'', ''FORTY_SIX'', ''FORTY_SEVEN'', ''FORTY_EIGHT'', ''FORTY_NINE'',
     ''FIFTY'', ''FIFTY_ONE'', ''FIFTY_TWO'', ''FIFTY_THREE'', ''FIFTY_FOUR'',
     ''FIFTY_FIVE'', ''FIFTY_SIX'', ''FIFTY_SEVEN'', ''FIFTY_EIGHT'', ''FIFTY_NINE'']"

definition TOKEN_THE :: string where [cdefs]: "TOKEN_THE = ''THE''"
definition TOKEN_TIME :: string where [cdefs]: "TOKEN_TIME = ''TIME''"
definition TOKEN_IS :: string where [cdefs]: "TOKEN_IS = ''IS''"
definition TOKEN_HOURS :: string where [cdefs]: "TOKEN_HOURS = ''HOURS''"
definition TOKEN_HOUR :: string where [cdefs]: "TOKEN_HOUR = ''HOUR''"
definition TOKEN_MINUTES :: string where [cdefs]: "TOKEN_MINUTES = ''MINUTES''"
definition TOKEN_MINUTE :: string where [cdefs]: "TOKEN_MINUTE = ''MINUTE''"
definition TOKEN_AND :: string where [cdefs]: "TOKEN_AND = ''AND''"
definition TOKEN_SECONDS :: string where [cdefs]: "TOKEN_SECONDS = ''SECONDS''"
definition TOKEN_SECOND :: string where [cdefs]: "TOKEN_SECOND = ''SECOND''"

section \<open>Operations\<close>

definition uart_send_token :: "string \<Rightarrow> 'a uart_scheme \<Rightarrow> 'a uart_scheme option" where
  "uart_send_token token u =
     do { u1 \<leftarrow> uart_puts ''TOKEN '' u;
          u2 \<leftarrow> uart_puts token u1;
          uart_puts crlf u2 }"

definition send_number :: "u8 \<Rightarrow> 'a uart_scheme \<Rightarrow> 'a uart_scheme option" where
  "send_number n u = (if n < 60 then uart_send_token (number_words ! unat n) u else Some u)"

definition speak_time :: "u8 \<Rightarrow> u8 \<Rightarrow> u8 \<Rightarrow> 'a uart_scheme \<Rightarrow> 'a uart_scheme option" where
  "speak_time h m s u =
     do { u \<leftarrow> uart_puts (crlf @ ''--- Speech Output ---'' @ crlf) u;
          u \<leftarrow> uart_send_token TOKEN_THE u;
          u \<leftarrow> uart_send_token TOKEN_TIME u;
          u \<leftarrow> uart_send_token TOKEN_IS u;
          u \<leftarrow> send_number h u;
          u \<leftarrow> uart_send_token (if h = 1 then TOKEN_HOUR else TOKEN_HOURS) u;
          u \<leftarrow> send_number m u;
          u \<leftarrow> uart_send_token (if m = 1 then TOKEN_MINUTE else TOKEN_MINUTES) u;
          u \<leftarrow> uart_send_token TOKEN_AND u;
          u \<leftarrow> send_number s u;
          u \<leftarrow> uart_send_token (if s = 1 then TOKEN_SECOND else TOKEN_SECONDS) u;
          u \<leftarrow> uart_puts (''END'' @ crlf) u;
          uart_puts (''--- End Speech ---'' @ crlf @ crlf) u }"

section \<open>The text of an announcement\<close>

text \<open>The specification: the tokens of a time, and the text that carries them.\<close>

definition number_tokens :: "u8 \<Rightarrow> string list" where
  "number_tokens n = (if unat n < 60 then [number_words ! unat n] else [])"

definition speech_token_list :: "u8 \<Rightarrow> u8 \<Rightarrow> u8 \<Rightarrow> string list" where
  "speech_token_list h m s =
     [TOKEN_THE, TOKEN_TIME, TOKEN_IS]
     @ number_tokens h @ [if unat h = 1 then TOKEN_HOUR else TOKEN_HOURS]
     @ number_tokens m @ [if unat m = 1 then TOKEN_MINUTE else TOKEN_MINUTES]
     @ [TOKEN_AND] @ number_tokens s @ [if unat s = 1 then TOKEN_SECOND else TOKEN_SECONDS]"

definition token_line :: "string \<Rightarrow> string" where
  "token_line t = ''TOKEN '' @ t @ crlf"

definition speech_text :: "u8 \<Rightarrow> u8 \<Rightarrow> u8 \<Rightarrow> string" where
  "speech_text h m s =
     crlf @ ''--- Speech Output ---'' @ crlf
     @ concat (map token_line (speech_token_list h m s))
     @ ''END'' @ crlf @ ''--- End Speech ---'' @ crlf @ crlf"

text \<open>A table word is a non-empty string of capital letters and underscores.\<close>

definition token_char :: "char \<Rightarrow> bool" where
  "token_char c \<longleftrightarrow> c = CHR ''_'' \<or> (65 \<le> (of_char c :: nat) \<and> of_char c \<le> (90 :: nat))"

definition token_word :: "string \<Rightarrow> bool" where
  "token_word t \<longleftrightarrow> t \<noteq> [] \<and> list_all token_char t"

lemma length_number_words: "length number_words = 60"
  by (simp add: number_words_def)

lemma number_words_tokens: "list_all token_word number_words"
  by (simp add: number_words_def token_word_def token_char_def)

lemma distinct_number_words: "distinct number_words"
  by (simp add: number_words_def)

lemma number_word_token: "unat n < 60 \<Longrightarrow> token_word (number_words ! unat n)"
  using number_words_tokens by (simp add: list_all_length length_number_words)

lemma token_char_not:
  "\<not> token_char (CHR 0x00)" "\<not> token_char (CHR '' '')" "\<not> token_char (CHR 0x0D)" "\<not> token_char (CHR 0x0A)"
  by (simp_all add: token_char_def)

lemma token_word_chars:
  "token_word t \<Longrightarrow> CHR 0x00 \<notin> set t \<and> CHR '' '' \<notin> set t \<and> CHR 0x0D \<notin> set t \<and> CHR 0x0A \<notin> set t"
  unfolding token_word_def list_all_iff using token_char_not by blast

lemma fixed_tokens:
  "list_all token_word [TOKEN_THE, TOKEN_TIME, TOKEN_IS, TOKEN_HOURS, TOKEN_HOUR, TOKEN_MINUTES,
     TOKEN_MINUTE, TOKEN_AND, TOKEN_SECONDS, TOKEN_SECOND]"
  by (simp add: cdefs token_word_def token_char_def)

lemma number_tokens_words: "list_all token_word (number_tokens n)"
  by (simp add: number_tokens_def number_word_token)

lemma speech_tokens_words: "list_all token_word (speech_token_list h m s)"
  using fixed_tokens number_tokens_words by (simp add: speech_token_list_def)

section \<open>The announcement is emitted\<close>

lemma nul_free_crlf: "CHR 0x00 \<notin> set crlf"
  by (simp add: crlf_def)

lemma send_token_emitter:
  assumes "token_word t"
  shows "uart_emitter (uart_send_token t) (token_line t)"
proof -
  have nul: "CHR 0x00 \<notin> set t" using token_word_chars assms by blast
  show ?thesis
    unfolding uart_send_token_def token_line_def
    by (intro con.emitter_bind [OF con.emitter_puts con.emitter_bind [OF con.emitter_puts con.emitter_puts]])
      (use nul nul_free_crlf in simp_all)
qed

lemma send_number_emitter: "uart_emitter (send_number n) (concat (map token_line (number_tokens n)))"
proof (cases "unat n < 60")
  case True
  then have "send_number n = (uart_send_token (number_words ! unat n) :: 'a uart_scheme \<Rightarrow> _)"
    by (auto simp: send_number_def word_less_nat_alt)
  with True show ?thesis
    using send_token_emitter [OF number_word_token] by (simp add: number_tokens_def)
next
  case False
  then have "send_number n = (Some :: 'a uart_scheme \<Rightarrow> _)"
    by (auto simp: send_number_def word_less_nat_alt)
  with False show ?thesis using con.emitter_done by (simp add: number_tokens_def)
qed

lemma u8_is_1: "(n :: u8) = 1 \<longleftrightarrow> unat n = 1"
  by (simp add: u8_eq_iff)

lemma fixed_token_words:
  "token_word TOKEN_THE" "token_word TOKEN_TIME" "token_word TOKEN_IS" "token_word TOKEN_AND"
  "token_word (if p then TOKEN_HOUR else TOKEN_HOURS)"
  "token_word (if p then TOKEN_MINUTE else TOKEN_MINUTES)"
  "token_word (if p then TOKEN_SECOND else TOKEN_SECONDS)"
  using fixed_tokens by simp_all

lemma speak_time_emitter: "uart_emitter (speak_time h m s) (speech_text h m s)"
  unfolding speak_time_def u8_is_1
  by (intro con.emitter_bind [OF con.emitter_puts] con.emitter_bind [OF send_token_emitter]
      con.emitter_bind [OF send_number_emitter] con.emitter_puts fixed_token_words refl)
    (simp_all add: crlf_def speech_text_def speech_token_list_def con.emitter_puts)

section \<open>The announcement determines the time\<close>

lemma split_at_first:
  "x \<notin> set a \<Longrightarrow> x \<notin> set b \<Longrightarrow> a @ x # r = b @ x # r' \<longleftrightarrow> a = b \<and> r = r'"
proof (induction a arbitrary: b)
  case Nil
  then show ?case by (cases b) auto
next
  case (Cons y a)
  then show ?case by (cases b) auto
qed

lemma token_line_append_inj:
  "token_word t \<Longrightarrow> token_word t' \<Longrightarrow>
   token_line t @ r = token_line t' @ r' \<longleftrightarrow> t = t' \<and> r = r'"
  using split_at_first [of "CHR 0x0D" t t'] token_word_chars
  by (auto simp: token_line_def crlf_def)

lemma token_lines_inj:
  assumes "length ts = length ts'" and "list_all token_word ts" and "list_all token_word ts'"
    and "concat (map token_line ts) @ r = concat (map token_line ts') @ r'"
  shows "ts = ts'"
  using assms by (induction ts ts' rule: list_induct2) (auto simp: token_line_append_inj)

lemma number_tokens_inj:
  "unat n < 60 \<Longrightarrow> unat n' < 60 \<Longrightarrow> number_tokens n = number_tokens n' \<Longrightarrow> n = n'"
  using distinct_number_words
  by (simp add: number_tokens_def nth_eq_iff_index_eq length_number_words u8_eq_iff)

lemma speech_text_inj:
  assumes "unat h < 60" "unat m < 60" "unat s < 60" "unat h' < 60" "unat m' < 60" "unat s' < 60"
    and "speech_text h m s = speech_text h' m' s'"
  shows "h = h' \<and> m = m' \<and> s = s'"
proof -
  have "speech_token_list h m s = speech_token_list h' m' s'"
  proof (rule token_lines_inj)
    show "length (speech_token_list h m s) = length (speech_token_list h' m' s')"
      using assms(1-6) by (simp add: speech_token_list_def number_tokens_def)
  qed (use assms(7) in \<open>simp_all add: speech_tokens_words speech_text_def\<close>)
  then have "number_tokens h = number_tokens h' \<and> number_tokens m = number_tokens m'
      \<and> number_tokens s = number_tokens s'"
    using assms(1-6) by (simp add: speech_token_list_def number_tokens_def)
  then show ?thesis using number_tokens_inj assms(1-6) by blast
qed

section \<open>Properties\<close>

text \<open>
  C9. Whenever the transmitter drains, \<open>speak_time\<close> returns, and what it has written to
  the UART data register is, character by character, the announcement text of the time:
  the banner, one \<open>TOKEN\<close> line per word with the singular or plural unit, \<open>END\<close> and the
  trailer. This holds for all byte values; a byte of 60 or more has no number word.
\<close>

theorem speak_time_emits_announcement:
  assumes "uart_ready u"
  shows "\<exists>v. speak_time h m s u = Some v
           \<and> uart_tx v = uart_tx u @ map u32_of_char (speech_text h m s)
           \<and> uart_ctrl v = uart_ctrl u \<and> uart_rx_n v = uart_rx_n u \<and> uart_ready v"
proof -
  obtain v where "speak_time h m s u = Some v" "uart_emits u (speech_text h m s) v" "uart_ready v"
    using con.emitter_run [OF speak_time_emitter assms] by blast
  then show ?thesis by (auto simp: uart_emits_def)
qed

definition idle_uart :: uart where
  "idle_uart = \<lparr>uart_state = (\<lambda>_. 0), uart_state_n = 0, uart_rx = (\<lambda>_. 0), uart_rx_n = 0,
     uart_ctrl = 3, uart_bauddiv = 217, uart_tx = [], uart_buf = []\<rparr>"

lemma idle_uart_ready: "uart_ready idle_uart"
  by (auto simp: uart_ready_def idle_uart_def)

theorem speak_time_emits_announcement_witness:
  "uart_ready idle_uart \<and> (\<exists>v. speak_time 9 1 30 idle_uart = Some v
     \<and> uart_tx v = map u32_of_char (speech_text 9 1 30))"
  using speak_time_emits_announcement [OF idle_uart_ready, of 9 1 30] idle_uart_ready
  by (auto simp: idle_uart_def)

text \<open>
  C29. The announcement is unambiguous: two calls of \<open>speak_time\<close> from the same console
  state that write the same characters announce the same hour, minute and second.
\<close>

theorem speak_time_unambiguous:
  assumes "uart_ready u"
    and "unat h < 60" "unat m < 60" "unat s < 60" "unat h' < 60" "unat m' < 60" "unat s' < 60"
    and "speak_time h m s u = Some v" and "speak_time h' m' s' u = Some v'"
    and "uart_tx v = uart_tx v'"
  shows "h = h' \<and> m = m' \<and> s = s'"
proof (rule speech_text_inj)
  have "uart_emits u (speech_text h m s) v"
    using con.emitter_run [OF speak_time_emitter [of h m s] assms(1)] assms(8) by simp
  moreover have "uart_emits u (speech_text h' m' s') v'"
    using con.emitter_run [OF speak_time_emitter [of h' m' s'] assms(1)] assms(9) by simp
  ultimately have "map u32_of_char (speech_text h m s) = map u32_of_char (speech_text h' m' s')"
    using assms(10) by (auto simp: uart_emits_def)
  then show "speech_text h m s = speech_text h' m' s'"
    by (rule map_injective) (simp add: inj_def)
qed (fact assms)+

theorem speak_time_unambiguous_witness:
  "\<exists>v. speak_time 9 1 30 idle_uart = Some v \<and> (9 :: u8) = 9 \<and> (1 :: u8) = 1 \<and> (30 :: u8) = 30"
proof -
  obtain v where "speak_time 9 1 30 idle_uart = Some v"
    using con.emitter_run [OF speak_time_emitter idle_uart_ready] by blast
  with speak_time_unambiguous [OF idle_uart_ready _ _ _ _ _ _ this this refl] show ?thesis by simp
qed

end
