(* ===== verification/Tts_Bridge.thy ===== *)
theory Tts_Bridge
  imports Speech
begin

text \<open>
  The consumer of the token stream, \<open>scripts/tts_bridge.py\<close>: \<open>token_to_word\<close>,
  \<open>process_line\<close> and the reader thread \<open>read_output\<close> of the interactive mode, on
  ASCII bytes (on which UTF-8 decoding is the identity). Effects on the terminal and on
  eSpeak are the events of the result. The lemmas show that the bridge speaks exactly the
  sentence the firmware announced.
\<close>

section \<open>Strings as Python has them\<close>

definition py_space :: "char \<Rightarrow> bool" where
  "py_space c = (let n = (of_char c :: nat) in (9 \<le> n \<and> n \<le> 13) \<or> (28 \<le> n \<and> n \<le> 32))"

definition py_strip :: "string \<Rightarrow> string" where
  "py_strip s = rev (dropWhile py_space (rev (dropWhile py_space s)))"

definition py_lower :: "char \<Rightarrow> char" where
  "py_lower c = (let n = (of_char c :: nat) in if 65 \<le> n \<and> n \<le> 90 then char_of (n + 32) else c)"

fun py_join :: "string \<Rightarrow> string list \<Rightarrow> string" where
  "py_join sep [] = []"
| "py_join sep [s] = s"
| "py_join sep (s # t # ts) = s @ sep @ py_join sep (t # ts)"

section \<open>The bridge\<close>

datatype bridge_event = Echo char | Printed string | Spoke string

definition token_to_word :: "string \<Rightarrow> string" where
  "token_to_word token =
     map (\<lambda>c. if c = CHR ''_'' then CHR '' '' else c) (map py_lower token)"

definition process_line :: "string \<Rightarrow> string list \<Rightarrow> bool \<times> string list \<times> bridge_event list" where
  "process_line raw tokens =
     (let line = py_strip raw in
      if take 6 line = ''TOKEN '' then
        (let word = py_strip (drop 6 line)
         in (False, if word \<noteq> [] then tokens @ [token_to_word word] else tokens, []))
      else if line = ''END'' then
        (if tokens \<noteq> [] then (True, [], [Spoke (py_join '' '' tokens)]) else (True, tokens, []))
      else (False, tokens, if line \<noteq> [] then [Printed line] else []))"

fun read_output :: "string \<Rightarrow> string \<Rightarrow> string list \<Rightarrow> string \<times> string list \<times> bridge_event list" where
  "read_output [] buf tokens = (buf, tokens, [])"
| "read_output (d # ds) buf tokens =
     (if d = CHR 0x0A then
        (let line = filter (\<lambda>c. c \<noteq> CHR 0x0D) buf;
             (r, tokens', ev) = process_line line tokens;
             (buf', tokens'', ev') = read_output ds [] tokens'
         in (buf', tokens'', Echo d # ev @ ev'))
      else
        (let (buf', tokens', ev') = read_output ds (buf @ [d]) tokens
         in (buf', tokens', Echo d # ev')))"

fun spoken :: "bridge_event list \<Rightarrow> string list" where
  "spoken [] = []"
| "spoken (Spoke s # es) = s # spoken es"
| "spoken (_ # es) = spoken es"

section \<open>Reading a line\<close>

lemma spoken_append [simp]: "spoken (xs @ ys) = spoken xs @ spoken ys"
  by (induction xs rule: spoken.induct) auto

lemma py_strip_trim:
  assumes "s \<noteq> []" and "\<not> py_space (hd s)" and "\<not> py_space (last s)"
  shows "py_strip s = s"
proof -
  have "dropWhile py_space s = s" using assms by (cases s) auto
  moreover have "dropWhile py_space (rev s) = rev s"
    using assms by (cases "rev s") (auto simp: hd_rev [symmetric])
  ultimately show ?thesis by (simp add: py_strip_def)
qed

text \<open>The effect of one complete line on the tokens and on the sentences spoken.\<close>

lemma read_output_line:
  assumes "CHR 0x0A \<notin> set l" and "CHR 0x0D \<notin> set buf \<union> set l"
    and "process_line (buf @ l) tokens = (r, tokens', ev)"
    and "read_output rest [] tokens' = (buf'', tokens'', ev'')"
  shows "\<exists>es. read_output (l @ crlf @ rest) buf tokens = (buf'', tokens'', es)
              \<and> spoken es = spoken ev @ spoken ev''"
  using assms
proof (induction l arbitrary: buf)
  case Nil
  have "filter (\<lambda>c. c \<noteq> CHR 0x0D) buf = buf"
    using Nil.prems(2) by (auto intro!: filter_True)
  with Nil.prems show ?case by (simp add: crlf_def)
next
  case (Cons c l)
  have "\<exists>es. read_output (l @ crlf @ rest) (buf @ [c]) tokens = (buf'', tokens'', es)
              \<and> spoken es = spoken ev @ spoken ev''"
    by (rule Cons.IH) (use Cons.prems in auto)
  with Cons.prems(1) show ?case by auto
qed

definition says :: "string \<Rightarrow> string list \<Rightarrow> string list \<Rightarrow> string list \<Rightarrow> bool" where
  "says ds tokens tokens' ss \<longleftrightarrow>
     (\<forall>rest buf'' tokens'' ev''. read_output rest [] tokens' = (buf'', tokens'', ev'')
        \<longrightarrow> (\<exists>es. read_output (ds @ rest) [] tokens = (buf'', tokens'', es) \<and> spoken es = ss @ spoken ev''))"

lemma says_line:
  assumes "CHR 0x0A \<notin> set l" and "CHR 0x0D \<notin> set l"
    and "process_line l tokens = (r, tokens', ev)"
  shows "says (l @ crlf) tokens tokens' (spoken ev)"
  unfolding says_def using read_output_line [of l "[]" tokens r tokens' ev] assms by auto

lemma says_append: "says ds a b ss \<Longrightarrow> says ds' b c ss' \<Longrightarrow> says (ds @ ds') a c (ss @ ss')"
  unfolding says_def by (metis append.assoc)

lemma says_nil: "says [] a a []"
  unfolding says_def by simp

lemma says_done: "says ds a b ss \<Longrightarrow> \<exists>es. read_output ds [] a = ([], b, es) \<and> spoken es = ss"
  unfolding says_def by (metis append_Nil2 read_output.simps(1) spoken.simps(1))

section \<open>The lines of an announcement\<close>

lemma token_char_not_space: "token_char c \<Longrightarrow> \<not> py_space c"
  by (auto simp: token_char_def py_space_def Let_def)

lemma py_strip_word: "token_word t \<Longrightarrow> py_strip t = t"
  by (rule py_strip_trim) (auto simp: token_word_def list_all_iff token_char_not_space)

lemma process_token_line:
  assumes "token_word t"
  shows "process_line (''TOKEN '' @ t) tokens = (False, tokens @ [token_to_word t], [])"
proof -
  have "last t \<in> set t" using assms by (simp add: token_word_def)
  then have "\<not> py_space (last t)"
    using assms token_char_not_space by (auto simp: token_word_def list_all_iff)
  moreover have "\<not> py_space (CHR ''T'')" by (simp add: py_space_def)
  ultimately have "py_strip (''TOKEN '' @ t) = ''TOKEN '' @ t"
    using assms by (intro py_strip_trim) (auto simp: token_word_def)
  with assms show ?thesis
    by (simp add: process_line_def py_strip_word token_word_def)
qed

lemma says_tokens:
  "list_all token_word ts \<Longrightarrow>
   says (concat (map token_line ts)) tokens (tokens @ map token_to_word ts) []"
proof (induction ts arbitrary: tokens)
  case Nil
  then show ?case by (simp add: says_nil)
next
  case (Cons t ts)
  have "says ((''TOKEN '' @ t) @ crlf) tokens (tokens @ [token_to_word t]) (spoken [])"
    by (rule says_line [OF _ _ process_token_line]) (use Cons.prems token_word_chars in auto)
  from says_append [OF this Cons.IH] Cons.prems show ?case by (simp add: token_line_def)
qed

definition announced_sentence :: "u8 \<Rightarrow> u8 \<Rightarrow> u8 \<Rightarrow> string" where
  "announced_sentence h m s = py_join '' '' (map token_to_word (speech_token_list h m s))"

lemma says_plain:
  assumes "CHR 0x0A \<notin> set l" "CHR 0x0D \<notin> set l"
    and "snd (process_line l tokens) = (tokens', ev)" and "ss = spoken ev"
  shows "says (l @ crlf) tokens tokens' ss"
  unfolding assms(4) by (rule says_line [OF assms(1,2)]) (use assms(3) in \<open>simp add: prod_eq_iff\<close>)

lemma says_speech: "says (speech_text h m s) [] [] [announced_sentence h m s]"
proof -
  let ?ts = "speech_token_list h m s"
  let ?ws = "map token_to_word ?ts"
  have ne: "?ws \<noteq> []" by (simp add: speech_token_list_def)
  have 1: "says crlf [] [] []"
    using says_plain [where l = "[]"] by (simp add: process_line_def py_strip_def)
  have 2: "says (''--- Speech Output ---'' @ crlf) [] [] []"
    by (rule says_plain [where ev = "[Printed ''--- Speech Output ---'']"])
      (simp_all add: process_line_def py_strip_def py_space_def)
  have 3: "says (concat (map token_line ?ts)) [] ?ws []"
    using says_tokens [OF speech_tokens_words, of h m s "[]"] by simp
  have 4: "says (''END'' @ crlf) ?ws [] [announced_sentence h m s]"
    using ne
    by (intro says_plain [where ev = "[Spoke (announced_sentence h m s)]"])
      (simp_all add: process_line_def py_strip_def py_space_def announced_sentence_def)
  have 5: "says (''--- End Speech ---'' @ crlf) [] [] []"
    by (rule says_plain [where ev = "[Printed ''--- End Speech ---'']"])
      (simp_all add: process_line_def py_strip_def py_space_def)
  from says_append [OF 1 says_append [OF 2 says_append [OF 3 says_append [OF 4 says_append [OF 5 1]]]]]
  show ?thesis by (simp add: speech_text_def)
qed

section \<open>Properties\<close>

text \<open>
  C10. End to end from firmware to speech: feeding the characters \<open>speak_time\<close> writes to
  the UART into the reader of the bridge makes it speak exactly one sentence, the
  announced words in lower case with underscores as spaces, and leaves no partial line and
  no token behind, so that the next announcement starts clean.
\<close>

theorem bridge_speaks_announcement:
  assumes "uart_ready u" and "uart_tx u = []"
  shows "\<exists>v es. speak_time h m s u = Some v
           \<and> read_output (map char_of_u32 (uart_tx v)) [] [] = ([], [], es)
           \<and> spoken es = [announced_sentence h m s]"
proof -
  obtain v where "speak_time h m s u = Some v" "uart_emits u (speech_text h m s) v"
    using con.emitter_run [OF speak_time_emitter assms(1)] by blast
  moreover from this have "map char_of_u32 (uart_tx v) = speech_text h m s"
    using assms(2) by (auto simp: uart_emits_def comp_def)
  ultimately show ?thesis using says_done [OF says_speech] by auto
qed

theorem bridge_speaks_announcement_witness:
  "(\<exists>v es. speak_time 14 1 32 idle_uart = Some v
      \<and> read_output (map char_of_u32 (uart_tx v)) [] [] = ([], [], es)
      \<and> spoken es = [announced_sentence 14 1 32])
   \<and> announced_sentence 14 1 32 = ''the time is fourteen hours one minute and thirty two seconds''"
proof (intro conjI)
  show "\<exists>v es. speak_time 14 1 32 idle_uart = Some v
      \<and> read_output (map char_of_u32 (uart_tx v)) [] [] = ([], [], es)
      \<and> spoken es = [announced_sentence 14 1 32]"
    by (rule bridge_speaks_announcement [OF idle_uart_ready]) (simp add: idle_uart_def)
  show "announced_sentence 14 1 32 = ''the time is fourteen hours one minute and thirty two seconds''"
    by code_simp
qed

end
