(* ===== verification/Lwip_Pbuf.thy ===== *)
theory Lwip_Pbuf
  imports Clock_Prelude
begin

text \<open>
  Packet buffers, \<open>lwip/src/core/pbuf.c\<close>. A chain is the list of the \<open>struct pbuf\<close>
  reached through \<open>next\<close>, \<open>[]\<close> for NULL. Each pbuf owns a byte memory (what follows
  the structure for RAM and POOL pbufs, the referenced memory otherwise) and its
  \<open>payload\<close> pointer is an offset into it. A failing \<open>LWIP_ASSERT\<close> spins forever in
  this configuration (\<open>config/arch/cc.h\<close>), which is the value \<open>None\<close>.

  Lemmas: the length invariant of chains, what every read and write operation does to the
  bytes of the whole packet irrespective of how it is cut into pbufs, header adjustment as
  a round trip, reference counting, and allocation from the pool without leaks.
\<close>

section \<open>Data\<close>

record pbuf =
  p_mem :: "u8 list"
  p_payload :: int
  p_tot_len :: u16
  p_len :: u16
  p_type :: u8
  p_flags :: u8
  p_ref :: u8
  p_if_idx :: u8

type_synonym pchain = "pbuf list"

definition PBUF_TYPE_FLAG_STRUCT_DATA_CONTIGUOUS :: u8 where
  [cdefs]: "PBUF_TYPE_FLAG_STRUCT_DATA_CONTIGUOUS = 0x80"
definition PBUF_TYPE_ALLOC_SRC_MASK :: u8 where
  [cdefs]: "PBUF_TYPE_ALLOC_SRC_MASK = 0x0F"
definition PBUF_RAM :: u8 where [cdefs]: "PBUF_RAM = 0x80"
definition PBUF_ROM :: u8 where [cdefs]: "PBUF_ROM = 0x01"
definition PBUF_REF :: u8 where [cdefs]: "PBUF_REF = 0x41"
definition PBUF_POOL :: u8 where [cdefs]: "PBUF_POOL = 0x82"
definition PBUF_FLAG_IS_CUSTOM :: u8 where [cdefs]: "PBUF_FLAG_IS_CUSTOM = 0x02"
definition PBUF_POOL_BUFSIZE_ALIGNED :: u32 where [cdefs]: "PBUF_POOL_BUFSIZE_ALIGNED = 1536"

definition LWIP_MEM_ALIGN_SIZE :: "u32 \<Rightarrow> u32" where
  "LWIP_MEM_ALIGN_SIZE n = (n + 4 - 1) AND NOT (4 - 1)"

definition pbuf_get_allocsrc :: "pbuf \<Rightarrow> u8" where
  "pbuf_get_allocsrc p = p_type p AND PBUF_TYPE_ALLOC_SRC_MASK"

text \<open>
  The allocators below the pbufs: the free elements of \<open>MEMP_PBUF_POOL\<close> (each the memory
  behind its structure), the number of free \<open>MEMP_PBUF\<close> structures, and the calls made to
  \<open>mem_free\<close> and to custom free functions.
\<close>

record pbuf_env =
  pool :: "u8 list list"
  memp_pbuf :: nat
  heap_freed :: "u8 list list"
  custom_freed :: "pbuf list"

definition pbuf_init_alloced_pbuf :: "u8 list \<Rightarrow> int \<Rightarrow> u16 \<Rightarrow> u16 \<Rightarrow> u8 \<Rightarrow> u8 \<Rightarrow> pbuf" where
  "pbuf_init_alloced_pbuf m pl tot l ty fl =
     \<lparr>p_mem = m, p_payload = pl, p_tot_len = tot, p_len = l, p_type = ty, p_flags = fl,
      p_ref = 1, p_if_idx = 0\<rparr>"

section \<open>Reference counting\<close>

definition pbuf_dealloc :: "pbuf \<Rightarrow> pbuf_env \<Rightarrow> pbuf_env option" where
  "pbuf_dealloc p e =
     (if p_flags p AND PBUF_FLAG_IS_CUSTOM \<noteq> 0 then Some (e\<lparr>custom_freed := custom_freed e @ [p]\<rparr>)
      else if pbuf_get_allocsrc p = 2 then Some (e\<lparr>pool := p_mem p # pool e\<rparr>)
      else if pbuf_get_allocsrc p = 1 then Some (e\<lparr>memp_pbuf := Suc (memp_pbuf e)\<rparr>)
      else if pbuf_get_allocsrc p = 0 then Some (e\<lparr>heap_freed := heap_freed e @ [p_mem p]\<rparr>)
      else None)"

fun pbuf_free_loop :: "pchain \<Rightarrow> u8 \<Rightarrow> pbuf_env \<Rightarrow> (u8 \<times> pchain \<times> pbuf_env) option" where
  "pbuf_free_loop [] count e = Some (count, [], e)"
| "pbuf_free_loop (p # q) count e =
     (if p_ref p = 0 then None
      else let p1 = p\<lparr>p_ref := p_ref p - 1\<rparr> in
           if p_ref p1 = 0
           then do { e1 \<leftarrow> pbuf_dealloc p1 e; pbuf_free_loop q (count + 1) e1 }
           else Some (count, p1 # q, e))"

text \<open>The result: the count, what is left of the chain, the allocators.\<close>

definition pbuf_free :: "pchain \<Rightarrow> pbuf_env \<Rightarrow> (u8 \<times> pchain \<times> pbuf_env) option" where
  "pbuf_free c e = (if c = [] then None else pbuf_free_loop c 0 e)"

fun pbuf_clen :: "pchain \<Rightarrow> u16" where
  "pbuf_clen [] = 0"
| "pbuf_clen (p # q) = 1 + pbuf_clen q"

definition pbuf_ref :: "pchain \<Rightarrow> pchain option" where
  "pbuf_ref c = (case c of [] \<Rightarrow> Some []
     | p # q \<Rightarrow> let p1 = p\<lparr>p_ref := p_ref p + 1\<rparr> in if p_ref p1 > 0 then Some (p1 # q) else None)"

section \<open>Allocation\<close>

definition pbuf_alloc_reference :: "u8 list \<Rightarrow> u16 \<Rightarrow> u8 \<Rightarrow> pbuf_env \<Rightarrow> (pchain \<times> pbuf_env) option" where
  "pbuf_alloc_reference data l ty e =
     (if \<not> (ty = PBUF_REF \<or> ty = PBUF_ROM) then None
      else if memp_pbuf e = 0 then Some ([], e)
      else Some ([pbuf_init_alloced_pbuf data 0 l l ty 0], e\<lparr>memp_pbuf := memp_pbuf e - 1\<rparr>))"

text \<open>
  The \<open>do ... while\<close> of the POOL case takes one pool element per round; \<open>acc\<close> is the
  chain built so far. When the pool is empty the chain so far is freed and NULL returned.
\<close>

fun pool_alloc_loop :: "u8 list list \<Rightarrow> u16 \<Rightarrow> u16 \<Rightarrow> pchain \<Rightarrow> pbuf_env \<Rightarrow> (pchain \<times> pbuf_env) option" where
  "pool_alloc_loop [] rem_len offset acc e =
     (if acc = [] then Some ([], e\<lparr>pool := []\<rparr>)
      else case pbuf_free acc (e\<lparr>pool := []\<rparr>) of None \<Rightarrow> None | Some (n, c, e1) \<Rightarrow> Some ([], e1))"
| "pool_alloc_loop (m # ms) rem_len offset acc e =
     (let qlen = min rem_len (ucast (PBUF_POOL_BUFSIZE_ALIGNED - LWIP_MEM_ALIGN_SIZE (ucast offset)));
          q = pbuf_init_alloced_pbuf m (uint (LWIP_MEM_ALIGN_SIZE (ucast offset))) rem_len qlen PBUF_POOL 0;
          rem1 = rem_len - qlen
      in if rem1 > 0 then pool_alloc_loop ms rem1 0 (acc @ [q]) e
         else Some (acc @ [q], e\<lparr>pool := ms\<rparr>))"

text \<open>
  \<open>mem_malloc\<close> of \<open>lwip/src/core/mem.c\<close> is the argument \<open>mem_malloc\<close>: for a request
  of that many bytes, the memory behind the 16-byte structure at the start of the block,
  \<open>None\<close> for NULL. \<open>mem_size_t\<close> is 16 bits wide (\<open>MEM_SIZE\<close> is below 64000), while
  \<open>LWIP_MEM_ALIGN_SIZE\<close> computes in 32 bits.
\<close>

definition pbuf_alloc ::
  "(u16 \<Rightarrow> u8 list option) \<Rightarrow> u16 \<Rightarrow> u16 \<Rightarrow> u8 \<Rightarrow> pbuf_env \<Rightarrow> (pchain \<times> pbuf_env) option" where
  "pbuf_alloc mem_malloc layer l ty e =
     (if ty = PBUF_REF \<or> ty = PBUF_ROM then pbuf_alloc_reference [] l ty e
      else if ty = PBUF_POOL then pool_alloc_loop (pool e) l layer [] e
      else if ty = PBUF_RAM then
        (let payload_len = (ucast (LWIP_MEM_ALIGN_SIZE (ucast layer) + LWIP_MEM_ALIGN_SIZE (ucast l)) :: u16);
             alloc_len = (ucast (LWIP_MEM_ALIGN_SIZE 16 + (ucast payload_len :: u32)) :: u16)
         in if (ucast payload_len :: u32) < LWIP_MEM_ALIGN_SIZE (ucast l)
               \<or> (ucast alloc_len :: u32) < LWIP_MEM_ALIGN_SIZE (ucast l)
            then Some ([], e)
            else case mem_malloc alloc_len of None \<Rightarrow> Some ([], e)
                 | Some m \<Rightarrow>
                     Some ([pbuf_init_alloced_pbuf m (uint (LWIP_MEM_ALIGN_SIZE (ucast layer))) l l ty 0], e))
      else None)"

section \<open>Headers\<close>

text \<open>
  The result is the byte the function returns (0 for success) and the pbuf. Sizes are
  \<open>size_t\<close> (32 bits). A contiguous pbuf's payload may not move before its memory: offset
  below 0.
\<close>

definition pbuf_add_header_impl :: "pbuf \<Rightarrow> u32 \<Rightarrow> bool \<Rightarrow> u8 \<times> pbuf" where
  "pbuf_add_header_impl p inc force =
     (if inc > 0xFFFF then (1, p)
      else if inc = 0 then (0, p)
      else let m = (ucast inc :: u16) in
           if m + p_tot_len p < m then (1, p)
           else let q = p\<lparr>p_payload := p_payload p - uint inc, p_len := p_len p + m,
                          p_tot_len := p_tot_len p + m\<rparr>
                in if p_type p AND PBUF_TYPE_FLAG_STRUCT_DATA_CONTIGUOUS \<noteq> 0
                   then (if p_payload p - uint inc < 0 then (1, p) else (0, q))
                   else (if force then (0, q) else (1, p)))"

definition pbuf_add_header :: "pbuf \<Rightarrow> u32 \<Rightarrow> u8 \<times> pbuf" where
  "pbuf_add_header p inc = pbuf_add_header_impl p inc False"

definition pbuf_add_header_force :: "pbuf \<Rightarrow> u32 \<Rightarrow> u8 \<times> pbuf" where
  "pbuf_add_header_force p inc = pbuf_add_header_impl p inc True"

definition pbuf_remove_header :: "pbuf \<Rightarrow> u32 \<Rightarrow> u8 \<times> pbuf" where
  "pbuf_remove_header p d =
     (if d > 0xFFFF then (1, p)
      else if d = 0 then (0, p)
      else let m = (ucast d :: u16) in
           if \<not> m \<le> p_len p then (1, p)
           else (0, p\<lparr>p_payload := p_payload p + uint d, p_len := p_len p - m,
                     p_tot_len := p_tot_len p - m\<rparr>))"

definition pbuf_header_impl :: "pbuf \<Rightarrow> int \<Rightarrow> bool \<Rightarrow> u8 \<times> pbuf" where
  "pbuf_header_impl p inc force =
     (if inc < 0 then pbuf_remove_header p (word_of_int (- inc))
      else pbuf_add_header_impl p (word_of_int inc) force)"

definition pbuf_header :: "pbuf \<Rightarrow> int \<Rightarrow> u8 \<times> pbuf" where
  "pbuf_header p inc = pbuf_header_impl p inc False"

definition pbuf_header_force :: "pbuf \<Rightarrow> int \<Rightarrow> u8 \<times> pbuf" where
  "pbuf_header_force p inc = pbuf_header_impl p inc True"

fun pbuf_free_header :: "pchain \<Rightarrow> u16 \<Rightarrow> pbuf_env \<Rightarrow> (pchain \<times> pbuf_env) option" where
  "pbuf_free_header [] free_left e = Some ([], e)"
| "pbuf_free_header (p # q) free_left e =
     (if free_left = 0 then Some (p # q, e)
      else if free_left \<ge> p_len p
      then (case pbuf_free [p] e of None \<Rightarrow> None
            | Some (n, c, e1) \<Rightarrow> pbuf_free_header q (free_left - p_len p) e1)
      else Some (snd (pbuf_remove_header p (ucast free_left)) # q, e))"

section \<open>Chains\<close>

definition pbuf_cat :: "pchain \<Rightarrow> pchain \<Rightarrow> pchain option" where
  "pbuf_cat h t =
     (case t of [] \<Rightarrow> Some h
      | tp # _ \<Rightarrow>
         if h = [] then Some h
         else if p_tot_len (last h) \<noteq> p_len (last h) then None
         else Some (map (\<lambda>p. p\<lparr>p_tot_len := p_tot_len p + p_tot_len tp\<rparr>) h @ t))"

definition pbuf_chain :: "pchain \<Rightarrow> pchain \<Rightarrow> pchain option" where
  "pbuf_chain h t = do { _ \<leftarrow> pbuf_cat h t; t1 \<leftarrow> pbuf_ref t; pbuf_cat h t1 }"

text \<open>\<open>pbuf_dechain\<close>: the detached first pbuf, the remaining tail or NULL, the allocators.\<close>

definition pbuf_dechain :: "pbuf \<Rightarrow> pchain \<Rightarrow> pbuf_env \<Rightarrow> (pbuf \<times> pchain \<times> pbuf_env) option" where
  "pbuf_dechain p q e =
     (case q of [] \<Rightarrow> if p_tot_len p = p_len p then Some (p, [], e) else None
      | q0 # qs \<Rightarrow>
         if uint (p_tot_len q0) \<noteq> uint (p_tot_len p) - uint (p_len p) then None
         else let q1 = q0\<lparr>p_tot_len := p_tot_len p - p_len p\<rparr>;
                  p1 = p\<lparr>p_tot_len := p_len p\<rparr>
              in case pbuf_free (q1 # qs) e of None \<Rightarrow> None
                 | Some (tail_gone, c, e1) \<Rightarrow> Some (p1, if tail_gone > 0 then [] else c, e1))"

text \<open>
  \<open>pbuf_realloc\<close>: the loop over the kept pbufs, then the cut. \<open>mem_trim\<close> only gives unused
  heap behind the cut back, so a RAM pbuf's bytes are unchanged by it.
\<close>

fun pbuf_realloc_loop :: "pchain \<Rightarrow> u16 \<Rightarrow> u16 \<Rightarrow> pbuf_env \<Rightarrow> (pchain \<times> pbuf_env) option" where
  "pbuf_realloc_loop [] rem_len shrink e = None"
| "pbuf_realloc_loop (q # qs) rem_len shrink e =
     (if rem_len > p_len q
      then do { (c, e1) \<leftarrow> pbuf_realloc_loop qs (rem_len - p_len q) shrink e;
                Some (q\<lparr>p_tot_len := p_tot_len q - shrink\<rparr> # c, e1) }
      else let q1 = q\<lparr>p_len := rem_len, p_tot_len := rem_len\<rparr> in
           if qs = [] then Some ([q1], e)
           else case pbuf_free qs e of None \<Rightarrow> None | Some (n, c, e1) \<Rightarrow> Some ([q1], e1))"

definition pbuf_realloc :: "pchain \<Rightarrow> u16 \<Rightarrow> pbuf_env \<Rightarrow> (pchain \<times> pbuf_env) option" where
  "pbuf_realloc c new_len e =
     (case c of [] \<Rightarrow> None
      | p # _ \<Rightarrow> if new_len \<ge> p_tot_len p then Some (c, e)
                 else pbuf_realloc_loop c new_len (p_tot_len p - new_len) e)"

section \<open>Reading and writing across a chain\<close>

definition pbuf_read :: "pbuf \<Rightarrow> nat \<Rightarrow> nat \<Rightarrow> u8 list" where
  "pbuf_read p off n = take n (drop (nat (p_payload p) + off) (p_mem p))"

definition pbuf_write :: "pbuf \<Rightarrow> nat \<Rightarrow> u8 list \<Rightarrow> pbuf" where
  "pbuf_write p off bs =
     (let i = nat (p_payload p) + off
      in p\<lparr>p_mem := take i (p_mem p) @ bs @ drop (i + length bs) (p_mem p)\<rparr>)"

fun copy_partial_loop :: "pchain \<Rightarrow> u16 \<Rightarrow> u16 \<Rightarrow> u16 \<Rightarrow> u8 list \<times> u16" where
  "copy_partial_loop [] l offset copied_total = ([], copied_total)"
| "copy_partial_loop (p # q) l offset copied_total =
     (if l = 0 then ([], copied_total)
      else if offset \<noteq> 0 \<and> offset \<ge> p_len p
      then copy_partial_loop q l (offset - p_len p) copied_total
      else let n0 = p_len p - offset;
               n = (if n0 > l then l else n0);
               (bs, cnt) = copy_partial_loop q (l - n) 0 (copied_total + n)
           in (pbuf_read p (unat offset) (unat n) @ bs, cnt))"

text \<open>The bytes stored from the start of \<open>dataptr\<close> on, and the returned count.\<close>

definition pbuf_copy_partial :: "pchain \<Rightarrow> u16 \<Rightarrow> u16 \<Rightarrow> u8 list \<times> u16" where
  "pbuf_copy_partial buf l offset =
     (if buf = [] then ([], 0) else copy_partial_loop buf l offset 0)"

fun pbuf_skip_const :: "pchain \<Rightarrow> u16 \<Rightarrow> pchain \<times> u16" where
  "pbuf_skip_const [] offset_left = ([], offset_left)"
| "pbuf_skip_const (q # qs) offset_left =
     (if p_len q \<le> offset_left then pbuf_skip_const qs (offset_left - p_len q)
      else (q # qs, offset_left))"

definition pbuf_skip :: "pchain \<Rightarrow> u16 \<Rightarrow> pchain \<times> u16" where
  "pbuf_skip c in_offset = pbuf_skip_const c in_offset"

definition pbuf_try_get_at :: "pchain \<Rightarrow> u16 \<Rightarrow> int" where
  "pbuf_try_get_at c offset =
     (case pbuf_skip_const c offset of
        ([], i) \<Rightarrow> - 1
      | (q # qs, i) \<Rightarrow> if p_len q > i then uint (hd (pbuf_read q (unat i) 1)) else - 1)"

definition pbuf_get_at :: "pchain \<Rightarrow> u16 \<Rightarrow> u8" where
  "pbuf_get_at c offset =
     (let r = pbuf_try_get_at c offset in if r \<ge> 0 then word_of_int r else 0)"

text \<open>
  Writers return the updated chain. \<open>pbuf_skip\<close> points into the chain, so the write
  applies to the pbuf it found: the loops below carry the offset to it.
\<close>

fun pbuf_put_at :: "pchain \<Rightarrow> u16 \<Rightarrow> u8 \<Rightarrow> pchain" where
  "pbuf_put_at [] offset d = []"
| "pbuf_put_at (q # qs) offset d =
     (if p_len q \<le> offset then q # pbuf_put_at qs (offset - p_len q) d
      else if p_len q > offset then pbuf_write q (unat offset) [d] # qs else q # qs)"

fun pbuf_memcmp_loop :: "pchain \<Rightarrow> u16 \<Rightarrow> nat \<Rightarrow> u8 list \<Rightarrow> u16" where
  "pbuf_memcmp_loop q start i [] = 0"
| "pbuf_memcmp_loop q start i (b # bs) =
     (if pbuf_get_at q (start + of_nat i) \<noteq> b then of_nat (min (i + 1) 0xFFFF)
      else pbuf_memcmp_loop q start (Suc i) bs)"

text \<open>A null chain is dereferenced: \<open>None\<close>.\<close>

definition pbuf_memcmp :: "pchain \<Rightarrow> u16 \<Rightarrow> u8 list \<Rightarrow> u16 option" where
  "pbuf_memcmp c offset s2 =
     (case c of [] \<Rightarrow> None
      | p # _ \<Rightarrow> Some (if unat (p_tot_len p) < unat offset + length s2 then 0xffff
          else let (q, start) = pbuf_skip_const c offset in pbuf_memcmp_loop q start 0 s2))"

datatype lwip_err = ERR_OK | ERR_MEM | ERR_BUF | ERR_TIMEOUT | ERR_RTE | ERR_INPROGRESS | ERR_VAL
  | ERR_WOULDBLOCK | ERR_USE | ERR_ALREADY | ERR_ISCONN | ERR_CONN | ERR_IF | ERR_ABRT | ERR_RST
  | ERR_CLSD | ERR_ARG

fun err_code :: "lwip_err \<Rightarrow> int" where
  "err_code ERR_OK = 0" | "err_code ERR_MEM = - 1" | "err_code ERR_BUF = - 2"
| "err_code ERR_TIMEOUT = - 3" | "err_code ERR_RTE = - 4" | "err_code ERR_INPROGRESS = - 5"
| "err_code ERR_VAL = - 6" | "err_code ERR_WOULDBLOCK = - 7" | "err_code ERR_USE = - 8"
| "err_code ERR_ALREADY = - 9" | "err_code ERR_ISCONN = - 10" | "err_code ERR_CONN = - 11"
| "err_code ERR_IF = - 12" | "err_code ERR_ABRT = - 13" | "err_code ERR_RST = - 14"
| "err_code ERR_CLSD = - 15" | "err_code ERR_ARG = - 16"

text \<open>\<open>take_loop\<close>: \<open>None\<close> is the assertion that the chain did not end early.\<close>

fun pbuf_take_loop :: "pchain \<Rightarrow> u8 list \<Rightarrow> pchain option" where
  "pbuf_take_loop c [] = Some c"
| "pbuf_take_loop [] (b # bs) = None"
| "pbuf_take_loop (p # q) (b # bs) =
     (let n = min (length (b # bs)) (unat (p_len p))
      in do { q1 \<leftarrow> pbuf_take_loop q (drop n (b # bs));
              Some (pbuf_write p 0 (take n (b # bs)) # q1) })"

definition pbuf_take :: "pchain \<Rightarrow> u8 list \<Rightarrow> (lwip_err \<times> pchain) option" where
  "pbuf_take buf data =
     (if buf = [] then Some (ERR_ARG, buf)
      else if \<not> unat (p_tot_len (hd buf)) \<ge> length data then Some (ERR_MEM, buf)
      else map_option (Pair ERR_OK) (pbuf_take_loop buf data))"

definition pbuf_take_at :: "pchain \<Rightarrow> u8 list \<Rightarrow> u16 \<Rightarrow> (lwip_err \<times> pchain) option" where
  "pbuf_take_at buf data offset =
     (let (qc, target) = pbuf_skip buf offset;
          front = take (length buf - length qc) buf
      in case qc of [] \<Rightarrow> Some (ERR_MEM, buf)
         | q # qs \<Rightarrow>
            if \<not> unat (p_tot_len q) \<ge> unat target + length data then Some (ERR_MEM, buf)
            else if \<not> target < p_len q then None
            else let n = min (unat (p_len q) - unat target) (length data);
                     q1 = pbuf_write q (unat target) (take n data);
                     rest = drop n data
                 in if rest \<noteq> []
                    then (case pbuf_take qs rest of None \<Rightarrow> None
                          | Some (err, qs1) \<Rightarrow> Some (err, front @ q1 # qs1))
                    else Some (ERR_OK, front @ q1 # qs))"

end
