(* ===== verification/Lwip_Pbuf_Proofs.thy ===== *)
theory Lwip_Pbuf_Proofs
  imports Lwip_Pbuf "HOL-Library.Multiset"
begin

text \<open>
  Proofs about packet buffers: the chain invariant, the bytes of a packet, and the
  correctness of the operations of \<open>Lwip_Pbuf\<close> over them.
\<close>

section \<open>The chain invariant and the bytes of a packet\<close>

definition pbuf_ok :: "pbuf \<Rightarrow> bool" where
  "pbuf_ok p \<longleftrightarrow> 0 \<le> p_payload p \<and> nat (p_payload p) + unat (p_len p) \<le> length (p_mem p)"

definition pbuf_data :: "pbuf \<Rightarrow> u8 list" where
  "pbuf_data p = pbuf_read p 0 (unat (p_len p))"

definition chain_bytes :: "pchain \<Rightarrow> u8 list" where
  "chain_bytes c = concat (map pbuf_data c)"

fun chain_tot :: "pchain \<Rightarrow> bool" where
  "chain_tot [] = True"
| "chain_tot (p # q) =
     (unat (p_tot_len p) = unat (p_len p) + (case q of [] \<Rightarrow> 0 | r # _ \<Rightarrow> unat (p_tot_len r)) \<and> chain_tot q)"

definition chain_ok :: "pchain \<Rightarrow> bool" where
  "chain_ok c \<longleftrightarrow> list_all pbuf_ok c \<and> chain_tot c"

lemma chain_bytes_simps [simp]:
  "chain_bytes [] = []" "chain_bytes (p # q) = pbuf_data p @ chain_bytes q"
  "chain_bytes (c @ d) = chain_bytes c @ chain_bytes d"
  by (simp_all add: chain_bytes_def)

lemma chain_ok_simps [simp]:
  "chain_ok []"
  "chain_ok (p # q) \<longleftrightarrow> pbuf_ok p
     \<and> unat (p_tot_len p) = unat (p_len p) + (case q of [] \<Rightarrow> 0 | r # _ \<Rightarrow> unat (p_tot_len r)) \<and> chain_ok q"
  by (auto simp: chain_ok_def)

lemma chain_ok_all: "chain_ok c \<Longrightarrow> list_all pbuf_ok c"
  by (simp add: chain_ok_def)

lemma length_pbuf_data [simp]: "pbuf_ok p \<Longrightarrow> length (pbuf_data p) = unat (p_len p)"
  by (auto simp: pbuf_data_def pbuf_read_def pbuf_ok_def)

lemma chain_tot_bytes: "chain_ok (p # q) \<Longrightarrow> unat (p_tot_len p) = length (chain_bytes (p # q))"
  by (induction q arbitrary: p) auto

lemma pbuf_read_data:
  "pbuf_ok p \<Longrightarrow> off + n \<le> unat (p_len p) \<Longrightarrow> pbuf_read p off n = take n (drop off (pbuf_data p))"
  by (simp add: pbuf_read_def pbuf_data_def drop_take min_def add.commute)

lemma unat_sub_le: "(b :: 'a::len word) \<le> a \<Longrightarrow> unat (a - b) = unat a - unat b"
  by (rule unat_sub)

section \<open>Copying out\<close>

lemma copy_partial_loop_spec:
  assumes "list_all pbuf_ok c" and "copy_partial_loop c l offset k = (bs, cnt)"
  shows "bs = take (unat l) (drop (unat offset) (chain_bytes c)) \<and> cnt = k + of_nat (length bs)"
  using assms
proof (induction c arbitrary: l offset k bs cnt)
  case Nil
  then show ?case by simp
next
  case (Cons p q)
  have ok: "pbuf_ok p" and okq: "list_all pbuf_ok q" using Cons.prems(1) by simp_all
  have len: "length (pbuf_data p) = unat (p_len p)" using ok by simp
  consider (stop) "l = 0" | (skip) "l \<noteq> 0" "offset \<noteq> 0" "p_len p \<le> offset"
    | (copy) "l \<noteq> 0" "\<not> (offset \<noteq> 0 \<and> p_len p \<le> offset)" by blast
  then show ?case
  proof cases
    case stop
    with Cons.prems(2) show ?thesis by simp
  next
    case skip
    have "bs = take (unat l) (drop (unat (offset - p_len p)) (chain_bytes q)) \<and> cnt = k + of_nat (length bs)"
      by (rule Cons.IH [OF okq]) (use Cons.prems(2) skip in simp)
    moreover have "unat (p_len p) \<le> unat offset" using skip(3) by (simp add: word_le_nat_alt)
    ultimately show ?thesis using skip(3) len by (simp add: unat_sub_le)
  next
    case copy
    define n where "n = (if p_len p - offset > l then l else p_len p - offset)"
    obtain bs' t' where rec: "copy_partial_loop q (l - n) 0 (k + n) = (bs', t')"
      by (cases "copy_partial_loop q (l - n) 0 (k + n)")
    have le0: "offset \<le> p_len p" using copy(2) by force
    then have le: "unat offset \<le> unat (p_len p)" by (simp add: word_le_nat_alt)
    have n: "unat n = min (unat l) (unat (p_len p) - unat offset)"
      using le0 by (simp add: n_def word_less_nat_alt unat_sub_le min_def)
    have "n \<le> l" using n by (simp add: word_le_nat_alt)
    then have ln: "unat (l - n) = unat l - unat n" by (rule unat_sub_le)
    have b: "bs = pbuf_read p (unat offset) (unat n) @ bs'" and t: "cnt = t'"
      using Cons.prems(2) copy rec by (simp_all add: n_def [symmetric] Let_def del: not_less)
    have ih: "bs' = take (unat (l - n)) (drop 0 (chain_bytes q)) \<and> t' = (k + n) + of_nat (length bs')"
      using Cons.IH [OF okq rec] by simp
    have rd: "pbuf_read p (unat offset) (unat n) = take (unat n) (drop (unat offset) (pbuf_data p))"
      by (rule pbuf_read_data [OF ok]) (use n le in simp)
    have "length (pbuf_read p (unat offset) (unat n)) = unat n" using rd n len by simp
    then have "cnt = k + of_nat (length bs)" using b t ih by (simp add: add.assoc)
    moreover have "bs = take (unat l) (drop (unat offset) (chain_bytes (p # q)))"
      using b ih rd ln n le len by (simp add: min_def split: if_splits)
    ultimately show ?thesis by simp
  qed
qed

lemma copy_partial_spec:
  assumes "list_all pbuf_ok c"
  shows "pbuf_copy_partial c l offset =
     (let bs = take (unat l) (drop (unat offset) (chain_bytes c)) in (bs, of_nat (length bs)))"
  using copy_partial_loop_spec [OF assms, of l offset 0]
  by (cases "copy_partial_loop c l offset 0") (auto simp: pbuf_copy_partial_def Let_def)

section \<open>Finding a position\<close>

lemma pbuf_skip_spec:
  "list_all pbuf_ok c \<Longrightarrow> pbuf_skip_const c off = (q, i) \<Longrightarrow>
   \<exists>pre. c = pre @ q \<and> unat off = length (chain_bytes pre) + unat i
         \<and> (q = [] \<or> unat i < unat (p_len (hd q)))"
proof (induction c arbitrary: off)
  case Nil
  then show ?case by simp
next
  case (Cons p c)
  show ?case
  proof (cases "p_len p \<le> off")
    case True
    then have "pbuf_skip_const c (off - p_len p) = (q, i)" using Cons.prems(2) by simp
    then obtain pre where "c = pre @ q" "unat (off - p_len p) = length (chain_bytes pre) + unat i"
      "q = [] \<or> unat i < unat (p_len (hd q))"
      using Cons.IH Cons.prems(1) by auto
    with True Cons.prems(1) show ?thesis
      by (intro exI [of _ "p # pre"]) (auto simp: unat_sub_le word_le_nat_alt)
  next
    case False
    with Cons.prems(2) show ?thesis
      by (intro exI [of _ "[]"]) (auto simp: word_less_nat_alt not_le)
  qed
qed

lemma pbuf_read_one:
  "pbuf_ok p \<Longrightarrow> i < unat (p_len p) \<Longrightarrow> hd (pbuf_read p i (Suc 0)) = pbuf_data p ! i"
  by (simp add: pbuf_read_data hd_drop_conv_nth)

lemma try_get_at_spec:
  assumes "list_all pbuf_ok c"
  shows "pbuf_try_get_at c off =
    (if unat off < length (chain_bytes c) then uint (chain_bytes c ! unat off) else - 1)"
proof -
  obtain q i where qi: "pbuf_skip_const c off = (q, i)" by (cases "pbuf_skip_const c off")
  then obtain pre where pre: "c = pre @ q" "unat off = length (chain_bytes pre) + unat i"
    "q = [] \<or> unat i < unat (p_len (hd q))"
    using pbuf_skip_spec [OF assms] by blast
  show ?thesis
  proof (cases q)
    case Nil
    with pre qi show ?thesis by (simp add: pbuf_try_get_at_def)
  next
    case (Cons p qs)
    have "pbuf_ok p" using assms pre(1) Cons by simp
    with pre qi Cons show ?thesis
      by (simp add: pbuf_try_get_at_def pbuf_read_one nth_append word_less_nat_alt)
  qed
qed

lemma get_at_spec:
  "list_all pbuf_ok c \<Longrightarrow>
   pbuf_get_at c off = (if unat off < length (chain_bytes c) then chain_bytes c ! unat off else 0)"
  by (simp add: pbuf_get_at_def try_get_at_spec)

section \<open>Writing\<close>

lemma pbuf_write_fields [simp]:
  "p_len (pbuf_write p off bs) = p_len p" "p_tot_len (pbuf_write p off bs) = p_tot_len p"
  "p_payload (pbuf_write p off bs) = p_payload p" "p_ref (pbuf_write p off bs) = p_ref p"
  by (simp_all add: pbuf_write_def Let_def)

lemma pbuf_write_ok:
  "pbuf_ok p \<Longrightarrow> off + length bs \<le> unat (p_len p) \<Longrightarrow> pbuf_ok (pbuf_write p off bs)"
  by (auto simp: pbuf_ok_def pbuf_write_def Let_def)

lemma take_drop_splice:
  assumes "i + off + length bs \<le> length m" and "off + length bs \<le> n"
  shows "take n (drop i (take (i + off) m @ bs @ drop (i + off + length bs) m)) =
    take off (take n (drop i m)) @ bs @ drop (off + length bs) (take n (drop i m))"
proof -
  define d where "d = drop i m"
  have "off + length bs \<le> length d" using assms(1) by (simp add: d_def)
  have "drop i (take (i + off) m @ bs @ drop (i + off + length bs) m) = take off d @ bs @ drop (off + length bs) d"
    using assms(1) by (simp add: d_def drop_take add.commute add.left_commute)
  moreover have "take n (take off d @ bs @ drop (off + length bs) d) =
      take off d @ bs @ take (n - (off + length bs)) (drop (off + length bs) d)"
    using assms(2) \<open>off + length bs \<le> length d\<close> by simp
  moreover have "take off (take n d) = take off d" using assms(2) by simp
  ultimately show ?thesis by (simp add: d_def drop_take)
qed

lemma pbuf_write_data:
  assumes "pbuf_ok p" and "off + length bs \<le> unat (p_len p)"
  shows "pbuf_data (pbuf_write p off bs) = take off (pbuf_data p) @ bs @ drop (off + length bs) (pbuf_data p)"
  using assms take_drop_splice [of "nat (p_payload p)" off bs "p_mem p" "unat (p_len p)"]
  by (simp add: pbuf_data_def pbuf_read_def pbuf_write_def Let_def pbuf_ok_def)

lemma put_at_spec:
  assumes "list_all pbuf_ok c"
  shows "chain_bytes (pbuf_put_at c off d) = (chain_bytes c)[unat off := d]
         \<and> list_all pbuf_ok (pbuf_put_at c off d)
         \<and> map p_len (pbuf_put_at c off d) = map p_len c
         \<and> map p_tot_len (pbuf_put_at c off d) = map p_tot_len c"
  using assms
proof (induction c arbitrary: off)
  case Nil
  then show ?case by simp
next
  case (Cons p c)
  show ?case
  proof (cases "p_len p \<le> off")
    case True
    with Cons show ?thesis
      by (simp add: list_update_append unat_sub_le word_le_nat_alt)
  next
    case False
    then have lt: "unat off < unat (p_len p)" by (simp add: word_le_nat_alt)
    have "pbuf_data (pbuf_write p (unat off) [d]) = (pbuf_data p)[unat off := d]"
      using Cons.prems lt by (simp add: pbuf_write_data upd_conv_take_nth_drop Suc_le_eq)
    moreover have "(p_len p \<le> off) = False" using False by simp
    ultimately show ?thesis using lt Cons.prems
      by (simp add: list_update_append pbuf_write_ok word_less_nat_alt)
  qed
qed

lemma chain_tot_cong:
  "map p_len c = map p_len d \<Longrightarrow> map p_tot_len c = map p_tot_len d \<Longrightarrow> chain_tot c = chain_tot d"
proof (induction c arbitrary: d)
  case Nil
  then show ?case by simp
next
  case (Cons p c)
  then obtain r e where d: "d = r # e" by (cases d) auto
  with Cons have "chain_tot c = chain_tot e" by simp
  with Cons.prems d show ?case by (cases c; cases e) auto
qed

lemma take_loop_spec:
  assumes "list_all pbuf_ok c" and "length data \<le> length (chain_bytes c)"
  shows "\<exists>c'. pbuf_take_loop c data = Some c'
     \<and> chain_bytes c' = data @ drop (length data) (chain_bytes c)
     \<and> list_all pbuf_ok c' \<and> map p_len c' = map p_len c \<and> map p_tot_len c' = map p_tot_len c"
  using assms
proof (induction c data rule: pbuf_take_loop.induct)
  case (1 c)
  then show ?case by simp
next
  case (2 b bs)
  then show ?case by simp
next
  case (3 p q b bs)
  let ?d = "b # bs"
  define n where "n = min (length ?d) (unat (p_len p))"
  have ok: "pbuf_ok p" "list_all pbuf_ok q" using "3.prems"(1) by simp_all
  have "length (drop n ?d) \<le> length (chain_bytes q)"
    using "3.prems"(2) ok by (simp add: n_def)
  with "3.IH" [OF n_def] ok obtain q' where q': "pbuf_take_loop q (drop n ?d) = Some q'"
    "chain_bytes q' = drop n ?d @ drop (length (drop n ?d)) (chain_bytes q)"
    "list_all pbuf_ok q'" "map p_len q' = map p_len q" "map p_tot_len q' = map p_tot_len q"
    by blast
  have fit: "0 + length (take n ?d) \<le> unat (p_len p)" by (simp add: n_def)
  have "pbuf_data (pbuf_write p 0 (take n ?d)) @ chain_bytes q' = ?d @ drop (length ?d) (chain_bytes (p # q))"
  proof (cases "length ?d \<le> unat (p_len p)")
    case True
    then show ?thesis using q'(2) ok fit by (simp add: pbuf_write_data n_def min_def del: drop_Suc_Cons)
  next
    case False
    then have "n = unat (p_len p)" by (simp add: n_def)
    moreover from this False have "length (take n ?d) = unat (p_len p)" by simp
    ultimately show ?thesis using q'(2) ok fit False
      by (simp add: pbuf_write_data)
  qed
  with q' ok fit show ?case
    by (simp add: n_def [symmetric] pbuf_write_ok del: take_Suc_Cons drop_Suc_Cons list.size)
qed

lemma chain_ok_cong:
  "chain_ok c \<Longrightarrow> list_all pbuf_ok d \<Longrightarrow> map p_len d = map p_len c \<Longrightarrow> map p_tot_len d = map p_tot_len c
   \<Longrightarrow> chain_ok d"
  unfolding chain_ok_def using chain_tot_cong by blast

lemma chain_ok_appendD: "chain_ok (a @ b) \<Longrightarrow> chain_ok b"
  by (induction a) auto

lemma tot_len_bytes: "chain_ok c \<Longrightarrow> c \<noteq> [] \<Longrightarrow> unat (p_tot_len (hd c)) = length (chain_bytes c)"
  by (cases c) (simp_all add: chain_tot_bytes del: chain_ok_simps chain_bytes_simps)

lemma take_spec:
  assumes "chain_ok c" and "c \<noteq> []" and "length data \<le> length (chain_bytes c)"
  shows "\<exists>c'. pbuf_take c data = Some (ERR_OK, c') \<and> chain_ok c'
     \<and> chain_bytes c' = data @ drop (length data) (chain_bytes c)
     \<and> map p_len c' = map p_len c \<and> map p_tot_len c' = map p_tot_len c"
proof -
  obtain c' where "pbuf_take_loop c data = Some c'" "list_all pbuf_ok c'"
    "chain_bytes c' = data @ drop (length data) (chain_bytes c)"
    "map p_len c' = map p_len c" "map p_tot_len c' = map p_tot_len c"
    using take_loop_spec [OF chain_ok_all [OF assms(1)] assms(3)] by blast
  with assms chain_ok_cong [OF assms(1)] show ?thesis
    by (auto simp: pbuf_take_def tot_len_bytes)
qed

lemma take_at_spec:
  assumes "chain_ok c" and "unat off < length (chain_bytes c)"
    and "unat off + length data \<le> length (chain_bytes c)"
  shows "\<exists>c'. pbuf_take_at c data off = Some (ERR_OK, c') \<and> chain_ok c'
     \<and> chain_bytes c' = take (unat off) (chain_bytes c) @ data @ drop (unat off + length data) (chain_bytes c)"
proof -
  obtain qc i where qi: "pbuf_skip_const c off = (qc, i)" by (cases "pbuf_skip_const c off")
  then obtain pre where pre: "c = pre @ qc" "unat off = length (chain_bytes pre) + unat i"
    "qc = [] \<or> unat i < unat (p_len (hd qc))"
    using pbuf_skip_spec [OF chain_ok_all [OF assms(1)]] by blast
  have "qc \<noteq> []" using pre assms(2) by auto
  then obtain q qs where q: "qc = q # qs" by (cases qc) auto
  have okq: "chain_ok (q # qs)" using assms(1) pre(1) q chain_ok_appendD by blast
  then have ok: "pbuf_ok q" and okqs: "chain_ok qs" by simp_all
  have i: "unat i < unat (p_len q)" using pre(3) q by simp
  define n where "n = min (unat (p_len q) - unat i) (length data)"
  define q1 where "q1 = pbuf_write q (unat i) (take n data)"
  have tot: "unat i + length data \<le> unat (p_tot_len q)"
    using assms(3) pre(1,2) q tot_len_bytes [OF okq] by simp
  have fit: "unat i + length (take n data) \<le> unat (p_len q)" using i by (simp add: n_def)
  have q1: "pbuf_ok q1" "pbuf_data q1 = take (unat i) (pbuf_data q) @ take n data
       @ drop (unat i + length (take n data)) (pbuf_data q)"
    using ok fit by (simp_all add: q1_def pbuf_write_ok pbuf_write_data)
  have front: "take (length c - length (q # qs)) c = pre" using pre(1) q by simp
  have eq: "pbuf_take_at c data off =
     (if drop n data \<noteq> [] then (case pbuf_take qs (drop n data) of None \<Rightarrow> None
         | Some (err, qs1) \<Rightarrow> Some (err, pre @ q1 # qs1))
      else Some (ERR_OK, pre @ q1 # qs))"
    unfolding pbuf_take_at_def pbuf_skip_def qi q prod.case list.case Let_def front n_def q1_def
    using i tot by (simp add: word_less_nat_alt)
  show ?thesis
  proof (cases "drop n data = []")
    case True
    then have tk: "take n data = data" by simp
    have "chain_ok (pre @ q1 # qs)"
      by (rule chain_ok_cong [OF assms(1)])
        (use assms(1) pre(1) q q1 in \<open>auto simp: q1_def chain_ok_def\<close>)
    moreover have "chain_bytes (pre @ q1 # qs) =
        take (unat off) (chain_bytes c) @ data @ drop (unat off + length data) (chain_bytes c)"
      using q1(2) pre(1,2) q ok i fit tk by simp
    ultimately show ?thesis
      using True unfolding eq by auto
  next
    case False
    then have n: "n = unat (p_len q) - unat i" by (auto simp: n_def min_def split: if_splits)
    then have tn: "unat i + length (take n data) = unat (p_len q)" using False i by simp
    have "qs \<noteq> []" using tot False i n okq by auto
    moreover have "length (drop n data) \<le> length (chain_bytes qs)"
      using tot False i n tot_len_bytes [OF okq] ok by simp
    ultimately obtain qs' where qs': "pbuf_take qs (drop n data) = Some (ERR_OK, qs')" "chain_ok qs'"
      "chain_bytes qs' = drop n data @ drop (length (drop n data)) (chain_bytes qs)"
      "map p_len qs' = map p_len qs" "map p_tot_len qs' = map p_tot_len qs"
      using take_spec [OF okqs] by blast
    have "chain_ok (pre @ q1 # qs')"
      by (rule chain_ok_cong [OF assms(1)])
        (use assms(1) pre(1) q q1 qs' chain_ok_all in \<open>auto simp: q1_def chain_ok_def\<close>)
    moreover have "chain_bytes (pre @ q1 # qs') =
        take (unat off) (chain_bytes c) @ data @ drop (unat off + length data) (chain_bytes c)"
      using q1(2) qs'(3) pre(1,2) q tn ok False i n
      by (simp add: add.commute [of "length data"])
    ultimately show ?thesis
      using False qs'(1) unfolding eq by auto
  qed
qed

lemma memcmp_loop_spec:
  assumes "list_all pbuf_ok q" and "unat start + i + length bs \<le> length (chain_bytes q)"
    and "length (chain_bytes q) < 65536"
  shows "pbuf_memcmp_loop q start i bs = 0 \<longleftrightarrow> take (length bs) (drop (unat start + i) (chain_bytes q)) = bs"
  using assms
proof (induction bs arbitrary: i)
  case Nil
  then show ?case by simp
next
  case (Cons b bs)
  have at: "unat (start + of_nat i :: u16) = unat start + i"
    using Cons.prems(2,3) by (simp add: unat_word_ariths unat_of_nat_u16 mod_add_right_eq)
  have hd: "pbuf_get_at q (start + of_nat i) = chain_bytes q ! (unat start + i)"
    using Cons.prems by (simp add: get_at_spec at)
  have ne: "of_nat (min (i + 1) 0xFFFF) \<noteq> (0 :: u16)"
    using Cons.prems(2,3) unfolding word_unat_eq_iff unat_of_nat_u16 by simp
  have "take (length (b # bs)) (drop (unat start + i) (chain_bytes q)) =
      chain_bytes q ! (unat start + i) # take (length bs) (drop (unat start + Suc i) (chain_bytes q))"
    using Cons.prems(2) by (subst Cons_nth_drop_Suc [symmetric]) simp_all
  with hd ne Cons show ?case by simp
qed

section \<open>Headers\<close>

lemma unat_ucast_16: "n \<le> 0xFFFF \<Longrightarrow> unat (ucast (n :: u32) :: u16) = unat n"
  by (simp add: unsigned_ucast_eq take_bit_nat_def word_le_nat_alt)

lemma remove_header_spec:
  assumes "pbuf_ok p" and "unat d \<le> unat (p_len p)"
  shows "\<exists>q. pbuf_remove_header p d = (0, q) \<and> pbuf_ok q \<and> pbuf_data q = drop (unat d) (pbuf_data p)
     \<and> p_mem q = p_mem p \<and> p_type q = p_type p
     \<and> unat (p_len q) = unat (p_len p) - unat d \<and> p_tot_len q = p_tot_len p - ucast d"
proof -
  have d: "d \<le> 0xFFFF" using assms(2) unat_u16_less [of "p_len p"] by (simp add: word_le_nat_alt del: unat_u16_less)
  then have m: "(ucast d :: u16) \<le> p_len p" using assms(2) by (simp add: word_le_nat_alt unat_ucast_16)
  show ?thesis
  proof (cases "d = 0")
    case True
    then show ?thesis using assms by (simp add: pbuf_remove_header_def)
  next
    case False
    let ?q = "p\<lparr>p_payload := p_payload p + uint d, p_len := p_len p - ucast d, p_tot_len := p_tot_len p - ucast d\<rparr>"
    have r: "pbuf_remove_header p d = (0, ?q)"
      using False m leD [OF d] by (simp add: pbuf_remove_header_def Let_def)
    have l: "unat (p_len ?q) = unat (p_len p) - unat d"
      using m d by (simp add: unat_sub_le unat_ucast_16)
    have pl: "nat (p_payload ?q) = nat (p_payload p) + unat d"
      using assms(1) by (simp add: pbuf_ok_def nat_add_distrib)
    have "pbuf_ok ?q" using assms l pl by (simp add: pbuf_ok_def)
    moreover have "pbuf_data ?q = drop (unat d) (pbuf_data p)"
      unfolding pbuf_data_def pbuf_read_def l pl by (simp add: drop_take add.commute)
    ultimately show ?thesis using r l by simp
  qed
qed

text \<open>Prepending room for a header and hiding it again restores the pbuf.\<close>

lemma add_remove_header:
  assumes "pbuf_add_header_impl p inc force = (0, q)" and "unat (p_len p) + unat inc < 65536"
  shows "pbuf_remove_header q inc = (0, p)"
proof (cases "inc = 0")
  case True
  with assms show ?thesis by (simp add: pbuf_add_header_impl_def pbuf_remove_header_def)
next
  case False
  let ?m = "ucast inc :: u16"
  have le: "inc \<le> 0xFFFF" and q: "q = p\<lparr>p_payload := p_payload p - uint inc, p_len := p_len p + ?m,
      p_tot_len := p_tot_len p + ?m\<rparr>"
    using assms(1) False by (auto simp: pbuf_add_header_impl_def Let_def split: if_splits)
  have "?m \<le> p_len p + ?m"
    using assms(2) le by (simp add: word_le_nat_alt unat_word_ariths unat_ucast_16)
  with False leD [OF le] show ?thesis by (simp add: q pbuf_remove_header_def Let_def)
qed

section \<open>Concatenation and truncation\<close>

lemma pbuf_data_upd [simp]:
  "pbuf_data (p\<lparr>p_tot_len := t\<rparr>) = pbuf_data p" "pbuf_ok (p\<lparr>p_tot_len := t\<rparr>) = pbuf_ok p"
  "pbuf_data (p\<lparr>p_ref := r\<rparr>) = pbuf_data p" "pbuf_ok (p\<lparr>p_ref := r\<rparr>) = pbuf_ok p"
  by (simp_all add: pbuf_data_def pbuf_read_def pbuf_ok_def)

lemma cat_chain_ok:
  assumes "chain_ok h" and "h \<noteq> []" and "chain_ok (tp # t)"
    and "unat (p_tot_len (hd h)) + unat (p_tot_len tp) < 65536"
  shows "chain_ok (map (\<lambda>p. p\<lparr>p_tot_len := p_tot_len p + p_tot_len tp\<rparr>) h @ tp # t)
         \<and> chain_bytes (map (\<lambda>p. p\<lparr>p_tot_len := p_tot_len p + p_tot_len tp\<rparr>) h @ tp # t)
           = chain_bytes h @ chain_bytes (tp # t)"
  using assms
proof (induction h)
  case Nil
  then show ?case by simp
next
  case (Cons p h)
  have add: "unat (p_tot_len p + p_tot_len tp) = unat (p_tot_len p) + unat (p_tot_len tp)"
    using Cons.prems(4) by (simp add: unat_word_ariths)
  show ?case
  proof (cases h)
    case Nil
    with Cons.prems add show ?thesis by simp
  next
    case (Cons r h')
    have "unat (p_tot_len r) + unat (p_tot_len tp) < 65536"
      using Cons.prems(1,4) \<open>h = r # h'\<close> by simp
    with Cons.IH Cons.prems \<open>h = r # h'\<close> add show ?thesis
      by (simp add: unat_word_ariths)
  qed
qed

lemma realloc_loop_spec:
  assumes "chain_ok c" and "unat n \<le> length (chain_bytes c)" and "c \<noteq> []"
    and "shrink = p_tot_len (hd c) - n"
    and "pbuf_realloc_loop c n shrink e = Some (c', e')"
  shows "chain_ok c' \<and> c' \<noteq> [] \<and> p_tot_len (hd c') = n \<and> chain_bytes c' = take (unat n) (chain_bytes c)"
  using assms
proof (induction c arbitrary: n c' e')
  case Nil
  then show ?case by simp
next
  case (Cons q qs)
  have ok: "pbuf_ok q" "chain_ok qs" using Cons.prems(1) by simp_all
  show ?case
  proof (cases "n > p_len q")
    case True
    then have lt: "unat (p_len q) < unat n" by (simp add: word_less_nat_alt)
    with Cons.prems(2) ok have ne: "qs \<noteq> []" by auto
    obtain c1 e1 where c1: "pbuf_realloc_loop qs (n - p_len q) shrink e = Some (c1, e1)"
      and c': "c' = q\<lparr>p_tot_len := p_tot_len q - shrink\<rparr> # c1"
      using Cons.prems(5) True by (auto simp: bind_eq_Some_conv')
    have sub: "unat (n - p_len q) = unat n - unat (p_len q)"
      using True by (simp add: unat_sub_le)
    have "unat (p_tot_len q) = unat (p_len q) + unat (p_tot_len (hd qs))"
      using Cons.prems(1) ne by (cases qs) auto
    then have tq: "p_tot_len q = p_len q + p_tot_len (hd qs)"
      using unat_u16_less [of "p_tot_len q"]
      by (simp add: word_unat_eq_iff unat_word_ariths del: unat_u16_less)
    have "chain_ok c1 \<and> c1 \<noteq> [] \<and> p_tot_len (hd c1) = n - p_len q
        \<and> chain_bytes c1 = take (unat (n - p_len q)) (chain_bytes qs)"
      by (rule Cons.IH [OF ok(2) _ ne _ c1]) (use Cons.prems(2,4) ok lt sub tq in simp_all)
    moreover have "p_tot_len q - shrink = n" using Cons.prems(4) by simp
    ultimately show ?thesis using c' lt ok sub by (cases c1) auto
  next
    case False
    then have "c' = [q\<lparr>p_len := n, p_tot_len := n\<rparr>]"
      using Cons.prems(5) by (auto simp: Let_def split: if_splits option.splits)
    moreover have "unat n \<le> unat (p_len q)" using False by (simp add: word_le_nat_alt not_less)
    ultimately show ?thesis using ok
      by (auto simp: pbuf_data_def pbuf_read_def pbuf_ok_def min_def)
  qed
qed

section \<open>Reference counts and the pool\<close>

definition fresh_pool_pbuf :: "pbuf \<Rightarrow> bool" where
  "fresh_pool_pbuf p \<longleftrightarrow> p_type p = PBUF_POOL \<and> p_flags p = 0 \<and> p_ref p = 1"

lemma free_fresh_pool:
  "list_all fresh_pool_pbuf c \<Longrightarrow>
   pbuf_free_loop c k e = Some (k + of_nat (length c), [], e\<lparr>pool := rev (map p_mem c) @ pool e\<rparr>)"
proof (induction c arbitrary: k e)
  case Nil
  then show ?case by simp
next
  case (Cons p c)
  have "pbuf_dealloc (p\<lparr>p_ref := 0\<rparr>) e = Some (e\<lparr>pool := p_mem p # pool e\<rparr>)"
    using Cons.prems by (simp add: fresh_pool_pbuf_def pbuf_dealloc_def pbuf_get_allocsrc_def cdefs)
  with Cons show ?case by (simp add: fresh_pool_pbuf_def algebra_simps)
qed

definition pbuf_live :: "pbuf \<Rightarrow> bool" where
  "pbuf_live p \<longleftrightarrow> p_ref p \<noteq> 0 \<and>
     (p_flags p AND PBUF_FLAG_IS_CUSTOM \<noteq> 0 \<or> pbuf_get_allocsrc p \<in> {0, 1, 2})"

lemma pbuf_dealloc_live: "pbuf_live p \<Longrightarrow> \<exists>e'. pbuf_dealloc (p\<lparr>p_ref := r\<rparr>) e = Some e'"
  by (auto simp: pbuf_live_def pbuf_dealloc_def pbuf_get_allocsrc_def)

lemma free_loop_returns: "list_all pbuf_live c \<Longrightarrow> \<exists>r. pbuf_free_loop c k e = Some r"
proof (induction c arbitrary: k e)
  case Nil
  then show ?case by simp
next
  case (Cons p c)
  then obtain e' where "pbuf_dealloc (p\<lparr>p_ref := 0\<rparr>) e = Some e'"
    using pbuf_dealloc_live [of p 0 e] by auto
  moreover have "p_ref p \<noteq> 0" using Cons.prems by (simp add: pbuf_live_def)
  ultimately show ?case using Cons by (simp add: Let_def)
qed

lemma realloc_loop_returns:
  "list_all pbuf_ok c \<Longrightarrow> c \<noteq> [] \<Longrightarrow> list_all pbuf_live c \<Longrightarrow> unat n \<le> length (chain_bytes c)
   \<Longrightarrow> \<exists>r. pbuf_realloc_loop c n shrink e = Some r"
proof (induction c arbitrary: n)
  case Nil
  then show ?case by simp
next
  case (Cons p c)
  show ?case
  proof (cases "n > p_len p")
    case True
    then have "unat (n - p_len p) = unat n - unat (p_len p)" "unat (p_len p) < unat n"
      using unat_sub_le [OF order.strict_implies_order [OF True]] True
      by (simp_all add: word_less_nat_alt)
    moreover from this Cons.prems have "c \<noteq> []" by auto
    moreover from calculation Cons.prems have "unat (n - p_len p) \<le> length (chain_bytes c)" by simp
    ultimately obtain r where "pbuf_realloc_loop c (n - p_len p) shrink e = Some r"
      using Cons.IH [of "n - p_len p"] Cons.prems(1,3) by auto
    with True show ?thesis by (cases r) simp
  next
    case False
    obtain a b d where r: "pbuf_free_loop c 0 e = Some (a, b, d)"
      using free_loop_returns [of c 0 e] Cons.prems by auto
    with False show ?thesis by (simp add: Let_def pbuf_free_def)
  qed
qed

lemma unat_align_size: "unat n < 65536 \<Longrightarrow> unat (LWIP_MEM_ALIGN_SIZE n) = (unat n + 3) div 4 * 4"
proof -
  assume "unat n < 65536"
  then have "unat (n + 3) = unat n + 3" by (simp add: unat_word_ariths)
  moreover have "LWIP_MEM_ALIGN_SIZE n = (n + 3) AND NOT 3"
    by (simp add: LWIP_MEM_ALIGN_SIZE_def add.commute)
  ultimately show ?thesis by (simp only: unat_and_not_3)
qed

lemma pool_alloc_loop_spec:
  assumes "list_all fresh_pool_pbuf acc" and "\<forall>m\<in>set ms. length m = 1536" and "unat offset \<le> 1532"
  shows "\<exists>c e'. pool_alloc_loop ms l offset acc e = Some (c, e') \<and>
     (c = [] \<and> mset (pool e') = mset ms + mset (map p_mem acc)
      \<or> (\<exists>c2. c = acc @ c2 \<and> c2 \<noteq> [] \<and> chain_ok c2 \<and> p_tot_len (hd c2) = l
            \<and> list_all fresh_pool_pbuf c2 \<and> ms = map p_mem c2 @ pool e'))"
  using assms
proof (induction ms arbitrary: l offset acc)
  case Nil
  then show ?case
    by (cases "acc = []") (auto simp: pbuf_free_def free_fresh_pool)
next
  case (Cons m ms)
  define A where "A = unat (LWIP_MEM_ALIGN_SIZE (ucast offset))"
  define qlen where "qlen = min l (ucast (PBUF_POOL_BUFSIZE_ALIGNED - LWIP_MEM_ALIGN_SIZE (ucast offset)))"
  define q where "q = pbuf_init_alloced_pbuf m (uint (LWIP_MEM_ALIGN_SIZE (ucast offset))) l qlen PBUF_POOL 0"
  have A: "A \<le> 1532" using Cons.prems(3) by (simp add: A_def unat_align_size)
  have cap: "unat (PBUF_POOL_BUFSIZE_ALIGNED - LWIP_MEM_ALIGN_SIZE (ucast offset)) = 1536 - A"
    using A by (simp add: cdefs A_def unat_sub_le word_le_nat_alt)
  then have "unat (ucast (PBUF_POOL_BUFSIZE_ALIGNED - LWIP_MEM_ALIGN_SIZE (ucast offset)) :: u16) = 1536 - A"
    by (subst unat_ucast_16) (simp_all add: word_le_nat_alt)
  then have ql: "unat qlen = min (unat l) (1536 - A)"
    by (simp add: qlen_def min_def word_le_nat_alt)
  have sub: "unat (l - qlen) = unat l - unat qlen" by (simp add: unat_sub_le word_le_nat_alt ql)
  have nat: "nat (uint (LWIP_MEM_ALIGN_SIZE (ucast offset))) = A" by (simp add: A_def)
  have okq: "pbuf_ok q" "fresh_pool_pbuf q" "p_tot_len q = l" "p_len q = qlen" "p_mem q = m"
    using Cons.prems(2) A ql nat
    by (simp_all add: q_def pbuf_init_alloced_pbuf_def pbuf_ok_def fresh_pool_pbuf_def)
  have acc: "list_all fresh_pool_pbuf (acc @ [q])" using Cons.prems(1) okq(2) by simp
  have step: "pool_alloc_loop (m # ms) l offset acc e =
      (if l - qlen > 0 then pool_alloc_loop ms (l - qlen) 0 (acc @ [q]) e
       else Some (acc @ [q], e\<lparr>pool := ms\<rparr>))"
    by (simp add: qlen_def q_def Let_def)
  show ?case
  proof (cases "l - qlen > 0")
    case False
    then have "unat qlen = unat l" using sub ql by (simp add: word_less_nat_alt)
    with okq have "chain_ok [q]" by simp
    with False okq step show ?thesis by (auto intro!: exI [of _ "[q]"])
  next
    case True
    obtain c e' where rec: "pool_alloc_loop ms (l - qlen) 0 (acc @ [q]) e = Some (c, e')"
      and alt: "c = [] \<and> mset (pool e') = mset ms + mset (map p_mem (acc @ [q]))
      \<or> (\<exists>c2. c = (acc @ [q]) @ c2 \<and> c2 \<noteq> [] \<and> chain_ok c2 \<and> p_tot_len (hd c2) = l - qlen
            \<and> list_all fresh_pool_pbuf c2 \<and> ms = map p_mem c2 @ pool e')"
      using Cons.IH [OF acc, of 0 "l - qlen"] Cons.prems(2) by auto
    from alt show ?thesis
    proof
      assume "c = [] \<and> mset (pool e') = mset ms + mset (map p_mem (acc @ [q]))"
      with step True rec okq show ?thesis by auto
    next
      assume "\<exists>c2. c = (acc @ [q]) @ c2 \<and> c2 \<noteq> [] \<and> chain_ok c2 \<and> p_tot_len (hd c2) = l - qlen
            \<and> list_all fresh_pool_pbuf c2 \<and> ms = map p_mem c2 @ pool e'"
      then obtain c2 where c2: "c = (acc @ [q]) @ c2" "c2 \<noteq> []" "chain_ok c2" "p_tot_len (hd c2) = l - qlen"
            "list_all fresh_pool_pbuf c2" "ms = map p_mem c2 @ pool e'" by blast
      have "chain_ok (q # c2)" using c2 okq sub ql by (cases c2) auto
      with c2 okq step True rec show ?thesis by (auto intro!: exI [of _ "q # c2"])
    qed
  qed
qed

section \<open>Properties\<close>

definition sample_chain :: pchain where
  "sample_chain =
     [\<lparr>p_mem = [0, 1, 2, 3], p_payload = 1, p_tot_len = 5, p_len = 3, p_type = PBUF_POOL,
       p_flags = 0, p_ref = 1, p_if_idx = 0\<rparr>,
      \<lparr>p_mem = [4, 5, 6], p_payload = 0, p_tot_len = 2, p_len = 2, p_type = PBUF_POOL,
       p_flags = 0, p_ref = 1, p_if_idx = 0\<rparr>]"

lemma sample_chain_ok: "chain_ok sample_chain"
  by (simp add: sample_chain_def pbuf_ok_def)

lemma sample_chain_bytes: "chain_bytes sample_chain = [1, 2, 3, 4, 5]"
  by (simp add: sample_chain_def pbuf_data_def pbuf_read_def)

text \<open>
  C30. \<open>pbuf_copy_partial\<close> copies the requested window of the packet, cut off at the end of
  the packet, however the packet is fragmented into pbufs, and returns the number of bytes
  copied.
\<close>

theorem pbuf_copy_partial_correct:
  assumes "chain_ok c"
  shows "pbuf_copy_partial c l offset =
     (take (unat l) (drop (unat offset) (chain_bytes c)),
      of_nat (min (unat l) (length (chain_bytes c) - unat offset)))"
  using copy_partial_spec [OF chain_ok_all [OF assms], of l offset]
  by (simp add: Let_def min.commute)

theorem pbuf_copy_partial_correct_witness:
  "chain_ok sample_chain \<and> pbuf_copy_partial sample_chain 3 1 = ([2, 3, 4], 3)"
  using pbuf_copy_partial_correct [OF sample_chain_ok, of 3 1] sample_chain_ok
  by (simp add: sample_chain_bytes)

text \<open>
  \<open>pbuf_take_at\<close> overwrites exactly the addressed window of the packet and nothing
  else, across pbuf boundaries, and keeps the chain well formed; it succeeds whenever the
  window lies inside the packet.
\<close>

theorem pbuf_take_at_correct:
  assumes "chain_ok c" and "unat off < length (chain_bytes c)"
    and "unat off + length data \<le> length (chain_bytes c)"
  shows "\<exists>c'. pbuf_take_at c data off = Some (ERR_OK, c') \<and> chain_ok c'
     \<and> chain_bytes c' = take (unat off) (chain_bytes c) @ data @ drop (unat off + length data) (chain_bytes c)"
  by (rule take_at_spec [OF assms])

theorem pbuf_take_at_correct_witness:
  "\<exists>c'. pbuf_take_at sample_chain [9, 8] 2 = Some (ERR_OK, c') \<and> chain_ok c' \<and> chain_bytes c' = [1, 2, 9, 8, 5]"
  using pbuf_take_at_correct [OF sample_chain_ok, of 2 "[9, 8]"] by (simp add: sample_chain_bytes)

text \<open>
  C31. \<open>pbuf_realloc\<close> to a length below the packet's shrinks the packet to its first
  \<open>new_len\<close> bytes, with every \<open>tot_len\<close> of the shortened chain adjusted so that the chain
  invariant holds again.
\<close>

theorem pbuf_realloc_truncates:
  assumes "chain_ok (p # q)" and "list_all pbuf_live (p # q)" and "new_len < p_tot_len p"
  shows "\<exists>c' e'. pbuf_realloc (p # q) new_len e = Some (c', e') \<and> chain_ok c'
         \<and> chain_bytes c' = take (unat new_len) (chain_bytes (p # q)) \<and> p_tot_len (hd c') = new_len"
proof -
  let ?shrink = "p_tot_len (hd (p # q)) - new_len"
  have le: "unat new_len \<le> length (chain_bytes (p # q))"
    using assms(3) chain_tot_bytes [OF assms(1)] by (simp add: word_less_nat_alt)
  then obtain c' e' where r: "pbuf_realloc_loop (p # q) new_len ?shrink e = Some (c', e')"
    using realloc_loop_returns [OF chain_ok_all [OF assms(1)] _ assms(2)] by fastforce
  moreover have "pbuf_realloc (p # q) new_len e = pbuf_realloc_loop (p # q) new_len ?shrink e"
    using leD [of new_len] assms(3) by (auto simp: pbuf_realloc_def simp del: pbuf_realloc_loop.simps)
  ultimately show ?thesis using realloc_loop_spec [OF assms(1) le _ refl r] by auto
qed

definition sample_env :: pbuf_env where
  "sample_env = \<lparr>pool = [], memp_pbuf = 0, heap_freed = [], custom_freed = []\<rparr>"

theorem pbuf_realloc_truncates_witness:
  "\<exists>c' e'. pbuf_realloc sample_chain 2 sample_env = Some (c', e') \<and> chain_bytes c' = [1, 2]"
proof -
  obtain p q where pq: "sample_chain = p # q" "p_tot_len p = 5"
    by (simp add: sample_chain_def)
  have "list_all pbuf_live sample_chain"
    by (simp add: sample_chain_def pbuf_live_def pbuf_get_allocsrc_def cdefs)
  with pbuf_realloc_truncates [of p q 2 sample_env] show ?thesis
    using sample_chain_ok sample_chain_bytes pq by auto
qed

text \<open>
  Adding room for a protocol header in front of the payload and removing it again
  gives back the same pbuf, for every size that does not overflow the 16-bit length.
\<close>

theorem pbuf_header_roundtrip:
  assumes "pbuf_add_header p n = (0, q)" and "unat (p_len p) + unat n < 65536"
  shows "pbuf_remove_header q n = (0, p)"
  using add_remove_header assms unfolding pbuf_add_header_def by blast

theorem pbuf_header_roundtrip_witness:
  "\<exists>q. pbuf_add_header (hd sample_chain) 1 = (0, q) \<and> pbuf_remove_header q 1 = (0, hd sample_chain)"
proof -
  obtain q where q: "pbuf_add_header (hd sample_chain) 1 = (0, q)"
    by (simp add: sample_chain_def pbuf_add_header_def pbuf_add_header_impl_def cdefs)
  then show ?thesis
    using pbuf_header_roundtrip [OF q] by (simp add: sample_chain_def)
qed

text \<open>
  C32. Allocation from the pool never leaks and never fails halfway: \<open>pbuf_alloc\<close> of type
  PBUF_POOL either returns NULL with the pool holding the same elements as before, or a
  well-formed chain of exactly the requested length whose memory is exactly what left the
  pool; freeing that chain puts every element back.
\<close>

theorem pbuf_alloc_pool_no_leak:
  assumes "\<forall>m\<in>set (pool e). length m = 1536" and "unat layer \<le> 1532"
  shows "\<exists>c e'. pbuf_alloc mm layer l PBUF_POOL e = Some (c, e')
     \<and> mset (map p_mem c) + mset (pool e') = mset (pool e)
     \<and> chain_ok c
     \<and> (c = [] \<or> length (chain_bytes c) = unat l
         \<and> (\<exists>n e''. pbuf_free c e' = Some (n, [], e'') \<and> mset (pool e'') = mset (pool e)))"
proof -
  obtain c e' where r: "pool_alloc_loop (pool e) l layer [] e = Some (c, e')"
    and alt: "c = [] \<and> mset (pool e') = mset (pool e) \<or> c \<noteq> [] \<and> chain_ok c \<and> p_tot_len (hd c) = l
       \<and> list_all fresh_pool_pbuf c \<and> pool e = map p_mem c @ pool e'"
    using pool_alloc_loop_spec [of "[]" "pool e" layer l e] assms by auto
  from r have run: "pbuf_alloc mm layer l PBUF_POOL e = Some (c, e')"
    by (simp add: pbuf_alloc_def cdefs)
  from alt show ?thesis
  proof
    assume "c = [] \<and> mset (pool e') = mset (pool e)"
    with run show ?thesis by (intro exI [of _ c] exI [of _ e']) simp
  next
    assume c: "c \<noteq> [] \<and> chain_ok c \<and> p_tot_len (hd c) = l
       \<and> list_all fresh_pool_pbuf c \<and> pool e = map p_mem c @ pool e'"
    then have "length (chain_bytes c) = unat l" using tot_len_bytes by metis
    moreover have "\<exists>n e''. pbuf_free c e' = Some (n, [], e'') \<and> mset (pool e'') = mset (pool e)"
      using c by (simp add: pbuf_free_def free_fresh_pool)
    ultimately show ?thesis using run c by (intro exI [of _ c] exI [of _ e']) simp
  qed
qed

theorem pbuf_alloc_pool_no_leak_witness:
  "\<exists>c e'. pbuf_alloc (\<lambda>_. None) 0 60 PBUF_POOL (sample_env\<lparr>pool := [replicate 1536 0]\<rparr>) = Some (c, e')
     \<and> mset (map p_mem c) + mset (pool e') = {#replicate 1536 0#}"
  using pbuf_alloc_pool_no_leak [of "sample_env\<lparr>pool := [replicate 1536 0]\<rparr>" 0 "\<lambda>_. None" 60] by auto

end
