(* ===== verification/Lwip_Ip4Addr.thy ===== *)
theory Lwip_Ip4Addr
  imports Clock_Prelude
begin

text \<open>
  Byte order and IPv4 addresses: \<open>lwip/src/core/def.c\<close>, \<open>lwip/src/include/lwip/def.h\<close>
  and \<open>lwip/src/core/ipv4/ip4_addr.c\<close>, with the interface structure of \<open>netif.h\<close> they
  read. An \<open>ip4_addr_t\<close> is its \<open>u32\<close> in network byte order, as it lies in memory on this
  little-endian target: the first byte of the address is the low byte of the word.

  Lemmas: byte swapping is an involution, printing an address and parsing it back gives
  the address, a netmask is accepted exactly when it is a run of ones followed by zeros,
  and the broadcast test against an interface.
\<close>

section \<open>Byte order\<close>

definition PP_HTONS :: "u16 \<Rightarrow> u16" where
  "PP_HTONS x = push_bit 8 (x AND 0x00FF) OR drop_bit 8 (x AND 0xFF00)"

definition PP_HTONL :: "u32 \<Rightarrow> u32" where
  "PP_HTONL x =
     push_bit 24 (x AND 0x000000FF) OR push_bit 8 (x AND 0x0000FF00)
     OR drop_bit 8 (x AND 0x00FF0000) OR drop_bit 24 (x AND 0xFF000000)"

definition lwip_htons :: "u16 \<Rightarrow> u16" where
  "lwip_htons n = PP_HTONS n"

definition lwip_htonl :: "u32 \<Rightarrow> u32" where
  "lwip_htonl n = PP_HTONL n"

definition LWIP_MAKEU32 :: "u32 \<Rightarrow> u32 \<Rightarrow> u32 \<Rightarrow> u32 \<Rightarrow> u32" where
  "LWIP_MAKEU32 a b c d =
     push_bit 24 (a AND 0xFF) OR push_bit 16 (b AND 0xFF) OR push_bit 8 (c AND 0xFF) OR (d AND 0xFF)"

definition IP4_ADDR :: "u32 \<Rightarrow> u32 \<Rightarrow> u32 \<Rightarrow> u32 \<Rightarrow> u32" where
  "IP4_ADDR a b c d = PP_HTONL (LWIP_MAKEU32 a b c d)"

definition ip4_addr_get_byte :: "u32 \<Rightarrow> nat \<Rightarrow> u8" where
  "ip4_addr_get_byte addr idx = ucast (drop_bit (idx * 8) addr AND 0xFF)"

section \<open>The interface structure and the broadcast test\<close>

record netif =
  ip_addr :: u32
  netmask :: u32
  gw :: u32
  mtu :: u16
  hwaddr :: "u8 list"
  hwaddr_len :: u8
  flags :: u8
  nif_name :: string
  num :: u8

definition NETIF_FLAG_UP :: u8 where [cdefs]: "NETIF_FLAG_UP = 0x01"
definition NETIF_FLAG_BROADCAST :: u8 where [cdefs]: "NETIF_FLAG_BROADCAST = 0x02"
definition NETIF_FLAG_LINK_UP :: u8 where [cdefs]: "NETIF_FLAG_LINK_UP = 0x04"
definition NETIF_FLAG_ETHARP :: u8 where [cdefs]: "NETIF_FLAG_ETHARP = 0x08"

definition IPADDR_ANY :: u32 where [cdefs]: "IPADDR_ANY = 0"
definition IPADDR_NONE :: u32 where [cdefs]: "IPADDR_NONE = 0xFFFFFFFF"
definition IPADDR_BROADCAST :: u32 where [cdefs]: "IPADDR_BROADCAST = 0xFFFFFFFF"

definition ip4_addr_net_eq :: "u32 \<Rightarrow> u32 \<Rightarrow> u32 \<Rightarrow> bool" where
  "ip4_addr_net_eq addr1 addr2 m \<longleftrightarrow> addr1 AND m = addr2 AND m"

definition ip4_addr_isbroadcast_u32 :: "u32 \<Rightarrow> 'a netif_scheme \<Rightarrow> u8" where
  "ip4_addr_isbroadcast_u32 addr nif =
     (if NOT addr = IPADDR_ANY \<or> addr = IPADDR_ANY then 1
      else if flags nif AND NETIF_FLAG_BROADCAST = 0 then 0
      else if addr = ip_addr nif then 0
      else if ip4_addr_net_eq addr (ip_addr nif) (netmask nif)
              \<and> addr AND NOT (netmask nif) = IPADDR_BROADCAST AND NOT (netmask nif) then 1
      else 0)"

section \<open>Netmasks\<close>

text \<open>The two loops over the mask bit, from bit 31 down; \<open>mask = 0\<close> ends them.\<close>

function netmask_ones :: "u32 \<Rightarrow> u32 \<Rightarrow> u32" where
  "netmask_ones nm m = (if m \<noteq> 0 then (if nm AND m = 0 then m else netmask_ones nm (drop_bit 1 m)) else 0)"
  by auto

function netmask_zeros :: "u32 \<Rightarrow> u32 \<Rightarrow> bool" where
  "netmask_zeros nm m = (if m \<noteq> 0 then (if nm AND m \<noteq> 0 then False else netmask_zeros nm (drop_bit 1 m)) else True)"
  by auto

lemma unat_drop_bit_1_less: "m \<noteq> (0 :: u32) \<Longrightarrow> unat (drop_bit 1 m) < unat m"
proof -
  assume "m \<noteq> 0"
  then have "0 < unat m" by (simp add: unat_gt_0)
  then show ?thesis by (simp add: drop_bit_eq_div unat_div_word)
qed

termination netmask_ones
  by (relation "measure (unat \<circ> snd)") (auto simp: unat_drop_bit_1_less simp del: One_nat_def)

termination netmask_zeros
  by (relation "measure (unat \<circ> snd)") (auto simp: unat_drop_bit_1_less simp del: One_nat_def)

declare netmask_ones.simps [simp del] netmask_zeros.simps [simp del]

definition ip4_addr_netmask_valid :: "u32 \<Rightarrow> u8" where
  "ip4_addr_netmask_valid nmask =
     (let nm_hostorder = lwip_htonl nmask;
          m = netmask_ones nm_hostorder (push_bit 31 1)
      in if netmask_zeros nm_hostorder m then 1 else 0)"

section \<open>Text form\<close>

definition lwip_isdigit :: "char \<Rightarrow> bool" where
  "lwip_isdigit c \<longleftrightarrow> 48 \<le> (of_char c :: nat) \<and> of_char c \<le> (57 :: nat)"

definition lwip_islower :: "char \<Rightarrow> bool" where
  "lwip_islower c \<longleftrightarrow> 97 \<le> (of_char c :: nat) \<and> of_char c \<le> (122 :: nat)"

definition lwip_isxdigit :: "char \<Rightarrow> bool" where
  "lwip_isxdigit c \<longleftrightarrow> lwip_isdigit c \<or> (97 \<le> (of_char c :: nat) \<and> of_char c \<le> (102 :: nat))
     \<or> (65 \<le> (of_char c :: nat) \<and> of_char c \<le> (70 :: nat))"

definition lwip_isspace :: "char \<Rightarrow> bool" where
  "lwip_isspace c \<longleftrightarrow> c = CHR '' '' \<or> (9 \<le> (of_char c :: nat) \<and> of_char c \<le> (13 :: nat))"

text \<open>The character at \<open>cp\<close>: the terminating NUL at the end of the string.\<close>

definition cur :: "string \<Rightarrow> char" where
  "cur cp = (case cp of [] \<Rightarrow> CHR 0x00 | c # _ \<Rightarrow> c)"

text \<open>The inner loop: digits of one part in base 8, 10 or 16.\<close>

fun aton_digits :: "u32 \<Rightarrow> u32 \<Rightarrow> string \<Rightarrow> u32 \<times> string" where
  "aton_digits base v [] = (v, [])"
| "aton_digits base v (c # cs) =
     (if lwip_isdigit c
      then (if base = 8 \<and> of_char c - 48 \<ge> (8 :: nat) then (v, c # cs)
            else aton_digits base (v * base + of_nat (of_char c - 48)) cs)
      else if base = 16 \<and> lwip_isxdigit c
      then aton_digits base (push_bit 4 v OR of_nat (of_char c + 10 - (if lwip_islower c then 97 else 65))) cs
      else (v, c # cs))"

text \<open>One part: the prefix that selects the base, then its digits; \<open>None\<close> is \<open>return 0\<close>.\<close>

definition aton_part :: "string \<Rightarrow> (u32 \<times> string) option" where
  "aton_part cp =
     (if \<not> lwip_isdigit (cur cp) then None
      else if cur cp = CHR ''0'' then
        (let cp1 = tl cp in
         if cur cp1 = CHR ''x'' \<or> cur cp1 = CHR ''X'' then Some (aton_digits 16 0 (tl cp1))
         else Some (aton_digits 8 0 cp1))
      else Some (aton_digits 10 0 cp))"

text \<open>The outer loop: the parts before the last one, the last value, the remaining text.\<close>

function aton_parts :: "u32 list \<Rightarrow> string \<Rightarrow> (u32 list \<times> u32 \<times> string) option" where
  "aton_parts parts cp =
     (case aton_part cp of
        None \<Rightarrow> None
      | Some (v, rest) \<Rightarrow>
          if cur rest = CHR ''.'' then (if length parts \<ge> 3 then None else aton_parts (parts @ [v]) (tl rest))
          else Some (parts, v, rest))"
  by auto
termination
  by (relation "measure (\<lambda>(parts, cp). 4 - length parts)") auto

declare aton_parts.simps [simp del]

definition ip4addr_aton :: "string \<Rightarrow> u32 option" where
  "ip4addr_aton cp =
     (case aton_parts [] cp of
        None \<Rightarrow> None
      | Some (parts, v, rest) \<Rightarrow>
          if cur rest \<noteq> CHR 0x00 \<and> \<not> lwip_isspace (cur rest) then None
          else (case parts of
                  [] \<Rightarrow> Some (lwip_htonl v)
                | [a] \<Rightarrow> if v > 0xFFFFFF \<or> a > 0xFF then None
                         else Some (lwip_htonl (v OR push_bit 24 a))
                | [a, b] \<Rightarrow> if v > 0xFFFF \<or> a > 0xFF \<or> b > 0xFF then None
                            else Some (lwip_htonl (v OR (push_bit 24 a OR push_bit 16 b)))
                | [a, b, c] \<Rightarrow> if v > 0xFF \<or> a > 0xFF \<or> b > 0xFF \<or> c > 0xFF then None
                               else Some (lwip_htonl (v OR (push_bit 24 a OR push_bit 16 b OR push_bit 8 c)))
                | _ \<Rightarrow> None))"

definition ipaddr_addr :: "string \<Rightarrow> u32" where
  "ipaddr_addr cp = (case ip4addr_aton cp of Some v \<Rightarrow> v | None \<Rightarrow> IPADDR_NONE)"

text \<open>The \<open>do ... while\<close> that stores the digits of a byte into \<open>inv\<close>, low digit first.\<close>

function ntoa_inv :: "u8 \<Rightarrow> string" where
  "ntoa_inv ap =
     (let rem = ap mod 10; ap1 = ap div 10
      in char_of (48 + unat rem) # (if ap1 \<noteq> 0 then ntoa_inv ap1 else []))"
  by auto

lemma u8_div10_less: "(x :: u8) div 10 \<noteq> 0 \<Longrightarrow> unat (x div 10) < unat x"
  by (cases "x = 0") (auto simp: unat_div_word unat_gt_0)

termination ntoa_inv
  by (relation "measure unat") (auto simp: u8_div10_less)

declare ntoa_inv.simps [simp del]

text \<open>
  Characters are stored one at a time with \<open>if (len++ >= buflen) return NULL\<close> before each;
  \<open>ntoa_store\<close> is that write of a group of characters.
\<close>

fun ntoa_store :: "string \<Rightarrow> string \<Rightarrow> int \<Rightarrow> string option" where
  "ntoa_store out [] buflen = Some out"
| "ntoa_store out (c # cs) buflen =
     (if int (length out) \<ge> buflen then None else ntoa_store (out @ [c]) cs buflen)"

fun ntoa_bytes :: "u8 list \<Rightarrow> string \<Rightarrow> int \<Rightarrow> string option" where
  "ntoa_bytes [] out buflen = Some out"
| "ntoa_bytes (ap # aps) out buflen =
     (case ntoa_store out (rev (ntoa_inv ap)) buflen of
        None \<Rightarrow> None
      | Some out1 \<Rightarrow> (case ntoa_store out1 ''.'' buflen of
                        None \<Rightarrow> None
                      | Some out2 \<Rightarrow> ntoa_bytes aps out2 buflen))"

text \<open>The result is the C string in \<open>buf\<close>: the last dot is overwritten by the NUL.\<close>

definition ip4addr_ntoa_r :: "u32 \<Rightarrow> int \<Rightarrow> string option" where
  "ip4addr_ntoa_r addr buflen =
     map_option butlast (ntoa_bytes (map (ip4_addr_get_byte addr) [0..<4]) [] buflen)"

definition ip4addr_ntoa :: "u32 \<Rightarrow> string option" where
  "ip4addr_ntoa addr = ip4addr_ntoa_r addr 16"

section \<open>Byte swapping\<close>

lemma masks_u32:
  "(0xFF :: u32) = mask 8" "(0xFF00 :: u32) = push_bit 8 (mask 8)"
  "(0xFF0000 :: u32) = push_bit 16 (mask 8)" "(0xFF000000 :: u32) = push_bit 24 (mask 8)"
  by (simp_all add: mask_eq_exp_minus_1)

lemma htonl_bit:
  "n < 32 \<Longrightarrow> bit (PP_HTONL x) n \<longleftrightarrow>
     (if n < 8 then bit x (n + 24) else if n < 16 then bit x (n + 8)
      else if n < 24 then bit x (n - 8) else bit x (n - 24))"
  unfolding PP_HTONL_def masks_u32
  by (simp add: bit_or_iff bit_and_iff bit_push_bit_iff bit_drop_bit_eq bit_mask_iff) (auto simp: add.commute)

lemma htonl_involution: "lwip_htonl (lwip_htonl x) = x"
  by (rule bit_word_eqI) (auto simp: lwip_htonl_def htonl_bit)

lemma htons_involution: "lwip_htons (lwip_htons x) = x"
proof -
  have m: "(0xFF :: u16) = mask 8" "(0xFF00 :: u16) = push_bit 8 (mask 8)"
    by (simp_all add: mask_eq_exp_minus_1)
  show ?thesis
    by (rule bit_word_eqI) (auto simp: lwip_htons_def PP_HTONS_def m bit_simps)
qed

lemma get_byte_bit: "bit (ip4_addr_get_byte x i) n \<longleftrightarrow> n < 8 \<and> bit x (i * 8 + n)"
  unfolding ip4_addr_get_byte_def masks_u32 by (auto simp: bit_ucast_iff bit_and_iff bit_drop_bit_eq bit_mask_iff)

lemma htonl_of_bytes:
  "lwip_htonl (ucast (ip4_addr_get_byte x 3) OR (push_bit 24 (ucast (ip4_addr_get_byte x 0))
     OR push_bit 16 (ucast (ip4_addr_get_byte x (Suc 0))) OR push_bit 8 (ucast (ip4_addr_get_byte x 2)))) = x"
  unfolding lwip_htonl_def
  by (rule bit_word_eqI, simp add: htonl_bit bit_or_iff bit_push_bit_iff bit_ucast_iff get_byte_bit)
    (auto simp: add.commute)

section \<open>Printing and parsing\<close>

lemma isdigit_char [simp]: "d < 10 \<Longrightarrow> lwip_isdigit (char_of (48 + (d :: nat)))"
  by (simp add: lwip_isdigit_def)

lemma aton_digits_stop: "\<not> lwip_isdigit (cur cs) \<Longrightarrow> base \<noteq> 16 \<Longrightarrow> aton_digits base v cs = (v, cs)"
  by (cases cs) (auto simp: cur_def)

lemma aton_digits_dec:
  "d < 10 \<Longrightarrow> aton_digits 10 v (char_of (48 + (d :: nat)) # cs) = aton_digits 10 (v * 10 + of_nat d) cs"
  by simp

lemma char_48: "d < 10 \<Longrightarrow> char_of (48 + (d :: nat)) = CHR ''0'' \<longleftrightarrow> d = 0"
proof -
  assume "d < 10"
  moreover have "of_char (char_of (48 + d)) = (48 + d) mod 256" by simp
  moreover have "of_char (CHR ''0'') = (48 :: nat)" by simp
  moreover have "char_of (of_char (CHR ''0'') :: nat) = CHR ''0''" by (rule char_of_char)
  ultimately show ?thesis by (auto dest: arg_cong [of _ _ "of_char :: char \<Rightarrow> nat"])
qed

lemma ntoa_inv_digits:
  "unat b < 10 \<Longrightarrow> ntoa_inv b = [char_of (48 + unat b)]"
  "10 \<le> unat b \<Longrightarrow> ntoa_inv b = char_of (48 + unat b mod 10) # ntoa_inv (b div 10)"
  by (subst ntoa_inv.simps, simp add: unat_mod_word unat_div_word u8_eq_iff Let_def)+

lemma ntoa_inv_100: "ntoa_inv (b div 10 div 10) = [char_of (48 + unat b div 100)]"
proof -
  have "unat (b div 10 div 10) = unat b div 100" by (simp add: unat_div_word flip: div_mult2_eq)
  moreover have "unat b div 100 < 10" using unat_u8_less [of b] by linarith
  ultimately show ?thesis by (simp add: ntoa_inv_digits)
qed

text \<open>A printed byte is read back, whatever non-digit follows.\<close>

lemma aton_part_byte:
  assumes stop: "\<not> lwip_isdigit (cur cs)" "cur cs \<noteq> CHR ''x''" "cur cs \<noteq> CHR ''X''"
  shows "aton_part (rev (ntoa_inv b) @ cs) = Some (ucast b, cs)"
proof -
  have n: "unat b < 256" by simp
  have val: "(ucast b :: u32) = of_nat (unat b)" by simp
  consider "unat b < 10" | "10 \<le> unat b" "unat b < 100" | "100 \<le> unat b" by linarith
  then show ?thesis
  proof cases
    case 1
    then show ?thesis using stop
      by (auto simp: ntoa_inv_digits aton_part_def cur_def [of "_ # _"] char_48 aton_digits_dec aton_digits_stop val
            simp del: of_nat_unat aton_digits.simps)
  next
    case 2
    then have "rev (ntoa_inv b) = [char_of (48 + unat b div 10), char_of (48 + unat b mod 10)]"
      by (simp add: ntoa_inv_digits unat_div_word)
    moreover have "unat b div 10 < 10" "unat b div 10 \<noteq> 0" using 2 by auto
    moreover have "of_nat (unat b div 10) * 10 + of_nat (unat b mod 10) = (of_nat (unat b) :: u32)"
      by (metis div_mult_mod_eq of_nat_add of_nat_mult of_nat_numeral)
    ultimately show ?thesis using stop
      by (simp add: aton_part_def cur_def [of "_ # _"] char_48 aton_digits_dec aton_digits_stop val
            del: of_nat_unat aton_digits.simps)
  next
    case 3
    then have "rev (ntoa_inv b) = [char_of (48 + unat b div 100), char_of (48 + unat b div 10 mod 10), char_of (48 + unat b mod 10)]"
      by (simp add: ntoa_inv_digits ntoa_inv_100 unat_div_word)
    moreover have "unat b div 100 < 10" "unat b div 100 \<noteq> 0" using 3 unat_u8_less [of b] by linarith+
    moreover have "(of_nat (unat b div 100) * 10 + of_nat (unat b div 10 mod 10)) * 10 + of_nat (unat b mod 10)
        = (of_nat ((unat b div 100 * 10 + unat b div 10 mod 10) * 10 + unat b mod 10) :: u32)" by simp
    moreover have "(unat b div 100 * 10 + unat b div 10 mod 10) * 10 + unat b mod 10 = unat b"
      using div_mult2_eq [of "unat b" 10 10] by simp
    ultimately show ?thesis using stop
      by (simp add: aton_part_def cur_def [of "_ # _"] char_48 aton_digits_dec aton_digits_stop val
            del: of_nat_unat aton_digits.simps of_nat_add of_nat_mult)
  qed
qed

lemma ntoa_store_spec:
  "ntoa_store out cs buflen = (if cs = [] \<or> int (length out + length cs) \<le> buflen then Some (out @ cs) else None)"
  by (induction cs arbitrary: out) auto

lemma length_ntoa_inv: "1 \<le> length (ntoa_inv b) \<and> length (ntoa_inv b) \<le> 3"
proof -
  consider "unat b < 10" | "10 \<le> unat b" "unat b < 100" | "100 \<le> unat b" by linarith
  then show ?thesis
    by cases (simp_all add: ntoa_inv_digits ntoa_inv_100 unat_div_word)
qed

lemma ntoa_bytes_spec:
  "ntoa_bytes bs out buflen =
     (let t = out @ concat (map (\<lambda>b. rev (ntoa_inv b) @ ''.'') bs)
      in if bs = [] \<or> int (length t) \<le> buflen then Some t else None)"
proof (induction bs arbitrary: out)
  case Nil
  then show ?case by simp
next
  case (Cons b bs)
  have "ntoa_inv b \<noteq> []" using length_ntoa_inv [of b] by auto
  then show ?case by (auto simp: ntoa_store_spec Let_def Cons.IH)
qed

definition dotted :: "u32 \<Rightarrow> string" where
  "dotted addr =
     rev (ntoa_inv (ip4_addr_get_byte addr 0)) @ ''.'' @ rev (ntoa_inv (ip4_addr_get_byte addr 1)) @ ''.''
     @ rev (ntoa_inv (ip4_addr_get_byte addr 2)) @ ''.'' @ rev (ntoa_inv (ip4_addr_get_byte addr 3))"

lemma ntoa_r_spec:
  "ip4addr_ntoa_r addr buflen = (if int (length (dotted addr)) < buflen then Some (dotted addr) else None)"
  by (simp add: ip4addr_ntoa_r_def ntoa_bytes_spec dotted_def upt_rec butlast_append eval_nat_numeral)

lemma length_dotted: "7 \<le> length (dotted addr) \<and> length (dotted addr) \<le> 15"
  using length_ntoa_inv [of "ip4_addr_get_byte addr 0"] length_ntoa_inv [of "ip4_addr_get_byte addr 1"]
    length_ntoa_inv [of "ip4_addr_get_byte addr 2"] length_ntoa_inv [of "ip4_addr_get_byte addr 3"]
  by (simp add: dotted_def)

lemma cur_dot [simp]: "cur (CHR ''.'' # cs) = CHR ''.''" "\<not> lwip_isdigit (CHR ''.'')"
  "cur [] = CHR 0x00" "\<not> lwip_isdigit (CHR 0x00)"
  by (simp_all add: cur_def lwip_isdigit_def)

lemma ucast_u8_le: "(ucast (b :: u8) :: u32) \<le> 0xFF"
proof -
  have "unat b \<le> 255" using unat_u8_less [of b] by linarith
  then show ?thesis by (simp add: word_le_nat_alt)
qed

lemma aton_dotted: "ip4addr_aton (dotted addr) = Some addr"
proof -
  let ?b = "\<lambda>i. ip4_addr_get_byte addr i"
  have "aton_parts [] (dotted addr) = Some ([ucast (?b 0), ucast (?b 1), ucast (?b 2)], ucast (?b 3), [])"
    unfolding dotted_def
    using aton_part_byte [of "[]" "?b 3"]
    by (simp add: aton_parts.simps aton_part_byte)
  then show ?thesis
    using ucast_u8_le htonl_of_bytes [of addr] by (simp add: ip4addr_aton_def not_less)
qed

section \<open>Netmasks\<close>

lemma and_single_bit: "(nm :: u32) AND push_bit k 1 = 0 \<longleftrightarrow> \<not> bit nm k \<or> 32 \<le> k"
proof
  assume "nm AND push_bit k 1 = 0"
  then have "\<not> bit (nm AND push_bit k 1) k" by simp
  then show "\<not> bit nm k \<or> 32 \<le> k" by (auto simp: bit_simps)
next
  assume "\<not> bit nm k \<or> 32 \<le> k"
  then show "nm AND push_bit k 1 = 0" by (auto intro!: bit_word_eqI simp: bit_simps)
qed

lemma drop_push_1: "drop_bit 1 (push_bit k (1 :: u32)) = (if k = 0 then 0 else push_bit (k - 1) 1)" if "k < 32"
  using that by (auto intro!: bit_word_eqI simp: bit_simps)

definition sb :: "nat \<Rightarrow> u32" where
  "sb k = push_bit k 1"

lemma sb_facts:
  "k < 32 \<Longrightarrow> sb k \<noteq> 0" "k < 32 \<Longrightarrow> nm AND sb k = 0 \<longleftrightarrow> \<not> bit nm k"
  "drop_bit 1 (sb 0) = 0" "Suc k < 32 \<Longrightarrow> drop_bit 1 (sb (Suc k)) = sb k"
proof -
  show "k < 32 \<Longrightarrow> sb k \<noteq> 0"
  proof
    assume "k < 32" "sb k = 0"
    then have "\<not> bit (sb k) k" by simp
    then show False using \<open>k < 32\<close> by (simp add: sb_def bit_push_bit_iff del: push_bit_of_1)
  qed
  show "Suc k < 32 \<Longrightarrow> drop_bit 1 (sb (Suc k)) = sb k"
    using drop_push_1 [of "Suc k"] by (simp only: sb_def) simp
qed (simp_all add: sb_def and_single_bit drop_push_1 del: push_bit_of_1 push_bit_Suc)

lemma netmask_zeros_step:
  "netmask_zeros nm 0" "netmask_zeros nm (sb 0) \<longleftrightarrow> \<not> bit nm 0"
  "Suc k < 32 \<Longrightarrow> netmask_zeros nm (sb (Suc k)) \<longleftrightarrow> \<not> bit nm (Suc k) \<and> netmask_zeros nm (sb k)"
proof -
  show z: "netmask_zeros nm 0" by (simp add: netmask_zeros.simps)
  show "netmask_zeros nm (sb 0) \<longleftrightarrow> \<not> bit nm 0"
    by (subst netmask_zeros.simps) (simp only: sb_facts z, simp add: sb_facts)
  show "Suc k < 32 \<Longrightarrow> netmask_zeros nm (sb (Suc k)) \<longleftrightarrow> \<not> bit nm (Suc k) \<and> netmask_zeros nm (sb k)"
    by (subst netmask_zeros.simps) (simp only: sb_facts, simp add: sb_facts)
qed

lemma netmask_ones_step:
  "netmask_ones nm (sb 0) = (if bit nm 0 then 0 else sb 0)"
  "Suc k < 32 \<Longrightarrow> netmask_ones nm (sb (Suc k)) = (if bit nm (Suc k) then netmask_ones nm (sb k) else sb (Suc k))"
proof -
  have z: "netmask_ones nm 0 = 0" by (simp add: netmask_ones.simps)
  show "netmask_ones nm (sb 0) = (if bit nm 0 then 0 else sb 0)"
    by (subst netmask_ones.simps) (simp only: sb_facts z, simp add: sb_facts)
  show "Suc k < 32 \<Longrightarrow> netmask_ones nm (sb (Suc k)) = (if bit nm (Suc k) then netmask_ones nm (sb k) else sb (Suc k))"
    by (subst netmask_ones.simps) (simp only: sb_facts, simp add: sb_facts)
qed

lemma netmask_zeros_spec: "k < 32 \<Longrightarrow> netmask_zeros nm (sb k) \<longleftrightarrow> (\<forall>j\<le>k. \<not> bit nm j)"
  by (induction k) (auto simp: netmask_zeros_step le_Suc_eq)

lemma netmask_check_spec:
  "k < 32 \<Longrightarrow> netmask_zeros nm (netmask_ones nm (sb k)) \<longleftrightarrow> (\<exists>m\<le>Suc k. \<forall>j\<le>k. bit nm j \<longleftrightarrow> m \<le> j)"
proof (induction k)
  case 0
  then show ?case by (auto simp: netmask_ones_step netmask_zeros_step intro: exI [of _ "0::nat"] exI [of _ "1::nat"])
next
  case (Suc k)
  show ?case
  proof (cases "bit nm (Suc k)")
    case True
    then have "(\<exists>m\<le>Suc (Suc k). \<forall>j\<le>Suc k. bit nm j \<longleftrightarrow> m \<le> j) \<longleftrightarrow> (\<exists>m\<le>Suc k. \<forall>j\<le>k. bit nm j \<longleftrightarrow> m \<le> j)"
      by (metis le_SucE le_SucI order_refl not_less_eq_eq)
    with True Suc show ?thesis by (simp add: netmask_ones_step)
  next
    case False
    then have "(\<exists>m\<le>Suc (Suc k). \<forall>j\<le>Suc k. bit nm j \<longleftrightarrow> m \<le> j) \<longleftrightarrow> (\<forall>j\<le>Suc k. \<not> bit nm j)"
      by (auto intro: exI [of _ "Suc (Suc k)"])
    with False Suc show ?thesis by (simp add: netmask_ones_step netmask_zeros_spec)
  qed
qed

lemma not_mask_eq_iff: "x = NOT (mask m :: u32) \<longleftrightarrow> (\<forall>j\<le>31. bit x j \<longleftrightarrow> m \<le> j)"
  by (auto simp: bit_eq_iff bit_simps less_Suc_eq_le not_less eval_nat_numeral)

section \<open>Properties\<close>

text \<open>
  C33. Printing an address and parsing the text gives the address back: for every address there
  is a text of at most 15 characters that \<open>ip4addr_ntoa_r\<close> stores in any buffer with
  room for it and its NUL, returning NULL for smaller buffers, and that
  \<open>ip4addr_aton\<close> accepts with that address as the result.
\<close>

theorem ip4addr_ntoa_aton_roundtrip:
  "\<exists>s. length s \<le> 15
     \<and> (\<forall>buflen. ip4addr_ntoa_r addr buflen = (if int (length s) < buflen then Some s else None))
     \<and> ip4addr_ntoa addr = Some s \<and> ip4addr_aton s = Some addr"
proof (intro exI conjI allI)
  show "length (dotted addr) \<le> 15" using length_dotted by blast
  show "ip4addr_ntoa addr = Some (dotted addr)"
    using length_dotted [of addr] by (simp add: ip4addr_ntoa_def ntoa_r_spec)
qed (simp_all add: ntoa_r_spec aton_dotted)

text \<open>
  \<open>ip4_addr_netmask_valid\<close> accepts a mask exactly when, in host order, it is a run of
  ones followed by a run of \<open>k\<close> zeros for some \<open>k\<close> between 0 and 32.
\<close>

theorem netmask_valid_iff_prefix:
  "ip4_addr_netmask_valid nm = 1 \<longleftrightarrow> (\<exists>k\<le>32. lwip_htonl nm = NOT (mask k))"
proof -
  have "push_bit 31 1 = sb 31" by (simp add: sb_def)
  then show ?thesis
    using netmask_check_spec [of 31 "lwip_htonl nm"]
    by (simp add: ip4_addr_netmask_valid_def not_mask_eq_iff Let_def)
qed

text \<open>
  On an interface with the broadcast flag, an address other than the interface's own is a
  broadcast address exactly when it is 0.0.0.0, 255.255.255.255, or the interface's network
  with all host bits set.
\<close>

theorem isbroadcast_characterisation:
  assumes "flags nif AND NETIF_FLAG_BROADCAST \<noteq> 0" and "addr \<noteq> ip_addr nif"
  shows "ip4_addr_isbroadcast_u32 addr nif = 1 \<longleftrightarrow>
    addr = 0 \<or> addr = 0xFFFFFFFF \<or> addr = (ip_addr nif AND netmask nif) OR NOT (netmask nif)"
proof -
  have m1: "(0xFFFFFFFF :: u32) = NOT 0" by simp
  have ones: "NOT addr = 0 \<longleftrightarrow> addr = 0xFFFFFFFF"
    unfolding m1 by (metis bit.double_compl)
  have "addr AND netmask nif = ip_addr nif AND netmask nif \<and> addr AND NOT (netmask nif) = 0xFFFFFFFF AND NOT (netmask nif)
      \<longleftrightarrow> addr = (ip_addr nif AND netmask nif) OR NOT (netmask nif)"
    unfolding m1 bit_eq_iff by (auto simp: bit_simps)
  then show ?thesis
    using assms ones by (auto simp: ip4_addr_isbroadcast_u32_def ip4_addr_net_eq_def IPADDR_ANY_def IPADDR_BROADCAST_def)
qed

theorem isbroadcast_characterisation_witness:
  "ip4_addr_isbroadcast_u32 (IP4_ADDR 10 0 2 255)
     \<lparr>ip_addr = IP4_ADDR 10 0 2 15, netmask = IP4_ADDR 255 255 255 0, gw = 0, mtu = 1500,
      hwaddr = [], hwaddr_len = 6, flags = 0x0F, nif_name = ''st'', num = 0\<rparr> = 1"
  by (subst isbroadcast_characterisation)
    (simp_all add: IP4_ADDR_def PP_HTONL_def LWIP_MAKEU32_def NETIF_FLAG_BROADCAST_def)

end
