(* ===== verification/Lwip_Chksum.thy ===== *)
theory Lwip_Chksum
  imports Lwip_Pbuf_Proofs Lwip_Ip4Addr
begin

text \<open>
  The Internet checksum, \<open>lwip/src/core/inet_chksum.c\<close> with \<open>LWIP_CHKSUM_ALGORITHM\<close> 2.
  A buffer is its list of bytes together with the low bit of its address, on which the code
  branches; for pbufs that bit is the argument \<open>is_odd\<close>, a function of the pbuf.

  Lemmas: every routine computes the one's complement sum of RFC 1071 over the bytes of the
  packet, independent of buffer alignment and of how the packet is cut into pbufs, and a
  packet carrying its own checksum verifies.
\<close>

section \<open>Definitions\<close>

definition FOLD_U32T :: "u32 \<Rightarrow> u32" where
  "FOLD_U32T u = drop_bit 16 u + (u AND 0xFFFF)"

definition SWAP_BYTES_IN_WORD :: "u32 \<Rightarrow> u32" where
  "SWAP_BYTES_IN_WORD w = push_bit 8 (w AND 0xFF) OR drop_bit 8 (w AND 0xFF00)"

text \<open>A 16-bit load on this little-endian target.\<close>

definition load16 :: "u8 \<Rightarrow> u8 \<Rightarrow> u16" where
  "load16 b0 b1 = ucast b0 OR push_bit 8 (ucast b1)"

fun chksum_loop :: "u32 \<Rightarrow> u8 list \<Rightarrow> u32 \<times> u8 list" where
  "chksum_loop acc (a # b # ps) = chksum_loop (acc + ucast (load16 a b)) ps"
| "chksum_loop acc ps = (acc, ps)"

definition lwip_standard_chksum :: "bool \<Rightarrow> u8 list \<Rightarrow> u16" where
  "lwip_standard_chksum is_odd pb =
     (let (t, ps) = (if is_odd \<and> pb \<noteq> [] then (load16 0 (hd pb), tl pb) else (0, pb));
          (acc, left) = chksum_loop 0 ps;
          t = (if left \<noteq> [] then (t AND 0xFF00) OR ucast (hd left) else t);
          acc = acc + ucast t;
          acc = FOLD_U32T acc;
          acc = FOLD_U32T acc;
          acc = (if is_odd then SWAP_BYTES_IN_WORD acc else acc)
      in ucast acc)"

text \<open>The loop over the chain, shared by the routines: the accumulator and the swapped flag.\<close>

fun chksum_chain :: "(pbuf \<Rightarrow> bool) \<Rightarrow> pchain \<Rightarrow> u32 \<Rightarrow> bool \<Rightarrow> u32 \<times> bool" where
  "chksum_chain is_odd [] acc swapped = (acc, swapped)"
| "chksum_chain is_odd (q # qs) acc swapped =
     (let acc = acc + ucast (lwip_standard_chksum (is_odd q) (pbuf_read q 0 (unat (p_len q))));
          acc = FOLD_U32T acc
      in if p_len q mod 2 \<noteq> 0 then chksum_chain is_odd qs (SWAP_BYTES_IN_WORD acc) (\<not> swapped)
         else chksum_chain is_odd qs acc swapped)"

definition inet_cksum_pseudo_base :: "(pbuf \<Rightarrow> bool) \<Rightarrow> pchain \<Rightarrow> u8 \<Rightarrow> u16 \<Rightarrow> u32 \<Rightarrow> u16" where
  "inet_cksum_pseudo_base is_odd p proto proto_len acc =
     (let (acc, swapped) = chksum_chain is_odd p acc False;
          acc = (if swapped then SWAP_BYTES_IN_WORD acc else acc);
          acc = acc + ucast (lwip_htons (ucast proto));
          acc = acc + ucast (lwip_htons proto_len);
          acc = FOLD_U32T acc;
          acc = FOLD_U32T acc
      in ucast (NOT (acc AND 0xFFFF)))"

definition inet_chksum_pseudo :: "(pbuf \<Rightarrow> bool) \<Rightarrow> pchain \<Rightarrow> u8 \<Rightarrow> u16 \<Rightarrow> u32 \<Rightarrow> u32 \<Rightarrow> u16" where
  "inet_chksum_pseudo is_odd p proto proto_len src dest =
     (let addr = src;
          acc = addr AND 0xFFFF;
          acc = acc + (drop_bit 16 addr AND 0xFFFF);
          addr = dest;
          acc = acc + (addr AND 0xFFFF);
          acc = acc + (drop_bit 16 addr AND 0xFFFF);
          acc = FOLD_U32T acc;
          acc = FOLD_U32T acc
      in inet_cksum_pseudo_base is_odd p proto proto_len acc)"

definition ip_chksum_pseudo :: "(pbuf \<Rightarrow> bool) \<Rightarrow> pchain \<Rightarrow> u8 \<Rightarrow> u16 \<Rightarrow> u32 \<Rightarrow> u32 \<Rightarrow> u16" where
  "ip_chksum_pseudo is_odd p proto proto_len src dest = inet_chksum_pseudo is_odd p proto proto_len src dest"

definition inet_chksum :: "bool \<Rightarrow> u8 list \<Rightarrow> u16" where
  "inet_chksum is_odd dataptr = ucast (NOT (ucast (lwip_standard_chksum is_odd dataptr) :: u32))"

definition inet_chksum_pbuf :: "(pbuf \<Rightarrow> bool) \<Rightarrow> pchain \<Rightarrow> u16" where
  "inet_chksum_pbuf is_odd p =
     (let (acc, swapped) = chksum_chain is_odd p 0 False;
          acc = (if swapped then SWAP_BYTES_IN_WORD acc else acc)
      in ucast (NOT (acc AND 0xFFFF)))"

section \<open>One's complement arithmetic\<close>

text \<open>
  The specification of RFC 1071: the sum of the 16-bit words of the data (an odd last byte
  padded with zero), as a plain number, and its one's complement representative: 0 only for
  the sum 0, otherwise a value from 1 to 65535 equal to the sum modulo 65535.
\<close>

fun word_sum :: "u8 list \<Rightarrow> nat" where
  "word_sum (a # b # ps) = unat a + 256 * unat b + word_sum ps"
| "word_sum [a] = unat a"
| "word_sum [] = 0"

definition ones_comp :: "nat \<Rightarrow> nat" where
  "ones_comp s = (if s = 0 then 0 else (s - 1) mod 65535 + 1)"

definition oc_eq :: "nat \<Rightarrow> nat \<Rightarrow> bool" where
  "oc_eq r s \<longleftrightarrow> r mod 65535 = s mod 65535 \<and> (r = 0 \<longleftrightarrow> s = 0)"

lemma oc_eq_refl [simp]: "oc_eq s s"
  by (simp add: oc_eq_def)

lemma oc_eq_sym: "oc_eq r s \<Longrightarrow> oc_eq s r"
  by (auto simp: oc_eq_def)

lemma oc_eq_trans [trans]: "oc_eq r s \<Longrightarrow> oc_eq s t \<Longrightarrow> oc_eq r t"
  by (auto simp: oc_eq_def)

lemma oc_eq_add: "oc_eq r s \<Longrightarrow> oc_eq r' s' \<Longrightarrow> oc_eq (r + r') (s + s')"
  unfolding oc_eq_def by (metis add_is_0 mod_add_cong)

lemma oc_eq_mult: "oc_eq r s \<Longrightarrow> oc_eq (256 * r) (256 * s)"
  unfolding oc_eq_def by (metis mod_mult_right_eq mult_eq_0_iff)

lemma oc_eq_65536: "oc_eq (256 * (256 * s)) s"
proof -
  have "256 * (256 * s) = s + 65535 * s" by simp
  then show ?thesis unfolding oc_eq_def by (metis add_is_0 mod_mult_self2 mult_0_right)
qed

lemma oc_eq_ones_comp: "oc_eq r s \<Longrightarrow> r \<le> 65535 \<Longrightarrow> r = ones_comp s"
proof -
  assume a: "oc_eq r s" "r \<le> 65535"
  show ?thesis
  proof (cases "s = 0")
    case True
    with a show ?thesis by (simp add: oc_eq_def ones_comp_def)
  next
    case False
    then obtain r' s' where "r = Suc r'" "s = Suc s'" using a by (auto simp: oc_eq_def gr0_conv_Suc)
    then have "(r - 1) mod 65535 = (s - 1) mod 65535"
      using a(1) unfolding oc_eq_def nat_mod_eq_iff by auto
    moreover have "(r - 1) mod 65535 = r - 1" using a by simp
    ultimately have "r - 1 = (s - 1) mod 65535" by simp
    moreover have "0 < r" using a False by (simp add: oc_eq_def)
    ultimately show ?thesis using False by (simp add: ones_comp_def)
  qed
qed

text \<open>Modulo 65535 the words of a buffer add up to its value as a little-endian number.\<close>

fun le_value :: "u8 list \<Rightarrow> nat" where
  "le_value [] = 0"
| "le_value (a # ps) = unat a + 256 * le_value ps"

lemma oc_eq_word_sum: "oc_eq (word_sum bs) (le_value bs)"
proof (induction bs rule: word_sum.induct)
  case (1 a b ps)
  have "oc_eq (word_sum ps) (256 * (256 * le_value ps))"
    using 1 oc_eq_65536 oc_eq_sym oc_eq_trans by blast
  then have "oc_eq (unat a + 256 * unat b + word_sum ps) (unat a + 256 * unat b + 256 * (256 * le_value ps))"
    by (intro oc_eq_add) simp_all
  then show ?case by (simp add: algebra_simps)
qed simp_all

lemma le_value_append_even:
  "even (length xs) \<Longrightarrow> oc_eq (le_value (xs @ ys)) (le_value xs + le_value ys)"
  "odd (length xs) \<Longrightarrow> oc_eq (le_value (xs @ ys)) (le_value xs + 256 * le_value ys)"
proof (induction xs)
  case (Cons a xs)
  {
    case 1
    then have "oc_eq (256 * le_value (xs @ ys)) (256 * (le_value xs + 256 * le_value ys))"
      using Cons.IH(2) by (intro oc_eq_mult) simp
    then have "oc_eq (256 * le_value (xs @ ys)) (256 * le_value xs + le_value ys)"
      using oc_eq_trans oc_eq_add [OF oc_eq_refl oc_eq_65536] by (fastforce simp: algebra_simps)
    then show ?case using oc_eq_add [OF oc_eq_refl, of _ _ "unat a"] by (simp add: add.assoc)
  next
    case 2
    then have "oc_eq (256 * le_value (xs @ ys)) (256 * (le_value xs + le_value ys))"
      using Cons.IH(1) by (intro oc_eq_mult) simp
    then show ?case using oc_eq_add [OF oc_eq_refl, of _ _ "unat a"] by (simp add: distrib_left add.assoc)
  }
qed simp_all

section \<open>The building blocks\<close>

lemma unat_and_mask_u32 [wconv]: "unat ((u :: u32) AND 0xFFFF) = unat u mod 65536"
proof -
  have "u AND 0xFFFF = take_bit 16 u" by (simp add: take_bit_eq_mask mask_eq_exp_minus_1)
  then show ?thesis by (simp add: unsigned_take_bit_eq take_bit_nat_def)
qed

lemma unat_drop_bit_16 [wconv]: "unat (drop_bit 16 (u :: u32)) = unat u div 65536"
  by (simp add: drop_bit_eq_div unat_div_word)

lemma unat_fold: "unat (FOLD_U32T u) = unat u div 65536 + unat u mod 65536"
proof -
  have "unat u div 65536 \<le> 65535" using unat_u32_less [of u] by linarith
  moreover have "unat u mod 65536 \<le> 65535" by (simp add: less_Suc_eq_le [symmetric])
  ultimately have "unat u div 65536 + unat u mod 65536 < 4294967296" by linarith
  then show ?thesis by (simp add: FOLD_U32T_def unat_add_u32 unat_and_mask_u32 unat_drop_bit_16)
qed

lemma fold_oc: "oc_eq (unat (FOLD_U32T u)) (unat u)"
proof -
  have e: "unat u = unat u div 65536 + unat u mod 65536 + 65535 * (unat u div 65536)"
    using div_mult_mod_eq [of "unat u" 65536] by linarith
  have "(unat u div 65536 + unat u mod 65536) mod 65535 = unat u mod 65535"
    using mod_mult_self2 [of "unat u div 65536 + unat u mod 65536" 65535 "unat u div 65536"] e by metis
  moreover have "unat u div 65536 + unat u mod 65536 = 0 \<longleftrightarrow> unat u = 0"
    using e by linarith
  ultimately show ?thesis unfolding oc_eq_def unat_fold by blast
qed

lemma fold_le: "unat u \<le> 131070 \<Longrightarrow> unat (FOLD_U32T u) \<le> 65535"
  unfolding unat_fold by (cases "unat u < 65536") (auto simp: le_mod_geq)

lemma fold_le2: "unat (FOLD_U32T u) \<le> 131070"
proof -
  have "unat u div 65536 \<le> 65535" using unat_u32_less [of u] by linarith
  moreover have "unat u mod 65536 \<le> 65535" by (simp add: less_Suc_eq_le [symmetric])
  ultimately show ?thesis unfolding unat_fold by linarith
qed

lemma unat_load16: "unat (load16 a b) = unat a + 256 * unat b"
proof -
  have "(ucast a :: u16) AND push_bit 8 (ucast b) = 0"
    by (rule bit_word_eqI) (auto simp: bit_simps dest: bit_imp_le_length)
  then have "load16 a b = ucast a + push_bit 8 (ucast b)"
    by (simp add: load16_def disjunctive_add_eq_or)
  moreover have "unat (push_bit 8 (ucast b :: u16)) = 256 * unat b"
    using unat_u8_less [of b] by (simp add: push_bit_eq_mult unat_word_ariths del: unat_u8_less)
  moreover have "unat a + 256 * unat b < 65536" using unat_u8_less [of a] unat_u8_less [of b] by linarith
  ultimately show ?thesis by (simp add: unat_word_ariths)
qed

lemma unat_swap:
  assumes "unat w \<le> 65535"
  shows "unat (SWAP_BYTES_IN_WORD w) = 256 * (unat w mod 256) + unat w div 256"
proof -
  have "push_bit 8 (w AND 0xFF) AND drop_bit 8 (w AND 0xFF00) = 0"
    unfolding masks_u32 by (rule bit_word_eqI) (auto simp: bit_simps)
  then have s: "SWAP_BYTES_IN_WORD w = push_bit 8 (w AND 0xFF) + drop_bit 8 (w AND 0xFF00)"
    by (simp add: SWAP_BYTES_IN_WORD_def disjunctive_add_eq_or)
  have "drop_bit 8 (w AND 0xFF00) = drop_bit 8 w AND 0xFF"
    unfolding masks_u32 by (rule bit_word_eqI) (auto simp: bit_simps)
  then have hi: "unat (drop_bit 8 (w AND 0xFF00)) = unat w div 256"
    using assms by (simp add: unat_and_255 drop_bit_eq_div unat_div_word)
  have lo: "unat (push_bit 8 (w AND 0xFF)) = 256 * (unat w mod 256)"
    using unat_and_255 [of w] by (simp add: push_bit_eq_mult unat_word_ariths)
  have "unat w mod 256 \<le> 255" "unat w div 256 \<le> 255" using assms by (simp_all add: less_Suc_eq_le [symmetric])
  then show ?thesis unfolding s unat_add_u32 hi lo by simp
qed

lemma swap_oc: "unat w \<le> 65535 \<Longrightarrow> oc_eq (unat (SWAP_BYTES_IN_WORD w)) (256 * unat w)"
proof -
  assume w: "unat w \<le> 65535"
  have "256 * unat w = 256 * (unat w mod 256) + 256 * (256 * (unat w div 256))"
    using div_mult_mod_eq [of "unat w" 256] by linarith
  then show ?thesis
    unfolding unat_swap [OF w] using oc_eq_add [OF oc_eq_refl oc_eq_65536 [THEN oc_eq_sym]] by simp
qed

lemma swap_le: "unat w \<le> 65535 \<Longrightarrow> unat (SWAP_BYTES_IN_WORD w) \<le> 65535"
proof -
  assume w: "unat w \<le> 65535"
  then have "unat w mod 256 \<le> 255" "unat w div 256 \<le> 255" by (simp_all add: less_Suc_eq_le [symmetric])
  then show ?thesis unfolding unat_swap [OF w] by linarith
qed

lemma chksum_loop_spec:
  assumes "unat acc + 65535 * length ps < 4294967296" and "chksum_loop acc ps = (acc', left)"
  shows "length left \<le> 1 \<and> unat acc' + word_sum left = unat acc + word_sum ps \<and> (left \<noteq> [] \<longleftrightarrow> odd (length ps))
     \<and> unat acc' \<le> unat acc + 65535 * (length ps div 2)"
  using assms
proof (induction acc ps rule: chksum_loop.induct)
  case (1 acc a b ps)
  have "unat a + 256 * unat b \<le> 65535" using unat_u8_less [of a] unat_u8_less [of b] by linarith
  then have u: "unat (acc + ucast (load16 a b)) = unat acc + (unat a + 256 * unat b)"
    using "1.prems"(1) by (simp add: unat_add_u32 unat_load16)
  then have "length left \<le> 1 \<and> unat acc' + word_sum left = unat (acc + ucast (load16 a b)) + word_sum ps
      \<and> (left \<noteq> [] \<longleftrightarrow> odd (length ps)) \<and> unat acc' \<le> unat (acc + ucast (load16 a b)) + 65535 * (length ps div 2)"
    using "1.prems" \<open>unat a + 256 * unat b \<le> 65535\<close> by (intro "1.IH") simp_all
  then show ?case using u \<open>unat a + 256 * unat b \<le> 65535\<close> by auto
qed auto

lemma unat_or_byte: "unat ((t AND 0xFF00) OR ucast (a :: u8) :: u16) = unat (t AND 0xFF00) + unat a"
proof -
  have m: "(0xFF00 :: u16) = push_bit 8 (mask 8)" by (simp add: mask_eq_exp_minus_1)
  have d: "(t AND 0xFF00) AND ucast a = 0"
    unfolding m by (rule bit_word_eqI) (auto simp: bit_simps dest: bit_imp_le_length)
  have "unat (t AND 0xFF00) \<le> 65280" using word_and_le1 [of t "0xFF00"] by (simp add: word_le_nat_alt)
  then have "unat (t AND 0xFF00) + unat a < 65536" using unat_u8_less [of a] by linarith
  then show ?thesis using d by (simp add: unat_word_ariths flip: disjunctive_add_eq_or)
qed

lemma unat_load16_0: "load16 0 b AND 0xFF00 = load16 0 b"
proof -
  have m: "(0xFF00 :: u16) = push_bit 8 (mask 8)" by (simp add: mask_eq_exp_minus_1)
  show ?thesis
    unfolding m load16_def by (rule bit_word_eqI) (auto simp: bit_simps dest: bit_imp_le_length)
qed

text \<open>The two folds and the optional swap turn any 32-bit sum into its representative.\<close>

lemma fold_fold: "unat (FOLD_U32T (FOLD_U32T u)) \<le> 65535 \<and> oc_eq (unat (FOLD_U32T (FOLD_U32T u))) (unat u)"
  using fold_le [OF fold_le2] fold_oc oc_eq_trans by blast

lemma u16_of_small: "unat (w :: u32) \<le> 65535 \<Longrightarrow> unat (ucast w :: u16) = unat w"
  by (simp add: unsigned_ucast_eq take_bit_nat_def)

lemma standard_chksum_oc:
  assumes "length pb \<le> 65535"
  shows "oc_eq (unat (lwip_standard_chksum o1 pb)) (word_sum pb)"
proof -
  obtain t ps where tps: "(if o1 \<and> pb \<noteq> [] then (load16 0 (hd pb), tl pb) else (0, pb)) = (t, ps)"
    by fastforce
  obtain acc left where loop: "chksum_loop 0 ps = (acc, left)" by fastforce
  define t' where "t' = (if left \<noteq> [] then (t AND 0xFF00) OR ucast (hd left) else t)"
  define w where "w = FOLD_U32T (FOLD_U32T (acc + ucast t'))"
  have len_ps: "length ps \<le> 65535" using tps assms by (auto split: if_splits)
  have L: "length left \<le> 1" "unat acc + word_sum left = word_sum ps" "unat acc \<le> 65535 * (length ps div 2)"
    using chksum_loop_spec [OF _ loop] len_ps by auto
  have t0: "t AND 0xFF00 = t" using tps by (auto simp: unat_load16_0 split: if_splits)
  have t': "unat t' = unat t + word_sum left"
    using L(1) t0 unat_or_byte [of t] by (cases left) (auto simp: t'_def)
  have "unat t' \<le> 65535" using unat_u16_less [of t'] by linarith
  then have sum: "unat (acc + ucast t') = unat t + word_sum ps"
    using L len_ps t' by (simp add: unat_add_u32)
  have w: "unat w \<le> 65535" "oc_eq (unat w) (unat t + word_sum ps)"
    using fold_fold [of "acc + ucast t'"] unfolding w_def sum by auto
  have res: "lwip_standard_chksum o1 pb = ucast (if o1 then SWAP_BYTES_IN_WORD w else w)"
    unfolding lwip_standard_chksum_def tps by (simp add: loop Let_def t'_def w_def)
  show ?thesis
  proof (cases o1)
    case False
    then show ?thesis using w tps res by (simp add: u16_of_small)
  next
    case True
    have "oc_eq (256 * (unat t + word_sum ps)) (word_sum pb)"
    proof (cases pb)
      case Nil
      then show ?thesis using tps by simp
    next
      case (Cons b bs)
      then have tp: "t = load16 0 b" "ps = bs" using tps True by auto
      have "oc_eq (256 * (256 * unat b) + 256 * word_sum bs) (unat b + 256 * le_value bs)"
        by (intro oc_eq_add oc_eq_65536 oc_eq_mult oc_eq_word_sum)
      then have "oc_eq (256 * (unat t + word_sum ps)) (le_value pb)"
        using Cons by (simp add: tp unat_load16 distrib_left)
      then show ?thesis using oc_eq_word_sum oc_eq_sym oc_eq_trans by blast
    qed
    moreover have "oc_eq (unat (SWAP_BYTES_IN_WORD w)) (256 * (unat t + word_sum ps))"
      using swap_oc [OF w(1)] oc_eq_mult [OF w(2)] oc_eq_trans by blast
    ultimately show ?thesis
      using True res swap_le [OF w(1)] oc_eq_trans by (auto simp: u16_of_small)
  qed
qed

section \<open>Chains\<close>

definition shifted :: "bool \<Rightarrow> nat \<Rightarrow> nat" where
  "shifted sw x = (if sw then 256 * x else x)"

lemma shifted_oc: "oc_eq r s \<Longrightarrow> oc_eq (shifted sw r) (shifted sw s)"
  by (simp add: shifted_def oc_eq_mult)

lemma shifted_add: "shifted sw (x + y) = shifted sw x + shifted sw y"
  by (simp add: shifted_def)

lemma shifted_not: "oc_eq (shifted (\<not> sw) (256 * x)) (shifted sw x)" "oc_eq (shifted (\<not> sw) x) (shifted sw (256 * x))"
  using oc_eq_65536 [of x] oc_eq_65536 [of x, THEN oc_eq_sym] by (auto simp: shifted_def)

lemma chksum_step:
  assumes "unat acc \<le> 65535" and "length bs \<le> 65535"
  shows "unat (FOLD_U32T (acc + ucast (lwip_standard_chksum o1 bs))) \<le> 65535
     \<and> oc_eq (unat (FOLD_U32T (acc + ucast (lwip_standard_chksum o1 bs)))) (unat acc + le_value bs)"
proof -
  let ?w = "lwip_standard_chksum o1 bs"
  have "unat ?w \<le> 65535" using unat_u16_less [of ?w] by linarith
  then have u: "unat (acc + ucast ?w) = unat acc + unat ?w" using assms(1) by (simp add: unat_add_u32)
  have "oc_eq (unat ?w) (le_value bs)"
    using standard_chksum_oc [OF assms(2)] oc_eq_word_sum oc_eq_trans by blast
  then have "oc_eq (unat (acc + ucast ?w)) (unat acc + le_value bs)" unfolding u by (intro oc_eq_add) simp_all
  moreover have "unat (acc + ucast ?w) \<le> 131070" unfolding u using assms(1) \<open>unat ?w \<le> 65535\<close> by linarith
  ultimately show ?thesis using fold_oc oc_eq_trans fold_le by blast
qed

lemma even_word_mod: "(w :: u16) mod 2 = 1 \<longleftrightarrow> odd (unat w)"
  by (simp add: word_unat_eq_iff unat_mod_word odd_iff_mod_2_eq_one)

lemma chksum_chain_oc:
  assumes "list_all pbuf_ok c" and "unat acc \<le> 65535" and "chksum_chain o1 c acc sw = (acc', sw')"
  shows "unat (if sw' then SWAP_BYTES_IN_WORD acc' else acc') \<le> 65535
     \<and> oc_eq (unat (if sw' then SWAP_BYTES_IN_WORD acc' else acc'))
            (shifted sw (unat acc + le_value (chain_bytes c)))"
  using assms
proof (induction c arbitrary: acc sw)
  case Nil
  then show ?case by (auto simp: shifted_def swap_oc swap_le)
next
  case (Cons q qs)
  let ?bs = "pbuf_data q"
  let ?a = "FOLD_U32T (acc + ucast (lwip_standard_chksum (o1 q) ?bs))"
  let ?r = "if sw' then SWAP_BYTES_IN_WORD acc' else acc'"
  have len: "length ?bs = unat (p_len q)" using Cons.prems(1) by simp
  moreover have "unat (p_len q) \<le> 65535" using unat_u16_less [of "p_len q"] by linarith
  ultimately have st: "unat ?a \<le> 65535" "oc_eq (unat ?a) (unat acc + le_value ?bs)"
    using chksum_step Cons.prems(2) by auto
  have rd: "pbuf_read q 0 (unat (p_len q)) = ?bs" by (simp add: pbuf_data_def)
  show ?case
  proof (cases "odd (unat (p_len q))")
    case False
    have "chksum_chain o1 qs ?a sw = (acc', sw')"
      using Cons.prems(3) False by (simp add: rd even_word_mod Let_def)
    then have IH: "unat ?r \<le> 65535" "oc_eq (unat ?r) (shifted sw (unat ?a + le_value (chain_bytes qs)))"
      using Cons.IH [of ?a sw] Cons.prems(1) st(1) by auto
    have "oc_eq (unat ?a + le_value (chain_bytes qs)) (unat acc + le_value (?bs @ chain_bytes qs))"
      using oc_eq_trans [OF oc_eq_add [OF st(2) oc_eq_refl]] le_value_append_even(1) [of ?bs "chain_bytes qs"] False len
      by (metis add.assoc oc_eq_add oc_eq_refl oc_eq_sym)
    with IH show ?thesis using shifted_oc oc_eq_trans by (metis chain_bytes_simps(2))
  next
    case True
    let ?b = "SWAP_BYTES_IN_WORD ?a"
    have "chksum_chain o1 qs ?b (\<not> sw) = (acc', sw')"
      using Cons.prems(3) True by (simp add: rd even_word_mod Let_def)
    then have IH: "unat ?r \<le> 65535" "oc_eq (unat ?r) (shifted (\<not> sw) (unat ?b + le_value (chain_bytes qs)))"
      using Cons.IH [of ?b "\<not> sw"] Cons.prems(1) swap_le [OF st(1)] by auto
    have "oc_eq (unat ?b) (256 * (unat acc + le_value ?bs))"
      using swap_oc [OF st(1)] oc_eq_mult [OF st(2)] oc_eq_trans by blast
    then have "oc_eq (shifted (\<not> sw) (unat ?b)) (shifted sw (unat acc + le_value ?bs))"
      using shifted_oc shifted_not(1) oc_eq_trans by blast
    then have "oc_eq (shifted (\<not> sw) (unat ?b + le_value (chain_bytes qs)))
        (shifted sw (unat acc + le_value ?bs + 256 * le_value (chain_bytes qs)))"
      unfolding shifted_add by (metis oc_eq_add shifted_add shifted_not(2))
    moreover have "oc_eq (unat acc + le_value ?bs + 256 * le_value (chain_bytes qs)) (unat acc + le_value (?bs @ chain_bytes qs))"
      using le_value_append_even(2) [of ?bs "chain_bytes qs"] True len
      by (metis add.assoc oc_eq_add oc_eq_refl oc_eq_sym)
    ultimately have "oc_eq (shifted (\<not> sw) (unat ?b + le_value (chain_bytes qs)))
        (shifted sw (unat acc + le_value (?bs @ chain_bytes qs)))"
      using shifted_oc oc_eq_trans by blast
    then show ?thesis using IH oc_eq_trans unfolding chain_bytes_simps by blast
  qed
qed

lemma unat_not_u16: "unat (NOT (w :: u16)) = 65535 - unat w"
proof -
  have "NOT w = 0xFFFF - w" by (simp add: not_eq_complement)
  then show ?thesis using unat_sub [of w "0xFFFF"] unat_u16_less [of w] by (simp add: word_le_nat_alt)
qed

lemma ucast_not_mask: "unat (acc :: u32) \<le> 65535 \<Longrightarrow> (ucast (NOT (acc AND 0xFFFF)) :: u16) = NOT (ucast acc)"
proof -
  have m: "(0xFFFF :: u32) = mask 16" by (simp add: mask_eq_exp_minus_1)
  show ?thesis unfolding m by (rule bit_word_eqI) (auto simp: bit_simps)
qed

lemma of_nat_ones_comp: "unat (acc :: u32) \<le> 65535 \<Longrightarrow> oc_eq (unat acc) S \<Longrightarrow> (ucast acc :: u16) = of_nat (ones_comp S)"
proof -
  assume a: "unat acc \<le> 65535" "oc_eq (unat acc) S"
  then have "unat acc = ones_comp S" using oc_eq_ones_comp by blast
  then have "unat (ucast acc :: u16) = unat (of_nat (ones_comp S) :: u16)"
    using a(1) by (simp add: u16_of_small unat_of_nat_u16)
  then show ?thesis by (rule word_unat_eq_iff [THEN iffD2])
qed

lemma chksum_pbuf_spec:
  assumes "list_all pbuf_ok c"
  shows "inet_chksum_pbuf o1 c = NOT (of_nat (ones_comp (word_sum (chain_bytes c))))"
proof -
  obtain acc sw where c: "chksum_chain o1 c 0 False = (acc, sw)" by fastforce
  let ?r = "if sw then SWAP_BYTES_IN_WORD acc else acc"
  have r: "unat ?r \<le> 65535" "oc_eq (unat ?r) (le_value (chain_bytes c))"
    using chksum_chain_oc [OF assms _ c] by (auto simp: shifted_def)
  then have "oc_eq (unat ?r) (word_sum (chain_bytes c))" using oc_eq_word_sum oc_eq_sym oc_eq_trans by blast
  then have "ucast ?r = (of_nat (ones_comp (word_sum (chain_bytes c))) :: u16)"
    using r(1) of_nat_ones_comp by blast
  moreover have "inet_chksum_pbuf o1 c = ucast (NOT (?r AND 0xFFFF))"
    by (simp only: inet_chksum_pbuf_def c Let_def prod.case)
  ultimately show ?thesis using ucast_not_mask [OF r(1)] by metis
qed

lemma unat_htons: "unat (lwip_htons x) = 256 * (unat x mod 256) + unat x div 256"
proof -
  have m: "(0xFF :: u16) = mask 8" "(0xFF00 :: u16) = push_bit 8 (mask 8)"
    by (simp_all add: mask_eq_exp_minus_1)
  have m': "(0xFF :: u32) = mask 8" "(0xFF00 :: u32) = push_bit 8 (mask 8)"
    by (simp_all add: mask_eq_exp_minus_1)
  have "lwip_htons x = ucast (SWAP_BYTES_IN_WORD (ucast x))"
    unfolding lwip_htons_def PP_HTONS_def SWAP_BYTES_IN_WORD_def m m'
    by (rule bit_word_eqI) (auto simp: bit_simps)
  moreover have "unat (ucast x :: u32) \<le> 65535" using unat_u16_less [of x] by (simp del: unat_u16_less)
  ultimately show ?thesis using swap_le unat_swap by (simp add: u16_of_small)
qed

text \<open>The pseudo header: source and destination address, zero, protocol and length in network order.\<close>

definition pseudo_header :: "u32 \<Rightarrow> u32 \<Rightarrow> u8 \<Rightarrow> u16 \<Rightarrow> u8 list" where
  "pseudo_header src dest proto proto_len =
     map (ip4_addr_get_byte src) [0..<4] @ map (ip4_addr_get_byte dest) [0..<4]
     @ [0, proto, ucast (drop_bit 8 proto_len), ucast proto_len]"

lemma unat_drop_bit_div: "unat (drop_bit n (x :: u32)) = unat x div 2 ^ n"
  by (simp only: unsigned_drop_bit_eq) (simp add: drop_bit_eq_div take_bit_nat_eq_self)

lemma unat_get_byte: "unat (ip4_addr_get_byte x i) = unat x div 2 ^ (i * 8) mod 256"
  by (simp add: ip4_addr_get_byte_def unat_ucast_u8 unat_and_255 unat_drop_bit_div)

lemma upt_0_4: "[0..<4] = [0, 1, 2, 3 :: nat]"
  by (simp add: upt_rec)

lemma addr_words:
  "unat (x AND 0xFFFF) + unat (drop_bit 16 x AND 0xFFFF) = word_sum (map (ip4_addr_get_byte x) [0..<4])"
proof -
  have "unat x mod 65536 = unat x mod 256 + 256 * (unat x div 256 mod 256)"
    using mod_mult2_eq [of "unat x" 256 256] by simp
  moreover have "unat x div 65536 mod 65536 = unat x div 65536 mod 256 + 256 * (unat x div 16777216 mod 256)"
    using mod_mult2_eq [of "unat x div 65536" 256 256] div_mult2_eq [of "unat x" 65536 256] by simp
  moreover have "unat (ip4_addr_get_byte x 0) = unat x mod 256" "unat (ip4_addr_get_byte x 1) = unat x div 256 mod 256"
    "unat (ip4_addr_get_byte x 2) = unat x div 65536 mod 256" "unat (ip4_addr_get_byte x 3) = unat x div 16777216 mod 256"
    by (simp_all add: unat_get_byte)
  moreover have "word_sum (map (ip4_addr_get_byte x) [0..<4]) =
      unat (ip4_addr_get_byte x 0) + 256 * unat (ip4_addr_get_byte x 1)
      + (unat (ip4_addr_get_byte x 2) + 256 * unat (ip4_addr_get_byte x 3))"
    unfolding upt_0_4 by (simp only: list.map word_sum.simps)
  moreover have "unat (x AND 0xFFFF) = unat x mod 65536" "unat (drop_bit 16 x AND 0xFFFF) = unat x div 65536 mod 65536"
    by (simp_all add: unat_and_mask_u32 unat_drop_bit_16)
  ultimately show ?thesis by presburger
qed

lemma word_sum_append: "even (length xs) \<Longrightarrow> word_sum (xs @ ys) = word_sum xs + word_sum ys"
  by (induction xs rule: word_sum.induct) auto

lemma word_sum_pseudo:
  "word_sum (pseudo_header src dest proto proto_len) =
     unat (src AND 0xFFFF) + unat (drop_bit 16 src AND 0xFFFF) + unat (dest AND 0xFFFF)
     + unat (drop_bit 16 dest AND 0xFFFF) + unat (lwip_htons (ucast proto)) + unat (lwip_htons proto_len)"
proof -
  have p: "unat (lwip_htons (ucast proto)) = 256 * unat proto"
    using unat_u8_less [of proto] by (simp add: unat_htons del: unat_u8_less)
  have "unat (ucast (drop_bit 8 proto_len) :: u8) = unat proto_len div 256"
    "unat (ucast proto_len :: u8) = unat proto_len mod 256"
    using unat_u16_less [of proto_len]
    by (simp_all add: unsigned_ucast_eq take_bit_nat_def drop_bit_eq_div unat_div_word del: unat_u16_less)
  then have "word_sum [0, proto, ucast (drop_bit 8 proto_len), ucast proto_len] =
      unat (lwip_htons (ucast proto)) + unat (lwip_htons proto_len)"
    unfolding p unat_htons by simp
  then show ?thesis
    unfolding pseudo_header_def addr_words [symmetric] by (simp add: word_sum_append addr_words)
qed

lemma unat_add_small: "unat (a :: u32) + unat b < 4294967296 \<Longrightarrow> unat (a + b) = unat a + unat b"
  by (simp add: unat_add_u32)

lemma cksum_pseudo_base_spec:
  assumes "list_all pbuf_ok c" and "unat acc \<le> 65535" and "oc_eq (unat acc) S"
  shows "inet_cksum_pseudo_base o1 c proto proto_len acc =
     NOT (of_nat (ones_comp (S + unat (lwip_htons (ucast proto)) + unat (lwip_htons proto_len) + word_sum (chain_bytes c))))"
proof -
  obtain a sw where c: "chksum_chain o1 c acc False = (a, sw)" by fastforce
  let ?r = "if sw then SWAP_BYTES_IN_WORD a else a"
  let ?p = "lwip_htons (ucast proto)" and ?l = "lwip_htons proto_len"
  have r: "unat ?r \<le> 65535" "oc_eq (unat ?r) (unat acc + le_value (chain_bytes c))"
    using chksum_chain_oc [OF assms(1,2) c] by (auto simp: shifted_def)
  have "oc_eq (unat ?r) (S + word_sum (chain_bytes c))"
    using r(2) oc_eq_add [OF assms(3)] oc_eq_word_sum oc_eq_sym oc_eq_trans by blast
  then have S: "oc_eq (unat ?r + (unat ?p + unat ?l)) (S + word_sum (chain_bytes c) + (unat ?p + unat ?l))"
    by (intro oc_eq_add) simp_all
  let ?s = "?r + ucast ?p + ucast ?l"
  have pl: "unat ?p \<le> 65535" "unat ?l \<le> 65535" using unat_u16_less [of ?p] unat_u16_less [of ?l] by linarith+
  have "unat (?r + ucast ?p) = unat ?r + unat ?p" using r(1) pl by (subst unat_add_small) simp_all
  then have u: "unat ?s = unat ?r + (unat ?p + unat ?l)" using r(1) pl by (subst unat_add_small) simp_all
  let ?f = "FOLD_U32T (FOLD_U32T ?s)"
  have f: "unat ?f \<le> 65535" "oc_eq (unat ?f) (S + unat ?p + unat ?l + word_sum (chain_bytes c))"
    using fold_fold [of ?s] S oc_eq_trans unfolding u by (auto simp: add_ac)
  moreover have "inet_cksum_pseudo_base o1 c proto proto_len acc = ucast (NOT (?f AND 0xFFFF))"
    by (simp only: inet_cksum_pseudo_base_def c Let_def prod.case)
  ultimately show ?thesis using ucast_not_mask of_nat_ones_comp by metis
qed

lemma chksum_pseudo_spec:
  assumes "list_all pbuf_ok c"
  shows "ip_chksum_pseudo o1 c proto proto_len src dest =
     NOT (of_nat (ones_comp (word_sum (pseudo_header src dest proto proto_len @ chain_bytes c))))"
proof -
  let ?a = "src AND 0xFFFF" and ?b = "drop_bit 16 src AND 0xFFFF"
    and ?c = "dest AND 0xFFFF" and ?d = "drop_bit 16 dest AND 0xFFFF"
  have le: "unat (x AND 0xFFFF) \<le> 65535" for x :: u32
    unfolding unat_and_mask_u32 by (simp add: less_Suc_eq_le [symmetric])
  have "unat (?a + ?b) = unat ?a + unat ?b"
    using le [of src] le [of "drop_bit 16 src"] by (intro unat_add_small) linarith
  moreover then have "unat (?a + ?b + ?c) = unat ?a + unat ?b + unat ?c"
    using le [of src] le [of "drop_bit 16 src"] le [of dest] by (subst unat_add_small) linarith+
  ultimately have "unat (?a + ?b + ?c + ?d) = unat ?a + unat ?b + unat ?c + unat ?d"
    using le [of src] le [of "drop_bit 16 src"] le [of dest] le [of "drop_bit 16 dest"]
    by (subst unat_add_small) linarith+
  then have f: "unat (FOLD_U32T (FOLD_U32T (?a + ?b + ?c + ?d))) \<le> 65535"
    "oc_eq (unat (FOLD_U32T (FOLD_U32T (?a + ?b + ?c + ?d)))) (unat ?a + unat ?b + unat ?c + unat ?d)"
    using fold_fold [of "?a + ?b + ?c + ?d"] by auto
  have "even (length (pseudo_header src dest proto proto_len))" by (simp add: pseudo_header_def)
  then show ?thesis
    unfolding ip_chksum_pseudo_def inet_chksum_pseudo_def Let_def
      cksum_pseudo_base_spec [OF assms f] by (simp add: word_sum_append word_sum_pseudo)
qed

section \<open>Verification of a stored checksum\<close>

definition rfc1071 :: "u8 list \<Rightarrow> u16" where
  "rfc1071 bs = NOT (of_nat (ones_comp (word_sum bs)))"

text \<open>A 16-bit store on this little-endian target.\<close>

definition store16 :: "u16 \<Rightarrow> u8 list" where
  "store16 w = [ucast w, ucast (drop_bit 8 w)]"

lemma word_sum_store16: "word_sum (store16 w) = unat w"
  using unat_u16_less [of w]
  by (simp add: store16_def unsigned_ucast_eq take_bit_nat_def drop_bit_eq_div unat_div_word del: unat_u16_less)

lemma ones_comp_le: "ones_comp S \<le> 65535"
  by (simp add: ones_comp_def Suc_le_eq)

lemma unat_rfc1071: "unat (rfc1071 bs) = 65535 - ones_comp (word_sum bs)"
  using ones_comp_le [of "word_sum bs"] by (simp add: rfc1071_def unat_not_u16 unat_of_nat_u16)

lemma ones_comp_full: "S \<noteq> 0 \<Longrightarrow> S mod 65535 = 0 \<Longrightarrow> ones_comp S = 65535"
proof -
  assume "S \<noteq> 0" "S mod 65535 = 0"
  then have "oc_eq 65535 S" by (simp add: oc_eq_def)
  then show ?thesis using oc_eq_ones_comp [of 65535 S] by simp
qed

lemma rfc1071_verifies:
  assumes "even (length pre)" and "k = rfc1071 (pre @ store16 0 @ post)"
  shows "rfc1071 (pre @ store16 (if k = 0 then 0xFFFF else k) @ post) = 0"
proof -
  let ?f = "if k = 0 then 0xFFFF else k"
  let ?S = "word_sum pre + word_sum post"
  have ws: "word_sum (pre @ store16 w @ post) = ?S + unat w" for w
    using assms(1) by (simp add: word_sum_append store16_def) (simp add: word_sum_store16 [unfolded store16_def, simplified])
  have k: "unat k = 65535 - ones_comp ?S" using assms(2) ws [of 0] by (simp add: unat_rfc1071)
  have oc: "oc_eq (ones_comp ?S) ?S"
  proof (cases "?S = 0")
    case False
    have "((?S - 1) mod 65535 + 1) mod 65535 = ?S mod 65535"
      using False by (metis mod_add_left_eq Suc_eq_plus1 Suc_pred' bot_nat_0.not_eq_extremum)
    with False show ?thesis by (simp add: oc_eq_def ones_comp_def)
  qed (simp add: ones_comp_def)
  have "(?S + unat ?f) mod 65535 = 0 \<and> ?S + unat ?f \<noteq> 0"
  proof (cases "k = 0")
    case True
    then have "ones_comp ?S = 65535" using k ones_comp_le [of ?S] by simp
    then have "?S mod 65535 = 0" using oc by (simp add: oc_eq_def)
    then have "(?S + 65535) mod 65535 = 0" by (metis mod_add_self2)
    then show ?thesis using True by simp
  next
    case False
    have "(?S + (65535 - ones_comp ?S)) mod 65535 = (ones_comp ?S + (65535 - ones_comp ?S)) mod 65535"
      using oc unfolding oc_eq_def by (metis mod_add_left_eq)
    then have "(?S + unat k) mod 65535 = 0" using ones_comp_le [of ?S] k by simp
    moreover have "unat k \<noteq> 0" using False by (simp add: unat_eq_0)
    ultimately show ?thesis using False by simp
  qed
  then have "ones_comp (word_sum (pre @ store16 ?f @ post)) = 65535" unfolding ws by (intro ones_comp_full) auto
  then have "unat (rfc1071 (pre @ store16 ?f @ post)) = 0" by (simp add: unat_rfc1071)
  then show ?thesis by (simp add: unat_eq_0)
qed

lemma inet_chksum_spec:
  assumes "length bs \<le> 65535"
  shows "inet_chksum a bs = rfc1071 bs"
proof -
  have "unat (lwip_standard_chksum a bs) \<le> 65535"
    using unat_u16_less [of "lwip_standard_chksum a bs"] by linarith
  then have "unat (lwip_standard_chksum a bs) = ones_comp (word_sum bs)"
    using standard_chksum_oc [OF assms] oc_eq_ones_comp by blast
  then have "lwip_standard_chksum a bs = of_nat (ones_comp (word_sum bs))"
    by (metis of_nat_unat ucast_id)
  then show ?thesis
    by (auto intro!: bit_word_eqI simp: inet_chksum_def rfc1071_def bit_simps)
qed

section \<open>Properties\<close>

text \<open>A packet in one pbuf without headroom.\<close>

definition raw_pbuf :: "u8 list \<Rightarrow> pbuf" where
  "raw_pbuf bs = pbuf_init_alloced_pbuf bs 0 (of_nat (length bs)) (of_nat (length bs)) PBUF_RAM 0"

lemma raw_pbuf_chain: "length bs < 65536 \<Longrightarrow> chain_ok [raw_pbuf bs] \<and> chain_bytes [raw_pbuf bs] = bs"
  by (simp add: raw_pbuf_def pbuf_init_alloced_pbuf_def pbuf_ok_def pbuf_data_def pbuf_read_def unat_of_nat_u16)

text \<open>
  C25. The checksum routines compute the Internet checksum of RFC 1071 of the data (with the
  pseudo header in front where one is used), whatever the alignment of the buffers and
  however the packet is cut into pbufs.
\<close>

theorem chksum_is_rfc1071:
  assumes "chain_ok c" and "length bs \<le> 65535"
  shows "inet_chksum a bs = rfc1071 bs
    \<and> inet_chksum_pbuf is_odd c = rfc1071 (chain_bytes c)
    \<and> ip_chksum_pseudo is_odd c proto proto_len src dest = rfc1071 (pseudo_header src dest proto proto_len @ chain_bytes c)"
  using assms by (simp add: inet_chksum_spec chksum_pbuf_spec chksum_pseudo_spec chain_ok_all rfc1071_def)

theorem chksum_is_rfc1071_witness:
  "inet_chksum_pbuf (\<lambda>_. True) sample_chain = rfc1071 [1, 2, 3, 4, 5] \<and> rfc1071 [1, 2, 3, 4, 5] = 0xF9F6"
  using chksum_is_rfc1071 [OF sample_chain_ok, of "[]" False "\<lambda>_. True"]
  by (simp add: sample_chain_bytes rfc1071_def ones_comp_def)

text \<open>
  C26. A packet that carries, at an even offset, the checksum computed over it with that field
  zero (stored as 0xFFFF when it is 0) verifies: the receiver's \<open>ip_chksum_pseudo\<close>
  gives 0, even if the receiver sees the packet cut and aligned differently.
\<close>

theorem stored_chksum_verifies:
  assumes "chain_ok c" and "chain_ok d" and "even (length pre)"
    and "chain_bytes c = pre @ store16 0 @ post"
    and "chain_bytes d = pre @ store16 (if k = 0 then 0xFFFF else k) @ post"
    and "k = ip_chksum_pseudo odd_c c proto proto_len src dest"
  shows "ip_chksum_pseudo odd_d d proto proto_len src dest = 0"
proof -
  let ?h = "pseudo_header src dest proto proto_len"
  have "even (length (?h @ pre))" using assms(3) by (simp add: pseudo_header_def)
  moreover have "k = rfc1071 ((?h @ pre) @ store16 0 @ post)"
    using assms(4,6) by (simp add: chksum_pseudo_spec [OF chain_ok_all [OF assms(1)]] rfc1071_def)
  ultimately have "rfc1071 ((?h @ pre) @ store16 (if k = 0 then 0xFFFF else k) @ post) = 0"
    by (rule rfc1071_verifies)
  then show ?thesis
    using assms(5) chksum_pseudo_spec [OF chain_ok_all [OF assms(2)], of odd_d proto proto_len src dest]
    by (simp add: rfc1071_def)
qed

theorem stored_chksum_verifies_witness:
  "let k = ip_chksum_pseudo (\<lambda>_. False) [raw_pbuf [1, 2, 0, 0, 5]] 17 5 0x0F02000A 0x01C89FA2
   in ip_chksum_pseudo (\<lambda>_. True) [raw_pbuf ([1, 2] @ store16 (if k = 0 then 0xFFFF else k) @ [5])]
        17 5 0x0F02000A 0x01C89FA2 = 0"
  unfolding Let_def
  by (rule stored_chksum_verifies [where c = "[raw_pbuf [1, 2, 0, 0, 5]]" and pre = "[1, 2]" and post = "[5]"
        and odd_c = "\<lambda>_. False"])
    (simp_all add: raw_pbuf_chain store16_def del: chain_ok_simps chain_bytes_simps split del: if_split)

end
