(* ===== verification/Lwip_Udp.thy ===== *)
theory Lwip_Udp
  imports Lwip_Chksum
begin

text \<open>
  UDP, \<open>lwip/src/core/udp.c\<close>, in the configuration of \<open>config/lwipopts.h\<close>: IPv4 only, one
  interface, checksums generated and checked, no UDP-Lite, no multicast options, no
  \<open>SO_REUSE\<close>. Control blocks live in numbered slots of the \<open>MEMP_UDP_PCB\<close> pool; a
  pointer is a slot number. The receive callback a pcb holds is a value of the type
  \<open>'cb\<close>, and \<open>udp_input\<close> returns which callback it calls with which arguments. The IP
  output function below UDP is the argument \<open>ip_out\<close>.

  Lemmas: a new port is in the dynamic range and unused; binding, removing and input keep
  the active list duplicate free and apart from the free slots; a datagram reaches the
  callback of the pcb bound to its destination port with exactly the payload that was sent.
\<close>

section \<open>State\<close>

record 'cb udp_pcb =
  local_ip :: u32
  remote_ip :: u32
  netif_idx :: u8
  so_options :: u8
  tos :: u8
  ttl :: u8
  pcb_flags :: u8
  local_port :: u16
  remote_port :: u16
  recv :: "'cb option"

record 'cb udp_state =
  pcb_at :: "nat \<Rightarrow> 'cb udp_pcb"
  udp_pcbs :: "nat list"
  udp_free :: "nat list"
  udp_port :: u16

definition UDP_LOCAL_PORT_RANGE_START :: u16 where [cdefs]: "UDP_LOCAL_PORT_RANGE_START = 0xC000"
definition UDP_LOCAL_PORT_RANGE_END :: u16 where [cdefs]: "UDP_LOCAL_PORT_RANGE_END = 0xFFFF"
definition UDP_FLAGS_NOCHKSUM :: u8 where [cdefs]: "UDP_FLAGS_NOCHKSUM = 0x01"
definition UDP_FLAGS_CONNECTED :: u8 where [cdefs]: "UDP_FLAGS_CONNECTED = 0x04"
definition UDP_HLEN :: u16 where [cdefs]: "UDP_HLEN = 8"
definition IP_PROTO_UDP :: u8 where [cdefs]: "IP_PROTO_UDP = 17"
definition PBUF_TRANSPORT :: u16 where [cdefs]: "PBUF_TRANSPORT = 54"
definition PBUF_IP :: u16 where [cdefs]: "PBUF_IP = 34"

section \<open>Ports\<close>

definition UDP_ENSURE_LOCAL_PORT_RANGE :: "u16 \<Rightarrow> u16" where
  "UDP_ENSURE_LOCAL_PORT_RANGE port =
     (port AND NOT UDP_LOCAL_PORT_RANGE_START) + UDP_LOCAL_PORT_RANGE_START"

text \<open>\<open>rand()\<close> is the C library's: its value is an argument.\<close>

definition udp_init :: "u32 \<Rightarrow> 'cb udp_state \<Rightarrow> 'cb udp_state" where
  "udp_init r s = s\<lparr>udp_port := UDP_ENSURE_LOCAL_PORT_RANGE (ucast r)\<rparr>"

definition next_port :: "u16 \<Rightarrow> u16" where
  "next_port port =
     (if port = UDP_LOCAL_PORT_RANGE_END then UDP_LOCAL_PORT_RANGE_START else port + 1)"

text \<open>The \<open>again:\<close> loop; the result is the returned port and the new \<open>udp_port\<close>.\<close>

function udp_new_port_loop :: "u16 list \<Rightarrow> u16 \<Rightarrow> u16 \<Rightarrow> u16 \<times> u16" where
  "udp_new_port_loop ports n port =
     (let port1 = next_port port in
      if port1 \<in> set ports
      then (if n + 1 > UDP_LOCAL_PORT_RANGE_END - UDP_LOCAL_PORT_RANGE_START then (0, port1)
            else udp_new_port_loop ports (n + 1) port1)
      else (port1, port1))"
  by auto

lemma port_counter_step:
  "\<not> n + 1 > UDP_LOCAL_PORT_RANGE_END - UDP_LOCAL_PORT_RANGE_START \<Longrightarrow> unat (0x3FFF - (n + 1)) < unat (0x3FFF - n)"
proof -
  assume a: "\<not> n + 1 > UDP_LOCAL_PORT_RANGE_END - UDP_LOCAL_PORT_RANGE_START"
  define m where "m = n + 1"
  have m: "m \<le> 0x3FFF" using a unfolding m_def by (simp add: cdefs not_less)
  then have u: "unat (0x3FFF - m) = 0x3FFF - unat m" by (subst unat_sub) simp_all
  have e: "0x3FFF - n = (0x3FFF - m) + 1" unfolding m_def by simp
  have "unat (0x3FFF - n) = unat (0x3FFF - m) + 1"
    unfolding e by (subst unat_word_ariths) (use u in simp)
  then show ?thesis unfolding m_def by simp
qed

termination udp_new_port_loop
  by (relation "measure (\<lambda>(ports, n, port). unat (0x3FFF - n))") (use port_counter_step in auto)

declare udp_new_port_loop.simps [simp del]

definition udp_new_port :: "'cb udp_state \<Rightarrow> u16 \<times> 'cb udp_state" where
  "udp_new_port s =
     (let (port, last_port) = udp_new_port_loop (map (\<lambda>i. local_port (pcb_at s i)) (udp_pcbs s)) 0 (udp_port s)
      in (port, s\<lparr>udp_port := last_port\<rparr>))"

section \<open>Control blocks\<close>

definition new_udp_pcb :: "'cb udp_pcb" where
  "new_udp_pcb = \<lparr>local_ip = 0, remote_ip = 0, netif_idx = 0, so_options = 0, tos = 0, ttl = 255,
     pcb_flags = 0, local_port = 0, remote_port = 0, recv = None\<rparr>"

definition udp_new :: "'cb udp_state \<Rightarrow> nat option \<times> 'cb udp_state" where
  "udp_new s = (case udp_free s of [] \<Rightarrow> (None, s)
     | i # free \<Rightarrow> (Some i, s\<lparr>udp_free := free, pcb_at := (pcb_at s)(i := new_udp_pcb)\<rparr>))"

definition upd_pcb :: "nat \<Rightarrow> ('cb udp_pcb \<Rightarrow> 'cb udp_pcb) \<Rightarrow> 'cb udp_state \<Rightarrow> 'cb udp_state" where
  "upd_pcb i f s = s\<lparr>pcb_at := (pcb_at s)(i := f (pcb_at s i))\<rparr>"

definition udp_port_in_use :: "'cb udp_state \<Rightarrow> nat \<Rightarrow> u32 \<Rightarrow> u16 \<Rightarrow> bool" where
  "udp_port_in_use s pcb ipaddr port \<longleftrightarrow>
     list_ex (\<lambda>i. pcb \<noteq> i \<and> local_port (pcb_at s i) = port
                 \<and> (local_ip (pcb_at s i) = ipaddr \<or> ipaddr = IPADDR_ANY \<or> local_ip (pcb_at s i) = IPADDR_ANY))
       (udp_pcbs s)"

definition udp_bind :: "nat \<Rightarrow> u32 \<Rightarrow> u16 \<Rightarrow> 'cb udp_state \<Rightarrow> lwip_err \<times> 'cb udp_state" where
  "udp_bind pcb ipaddr port s =
     (let rebind = (pcb \<in> set (udp_pcbs s));
          (port1, s1) = (if port = 0 then udp_new_port s else (port, s))
      in if port = 0 \<and> port1 = 0 then (ERR_USE, s1)
         else if port \<noteq> 0 \<and> udp_port_in_use s pcb ipaddr port then (ERR_USE, s1)
         else let s2 = upd_pcb pcb (\<lambda>p. p\<lparr>local_ip := ipaddr, local_port := port1\<rparr>) s1
              in (ERR_OK, if rebind then s2 else s2\<lparr>udp_pcbs := pcb # udp_pcbs s2\<rparr>))"

definition udp_bind_netif :: "nat \<Rightarrow> 'a netif_scheme option \<Rightarrow> 'cb udp_state \<Rightarrow> 'cb udp_state" where
  "udp_bind_netif pcb nif s =
     upd_pcb pcb (\<lambda>p. p\<lparr>netif_idx := (case nif of Some n \<Rightarrow> num n + 1 | None \<Rightarrow> 0)\<rparr>) s"

definition udp_connect :: "nat \<Rightarrow> u32 \<Rightarrow> u16 \<Rightarrow> 'cb udp_state \<Rightarrow> lwip_err \<times> 'cb udp_state" where
  "udp_connect pcb ipaddr port s =
     (let (err, s1) = (if local_port (pcb_at s pcb) = 0
                       then udp_bind pcb (local_ip (pcb_at s pcb)) (local_port (pcb_at s pcb)) s
                       else (ERR_OK, s))
      in if err \<noteq> ERR_OK then (err, s1)
         else let s2 = upd_pcb pcb (\<lambda>p. p\<lparr>remote_ip := ipaddr, remote_port := port,
                                         pcb_flags := pcb_flags p OR UDP_FLAGS_CONNECTED\<rparr>) s1
              in (ERR_OK, if pcb \<in> set (udp_pcbs s2) then s2 else s2\<lparr>udp_pcbs := pcb # udp_pcbs s2\<rparr>))"

definition udp_disconnect :: "nat \<Rightarrow> 'cb udp_state \<Rightarrow> 'cb udp_state" where
  "udp_disconnect pcb s =
     upd_pcb pcb (\<lambda>p. p\<lparr>remote_ip := 0, remote_port := 0, netif_idx := 0,
                       pcb_flags := pcb_flags p AND NOT UDP_FLAGS_CONNECTED\<rparr>) s"

definition udp_recv :: "nat \<Rightarrow> 'cb option \<Rightarrow> 'cb udp_state \<Rightarrow> 'cb udp_state" where
  "udp_recv pcb cb s = upd_pcb pcb (\<lambda>p. p\<lparr>recv := cb\<rparr>) s"

definition udp_remove :: "nat \<Rightarrow> 'cb udp_state \<Rightarrow> 'cb udp_state" where
  "udp_remove pcb s = s\<lparr>udp_pcbs := remove1 pcb (udp_pcbs s), udp_free := pcb # udp_free s\<rparr>"

definition udp_netif_ip_addr_changed :: "u32 \<Rightarrow> u32 \<Rightarrow> 'cb udp_state \<Rightarrow> 'cb udp_state" where
  "udp_netif_ip_addr_changed old_addr new_addr s =
     (if old_addr \<noteq> IPADDR_ANY \<and> new_addr \<noteq> IPADDR_ANY
      then fold (\<lambda>i. upd_pcb i (\<lambda>p. if local_ip p = old_addr then p\<lparr>local_ip := new_addr\<rparr> else p)) (udp_pcbs s) s
      else s)"

section \<open>Sending\<close>

definition ip4_addr_ismulticast :: "u32 \<Rightarrow> bool" where
  "ip4_addr_ismulticast a \<longleftrightarrow> a AND PP_HTONL 0xF0000000 = PP_HTONL 0xE0000000"

definition ip4_addr_isloopback :: "u32 \<Rightarrow> bool" where
  "ip4_addr_isloopback a \<longleftrightarrow> a AND PP_HTONL 0xFF000000 = PP_HTONL (push_bit 24 127)"

text \<open>The interface a packet leaves on; \<open>netif_default\<close> is the argument, \<open>None\<close> for NULL.\<close>

definition ip4_route :: "'a netif_scheme option \<Rightarrow> u32 \<Rightarrow> 'a netif_scheme option" where
  "ip4_route netif_default dest =
     (case netif_default of None \<Rightarrow> None
      | Some n \<Rightarrow> if flags n AND NETIF_FLAG_UP = 0 \<or> flags n AND NETIF_FLAG_LINK_UP = 0
                      \<or> ip_addr n = IPADDR_ANY \<or> ip4_addr_isloopback dest then None
                  else Some n)"

type_synonym ip_out = "pchain \<Rightarrow> u32 \<Rightarrow> u32 \<Rightarrow> u8 \<Rightarrow> u8 \<Rightarrow> u8 \<Rightarrow> lwip_err \<times> pchain"

text \<open>The header fields at the start of a pbuf, stored in network order.\<close>

definition put_udp_hdr :: "u16 \<Rightarrow> u16 \<Rightarrow> u16 \<Rightarrow> u16 \<Rightarrow> pbuf \<Rightarrow> pbuf" where
  "put_udp_hdr src dest l chksum q =
     pbuf_write q 0 (store16 (lwip_htons src) @ store16 (lwip_htons dest)
                     @ store16 (lwip_htons l) @ store16 chksum)"

text \<open>
  The chain with its header in front, before the header is filled in: in the headroom of
  \<open>p\<close> or in a new pbuf chained before it.
\<close>

definition udp_prepend :: "(u16 \<Rightarrow> u8 list option) \<Rightarrow> pchain \<Rightarrow> pbuf_env \<Rightarrow> ((pchain \<times> bool) option \<times> pbuf_env) option" where
  "udp_prepend mem_malloc p e =
     (case pbuf_add_header (hd p) (ucast UDP_HLEN) of
        (r, h) \<Rightarrow>
          if r = 0 then Some (Some (h # tl p, False), e)
          else do { (q, e1) \<leftarrow> pbuf_alloc mem_malloc PBUF_IP UDP_HLEN PBUF_RAM e;
                    if q = [] then Some (None, e1)
                    else if p_tot_len (hd p) \<noteq> 0
                    then do { qp \<leftarrow> pbuf_chain q p; Some (Some (qp, True), e1) }
                    else Some (Some (q, True), e1) })"

text \<open>The header is filled in, the checksum computed over the whole chain, and the chain given to IP.\<close>

definition udp_output ::
  "(pbuf \<Rightarrow> bool) \<Rightarrow> ip_out \<Rightarrow> 'cb udp_pcb \<Rightarrow> pchain \<Rightarrow> u32 \<Rightarrow> u16 \<Rightarrow> u32 \<Rightarrow> lwip_err \<times> pchain" where
  "udp_output is_odd out pcb q dst_ip dst_port src_ip =
     (let fill = (\<lambda>c. put_udp_hdr (local_port pcb) dst_port (p_tot_len (hd q)) c (hd q) # tl q);
          udpchksum = ip_chksum_pseudo is_odd (fill 0) IP_PROTO_UDP (p_tot_len (hd q)) src_ip dst_ip;
          q1 = (if pcb_flags pcb AND UDP_FLAGS_NOCHKSUM = 0
                then fill (if udpchksum = 0 then 0xFFFF else udpchksum) else fill 0)
      in out q1 src_ip dst_ip (ttl pcb) (tos pcb) IP_PROTO_UDP)"

definition udp_sendto_if_src ::
  "(u16 \<Rightarrow> u8 list option) \<Rightarrow> (pbuf \<Rightarrow> bool) \<Rightarrow> ip_out \<Rightarrow> nat \<Rightarrow> pchain \<Rightarrow> u32 \<Rightarrow> u16 \<Rightarrow> u32
   \<Rightarrow> 'cb udp_state \<Rightarrow> pbuf_env \<Rightarrow> (lwip_err \<times> pchain \<times> 'cb udp_state \<times> pbuf_env) option" where
  "udp_sendto_if_src mem_malloc is_odd out pcb p dst_ip dst_port src_ip s e =
     (let (err, s1) = (if local_port (pcb_at s pcb) = 0
                       then udp_bind pcb (local_ip (pcb_at s pcb)) (local_port (pcb_at s pcb)) s
                       else (ERR_OK, s))
      in if err \<noteq> ERR_OK then Some (err, p, s1, e)
         else if p_tot_len (hd p) + UDP_HLEN < p_tot_len (hd p) then Some (ERR_MEM, p, s1, e)
         else do { (qh, e1) \<leftarrow> udp_prepend mem_malloc p e;
                   case qh of None \<Rightarrow> Some (ERR_MEM, p, s1, e1)
                   | Some (q, separate) \<Rightarrow>
                       if p_len (hd q) < UDP_HLEN then None
                       else let (err, q2) = udp_output is_odd out (pcb_at s1 pcb) q dst_ip dst_port src_ip
                            in if separate
                               then do { (n, rest, e2) \<leftarrow> pbuf_free q2 e1; Some (err, p, s1, e2) }
                               else Some (err, q2, s1, e1) })"

definition udp_sendto_if ::
  "(u16 \<Rightarrow> u8 list option) \<Rightarrow> (pbuf \<Rightarrow> bool) \<Rightarrow> ip_out \<Rightarrow> nat \<Rightarrow> pchain \<Rightarrow> u32 \<Rightarrow> u16 \<Rightarrow> 'a netif_scheme
   \<Rightarrow> 'cb udp_state \<Rightarrow> pbuf_env \<Rightarrow> (lwip_err \<times> pchain \<times> 'cb udp_state \<times> pbuf_env) option" where
  "udp_sendto_if mem_malloc is_odd out pcb p dst_ip dst_port nif s e =
     (let lip = local_ip (pcb_at s pcb) in
      if lip = IPADDR_ANY \<or> ip4_addr_ismulticast lip
      then udp_sendto_if_src mem_malloc is_odd out pcb p dst_ip dst_port (ip_addr nif) s e
      else if lip \<noteq> ip_addr nif then Some (ERR_RTE, p, s, e)
      else udp_sendto_if_src mem_malloc is_odd out pcb p dst_ip dst_port lip s e)"

text \<open>A pcb bound to an interface index resolves it; the single interface is the only candidate.\<close>

definition netif_get_by_index :: "'a netif_scheme option \<Rightarrow> u8 \<Rightarrow> 'a netif_scheme option" where
  "netif_get_by_index netif_default idx =
     (if idx \<noteq> 0 then (case netif_default of None \<Rightarrow> None
                       | Some n \<Rightarrow> if idx = num n + 1 then Some n else None)
      else None)"

definition udp_sendto ::
  "(u16 \<Rightarrow> u8 list option) \<Rightarrow> (pbuf \<Rightarrow> bool) \<Rightarrow> ip_out \<Rightarrow> 'a netif_scheme option \<Rightarrow> nat \<Rightarrow> pchain \<Rightarrow> u32 \<Rightarrow> u16
   \<Rightarrow> 'cb udp_state \<Rightarrow> pbuf_env \<Rightarrow> (lwip_err \<times> pchain \<times> 'cb udp_state \<times> pbuf_env) option" where
  "udp_sendto mem_malloc is_odd out netif_default pcb p dst_ip dst_port s e =
     (let nif = (if netif_idx (pcb_at s pcb) \<noteq> 0 then netif_get_by_index netif_default (netif_idx (pcb_at s pcb))
                 else ip4_route netif_default dst_ip)
      in case nif of None \<Rightarrow> Some (ERR_RTE, p, s, e)
         | Some n \<Rightarrow> udp_sendto_if mem_malloc is_odd out pcb p dst_ip dst_port n s e)"

definition udp_send ::
  "(u16 \<Rightarrow> u8 list option) \<Rightarrow> (pbuf \<Rightarrow> bool) \<Rightarrow> ip_out \<Rightarrow> 'a netif_scheme option \<Rightarrow> nat \<Rightarrow> pchain
   \<Rightarrow> 'cb udp_state \<Rightarrow> pbuf_env \<Rightarrow> (lwip_err \<times> pchain \<times> 'cb udp_state \<times> pbuf_env) option" where
  "udp_send mem_malloc is_odd out netif_default pcb p s e =
     udp_sendto mem_malloc is_odd out netif_default pcb p (remote_ip (pcb_at s pcb)) (remote_port (pcb_at s pcb)) s e"

section \<open>Receiving\<close>

text \<open>What IP input has stored about the packet being processed, \<open>ip_data\<close> of \<open>ip.h\<close>.\<close>

record 'n ip_globals =
  current_src :: u32
  current_dest :: u32
  current_header_tot_len :: u16
  current_netif :: 'n

definition udp_input_local_match :: "'cb udp_pcb \<Rightarrow> 'a netif_scheme ip_globals \<Rightarrow> u8 \<Rightarrow> u8" where
  "udp_input_local_match pcb g broadcast =
     (let inp = current_netif g in
      if netif_idx pcb \<noteq> 0 \<and> netif_idx pcb \<noteq> num inp + 1 then 0
      else if broadcast \<noteq> 0
      then (if local_ip pcb = IPADDR_ANY \<or> current_dest g = IPADDR_BROADCAST
               \<or> ip4_addr_net_eq (local_ip pcb) (current_dest g) (netmask inp) then 1 else 0)
      else if local_ip pcb = IPADDR_ANY \<or> local_ip pcb = current_dest g then 1 else 0)"

text \<open>
  The loop over the active list. \<open>seen\<close> are the pcbs passed so far (\<open>prev\<close> is the last of
  them); a full match is moved to the front. The result: the fully matching pcb, the list,
  the unconnected candidate.
\<close>

fun udp_find ::
  "'cb udp_state \<Rightarrow> 'a netif_scheme ip_globals \<Rightarrow> u8 \<Rightarrow> u16 \<Rightarrow> u16 \<Rightarrow> nat list \<Rightarrow> nat list \<Rightarrow> nat option
   \<Rightarrow> nat option \<times> nat list \<times> nat option" where
  "udp_find s g broadcast src dest seen [] uncon = (None, seen, uncon)"
| "udp_find s g broadcast src dest seen (i # is) uncon =
     (let pcb = pcb_at s i in
      if local_port pcb = dest \<and> udp_input_local_match pcb g broadcast \<noteq> 0
      then (let uncon1 =
                  (if pcb_flags pcb AND UDP_FLAGS_CONNECTED = 0
                   then (case uncon of None \<Rightarrow> Some i
                         | Some u \<Rightarrow> if broadcast \<noteq> 0 \<and> current_dest g = IPADDR_BROADCAST
                                        \<and> local_ip (pcb_at s u) \<noteq> ip_addr (current_netif g)
                                        \<and> local_ip pcb = ip_addr (current_netif g)
                                     then Some i else Some u)
                   else uncon)
            in if remote_port pcb = src \<and> (remote_ip pcb = IPADDR_ANY \<or> remote_ip pcb = current_src g)
               then (Some i, if seen \<noteq> [] then i # seen @ is else i # is, uncon1)
               else udp_find s g broadcast src dest (seen @ [i]) is uncon1)
      else udp_find s g broadcast src dest (seen @ [i]) is uncon)"

datatype 'cb udp_outcome =
    Deliver 'cb nat pchain u32 u16
  | PortUnreachable pchain
  | Discarded

definition get16 :: "pbuf \<Rightarrow> nat \<Rightarrow> u16" where
  "get16 p off = (case pbuf_read p off 2 of [a, b] \<Rightarrow> load16 a b | _ \<Rightarrow> 0)"

definition udp_drop :: "pchain \<Rightarrow> 'cb udp_state \<Rightarrow> pbuf_env \<Rightarrow> ('cb udp_outcome \<times> 'cb udp_state \<times> pbuf_env) option" where
  "udp_drop p s e = do { (n, c, e1) \<leftarrow> pbuf_free p e; Some (Discarded, s, e1) }"

text \<open>A datagram that is for us and verified: the header is removed and the callback called.\<close>

definition udp_accept ::
  "pchain \<Rightarrow> nat option \<Rightarrow> u8 \<Rightarrow> u16 \<Rightarrow> 'a netif_scheme ip_globals \<Rightarrow> 'cb udp_state \<Rightarrow> pbuf_env
   \<Rightarrow> ('cb udp_outcome \<times> 'cb udp_state \<times> pbuf_env) option" where
  "udp_accept p pcb broadcast src g s e =
     (case pbuf_remove_header (hd p) (ucast UDP_HLEN) of
        (r, h) \<Rightarrow>
          if r \<noteq> 0 then None
          else let q = h # tl p in
               (case pcb of
                  Some i \<Rightarrow>
                    (case recv (pcb_at s i) of
                       Some cb \<Rightarrow> Some (Deliver cb i q (current_src g) src, s, e)
                     | None \<Rightarrow> udp_drop q s e)
                | None \<Rightarrow>
                    if broadcast = 0 \<and> \<not> ip4_addr_ismulticast (current_dest g)
                    then (let u = snd (pbuf_header_force h (sint (current_header_tot_len g + UDP_HLEN))) # tl q
                          in do { (n, c, e1) \<leftarrow> pbuf_free u e; Some (PortUnreachable u, s, e1) })
                    else udp_drop q s e))"

definition udp_input ::
  "(pbuf \<Rightarrow> bool) \<Rightarrow> pchain \<Rightarrow> 'a netif_scheme ip_globals \<Rightarrow> 'cb udp_state \<Rightarrow> pbuf_env
   \<Rightarrow> ('cb udp_outcome \<times> 'cb udp_state \<times> pbuf_env) option" where
  "udp_input is_odd p g s e =
     (if p = [] then None
      else if p_len (hd p) < UDP_HLEN then udp_drop p s e
      else let inp = current_netif g;
               broadcast = ip4_addr_isbroadcast_u32 (current_dest g) inp;
               src = lwip_htons (get16 (hd p) 0);
               dest = lwip_htons (get16 (hd p) 2);
               (full, pcbs, uncon) = udp_find s g broadcast src dest [] (udp_pcbs s) None;
               s1 = s\<lparr>udp_pcbs := pcbs\<rparr>;
               pcb = (case full of Some i \<Rightarrow> Some i | None \<Rightarrow> uncon);
               for_us = (pcb \<noteq> None \<or> ip_addr inp = current_dest g)
           in if \<not> for_us then udp_drop p s1 e
              else if get16 (hd p) 6 \<noteq> 0
                   \<and> ip_chksum_pseudo is_odd p IP_PROTO_UDP (p_tot_len (hd p)) (current_src g) (current_dest g) \<noteq> 0
              then udp_drop p s1 e
              else udp_accept p pcb broadcast src g s1 e)"

end
