(* ===== verification/Lwip_Udp_Proofs.thy ===== *)
theory Lwip_Udp_Proofs
  imports Lwip_Udp
begin

text \<open>
  Proofs about \<open>Lwip_Udp\<close>: port selection, the pool and list invariant of control blocks,
  and that a datagram built by \<open>udp_sendto\<close> is handed by \<open>udp_input\<close> to the callback
  bound to its destination port with the payload unchanged.
\<close>

section \<open>Ports\<close>

definition port_of :: "nat \<Rightarrow> u16" where
  "port_of k = of_nat (0xC000 + k mod 0x4000)"

lemma unat_port_of: "unat (port_of k) = 0xC000 + k mod 0x4000"
proof -
  have "k mod 0x4000 < 0x4000" by simp
  then show ?thesis unfolding port_of_def unat_of_nat_u16 by simp
qed

lemma next_port_of: "next_port (port_of k) = port_of (Suc k)"
proof (rule word_unat_eq_iff [THEN iffD2], cases "k mod 0x4000 = 0x3FFF")
  case True
  then have "port_of k = 0xFFFF" by (simp add: port_of_def)
  then show "unat (next_port (port_of k)) = unat (port_of (Suc k))"
    using True by (simp add: unat_port_of next_port_def cdefs mod_Suc)
next
  case False
  then have l: "k mod 0x4000 < 0x3FFF" using mod_less_divisor [of "0x4000" k] by linarith
  then have "port_of k \<noteq> 0xFFFF" unfolding word_unat_eq_iff unat_port_of by simp
  moreover have "unat (port_of k + 1) = 0xC000 + Suc (k mod 0x4000)"
    using l by (simp add: unat_word_ariths unat_port_of)
  ultimately show "unat (next_port (port_of k)) = unat (port_of (Suc k))"
    using False by (simp add: unat_port_of next_port_def cdefs mod_Suc)
qed

lemma port_of_inj: "j \<le> 0x4000 \<Longrightarrow> inj_on (\<lambda>i. port_of (k + i)) {..<j}"
proof (rule inj_onI)
  fix x y assume xy: "j \<le> 0x4000" "x \<in> {..<j}" "y \<in> {..<j}" and "port_of (k + x) = port_of (k + y)"
  then have "(k + x) mod 0x4000 = (k + y) mod 0x4000" by (metis unat_port_of add_left_cancel)
  then have "x mod 0x4000 = y mod 0x4000" unfolding nat_mod_eq_iff by (auto simp: add.assoc)
  then show "x = y" using xy by simp
qed

lemma new_port_loop_fresh:
  assumes "length ports < 0x4000" and "unat n = j" and "\<forall>i<j. port_of (k + Suc i) \<in> set ports" and "j < 0x4000"
  shows "\<exists>p. udp_new_port_loop ports n (port_of (k + j)) = (p, p) \<and> p \<notin> set ports \<and> 0xC000 \<le> p"
  using assms
proof (induction "length ports - j" arbitrary: n j rule: less_induct)
  case less
  let ?q = "port_of (Suc (k + j))"
  have ge: "0xC000 \<le> ?q" by (simp add: word_le_nat_alt unat_port_of)
  show ?case
  proof (cases "?q \<in> set ports")
    case False
    then show ?thesis using ge by (subst udp_new_port_loop.simps) (simp add: next_port_of Let_def)
  next
    case True
    have all: "\<forall>i<Suc j. port_of (k + Suc i) \<in> set ports" using less.prems(3) True by (auto simp: less_Suc_eq)
    then have "(\<lambda>i. port_of (Suc k + i)) ` {..<Suc j} \<subseteq> set ports" by auto
    then have "card ((\<lambda>i. port_of (Suc k + i)) ` {..<Suc j}) \<le> card (set ports)" by (intro card_mono) simp_all
    moreover have "card ((\<lambda>i. port_of (Suc k + i)) ` {..<Suc j}) = Suc j"
      using port_of_inj [of "Suc j" "Suc k"] less.prems(4) by (simp add: card_image)
    ultimately have j: "Suc j \<le> length ports" using card_length [of ports] by linarith
    have n1: "unat (n + 1) = Suc j" using less.prems(1,2) j by (simp add: unat_word_ariths)
    then have guard: "\<not> n + 1 > UDP_LOCAL_PORT_RANGE_END - UDP_LOCAL_PORT_RANGE_START"
      using j less.prems(1) by (simp add: word_less_nat_alt cdefs)
    have "\<exists>p. udp_new_port_loop ports (n + 1) (port_of (k + Suc j)) = (p, p) \<and> p \<notin> set ports \<and> 0xC000 \<le> p"
      by (rule less.hyps) (use j n1 all less.prems in auto)
    then show ?thesis using True guard by (subst udp_new_port_loop.simps) (simp add: next_port_of Let_def)
  qed
qed

lemma port_of_surj: "0xC000 \<le> p \<Longrightarrow> \<exists>k. p = port_of k"
proof
  assume "0xC000 \<le> p"
  then have "0xC000 \<le> unat p" by (simp add: word_le_nat_alt)
  then have "unat p - 0xC000 < 0x4000" using unat_u16_less [of p] by linarith
  then have "(unat p - 0xC000) mod 0x4000 = unat p - 0xC000" by simp
  then show "p = port_of (unat p - 0xC000)"
    using \<open>0xC000 \<le> unat p\<close> by (simp add: word_unat_eq_iff unat_port_of)
qed

lemma udp_new_port_fresh:
  assumes "length (udp_pcbs s) < 0x4000" and "0xC000 \<le> udp_port s"
  shows "\<exists>p. udp_new_port s = (p, s\<lparr>udp_port := p\<rparr>) \<and> 0xC000 \<le> p
     \<and> (\<forall>i\<in>set (udp_pcbs s). local_port (pcb_at s i) \<noteq> p)"
proof -
  obtain k where "udp_port s = port_of k" using port_of_surj assms(2) by blast
  then show ?thesis
    using new_port_loop_fresh [of "map (\<lambda>i. local_port (pcb_at s i)) (udp_pcbs s)" 0 0 k] assms(1)
    by (auto simp: udp_new_port_def)
qed

section \<open>The pool and the active list\<close>

text \<open>
  No slot is both free and in use and the active list has no duplicates.
\<close>

definition udp_wf :: "'cb udp_state \<Rightarrow> bool" where
  "udp_wf s \<longleftrightarrow> distinct (udp_pcbs s @ udp_free s)"

lemma upd_pcb_sel [simp]:
  "udp_pcbs (upd_pcb i f s) = udp_pcbs s" "udp_free (upd_pcb i f s) = udp_free s"
  "udp_port (upd_pcb i f s) = udp_port s" "pcb_at (upd_pcb i f s) j = (if i = j then f (pcb_at s i) else pcb_at s j)"
  by (auto simp: upd_pcb_def)

lemma udp_new_port_sel:
  "udp_new_port s = (p, s') \<Longrightarrow> udp_pcbs s' = udp_pcbs s \<and> udp_free s' = udp_free s \<and> pcb_at s' = pcb_at s"
  by (auto simp: udp_new_port_def split: prod.splits)

lemma udp_bind_lists:
  assumes "udp_bind pcb ip port s = (err, s')"
  shows "udp_free s' = udp_free s \<and> udp_pcbs s' = (if err = ERR_OK \<and> pcb \<notin> set (udp_pcbs s) then pcb # udp_pcbs s else udp_pcbs s)"
  using assms udp_new_port_sel [of s]
  by (fastforce simp: udp_bind_def Let_def split: prod.splits if_splits)

lemma udp_bind_wf: "udp_bind pcb ip port s = (err, s') \<Longrightarrow> udp_wf s \<Longrightarrow> pcb \<notin> set (udp_free s) \<Longrightarrow> udp_wf s'"
  by (drule udp_bind_lists) (auto simp: udp_wf_def)

lemma udp_connect_wf:
  assumes "udp_connect pcb ip port s = (err, s')" and "udp_wf s" and "pcb \<notin> set (udp_free s)"
  shows "udp_wf s'"
proof -
  obtain e s1 where b: "(if local_port (pcb_at s pcb) = 0
      then udp_bind pcb (local_ip (pcb_at s pcb)) (local_port (pcb_at s pcb)) s else (ERR_OK, s)) = (e, s1)"
    by fastforce
  then have "udp_wf s1 \<and> pcb \<notin> set (udp_free s1)"
    using assms(2,3) udp_bind_wf udp_bind_lists by (metis prod.inject)
  then show ?thesis using assms(1) unfolding udp_connect_def b
    by (auto simp: udp_wf_def Let_def split: if_splits)
qed

lemma udp_new_wf:
  assumes "udp_new s = (r, s')" and "udp_wf s"
  shows "udp_wf s' \<and> (\<forall>i. r = Some i \<longrightarrow> i \<notin> set (udp_pcbs s') \<and> i \<notin> set (udp_free s') \<and> udp_free s = i # udp_free s')"
  using assms by (auto simp: udp_new_def udp_wf_def split: list.splits)

lemma udp_remove_wf: "udp_wf s \<Longrightarrow> pcb \<notin> set (udp_free s) \<Longrightarrow> udp_wf (udp_remove pcb s)"
  by (auto simp: udp_wf_def udp_remove_def dest: notin_set_remove1 in_set_remove1)

lemma udp_find_perm:
  "udp_find s g bc src dest seen is uncon = (full, pcbs, un) \<Longrightarrow> mset pcbs = mset (seen @ is)"
  by (induction s g bc src dest seen "is" uncon rule: udp_find.induct)
    (auto simp: Let_def split: if_splits)

lemma udp_drop_state: "udp_drop p s e = Some (r, s', e') \<Longrightarrow> s' = s \<and> r = Discarded"
  by (auto simp: udp_drop_def bind_eq_Some_conv' split: prod.splits)

lemma udp_input_perm:
  assumes "udp_input is_odd p g s e = Some (r, s', e')"
  shows "mset (udp_pcbs s') = mset (udp_pcbs s) \<and> udp_free s' = udp_free s \<and> pcb_at s' = pcb_at s"
  using assms udp_find_perm [of s g] unfolding udp_input_def udp_accept_def
  by (fastforce simp: Let_def bind_eq_Some_conv' split: if_splits prod.splits option.splits dest: udp_drop_state)

section \<open>The header on the wire\<close>

definition udp_hdr :: "u16 \<Rightarrow> u16 \<Rightarrow> u16 \<Rightarrow> u16 \<Rightarrow> u8 list" where
  "udp_hdr src dest l chksum =
     store16 (lwip_htons src) @ store16 (lwip_htons dest) @ store16 (lwip_htons l) @ store16 chksum"

lemma length_udp_hdr [simp]: "length (udp_hdr src dest l c) = 8" "length (store16 w) = 2"
  by (simp_all add: udp_hdr_def store16_def)

lemma load16_store16: "load16 (ucast w) (ucast (drop_bit 8 w)) = w"
  unfolding load16_def by (rule bit_word_eqI) (auto simp: bit_simps)

text \<open>Reading a field of the first pbuf reads that field of the packet.\<close>

lemma get16_field:
  assumes "chain_ok (h # t)" and "off + 2 \<le> unat (p_len h)"
    and "take 2 (drop off (chain_bytes (h # t))) = store16 w"
  shows "get16 h off = w"
proof -
  have "take 2 (drop off (chain_bytes (h # t))) = take 2 (drop off (pbuf_data h))"
    using assms(1,2) by simp
  then have "pbuf_read h off 2 = store16 w"
    using assms pbuf_read_data [of h off 2] by (simp add: assms(3))
  then show ?thesis by (simp add: get16_def store16_def load16_store16)
qed

lemma add_header_data:
  assumes "pbuf_ok h" and "pbuf_add_header h n = (0, h')" and "unat (p_tot_len h) + unat n < 65536"
    and "unat (p_len h) \<le> unat (p_tot_len h)" and "p_type h AND PBUF_TYPE_FLAG_STRUCT_DATA_CONTIGUOUS \<noteq> 0"
  shows "pbuf_ok h' \<and> drop (unat n) (pbuf_data h') = pbuf_data h
     \<and> unat (p_len h') = unat (p_len h) + unat n \<and> unat (p_tot_len h') = unat (p_tot_len h) + unat n"
proof (cases "n = 0")
  case True
  then show ?thesis using assms by (auto simp: pbuf_add_header_def pbuf_add_header_impl_def)
next
  case False
  have n: "n \<le> 0xFFFF" "unat n < 65536" using assms(3) by (simp_all add: word_le_nat_alt)
  then have m: "unat (ucast n :: u16) = unat n" by (simp add: unat_ucast_16)
  have h': "h' = h\<lparr>p_payload := p_payload h - uint n, p_len := p_len h + ucast n, p_tot_len := p_tot_len h + ucast n\<rparr>"
    and pos: "0 \<le> p_payload h - uint n"
    using assms(2,5) False n(1)
    by (auto simp: pbuf_add_header_def pbuf_add_header_impl_def Let_def not_less split: if_splits)
  have len: "unat (p_len h') = unat (p_len h) + unat n" "unat (p_tot_len h') = unat (p_tot_len h) + unat n"
    using assms(3,4) m by (simp_all add: h' unat_word_ariths)
  have "nat (p_payload h - uint n) = nat (p_payload h) - unat n" "unat n \<le> nat (p_payload h)"
    using pos nat_mono [of "uint n" "p_payload h"] by (simp_all add: nat_diff_distrib)
  then have ok: "pbuf_ok h'" using assms(1) pos len(1) by (simp add: pbuf_ok_def h')
  have "pbuf_remove_header h' n = (0, h)"
    using assms(2,3,4) unfolding pbuf_add_header_def by (intro add_remove_header) (assumption, linarith)
  then have "pbuf_data h = drop (unat n) (pbuf_data h')"
    using remove_header_spec [OF ok, of n] len by auto
  then show ?thesis using ok len by simp
qed

lemma put_udp_hdr_data:
  assumes "pbuf_ok h'" and "8 \<le> unat (p_len h')"
  shows "pbuf_ok (put_udp_hdr a b l c h') \<and> pbuf_data (put_udp_hdr a b l c h') = udp_hdr a b l c @ drop 8 (pbuf_data h')"
  using pbuf_write_data [OF assms(1), of 0 "udp_hdr a b l c"] pbuf_write_ok [OF assms(1), of 0 "udp_hdr a b l c"] assms(2)
  by (simp add: put_udp_hdr_def udp_hdr_def [symmetric])

text \<open>The filled chain: invariant, bytes and length.\<close>

lemma filled_chain:
  assumes "chain_ok (h # t)" and "pbuf_add_header h 8 = (0, h')" and "unat (p_tot_len h) + 8 < 65536"
    and "p_type h AND PBUF_TYPE_FLAG_STRUCT_DATA_CONTIGUOUS \<noteq> 0"
  shows "chain_ok (put_udp_hdr a b l c h' # t)
     \<and> chain_bytes (put_udp_hdr a b l c h' # t) = udp_hdr a b l c @ chain_bytes (h # t)
     \<and> 8 \<le> unat (p_len h')"
proof -
  have H: "pbuf_ok h'" "drop 8 (pbuf_data h') = pbuf_data h" "unat (p_len h') = unat (p_len h) + 8"
    "unat (p_tot_len h') = unat (p_tot_len h) + 8"
    using add_header_data [of h 8 h'] assms by (auto split: list.splits)
  then show ?thesis using put_udp_hdr_data [of h' a b l c] assms(1)
    by (auto simp: put_udp_hdr_def split: list.splits)
qed

section \<open>Demultiplexing\<close>

definition listens :: "'cb udp_state \<Rightarrow> nat \<Rightarrow> u16 \<Rightarrow> 'cb \<Rightarrow> bool" where
  "listens s i port cb \<longleftrightarrow> i \<in> set (udp_pcbs s) \<and> distinct (udp_pcbs s)
     \<and> (\<forall>j\<in>set (udp_pcbs s). local_port (pcb_at s j) = port \<longrightarrow> j = i)
     \<and> local_port (pcb_at s i) = port \<and> local_ip (pcb_at s i) = IPADDR_ANY \<and> netif_idx (pcb_at s i) = 0
     \<and> pcb_flags (pcb_at s i) AND UDP_FLAGS_CONNECTED = 0 \<and> recv (pcb_at s i) = Some cb"

lemma local_match_any: "local_ip p = IPADDR_ANY \<Longrightarrow> netif_idx p = 0 \<Longrightarrow> udp_input_local_match p g bc = 1"
  by (simp add: udp_input_local_match_def Let_def)

lemma udp_find_absent:
  "\<forall>j\<in>set is. local_port (pcb_at s j) \<noteq> dest \<Longrightarrow> udp_find s g bc src dest seen is uncon = (None, seen @ is, uncon)"
  by (induction s g bc src dest seen "is" uncon rule: udp_find.induct) (auto simp: Let_def)

lemma udp_find_listener:
  assumes "i \<in> set is" and "distinct is" and "\<forall>j\<in>set is. local_port (pcb_at s j) = dest \<longrightarrow> j = i"
    and "local_port (pcb_at s i) = dest" and "local_ip (pcb_at s i) = IPADDR_ANY" and "netif_idx (pcb_at s i) = 0"
    and "pcb_flags (pcb_at s i) AND UDP_FLAGS_CONNECTED = 0"
  shows "\<exists>full pcbs uncon. udp_find s g bc src dest seen is None = (full, pcbs, uncon)
     \<and> (case full of Some j \<Rightarrow> Some j | None \<Rightarrow> uncon) = Some i"
  using assms
proof (induction "is" arbitrary: seen)
  case (Cons j js)
  show ?case
  proof (cases "j = i")
    case True
    then have "\<forall>k\<in>set js. local_port (pcb_at s k) \<noteq> dest" using Cons.prems(2,3) by (metis True distinct.simps(2) list.set_intros(2))
    then have stop: "udp_find s g bc src dest (seen @ [i]) js (Some i) = (None, (seen @ [i]) @ js, Some i)"
      by (rule udp_find_absent)
    show ?thesis by (simp add: True Let_def local_match_any Cons.prems(4-7) stop)
  next
    case False
    then have "local_port (pcb_at s j) \<noteq> dest" using Cons.prems(3) by (metis list.set_intros(1))
    moreover have "\<exists>full pcbs uncon. udp_find s g bc src dest (seen @ [j]) js None = (full, pcbs, uncon)
        \<and> (case full of Some j \<Rightarrow> Some j | None \<Rightarrow> uncon) = Some i"
    proof (rule Cons.IH)
      show "i \<in> set js" "distinct js" using Cons.prems(1,2) False by auto
      show "\<forall>k\<in>set js. local_port (pcb_at s k) = dest \<longrightarrow> k = i" using Cons.prems(3) by (meson list.set_intros(2))
    qed (fact Cons.prems)+
    ultimately show ?thesis by (simp add: Let_def)
  qed
qed simp

text \<open>Whatever is delivered goes to an active pcb bound to the destination port.\<close>

lemma udp_find_port:
  assumes "udp_find s g bc src dest seen is uncon = (full, pcbs, un)"
    and "\<forall>u. uncon = Some u \<longrightarrow> local_port (pcb_at s u) = dest \<and> u \<in> A" and "set is \<subseteq> A"
  shows "(\<forall>i. full = Some i \<longrightarrow> local_port (pcb_at s i) = dest \<and> i \<in> A)
     \<and> (\<forall>i. un = Some i \<longrightarrow> local_port (pcb_at s i) = dest \<and> i \<in> A)"
  using assms
proof (induction "is" arbitrary: seen uncon)
  case Nil
  then show ?case by simp
next
  case (Cons i js)
  show ?case
  proof (cases "local_port (pcb_at s i) = dest \<and> udp_input_local_match (pcb_at s i) g bc \<noteq> 0")
    case False
    then have "udp_find s g bc src dest (seen @ [i]) js uncon = (full, pcbs, un)"
      using Cons.prems(1) by (simp only: udp_find.simps Let_def if_False)
    then show ?thesis by (rule Cons.IH [OF _ Cons.prems(2)]) (use Cons.prems(3) in simp)
  next
    case True
    obtain un1 where un1: "\<forall>u. un1 = Some u \<longrightarrow> local_port (pcb_at s u) = dest \<and> u \<in> A"
      and f: "(if remote_port (pcb_at s i) = src \<and> (remote_ip (pcb_at s i) = IPADDR_ANY \<or> remote_ip (pcb_at s i) = current_src g)
        then (Some i, if seen \<noteq> [] then i # seen @ js else i # js, un1)
        else udp_find s g bc src dest (seen @ [i]) js un1) = (full, pcbs, un)"
      using Cons.prems True by (auto simp: Let_def split: if_splits option.splits)
    show ?thesis
    proof (cases "remote_port (pcb_at s i) = src \<and> (remote_ip (pcb_at s i) = IPADDR_ANY \<or> remote_ip (pcb_at s i) = current_src g)")
      case match: True
      then show ?thesis using f un1 True Cons.prems(3) by auto
    next
      case no: False
      then have "udp_find s g bc src dest (seen @ [i]) js un1 = (full, pcbs, un)" using f by (simp only: if_False)
      then show ?thesis by (rule Cons.IH [OF _ un1]) (use Cons.prems(3) in simp)
    qed
  qed
qed

lemma udp_deliver_port:
  assumes "udp_input o1 p g s e = Some (Deliver cb i q a port, u, e')"
  shows "local_port (pcb_at s i) = lwip_htons (get16 (hd p) 2) \<and> recv (pcb_at s i) = Some cb \<and> i \<in> set (udp_pcbs s)"
  using assms udp_find_port [where s = s and g = g and uncon = None and A = "set (udp_pcbs s)"] unfolding udp_input_def udp_accept_def
  by (fastforce simp: Let_def bind_eq_Some_conv' split: if_splits prod.splits option.splits dest: udp_drop_state)

lemma udp_input_delivers:
  assumes ok: "chain_ok (h # t)" and len: "8 \<le> unat (p_len h)"
    and bytes: "chain_bytes (h # t) = udp_hdr src dest l chk @ payload"
    and chk: "chk = 0 \<or> ip_chksum_pseudo is_odd (h # t) IP_PROTO_UDP (p_tot_len h) (current_src g) (current_dest g) = 0"
    and lis: "listens s i dest cb"
  shows "\<exists>q s'. udp_input is_odd (h # t) g s e = Some (Deliver cb i q (current_src g) src, s', e)
     \<and> chain_ok q \<and> chain_bytes q = payload"
proof -
  have f: "get16 h 0 = lwip_htons src" "get16 h 2 = lwip_htons dest" "get16 h 6 = chk"
    by (rule get16_field [OF ok]; use len in \<open>simp add: bytes udp_hdr_def store16_def del: chain_bytes_simps\<close>)+
  let ?bc = "ip4_addr_isbroadcast_u32 (current_dest g) (current_netif g)"
  obtain full pcbs un where u: "udp_find s g ?bc src dest [] (udp_pcbs s) None = (full, pcbs, un)"
    "(case full of Some j \<Rightarrow> Some j | None \<Rightarrow> un) = Some i"
    using udp_find_listener [of i "udp_pcbs s" s dest g ?bc src "[]"] lis unfolding listens_def by auto
  have hok: "pbuf_ok h" and tot: "unat (p_len h) \<le> unat (p_tot_len h)" using ok by simp_all
  obtain h' where h': "pbuf_remove_header h 8 = (0, h')" "pbuf_ok h'" "pbuf_data h' = drop 8 (pbuf_data h)"
    "unat (p_len h') = unat (p_len h) - 8" "p_tot_len h' = p_tot_len h - 8"
    using remove_header_spec [OF hok, of 8] len by auto
  have tot': "unat (p_tot_len h') = unat (p_tot_len h) - 8"
    unfolding h'(5) by (subst unat_sub) (use len tot in \<open>simp_all add: word_le_nat_alt\<close>)
  have "chain_bytes (h' # t) = drop 8 (chain_bytes (h # t))"
    using h'(3) len ok by simp
  then have "chain_bytes (h' # t) = payload" unfolding bytes by simp
  moreover have "chain_ok (h' # t)" using ok h'(2,4) tot' len by simp
  moreover have "\<exists>s'. udp_input is_odd (h # t) g s e = Some (Deliver cb i (h' # t) (current_src g) src, s', e)"
    using len chk lis h'(1) u(2)
    by (simp add: udp_input_def udp_accept_def f htons_involution u(1) Let_def UDP_HLEN_def word_less_nat_alt listens_def) blast
  ultimately show ?thesis by blast
qed

section \<open>Properties\<close>

text \<open>
  \<open>udp_new_port\<close> always finds a port: with fewer active pcbs than ports in the dynamic
  range it returns a port from 49152 on that no active pcb is bound to, and remembers it.
\<close>

theorem udp_new_port_correct:
  assumes "length (udp_pcbs s) < 0x4000" and "0xC000 \<le> udp_port s"
  shows "\<exists>p. udp_new_port s = (p, s\<lparr>udp_port := p\<rparr>) \<and> 0xC000 \<le> p
     \<and> (\<forall>i\<in>set (udp_pcbs s). local_port (pcb_at s i) \<noteq> p)"
  using assms by (rule udp_new_port_fresh)

definition sample_udp :: "nat udp_state" where
  "sample_udp = \<lparr>pcb_at = (\<lambda>i. new_udp_pcb\<lparr>local_port := 0xC000, recv := Some 7\<rparr>), udp_pcbs = [0],
     udp_free = [1, 2, 3], udp_port = 0xFFFF\<rparr>"

theorem udp_new_port_correct_witness: "fst (udp_new_port sample_udp) = 0xC001
    \<and> (\<exists>p. udp_new_port sample_udp = (p, sample_udp\<lparr>udp_port := p\<rparr>) \<and> 0xC000 \<le> p)"
proof
  show "fst (udp_new_port sample_udp) = 0xC001"
    by (simp add: udp_new_port_def sample_udp_def udp_new_port_loop.simps next_port_def cdefs Let_def new_udp_pcb_def)
  show "\<exists>p. udp_new_port sample_udp = (p, sample_udp\<lparr>udp_port := p\<rparr>) \<and> 0xC000 \<le> p"
    using udp_new_port_correct [of sample_udp] by (auto simp: sample_udp_def)
qed

text \<open>
  C27. The pcb pool and the active list: the operations keep the list duplicate free and apart
  from the free slots, \<open>udp_new\<close> hands out a slot that was free, and input only reorders the list.
\<close>

theorem udp_pool_invariant:
  assumes "udp_wf s"
  shows "(udp_new s = (r, s') \<longrightarrow> udp_wf s' \<and> (\<forall>i. r = Some i \<longrightarrow> i \<notin> set (udp_pcbs s') \<union> set (udp_free s')))
    \<and> (pcb \<notin> set (udp_free s) \<longrightarrow>
         udp_wf (snd (udp_bind pcb ip port s)) \<and> udp_wf (snd (udp_connect pcb ip port s))
         \<and> udp_wf (udp_recv pcb cb s) \<and> udp_wf (udp_disconnect pcb s) \<and> udp_wf (udp_remove pcb s))
    \<and> (udp_input is_odd p g s e = Some (out, s2, e2) \<longrightarrow> udp_wf s2 \<and> set (udp_pcbs s2) = set (udp_pcbs s))"
proof (intro conjI impI)
  assume "udp_new s = (r, s')"
  then show "udp_wf s'" "\<forall>i. r = Some i \<longrightarrow> i \<notin> set (udp_pcbs s') \<union> set (udp_free s')"
    using udp_new_wf assms by auto
next
  assume n: "pcb \<notin> set (udp_free s)"
  show "udp_wf (snd (udp_bind pcb ip port s))" "udp_wf (snd (udp_connect pcb ip port s))" "udp_wf (udp_remove pcb s)"
    using udp_bind_wf udp_connect_wf udp_remove_wf assms n by (metis prod.collapse)+
  show "udp_wf (udp_recv pcb cb s)" "udp_wf (udp_disconnect pcb s)"
    using assms by (simp_all add: udp_wf_def udp_recv_def udp_disconnect_def)
next
  assume "udp_input is_odd p g s e = Some (out, s2, e2)"
  then have m: "mset (udp_pcbs s2) = mset (udp_pcbs s)" "udp_free s2 = udp_free s" using udp_input_perm by blast+
  then show "set (udp_pcbs s2) = set (udp_pcbs s)" by (metis set_mset_mset)
  then show "udp_wf s2" using assms m mset_eq_imp_distinct_iff by (auto simp: udp_wf_def)
qed

theorem udp_pool_invariant_witness:
  "udp_wf (udp_remove 0 sample_udp) \<and> udp_wf (snd (udp_bind 0 0 0 sample_udp))"
  using udp_pool_invariant [of sample_udp None sample_udp 0 0 0 None "\<lambda>_. False" "[]" undefined undefined Discarded sample_udp undefined]
  by (simp add: sample_udp_def udp_wf_def)

text \<open>
  C19. End to end: for a bound pcb and a packet with headroom, \<open>udp_sendto_if_src\<close> gives IP
  exactly one chain, and a host that receives those bytes, cut into pbufs in any way with at
  least the header in the first one, and listens on the destination port runs its callback
  with exactly the payload that was sent and the sender's address and port.
\<close>

theorem udp_end_to_end:
  assumes "chain_ok (h # t)" and "unat (p_tot_len h) + 8 < 65536" and "pbuf_add_header h 8 = (0, h')"
    and "p_type h AND PBUF_TYPE_FLAG_STRUCT_DATA_CONTIGUOUS \<noteq> 0"
    and "local_port (pcb_at s pcb) \<noteq> 0"
  shows "\<exists>q. udp_sendto_if_src mm odd1 out pcb (h # t) dst_ip dst_port src_ip s e =
       (let (err, q2) = out q src_ip dst_ip (ttl (pcb_at s pcb)) (tos (pcb_at s pcb)) 17 in Some (err, q2, s, e))
     \<and> (\<forall>d r g i cb e2 odd2. chain_ok (d # r) \<longrightarrow> chain_bytes (d # r) = chain_bytes q \<longrightarrow> 8 \<le> unat (p_len d)
          \<longrightarrow> current_src g = src_ip \<longrightarrow> current_dest g = dst_ip \<longrightarrow> listens s2 i dst_port cb
          \<longrightarrow> (\<exists>c s3. udp_input odd2 (d # r) g s2 e2 = Some (Deliver cb i c src_ip (local_port (pcb_at s pcb)), s3, e2)
                      \<and> chain_ok c \<and> chain_bytes c = chain_bytes (h # t)))"
proof -
  let ?lp = "local_port (pcb_at s pcb)" and ?n = "p_tot_len h'"
  let ?fill = "\<lambda>c. put_udp_hdr ?lp dst_port ?n c h' # t"
  have F: "chain_ok (?fill c)" "chain_bytes (?fill c) = udp_hdr ?lp dst_port ?n c @ chain_bytes (h # t)"
    "8 \<le> unat (p_len h')" for c
    using filled_chain [OF assms(1,3,2,4)] by auto
  define k where "k = ip_chksum_pseudo odd1 (?fill 0) IP_PROTO_UDP ?n src_ip dst_ip"
  define chk where "chk = (if pcb_flags (pcb_at s pcb) AND UDP_FLAGS_NOCHKSUM = 0 then (if k = 0 then 0xFFFF else k) else 0)"
  have lt: "\<not> p_tot_len h + UDP_HLEN < p_tot_len h"
    using assms(2) by (simp add: word_less_nat_alt unat_word_ariths cdefs)
  have "\<not> p_len h' < UDP_HLEN" using F(3) by (simp add: word_less_nat_alt cdefs)
  then have send: "udp_sendto_if_src mm odd1 out pcb (h # t) dst_ip dst_port src_ip s e =
       (let (err, q2) = out (?fill chk) src_ip dst_ip (ttl (pcb_at s pcb)) (tos (pcb_at s pcb)) 17 in Some (err, q2, s, e))"
    using assms(3,5) lt
    by (simp add: udp_sendto_if_src_def udp_output_def udp_prepend_def UDP_HLEN_def Let_def k_def chk_def IP_PROTO_UDP_def)
  have recv: "\<exists>c s3. udp_input odd2 (d # r) g s2 e2 = Some (Deliver cb i c src_ip ?lp, s3, e2)
       \<and> chain_ok c \<and> chain_bytes c = chain_bytes (h # t)"
    if d: "chain_ok (d # r)" "chain_bytes (d # r) = chain_bytes (?fill chk)" "8 \<le> unat (p_len d)"
      and g: "current_src g = src_ip" "current_dest g = dst_ip" and l: "listens s2 i dst_port cb"
    for d r g i cb e2 odd2
  proof -
    have "unat (p_tot_len d) = unat ?n"
      using chain_tot_bytes [OF d(1)] chain_tot_bytes [OF F(1) [of chk]] d(2)
      by (simp add: put_udp_hdr_def del: chain_bytes_simps)
    then have tot: "p_tot_len d = ?n" by (rule word_unat_eq_iff [THEN iffD2])
    let ?pre = "store16 (lwip_htons ?lp) @ store16 (lwip_htons dst_port) @ store16 (lwip_htons ?n)"
    have "chk = 0 \<or> ip_chksum_pseudo odd2 (d # r) IP_PROTO_UDP ?n src_ip dst_ip = 0"
    proof (cases "pcb_flags (pcb_at s pcb) AND UDP_FLAGS_NOCHKSUM = 0")
      case True
      have "ip_chksum_pseudo odd2 (d # r) IP_PROTO_UDP ?n src_ip dst_ip = 0"
        by (rule stored_chksum_verifies [OF F(1) [of 0] d(1), where pre = ?pre and post = "chain_bytes (h # t)", OF _ _ _ k_def])
          (use True d(2) F(2) in \<open>simp_all add: udp_hdr_def chk_def\<close>)
      then show ?thesis ..
    qed (simp add: chk_def)
    then show ?thesis
      using udp_input_delivers [OF d(1,3) d(2) [unfolded F(2)], of odd2 g s2 i cb e2] g l tot by auto
  qed
  from send recv show ?thesis by blast
qed

theorem udp_end_to_end_witness:
  "\<exists>q. (\<forall>d r g i cb e2 odd2. chain_ok (d # r) \<longrightarrow> chain_bytes (d # r) = chain_bytes q \<longrightarrow> 8 \<le> unat (p_len d)
          \<longrightarrow> current_src g = 5 \<longrightarrow> current_dest g = 6 \<longrightarrow> listens sample_udp i 0xC000 cb
          \<longrightarrow> (\<exists>c s3. udp_input odd2 (d # r) g sample_udp e2 = Some (Deliver cb i c 5 0xC000, s3, e2)
                      \<and> chain_bytes c = [42]))
     \<and> listens sample_udp 0 0xC000 7"
proof -
  define h where "h = pbuf_init_alloced_pbuf (replicate 8 0 @ [42]) 8 1 1 PBUF_RAM 0"
  have ok: "chain_ok [h]" and bytes: "chain_bytes [h] = [42]"
    by (simp_all add: h_def pbuf_init_alloced_pbuf_def pbuf_ok_def pbuf_data_def pbuf_read_def)
  have h: "unat (p_tot_len h) + 8 < 65536" "p_type h AND PBUF_TYPE_FLAG_STRUCT_DATA_CONTIGUOUS \<noteq> 0"
    by (simp_all add: h_def pbuf_init_alloced_pbuf_def cdefs)
  obtain h' where h': "pbuf_add_header h 8 = (0, h')"
    by (simp add: h_def pbuf_init_alloced_pbuf_def pbuf_add_header_def pbuf_add_header_impl_def cdefs)
  have lp: "local_port (pcb_at sample_udp 0) = 0xC000" by (simp add: sample_udp_def)
  have "listens sample_udp 0 0xC000 7"
    by (simp add: listens_def sample_udp_def new_udp_pcb_def IPADDR_ANY_def)
  then show ?thesis
    using udp_end_to_end [OF ok h(1) h' h(2), of sample_udp 0 "\<lambda>_. None" "\<lambda>_. False" "\<lambda>q _ _ _ _ _. (ERR_OK, q)" 6 "0xC000" 5 sample_env sample_udp]
    unfolding lp bytes by fastforce
qed

end
