(* ===== verification/Lan9118.thy ===== *)
theory Lan9118
  imports Uart Lwip_Pbuf_Proofs Lwip_Ip4Addr "HOL-Library.Sublist"
begin

text \<open>
  The LAN9118 Ethernet driver, \<open>network/netif_qemu.c\<close>. A device register is a sequence
  of the values its successive reads return, with the number of reads done so far; writes
  are logged in order with the register offset. \<open>netif->input\<close>, a function pointer, is
  the parameter \<open>inp\<close>: it returns the error code, what it left of the packet for the
  caller to free, and the state. The polling loop ends only when the device reports an
  empty FIFO, so it is a partial function; the busy-waits are bounded by their counters.

  Lemmas: every frame announced by the device takes exactly its words out of the FIFO,
  whether or not a packet buffer was available, and arrives byte for byte in the buffer
  chain; the words written for a frame that is cut at multiples of four bytes carry
  exactly that frame.
\<close>

section \<open>Registers\<close>

record lan = uart +
  reg_in :: "u32 \<Rightarrow> nat \<Rightarrow> u32"
  reg_n :: "u32 \<Rightarrow> nat"
  reg_out :: "(u32 \<times> u32) list"
  penv :: pbuf_env

definition REG :: "u32 \<Rightarrow> 'a lan_scheme \<Rightarrow> u32 \<times> 'a lan_scheme" where
  "REG off s = (reg_in s off (reg_n s off), s\<lparr>reg_n := (reg_n s)(off := Suc (reg_n s off))\<rparr>)"

definition REG_set :: "u32 \<Rightarrow> u32 \<Rightarrow> 'a lan_scheme \<Rightarrow> 'a lan_scheme" where
  "REG_set off v s = s\<lparr>reg_out := reg_out s @ [(off, v)]\<rparr>"

definition RX_DATA_FIFO :: u32 where [cdefs]: "RX_DATA_FIFO = 0x00"
definition TX_DATA_FIFO :: u32 where [cdefs]: "TX_DATA_FIFO = 0x20"
definition RX_STATUS_FIFO :: u32 where [cdefs]: "RX_STATUS_FIFO = 0x40"
definition ID_REV :: u32 where [cdefs]: "ID_REV = 0x50"
definition INT_STS :: u32 where [cdefs]: "INT_STS = 0x58"
definition INT_EN :: u32 where [cdefs]: "INT_EN = 0x5C"
definition BYTE_TEST :: u32 where [cdefs]: "BYTE_TEST = 0x64"
definition RX_CFG :: u32 where [cdefs]: "RX_CFG = 0x6C"
definition TX_CFG :: u32 where [cdefs]: "TX_CFG = 0x70"
definition HW_CFG :: u32 where [cdefs]: "HW_CFG = 0x74"
definition RX_FIFO_INF :: u32 where [cdefs]: "RX_FIFO_INF = 0x7C"
definition MAC_CSR_CMD :: u32 where [cdefs]: "MAC_CSR_CMD = 0xA4"
definition MAC_CSR_DATA :: u32 where [cdefs]: "MAC_CSR_DATA = 0xA8"

definition MAC_CR :: u8 where [cdefs]: "MAC_CR = 1"
definition MAC_ADDRH :: u8 where [cdefs]: "MAC_ADDRH = 2"
definition MAC_ADDRL :: u8 where [cdefs]: "MAC_ADDRL = 3"
definition MAC_CSR_CMD_BUSY :: u32 where [cdefs]: "MAC_CSR_CMD_BUSY = 0x80000000"
definition MAC_CSR_CMD_READ :: u32 where [cdefs]: "MAC_CSR_CMD_READ = 0x40000000"
definition TX_CMD_A_FIRST_SEG :: u32 where [cdefs]: "TX_CMD_A_FIRST_SEG = 0x2000"
definition TX_CMD_A_LAST_SEG :: u32 where [cdefs]: "TX_CMD_A_LAST_SEG = 0x1000"
definition TX_CFG_TX_ON :: u32 where [cdefs]: "TX_CFG_TX_ON = 2"
definition TX_CFG_TXSAO :: u32 where [cdefs]: "TX_CFG_TXSAO = 4"
definition HW_CFG_SRST :: u32 where [cdefs]: "HW_CFG_SRST = 1"
definition HW_CFG_MBO :: u32 where [cdefs]: "HW_CFG_MBO = 0x100000"
definition MAC_CR_RXEN :: u32 where [cdefs]: "MAC_CR_RXEN = 4"
definition MAC_CR_TXEN :: u32 where [cdefs]: "MAC_CR_TXEN = 8"
definition MAC_CR_FDPX :: u32 where [cdefs]: "MAC_CR_FDPX = 0x100000"

definition mac_addr :: "u8 list" where
  "mac_addr = [0x00, 0x02, 0xF7, 0xF0, 0x00, 0x01]"

section \<open>MAC registers\<close>

text \<open>
  \<open>while ((R & m) && --timeout);\<close>: the count left and the state. The count is 0
  exactly when the bit was still set in the last read.
\<close>

fun wait_clear :: "u32 \<Rightarrow> u32 \<Rightarrow> nat \<Rightarrow> 'a lan_scheme \<Rightarrow> nat \<times> 'a lan_scheme" where
  "wait_clear off m 0 s = (0, s)"
| "wait_clear off m (Suc timeout) s =
     (let (v, s1) = REG off s in
      if v AND m \<noteq> 0 then wait_clear off m timeout s1 else (Suc timeout, s1))"

definition mac_wait_busy :: "'a lan_scheme \<Rightarrow> bool \<times> 'a lan_scheme" where
  "mac_wait_busy s =
     (let (timeout, s1) = wait_clear MAC_CSR_CMD MAC_CSR_CMD_BUSY 10000 s in (timeout > 0, s1))"

definition mac_read :: "u8 \<Rightarrow> 'a lan_scheme \<Rightarrow> u32 \<times> 'a lan_scheme" where
  "mac_read reg s =
     (let s1 = snd (mac_wait_busy s);
          s2 = REG_set MAC_CSR_CMD (MAC_CSR_CMD_BUSY OR MAC_CSR_CMD_READ OR ucast reg) s1;
          s3 = snd (mac_wait_busy s2)
      in REG MAC_CSR_DATA s3)"

definition mac_write :: "u8 \<Rightarrow> u32 \<Rightarrow> 'a lan_scheme \<Rightarrow> 'a lan_scheme" where
  "mac_write reg val s =
     (let s1 = snd (mac_wait_busy s);
          s2 = REG_set MAC_CSR_DATA val s1;
          s3 = REG_set MAC_CSR_CMD (MAC_CSR_CMD_BUSY OR ucast reg) s2
      in snd (mac_wait_busy s3))"

section \<open>Initialisation\<close>

text \<open>Draining stale status words; the loop body runs only while the counter is not yet 0.\<close>

fun drain_status :: "nat \<Rightarrow> 'a lan_scheme \<Rightarrow> 'a lan_scheme" where
  "drain_status 0 s = s"
| "drain_status (Suc timeout) s =
     (let (v, s1) = REG RX_FIFO_INF s in
      if v AND 0x00FF0000 \<noteq> 0 \<and> timeout \<noteq> 0 then drain_status timeout (snd (REG RX_STATUS_FIFO s1))
      else s1)"

definition lan9118_hw_init :: "'a lan_scheme \<Rightarrow> 'a lan_scheme option" where
  "lan9118_hw_init s0 =
     do { s1 \<leftarrow> uart_puts (''LAN9118: Initializing...'' @ crlf) s0;
          let (id_rev, s2) = REG ID_REV s1 in
          do { s3 \<leftarrow> uart_print (''LAN9118: ID_REV = 0x%08x'' @ crlf) [AUns id_rev] s2;
               let (byte_test, s4) = REG BYTE_TEST s3 in
               do { s5 \<leftarrow> uart_print (''LAN9118: BYTE_TEST = 0x%08x'' @ crlf) [AUns byte_test] s4;
                    let (hw, s6) = REG HW_CFG s5;
                        s7 = REG_set HW_CFG (hw OR HW_CFG_SRST) s6;
                        (timeout, s8) = wait_clear HW_CFG HW_CFG_SRST 100000 s7
                    in do { s9 \<leftarrow> (if timeout = 0
                                   then uart_puts (''LAN9118: WARNING - soft reset timeout (continuing)'' @ crlf) s8
                                   else uart_puts (''LAN9118: Soft reset complete'' @ crlf) s8);
                            let s10 = REG_set HW_CFG HW_CFG_MBO s9;
                                s11 = REG_set TX_CFG TX_CFG_TXSAO s10;
                                s12 = REG_set RX_CFG 0 s11;
                                s13 = drain_status 100 s12
                            in do { s14 \<leftarrow> uart_puts (''LAN9118: Setting MAC address...'' @ crlf) s13;
                                    let s15 = mac_write MAC_ADDRL
                                                (ucast (mac_addr ! 0) OR push_bit 8 (ucast (mac_addr ! 1))
                                                 OR push_bit 16 (ucast (mac_addr ! 2)) OR push_bit 24 (ucast (mac_addr ! 3))) s14;
                                        s16 = mac_write MAC_ADDRH
                                                (ucast (mac_addr ! 4) OR push_bit 8 (ucast (mac_addr ! 5))) s15;
                                        s17 = mac_write MAC_CR (MAC_CR_TXEN OR MAC_CR_RXEN OR MAC_CR_FDPX) s16;
                                        s18 = REG_set TX_CFG TX_CFG_TX_ON s17;
                                        s19 = REG_set INT_STS 0xFFFFFFFF s18;
                                        s20 = REG_set INT_EN 0 s19
                                    in do { s21 \<leftarrow> uart_print (''LAN9118: MAC = %02x:%02x:%02x:%02x:%02x:%02x'' @ crlf)
                                                     (map (\<lambda>b. AUns (ucast b)) mac_addr) s20;
                                            uart_puts (''LAN9118: Initialization complete'' @ crlf) s21 } } } } } }"

definition lan9118_netif_init :: "'b netif_scheme \<Rightarrow> 'a lan_scheme \<Rightarrow> (lwip_err \<times> 'b netif_scheme \<times> 'a lan_scheme) option" where
  "lan9118_netif_init nif s =
     (let nif1 = nif\<lparr>nif_name := ''en'', hwaddr_len := 6, hwaddr := mac_addr, mtu := 1500,
                     flags := NETIF_FLAG_BROADCAST OR NETIF_FLAG_ETHARP OR NETIF_FLAG_LINK_UP OR NETIF_FLAG_UP\<rparr>
      in do { s1 \<leftarrow> lan9118_hw_init s; Some (ERR_OK, nif1, s1) })"

section \<open>Words and bytes\<close>

text \<open>The target is little endian: what a 32-bit store leaves in memory and a load reads.\<close>

definition bytes_of_word :: "u32 \<Rightarrow> u8 list" where
  "bytes_of_word w = [ucast w, ucast (drop_bit 8 w), ucast (drop_bit 16 w), ucast (drop_bit 24 w)]"

definition word_of_bytes :: "u8 list \<Rightarrow> u32" where
  "word_of_bytes bs =
     ucast (bs ! 0) OR push_bit 8 (ucast (bs ! 1)) OR push_bit 16 (ucast (bs ! 2)) OR push_bit 24 (ucast (bs ! 3))"

section \<open>Transmission\<close>

text \<open>
  \<open>buf[i]\<close> reads whole words, so the last word of a pbuf may read up to three bytes
  behind its data; when that is behind its memory, \<open>after p\<close> is what lies there.
\<close>

definition load32 :: "(pbuf \<Rightarrow> u8 list) \<Rightarrow> pbuf \<Rightarrow> nat \<Rightarrow> u32" where
  "load32 after p i = word_of_bytes (take 4 (drop (nat (p_payload p) + 4 * i) (p_mem p @ after p)))"

fun tx_words :: "(pbuf \<Rightarrow> u8 list) \<Rightarrow> pbuf \<Rightarrow> nat \<Rightarrow> nat \<Rightarrow> 'a lan_scheme \<Rightarrow> 'a lan_scheme" where
  "tx_words after q i 0 s = s"
| "tx_words after q i (Suc n) s = tx_words after q (Suc i) n (REG_set TX_DATA_FIFO (load32 after q i) s)"

fun tx_chain :: "(pbuf \<Rightarrow> u8 list) \<Rightarrow> pchain \<Rightarrow> 'a lan_scheme \<Rightarrow> 'a lan_scheme" where
  "tx_chain after [] s = s"
| "tx_chain after (q # qs) s = tx_chain after qs (tx_words after q 0 ((unat (p_len q) + 3) div 4) s)"

text \<open>A null packet is dereferenced: \<open>None\<close>.\<close>

definition lan9118_linkoutput :: "(pbuf \<Rightarrow> u8 list) \<Rightarrow> pchain \<Rightarrow> 'a lan_scheme \<Rightarrow> (lwip_err \<times> 'a lan_scheme) option" where
  "lan9118_linkoutput after p s =
     (case p of [] \<Rightarrow> None
      | h # _ \<Rightarrow>
         let total_len = (ucast (p_tot_len h) :: u32);
             tx_cmd_a = TX_CMD_A_FIRST_SEG OR TX_CMD_A_LAST_SEG OR (total_len AND 0x7FF);
             tx_cmd_b = total_len AND 0x7FF;
             s1 = REG_set TX_DATA_FIFO tx_cmd_a s;
             s2 = REG_set TX_DATA_FIFO tx_cmd_b s1
         in Some (ERR_OK, tx_chain after p s2))"

section \<open>Reception\<close>

text \<open>\<open>buf[i] = w\<close>; a store outside the memory of the pbuf corrupts something else: \<open>None\<close>.\<close>

definition store32 :: "pbuf \<Rightarrow> nat \<Rightarrow> u32 \<Rightarrow> pbuf option" where
  "store32 q i w =
     (if 0 \<le> p_payload q \<and> nat (p_payload q) + 4 * i + 4 \<le> length (p_mem q)
      then Some (pbuf_write q (4 * i) (bytes_of_word w)) else None)"

function rx_chunk :: "nat \<Rightarrow> nat \<Rightarrow> nat \<Rightarrow> nat \<Rightarrow> pbuf \<Rightarrow> 'a lan_scheme \<Rightarrow> (nat \<times> pbuf \<times> 'a lan_scheme) option" where
  "rx_chunk i chunk_words read_words words q s =
     (if i < chunk_words \<and> read_words < words
      then let (w, s1) = REG RX_DATA_FIFO s in
           do { q1 \<leftarrow> store32 q i w; rx_chunk (Suc i) chunk_words (Suc read_words) words q1 s1 }
      else Some (read_words, q, s))"
  by pat_completeness auto
termination by (relation "measure (\<lambda>(i, chunk_words, _). chunk_words - i)") auto

declare rx_chunk.simps [simp del]

fun rx_fill :: "pchain \<Rightarrow> nat \<Rightarrow> nat \<Rightarrow> 'a lan_scheme \<Rightarrow> (nat \<times> pchain \<times> 'a lan_scheme) option" where
  "rx_fill [] read_words words s = Some (read_words, [], s)"
| "rx_fill (q # qs) read_words words s =
     do { (r1, q1, s1) \<leftarrow> rx_chunk 0 ((unat (p_len q) + 3) div 4) read_words words q s;
          (r2, qs1, s2) \<leftarrow> rx_fill qs r1 words s1;
          Some (r2, q1 # qs1, s2) }"

fun rx_flush :: "nat \<Rightarrow> 'a lan_scheme \<Rightarrow> 'a lan_scheme" where
  "rx_flush 0 s = s"
| "rx_flush (Suc n) s = rx_flush n (snd (REG RX_DATA_FIFO s))"

type_synonym 's netif_input = "pchain \<Rightarrow> 's \<Rightarrow> (lwip_err \<times> pchain \<times> 's) option"

definition rx_frame :: "'a lan_scheme netif_input \<Rightarrow> u32 \<Rightarrow> 'a lan_scheme \<Rightarrow> 'a lan_scheme option" where
  "rx_frame inp raw_len s =
     (let pkt_len = (if raw_len > 4 then raw_len - 4 else raw_len);
          words = unat ((raw_len + 3) div 4)
      in do { (p, e) \<leftarrow> pbuf_alloc (\<lambda>_. None) 0 (ucast pkt_len) PBUF_POOL (penv s);
              let s1 = s\<lparr>penv := e\<rparr> in
              if p \<noteq> []
              then do { (read_words, p1, s2) \<leftarrow> rx_fill p 0 words s1;
                        let s3 = rx_flush (words - read_words) s2 in
                        do { (err, p2, s4) \<leftarrow> inp p1 s3;
                             if err \<noteq> ERR_OK
                             then do { (n, c, e1) \<leftarrow> pbuf_free p2 (penv s4); Some (s4\<lparr>penv := e1\<rparr>) }
                             else Some s4 } }
              else Some (rx_flush words s1) })"

partial_function (option) lan9118_poll :: "'a lan_scheme netif_input \<Rightarrow> 'a lan_scheme \<Rightarrow> 'a lan_scheme option" where
  "lan9118_poll inp s =
     (let (inf, s1) = REG RX_FIFO_INF s in
      if inf AND 0x00FF0000 \<noteq> 0
      then let (rx_status, s2) = REG RX_STATUS_FIFO s1;
               raw_len = drop_bit 16 rx_status AND 0x3FFF
           in if raw_len = 0 then lan9118_poll inp s2
              else do { s3 \<leftarrow> rx_frame inp raw_len s2; lan9118_poll inp s3 }
      else Some s1)"

section \<open>Words and bytes\<close>

lemma length_bytes_of_word [simp]: "length (bytes_of_word w) = 4"
  by (simp add: bytes_of_word_def)

lemma word_of_bytes_inverse: "length bs = 4 \<Longrightarrow> bytes_of_word (word_of_bytes bs) = bs"
proof -
  assume "length bs = 4"
  then obtain a b c d where bs: "bs = [a, b, c, d]" by (auto simp: numeral_eq_Suc length_Suc_conv)
  have "bytes_of_word (word_of_bytes [a, b, c, d]) = [a, b, c, d]"
    unfolding bytes_of_word_def word_of_bytes_def
    by (simp; intro conjI; rule bit_word_eqI; auto simp: bit_simps dest: bit_imp_le_length)
  then show ?thesis using bs by simp
qed

section \<open>What the receive FIFO holds\<close>

definition fifo_bytes :: "nat \<Rightarrow> 'a lan_scheme \<Rightarrow> u8 list" where
  "fifo_bytes n s = concat (map (\<lambda>k. bytes_of_word (reg_in s RX_DATA_FIFO (reg_n s RX_DATA_FIFO + k))) [0..<n])"

definition rx_adv :: "nat \<Rightarrow> 'a lan_scheme \<Rightarrow> 'a lan_scheme" where
  "rx_adv n s = s\<lparr>reg_n := (reg_n s)(RX_DATA_FIFO := reg_n s RX_DATA_FIFO + n)\<rparr>"

lemma REG_fifo: "REG RX_DATA_FIFO s = (reg_in s RX_DATA_FIFO (reg_n s RX_DATA_FIFO), rx_adv 1 s)"
  by (simp add: REG_def rx_adv_def)

lemma rx_adv_simps [simp]:
  "rx_adv 0 s = s" "rx_adv m (rx_adv n s) = rx_adv (n + m) s"
  "penv (rx_adv n s) = penv s" "reg_in (rx_adv n s) = reg_in s"
  by (simp_all add: rx_adv_def add.assoc)

lemma fifo_bytes_simps [simp]: "fifo_bytes 0 s = []" "length (fifo_bytes n s) = 4 * n"
  by (simp_all add: fifo_bytes_def length_concat comp_def sum_list_triv)

lemma fifo_bytes_Suc:
  "fifo_bytes (Suc n) s = bytes_of_word (reg_in s RX_DATA_FIFO (reg_n s RX_DATA_FIFO)) @ fifo_bytes n (rx_adv 1 s)"
  unfolding fifo_bytes_def rx_adv_def by (subst upt_conv_Cons) (simp_all add: map_Suc_upt [symmetric] comp_def del: upt_Suc)

lemma fifo_bytes_add: "fifo_bytes (m + n) s = fifo_bytes m s @ fifo_bytes n (rx_adv m s)"
  by (induction m arbitrary: s) (simp_all add: fifo_bytes_Suc)

lemma rx_flush_adv: "rx_flush n s = rx_adv n s"
  by (induction n arbitrary: s) (simp_all add: REG_fifo)

section \<open>Filling the buffers\<close>

text \<open>
  A packet buffer chain allocated with no header room: every payload is at the start of a
  pool element and every pbuf but the last is full.
\<close>

definition raw_pool :: "pbuf \<Rightarrow> bool" where
  "raw_pool q \<longleftrightarrow> p_payload q = 0 \<and> length (p_mem q) = 1536 \<and> unat (p_len q) \<le> 1536"

fun raw_chain :: "pchain \<Rightarrow> bool" where
  "raw_chain [] = True"
| "raw_chain (q # qs) = (raw_pool q \<and> (qs \<noteq> [] \<longrightarrow> unat (p_len q) = 1536) \<and> raw_chain qs)"

definition chunk_words_of :: "pbuf \<Rightarrow> nat" where
  "chunk_words_of q = (unat (p_len q) + 3) div 4"

lemma raw_chain_words:
  "raw_chain c \<Longrightarrow> sum_list (map chunk_words_of c) = (sum_list (map (\<lambda>q. unat (p_len q)) c) + 3) div 4"
proof (induction c)
  case (Cons q qs)
  show ?case
  proof (cases "qs = []")
    case False
    then show ?thesis using Cons by (simp add: chunk_words_of_def add.assoc)
  qed (simp add: chunk_words_of_def)
qed simp

lemma rx_chunk_fill:
  assumes "raw_pool q" and "i \<le> k" and "k \<le> 384" and "k - i \<le> words - r"
  shows "rx_chunk i k r words q s =
     Some (r + (k - i), q\<lparr>p_mem := take (4 * i) (p_mem q) @ fifo_bytes (k - i) s @ drop (4 * k) (p_mem q)\<rparr>, rx_adv (k - i) s)"
  using assms
proof (induction "k - i" arbitrary: i r q s)
  case 0
  then show ?case by (simp add: rx_chunk.simps [of i])
next
  case (Suc n)
  define w where "w = reg_in s RX_DATA_FIFO (reg_n s RX_DATA_FIFO)"
  let ?q = "pbuf_write q (4 * i) (bytes_of_word w)"
  have lt: "i < k" "r < words" "k - i = Suc n" "k - Suc i = n" using Suc by auto
  have q: "p_payload q = 0" "length (p_mem q) = 1536" using Suc.prems(1) by (auto simp: raw_pool_def)
  have st: "store32 q i w = Some ?q" using q Suc.prems lt by (simp add: store32_def)
  have mem: "p_mem ?q = take (4 * i) (p_mem q) @ bytes_of_word w @ drop (4 * i + 4) (p_mem q)"
    using q by (simp add: pbuf_write_def Let_def)
  have "raw_pool ?q" using Suc.prems(1) lt(1) Suc.prems(3) mem by (simp add: raw_pool_def pbuf_write_def Let_def)
  from Suc.hyps(1) [OF _ this, of "Suc i" "Suc r" "rx_adv 1 s"] Suc.prems lt
  have rec: "rx_chunk (Suc i) k (Suc r) words ?q (rx_adv 1 s) =
     Some (Suc r + n, ?q\<lparr>p_mem := take (4 * Suc i) (p_mem ?q) @ fifo_bytes n (rx_adv 1 s) @ drop (4 * k) (p_mem ?q)\<rparr>, rx_adv (1 + n) s)"
    by simp
  have t: "take (4 * Suc i) (p_mem ?q) = take (4 * i) (p_mem q) @ bytes_of_word w"
    using q lt(1) Suc.prems(3) by (simp add: mem)
  have "drop (4 * k) (p_mem ?q) = drop (4 * k - 4 * Suc i) (drop (4 * i + 4) (p_mem q))"
    unfolding mem using q lt(1) Suc.prems(3) by (simp add: drop_append)
  also have "\<dots> = drop (4 * k) (p_mem q)" using lt(1) by (simp add: add.commute)
  finally have d: "drop (4 * k) (p_mem ?q) = drop (4 * k) (p_mem q)" .
  have "?q\<lparr>p_mem := take (4 * Suc i) (p_mem ?q) @ fifo_bytes n (rx_adv 1 s) @ drop (4 * k) (p_mem ?q)\<rparr>
      = q\<lparr>p_mem := take (4 * i) (p_mem q) @ fifo_bytes (k - i) s @ drop (4 * k) (p_mem q)\<rparr>"
    unfolding t d lt(3) fifo_bytes_Suc w_def [symmetric] by (simp add: pbuf_write_def Let_def)
  with rec lt st show ?case by (simp add: rx_chunk.simps [of i] REG_fifo w_def)
qed

text \<open>What filling keeps of every pbuf: everything but the memory.\<close>

definition same_shape :: "pbuf \<Rightarrow> pbuf \<Rightarrow> bool" where
  "same_shape q q' \<longleftrightarrow> (\<exists>m. q' = q\<lparr>p_mem := m\<rparr> \<and> length m = length (p_mem q))"

lemma rx_fill_chain:
  assumes "raw_chain c" and "list_all pbuf_ok c" and "sum_list (map chunk_words_of c) \<le> words - r"
  shows "\<exists>c'. rx_fill c r words s = Some (r + sum_list (map chunk_words_of c), c', rx_adv (sum_list (map chunk_words_of c)) s)
     \<and> list_all2 same_shape c c'
     \<and> chain_bytes c' = take (sum_list (map (\<lambda>q. unat (p_len q)) c)) (fifo_bytes (sum_list (map chunk_words_of c)) s)"
  using assms
proof (induction c arbitrary: r s)
  case Nil
  then show ?case by simp
next
  case (Cons q qs)
  define k where "k = chunk_words_of q"
  have q: "raw_pool q" "p_payload q = 0" "length (p_mem q) = 1536" "unat (p_len q) \<le> 1536"
    using Cons.prems(1) by (auto simp: raw_pool_def)
  have k: "k \<le> 384" "unat (p_len q) \<le> 4 * k" "k \<le> words - r" using q(4) Cons.prems(3) by (auto simp: k_def chunk_words_of_def)
  define q' where "q' = q\<lparr>p_mem := fifo_bytes k s @ drop (4 * k) (p_mem q)\<rparr>"
  have run: "rx_chunk 0 ((unat (p_len q) + 3) div 4) r words q s = Some (r + k, q', rx_adv k s)"
    using rx_chunk_fill [OF q(1), of 0 k words r s] k by (simp add: q'_def k_def chunk_words_of_def)
  have "length (fifo_bytes k s @ drop (4 * k) (p_mem q)) = 1536" using k(1) by (simp add: q(3))
  then have sh: "same_shape q q'" unfolding same_shape_def q'_def q(3) by blast
  have dat: "pbuf_data q' = take (unat (p_len q)) (fifo_bytes k s)"
    using q(2) k(2) by (simp add: pbuf_data_def pbuf_read_def q'_def)
  obtain c' where c': "rx_fill qs (r + k) words (rx_adv k s) =
      Some (r + k + sum_list (map chunk_words_of qs), c', rx_adv (sum_list (map chunk_words_of qs)) (rx_adv k s))"
    "list_all2 same_shape qs c'"
    "chain_bytes c' = take (sum_list (map (\<lambda>q. unat (p_len q)) qs)) (fifo_bytes (sum_list (map chunk_words_of qs)) (rx_adv k s))"
  proof -
    have "sum_list (map chunk_words_of qs) \<le> words - (r + k)" using Cons.prems(3) by (simp add: k_def)
    from Cons.IH [OF _ _ this, of "rx_adv k s"] Cons.prems(1,2) that show ?thesis by auto
  qed
  have "chain_bytes (q' # c') = take (sum_list (map (\<lambda>q. unat (p_len q)) (q # qs))) (fifo_bytes (sum_list (map chunk_words_of (q # qs))) s)"
  proof (cases "qs = []")
    case True
    then show ?thesis using dat c'(2) by (simp add: k_def)
  next
    case False
    then have "unat (p_len q) = 1536" using Cons.prems(1) by simp
    then have "unat (p_len q) = 4 * k" by (simp add: k_def chunk_words_of_def)
    then show ?thesis using dat c'(3) by (simp add: fifo_bytes_add k_def [symmetric])
  qed
  with run c' sh show ?case by (simp add: k_def add.assoc)
qed

lemma pool_alloc_raw:
  assumes "\<forall>m\<in>set ms. length m = 1536" and "pool_alloc_loop ms l 0 acc e = Some (c, e')" and "c \<noteq> []"
  shows "\<exists>c2. c = acc @ c2 \<and> raw_chain c2"
  using assms
proof (induction ms arbitrary: l acc)
  case Nil
  then show ?case by (auto split: if_splits option.splits)
next
  case (Cons m ms)
  have al: "LWIP_MEM_ALIGN_SIZE 0 = 0" by (simp add: LWIP_MEM_ALIGN_SIZE_def)
  define qlen where "qlen = min l 1536"
  define q where "q = pbuf_init_alloced_pbuf m 0 l qlen PBUF_POOL 0"
  have ql: "unat qlen = min (unat l) 1536" by (simp add: qlen_def min_def word_le_nat_alt)
  have q: "raw_pool q" using Cons.prems(1) ql by (simp add: q_def raw_pool_def pbuf_init_alloced_pbuf_def)
  have len: "p_len q = qlen" by (simp add: q_def pbuf_init_alloced_pbuf_def)
  have step: "pool_alloc_loop (m # ms) l 0 acc e =
      (if l - qlen > 0 then pool_alloc_loop ms (l - qlen) 0 (acc @ [q]) e else Some (acc @ [q], e\<lparr>pool := ms\<rparr>))"
    by (simp add: qlen_def q_def Let_def al cdefs)
  show ?case
  proof (cases "l - qlen > 0")
    case True
    then have "unat qlen < unat l" using unat_sub_le [of qlen l] ql by (simp add: word_le_nat_alt word_less_nat_alt)
    then have full: "unat (p_len q) = 1536" using ql len by simp
    obtain c2 where "c = (acc @ [q]) @ c2" "raw_chain c2"
      using Cons.IH [of "l - qlen" "acc @ [q]"] Cons.prems step True by auto
    then show ?thesis using q full by (intro exI [of _ "q # c2"]) simp
  next
    case False
    then show ?thesis using Cons.prems step q by (intro exI [of _ "[q]"]) auto
  qed
qed


lemma sum_len_chain: "list_all pbuf_ok c \<Longrightarrow> sum_list (map (\<lambda>q. unat (p_len q)) c) = length (chain_bytes c)"
  by (induction c) auto

lemma same_shape_chain:
  assumes "list_all2 same_shape c c'"
  shows "chain_ok c \<Longrightarrow> chain_ok c'" "list_all fresh_pool_pbuf c \<Longrightarrow> list_all fresh_pool_pbuf c'" "length c' = length c"
proof -
  have 1: "list_all2 (\<lambda>x y. p_len x = p_len y \<and> p_tot_len x = p_tot_len y \<and> (pbuf_ok x \<longrightarrow> pbuf_ok y)
      \<and> (fresh_pool_pbuf x \<longrightarrow> fresh_pool_pbuf y)) c c'"
    using assms by (rule list_all2_mono) (auto simp: same_shape_def pbuf_ok_def fresh_pool_pbuf_def)
  show "chain_ok c \<Longrightarrow> chain_ok c'" using 1
  proof (induction rule: list_all2_induct)
    case (Cons x xs y ys)
    then show ?case by (cases xs; cases ys) auto
  qed simp
  show "list_all fresh_pool_pbuf c \<Longrightarrow> list_all fresh_pool_pbuf c'" using 1 by (induction rule: list_all2_induct) auto
  show "length c' = length c" using assms by (metis list_all2_lengthD)
qed

section \<open>One frame\<close>

text \<open>
  A frame is the bytes the device announced, with the four bytes of CRC at its end. What
  the driver hands up is all but the CRC.
\<close>

definition strip_crc :: "u8 list \<Rightarrow> u8 list" where
  "strip_crc f = (if length f > 4 then take (length f - 4) f else f)"

definition frame_words :: "u8 list \<Rightarrow> nat" where
  "frame_words f = (length f + 3) div 4"

definition pool_ok :: "pbuf_env \<Rightarrow> bool" where
  "pool_ok e \<longleftrightarrow> (\<forall>m\<in>set (pool e). length m = 1536)"

lemma pool_alloc_enough:
  "ms \<noteq> [] \<Longrightarrow> unat l \<le> 1536 * length ms \<Longrightarrow> \<exists>c e'. pool_alloc_loop ms l 0 acc e = Some (c, e') \<and> c \<noteq> []"
proof (induction ms arbitrary: l acc)
  case (Cons m ms)
  have al: "LWIP_MEM_ALIGN_SIZE 0 = 0" by (simp add: LWIP_MEM_ALIGN_SIZE_def)
  define qlen where "qlen = min l 1536"
  define q where "q = pbuf_init_alloced_pbuf m 0 l qlen PBUF_POOL 0"
  have ql: "unat qlen = min (unat l) 1536" by (simp add: qlen_def min_def word_le_nat_alt)
  then have sub: "unat (l - qlen) = unat l - 1536" by (subst unat_sub_le) (auto simp: word_le_nat_alt)
  have step: "pool_alloc_loop (m # ms) l 0 acc e =
      (if l - qlen > 0 then pool_alloc_loop ms (l - qlen) 0 (acc @ [q]) e else Some (acc @ [q], e\<lparr>pool := ms\<rparr>))"
    by (simp add: qlen_def q_def Let_def al cdefs)
  show ?case
  proof (cases "l - qlen > 0")
    case True
    then have "0 < unat l - 1536" using sub by (simp add: word_less_nat_alt)
    then have "ms \<noteq> []" "unat (l - qlen) \<le> 1536 * length ms" using Cons.prems sub by auto
    then show ?thesis using Cons.IH [of "l - qlen" "acc @ [q]"] step True by simp
  qed (simp add: step del: pool_alloc_loop.simps)
qed simp

lemma pool_alloc_rx:
  assumes "pool_ok e"
  shows "\<exists>c e'. pbuf_alloc mm 0 l PBUF_POOL e = Some (c, e') \<and> pool_ok e' \<and>
     (c = [] \<and> length (pool e') = length (pool e) \<and> (unat l > 1536 * length (pool e) \<or> pool e = [])
      \<or> c \<noteq> [] \<and> chain_ok c \<and> raw_chain c \<and> list_all fresh_pool_pbuf c \<and> length (chain_bytes c) = unat l
          \<and> (\<forall>p\<in>set c. length (p_mem p) = 1536) \<and> length (pool e) = length c + length (pool e'))"
proof -
  have ok: "\<forall>m\<in>set (pool e). length m = 1536" using assms by (simp add: pool_ok_def)
  obtain c e' where r: "pool_alloc_loop (pool e) l 0 [] e = Some (c, e')"
    and alt: "c = [] \<and> mset (pool e') = mset (pool e) \<or> c \<noteq> [] \<and> chain_ok c \<and> p_tot_len (hd c) = l
       \<and> list_all fresh_pool_pbuf c \<and> pool e = map p_mem c @ pool e'"
    using pool_alloc_loop_spec [of "[]" "pool e" 0 l e] ok by auto
  from r have run: "pbuf_alloc mm 0 l PBUF_POOL e = Some (c, e')" by (simp add: pbuf_alloc_def cdefs)
  show ?thesis
  proof (cases "c = []")
    case True
    then have m: "mset (pool e') = mset (pool e)" using alt by auto
    then have "pool_ok e'" "length (pool e') = length (pool e)"
      using assms mset_eq_setD [OF m] mset_eq_length [OF m] by (simp_all add: pool_ok_def)
    moreover have "unat l > 1536 * length (pool e) \<or> pool e = []"
      using pool_alloc_enough [of "pool e" l "[]" e] r True by (cases "unat l \<le> 1536 * length (pool e)") auto
    ultimately show ?thesis using run True by blast
  next
    case False
    then have c: "chain_ok c" "p_tot_len (hd c) = l" "list_all fresh_pool_pbuf c" "pool e = map p_mem c @ pool e'" using alt by auto
    have "raw_chain c" using pool_alloc_raw [OF ok r False] by auto
    moreover have "length (chain_bytes c) = unat l" using tot_len_bytes [OF c(1) False] c(2) by simp
    moreover have "pool_ok e'" "\<forall>p\<in>set c. length (p_mem p) = 1536" "length (pool e) = length c + length (pool e')"
      using ok c(4) by (auto simp: pool_ok_def)
    ultimately show ?thesis using run False c by (intro exI conjI disjI2) auto
  qed
qed

text \<open>
  \<open>rx_script R n fs\<close>: from the read counts \<open>n\<close> on, the device announces the frames
  \<open>fs\<close> one after the other, serves each as whole words on the data FIFO, and then reports
  an empty FIFO. A status word of length 0 announces nothing.
\<close>

fun rx_script :: "(u32 \<Rightarrow> nat \<Rightarrow> u32) \<Rightarrow> (u32 \<Rightarrow> nat) \<Rightarrow> u8 list list \<Rightarrow> bool" where
  "rx_script R n [] \<longleftrightarrow> R RX_FIFO_INF (n RX_FIFO_INF) AND 0x00FF0000 = 0"
| "rx_script R n (f # fs) \<longleftrightarrow>
     R RX_FIFO_INF (n RX_FIFO_INF) AND 0x00FF0000 \<noteq> 0
     \<and> drop_bit 16 (R RX_STATUS_FIFO (n RX_STATUS_FIFO)) AND 0x3FFF = of_nat (length f) \<and> length f \<le> 0x3FFF
     \<and> take (length f) (concat (map (\<lambda>k. bytes_of_word (R RX_DATA_FIFO (n RX_DATA_FIFO + k))) [0..<frame_words f])) = f
     \<and> rx_script R (n(RX_FIFO_INF := Suc (n RX_FIFO_INF), RX_STATUS_FIFO := Suc (n RX_STATUS_FIFO),
          RX_DATA_FIFO := n RX_DATA_FIFO + frame_words f)) fs"

text \<open>The read counts after a script: every announcement and every word has been read.\<close>

fun script_end :: "(u32 \<Rightarrow> nat) \<Rightarrow> u8 list list \<Rightarrow> u32 \<Rightarrow> nat" where
  "script_end n [] = n(RX_FIFO_INF := Suc (n RX_FIFO_INF))"
| "script_end n (f # fs) = script_end (n(RX_FIFO_INF := Suc (n RX_FIFO_INF), RX_STATUS_FIFO := Suc (n RX_STATUS_FIFO),
     RX_DATA_FIFO := n RX_DATA_FIFO + frame_words f)) fs"

definition rx_next :: "'a lan_scheme \<Rightarrow> 'a lan_scheme" where
  "rx_next s = s\<lparr>reg_n := (reg_n s)(RX_FIFO_INF := Suc (reg_n s RX_FIFO_INF), RX_STATUS_FIFO := Suc (reg_n s RX_STATUS_FIFO))\<rparr>"

lemma poll_step:
  assumes "rx_script (reg_in s) (reg_n s) (f # fs)"
  shows "lan9118_poll inp s = (if f = [] then lan9118_poll inp (rx_next s)
     else Option.bind (rx_frame inp (of_nat (length f)) (rx_next s)) (lan9118_poll inp))"
    and "take (length f) (fifo_bytes (frame_words f) (rx_next s)) = f"
proof -
  have ne: "RX_STATUS_FIFO \<noteq> RX_FIFO_INF" "RX_DATA_FIFO \<noteq> RX_FIFO_INF" "RX_DATA_FIFO \<noteq> RX_STATUS_FIFO" by (simp_all add: cdefs)
  have "(of_nat (length f) :: u32) = 0 \<longleftrightarrow> f = []"
    using assms by (simp add: word_unat_eq_iff unat_of_nat_u32)
  then show "lan9118_poll inp s = (if f = [] then lan9118_poll inp (rx_next s)
     else Option.bind (rx_frame inp (of_nat (length f)) (rx_next s)) (lan9118_poll inp))"
    using assms ne by (subst lan9118_poll.simps) (simp add: REG_def Let_def rx_next_def)
  show "take (length f) (fifo_bytes (frame_words f) (rx_next s)) = f"
    using assms ne by (simp add: fifo_bytes_def rx_next_def)
qed

lemma poll_empty: "rx_script (reg_in s) (reg_n s) [] \<Longrightarrow> lan9118_poll inp s = Some (s\<lparr>reg_n := script_end (reg_n s) []\<rparr>)"
  by (subst lan9118_poll.simps) (auto simp: REG_def Let_def)

lemma script_next:
  assumes "rx_script (reg_in s) (reg_n s) (f # fs)"
  shows "rx_script (reg_in s) ((reg_n (rx_next s))(RX_DATA_FIFO := reg_n (rx_next s) RX_DATA_FIFO + frame_words f)) fs"
proof -
  have ne: "RX_DATA_FIFO \<noteq> RX_FIFO_INF" "RX_DATA_FIFO \<noteq> RX_STATUS_FIFO" by (simp_all add: cdefs)
  show ?thesis using assms ne by (simp add: rx_next_def)
qed

lemma script_end_next:
  "script_end ((reg_n (rx_next s))(RX_DATA_FIFO := reg_n (rx_next s) RX_DATA_FIFO + frame_words f)) fs = script_end (reg_n s) (f # fs)"
proof -
  have ne: "RX_DATA_FIFO \<noteq> RX_FIFO_INF" "RX_DATA_FIFO \<noteq> RX_STATUS_FIFO" by (simp_all add: cdefs)
  show ?thesis using ne by (simp add: rx_next_def)
qed

lemma script_end_empty: "script_end (reg_n (rx_next s)) fs = script_end (reg_n s) ([] # fs)"
  using script_end_next [of s "[]" fs] by (simp add: frame_words_def)

text \<open>
  The contract of \<open>netif->input\<close>: for a packet whose bytes are admissible (\<open>acc\<close>), it takes
  a well-formed chain of pool buffers cut as \<open>pbuf_alloc\<close> cuts them, returns \<open>ERR_OK\<close>,
  leaves the device alone and keeps the pool elements whole. \<open>inv\<close> is the invariant of the
  stack above, \<open>view\<close> what of its state the packets change and \<open>taken\<close> how: by the bytes
  of the packet alone. For the packets of \<open>frees\<close> it also gives the buffers back. Neither
  depends on the driver, and the driver relies on nothing else.
\<close>

definition first_full :: "pchain \<Rightarrow> bool" where
  "first_full c \<longleftrightarrow> p_payload (hd c) = 0 \<and> (tl c \<noteq> [] \<longrightarrow> unat (p_len (hd c)) = 1536)"

lemma raw_first_full: "raw_chain c \<Longrightarrow> list_all2 same_shape c c' \<Longrightarrow> c \<noteq> [] \<Longrightarrow> first_full c'"
  by (cases c; cases c') (auto simp: first_full_def same_shape_def raw_pool_def)

definition rx_packet :: "pchain \<Rightarrow> bool" where
  "rx_packet c \<longleftrightarrow> c \<noteq> [] \<and> chain_ok c \<and> list_all fresh_pool_pbuf c \<and> (\<forall>p\<in>set c. length (p_mem p) = 1536) \<and> first_full c"

locale netif_input =
  fixes inp :: "pchain \<Rightarrow> 'a lan_scheme \<Rightarrow> (lwip_err \<times> pchain \<times> 'a lan_scheme) option"
    and view :: "'a lan_scheme \<Rightarrow> 'v"
    and taken :: "u8 list \<Rightarrow> 'v \<Rightarrow> 'v"
    and inv :: "'a lan_scheme \<Rightarrow> bool"
    and acc :: "u8 list \<Rightarrow> bool"
    and frees :: "u8 list \<Rightarrow> bool"
  assumes input_takes: "rx_packet c \<Longrightarrow> acc (chain_bytes c) \<Longrightarrow> pool_ok (penv s) \<Longrightarrow> inv s
      \<Longrightarrow> \<exists>c' s'. inp c s = Some (ERR_OK, c', s') \<and> reg_in s' = reg_in s \<and> reg_n s' = reg_n s
           \<and> pool_ok (penv s') \<and> inv s' \<and> view s' = taken (chain_bytes c) (view s)
           \<and> (frees (chain_bytes c) \<longrightarrow> length (pool (penv s)) + length c \<le> length (pool (penv s')))"
    and view_driver: "view (s\<lparr>reg_n := n, penv := e\<rparr>) = view s"
    and inv_driver: "inv (s\<lparr>reg_n := n, penv := e\<rparr>) = inv s"
begin

lemma driver_upd:
  "view (s\<lparr>reg_n := n\<rparr>) = view s" "inv (s\<lparr>reg_n := n\<rparr>) = inv s" "view (rx_adv k s) = view s" "inv (rx_adv k s) = inv s"
  "view (s\<lparr>penv := e\<rparr>) = view s" "inv (s\<lparr>penv := e\<rparr>) = inv s"
proof -
  show 1: "view (s\<lparr>reg_n := n\<rparr>) = view s" "inv (s\<lparr>reg_n := n\<rparr>) = inv s" for n
    using view_driver [where s = s and n = n and e = "penv s"] inv_driver [where s = s and n = n and e = "penv s"] by simp_all
  show "view (rx_adv k s) = view s" "inv (rx_adv k s) = inv s" by (simp_all add: rx_adv_def 1)
  show "view (s\<lparr>penv := e\<rparr>) = view s" "inv (s\<lparr>penv := e\<rparr>) = inv s"
    using view_driver [where s = s and n = "reg_n s" and e = e] inv_driver [where s = s and n = "reg_n s" and e = e] by simp_all
qed

lemma rx_frame_taken:
  assumes f: "0 < length f" "length f \<le> 0x3FFF" "take (length f) (fifo_bytes (frame_words f) s) = f"
    and ok: "pool_ok (penv s)" "inv s" and adm: "acc (strip_crc f)"
  shows "\<exists>s'. rx_frame inp (of_nat (length f)) s = Some s' \<and> reg_in s' = reg_in s
     \<and> reg_n s' = (reg_n s)(RX_DATA_FIFO := reg_n s RX_DATA_FIFO + frame_words f) \<and> pool_ok (penv s') \<and> inv s'
     \<and> (view s' = view s \<and> 1536 * length (pool (penv s)) < length f \<or> view s' = taken (strip_crc f) (view s))
     \<and> (frees (strip_crc f) \<longrightarrow> length (pool (penv s)) \<le> length (pool (penv s')))"
proof -
  define raw where "raw = (of_nat (length f) :: u32)"
  define pkt where "pkt = (if raw > 4 then raw - 4 else raw)"
  have raw: "unat raw = length f" using f(2) by (simp add: raw_def unat_of_nat_u32)
  have pkt: "unat pkt = (if length f > 4 then length f - 4 else length f)"
    using raw by (simp add: pkt_def word_less_nat_alt unat_sub_le word_le_nat_alt)
  have l: "unat (ucast pkt :: u16) = unat pkt" using pkt f(2) by (subst unat_ucast_16) (auto simp: word_le_nat_alt split: if_splits)
  have w: "unat ((raw + 3) div 4) = frame_words f" using raw f(2) by (simp add: wconv frame_words_def)
  obtain c e where al: "pbuf_alloc (\<lambda>_. None) 0 (ucast pkt) PBUF_POOL (penv s) = Some (c, e)" "pool_ok e"
    and alt: "c = [] \<and> length (pool e) = length (pool (penv s)) \<and> (unat pkt > 1536 * length (pool (penv s)) \<or> pool (penv s) = [])
      \<or> c \<noteq> [] \<and> chain_ok c \<and> raw_chain c \<and> list_all fresh_pool_pbuf c \<and> length (chain_bytes c) = unat pkt
          \<and> (\<forall>p\<in>set c. length (p_mem p) = 1536) \<and> length (pool (penv s)) = length c + length (pool e)"
    using pool_alloc_rx [OF ok(1), of "\<lambda>_. None" "ucast pkt"] l by auto
  let ?s = "s\<lparr>penv := e\<rparr>"
  have adv: "reg_n (rx_adv k ?s) = (reg_n s)(RX_DATA_FIFO := reg_n s RX_DATA_FIFO + k)" for k by (simp add: rx_adv_def)
  show ?thesis
  proof (cases "c = []")
    case True
    then have "1536 * length (pool (penv s)) < length f" using alt pkt f(1) by (auto split: if_splits)
    moreover have "rx_frame inp raw s = Some (rx_adv (frame_words f) ?s)"
      using al True w by (simp add: rx_frame_def pkt_def Let_def rx_flush_adv)
    moreover have "length (pool e) = length (pool (penv s))" using alt True by blast
    ultimately show ?thesis using al(2) ok(2) adv unfolding raw_def [symmetric]
      by (intro exI [of _ "rx_adv (frame_words f) ?s"]) (simp add: driver_upd rx_adv_def)
  next
    case False
    then have c: "chain_ok c" "raw_chain c" "list_all fresh_pool_pbuf c" "length (chain_bytes c) = unat pkt"
      "\<forall>p\<in>set c. length (p_mem p) = 1536" "length (pool (penv s)) = length c + length (pool e)" using alt by auto
    define k where "k = sum_list (map chunk_words_of c)"
    have sl: "sum_list (map (\<lambda>q. unat (p_len q)) c) = unat pkt" using sum_len_chain [OF chain_ok_all [OF c(1)]] c(4) by simp
    have k: "k = (unat pkt + 3) div 4" using raw_chain_words [OF c(2)] sl by (simp add: k_def)
    have kw: "k \<le> frame_words f" using k pkt unfolding frame_words_def by (auto intro!: div_le_mono)
    obtain c' where fill: "rx_fill c 0 (frame_words f) ?s = Some (k, c', rx_adv k ?s)" "list_all2 same_shape c c'"
      "chain_bytes c' = take (unat pkt) (fifo_bytes k ?s)"
      using rx_fill_chain [OF c(2) chain_ok_all [OF c(1)], of "frame_words f" 0 ?s] kw sl by (auto simp: k_def)
    have fb: "fifo_bytes n ?s = fifo_bytes n s" for n by (simp add: fifo_bytes_def)
    have "fifo_bytes (frame_words f) s = fifo_bytes k s @ fifo_bytes (frame_words f - k) (rx_adv k s)"
      using fifo_bytes_add [of k "frame_words f - k" s] kw by simp
    then have "take (unat pkt) (fifo_bytes k s) = take (unat pkt) (fifo_bytes (frame_words f) s)"
      using k by (simp add: take_append)
    also have "\<dots> = take (unat pkt) (take (length f) (fifo_bytes (frame_words f) s))" using pkt by simp
    also have "\<dots> = strip_crc f" using pkt f(3) by (simp add: strip_crc_def)
    finally have bytes: "chain_bytes c' = strip_crc f" using fill(3) fb by simp
    let ?s1 = "rx_adv (frame_words f) ?s"
    have c'ne: "c' \<noteq> []" using False fill(2) by auto
    have shape: "chain_ok c'" "list_all fresh_pool_pbuf c'" "length c' = length c"
      using same_shape_chain [OF fill(2)] c by auto
    have mems: "\<forall>p\<in>set c'. length (p_mem p) = 1536"
      using fill(2) c(5) by (induction rule: list_all2_induct) (auto simp: same_shape_def)
    have rx: "rx_packet c'" using c'ne shape mems raw_first_full [OF c(2) fill(2) False] by (simp add: rx_packet_def)
    obtain c'' s' where i: "inp c' ?s1 = Some (ERR_OK, c'', s')" "reg_in s' = reg_in ?s1" "reg_n s' = reg_n ?s1"
      "pool_ok (penv s')" "inv s'" "view s' = taken (chain_bytes c') (view ?s1)"
      "frees (chain_bytes c') \<longrightarrow> length (pool (penv ?s1)) + length c' \<le> length (pool (penv s'))"
      using input_takes [OF rx, of ?s1] al(2) ok(2) bytes adm by (auto simp: driver_upd rx_adv_def)
    have "rx_frame inp raw s = Some s'"
      using al False w fill(1) i(1) kw by (simp add: rx_frame_def pkt_def Let_def rx_flush_adv)
    then show ?thesis unfolding raw_def [symmetric] using i bytes adv shape(3) c(6)
      by (intro exI [of _ s']) (auto simp: driver_upd rx_adv_def)
  qed
qed

lemma poll_takes:
  assumes "rx_script (reg_in s) (reg_n s) fs" and "pool_ok (penv s)" and "inv s" and "\<forall>f\<in>set fs. acc (strip_crc f)"
  shows "\<exists>s' ds. lan9118_poll inp s = Some s' \<and> subseq ds (filter (\<lambda>f. f \<noteq> []) fs) \<and> view s' = fold taken (map strip_crc ds) (view s)
     \<and> pool_ok (penv s') \<and> inv s' \<and> reg_in s' = reg_in s \<and> reg_n s' = script_end (reg_n s) fs"
  using assms
proof (induction fs arbitrary: s)
  case Nil
  then show ?case using poll_empty [OF Nil.prems(1)] by (auto simp: driver_upd intro!: exI [of _ "[]"])
next
  case (Cons f fs)
  let ?n = "rx_next s"
  have n: "view ?n = view s" "inv ?n = inv s" "penv ?n = penv s" "reg_in ?n = reg_in s"
    by (simp_all add: rx_next_def driver_upd)
  show ?case
  proof (cases "f = []")
    case True
    then have "rx_script (reg_in ?n) (reg_n ?n) fs" using script_next [OF Cons.prems(1)] n(4) by (simp add: frame_words_def)
    then show ?thesis using Cons.IH [of ?n] Cons.prems True n poll_step(1) [OF Cons.prems(1)] script_end_empty [of s fs] by simp
  next
    case False
    obtain s1 where s1: "rx_frame inp (of_nat (length f)) ?n = Some s1" "reg_in s1 = reg_in s" "pool_ok (penv s1)" "inv s1"
      "reg_n s1 = (reg_n ?n)(RX_DATA_FIFO := reg_n ?n RX_DATA_FIFO + frame_words f)"
      "view s1 = view s \<or> view s1 = taken (strip_crc f) (view s)"
      using rx_frame_taken [of f ?n] False Cons.prems poll_step(2) [OF Cons.prems(1)] n by auto
    have sc: "rx_script (reg_in s1) (reg_n s1) fs" using script_next [OF Cons.prems(1)] s1(2,5) by simp
    have se: "script_end (reg_n s1) fs = script_end (reg_n s) (f # fs)" using script_end_next [of s f fs] unfolding s1(5) .
    from sc obtain s' ds where r: "lan9118_poll inp s1 = Some s'" "subseq ds (filter (\<lambda>f. f \<noteq> []) fs)"
      "view s' = fold taken (map strip_crc ds) (view s1)" "pool_ok (penv s')" "inv s'"
      "reg_in s' = reg_in s1" "reg_n s' = script_end (reg_n s1) fs"
      using Cons.IH [of s1] s1(3,4) Cons.prems(4) by auto
    have run: "lan9118_poll inp s = Some s'" using poll_step(1) [OF Cons.prems(1)] False s1(1) r(1) by simp
    from s1(6) show ?thesis
    proof
      assume "view s1 = view s"
      then show ?thesis using run r False se s1(2) by (intro exI [of _ s'] exI [of _ ds]) (simp add: list_emb_Cons)
    next
      assume "view s1 = taken (strip_crc f) (view s)"
      then show ?thesis using run r False se s1(2) by (intro exI [of _ s'] exI [of _ "f # ds"]) simp
    qed
  qed
qed

text \<open>With enough free buffers for one frame and packets whose buffers are given back, no frame is lost.\<close>

lemma poll_takes_all:
  assumes "rx_script (reg_in s) (reg_n s) fs" and "pool_ok (penv s)" and "inv s" and "11 \<le> length (pool (penv s))"
    and "\<forall>f\<in>set fs. acc (strip_crc f) \<and> frees (strip_crc f)"
  shows "\<exists>s'. lan9118_poll inp s = Some s' \<and> view s' = fold taken (map strip_crc (filter (\<lambda>f. f \<noteq> []) fs)) (view s)
     \<and> pool_ok (penv s') \<and> inv s' \<and> length (pool (penv s)) \<le> length (pool (penv s'))
     \<and> reg_in s' = reg_in s \<and> reg_n s' = script_end (reg_n s) fs"
  using assms
proof (induction fs arbitrary: s)
  case Nil
  then show ?case using poll_empty [OF Nil.prems(1)] by (auto simp: driver_upd intro!: exI [of _ "[]"])
next
  case (Cons f fs)
  let ?n = "rx_next s"
  have n: "view ?n = view s" "inv ?n = inv s" "penv ?n = penv s" "reg_in ?n = reg_in s"
    by (simp_all add: rx_next_def driver_upd)
  show ?case
  proof (cases "f = []")
    case True
    then have "rx_script (reg_in ?n) (reg_n ?n) fs" using script_next [OF Cons.prems(1)] n(4) by (simp add: frame_words_def)
    then show ?thesis using Cons.IH [of ?n] Cons.prems True n poll_step(1) [OF Cons.prems(1)] script_end_empty [of s fs] by simp
  next
    case False
    have short: "length f \<le> 0x3FFF" using Cons.prems(1) by simp
    then have "\<not> 1536 * length (pool (penv s)) < length f" using Cons.prems(4) by simp
    then obtain s1 where s1: "rx_frame inp (of_nat (length f)) ?n = Some s1" "reg_in s1 = reg_in s" "pool_ok (penv s1)" "inv s1"
      "reg_n s1 = (reg_n ?n)(RX_DATA_FIFO := reg_n ?n RX_DATA_FIFO + frame_words f)" "view s1 = taken (strip_crc f) (view s)"
      "length (pool (penv s)) \<le> length (pool (penv s1))"
      using rx_frame_taken [of f ?n] False Cons.prems poll_step(2) [OF Cons.prems(1)] n short by auto
    have sc: "rx_script (reg_in s1) (reg_n s1) fs" using script_next [OF Cons.prems(1)] s1(2,5) by simp
    have se: "script_end (reg_n s1) fs = script_end (reg_n s) (f # fs)" using script_end_next [of s f fs] unfolding s1(5) .
    from sc obtain s' where r: "lan9118_poll inp s1 = Some s'"
      "view s' = fold taken (map strip_crc (filter (\<lambda>f. f \<noteq> []) fs)) (view s1)" "pool_ok (penv s')" "inv s'" "length (pool (penv s1)) \<le> length (pool (penv s'))"
      "reg_in s' = reg_in s1" "reg_n s' = script_end (reg_n s1) fs"
      using Cons.IH [of s1] s1(3,4,7) Cons.prems(4,5) by auto
    have "lan9118_poll inp s = Some s'" using poll_step(1) [OF Cons.prems(1)] False s1(1) r(1) by simp
    then show ?thesis using r s1(2,6,7) se False by simp
  qed
qed

end

section \<open>What is transmitted\<close>

text \<open>
  How the device reads the transmit FIFO: the length of command word B, then that many
  bytes of the data words.
\<close>

definition tx_fifo :: "'a lan_scheme \<Rightarrow> u32 list" where
  "tx_fifo s = map snd (filter (\<lambda>(off, v). off = TX_DATA_FIFO) (reg_out s))"

definition tx_frame :: "u32 list \<Rightarrow> u8 list" where
  "tx_frame ws = take (unat (ws ! 1 AND 0x7FF)) (concat (map bytes_of_word (drop 2 ws)))"

fun cut_aligned :: "pchain \<Rightarrow> bool" where
  "cut_aligned [] = True"
| "cut_aligned (q # qs) = ((qs \<noteq> [] \<longrightarrow> 4 dvd unat (p_len q)) \<and> cut_aligned qs)"

lemma tx_fifo_set [simp]: "tx_fifo (REG_set TX_DATA_FIFO v s) = tx_fifo s @ [v]"
  by (simp add: tx_fifo_def REG_set_def)

lemma tx_words_fifo:
  assumes "nat (p_payload q) + 4 * (i + n) \<le> length (p_mem q @ after q)"
  shows "\<exists>ws. tx_fifo (tx_words after q i n s) = tx_fifo s @ ws
     \<and> concat (map bytes_of_word ws) = take (4 * n) (drop (nat (p_payload q) + 4 * i) (p_mem q @ after q))"
  using assms
proof (induction n arbitrary: i s)
  case 0
  then show ?case by simp
next
  case (Suc n)
  define m where "m = drop (nat (p_payload q) + 4 * i) (p_mem q @ after q)"
  have d: "drop (nat (p_payload q) + 4 * Suc i) (p_mem q @ after q) = drop 4 m" by (simp add: m_def add.commute add.left_commute del: drop_append)
  have "nat (p_payload q) + 4 * (Suc i + n) \<le> length (p_mem q @ after q)" using Suc.prems by simp
  from Suc.IH [OF this, of "REG_set TX_DATA_FIFO (load32 after q i) s"]
  obtain ws where ws: "tx_fifo (tx_words after q i (Suc n) s) = (tx_fifo s @ [load32 after q i]) @ ws"
    "concat (map bytes_of_word ws) = take (4 * n) (drop 4 m)"
    unfolding d by auto
  have "length m \<ge> 4" using Suc.prems by (simp add: m_def)
  then have "bytes_of_word (load32 after q i) = take 4 m"
    unfolding load32_def m_def [symmetric] by (intro word_of_bytes_inverse) simp
  then have "concat (map bytes_of_word (load32 after q i # ws)) = take (4 * Suc n) m"
    using ws(2) by (simp add: take_add)
  then show ?case using ws(1) unfolding m_def by (intro exI [of _ "load32 after q i # ws"]) simp
qed

lemma tx_chain_fifo:
  assumes "list_all pbuf_ok c" and "cut_aligned c" and "\<forall>q\<in>set c. 3 \<le> length (after q)"
  shows "\<exists>ws. tx_fifo (tx_chain after c s) = tx_fifo s @ ws \<and> prefix (chain_bytes c) (concat (map bytes_of_word ws))
     \<and> length (concat (map bytes_of_word ws)) < length (chain_bytes c) + 4"
  using assms
proof (induction c arbitrary: s)
  case Nil
  then show ?case by simp
next
  case (Cons q qs)
  define n where "n = (unat (p_len q) + 3) div 4"
  define m where "m = drop (nat (p_payload q)) (p_mem q @ after q)"
  have q: "nat (p_payload q) + unat (p_len q) \<le> length (p_mem q)" "3 \<le> length (after q)" using Cons.prems by (auto simp: pbuf_ok_def)
  have n: "unat (p_len q) \<le> 4 * n" "4 * n < unat (p_len q) + 4" by (simp_all add: n_def)
  obtain ws where ws: "tx_fifo (tx_words after q 0 n s) = tx_fifo s @ ws" "concat (map bytes_of_word ws) = take (4 * n) m"
    using tx_words_fifo [of q 0 n after s] q n by (auto simp: m_def)
  have dat: "pbuf_data q = take (unat (p_len q)) m" using q by (simp add: pbuf_data_def pbuf_read_def m_def)
  have len: "length (take (4 * n) m) = 4 * n" using q n by (simp add: m_def)
  obtain vs where vs: "tx_fifo (tx_chain after (q # qs) s) = tx_fifo s @ ws @ vs" "prefix (chain_bytes qs) (concat (map bytes_of_word vs))"
    "length (concat (map bytes_of_word vs)) < length (chain_bytes qs) + 4"
    using Cons.IH [of "tx_words after q 0 n s"] Cons.prems ws(1) by (auto simp: n_def)
  show ?case
  proof (cases "qs = []")
    case True
    then have "tx_fifo (tx_chain after (q # qs) s) = tx_fifo s @ ws" using ws(1) by (simp add: n_def)
    moreover have "prefix (pbuf_data q) (concat (map bytes_of_word ws))"
      unfolding ws(2) dat using n(1) by (metis append_take_drop_id min.absorb1 prefix_def take_take)
    moreover have "length (pbuf_data q) = unat (p_len q)" using Cons.prems(1) by simp
    ultimately show ?thesis using True ws(2) len n(2) by (intro exI [of _ ws]) simp
  next
    case False
    then have "4 dvd unat (p_len q)" using Cons.prems(2) by simp
    then have "4 * n = unat (p_len q)" by (auto simp: n_def elim!: dvdE)
    then have "concat (map bytes_of_word ws) = pbuf_data q" using ws(2) dat by simp
    then show ?thesis using vs by (intro exI [of _ "ws @ vs"]) simp
  qed
qed

lemma unat_and_7ff: "unat ((w :: u32) AND 0x7FF) = unat w mod 2048"
proof -
  have "w AND 0x7FF = take_bit 11 w" by (simp add: take_bit_eq_mask mask_eq_exp_minus_1)
  then show ?thesis by (simp add: unsigned_take_bit_eq take_bit_nat_def)
qed

lemma linkoutput_frame:
  assumes "chain_ok c" and "c \<noteq> []" and "cut_aligned c" and "\<forall>q\<in>set c. 3 \<le> length (after q)"
    and "length (chain_bytes c) < 2048"
  shows "\<exists>s' ws. lan9118_linkoutput after c s = Some (ERR_OK, s') \<and> tx_fifo s' = tx_fifo s @ ws \<and> tx_frame ws = chain_bytes c
     \<and> length ws = 2 + (length (chain_bytes c) + 3) div 4"
proof -
  obtain h t where c: "c = h # t" using assms(2) by (cases c) auto
  define L where "L = (ucast (p_tot_len h) AND 0x7FF :: u32)"
  have tot: "unat (p_tot_len h) = length (chain_bytes c)" using chain_tot_bytes assms(1) c by blast
  have L: "unat (L AND 0x7FF) = length (chain_bytes c)" using tot assms(5) by (simp add: L_def unat_and_7ff)
  let ?s2 = "REG_set TX_DATA_FIFO L (REG_set TX_DATA_FIFO (TX_CMD_A_FIRST_SEG OR TX_CMD_A_LAST_SEG OR L) s)"
  obtain ws where ws: "tx_fifo (tx_chain after c ?s2) = tx_fifo ?s2 @ ws" "prefix (chain_bytes c) (concat (map bytes_of_word ws))"
    "length (concat (map bytes_of_word ws)) < length (chain_bytes c) + 4"
    using tx_chain_fifo [OF chain_ok_all [OF assms(1)] assms(3,4)] by blast
  let ?ws = "(TX_CMD_A_FIRST_SEG OR TX_CMD_A_LAST_SEG OR L) # L # ws"
  have "length (concat (map bytes_of_word ws)) = 4 * length ws" by (induction ws) simp_all
  then have "length ws = (length (chain_bytes c) + 3) div 4" using ws(3) prefix_length_le [OF ws(2)] by simp
  moreover have "tx_frame ?ws = chain_bytes c" using ws(2) L by (auto simp: tx_frame_def prefix_def)
  moreover have "lan9118_linkoutput after c s = Some (ERR_OK, tx_chain after c ?s2)"
    by (simp add: lan9118_linkoutput_def c L_def Let_def)
  ultimately show ?thesis using ws(1) by (intro exI conjI) auto
qed

section \<open>Properties\<close>

text \<open>
  C35. Transmission: for a well-formed packet of at most 2047 bytes in which every pbuf but the
  last has a length that is a multiple of four, \<open>lan9118_linkoutput\<close> appends to the transmit
  FIFO the two command words and data words that the device reads as exactly the bytes of the
  packet, with fewer than four bytes of padding behind them.
\<close>

theorem linkoutput_sends_packet:
  assumes "chain_ok c" and "c \<noteq> []" and "cut_aligned c" and "\<forall>q\<in>set c. 3 \<le> length (after q)"
    and "length (chain_bytes c) < 2048"
  shows "\<exists>s' ws. lan9118_linkoutput after c s = Some (ERR_OK, s') \<and> tx_fifo s' = tx_fifo s @ ws \<and> tx_frame ws = chain_bytes c
     \<and> length ws = 2 + (length (chain_bytes c) + 3) div 4"
  using assms by (rule linkoutput_frame)

definition sample_lan :: lan where
  "sample_lan = \<lparr>uart_state = (\<lambda>_. 0), uart_state_n = 0, uart_rx = (\<lambda>_. 0), uart_rx_n = 0, uart_ctrl = 3, uart_bauddiv = 217,
     uart_tx = [], uart_buf = [], reg_in = (\<lambda>_ _. 0), reg_n = (\<lambda>_. 0), reg_out = [], penv = sample_env\<rparr>"

definition frame_pbuf :: "u16 \<Rightarrow> u8 list \<Rightarrow> pbuf" where
  "frame_pbuf tot bs = pbuf_init_alloced_pbuf bs 0 tot (of_nat (length bs)) PBUF_RAM 0"

theorem linkoutput_sends_packet_witness:
  "\<exists>s' ws. lan9118_linkoutput (\<lambda>_. [0, 0, 0]) [frame_pbuf 6 [1, 2, 3, 4], frame_pbuf 2 [5, 6]] sample_lan = Some (ERR_OK, s')
     \<and> tx_fifo s' = ws \<and> tx_frame ws = [1, 2, 3, 4, 5, 6] \<and> length ws = 4"
proof -
  let ?c = "[frame_pbuf 6 [1, 2, 3, 4], frame_pbuf 2 [5, 6]]"
  have ok: "chain_ok ?c" "cut_aligned ?c" "chain_bytes ?c = [1, 2, 3, 4, 5, 6]"
    by (simp_all add: frame_pbuf_def pbuf_init_alloced_pbuf_def pbuf_ok_def pbuf_data_def pbuf_read_def)
  have "tx_fifo sample_lan = []" by (simp add: tx_fifo_def sample_lan_def)
  with linkoutput_sends_packet [OF ok(1) _ ok(2), of "\<lambda>_. [0, 0, 0]" sample_lan, unfolded ok(3)] show ?thesis by simp
qed

text \<open>
  C40. What goes wrong otherwise: when the first of two non-empty pbufs has a length that is not
  a multiple of four, the frame the device sends has, at the place of the first byte of the
  second pbuf, the byte that lies in memory behind the first one.
\<close>

theorem linkoutput_pads_inside:
  assumes "chain_ok [p, q]" and "\<not> 4 dvd unat (p_len p)" and "0 < unat (p_len q)"
    and "3 \<le> length (after p)" and "3 \<le> length (after q)" and "length (chain_bytes [p, q]) < 2048"
  shows "\<exists>s' ws. lan9118_linkoutput after [p, q] s = Some (ERR_OK, s') \<and> tx_fifo s' = tx_fifo s @ ws
     \<and> tx_frame ws ! unat (p_len p) = (p_mem p @ after p) ! (nat (p_payload p) + unat (p_len p))"
proof -
  define n where "n = (unat (p_len p) + 3) div 4"
  define m where "m = drop (nat (p_payload p)) (p_mem p @ after p)"
  define L where "L = (ucast (p_tot_len p) AND 0x7FF :: u32)"
  have ok: "pbuf_ok p" using assms(1) by simp
  then have mem: "nat (p_payload p) + unat (p_len p) \<le> length (p_mem p)" by (auto simp: pbuf_ok_def)
  have n: "unat (p_len p) < 4 * n" "4 * n < unat (p_len p) + 4" using assms(2) unfolding n_def by presburger+
  have "unat (p_tot_len p) = length (chain_bytes [p, q])" using chain_tot_bytes assms(1) by blast
  then have L: "unat (L AND 0x7FF) = length (chain_bytes [p, q])" using assms(6) by (simp add: L_def unat_and_7ff)
  have gt: "unat (p_len p) < unat (L AND 0x7FF)" using L ok assms(1,3) by simp
  let ?cmd = "TX_CMD_A_FIRST_SEG OR TX_CMD_A_LAST_SEG OR L"
  let ?s2 = "REG_set TX_DATA_FIFO L (REG_set TX_DATA_FIFO ?cmd s)"
  obtain ws where ws: "tx_fifo (tx_words after p 0 n ?s2) = tx_fifo ?s2 @ ws" "concat (map bytes_of_word ws) = take (4 * n) m"
    using tx_words_fifo [of p 0 n after ?s2] mem n assms(4) by (auto simp: m_def)
  obtain vs where vs: "tx_fifo (tx_chain after [q] (tx_words after p 0 n ?s2)) = tx_fifo (tx_words after p 0 n ?s2) @ vs"
    using tx_chain_fifo [of "[q]" after] assms(1,5) by auto
  have run: "lan9118_linkoutput after [p, q] s = Some (ERR_OK, tx_chain after [q] (tx_words after p 0 n ?s2))"
    by (simp add: lan9118_linkoutput_def L_def n_def Let_def)
  have len: "4 * n \<le> length m" using mem n assms(4) by (simp add: m_def)
  have "tx_frame (?cmd # L # ws @ vs) ! unat (p_len p) = m ! unat (p_len p)"
    using gt n(1) len ws(2) by (simp add: tx_frame_def nth_append)
  also have "\<dots> = (p_mem p @ after p) ! (nat (p_payload p) + unat (p_len p))"
    unfolding m_def by (rule nth_drop) (use mem in simp)
  finally show ?thesis using run vs ws(1) by (intro exI conjI) auto
qed

theorem linkoutput_pads_inside_witness:
  "\<exists>s' ws. lan9118_linkoutput (\<lambda>_. [9, 9, 9]) [frame_pbuf 4 [1, 2], frame_pbuf 2 [3, 4]] sample_lan = Some (ERR_OK, s')
     \<and> tx_fifo s' = ws \<and> tx_frame ws ! 2 = 9"
proof -
  let ?p = "frame_pbuf 4 [1, 2]"
  let ?q = "frame_pbuf 2 [3, 4]"
  have ok: "chain_ok [?p, ?q]" "chain_bytes [?p, ?q] = [1, 2, 3, 4]"
    by (simp_all add: frame_pbuf_def pbuf_init_alloced_pbuf_def pbuf_ok_def pbuf_data_def pbuf_read_def)
  have len: "unat (p_len ?p) = 2" "unat (p_len ?q) = 2" "p_payload ?p = 0" "p_mem ?p = [1, 2]"
    by (simp_all add: frame_pbuf_def pbuf_init_alloced_pbuf_def)
  have "tx_fifo sample_lan = []" by (simp add: tx_fifo_def sample_lan_def)
  with linkoutput_pads_inside [OF ok(1), of "\<lambda>_. [9, 9, 9]" sample_lan, unfolded ok(2)] len show ?thesis by simp
qed

end
