(* ===== verification/Ntp_Client.thy ===== *)
theory Ntp_Client
  imports Speech Lwip_Udp_Proofs Lan9118
begin

text \<open>
  The NTP client, \<open>network/ntp_client.c\<close>: \<open>ntp_recv_callback\<close> and \<open>ntp_get_time\<close> on
  top of the console, the packet buffers and UDP. The state is the console extended by the
  client's two static variables and by the state of the stack below it.

  What is outside this component enters as the record \<open>net_env\<close> (the heap, IP output,
  buffer addresses, the bytes the callback's uninitialised stack buffer starts with) and as
  the argument \<open>poll\<close>, which is \<open>lwip_periodic_handle\<close>.

  Lemmas: the conversion of a timestamp is exact and its fields are in range. What the
  calls do is proved in \<open>Ntp_Proofs\<close>.
\<close>

declare uart_puts.simps [simp del]

section \<open>State and environment\<close>

datatype udp_cb = Ntp_recv_callback | Dhcp_recv | Dns_recv

record sys = lan +
  ntp_response_received :: int
  ntp_timestamp :: u32
  udp :: "udp_cb udp_state"
  netif_default :: "netif option"

record net_env =
  env_malloc :: "u16 \<Rightarrow> u8 list option"
  env_odd :: "pbuf \<Rightarrow> bool"
  env_out :: ip_out
  env_stack :: "u8 list"

definition NTP_PORT :: u16 where [cdefs]: "NTP_PORT = 123"
definition NTP_PACKET_SIZE :: u16 where [cdefs]: "NTP_PACKET_SIZE = 48"
definition NTP_UNIX_EPOCH_DIFF :: u32 where [cdefs]: "NTP_UNIX_EPOCH_DIFF = 2208988800"
definition IST_OFFSET_SECONDS :: u32 where [cdefs]: "IST_OFFSET_SECONDS = 19800"
definition NTP_TIMEOUT_CYCLES :: nat where [cdefs]: "NTP_TIMEOUT_CYCLES = 5000"

section \<open>Operations\<close>

definition ntp_recv_callback :: "u8 list \<Rightarrow> pchain \<Rightarrow> 'a sys_scheme \<Rightarrow> 'a sys_scheme option" where
  "ntp_recv_callback stack p s =
     (if p = [] then Some s
      else let s1 = (if p_tot_len (hd p) \<ge> NTP_PACKET_SIZE
                     then let (bytes, n) = pbuf_copy_partial p NTP_PACKET_SIZE 0;
                              buf = bytes @ drop (length bytes) stack
                          in s\<lparr>ntp_timestamp := push_bit 24 (ucast (buf ! 40)) OR push_bit 16 (ucast (buf ! 41))
                                                OR push_bit 8 (ucast (buf ! 42)) OR ucast (buf ! 43),
                               ntp_response_received := 1\<rparr>
                     else s)
           in do { (n, c, e) \<leftarrow> pbuf_free p (penv s1); Some (s1\<lparr>penv := e\<rparr>) })"

text \<open>The waiting loop.\<close>

fun ntp_wait :: "('a sys_scheme \<Rightarrow> 'a sys_scheme option) \<Rightarrow> nat \<Rightarrow> 'a sys_scheme \<Rightarrow> 'a sys_scheme option" where
  "ntp_wait poll 0 s = Some s"
| "ntp_wait poll (Suc timeout) s =
     (if ntp_response_received s \<noteq> 0 then Some s
      else do { s1 \<leftarrow> poll s; ntp_wait poll timeout s1 })"

definition ntp_to_msg :: "u32 \<Rightarrow> time_msg" where
  "ntp_to_msg ts =
     (let unix_time = ts - NTP_UNIX_EPOCH_DIFF;
          ist_time = unix_time + IST_OFFSET_SECONDS;
          seconds_of_day = ist_time mod 86400
      in \<lparr>hour = ucast (seconds_of_day div 3600),
          minute = ucast ((seconds_of_day mod 3600) div 60),
          second = ucast (seconds_of_day mod 60)\<rparr>)"

definition ntp_request :: "u8 list" where
  "ntp_request = 0x23 # replicate 47 0"

definition server_addr :: u32 where
  "server_addr = IP4_ADDR 162 159 200 1"

definition ntp_fail :: "string \<Rightarrow> nat \<Rightarrow> time_msg \<Rightarrow> 'a sys_scheme \<Rightarrow> (int \<times> time_msg \<times> 'a sys_scheme) option" where
  "ntp_fail text pcb msg s =
     do { s1 \<leftarrow> uart_puts text s; Some (- 1, msg, s1\<lparr>udp := udp_remove pcb (udp s1)\<rparr>) }"

text \<open>After the send: the result of \<open>udp_sendto\<close> is checked, then the client waits.\<close>

definition ntp_await :: "('a sys_scheme \<Rightarrow> 'a sys_scheme option) \<Rightarrow> nat \<Rightarrow> lwip_err \<Rightarrow> time_msg \<Rightarrow> 'a sys_scheme \<Rightarrow> (int \<times> time_msg \<times> 'a sys_scheme) option" where
  "ntp_await poll pcb err msg s =
     (if err \<noteq> ERR_OK
      then do { s1 \<leftarrow> uart_print (''NTP: Send failed (err=%d)'' @ crlf) [AInt (err_code err)] s;
                Some (- 1, msg, s1\<lparr>udp := udp_remove pcb (udp s1)\<rparr>) }
      else do { s1 \<leftarrow> uart_puts (''NTP: Request sent, waiting for response...'' @ crlf) s;
                s2 \<leftarrow> ntp_wait poll NTP_TIMEOUT_CYCLES s1;
                let s3 = s2\<lparr>udp := udp_remove pcb (udp s2)\<rparr> in
                if ntp_response_received s3 = 0
                then do { s4 \<leftarrow> uart_puts (''NTP: Response timeout!'' @ crlf) s3; Some (- 1, msg, s4) }
                else do { s4 \<leftarrow> uart_print (''NTP: Received timestamp = %u (NTP epoch)'' @ crlf) [AUns (ntp_timestamp s3)] s3;
                          let m = ntp_to_msg (ntp_timestamp s4) in
                          do { s5 \<leftarrow> uart_print (''NTP: IST time = %02d:%02d:%02d'' @ crlf)
                                      [AInt (uint (hour m)), AInt (uint (minute m)), AInt (uint (second m))] s4;
                               Some (0, m, s5) } } })"

definition ntp_get_time :: "('a sys_scheme \<Rightarrow> 'a sys_scheme option) \<Rightarrow> net_env \<Rightarrow> time_msg \<Rightarrow> 'a sys_scheme \<Rightarrow> (int \<times> time_msg \<times> 'a sys_scheme) option" where
  "ntp_get_time poll env msg s =
     do { s1 \<leftarrow> uart_puts (''NTP: Sending time request...'' @ crlf) s;
          let s2 = s1\<lparr>ntp_response_received := 0, ntp_timestamp := 0\<rparr> in
          case udp_new (udp s2) of
            (None, u) \<Rightarrow> do { s3 \<leftarrow> uart_puts (''NTP: Failed to create UDP PCB'' @ crlf) (s2\<lparr>udp := u\<rparr>);
                              Some (- 1, msg, s3) }
          | (Some pcb, u) \<Rightarrow>
              let u1 = snd (udp_bind pcb IPADDR_ANY 0 u);
                  s3 = s2\<lparr>udp := udp_recv pcb (Some Ntp_recv_callback) u1\<rparr>
              in do { (p, e) \<leftarrow> pbuf_alloc (env_malloc env) PBUF_TRANSPORT NTP_PACKET_SIZE PBUF_RAM (penv s3);
                      if p = [] then ntp_fail (''NTP: Failed to allocate pbuf'' @ crlf) pcb msg (s3\<lparr>penv := e\<rparr>)
                      else let p1 = pbuf_write (hd p) 0 ntp_request # tl p in
                           do { s4 \<leftarrow> uart_print (''NTP: Sending to %s:%d'' @ crlf)
                                       [AStr (case ip4addr_ntoa server_addr of Some t \<Rightarrow> t | None \<Rightarrow> []), AInt (uint NTP_PORT)]
                                       (s3\<lparr>penv := e\<rparr>);
                                (err, p2, u2, e2) \<leftarrow> udp_sendto (env_malloc env) (env_odd env) (env_out env) (netif_default s4)
                                                       pcb p1 server_addr NTP_PORT (udp s4) (penv s4);
                                (n, c, e3) \<leftarrow> pbuf_free p2 e2;
                                ntp_await poll pcb err msg (s4\<lparr>udp := u2, penv := e3\<rparr>) } } }"

section \<open>The conversion\<close>

lemma ntp_to_msg_fields:
  "let d = unat (ts - NTP_UNIX_EPOCH_DIFF + IST_OFFSET_SECONDS) mod 86400; m = ntp_to_msg ts in
   unat (hour m) = d div 3600 \<and> unat (minute m) = d mod 3600 div 60 \<and> unat (second m) = d mod 60"
proof -
  define w where "w = ts - NTP_UNIX_EPOCH_DIFF + IST_OFFSET_SECONDS"
  define d where "d = unat w mod 86400"
  have d: "d < 86400" by (simp add: d_def)
  have "d div 3600 < 256" using d by linarith
  moreover have "d mod 3600 div 60 < 256" using mod_less_divisor [of 3600 d] by linarith
  moreover have "d mod 60 < 256" using mod_less_divisor [of 60 d] by linarith
  ultimately have "unat (hour (ntp_to_msg ts)) = d div 3600 \<and> unat (minute (ntp_to_msg ts)) = d mod 3600 div 60
      \<and> unat (second (ntp_to_msg ts)) = d mod 60"
    unfolding ntp_to_msg_def Let_def w_def [symmetric]
    by (simp add: unat_ucast_u8 unat_div_word unat_mod_word d_def [symmetric])
  then show ?thesis by (simp add: d_def w_def Let_def)
qed

text \<open>The abstract clock: hours, minutes and seconds of the day of a number of seconds.\<close>

definition clock_of :: "nat \<Rightarrow> nat \<times> nat \<times> nat" where
  "clock_of t = (let d = t mod 86400 in (d div 3600, d mod 3600 div 60, d mod 60))"

definition msg_clock :: "time_msg \<Rightarrow> nat \<times> nat \<times> nat" where
  "msg_clock m = (unat (hour m), unat (minute m), unat (second m))"

lemma msg_clock_ntp: "msg_clock (ntp_to_msg ts) = clock_of (unat (ts - NTP_UNIX_EPOCH_DIFF + IST_OFFSET_SECONDS))"
  using ntp_to_msg_fields [of ts] by (simp add: msg_clock_def clock_of_def Let_def)

lemma clock_of_bounds: "clock_of t = (h, m, s) \<Longrightarrow> h < 24 \<and> m < 60 \<and> s < 60"
proof -
  assume "clock_of t = (h, m, s)"
  moreover have "t mod 86400 < 86400" by simp
  moreover have "t mod 86400 mod 3600 div 60 < 60" by (rule less_mult_imp_div_less) simp
  moreover have "t mod 86400 div 3600 < 24" by (rule less_mult_imp_div_less) simp
  ultimately show ?thesis by (auto simp: clock_of_def Let_def)
qed

section \<open>Properties\<close>

lemma clock_of_inj: "clock_of t = clock_of t' \<Longrightarrow> t mod 86400 = t' mod 86400"
proof -
  have split: "d = d div 3600 * 3600 + d mod 3600 div 60 * 60 + d mod 60" for d :: nat
  proof -
    have "d mod 3600 mod 60 = d mod 60" by (simp add: mod_mod_cancel)
    then have "d mod 3600 = d mod 3600 div 60 * 60 + d mod 60" using div_mult_mod_eq [of "d mod 3600" 60] by simp
    then show ?thesis using div_mult_mod_eq [of d 3600] by linarith
  qed
  assume "clock_of t = clock_of t'"
  then show ?thesis using split [of "t mod 86400"] split [of "t' mod 86400"] by (simp add: clock_of_def Let_def)
qed

lemma ntp_word_of_unix:
  "T < 4294967296 \<Longrightarrow> unat (of_nat (T + 2208988800) - NTP_UNIX_EPOCH_DIFF + IST_OFFSET_SECONDS :: u32) = (T + 19800) mod 4294967296"
proof -
  assume "T < 4294967296"
  have "of_nat (T + 2208988800) - NTP_UNIX_EPOCH_DIFF + IST_OFFSET_SECONDS = (of_nat (T + 19800) :: u32)"
    by (simp add: cdefs)
  then show ?thesis by (simp only: unat_of_nat_u32)
qed

text \<open>
  C8. The conversion is exact: for a Unix time \<open>T\<close> the client turns the NTP timestamp of
  \<open>T\<close>, which wraps around in 2036, into hour, minute and second of \<open>T\<close> in Indian
  Standard Time, for every \<open>T\<close> up to 2106.
\<close>

theorem ntp_conversion_exact:
  assumes "T + 19800 < 2 ^ 32"
  shows "msg_clock (ntp_to_msg (of_nat (T + 2208988800))) = clock_of (T + 19800)"
  using ntp_word_of_unix [of T] assms by (simp add: msg_clock_ntp)

theorem ntp_conversion_exact_witness:
  "msg_clock (ntp_to_msg 3908988800) = (3, 43, 20)"
  using ntp_conversion_exact [of 1700000000] by (simp add: clock_of_def)

text \<open>
  C28. From 2106 on the 32-bit sum of time and offset overflows: for the last 19800 seconds of
  the 32-bit Unix range the announced time is not the time of day in Indian Standard Time.
\<close>

theorem ntp_conversion_wraps_2106:
  assumes "T < 2 ^ 32" and "2 ^ 32 \<le> T + 19800"
  shows "msg_clock (ntp_to_msg (of_nat (T + 2208988800))) \<noteq> clock_of (T + 19800)"
proof
  define d where "d = T + 19800 - 4294967296"
  have d: "T + 19800 = d + 4294967296" "d < 19800" using assms by (simp_all add: d_def)
  assume "msg_clock (ntp_to_msg (of_nat (T + 2208988800))) = clock_of (T + 19800)"
  then have "clock_of ((T + 19800) mod 4294967296) = clock_of (T + 19800)"
    using ntp_word_of_unix [of T] assms(1) by (simp add: msg_clock_ntp)
  moreover have "(T + 19800) mod 4294967296 = d" using d by (simp add: d(1))
  ultimately have "d mod 86400 = (d + 4294967296) mod 86400" using clock_of_inj d(1) by metis
  moreover have "(d + 4294967296) mod 86400 = (d + 23296) mod 86400"
    using mod_mult_self1 [of "d + 23296" 49710 86400] by (simp add: add.commute)
  ultimately show False using d(2) by simp
qed

theorem ntp_conversion_wraps_2106_witness:
  "msg_clock (ntp_to_msg (of_nat (4294967295 + 2208988800))) \<noteq> clock_of (4294967295 + 19800)"
  by (rule ntp_conversion_wraps_2106) simp_all

text \<open>
  Every timestamp gives an hour below 24 and minute and second below 60, the ranges of
  \<open>time_msg.h\<close>, so every announced number has a word in the table.
\<close>

theorem ntp_time_in_range:
  "unat (hour (ntp_to_msg ts)) < 24 \<and> unat (minute (ntp_to_msg ts)) < 60 \<and> unat (second (ntp_to_msg ts)) < 60"
  using clock_of_bounds msg_clock_ntp [of ts] unfolding msg_clock_def by metis

end
