(* ===== verification/Ntp_Proofs.thy ===== *)
theory Ntp_Proofs
  imports Ntp_Client
begin

text \<open>
  What a call of \<open>ntp_get_time\<close> does. The locale \<open>ntp_polling\<close> states what the client relies
  on in the function it polls with: it returns, keeps the control blocks in use and free, and
  its invariant does not depend on what the client itself changes. Under it every call
  returns, reports failure without touching the message and gives its control block back,
  and a response within the timeout is taken. It is interpreted on the real
  \<open>lwip_periodic_handle\<close> in \<open>Network\<close>.
\<close>

section \<open>Frames\<close>

text \<open>Console output touches nothing else.\<close>

lemma emits_sys [simp]:
  assumes "uart_emits s t s'"
  shows "ntp_response_received s' = ntp_response_received (s :: 'a sys_scheme)" "ntp_timestamp s' = ntp_timestamp s"
    "udp s' = udp s" "penv s' = penv s" "netif_default s' = netif_default s" "sys.more s' = sys.more s"
  using assms by (auto simp: uart_emits_def)

lemma nul_free_lit [simp]: "nul_free crlf" "nul_free (a @ b) \<longleftrightarrow> nul_free a \<and> nul_free b"
  by (auto simp: nul_free_def crlf_def)

section \<open>Live buffers\<close>

lemma live_upd [simp]:
  "pbuf_live (p\<lparr>p_payload := x\<rparr>) = pbuf_live p" "pbuf_live (p\<lparr>p_len := l\<rparr>) = pbuf_live p"
  "pbuf_live (p\<lparr>p_tot_len := l\<rparr>) = pbuf_live p"
  by (simp_all add: pbuf_live_def pbuf_get_allocsrc_def)

lemma remove_header_live: "pbuf_live (snd (pbuf_remove_header p n)) = pbuf_live p"
  by (simp add: pbuf_remove_header_def Let_def)

lemma add_header_live: "pbuf_live (snd (pbuf_add_header_impl p n f)) = pbuf_live p"
  by (simp add: pbuf_add_header_impl_def Let_def)

lemma header_live: "pbuf_live (snd (pbuf_header_force p n)) = pbuf_live p"
  by (simp add: pbuf_header_force_def pbuf_header_impl_def remove_header_live add_header_live)

lemma pbuf_free_returns: "list_all pbuf_live c \<Longrightarrow> c \<noteq> [] \<Longrightarrow> \<exists>n r e'. pbuf_free c e = Some (n, r, e')"
  using free_loop_returns [of c 0 e] by (auto simp: pbuf_free_def)

section \<open>Sending returns\<close>

text \<open>
  IP output hands the packet down and leaves its buffers to the caller: the same pbufs,
  though header and payload pointer may have moved.
\<close>

definition same_buffer :: "pbuf \<Rightarrow> pbuf \<Rightarrow> bool" where
  "same_buffer p q \<longleftrightarrow> p_type q = p_type p \<and> p_flags q = p_flags p \<and> p_ref q = p_ref p"

definition out_ok :: "ip_out \<Rightarrow> bool" where
  "out_ok out \<longleftrightarrow> (\<forall>q src dst ttl tos proto. list_all2 same_buffer q (snd (out q src dst ttl tos proto)))"

lemma same_buffer_live: "same_buffer p q \<Longrightarrow> pbuf_live q = pbuf_live p"
  by (simp add: same_buffer_def pbuf_live_def pbuf_get_allocsrc_def)

lemma same_buffer_refl: "same_buffer p p"
  by (simp add: same_buffer_def)

lemma same_buffer_trans: "same_buffer p q \<Longrightarrow> same_buffer q r \<Longrightarrow> same_buffer p r"
  by (simp add: same_buffer_def)

lemma add_header_same: "same_buffer p (snd (pbuf_add_header_impl p n f))"
  by (simp add: pbuf_add_header_impl_def same_buffer_def Let_def)

lemma write_same: "same_buffer p (pbuf_write p off bs)"
  by (simp add: pbuf_write_def same_buffer_def Let_def)

lemma write_live: "pbuf_live (pbuf_write p off bs) = pbuf_live p"
  by (simp add: pbuf_write_def Let_def pbuf_live_def pbuf_get_allocsrc_def)

lemma udp_sendto_if_src_returns:
  assumes "pbuf_add_header h 8 = (0, h')" and "8 \<le> unat (p_len h')" and "out_ok out"
    and "pcb \<notin> set (udp_free u)"
  shows "\<exists>err p2 u2. udp_sendto_if_src mm o1 out pcb (h # t) dst dp src u e = Some (err, p2, u2, e)
     \<and> list_all2 same_buffer (h # t) p2 \<and> udp_free u2 = udp_free u
     \<and> (udp_pcbs u2 = udp_pcbs u \<or> pcb \<notin> set (udp_pcbs u) \<and> udp_pcbs u2 = pcb # udp_pcbs u)"
proof -
  obtain err u1 where b: "(if local_port (pcb_at u pcb) = 0
      then udp_bind pcb (local_ip (pcb_at u pcb)) (local_port (pcb_at u pcb)) u else (ERR_OK, u)) = (err, u1)" by fastforce
  have u1: "udp_free u1 = udp_free u \<and> (udp_pcbs u1 = udp_pcbs u \<or> pcb \<notin> set (udp_pcbs u) \<and> udp_pcbs u1 = pcb # udp_pcbs u)"
  proof (cases "local_port (pcb_at u pcb) = 0")
    case True
    with b have "udp_bind pcb (local_ip (pcb_at u pcb)) 0 u = (err, u1)" by simp
    from udp_bind_lists [OF this] show ?thesis by (auto split: if_splits)
  qed (use b in auto)
  have len: "\<not> p_len h' < UDP_HLEN" using assms(2) by (simp add: word_less_nat_alt cdefs)
  have same: "list_all2 same_buffer (h # t) (snd (out (put_udp_hdr a c l k h' # t) src dst tt ts pr))" for a c l k tt ts pr
  proof -
    have "same_buffer h h'" using add_header_same [of h 8 False] assms(1) by (simp add: pbuf_add_header_def)
    then have "list_all2 same_buffer (h # t) (put_udp_hdr a c l k h' # t)"
      using same_buffer_trans [OF _ write_same] by (simp add: put_udp_hdr_def list_all2_same same_buffer_refl)
    moreover have "list_all2 same_buffer (put_udp_hdr a c l k h' # t) (snd (out (put_udp_hdr a c l k h' # t) src dst tt ts pr))"
      using assms(3) by (simp add: out_ok_def)
    ultimately show ?thesis using list_all2_trans [of same_buffer same_buffer same_buffer] same_buffer_trans by blast
  qed
  show ?thesis
  proof (cases "err = ERR_OK \<and> \<not> p_tot_len h + UDP_HLEN < p_tot_len h")
    case False
    then show ?thesis unfolding udp_sendto_if_src_def udp_output_def b using u1 by (auto simp: list_all2_same same_buffer_refl)
  next
    case True
    have pre: "udp_prepend mm (h # t) e = Some (Some (h' # t, False), e)"
      using assms(1) by (simp add: udp_prepend_def UDP_HLEN_def)
    show ?thesis
      unfolding udp_sendto_if_src_def udp_output_def b using True len u1 same
      by (auto simp: pre Let_def split: prod.split) (metis snd_conv)+
  qed
qed

lemma udp_sendto_returns:
  assumes "pbuf_add_header h 8 = (0, h')" and "8 \<le> unat (p_len h')" and "out_ok out"
    and "pcb \<notin> set (udp_free u)"
  shows "\<exists>err p2 u2. udp_sendto mm o1 out nif pcb (h # t) dst dp u e = Some (err, p2, u2, e)
     \<and> list_all2 same_buffer (h # t) p2 \<and> udp_free u2 = udp_free u
     \<and> (udp_pcbs u2 = udp_pcbs u \<or> pcb \<notin> set (udp_pcbs u) \<and> udp_pcbs u2 = pcb # udp_pcbs u)"
  using udp_sendto_if_src_returns [OF assms, of mm o1 t dst dp _ e]
  by (auto simp: udp_sendto_def udp_sendto_if_def Let_def list_all2_same same_buffer_refl split: option.split)

text \<open>The request pbuf: 48 bytes behind 56 bytes of headroom, if the heap has 120 bytes.\<close>

definition request_pbuf :: "u8 list \<Rightarrow> pbuf" where
  "request_pbuf m = pbuf_init_alloced_pbuf m 56 48 48 PBUF_RAM 0"

lemma ntp_alloc:
  "pbuf_alloc mm PBUF_TRANSPORT NTP_PACKET_SIZE PBUF_RAM e =
     (case mm 120 of None \<Rightarrow> Some ([], e) | Some m \<Rightarrow> Some ([request_pbuf m], e))"
  by (simp add: pbuf_alloc_def PBUF_TRANSPORT_def NTP_PACKET_SIZE_def PBUF_RAM_def PBUF_REF_def PBUF_ROM_def
      PBUF_POOL_def LWIP_MEM_ALIGN_SIZE_def request_pbuf_def split: option.split)

lemma request_add_header:
  "\<exists>h'. pbuf_add_header (pbuf_write (request_pbuf m) 0 bs) 8 = (0, h') \<and> 8 \<le> unat (p_len h')"
  by (simp add: request_pbuf_def pbuf_init_alloced_pbuf_def pbuf_write_def pbuf_add_header_def
      pbuf_add_header_impl_def cdefs)

lemma request_live: "pbuf_live (pbuf_write (request_pbuf m) 0 bs)"
  by (simp add: write_live) (simp add: request_pbuf_def pbuf_init_alloced_pbuf_def pbuf_live_def pbuf_get_allocsrc_def cdefs)

section \<open>The whole call\<close>

text \<open>While the call runs, its slot is out of the pool and at most once on the active list.\<close>

definition pcb_held :: "nat \<Rightarrow> nat multiset \<Rightarrow> nat list \<Rightarrow> udp_cb udp_state \<Rightarrow> bool" where
  "pcb_held pcb P F u \<longleftrightarrow> udp_free u = F \<and> (mset (udp_pcbs u) = P \<or> mset (udp_pcbs u) = add_mset pcb P)"

lemma pcb_held_remove:
  "pcb_held pcb P F u \<Longrightarrow> pcb \<notin># P \<Longrightarrow> mset (udp_pcbs (udp_remove pcb u)) = P \<and> udp_free (udp_remove pcb u) = pcb # F"
  by (auto simp: pcb_held_def udp_remove_def diff_single_trivial)

text \<open>What a poll keeps, and what the client leaves alone.\<close>

definition polled :: "'a sys_scheme \<Rightarrow> 'a sys_scheme \<Rightarrow> bool" where
  "polled s s' \<longleftrightarrow> uart_ready s' \<and> udp_free (udp s') = udp_free (udp s)
     \<and> mset (udp_pcbs (udp s')) = mset (udp_pcbs (udp s)) \<and> pcb_at (udp s') = pcb_at (udp s)"

definition client_step :: "'a sys_scheme \<Rightarrow> 'a sys_scheme \<Rightarrow> bool" where
  "client_step s s' \<longleftrightarrow> reg_in s' = reg_in s \<and> reg_n s' = reg_n s \<and> netif_default s' = netif_default s
     \<and> pool (penv s') = pool (penv s) \<and> sys.more s' = sys.more s"

lemma polled_trans: "polled s s' \<Longrightarrow> polled s' s'' \<Longrightarrow> polled s s''"
  by (simp add: polled_def)

lemma client_emits: "uart_emits s t s' \<Longrightarrow> client_step s s'"
  by (auto simp: client_step_def uart_emits_def)

lemma client_upd:
  "client_step s (s\<lparr>udp := u\<rparr>)" "client_step s (s\<lparr>ntp_response_received := r, ntp_timestamp := t\<rparr>)"
  "pool e = pool (penv s) \<Longrightarrow> client_step s (s\<lparr>udp := u, penv := e\<rparr>)"
  by (simp_all add: client_step_def)

lemma client_trans: "client_step s s' \<Longrightarrow> client_step s' s'' \<Longrightarrow> client_step s s''"
  by (simp add: client_step_def)

lemma uart_ready_upd [simp]:
  "uart_ready (s\<lparr>udp := u\<rparr>) = uart_ready (s :: 'a sys_scheme)" "uart_ready (s\<lparr>penv := e\<rparr>) = uart_ready s"
  "uart_ready (s\<lparr>ntp_timestamp := t\<rparr>) = uart_ready s" "uart_ready (s\<lparr>ntp_response_received := x\<rparr>) = uart_ready s"
  by (simp_all add: uart_ready_def)

lemma nul_free_code: "nul_free [] = True" "nul_free (c # s) = (c \<noteq> CHR 0x00 \<and> nul_free s)"
  by (auto simp: nul_free_def)

text \<open>A console message of the client.\<close>

definition said :: "'a sys_scheme \<Rightarrow> 'a sys_scheme \<Rightarrow> bool" where
  "said s s' \<longleftrightarrow> uart_ready s' \<and> client_step s s' \<and> udp s' = udp s \<and> penv s' = penv s \<and> netif_default s' = netif_default s
     \<and> ntp_timestamp s' = ntp_timestamp s \<and> ntp_response_received s' = ntp_response_received s"

lemma puts_said: "uart_ready s \<Longrightarrow> nul_free t \<Longrightarrow> \<exists>s'. uart_puts t s = Some s' \<and> said s s'"
  using uart_puts_runs [of s t] client_emits by (fastforce simp: said_def)

lemma print_said:
  "uart_ready s \<Longrightarrow> nul_free fmt \<Longrightarrow> list_all parg_nul_free args \<Longrightarrow> \<exists>s'. uart_print fmt args s = Some s' \<and> said s s'"
  using uart_print_runs [of s fmt args] client_emits by (fastforce simp: said_def)

text \<open>What every call comes to: \<open>I\<close> is what holds of the state it leaves.\<close>

definition call_ok :: "('a sys_scheme \<Rightarrow> bool) \<Rightarrow> time_msg \<Rightarrow> nat multiset \<Rightarrow> nat list \<Rightarrow> (int \<times> time_msg \<times> 'a sys_scheme) option \<Rightarrow> bool" where
  "call_ok I msg P F res \<longleftrightarrow> (\<exists>r m s'. res = Some (r, m, s') \<and> (r = 0 \<and> m = ntp_to_msg (ntp_timestamp s') \<or> r = - 1 \<and> m = msg)
     \<and> mset (udp_pcbs (udp s')) = P \<and> udp_free (udp s') = F \<and> uart_ready s' \<and> I s')"

lemma pcb_held_polled: "polled s s' \<Longrightarrow> pcb_held pcb P F (udp s) \<Longrightarrow> pcb_held pcb P F (udp s')"
  by (simp add: polled_def pcb_held_def)

text \<open>The pcb the call sets up: new, bound to any address, with the callback installed.\<close>

definition ntp_pcb_setup :: "nat \<Rightarrow> udp_cb udp_state \<Rightarrow> udp_cb udp_state" where
  "ntp_pcb_setup pcb u = udp_recv pcb (Some Ntp_recv_callback) (snd (udp_bind pcb IPADDR_ANY 0 u))"

lemma ntp_pcb_setup_held:
  assumes "udp_new u0 = (Some pcb, u)" and "udp_wf u0"
  shows "pcb_held pcb (mset (udp_pcbs u0)) (udp_free u) (ntp_pcb_setup pcb u)
     \<and> pcb \<notin># mset (udp_pcbs u0) \<and> pcb \<notin> set (udp_free u) \<and> udp_free u0 = pcb # udp_free u"
proof -
  obtain err u1 where b: "udp_bind pcb IPADDR_ANY 0 u = (err, u1)" by fastforce
  have "udp_pcbs u = udp_pcbs u0" using assms(1) by (auto simp: udp_new_def split: list.splits)
  then show ?thesis
    using udp_bind_lists [OF b] udp_new_wf [OF assms]
    by (auto simp: ntp_pcb_setup_def b udp_recv_def pcb_held_def)
qed

lemma dotted_nul_free: "nul_free (case ip4addr_ntoa a of Some t \<Rightarrow> t | None \<Rightarrow> [])"
proof -
  have "nul_free (rev (ntoa_inv b))" for b
  proof (induction b rule: ntoa_inv.induct)
    case (1 b)
    have "unat (b mod 10) < 10" by (simp add: unat_mod_word)
    then have "char_of (48 + unat (b mod 10)) \<noteq> CHR 0x00" by (intro char_of_nz) auto
    with 1 show ?case by (subst ntoa_inv.simps) (auto simp: nul_free_def Let_def)
  qed
  then show ?thesis using length_dotted [of a]
    by (simp add: ip4addr_ntoa_def ntoa_r_spec dotted_def nul_free_code)
qed

lemma request_free:
  assumes "list_all2 same_buffer [pbuf_write (request_pbuf m) 0 bs] c"
  shows "\<exists>n r e'. pbuf_free c e = Some (n, r, e') \<and> pool e' = pool e"
proof -
  obtain q where c: "c = [q]" and q: "same_buffer (request_pbuf m) q"
    using assms same_buffer_trans [OF write_same] by (cases c) (auto simp: list_all2_Cons1)
  have "p_type q = PBUF_RAM" "p_flags q = 0" "p_ref q = 1" using q by (simp_all add: same_buffer_def request_pbuf_def pbuf_init_alloced_pbuf_def)
  then show ?thesis by (simp add: c pbuf_free_def pbuf_dealloc_def pbuf_get_allocsrc_def cdefs)
qed

definition be32 :: "u8 list \<Rightarrow> u32" where
  "be32 bs = push_bit 24 (ucast (bs ! 0)) OR push_bit 16 (ucast (bs ! 1)) OR push_bit 8 (ucast (bs ! 2)) OR ucast (bs ! 3)"

lemma ntp_callback_spec:
  assumes "chain_ok p" and "list_all pbuf_live p" and "48 \<le> length (chain_bytes p)"
  shows "\<exists>e. ntp_recv_callback stack p s =
     Some (s\<lparr>penv := e, ntp_timestamp := be32 (drop 40 (chain_bytes p)), ntp_response_received := 1\<rparr>)"
proof -
  have ne: "p \<noteq> []" using assms(3) by auto
  obtain n c e where fr: "pbuf_free p (penv s) = Some (n, c, e)" using pbuf_free_returns assms(2) ne by blast
  have "NTP_PACKET_SIZE \<le> p_tot_len (hd p)"
    using tot_len_bytes [OF assms(1) ne] assms(3) by (simp add: word_le_nat_alt cdefs)
  moreover have "pbuf_copy_partial p NTP_PACKET_SIZE 0 = (take 48 (chain_bytes p), of_nat (min (length (chain_bytes p)) 48))"
    using copy_partial_spec [OF chain_ok_all [OF assms(1)], of NTP_PACKET_SIZE 0] by (simp add: cdefs Let_def)
  ultimately show ?thesis
    using ne fr assms(3) by (intro exI [of _ e]) (simp add: ntp_recv_callback_def Let_def be32_def nth_append)
qed

definition only_client :: "nat \<Rightarrow> udp_cb udp_state \<Rightarrow> bool" where
  "only_client pcb u \<longleftrightarrow> (\<forall>i\<in>set (udp_pcbs u). recv (pcb_at u i) = Some Ntp_recv_callback \<longrightarrow> i = pcb)"

text \<open>The client's pcb during the wait; polls keep this.\<close>

definition awaiting :: "nat \<Rightarrow> u16 \<Rightarrow> udp_cb udp_state \<Rightarrow> bool" where
  "awaiting pcb lp u \<longleftrightarrow> listens u pcb lp Ntp_recv_callback \<and> only_client pcb u"

lemma awaiting_polled: "polled s s' \<Longrightarrow> awaiting pcb lp (udp s) \<Longrightarrow> awaiting pcb lp (udp s')"
proof -
  assume f: "polled s s'" and a: "awaiting pcb lp (udp s)"
  have m: "mset (udp_pcbs (udp s')) = mset (udp_pcbs (udp s))" and p: "pcb_at (udp s') = pcb_at (udp s)"
    using f by (auto simp: polled_def)
  have "set (udp_pcbs (udp s')) = set (udp_pcbs (udp s))" "distinct (udp_pcbs (udp s')) = distinct (udp_pcbs (udp s))"
    using m mset_eq_setD mset_eq_imp_distinct_iff by blast+
  then show ?thesis using a unfolding awaiting_def listens_def only_client_def p by simp
qed

lemma udp_sendto_bound:
  assumes "pbuf_add_header h 8 = (0, h')" and "8 \<le> unat (p_len h')" and "\<not> p_tot_len h + 8 < p_tot_len h"
    and "local_port (pcb_at u pcb) \<noteq> 0" and "local_ip (pcb_at u pcb) = IPADDR_ANY" and "netif_idx (pcb_at u pcb) = 0"
    and "ip4_route nif dst = Some n"
  shows "\<exists>q. udp_sendto mm o1 out nif pcb (h # t) dst dp u e =
     (let (err, q2) = out (put_udp_hdr (local_port (pcb_at u pcb)) dp (p_tot_len h') q h' # t)
                        (ip_addr n) dst (ttl (pcb_at u pcb)) (tos (pcb_at u pcb)) IP_PROTO_UDP
      in Some (err, q2, u, e))"
proof -
  have "\<not> p_len h' < 8" using assms(2) by (simp add: word_less_nat_alt)
  then show ?thesis
    using assms
    by (simp add: udp_sendto_def udp_sendto_if_def udp_sendto_if_src_def udp_output_def udp_prepend_def UDP_HLEN_def Let_def)
      (metis (no_types))
qed

lemma ntp_pcb_setup_awaiting:
  assumes "udp_new u0 = (Some pcb, u)" and "udp_wf u0" and "length (udp_pcbs u0) < 0x4000" and "0xC000 \<le> udp_port u0"
    and "\<forall>i\<in>set (udp_pcbs u0). recv (pcb_at u0 i) \<noteq> Some Ntp_recv_callback"
  shows "awaiting pcb (fst (udp_new_port u0)) (ntp_pcb_setup pcb u) \<and> fst (udp_new_port u0) \<noteq> 0
     \<and> local_ip (pcb_at (ntp_pcb_setup pcb u) pcb) = IPADDR_ANY \<and> netif_idx (pcb_at (ntp_pcb_setup pcb u) pcb) = 0"
proof -
  have u: "udp_pcbs u = udp_pcbs u0" "udp_port u = udp_port u0" "pcb_at u = (pcb_at u0)(pcb := new_udp_pcb)"
    "pcb \<notin> set (udp_pcbs u0)" "distinct (udp_pcbs u0)"
    using assms(1,2) by (auto simp: udp_new_def udp_wf_def split: list.splits)
  have eq: "map (\<lambda>i. local_port (pcb_at u i)) (udp_pcbs u) = map (\<lambda>i. local_port (pcb_at u0 i)) (udp_pcbs u0)"
    using u by auto
  obtain p where p: "udp_new_port u = (p, u\<lparr>udp_port := p\<rparr>)" "0xC000 \<le> p" "\<forall>i\<in>set (udp_pcbs u). local_port (pcb_at u i) \<noteq> p"
    using udp_new_port_fresh [of u] assms(3,4) u(1,2) by auto
  have port: "fst (udp_new_port u0) = p" using p(1) eq u(2) by (simp add: udp_new_port_def split: prod.splits)
  have nz: "p \<noteq> 0" using p(2) by auto
  have "udp_bind pcb IPADDR_ANY 0 u = (ERR_OK, (upd_pcb pcb (\<lambda>x. x\<lparr>local_ip := IPADDR_ANY, local_port := p\<rparr>) (u\<lparr>udp_port := p\<rparr>))
      \<lparr>udp_pcbs := pcb # udp_pcbs u0\<rparr>)"
    using p(1) nz u by (simp add: udp_bind_def Let_def)
  then show ?thesis
    using nz p(3) u assms(5)
    by (auto simp: port ntp_pcb_setup_def udp_recv_def awaiting_def listens_def only_client_def upd_pcb_def new_udp_pcb_def)
qed

lemma udp_new_slot: "udp_free u \<noteq> [] \<Longrightarrow> \<exists>pcb v. udp_new u = (Some pcb, v)"
  by (cases "udp_free u") (simp_all add: udp_new_def)

text \<open>The calls of \<open>ntp_get_time\<close> up to the wait.\<close>

lemma ntp_get_time_start:
  assumes "uart_ready s"
  shows "\<exists>s2. said (s\<lparr>ntp_response_received := 0, ntp_timestamp := 0\<rparr>) s2 \<and> ntp_get_time poll env msg s =
     (case udp_new (udp s) of
        (None, u) \<Rightarrow> do { s3 \<leftarrow> uart_puts (''NTP: Failed to create UDP PCB'' @ crlf) (s2\<lparr>udp := u\<rparr>); Some (- 1, msg, s3) }
      | (Some pcb, u) \<Rightarrow>
          let s3 = s2\<lparr>udp := ntp_pcb_setup pcb u\<rparr> in
          case env_malloc env 120 of
            None \<Rightarrow> ntp_fail (''NTP: Failed to allocate pbuf'' @ crlf) pcb msg s3
          | Some m \<Rightarrow>
              do { s4 \<leftarrow> uart_print (''NTP: Sending to %s:%d'' @ crlf)
                          [AStr (case ip4addr_ntoa server_addr of Some t \<Rightarrow> t | None \<Rightarrow> []), AInt (uint NTP_PORT)] s3;
                   (err, p2, u2, e2) \<leftarrow> udp_sendto (env_malloc env) (env_odd env) (env_out env) (netif_default s4)
                                          pcb [pbuf_write (request_pbuf m) 0 ntp_request] server_addr NTP_PORT (udp s4) (penv s4);
                   (n, c, e3) \<leftarrow> pbuf_free p2 e2;
                   ntp_await poll pcb err msg (s4\<lparr>udp := u2, penv := e3\<rparr>) })"
proof -
  obtain s1 where s1: "uart_puts (''NTP: Sending time request...'' @ crlf) s = Some s1" "said s s1"
    using puts_said [OF assms, of "''NTP: Sending time request...'' @ crlf"] by (auto simp: nul_free_code)
  let ?s2 = "s1\<lparr>ntp_response_received := 0, ntp_timestamp := 0\<rparr>"
  have "said (s\<lparr>ntp_response_received := 0, ntp_timestamp := 0\<rparr>) ?s2" using s1(2) by (simp add: said_def client_step_def)
  moreover have "udp ?s2 = udp s" using s1(2) by (simp add: said_def)
  ultimately show ?thesis using s1(1)
    by (intro exI [of _ ?s2]) (simp add: ntp_get_time_def ntp_pcb_setup_def ntp_alloc Let_def split: prod.split option.split)
qed

lemma said_reset: "said (s\<lparr>ntp_response_received := r, ntp_timestamp := t\<rparr>) s' \<Longrightarrow>
    client_step s s' \<and> uart_ready s' \<and> udp s' = udp s \<and> netif_default s' = netif_default s \<and> ntp_response_received s' = r"
  by (simp add: said_def client_step_def)

lemma ntp_get_time_no_pcb:
  assumes "uart_ready s" and "udp_new (udp s) = (None, u)"
  shows "\<exists>s'. ntp_get_time poll env msg s = Some (- 1, msg, s') \<and> client_step s s' \<and> uart_ready s' \<and> udp s' = udp s"
proof -
  obtain s2 where s2: "said (s\<lparr>ntp_response_received := 0, ntp_timestamp := 0\<rparr>) s2"
    "ntp_get_time poll env msg s = do { s3 \<leftarrow> uart_puts (''NTP: Failed to create UDP PCB'' @ crlf) (s2\<lparr>udp := u\<rparr>); Some (- 1, msg, s3) }"
    using ntp_get_time_start [OF assms(1), of poll env msg] assms(2) by auto
  have u: "u = udp s" using assms(2) by (auto simp: udp_new_def split: list.splits)
  have "uart_ready (s2\<lparr>udp := u\<rparr>)" using s2(1) by (simp add: said_def)
  then obtain s3 where "uart_puts (''NTP: Failed to create UDP PCB'' @ crlf) (s2\<lparr>udp := u\<rparr>) = Some s3" "said (s2\<lparr>udp := u\<rparr>) s3"
    using puts_said [of "s2\<lparr>udp := u\<rparr>" "''NTP: Failed to create UDP PCB'' @ crlf"] by (auto simp: nul_free_code)
  then show ?thesis using s2 u said_reset [OF s2(1)] by (auto simp: said_def client_step_def)
qed

lemma ntp_get_time_no_heap:
  assumes "uart_ready s" and "udp_new (udp s) = (Some pcb, u)" and "env_malloc env 120 = None"
  shows "\<exists>s3. ntp_get_time poll env msg s = ntp_fail (''NTP: Failed to allocate pbuf'' @ crlf) pcb msg s3 \<and> client_step s s3
     \<and> uart_ready s3 \<and> udp s3 = ntp_pcb_setup pcb u"
proof -
  obtain s2 where s2: "said (s\<lparr>ntp_response_received := 0, ntp_timestamp := 0\<rparr>) s2"
    "ntp_get_time poll env msg s = ntp_fail (''NTP: Failed to allocate pbuf'' @ crlf) pcb msg (s2\<lparr>udp := ntp_pcb_setup pcb u\<rparr>)"
    using ntp_get_time_start [OF assms(1), of poll env msg] assms(2,3) by (auto simp: Let_def)
  then show ?thesis using said_reset [OF s2(1)] by (intro exI [of _ "s2\<lparr>udp := ntp_pcb_setup pcb u\<rparr>"]) (simp add: client_step_def)
qed

lemma ntp_get_time_sends:
  assumes "uart_ready s" and "udp_new (udp s) = (Some pcb, u)" and "env_malloc env 120 = Some m" and "out_ok (env_out env)"
    and "pcb \<notin> set (udp_free (ntp_pcb_setup pcb u))"
  shows "\<exists>err s5. ntp_get_time poll env msg s = ntp_await poll pcb err msg s5 \<and> client_step s s5 \<and> uart_ready s5
     \<and> ntp_response_received s5 = 0 \<and> udp_free (udp s5) = udp_free (ntp_pcb_setup pcb u)
     \<and> (udp_pcbs (udp s5) = udp_pcbs (ntp_pcb_setup pcb u)
        \<or> pcb \<notin> set (udp_pcbs (ntp_pcb_setup pcb u)) \<and> udp_pcbs (udp s5) = pcb # udp_pcbs (ntp_pcb_setup pcb u))
     \<and> (local_port (pcb_at (ntp_pcb_setup pcb u) pcb) \<noteq> 0 \<and> local_ip (pcb_at (ntp_pcb_setup pcb u) pcb) = IPADDR_ANY
        \<and> netif_idx (pcb_at (ntp_pcb_setup pcb u) pcb) = 0 \<and> ip4_route (netif_default s) server_addr \<noteq> None
        \<and> (\<forall>q a b c d e. fst (env_out env q a b c d e) = ERR_OK) \<longrightarrow> err = ERR_OK \<and> udp s5 = ntp_pcb_setup pcb u)"
proof -
  let ?u = "ntp_pcb_setup pcb u" and ?h = "pbuf_write (request_pbuf m) 0 ntp_request"
  let ?args = "[AStr (case ip4addr_ntoa server_addr of Some t \<Rightarrow> t | None \<Rightarrow> []), AInt (uint NTP_PORT)]"
  obtain s2 where s2: "said (s\<lparr>ntp_response_received := 0, ntp_timestamp := 0\<rparr>) s2"
    and run: "ntp_get_time poll env msg s =
       do { s4 \<leftarrow> uart_print (''NTP: Sending to %s:%d'' @ crlf) ?args (s2\<lparr>udp := ?u\<rparr>);
            (err, p2, u2, e2) \<leftarrow> udp_sendto (env_malloc env) (env_odd env) (env_out env) (netif_default s4) pcb [?h] server_addr NTP_PORT (udp s4) (penv s4);
            (n, c, e3) \<leftarrow> pbuf_free p2 e2;
            ntp_await poll pcb err msg (s4\<lparr>udp := u2, penv := e3\<rparr>) }"
    using ntp_get_time_start [OF assms(1), of poll env msg] assms(2,3) by (auto simp: Let_def)
  note r2 = said_reset [OF s2]
  have "uart_ready (s2\<lparr>udp := ?u\<rparr>)" using r2 by simp
  then obtain s4 where s4: "uart_print (''NTP: Sending to %s:%d'' @ crlf) ?args (s2\<lparr>udp := ?u\<rparr>) = Some s4" "said (s2\<lparr>udp := ?u\<rparr>) s4"
    using print_said [of "s2\<lparr>udp := ?u\<rparr>" "''NTP: Sending to %s:%d'' @ crlf" ?args] by (auto simp: nul_free_code dotted_nul_free)
  have u4: "udp s4 = ?u" "netif_default s4 = netif_default s" "client_step s s4" "uart_ready s4" "ntp_response_received s4 = 0"
    using s4(2) r2 by (auto simp: said_def client_step_def)
  obtain h' where h': "pbuf_add_header ?h 8 = (0, h')" "8 \<le> unat (p_len h')" using request_add_header by blast
  obtain err p2 u2 where snd: "udp_sendto (env_malloc env) (env_odd env) (env_out env) (netif_default s4)
      pcb [?h] server_addr NTP_PORT (udp s4) (penv s4) = Some (err, p2, u2, penv s4)" "list_all2 same_buffer [?h] p2"
    and u2: "udp_free u2 = udp_free ?u" "udp_pcbs u2 = udp_pcbs ?u \<or> pcb \<notin> set (udp_pcbs ?u) \<and> udp_pcbs u2 = pcb # udp_pcbs ?u"
    using udp_sendto_returns [OF h' assms(4), of pcb "udp s4" "env_malloc env" "env_odd env" "netif_default s4" "[]" server_addr NTP_PORT "penv s4"]
      assms(5) u4(1) by auto
  obtain k c e3 where fr: "pbuf_free p2 (penv s4) = Some (k, c, e3)" "pool e3 = pool (penv s4)" using request_free [OF snd(2)] by blast
  let ?s5 = "s4\<lparr>udp := u2, penv := e3\<rparr>"
  have cs: "client_step s ?s5" using client_trans [OF u4(3) client_upd(3)] fr(2) by blast
  have "err = ERR_OK \<and> u2 = ?u" if b: "local_port (pcb_at ?u pcb) \<noteq> 0" "local_ip (pcb_at ?u pcb) = IPADDR_ANY" "netif_idx (pcb_at ?u pcb) = 0"
      "ip4_route (netif_default s) server_addr \<noteq> None" "\<forall>q a b c d e. fst (env_out env q a b c d e) = ERR_OK"
  proof -
    have tot: "\<not> p_tot_len ?h + 8 < p_tot_len ?h" by (simp add: request_pbuf_def pbuf_init_alloced_pbuf_def pbuf_write_def Let_def)
    obtain n where n: "ip4_route (netif_default s4) server_addr = Some n" using b(4) u4(2) by auto
    obtain q where "udp_sendto (env_malloc env) (env_odd env) (env_out env) (netif_default s4) pcb [?h] server_addr NTP_PORT (udp s4) (penv s4) =
      (let (err, q2) = env_out env (put_udp_hdr (local_port (pcb_at (udp s4) pcb)) NTP_PORT (p_tot_len h') q h' # [])
                        (ip_addr n) server_addr (ttl (pcb_at (udp s4) pcb)) (tos (pcb_at (udp s4) pcb)) IP_PROTO_UDP
       in Some (err, q2, udp s4, penv s4))"
      using udp_sendto_bound [OF h' tot _ _ _ n, of "udp s4" pcb] b u4(1) by metis
    then show ?thesis using snd(1) b(5) u4(1) by (auto simp: Let_def split: prod.splits) (metis fst_conv)
  qed
  then show ?thesis using run s4(1) snd(1) fr(1) cs u4 u2 by (intro exI [of _ err] exI [of _ ?s5]) auto
qed

section \<open>What the client relies on\<close>

locale ntp_polling =
  fixes poll :: "'a sys_scheme \<Rightarrow> 'a sys_scheme option"
    and inv :: "nat \<Rightarrow> 'a sys_scheme \<Rightarrow> bool"
  assumes poll_runs: "inv k s \<Longrightarrow> uart_ready s \<Longrightarrow> \<exists>s'. poll s = Some s' \<and> polled s s' \<and> inv (Suc k) s'"
    and inv_client: "inv k s \<Longrightarrow> client_step s s' \<Longrightarrow> inv k s'"
begin

definition still :: "'a sys_scheme \<Rightarrow> bool" where
  "still s \<longleftrightarrow> (\<exists>k. inv k s)"

lemma still_client: "still s \<Longrightarrow> client_step s s' \<Longrightarrow> still s'"
  using inv_client unfolding still_def by blast

lemma still_said: "still s \<Longrightarrow> said s s' \<Longrightarrow> still s'"
  using still_client unfolding said_def by blast

lemma ntp_wait_returns: "still s \<Longrightarrow> uart_ready s \<Longrightarrow> \<exists>s'. ntp_wait poll n s = Some s' \<and> polled s s' \<and> still s'"
proof (induction n arbitrary: s)
  case 0
  then show ?case by (simp add: polled_def)
next
  case (Suc n)
  obtain s1 where s1: "poll s = Some s1" "polled s s1" "still s1"
    using poll_runs Suc.prems unfolding still_def by blast
  then obtain s2 where "ntp_wait poll n s1 = Some s2" "polled s1 s2" "still s2"
    using Suc.IH [of s1] by (auto simp: polled_def)
  then show ?case using s1 Suc.prems polled_trans by (auto simp: polled_def)
qed

lemma ntp_fail_ok:
  assumes "uart_ready s" and "nul_free t" and "pcb_held pcb P F (udp s)" and "pcb \<notin># P" and "still s"
  shows "call_ok still msg P (pcb # F) (ntp_fail t pcb msg s)"
proof -
  obtain s1 where "uart_puts t s = Some s1" "said s s1" using puts_said assms(1,2) by blast
  moreover from this have "still (s1\<lparr>udp := udp_remove pcb (udp s1)\<rparr>)"
    using still_said [OF assms(5)] still_client [OF _ client_upd(1)] by blast
  ultimately show ?thesis using pcb_held_remove [OF assms(3,4)] by (simp add: call_ok_def ntp_fail_def said_def)
qed

lemma ntp_answer_printed:
  assumes "uart_ready s" and "still s" and "ntp_response_received s \<noteq> 0"
  shows "\<exists>s4 s5. uart_print (''NTP: Received timestamp = %u (NTP epoch)'' @ crlf) [AUns (ntp_timestamp s)] s = Some s4
     \<and> ntp_timestamp s4 = ntp_timestamp s
     \<and> uart_print (''NTP: IST time = %02d:%02d:%02d'' @ crlf)
          [AInt (uint (hour (ntp_to_msg (ntp_timestamp s)))), AInt (uint (minute (ntp_to_msg (ntp_timestamp s)))),
           AInt (uint (second (ntp_to_msg (ntp_timestamp s))))] s4 = Some s5
     \<and> udp s5 = udp s \<and> ntp_timestamp s5 = ntp_timestamp s \<and> uart_ready s5 \<and> still s5"
proof -
  obtain s4 where s4: "uart_print (''NTP: Received timestamp = %u (NTP epoch)'' @ crlf) [AUns (ntp_timestamp s)] s = Some s4" "said s s4"
    using print_said [OF assms(1), of "''NTP: Received timestamp = %u (NTP epoch)'' @ crlf" "[AUns (ntp_timestamp s)]"] by (auto simp: nul_free_code)
  let ?m = "ntp_to_msg (ntp_timestamp s)"
  obtain s5 where "uart_print (''NTP: IST time = %02d:%02d:%02d'' @ crlf)
      [AInt (uint (hour ?m)), AInt (uint (minute ?m)), AInt (uint (second ?m))] s4 = Some s5" "said s4 s5"
    using print_said [of s4 "''NTP: IST time = %02d:%02d:%02d'' @ crlf" "[AInt (uint (hour ?m)), AInt (uint (minute ?m)), AInt (uint (second ?m))]"] s4(2)
    by (auto simp: nul_free_code said_def)
  then show ?thesis using s4 still_said [OF still_said [OF assms(2)]] by (auto simp: said_def)
qed

lemma ntp_await_ok:
  assumes "uart_ready s" and "still s" and "pcb_held pcb P F (udp s)" and "pcb \<notin># P"
  shows "call_ok still msg P (pcb # F) (ntp_await poll pcb err msg s)"
proof (cases "err = ERR_OK")
  case False
  obtain s1 where s1: "uart_print (''NTP: Send failed (err=%d)'' @ crlf) [AInt (err_code err)] s = Some s1" "said s s1"
    using print_said [OF assms(1), of "''NTP: Send failed (err=%d)'' @ crlf" "[AInt (err_code err)]"] by (auto simp: nul_free_code)
  then have "still (s1\<lparr>udp := udp_remove pcb (udp s1)\<rparr>)"
    using still_said [OF assms(2)] still_client [OF _ client_upd(1)] by blast
  then show ?thesis using s1 False pcb_held_remove [OF assms(3,4)] by (simp add: call_ok_def ntp_await_def said_def)
next
  case True
  obtain s1 where s1: "uart_puts (''NTP: Request sent, waiting for response...'' @ crlf) s = Some s1" "said s s1"
    using puts_said [OF assms(1), of "''NTP: Request sent, waiting for response...'' @ crlf"] by (auto simp: nul_free_code)
  obtain s2 where s2: "ntp_wait poll NTP_TIMEOUT_CYCLES s1 = Some s2" "polled s1 s2" "still s2"
    using ntp_wait_returns [OF still_said [OF assms(2) s1(2)]] s1(2) by (auto simp: said_def)
  let ?s3 = "s2\<lparr>udp := udp_remove pcb (udp s2)\<rparr>"
  have held: "pcb_held pcb P F (udp s2)" using pcb_held_polled [OF s2(2)] assms(3) s1(2) by (simp add: said_def)
  have ready: "uart_ready ?s3" "still ?s3" using s2 still_client [OF _ client_upd(1)] by (auto simp: polled_def)
  note rem = pcb_held_remove [OF held assms(4)]
  show ?thesis
  proof (cases "ntp_response_received s2 = 0")
    case 0: True
    obtain s4 where "uart_puts (''NTP: Response timeout!'' @ crlf) ?s3 = Some s4" "said ?s3 s4"
      using puts_said [OF ready(1), of "''NTP: Response timeout!'' @ crlf"] by (auto simp: nul_free_code)
    then show ?thesis using True 0 s1 s2 rem still_said [OF ready(2)] by (simp add: call_ok_def ntp_await_def Let_def said_def)
  next
    case 1: False
    then show ?thesis using True s1 s2 rem ntp_answer_printed [OF ready] by (auto simp: call_ok_def ntp_await_def Let_def)
  qed
qed

lemma ntp_get_time_ok:
  assumes "uart_ready s" and "still s" and "out_ok (env_out env)" and "udp_wf (udp s)"
  shows "call_ok still msg (mset (udp_pcbs (udp s))) (udp_free (udp s)) (ntp_get_time poll env msg s)"
proof -
  let ?P = "mset (udp_pcbs (udp s))"
  obtain pcbo u where n: "udp_new (udp s) = (pcbo, u)" by fastforce
  show ?thesis
  proof (cases pcbo)
    case None
    then show ?thesis using ntp_get_time_no_pcb [OF assms(1), of u poll env msg] n still_client [OF assms(2)] by (auto simp: call_ok_def)
  next
    case (Some pcb)
    note n1 = n [unfolded Some]
    note H = ntp_pcb_setup_held [OF n1 assms(4)]
    have held: "pcb_held pcb ?P (udp_free u) (ntp_pcb_setup pcb u)" and fresh: "pcb \<notin># ?P" and free: "udp_free (udp s) = pcb # udp_free u"
      using H by auto
    show ?thesis
    proof (cases "env_malloc env 120")
      case None
      obtain s3 where "ntp_get_time poll env msg s = ntp_fail (''NTP: Failed to allocate pbuf'' @ crlf) pcb msg s3"
        "client_step s s3" "uart_ready s3" "udp s3 = ntp_pcb_setup pcb u"
        using ntp_get_time_no_heap [OF assms(1) n1 None] by blast
      then show ?thesis
        using ntp_fail_ok [of s3 "''NTP: Failed to allocate pbuf'' @ crlf" pcb ?P "udp_free u"] held fresh still_client [OF assms(2)] free
        by (simp add: nul_free_code)
    next
      case m: (Some m)
      have nf: "pcb \<notin> set (udp_free (ntp_pcb_setup pcb u))" using H held by (simp add: pcb_held_def)
      obtain err s5 where s5: "ntp_get_time poll env msg s = ntp_await poll pcb err msg s5" "client_step s s5" "uart_ready s5"
        "udp_free (udp s5) = udp_free (ntp_pcb_setup pcb u)"
        "udp_pcbs (udp s5) = udp_pcbs (ntp_pcb_setup pcb u)
          \<or> pcb \<notin> set (udp_pcbs (ntp_pcb_setup pcb u)) \<and> udp_pcbs (udp s5) = pcb # udp_pcbs (ntp_pcb_setup pcb u)"
        using ntp_get_time_sends [OF assms(1) n1 m assms(3) nf, of poll msg] by blast
      have "pcb_held pcb ?P (udp_free u) (udp s5)" using held s5(4,5) by (auto simp: pcb_held_def dest: arg_cong [of _ _ set_mset])
      then show ?thesis using ntp_await_ok [OF s5(3) still_client [OF assms(2) s5(2)] _ fresh] s5(1) free by simp
    qed
  qed
qed

text \<open>An answer in the \<open>j\<close>-th poll, after polls that leave the client's flag alone.\<close>

lemma ntp_wait_done: "ntp_response_received s \<noteq> 0 \<Longrightarrow> ntp_wait poll n s = Some s"
  by (cases n) simp_all

lemma ntp_wait_answer:
  assumes "inv k s" and "uart_ready s" and "awaiting pcb lp (udp s)" and "ntp_response_received s = 0" and "j < n"
    and "\<And>i t t'. i < j \<Longrightarrow> inv (k + i) t \<Longrightarrow> uart_ready t \<Longrightarrow> awaiting pcb lp (udp t) \<Longrightarrow> poll t = Some t' \<Longrightarrow> ntp_response_received t' = ntp_response_received t"
    and "\<And>t t'. inv (k + j) t \<Longrightarrow> uart_ready t \<Longrightarrow> awaiting pcb lp (udp t) \<Longrightarrow> poll t = Some t' \<Longrightarrow> ntp_response_received t' = 1 \<and> ntp_timestamp t' = ts"
  shows "\<exists>s'. ntp_wait poll n s = Some s' \<and> uart_ready s' \<and> still s' \<and> ntp_response_received s' = 1 \<and> ntp_timestamp s' = ts"
  using assms
proof (induction j arbitrary: n k s)
  case 0
  obtain s1 where s1: "poll s = Some s1" "polled s s1" "inv (Suc k) s1" using poll_runs "0.prems"(1,2) by blast
  then have a: "ntp_response_received s1 = 1 \<and> ntp_timestamp s1 = ts" using "0.prems"(7) [of s s1] "0.prems"(1-3) by simp
  obtain n' where "n = Suc n'" using "0.prems"(5) by (cases n) auto
  then show ?case using s1 a "0.prems"(4) by (auto simp: ntp_wait_done still_def polled_def)
next
  case (Suc j)
  obtain n' where n: "n = Suc n'" using Suc.prems(5) by (cases n) auto
  obtain s1 where s1: "poll s = Some s1" "polled s s1" "inv (Suc k) s1" using poll_runs Suc.prems(1,2) by blast
  have got: "ntp_response_received s1 = 0" using Suc.prems(6) [of 0 s s1] Suc.prems(1-4) s1(1) by simp
  have "\<exists>s'. ntp_wait poll n' s1 = Some s' \<and> uart_ready s' \<and> still s' \<and> ntp_response_received s' = 1 \<and> ntp_timestamp s' = ts"
  proof (rule Suc.IH [OF s1(3) _ awaiting_polled [OF s1(2) Suc.prems(3)] got])
    show "uart_ready s1" using s1(2) by (simp add: polled_def)
    show "j < n'" using Suc.prems(5) n by simp
    show "ntp_response_received t' = ntp_response_received t"
      if "i < j" "inv (Suc k + i) t" "uart_ready t" "awaiting pcb lp (udp t)" "poll t = Some t'" for i t t'
      using Suc.prems(6) [of "Suc i" t t'] that by simp
    show "ntp_response_received t' = 1 \<and> ntp_timestamp t' = ts" if "inv (Suc k + j) t" "uart_ready t" "awaiting pcb lp (udp t)" "poll t = Some t'" for t t'
      using Suc.prems(7) [of t t'] that by simp
  qed
  then show ?case using Suc.prems(4) s1(1) n by simp
qed

lemma ntp_get_time_answered:
  assumes "uart_ready s" and "inv k s" and "out_ok (env_out env)" and "udp_wf (udp s)"
    and slot: "udp_free (udp s) \<noteq> []" "length (udp_pcbs (udp s)) < 0x4000" "0xC000 \<le> udp_port (udp s)"
      "\<forall>i\<in>set (udp_pcbs (udp s)). recv (pcb_at (udp s) i) \<noteq> Some Ntp_recv_callback"
    and mem: "env_malloc env 120 = Some m"
    and net: "ip4_route (netif_default s) server_addr \<noteq> None" "\<forall>q a b c d e. fst (env_out env q a b c d e) = ERR_OK"
    and j: "j < NTP_TIMEOUT_CYCLES"
    and other: "\<And>pcb i t t'. i < j \<Longrightarrow> inv (k + i) t \<Longrightarrow> uart_ready t \<Longrightarrow> awaiting pcb (fst (udp_new_port (udp s))) (udp t) \<Longrightarrow> poll t = Some t'
        \<Longrightarrow> ntp_response_received t' = ntp_response_received t"
    and answer: "\<And>pcb t t'. inv (k + j) t \<Longrightarrow> uart_ready t \<Longrightarrow> awaiting pcb (fst (udp_new_port (udp s))) (udp t) \<Longrightarrow> poll t = Some t'
        \<Longrightarrow> ntp_response_received t' = 1 \<and> ntp_timestamp t' = ts"
  shows "\<exists>s'. ntp_get_time poll env msg s = Some (0, ntp_to_msg ts, s')"
proof -
  obtain pcb u where nw: "udp_new (udp s) = (Some pcb, u)" using udp_new_slot [OF slot(1)] by blast
  note aw = ntp_pcb_setup_awaiting [OF nw assms(4) slot(2-4)]
  have nf: "pcb \<notin> set (udp_free (ntp_pcb_setup pcb u))" using ntp_pcb_setup_held [OF nw assms(4)] by (simp add: pcb_held_def)
  have lp: "local_port (pcb_at (ntp_pcb_setup pcb u) pcb) \<noteq> 0" using aw unfolding awaiting_def listens_def by auto
  obtain s5 where s5: "ntp_get_time poll env msg s = ntp_await poll pcb ERR_OK msg s5" "client_step s s5" "uart_ready s5"
    "ntp_response_received s5 = 0" "udp s5 = ntp_pcb_setup pcb u"
    using ntp_get_time_sends [OF assms(1) nw mem assms(3) nf, of poll msg] lp aw net by blast
  obtain s6 where s6: "uart_puts (''NTP: Request sent, waiting for response...'' @ crlf) s5 = Some s6" "said s5 s6"
    using puts_said [OF s5(3), of "''NTP: Request sent, waiting for response...'' @ crlf"] by (auto simp: nul_free_code)
  have i6: "inv k s6" using inv_client [OF inv_client [OF assms(2) s5(2)]] s6(2) unfolding said_def by blast
  obtain s7 where s7: "ntp_wait poll NTP_TIMEOUT_CYCLES s6 = Some s7" "uart_ready s7" "still s7" "ntp_response_received s7 = 1" "ntp_timestamp s7 = ts"
    using ntp_wait_answer [OF i6, of pcb "fst (udp_new_port (udp s))" j NTP_TIMEOUT_CYCLES ts] other answer j aw s5(4,5) s6(2)
    by (auto simp: said_def)
  let ?s8 = "s7\<lparr>udp := udp_remove pcb (udp s7)\<rparr>"
  have "uart_ready ?s8" "still ?s8" "ntp_response_received ?s8 \<noteq> 0" using s7 still_client [OF _ client_upd(1)] by auto
  from ntp_answer_printed [OF this] show ?thesis using s5(1) s6(1) s7 by (auto simp: ntp_await_def Let_def)
qed

end

end
