(* ===== verification/Lwip_Ip4.thy ===== *)
theory Lwip_Ip4
  imports Lwip_Udp_Proofs Lan9118
begin

text \<open>
  IPv4 input, \<open>lwip/src/core/ipv4/ip4.c\<close>, in the configuration of \<open>config/lwipopts.h\<close>: one
  interface, DHCP on (packets for the DHCP client port pass whatever their address), no
  forwarding, no IGMP, no raw protocol blocks, header options accepted. The protocols above
  and the reassembly of fragments (\<open>ip4_frag.c\<close>) are the fields of the record \<open>ip_ops\<close>:
  functions on the state of the stack.

  \<open>ip4_spec\<close> says what RFC 791 and the address filter make of a packet given as its bytes.
  Lemmas: \<open>ip4_input\<close> decides by the bytes alone as \<open>ip4_spec\<close> says, gives a dropped
  packet's buffers back to the pool, and hands to the protocol above exactly the payload.
\<close>

section \<open>Operations\<close>

definition IP_HLEN :: u16 where [cdefs]: "IP_HLEN = 20"
definition IP_PROTO_ICMP :: u8 where [cdefs]: "IP_PROTO_ICMP = 1"
definition IP_MF :: u16 where [cdefs]: "IP_MF = 0x2000"
definition IP_OFFMASK :: u16 where [cdefs]: "IP_OFFMASK = 0x1FFF"
definition LWIP_IANA_PORT_DHCP_CLIENT :: u16 where [cdefs]: "LWIP_IANA_PORT_DHCP_CLIENT = 68"
definition ICMP_DUR_PROTO :: u8 where [cdefs]: "ICMP_DUR_PROTO = 2"

definition get8 :: "pbuf \<Rightarrow> nat \<Rightarrow> u8" where
  "get8 p off = (case pbuf_read p off 1 of [a] \<Rightarrow> a | _ \<Rightarrow> 0)"

definition get32 :: "pbuf \<Rightarrow> nat \<Rightarrow> u32" where
  "get32 p off = word_of_bytes (pbuf_read p off 4)"

definition IPH_V :: "pbuf \<Rightarrow> u8" where "IPH_V h = drop_bit 4 (get8 h 0)"
definition IPH_HL_BYTES :: "pbuf \<Rightarrow> u8" where "IPH_HL_BYTES h = (get8 h 0 AND 0x0F) * 4"
definition IPH_LEN :: "pbuf \<Rightarrow> u16" where "IPH_LEN h = get16 h 2"
definition IPH_OFFSET :: "pbuf \<Rightarrow> u16" where "IPH_OFFSET h = get16 h 6"
definition IPH_PROTO :: "pbuf \<Rightarrow> u8" where "IPH_PROTO h = get8 h 9"

definition IP_ACCEPT_LINK_LAYER_ADDRESSED_PORT :: "u16 \<Rightarrow> bool" where
  "IP_ACCEPT_LINK_LAYER_ADDRESSED_PORT port \<longleftrightarrow> port = PP_HTONS LWIP_IANA_PORT_DHCP_CLIENT"

definition ip4_input_accept :: "u32 \<Rightarrow> 'a netif_scheme \<Rightarrow> bool" where
  "ip4_input_accept dest nif \<longleftrightarrow>
     flags nif AND NETIF_FLAG_UP \<noteq> 0 \<and> ip_addr nif \<noteq> IPADDR_ANY
     \<and> (dest = ip_addr nif \<or> ip4_addr_isbroadcast_u32 dest nif \<noteq> 0)"

text \<open>
  Is the packet for the interface, and is its source address to be checked? The second test
  reads the UDP destination port behind the IP header, also when the packet ends before it.
\<close>

definition ip4_input_netif :: "pbuf \<Rightarrow> u16 \<Rightarrow> 'a netif_scheme \<Rightarrow> bool \<times> bool" where
  "ip4_input_netif h hlen inp =
     (let dest = get32 h 16;
          found = (if ip4_addr_ismulticast dest
                   then flags inp AND NETIF_FLAG_UP \<noteq> 0 \<and> ip_addr inp \<noteq> IPADDR_ANY
                   else ip4_input_accept dest inp)
      in if found then (True, True)
         else if IPH_PROTO h = IP_PROTO_UDP
                 \<and> IP_ACCEPT_LINK_LAYER_ADDRESSED_PORT (get16 h (unat hlen + 2)) then (True, False)
         else (False, True))"

record 's ip_ops =
  op_udp_input :: "pchain \<Rightarrow> netif ip_globals \<Rightarrow> 's \<Rightarrow> 's option"
  op_icmp_input :: "pchain \<Rightarrow> netif ip_globals \<Rightarrow> 's \<Rightarrow> 's option"
  op_icmp_dest_unreach :: "pchain \<Rightarrow> u8 \<Rightarrow> 's \<Rightarrow> 's option"
  op_ip4_reass :: "pchain \<Rightarrow> 's \<Rightarrow> (pchain \<times> 's) option"

definition ip4_drop :: "pchain \<Rightarrow> 'a lan_scheme \<Rightarrow> 'a lan_scheme option" where
  "ip4_drop p s = do { (n, c, e) \<leftarrow> pbuf_free p (penv s); Some (s\<lparr>penv := e\<rparr>) }"

text \<open>The header is hidden and the packet given to the protocol of its protocol field.\<close>

definition ip4_input_upper :: "'a lan_scheme ip_ops \<Rightarrow> pchain \<Rightarrow> u16 \<Rightarrow> netif ip_globals \<Rightarrow> 'a lan_scheme \<Rightarrow> 'a lan_scheme option" where
  "ip4_input_upper ops p hlen g s =
     (let h1 = snd (pbuf_remove_header (hd p) (ucast hlen));
          q = h1 # tl p;
          proto = IPH_PROTO (hd p)
      in if proto = IP_PROTO_UDP then op_udp_input ops q g s
         else if proto = IP_PROTO_ICMP then op_icmp_input ops q g s
         else if ip4_addr_isbroadcast_u32 (current_dest g) (current_netif g) = 0 \<and> \<not> ip4_addr_ismulticast (current_dest g)
         then let u = snd (pbuf_header_force h1 (sint hlen)) # tl p
              in do { s1 \<leftarrow> op_icmp_dest_unreach ops u ICMP_DUR_PROTO s; ip4_drop u s1 }
         else ip4_drop q s)"

text \<open>A packet whose header has been verified: address filter, fragments, protocol.\<close>

definition ip4_input_route :: "'a lan_scheme ip_ops \<Rightarrow> pchain \<Rightarrow> u16 \<Rightarrow> netif \<Rightarrow> 'a lan_scheme \<Rightarrow> 'a lan_scheme option" where
  "ip4_input_route ops p hlen inp s =
     (let h = hd p;
          src = get32 h 12;
          dest = get32 h 16;
          (found, check_ip_src) = ip4_input_netif h hlen inp
      in if check_ip_src \<and> src \<noteq> IPADDR_ANY \<and> (ip4_addr_isbroadcast_u32 src inp \<noteq> 0 \<or> ip4_addr_ismulticast src)
         then ip4_drop p s
         else if \<not> found then ip4_drop p s
         else do { (p1, s1) \<leftarrow> (if IPH_OFFSET h AND PP_HTONS (IP_OFFMASK OR IP_MF) \<noteq> 0 then op_ip4_reass ops p s else Some (p, s));
                   if p1 = [] then Some s1
                   else ip4_input_upper ops p1 hlen
                          \<lparr>current_src = src, current_dest = dest, current_header_tot_len = ucast (IPH_HL_BYTES (hd p1)),
                           current_netif = inp\<rparr> s1 })"

text \<open>
  The whole handler; it always returns \<open>ERR_OK\<close>, so the result is the state. A packet that
  is shorter than the header the code looks at is read beyond its end (inside its buffer).
\<close>

definition ip4_input :: "'a lan_scheme ip_ops \<Rightarrow> (pbuf \<Rightarrow> bool) \<Rightarrow> pchain \<Rightarrow> netif \<Rightarrow> 'a lan_scheme \<Rightarrow> 'a lan_scheme option" where
  "ip4_input ops is_odd p inp s =
     (case p of [] \<Rightarrow> None
      | h # t \<Rightarrow>
         if IPH_V h \<noteq> 4 then ip4_drop p s
         else let iphdr_hlen = (ucast (IPH_HL_BYTES h) :: u16);
                  iphdr_len = lwip_htons (IPH_LEN h)
              in do { (p1, e) \<leftarrow> (if iphdr_len < p_tot_len h then pbuf_realloc p iphdr_len (penv s) else Some (p, penv s));
                      let s1 = s\<lparr>penv := e\<rparr>; h1 = hd p1 in
                      if iphdr_hlen > p_len h1 \<or> iphdr_len > p_tot_len h1 \<or> iphdr_hlen < IP_HLEN then ip4_drop p1 s1
                      else if inet_chksum (is_odd h1) (pbuf_read h1 0 (unat iphdr_hlen)) \<noteq> 0 then ip4_drop p1 s1
                      else ip4_input_route ops p1 iphdr_hlen inp s1 })"

section \<open>What is to be done with a packet\<close>

datatype ip_verdict = Ip_drop | Ip_fragment | Ip_upper u8 u32 u32 nat "u8 list"

definition field16 :: "u8 list \<Rightarrow> nat \<Rightarrow> u16" where
  "field16 bs off = of_nat (256 * unat (bs ! off) + unat (bs ! Suc off))"

definition field32 :: "u8 list \<Rightarrow> nat \<Rightarrow> u32" where
  "field32 bs off = word_of_bytes (take 4 (drop off bs))"

definition for_us :: "netif \<Rightarrow> u32 \<Rightarrow> bool" where
  "for_us inp dest \<longleftrightarrow> flags inp AND NETIF_FLAG_UP \<noteq> 0 \<and> ip_addr inp \<noteq> IPADDR_ANY
     \<and> (ip4_addr_ismulticast dest \<or> dest = ip_addr inp \<or> ip4_addr_isbroadcast_u32 dest inp \<noteq> 0)"

definition bad_source :: "netif \<Rightarrow> u32 \<Rightarrow> bool" where
  "bad_source inp src \<longleftrightarrow> src \<noteq> IPADDR_ANY \<and> (ip4_addr_isbroadcast_u32 src inp \<noteq> 0 \<or> ip4_addr_ismulticast src)"

text \<open>The lengths and the checksum of the header.\<close>

definition ip_hlen :: "u8 list \<Rightarrow> nat" where "ip_hlen bs = 4 * (unat (bs ! 0) mod 16)"
definition ip_len :: "u8 list \<Rightarrow> nat" where "ip_len bs = unat (field16 bs 2)"

definition ip_header_ok :: "u8 list \<Rightarrow> bool" where
  "ip_header_ok bs \<longleftrightarrow> 20 \<le> length bs \<and> unat (bs ! 0) div 16 = 4 \<and> 20 \<le> ip_hlen bs \<and> ip_hlen bs \<le> ip_len bs
     \<and> ip_len bs \<le> length bs \<and> rfc1071 (take (ip_hlen bs) bs) = 0"

text \<open>
  \<open>junk\<close> are the bytes behind the packet in its buffer; they matter only where a datagram
  that is not addressed to the interface is too short to have a destination port.
\<close>

definition ip4_spec :: "netif \<Rightarrow> u8 list \<Rightarrow> u8 list \<Rightarrow> ip_verdict" where
  "ip4_spec inp junk bs =
     (if \<not> ip_header_ok bs then Ip_drop
      else let src = field32 bs 12; dest = field32 bs 16; body = take (ip_len bs - ip_hlen bs) (drop (ip_hlen bs) bs);
               dhcp = (bs ! 9 = IP_PROTO_UDP \<and> field16 (body @ junk) 2 = LWIP_IANA_PORT_DHCP_CLIENT)
           in if for_us inp dest \<and> bad_source inp src \<or> \<not> for_us inp dest \<and> \<not> dhcp then Ip_drop
              else if unat (field16 bs 6) mod 16384 \<noteq> 0 then Ip_fragment
              else Ip_upper (bs ! 9) src dest (ip_hlen bs) body)"

section \<open>Fields\<close>

lemma field_read:
  assumes "chain_ok (h # t)" and "off + n \<le> unat (p_len h)"
  shows "pbuf_read h off n = take n (drop off (chain_bytes (h # t)))"
proof -
  have "pbuf_ok h" using assms(1) by simp
  then show ?thesis using assms pbuf_read_data [of h off n] by simp
qed

lemma take_1_drop: "off < length bs \<Longrightarrow> take (Suc 0) (drop off bs) = [bs ! off]"
  by (simp add: take_Suc_conv_app_nth)

lemma take_2_drop: "Suc off < length bs \<Longrightarrow> take 2 (drop off bs) = [bs ! off, bs ! Suc off]"
  by (simp add: numeral_2_eq_2 take_Suc_conv_app_nth)

lemma len_first: "chain_ok (h # t) \<Longrightarrow> unat (p_len h) \<le> length (chain_bytes (h # t))"
  by simp

lemma get8_field: "chain_ok (h # t) \<Longrightarrow> off < unat (p_len h) \<Longrightarrow> get8 h off = chain_bytes (h # t) ! off"
  using len_first [of h t] field_read [of h t off 1] by (simp add: get8_def take_1_drop del: chain_bytes_simps chain_ok_simps)

lemma htons_load16: "lwip_htons (load16 a b) = of_nat (256 * unat a + unat b)"
proof -
  have "unat a < 256" "unat b < 256" by simp_all
  then have "(unat a + 256 * unat b) mod 256 = unat a" "(unat a + 256 * unat b) div 256 = unat b" by simp_all
  moreover have "256 * unat a + unat b < 65536" using \<open>unat a < 256\<close> \<open>unat b < 256\<close> by linarith
  ultimately show ?thesis unfolding word_unat_eq_iff unat_htons unat_load16 unat_of_nat_u16 by simp
qed

lemma get16_net: "chain_ok (h # t) \<Longrightarrow> off + 2 \<le> unat (p_len h) \<Longrightarrow> lwip_htons (get16 h off) = field16 (chain_bytes (h # t)) off"
  using len_first [of h t] field_read [of h t off 2]
  by (simp add: get16_def take_2_drop field16_def htons_load16 del: chain_bytes_simps chain_ok_simps)

lemma get32_field: "chain_ok (h # t) \<Longrightarrow> off + 4 \<le> unat (p_len h) \<Longrightarrow> get32 h off = field32 (chain_bytes (h # t)) off"
  using field_read [of h t off 4] by (simp add: get32_def field32_def)

lemma hl_bytes: "unat (IPH_HL_BYTES h) = 4 * (unat (get8 h 0) mod 16)"
proof -
  have "get8 h 0 AND 0x0F = take_bit 4 (get8 h 0)" by (simp add: take_bit_eq_mask mask_eq_exp_minus_1)
  then have "unat (get8 h 0 AND 0x0F) = unat (get8 h 0) mod 16" by (simp add: unsigned_take_bit_eq take_bit_nat_def)
  moreover have "unat (get8 h 0) mod 16 < 16" by simp
  ultimately show ?thesis by (simp add: IPH_HL_BYTES_def unat_word_ariths)
qed

lemma iph_v: "IPH_V h = 4 \<longleftrightarrow> unat (get8 h 0) div 16 = 4"
  by (simp add: IPH_V_def word_unat_eq_iff drop_bit_eq_div unat_div_word)

lemma offset_bits: "x AND PP_HTONS (IP_OFFMASK OR IP_MF) = 0 \<longleftrightarrow> unat (lwip_htons x) mod 16384 = 0"
proof -
  have m: "IP_OFFMASK OR IP_MF = mask 14" by (simp add: cdefs mask_eq_exp_minus_1)
  have m8: "(0xFF :: u16) = mask 8" "(0xFF00 :: u16) = push_bit 8 (mask 8)" by (simp_all add: mask_eq_exp_minus_1)
  have sw: "lwip_htons (x AND PP_HTONS y) = lwip_htons x AND y" for y
    unfolding lwip_htons_def PP_HTONS_def m8 by (rule bit_word_eqI) (auto simp: bit_simps)
  have "x AND PP_HTONS (mask 14) = 0 \<longleftrightarrow> lwip_htons (x AND PP_HTONS (mask 14)) = lwip_htons 0"
    by (metis htons_involution)
  also have "\<dots> \<longleftrightarrow> take_bit 14 (lwip_htons x) = 0" unfolding sw by (simp add: take_bit_eq_mask lwip_htons_def PP_HTONS_def)
  also have "\<dots> \<longleftrightarrow> unat (take_bit 14 (lwip_htons x)) = 0" by (simp add: unat_eq_0)
  finally show ?thesis unfolding m by (simp add: unsigned_take_bit_eq take_bit_nat_def)
qed

section \<open>Chains of pool buffers\<close>

definition pool_pbuf :: "pbuf \<Rightarrow> bool" where
  "pool_pbuf p \<longleftrightarrow> p_type p = PBUF_POOL \<and> p_flags p AND PBUF_FLAG_IS_CUSTOM = 0 \<and> p_ref p = 1 \<and> length (p_mem p) = 1536"

definition pool_chain :: "pchain \<Rightarrow> bool" where
  "pool_chain c \<longleftrightarrow> c \<noteq> [] \<and> chain_ok c \<and> list_all pool_pbuf c"

text \<open>\<open>k\<close> bytes can be read from the first pbuf, unless the whole packet is there.\<close>

definition roomy :: "nat \<Rightarrow> pchain \<Rightarrow> bool" where
  "roomy k c \<longleftrightarrow> (tl c \<noteq> [] \<longrightarrow> k \<le> unat (p_len (hd c)))"

text \<open>From the allocators \<open>e\<close> with the chain \<open>c\<close> taken to \<open>e'\<close> with \<open>c'\<close> taken, no buffer is lost.\<close>

definition kept :: "pchain \<Rightarrow> pbuf_env \<Rightarrow> pchain \<Rightarrow> pbuf_env \<Rightarrow> bool" where
  "kept c e c' e' \<longleftrightarrow> (pool_ok e \<longrightarrow> pool_ok e') \<and> length (pool e') + length c' = length (pool e) + length c"

lemma free_pool_loop:
  "list_all pool_pbuf c \<Longrightarrow> \<exists>n e'. pbuf_free_loop c k e = Some (n, [], e') \<and> kept c e [] e'"
proof (induction c arbitrary: k e)
  case Nil
  then show ?case by (simp add: kept_def)
next
  case (Cons p c)
  let ?e = "e\<lparr>pool := p_mem p # pool e\<rparr>"
  have d: "pbuf_dealloc (p\<lparr>p_ref := 0\<rparr>) e = Some ?e"
    using Cons.prems by (simp add: pool_pbuf_def pbuf_dealloc_def pbuf_get_allocsrc_def cdefs)
  have p: "p_ref p = 1" "length (p_mem p) = 1536" "list_all pool_pbuf c" using Cons.prems by (auto simp: pool_pbuf_def [of p])
  have step: "pbuf_free_loop (p # c) k e = pbuf_free_loop c (k + 1) ?e" using d p(1) by (simp add: Let_def)
  obtain n e' where r: "pbuf_free_loop c (k + 1) ?e = Some (n, [], e')" "kept c ?e [] e'" using Cons.IH [OF p(3)] by blast
  have "kept (p # c) e [] e'" using r(2) p(2) by (simp add: kept_def pool_ok_def)
  then show ?case unfolding step r(1) by blast
qed

lemma free_pool_chain: "pool_chain c \<Longrightarrow> \<exists>n e'. pbuf_free c e = Some (n, [], e') \<and> kept c e [] e'"
  using free_pool_loop [of c 0 e] by (auto simp: pool_chain_def pbuf_free_def)

lemma drop_pool_chain: "pool_chain c \<Longrightarrow> \<exists>e'. ip4_drop c s = Some (s\<lparr>penv := e'\<rparr>) \<and> kept c (penv s) [] e'"
  using free_pool_chain [of c "penv s"] by (auto simp: ip4_drop_def)

lemma realloc_pool_loop:
  assumes "list_all pool_pbuf c" and "pbuf_realloc_loop c n shrink e = Some (c', e')"
  shows "list_all pool_pbuf c' \<and> c' \<noteq> [] \<and> kept c e c' e' \<and> (tl c' \<noteq> [] \<longrightarrow> p_len (hd c') = p_len (hd c))
     \<and> p_mem (hd c') = p_mem (hd c) \<and> p_payload (hd c') = p_payload (hd c) \<and> length c' \<le> length c"
  using assms
proof (induction c arbitrary: n c' e')
  case (Cons q qs)
  show ?case
  proof (cases "n > p_len q")
    case True
    then obtain c1 where c1: "pbuf_realloc_loop qs (n - p_len q) shrink e = Some (c1, e')"
      and c': "c' = q\<lparr>p_tot_len := p_tot_len q - shrink\<rparr> # c1"
      using Cons.prems(2) by (auto simp: bind_eq_Some_conv')
    show ?thesis using Cons.IH [OF _ c1] Cons.prems(1) by (auto simp: c' pool_pbuf_def kept_def)
  next
    case False
    show ?thesis
    proof (cases "qs = []")
      case True
      then show ?thesis using False Cons.prems by (auto simp: pool_pbuf_def kept_def)
    next
      case qs: False
      obtain m e1 where "pbuf_free qs e = Some (m, [], e1)" "kept qs e [] e1"
        using free_pool_loop [of qs 0 e] Cons.prems(1) qs by (auto simp: pbuf_free_def)
      then show ?thesis using False qs Cons.prems by (auto simp: pool_pbuf_def kept_def)
    qed
  qed
qed simp

lemma pool_live: "list_all pool_pbuf c \<Longrightarrow> list_all pbuf_live c"
  by (induction c) (auto simp: pool_pbuf_def pbuf_live_def pbuf_get_allocsrc_def cdefs)

text \<open>Trimming, as the code calls it: only when the new length is smaller.\<close>

lemma trim_pool_chain:
  assumes "pool_chain c"
  shows "\<exists>c' e'. (if n < p_tot_len (hd c) then pbuf_realloc c n e else Some (c, e)) = Some (c', e') \<and> pool_chain c'
     \<and> chain_bytes c' = take (unat n) (chain_bytes c) \<and> kept c e c' e'
     \<and> (tl c' \<noteq> [] \<longrightarrow> p_len (hd c') = p_len (hd c)) \<and> p_mem (hd c') = p_mem (hd c) \<and> p_payload (hd c') = p_payload (hd c) \<and> length c' \<le> length c"
proof (cases "n < p_tot_len (hd c)")
  case True
  have c: "c \<noteq> []" "chain_ok c" "list_all pool_pbuf c" using assms by (auto simp: pool_chain_def)
  let ?shrink = "p_tot_len (hd c) - n"
  have le: "unat n \<le> length (chain_bytes c)" using True tot_len_bytes [OF c(2,1)] by (simp add: word_less_nat_alt)
  obtain c' e' where l: "pbuf_realloc_loop c n ?shrink e = Some (c', e')"
    using realloc_loop_returns [OF chain_ok_all [OF c(2)] c(1) pool_live [OF c(3)] le, of ?shrink e] by auto
  have "pbuf_realloc c n e = Some (c', e')" using True l c(1) by (cases c) (auto simp: pbuf_realloc_def not_le)
  then show ?thesis
    using True realloc_loop_spec [OF c(2) le c(1) refl l] realloc_pool_loop [OF c(3) l] by (simp add: pool_chain_def)
next
  case False
  then have "length (chain_bytes c) \<le> unat n"
    using tot_len_bytes [of c] assms by (simp add: pool_chain_def word_less_nat_alt)
  then show ?thesis using False assms by (auto simp: kept_def)
qed

lemma remove_pool_chain:
  assumes "pool_chain (h # t)" and "unat n \<le> unat (p_len h)"
  shows "\<exists>h'. pbuf_remove_header h n = (0, h') \<and> pool_chain (h' # t) \<and> chain_bytes (h' # t) = drop (unat n) (chain_bytes (h # t))
     \<and> unat (p_len h') = unat (p_len h) - unat n \<and> p_mem h' = p_mem h \<and> p_payload h' = p_payload h + uint n"
proof -
  have hok: "pbuf_ok h" and ok: "chain_ok (h # t)" using assms(1) by (simp_all add: pool_chain_def)
  have n: "n \<le> 0xFFFF" using assms(2) unat_u16_less [of "p_len h"] by (simp add: word_le_nat_alt del: unat_u16_less)
  obtain h' where h': "pbuf_remove_header h n = (0, h')" "pbuf_ok h'" "pbuf_data h' = drop (unat n) (pbuf_data h)"
    "unat (p_len h') = unat (p_len h) - unat n" "p_tot_len h' = p_tot_len h - ucast n" "p_mem h' = p_mem h"
    using remove_header_spec [OF hok assms(2)] by auto
  have rest: "p_type h' = p_type h \<and> p_flags h' = p_flags h \<and> p_ref h' = p_ref h \<and> p_payload h' = p_payload h + uint n"
    using h'(1) by (auto simp: pbuf_remove_header_def Let_def split: if_splits)
  have "unat (p_len h) \<le> unat (p_tot_len h)" using ok by simp
  then have tot': "unat (p_tot_len h') = unat (p_tot_len h) - unat n"
    unfolding h'(5) by (subst unat_sub) (use assms(2) n in \<open>simp_all add: word_le_nat_alt unat_ucast_16\<close>)
  have "chain_bytes (h' # t) = drop (unat n) (chain_bytes (h # t))" using h'(3) assms(2) hok by simp
  moreover have "chain_ok (h' # t)" using ok h'(2,4) tot' assms(2) by simp
  ultimately show ?thesis using h' rest assms(1) by (simp add: pool_chain_def pool_pbuf_def)
qed

section \<open>The decision\<close>

definition ip_packet :: "pchain \<Rightarrow> bool" where
  "ip_packet c \<longleftrightarrow> pool_chain c \<and> roomy 64 c \<and> nat (p_payload (hd c)) \<le> 1400"

definition upper_globals :: "netif \<Rightarrow> u32 \<Rightarrow> u32 \<Rightarrow> nat \<Rightarrow> netif ip_globals" where
  "upper_globals inp src dest hl = \<lparr>current_src = src, current_dest = dest, current_header_tot_len = of_nat hl, current_netif = inp\<rparr>"

text \<open>
  What the code does for each verdict, with \<open>r\<close> the result of the call. A fragment goes to
  reassembly, trimmed; other payloads go to UDP or ICMP, and a unicast packet of another
  protocol is answered and dropped.
\<close>

fun ip4_does :: "'a lan_scheme ip_ops \<Rightarrow> pchain \<Rightarrow> netif \<Rightarrow> 'a lan_scheme \<Rightarrow> ip_verdict \<Rightarrow> 'a lan_scheme option \<Rightarrow> bool" where
  "ip4_does ops c inp s Ip_drop r \<longleftrightarrow> (\<exists>e. r = Some (s\<lparr>penv := e\<rparr>) \<and> kept c (penv s) [] e)"
| "ip4_does ops c inp s Ip_fragment r \<longleftrightarrow>
     (\<exists>c' e g. pool_chain c' \<and> chain_bytes c' = take (ip_len (chain_bytes c)) (chain_bytes c) \<and> kept c (penv s) c' e
        \<and> r = do { (p, s1) \<leftarrow> op_ip4_reass ops c' (s\<lparr>penv := e\<rparr>);
                  if p = [] then Some s1 else ip4_input_upper ops p (of_nat (ip_hlen (chain_bytes c))) (g (IPH_HL_BYTES (hd p))) s1 })"
| "ip4_does ops c inp s (Ip_upper proto src dest hl body) r \<longleftrightarrow>
     (\<exists>q e. pool_chain q \<and> kept c (penv s) q e \<and> (\<forall>k. roomy k c \<longrightarrow> roomy (k - 60) q) \<and>
        (if proto = IP_PROTO_UDP then chain_bytes q = body \<and> r = op_udp_input ops q (upper_globals inp src dest hl) (s\<lparr>penv := e\<rparr>)
         else if proto = IP_PROTO_ICMP then chain_bytes q = body \<and> r = op_icmp_input ops q (upper_globals inp src dest hl) (s\<lparr>penv := e\<rparr>)
         else if ip4_addr_isbroadcast_u32 dest inp = 0 \<and> \<not> ip4_addr_ismulticast dest
         then chain_bytes q = take (ip_len (chain_bytes c)) (chain_bytes c)
              \<and> r = do { s1 \<leftarrow> op_icmp_dest_unreach ops q ICMP_DUR_PROTO (s\<lparr>penv := e\<rparr>); ip4_drop q s1 }
         else \<exists>e. r = Some (s\<lparr>penv := e\<rparr>) \<and> kept c (penv s) [] e))"

lemma force_restores:
  assumes "pool_chain (h # t)" and "pbuf_remove_header h (ucast n) = (0, h')" and "unat n \<le> unat (p_len h)" and "0 < unat n" and "unat n \<le> 60"
  shows "pbuf_header_force h' (sint (n :: u16)) = (0, h)"
proof -
  have u: "uint n = int (unat n)" by simp
  then have "0 \<le> uint n" "uint n \<le> 60" using assms(5) by linarith+
  then have "- (2 ^ 15) \<le> uint n" "uint n < 2 ^ 15" by (simp_all add: order_trans [of "- 32768" 0])
  then have "sint n = uint n" unfolding sint_uint by (intro signed_take_bit_int_eq_self) simp_all
  then have s: "sint n = int (unat n)" using u by (rule trans)
  have w: "(word_of_int (int (unat n)) :: u32) = ucast n" by (simp add: word_unat_eq_iff)
  have z: "(ucast n :: u32) \<noteq> 0" using assms(4) by (metis unat_ucast_16_32 unat_0 less_irrefl)
  have b: "(ucast (ucast n :: u32) :: u16) = n" by (rule bit_word_eqI) (simp add: bit_simps)
  have i: "uint (ucast n :: u32) = uint n" by (metis unat_ucast_16_32 uint_nat)
  have m: "\<not> (ucast n :: u32) > 0xFFFF" using assms(5) by (simp add: word_less_nat_alt)
  have "n \<le> p_len h" using assms(3) by (simp add: word_le_nat_alt)
  then have h': "h' = h\<lparr>p_payload := p_payload h + uint n, p_len := p_len h - n, p_tot_len := p_tot_len h - n\<rparr>"
    using assms(2) z b i m by (simp add: pbuf_remove_header_def Let_def)
  have tot: "unat (p_len h) \<le> unat (p_tot_len h)" and ok: "pbuf_ok h" and ty: "p_type h = PBUF_POOL"
    using assms(1) by (simp_all add: pool_chain_def pool_pbuf_def)
  have "n \<le> p_tot_len h" using tot assms(3) by (simp add: word_le_nat_alt)
  moreover have "0 \<le> p_payload h" using ok by (simp add: pbuf_ok_def)
  ultimately show ?thesis
    unfolding pbuf_header_force_def pbuf_header_impl_def s w
    by (simp add: pbuf_add_header_impl_def h' Let_def ty cdefs z b i m [simplified] not_less)
qed

lemma roomy_less: "roomy k (h # t) \<Longrightarrow> unat (p_len h) \<le> unat (p_len h') + 60 \<Longrightarrow> roomy (k - 60) (h' # t)"
  by (auto simp: roomy_def)

lemma upper_does:
  assumes c: "pool_chain (h # t)" and n: "20 \<le> unat n" "unat n \<le> 60" "unat n \<le> unat (p_len h)"
    and k: "kept c0 (penv s0) (h # t) e" "s = s0\<lparr>penv := e\<rparr>" "\<forall>k. roomy k c0 \<longrightarrow> roomy k (h # t)"
    and b: "chain_bytes (h # t) = take (ip_len (chain_bytes c0)) (chain_bytes c0)"
    and p: "IPH_PROTO h = proto" and body: "drop (unat n) (chain_bytes (h # t)) = body"
  shows "ip4_does ops c0 inp s0 (Ip_upper proto src dest hl body) (ip4_input_upper ops (h # t) n (upper_globals inp src dest hl) s)"
proof -
  obtain h' where h': "pbuf_remove_header h (ucast n) = (0, h')" "pool_chain (h' # t)"
    "chain_bytes (h' # t) = drop (unat n) (chain_bytes (h # t))" "unat (p_len h') = unat (p_len h) - unat n"
    using remove_pool_chain [OF c, of "ucast n"] n(3) by auto
  have ro: "\<forall>k. roomy k c0 \<longrightarrow> roomy (k - 60) (h' # t)" "\<forall>k. roomy k c0 \<longrightarrow> roomy (k - 60) (h # t)"
    using k(3) roomy_less [of _ h t h'] roomy_less [of _ h t h] h'(4) n(2) by simp_all
  have k': "kept c0 (penv s0) (h' # t) e" using k(1) by (simp add: kept_def)
  have f: "pbuf_header_force h' (sint n) = (0, h)" using force_restores [OF c h'(1) n(3)] n by simp
  obtain e' where d: "ip4_drop (h' # t) s = Some (s\<lparr>penv := e'\<rparr>)" "kept (h' # t) (penv s) [] e'"
    using drop_pool_chain [OF h'(2)] by blast
  have d': "kept c0 (penv s0) [] e'" using d(2) k' k(2) by (auto simp: kept_def)
  let ?u = "\<not> (ip4_addr_isbroadcast_u32 dest inp = 0 \<and> \<not> ip4_addr_ismulticast dest)"
  consider "proto = IP_PROTO_UDP" | "proto \<noteq> IP_PROTO_UDP" "proto = IP_PROTO_ICMP"
    | "proto \<noteq> IP_PROTO_UDP" "proto \<noteq> IP_PROTO_ICMP" ?u | "proto \<noteq> IP_PROTO_UDP" "proto \<noteq> IP_PROTO_ICMP" "\<not> ?u"
    by blast
  then show ?thesis
  proof cases
    case 4
    then show ?thesis unfolding ip4_does.simps
      by (intro exI [of _ "h # t"] exI [of _ e]) (use f h'(1) c k ro p b in \<open>simp add: ip4_input_upper_def upper_globals_def Let_def\<close>)
  next
    case 3
    have "ip4_input_upper ops (h # t) n (upper_globals inp src dest hl) s = Some (s0\<lparr>penv := e'\<rparr>)"
      using 3 d(1) h'(1) p k(2) by (auto simp: ip4_input_upper_def upper_globals_def)
    then show ?thesis unfolding ip4_does.simps using 3 d'
      by (intro exI [of _ "h' # t"] exI [of _ e]) (simp add: h'(2) k' ro, blast)
  next
    case 1
    then show ?thesis unfolding ip4_does.simps
      by (intro exI [of _ "h' # t"] exI [of _ e]) (use h' k' k(2) ro p body in \<open>simp add: ip4_input_upper_def upper_globals_def\<close>)
  next
    case 2
    then show ?thesis unfolding ip4_does.simps
      by (intro exI [of _ "h' # t"] exI [of _ e]) (use h' k' k(2) ro p body in \<open>simp add: ip4_input_upper_def upper_globals_def\<close>)
  qed
qed

lemma field16_take: "off + 2 \<le> n \<Longrightarrow> field16 (take n bs) off = field16 bs off"
  by (simp add: field16_def)

lemma field32_take: "off + 4 \<le> n \<Longrightarrow> field32 (take n bs) off = field32 bs off"
  by (simp add: field32_def drop_take min_def)

lemma field16_drop: "field16 (drop n bs) off = field16 bs (n + off)" if "n \<le> length bs"
  using that by (simp add: field16_def)

lemma field16_append: "off + 2 \<le> length xs \<Longrightarrow> field16 (xs @ ys) off = field16 xs off"
  by (simp add: field16_def nth_append)

text \<open>The destination port the code looks at, also when it lies behind the packet.\<close>

lemma port_read:
  assumes c: "pool_chain (h # t)" and r: "roomy 64 (h # t)" "nat (p_payload h) \<le> 1400" and n: "20 \<le> n" "n \<le> 60" "n \<le> unat (p_len h)"
  shows "lwip_htons (get16 h (n + 2)) = field16 (drop n (chain_bytes (h # t)) @ drop (nat (p_payload h) + length (chain_bytes (h # t))) (p_mem h)) 2"
proof -
  have ok: "chain_ok (h # t)" "pbuf_ok h" and mem: "length (p_mem h) = 1536" using c by (auto simp: pool_chain_def pool_pbuf_def)
  show ?thesis
  proof (cases "n + 4 \<le> unat (p_len h)")
    case True
    then have "n + 4 \<le> length (chain_bytes (h # t))" using len_first [OF ok(1)] by linarith
    then show ?thesis using get16_net [OF ok(1), of "n + 2"] True
      by (simp add: field16_append field16_drop del: chain_bytes_simps chain_ok_simps)
  next
    case False
    then have t: "t = []" using r(1) n(2) by (cases t) (auto simp: roomy_def)
    let ?i = "nat (p_payload h)"
    have bs: "chain_bytes (h # t) = take (unat (p_len h)) (drop ?i (p_mem h))" by (simp add: t pbuf_data_def pbuf_read_def)
    have l: "length (chain_bytes (h # t)) = unat (p_len h)" "?i + unat (p_len h) \<le> 1536"
      using ok(2) mem by (auto simp: t pbuf_ok_def)
    have "drop n (chain_bytes (h # t)) @ drop (?i + unat (p_len h)) (p_mem h) = drop (?i + n) (p_mem h)"
    proof -
      have "drop (?i + unat (p_len h)) (p_mem h) = drop (unat (p_len h) - n) (drop (?i + n) (p_mem h))" using n(3) by (simp add: add.commute)
      moreover have "drop n (chain_bytes (h # t)) = take (unat (p_len h) - n) (drop (?i + n) (p_mem h))"
        unfolding bs by (simp add: drop_take add.commute)
      ultimately show ?thesis by (metis append_take_drop_id)
    qed
    moreover have "pbuf_read h (n + 2) 2 = [p_mem h ! (?i + n + 2), p_mem h ! Suc (?i + n + 2)]"
      using take_2_drop [of "?i + n + 2" "p_mem h"] mem r(2) n(2) by (simp add: pbuf_read_def add.assoc)
    ultimately show ?thesis unfolding l(1) using mem r(2) n(2)
      by (simp add: get16_def htons_load16 field16_def add.assoc numeral_3_eq_3)
  qed
qed

lemma htons_eq_iff: "lwip_htons x = lwip_htons y \<longleftrightarrow> x = y"
  by (metis htons_involution)

lemma link_port: "IP_ACCEPT_LINK_LAYER_ADDRESSED_PORT x \<longleftrightarrow> lwip_htons x = LWIP_IANA_PORT_DHCP_CLIENT"
  unfolding IP_ACCEPT_LINK_LAYER_ADDRESSED_PORT_def
  by (metis htons_involution lwip_htons_def)

lemma netif_found:
  assumes "get32 h 16 = dest" and "IPH_PROTO h = proto" and "lwip_htons (get16 h (unat n + 2)) = port"
  shows "ip4_input_netif h n inp =
     (for_us inp dest \<or> proto = IP_PROTO_UDP \<and> port = LWIP_IANA_PORT_DHCP_CLIENT,
      \<not> (\<not> for_us inp dest \<and> proto = IP_PROTO_UDP \<and> port = LWIP_IANA_PORT_DHCP_CLIENT))"
  using assms unfolding ip4_input_netif_def Let_def link_port for_us_def ip4_input_accept_def by auto

lemma route_does:
  assumes c: "pool_chain (h # t)" and r: "roomy 64 (h # t)" "nat (p_payload h) \<le> 1400"
    and n: "20 \<le> unat n" "unat n \<le> 60" "unat n \<le> unat (p_len h)"
    and k: "kept c0 (penv s0) (h # t) e" "s = s0\<lparr>penv := e\<rparr>" "\<forall>k. roomy k c0 \<longrightarrow> roomy k (h # t)"
    and hd: "ip_header_ok (chain_bytes c0)" "unat n = ip_hlen (chain_bytes c0)" "chain_bytes (h # t) = take (ip_len (chain_bytes c0)) (chain_bytes c0)"
  shows "ip4_does ops c0 inp s0 (ip4_spec inp (drop (nat (p_payload h) + ip_len (chain_bytes c0)) (p_mem h)) (chain_bytes c0))
     (ip4_input_route ops (h # t) n inp s)"
proof -
  define bs where "bs = chain_bytes c0"
  have ok: "chain_ok (h # t)" using c by (simp add: pool_chain_def)
  have len: "ip_len bs \<le> length bs" "unat n \<le> ip_len bs" using hd(1,2) by (auto simp: bs_def ip_header_ok_def)
  have l1: "length (chain_bytes (h # t)) = ip_len bs" using hd(3) len(1) by (simp add: bs_def del: chain_bytes_simps)
  let ?body = "drop (unat n) (chain_bytes (h # t))"
  let ?junk = "drop (nat (p_payload h) + ip_len bs) (p_mem h)"
  have f: "get32 h 12 = field32 bs 12" "get32 h 16 = field32 bs 16" "IPH_PROTO h = bs ! 9" "lwip_htons (IPH_OFFSET h) = field16 bs 6"
    "unat (IPH_HL_BYTES h) = ip_hlen bs"
    using get32_field [OF ok, of 12] get32_field [OF ok, of 16] get8_field [OF ok, of 9] get8_field [OF ok, of 0] get16_net [OF ok, of 6]
      n len hd(3) hl_bytes [of h]
    by (simp_all add: bs_def [symmetric] field32_take field16_take IPH_PROTO_def IPH_OFFSET_def ip_hlen_def del: chain_bytes_simps)
  have p: "lwip_htons (get16 h (unat n + 2)) = field16 (?body @ ?junk) 2" using port_read [OF c r n] l1 by (simp del: chain_bytes_simps)
  have b: "?body = take (ip_len bs - ip_hlen bs) (drop (ip_hlen bs) bs)"
    unfolding hd(3) bs_def [symmetric] hd(2) [folded bs_def] by (simp add: drop_take)
  obtain e' where d: "ip4_drop (h # t) s = Some (s0\<lparr>penv := e'\<rparr>)" "kept c0 (penv s0) [] e'"
    using drop_pool_chain [OF c, of s] k by (auto simp: kept_def)
  let ?dhcp = "bs ! 9 = IP_PROTO_UDP \<and> field16 (?body @ ?junk) 2 = LWIP_IANA_PORT_DHCP_CLIENT"
  let ?us = "for_us inp (field32 bs 16)" and ?bad = "bad_source inp (field32 bs 12)"
  let ?frag = "unat (field16 bs 6) mod 16384 \<noteq> 0"
  have route: "ip4_input_route ops (h # t) n inp s =
      (if ?us \<and> ?bad \<or> \<not> ?us \<and> \<not> ?dhcp then ip4_drop (h # t) s
       else do { (p1, s1) \<leftarrow> (if ?frag then op_ip4_reass ops (h # t) s else Some (h # t, s));
                 if p1 = [] then Some s1 else ip4_input_upper ops p1 n
                   \<lparr>current_src = field32 bs 12, current_dest = field32 bs 16, current_header_tot_len = ucast (IPH_HL_BYTES (List.hd p1)), current_netif = inp\<rparr> s1 })"
    unfolding ip4_input_route_def Let_def bad_source_def
    by (simp only: list.sel f(1,2) netif_found [OF f(2,3) p] offset_bits f(4) prod.case, cases ?us) auto
  have spec: "ip4_spec inp ?junk bs = (if ?us \<and> ?bad \<or> \<not> ?us \<and> \<not> ?dhcp then Ip_drop else if ?frag then Ip_fragment
      else Ip_upper (bs ! 9) (field32 bs 12) (field32 bs 16) (ip_hlen bs) ?body)"
    using hd(1) unfolding ip4_spec_def b bs_def [symmetric] by (simp add: Let_def)
  show ?thesis
  proof (cases "?us \<and> ?bad \<or> \<not> ?us \<and> \<not> ?dhcp")
    case True
    then show ?thesis unfolding bs_def [symmetric] route spec using d by (simp only: if_True ip4_does.simps) blast
  next
    case acc: False
    show ?thesis
    proof (cases ?frag)
      case True
      have nb: "of_nat (ip_hlen bs) = n" unfolding bs_def hd(2) [symmetric] by simp
      show ?thesis unfolding bs_def [symmetric] route spec if_not_P [OF acc] if_P [OF True] ip4_does.simps nb
        by (rule exI [of _ "h # t"], rule exI [of _ e], rule exI [of _ "\<lambda>hl. \<lparr>current_src = field32 bs 12, current_dest = field32 bs 16,
            current_header_tot_len = ucast hl, current_netif = inp\<rparr>"]) (use c k hd in \<open>simp add: bs_def [symmetric] nb del: chain_bytes_simps\<close>)
    next
      case False
      have g: "\<lparr>current_src = field32 bs 12, current_dest = field32 bs 16, current_header_tot_len = ucast (IPH_HL_BYTES h), current_netif = inp\<rparr>
          = upper_globals inp (field32 bs 12) (field32 bs 16) (ip_hlen bs)"
        unfolding upper_globals_def f(5) [symmetric] by (simp add: word_unat_eq_iff unat_of_nat_u16)
      show ?thesis unfolding bs_def [symmetric] route spec if_not_P [OF acc] if_not_P [OF False]
        using upper_does [OF c n k hd(3) f(3) refl, of ops inp "field32 bs 12" "field32 bs 16" "ip_hlen bs"] by (simp add: g del: ip4_does.simps chain_bytes_simps)
    qed
  qed
qed

text \<open>The bytes behind the packet in its first buffer.\<close>

definition behind :: "pchain \<Rightarrow> u8 list" where
  "behind c = drop (nat (p_payload (hd c)) + ip_len (chain_bytes c)) (p_mem (hd c))"

lemma hl_word: "unat (ucast (IPH_HL_BYTES h) :: u16) = 4 * (unat (get8 h 0) mod 16)"
  by (simp add: hl_bytes)

lemma first_byte: "pool_chain (h # t) \<Longrightarrow> 0 < unat (p_len h) \<Longrightarrow> get8 h 0 = chain_bytes (h # t) ! 0"
  using get8_field [of h t 0] by (simp add: pool_chain_def del: chain_bytes_simps chain_ok_simps)

lemma single_len: "chain_ok [h] \<Longrightarrow> unat (p_len h) = length (chain_bytes [h])"
  by simp

lemma ip4_input_does:
  assumes p: "ip_packet c" and ne: "0 < unat (p_len (hd c))"
  shows "ip4_does ops c inp s (ip4_spec inp (behind c) (chain_bytes c)) (ip4_input ops is_odd c inp s)"
proof -
  obtain h t where c: "c = h # t" using p by (cases c) (auto simp: ip_packet_def pool_chain_def)
  define bs where "bs = chain_bytes c"
  have pc: "pool_chain c" "roomy 64 c" "nat (p_payload h) \<le> 1400" and ok: "chain_ok (h # t)"
    using p c by (auto simp: ip_packet_def pool_chain_def)
  have b0: "get8 h 0 = bs ! 0" using first_byte [of h t] pc(1) ne by (simp add: bs_def c del: chain_bytes_simps)
  have lh: "unat (p_len h) \<le> length bs" using len_first [OF ok] by (simp add: bs_def c)
  have drop: "ip4_does ops c inp s Ip_drop (ip4_drop c' (s\<lparr>penv := e\<rparr>))" if d: "pool_chain c'" "kept c (penv s) c' e" for c' e
    using drop_pool_chain [OF d(1), of "s\<lparr>penv := e\<rparr>"] d(2) by (auto simp: kept_def)
  let ?hl = "ucast (IPH_HL_BYTES h) :: u16" and ?len = "lwip_htons (IPH_LEN h)"
  have hl: "unat ?hl = ip_hlen bs" "unat ?hl \<le> 60" by (simp_all add: hl_word b0 ip_hlen_def del: unat_ucast_8_16)
  show ?thesis
  proof (cases "unat (bs ! 0) div 16 = 4")
    case False
    then have "ip4_spec inp (behind c) bs = Ip_drop" by (simp add: ip4_spec_def ip_header_ok_def)
    moreover have "ip4_input ops is_odd c inp s = ip4_drop c s" using False by (simp add: ip4_input_def c iph_v b0)
    ultimately show ?thesis using drop [OF pc(1), of "penv s"] by (simp add: bs_def kept_def)
  next
    case v4: True
    obtain c1 e where t: "(if ?len < p_tot_len (hd c) then pbuf_realloc c ?len (penv s) else Some (c, penv s)) = Some (c1, e)"
      "pool_chain c1" "chain_bytes c1 = take (unat ?len) bs" "kept c (penv s) c1 e"
      "tl c1 \<noteq> [] \<longrightarrow> p_len (hd c1) = p_len h" "p_mem (hd c1) = p_mem h" "p_payload (hd c1) = p_payload h" "length c1 \<le> length c"
      using trim_pool_chain [OF pc(1), of ?len "penv s"] by (auto simp: bs_def c)
    obtain h1 t1 where c1: "c1 = h1 # t1" using t(2) by (cases c1) (auto simp: pool_chain_def)
    have ok1: "chain_ok (h1 # t1)" using t(2) by (simp add: pool_chain_def c1)
    have tot: "unat (p_tot_len h1) = min (unat ?len) (length bs)" using chain_tot_bytes [OF ok1] t(3) by (simp add: c1 del: chain_bytes_simps)
    have ro1: "\<forall>k. roomy k c \<longrightarrow> roomy k c1" using t(5,8) by (cases t) (auto simp: roomy_def c c1)
    have eq: "ip4_input ops is_odd c inp s =
       (if ?hl > p_len h1 \<or> ?len > p_tot_len h1 \<or> ?hl < IP_HLEN then ip4_drop c1 (s\<lparr>penv := e\<rparr>)
        else if inet_chksum (is_odd h1) (pbuf_read h1 0 (unat ?hl)) \<noteq> 0 then ip4_drop c1 (s\<lparr>penv := e\<rparr>)
        else ip4_input_route ops c1 ?hl inp (s\<lparr>penv := e\<rparr>))"
      unfolding ip4_input_def c list.case Let_def c1 using v4
      by (simp add: t(1) [unfolded c c1 list.sel] iph_v b0 split del: if_split del: unat_ucast_8_16) (simp only: list.sel)
    have ph: "min 64 (length bs) \<le> unat (p_len h)"
      using pc(2) single_len [of h] ok by (cases t) (auto simp: roomy_def c bs_def)
    show ?thesis
    proof (cases "20 \<le> length bs")
      case False
      have "?hl > p_len h1 \<or> ?hl < IP_HLEN"
      proof -
        have "unat (p_len h1) < 20" using len_first [OF ok1] t(3) False by (simp add: c1 del: chain_bytes_simps)
        then show ?thesis by (auto simp: word_less_nat_alt cdefs)
      qed
      then have "ip4_input ops is_odd c inp s = ip4_drop c1 (s\<lparr>penv := e\<rparr>)" unfolding eq by auto
      moreover have "ip4_spec inp (behind c) bs = Ip_drop" using False by (simp add: ip4_spec_def ip_header_ok_def)
      ultimately show ?thesis using drop [OF t(2,4)] by (simp add: bs_def)
    next
      case l20: True
      have len: "unat ?len = ip_len bs"
        using get16_net [OF ok, of 2] ph l20 by (simp add: ip_len_def IPH_LEN_def bs_def c del: chain_bytes_simps chain_ok_simps)
      have "t1 = [] \<Longrightarrow> unat (p_len h1) = min (ip_len bs) (length bs)"
        using single_len [of h1] ok1 t(3) len by (simp add: c1 min.commute del: chain_bytes_simps chain_ok_simps)
      moreover have "t1 \<noteq> [] \<Longrightarrow> 64 \<le> unat (p_len h1)" using ro1 pc(2) by (auto simp: c1 roomy_def)
      ultimately have p1: "t1 = [] \<Longrightarrow> unat (p_len h1) = min (ip_len bs) (length bs)" "t1 \<noteq> [] \<Longrightarrow> 64 \<le> unat (p_len h1)" by auto
      have le1: "unat (p_len h1) \<le> min (ip_len bs) (length bs)" using len_first [OF ok1] t(3) len by (simp add: c1 del: chain_bytes_simps)
      have lens: "?hl > p_len h1 \<or> ?len > p_tot_len h1 \<or> ?hl < IP_HLEN \<longleftrightarrow>
          \<not> (20 \<le> ip_hlen bs \<and> ip_hlen bs \<le> ip_len bs \<and> ip_len bs \<le> length bs)"
      proof -
        have "?len > p_tot_len h1 \<longleftrightarrow> \<not> ip_len bs \<le> length bs" using tot len by (simp add: word_less_nat_alt min_def)
        moreover have "?hl < IP_HLEN \<longleftrightarrow> \<not> 20 \<le> ip_hlen bs" using hl(1) by (simp add: word_less_nat_alt cdefs not_le del: unat_ucast_8_16)
        moreover have "?hl > p_len h1 \<longleftrightarrow> \<not> ip_hlen bs \<le> ip_len bs" if "ip_len bs \<le> length bs"
          using hl p1 le1 that by (cases "t1 = []") (auto simp: word_less_nat_alt not_le simp del: unat_ucast_8_16)
        ultimately show ?thesis by blast
      qed
      show ?thesis
      proof (cases "20 \<le> ip_hlen bs \<and> ip_hlen bs \<le> ip_len bs \<and> ip_len bs \<le> length bs")
        case False
        then have "ip4_input ops is_odd c inp s = ip4_drop c1 (s\<lparr>penv := e\<rparr>)" unfolding eq using lens by simp
        moreover have "ip4_spec inp (behind c) bs = Ip_drop" using False by (auto simp: ip4_spec_def ip_header_ok_def)
        ultimately show ?thesis using drop [OF t(2,4)] by (simp add: bs_def)
      next
        case hok: True
        have hp: "unat ?hl \<le> unat (p_len h1)" using hok lens hl(1) by (auto simp: word_less_nat_alt not_less)
        have "pbuf_read h1 0 (unat ?hl) = take (ip_hlen bs) bs"
          using field_read [OF ok1, of 0 "unat ?hl"] hp t(3) len hok by (simp add: c1 hl(1) min_def del: chain_bytes_simps unat_ucast_8_16)
        then have chk: "inet_chksum (is_odd h1) (pbuf_read h1 0 (unat ?hl)) = rfc1071 (take (ip_hlen bs) bs)"
          using hl by (simp add: inet_chksum_spec del: unat_ucast_8_16)
        show ?thesis
        proof (cases "rfc1071 (take (ip_hlen bs) bs) = 0")
          case False
          then have "ip4_input ops is_odd c inp s = ip4_drop c1 (s\<lparr>penv := e\<rparr>)" unfolding eq using chk by simp
          moreover have "ip4_spec inp (behind c) bs = Ip_drop" using False by (auto simp: ip4_spec_def ip_header_ok_def)
          ultimately show ?thesis using drop [OF t(2,4)] by (simp add: bs_def)
        next
          case True
          have "ip4_input ops is_odd c inp s = ip4_input_route ops c1 ?hl inp (s\<lparr>penv := e\<rparr>)"
            unfolding eq using lens hok chk True by simp
          moreover have "ip_header_ok (chain_bytes c)" using hok True l20 v4 by (simp add: ip_header_ok_def bs_def)
          moreover have "behind c = drop (nat (p_payload h1) + ip_len (chain_bytes c)) (p_mem h1)"
            using t(6,7) by (simp add: behind_def c c1)
          ultimately show ?thesis
            using route_does [OF t(2) [unfolded c1] _ _ _ hl(2) hp t(4) [unfolded c1] refl ro1 [unfolded c1], where inp = inp and ops = ops]
              ro1 pc(2,3) t(3,7) hok hl(1) len
            by (simp add: c1 bs_def del: chain_bytes_simps chain_ok_simps ip4_does.simps unat_ucast_8_16)
        qed
      qed
    qed
  qed
qed

section \<open>Properties\<close>

text \<open>
  C37. IP input is exact: for a received packet, \<open>ip4_input\<close> does what \<open>ip4_spec\<close> says of
  its bytes. It drops the packet and gives all its buffers back unless the version is 4, the
  header length and total length are consistent with each other and with the packet, the
  header checksum verifies, the source is not a broadcast or multicast address, and the
  packet is for the interface or for the DHCP client port; a fragment goes to reassembly;
  anything else goes to the protocol of its header, with exactly the payload between header
  length and total length, link padding removed, and no buffer lost.
\<close>

theorem ip4_input_correct:
  assumes "ip_packet c" and "0 < unat (p_len (hd c))"
  shows "ip4_does ops c inp s (ip4_spec inp (behind c) (chain_bytes c)) (ip4_input ops is_odd c inp s)"
  using assms by (rule ip4_input_does)

definition small_packet :: "u8 list" where
  "small_packet = [69, 0, 0, 28, 0, 0, 0, 0, 64, 17, 4, 34, 162, 159, 200, 1, 10, 0, 2, 15] @ [0, 53, 0xC0, 1, 0, 8, 0, 0]"

definition small_pbuf :: pbuf where
  "small_pbuf = pbuf_init_alloced_pbuf (small_packet @ replicate 1508 0) 0 28 28 PBUF_POOL 0"

definition small_netif :: netif where
  "small_netif = \<lparr>ip_addr = IP4_ADDR 10 0 2 15, netmask = IP4_ADDR 255 255 255 0, gw = IP4_ADDR 10 0 2 2, mtu = 1500,
     hwaddr = [2, 0, 0, 0, 0, 1], hwaddr_len = 6, flags = 0x0F, nif_name = ''st'', num = 0\<rparr>"

lemma small_packet_spec: "ip4_spec small_netif j small_packet = Ip_upper 17 (IP4_ADDR 162 159 200 1) (IP4_ADDR 10 0 2 15) 20 [0, 53, 0xC0, 1, 0, 8, 0, 0]"
proof -
  have l: "ip_hlen small_packet = 20" "ip_len small_packet = 28" by (simp_all add: ip_hlen_def ip_len_def field16_def small_packet_def)
  have "rfc1071 (take 20 small_packet) = 0" by (simp add: small_packet_def rfc1071_def ones_comp_def)
  then have ok: "ip_header_ok small_packet" unfolding ip_header_ok_def l by (simp add: small_packet_def)
  have f: "field32 small_packet 12 = IP4_ADDR 162 159 200 1" "field32 small_packet 16 = IP4_ADDR 10 0 2 15" "field16 small_packet 6 = 0" "small_packet ! 9 = 17"
    by (simp_all add: field32_def field16_def word_of_bytes_def small_packet_def IP4_ADDR_def PP_HTONL_def LWIP_MAKEU32_def)
  have us: "for_us small_netif (IP4_ADDR 10 0 2 15)" "\<not> bad_source small_netif (IP4_ADDR 162 159 200 1)"
    by (simp_all add: for_us_def bad_source_def small_netif_def ip4_addr_isbroadcast_u32_def ip4_addr_net_eq_def ip4_addr_ismulticast_def
        IP4_ADDR_def PP_HTONL_def LWIP_MAKEU32_def cdefs)
  show ?thesis unfolding ip4_spec_def f l Let_def using ok us by (simp add: small_packet_def)
qed

theorem ip4_input_correct_witness:
  "\<exists>q e. pool_chain q \<and> chain_bytes q = [0, 53, 0xC0, 1, 0, 8, 0, 0] \<and>
     ip4_input \<lparr>op_udp_input = (\<lambda>q g s. Some s), op_icmp_input = (\<lambda>q g s. None), op_icmp_dest_unreach = (\<lambda>q k s. None), op_ip4_reass = (\<lambda>q s. None)\<rparr>
       (\<lambda>_. False) [small_pbuf] small_netif sample_lan = Some (sample_lan\<lparr>penv := e\<rparr>)"
proof -
  have p: "ip_packet [small_pbuf]" "0 < unat (p_len (hd [small_pbuf]))" "chain_bytes [small_pbuf] = small_packet"
    by (simp_all add: ip_packet_def pool_chain_def pool_pbuf_def roomy_def small_pbuf_def small_packet_def pbuf_init_alloced_pbuf_def
        pbuf_ok_def pbuf_data_def pbuf_read_def cdefs)
  let ?ops = "\<lparr>op_udp_input = (\<lambda>q g s. Some s), op_icmp_input = (\<lambda>q g s. None), op_icmp_dest_unreach = (\<lambda>q k s. None), op_ip4_reass = (\<lambda>q s. None)\<rparr> :: lan ip_ops"
  have u: "(17 :: u8) = IP_PROTO_UDP" by (simp add: cdefs)
  from ip4_input_correct [OF p(1,2), where ops = ?ops and inp = small_netif and s = sample_lan and is_odd = "\<lambda>_. False",
      unfolded p(3) small_packet_spec ip4_does.simps if_P [OF u]]
  show ?thesis by auto
qed

end
