(* ===== verification/Lwip_Ethernet.thy ===== *)
theory Lwip_Ethernet
  imports Lwip_Ip4
begin

text \<open>
  The Ethernet layer, \<open>lwip/src/netif/ethernet.c\<close>, without VLAN tags and PPPoE:
  \<open>ethernet_input\<close>, which is the input function of the interface, and \<open>ethernet_output\<close> on
  the driver's \<open>lan9118_linkoutput\<close>. ARP input (\<open>etharp.c\<close>) is a further argument.

  Lemmas: the demultiplexing of a received frame by its bytes, and the frame that is sent.
\<close>

section \<open>Operations\<close>

definition SIZEOF_ETH_HDR :: u16 where [cdefs]: "SIZEOF_ETH_HDR = 14"
definition ETHTYPE_IP :: u16 where [cdefs]: "ETHTYPE_IP = 0x0800"
definition ETHTYPE_ARP :: u16 where [cdefs]: "ETHTYPE_ARP = 0x0806"
definition PBUF_FLAG_LLBCAST :: u8 where [cdefs]: "PBUF_FLAG_LLBCAST = 0x08"
definition PBUF_FLAG_LLMCAST :: u8 where [cdefs]: "PBUF_FLAG_LLMCAST = 0x10"
definition ethbroadcast :: "u8 list" where "ethbroadcast = replicate 6 0xFF"

type_synonym 's arp_in = "pchain \<Rightarrow> netif \<Rightarrow> 's \<Rightarrow> 's option"

text \<open>The marks of a link-layer multicast or broadcast.\<close>

definition mark_link_dest :: "pbuf \<Rightarrow> pbuf" where
  "mark_link_dest h =
     (if get8 h 0 AND 1 \<noteq> 0
      then if get8 h 0 = 0x01
           then (if get8 h 1 = 0x00 \<and> get8 h 2 = 0x5E then h\<lparr>p_flags := p_flags h OR PBUF_FLAG_LLMCAST\<rparr> else h)
           else if pbuf_read h 0 6 = ethbroadcast then h\<lparr>p_flags := p_flags h OR PBUF_FLAG_LLBCAST\<rparr>
           else h
      else h)"

definition free_and_return :: "pchain \<Rightarrow> 'a lan_scheme \<Rightarrow> (lwip_err \<times> pchain \<times> 'a lan_scheme) option" where
  "free_and_return p s = do { (n, c, e) \<leftarrow> pbuf_free p (penv s); Some (ERR_OK, c, s\<lparr>penv := e\<rparr>) }"

definition ethernet_input ::
  "'a lan_scheme ip_ops \<Rightarrow> 'a lan_scheme arp_in \<Rightarrow> (pbuf \<Rightarrow> bool) \<Rightarrow> netif \<Rightarrow> pchain \<Rightarrow> 'a lan_scheme \<Rightarrow> (lwip_err \<times> pchain \<times> 'a lan_scheme) option" where
  "ethernet_input ops etharp_input is_odd nif p s =
     (case p of [] \<Rightarrow> None
      | h # t \<Rightarrow>
         if p_len h \<le> SIZEOF_ETH_HDR then free_and_return p s
         else let type = get16 h 12;
                  h1 = (if p_if_idx h = 0 then h\<lparr>p_if_idx := num nif + 1\<rparr> else h);
                  h2 = mark_link_dest h1
              in if type = PP_HTONS ETHTYPE_IP
                 then if flags nif AND NETIF_FLAG_ETHARP = 0 then free_and_return (h2 # t) s
                      else (case pbuf_remove_header h2 (ucast SIZEOF_ETH_HDR) of
                              (r, h3) \<Rightarrow> if r \<noteq> 0 then free_and_return (h2 # t) s
                                else do { s1 \<leftarrow> ip4_input ops is_odd (h3 # t) nif s; Some (ERR_OK, [], s1) })
                 else if type = PP_HTONS ETHTYPE_ARP
                 then if flags nif AND NETIF_FLAG_ETHARP = 0 then free_and_return (h2 # t) s
                      else (case pbuf_remove_header h2 (ucast SIZEOF_ETH_HDR) of
                              (r, h3) \<Rightarrow> if r \<noteq> 0 then free_and_return (h2 # t) s
                                else do { s1 \<leftarrow> etharp_input (h3 # t) nif s; Some (ERR_OK, [], s1) })
                 else free_and_return (h2 # t) s)"

definition ethernet_output ::
  "(pbuf \<Rightarrow> u8 list) \<Rightarrow> netif \<Rightarrow> pchain \<Rightarrow> u8 list \<Rightarrow> u8 list \<Rightarrow> u16 \<Rightarrow> 'a lan_scheme \<Rightarrow> (lwip_err \<times> pchain \<times> 'a lan_scheme) option" where
  "ethernet_output after nif p src dst eth_type s =
     (case p of [] \<Rightarrow> None
      | h # t \<Rightarrow>
         (case pbuf_add_header h (ucast SIZEOF_ETH_HDR) of
            (r, h1) \<Rightarrow>
              if r \<noteq> 0 then Some (ERR_BUF, p, s)
              else let h2 = pbuf_write h1 12 (store16 (lwip_htons eth_type));
                       h3 = pbuf_write h2 0 (take 6 dst);
                       h4 = pbuf_write h3 6 (take 6 src)
                   in if hwaddr_len nif \<noteq> 6 then None
                      else do { (err, s1) \<leftarrow> lan9118_linkoutput after (h4 # t) s; Some (err, h4 # t, s1) }))"

section \<open>What is to be done with a frame\<close>

datatype frame_verdict = Fr_drop | Fr_ip "u8 list" | Fr_arp "u8 list"

definition frame_spec :: "netif \<Rightarrow> u8 list \<Rightarrow> frame_verdict" where
  "frame_spec nif bs =
     (if length bs \<le> 14 \<or> flags nif AND NETIF_FLAG_ETHARP = 0 then Fr_drop
      else if field16 bs 12 = ETHTYPE_IP then Fr_ip (drop 14 bs)
      else if field16 bs 12 = ETHTYPE_ARP then Fr_arp (drop 14 bs)
      else Fr_drop)"

text \<open>Marking and numbering the interface do not change what the packet is.\<close>

lemma mark_link_dest_flags:
  "\<exists>x. (x = 0 \<or> x = PBUF_FLAG_LLMCAST \<or> x = PBUF_FLAG_LLBCAST) \<and> mark_link_dest h = h\<lparr>p_flags := p_flags h OR x\<rparr>"
  by (rule exI [of _ "if get8 h 0 AND 1 \<noteq> 0 then if get8 h 0 = 1 then if get8 h 1 = 0 \<and> get8 h 2 = 0x5E then PBUF_FLAG_LLMCAST else 0
        else if pbuf_read h 0 6 = ethbroadcast then PBUF_FLAG_LLBCAST else 0 else 0"]) (simp add: mark_link_dest_def)

lemma mark_link_dest_upd: "\<exists>f i. mark_link_dest (if p_if_idx h = 0 then h\<lparr>p_if_idx := n\<rparr> else h) = h\<lparr>p_flags := f, p_if_idx := i\<rparr>
    \<and> f AND PBUF_FLAG_IS_CUSTOM = p_flags h AND PBUF_FLAG_IS_CUSTOM"
proof -
  define i where "i = (if p_if_idx h = 0 then n else p_if_idx h)"
  have i: "(if p_if_idx h = 0 then h\<lparr>p_if_idx := n\<rparr> else h) = h\<lparr>p_if_idx := i\<rparr>" by (simp add: i_def)
  obtain x where x: "x = 0 \<or> x = PBUF_FLAG_LLMCAST \<or> x = PBUF_FLAG_LLBCAST"
    "mark_link_dest (h\<lparr>p_if_idx := i\<rparr>) = h\<lparr>p_if_idx := i, p_flags := p_flags h OR x\<rparr>"
    using mark_link_dest_flags [of "h\<lparr>p_if_idx := i\<rparr>"] by auto
  have "(p_flags h OR x) AND PBUF_FLAG_IS_CUSTOM = p_flags h AND PBUF_FLAG_IS_CUSTOM"
    using x(1) by (auto simp: cdefs bit.conj_disj_distrib2)
  then show ?thesis unfolding i x(2) by (intro exI [of _ "p_flags h OR x"] exI [of _ i]) simp
qed

lemma fresh_pool_chain: "rx_packet c \<Longrightarrow> pool_chain c"
  by (auto simp: rx_packet_def pool_chain_def pool_pbuf_def fresh_pool_pbuf_def list_all_iff)

lemma pool_chain_upd:
  assumes "pool_chain (h # t)" and "f AND PBUF_FLAG_IS_CUSTOM = p_flags h AND PBUF_FLAG_IS_CUSTOM"
  shows "pool_chain (h\<lparr>p_flags := f, p_if_idx := i\<rparr> # t)" "chain_bytes (h\<lparr>p_flags := f, p_if_idx := i\<rparr> # t) = chain_bytes (h # t)"
  using assms by (simp_all add: pool_chain_def pool_pbuf_def pbuf_ok_def pbuf_data_def pbuf_read_def)

lemma free_and_return_pool:
  "pool_chain c \<Longrightarrow> \<exists>c' e. free_and_return c s = Some (ERR_OK, c', s\<lparr>penv := e\<rparr>) \<and> kept c (penv s) [] e"
  using free_pool_chain [of c "penv s"] by (auto simp: free_and_return_def)

fun frame_does :: "'a lan_scheme ip_ops \<Rightarrow> 'a lan_scheme arp_in \<Rightarrow> (pbuf \<Rightarrow> bool) \<Rightarrow> netif \<Rightarrow> pchain \<Rightarrow> 'a lan_scheme \<Rightarrow> frame_verdict
    \<Rightarrow> (lwip_err \<times> pchain \<times> 'a lan_scheme) option \<Rightarrow> bool" where
  "frame_does ops arp is_odd nif c s Fr_drop r \<longleftrightarrow> (\<exists>c' e. r = Some (ERR_OK, c', s\<lparr>penv := e\<rparr>) \<and> kept c (penv s) [] e)"
| "frame_does ops arp is_odd nif c s (Fr_ip d) r \<longleftrightarrow>
     (\<exists>q. ip_packet q \<and> roomy 1522 q \<and> 0 < unat (p_len (hd q)) \<and> chain_bytes q = d \<and> length q = length c
        \<and> r = map_option (\<lambda>s1. (ERR_OK, [], s1)) (ip4_input ops is_odd q nif s))"
| "frame_does ops arp is_odd nif c s (Fr_arp d) r \<longleftrightarrow>
     (\<exists>q. pool_chain q \<and> chain_bytes q = d \<and> length q = length c
        \<and> r = map_option (\<lambda>s1. (ERR_OK, [], s1)) (arp q nif s))"

lemma bind_ret_map: "Option.bind x (\<lambda>s1. Some (a, b, s1)) = map_option (\<lambda>s1. (a, b, s1)) x"
  by (cases x) auto

lemma htons_type: "lwip_htons x = t \<longleftrightarrow> x = PP_HTONS t"
  by (metis htons_involution lwip_htons_def)

lemma ethernet_input_does:
  assumes "rx_packet c"
  shows "frame_does ops arp is_odd nif c s (frame_spec nif (chain_bytes c)) (ethernet_input ops arp is_odd nif c s)"
proof -
  have pc: "pool_chain c" and ff: "first_full c" using assms fresh_pool_chain by (auto simp: rx_packet_def)
  obtain h t where c: "c = h # t" using pc by (cases c) (auto simp: pool_chain_def)
  have ok: "chain_ok (h # t)" using pc by (simp add: pool_chain_def c)
  have len: "unat (p_len h) \<le> 14 \<longleftrightarrow> length (chain_bytes c) \<le> 14"
    using ff single_len [of h] ok len_first [OF ok] by (cases t) (auto simp: first_full_def c)
  obtain f i where m: "mark_link_dest (if p_if_idx h = 0 then h\<lparr>p_if_idx := num nif + 1\<rparr> else h) = h\<lparr>p_flags := f, p_if_idx := i\<rparr>"
    and fl: "f AND PBUF_FLAG_IS_CUSTOM = p_flags h AND PBUF_FLAG_IS_CUSTOM" using mark_link_dest_upd by blast
  let ?h = "h\<lparr>p_flags := f, p_if_idx := i\<rparr>"
  have pm: "pool_chain (?h # t)" "chain_bytes (?h # t) = chain_bytes c" using pool_chain_upd [OF pc [unfolded c] fl] by (simp_all add: c)
  have free: "frame_does ops arp is_odd nif c s Fr_drop (free_and_return (?h # t) s)"
    using free_and_return_pool [OF pm(1), of s] by (auto simp: kept_def c)
  show ?thesis
  proof (cases "unat (p_len h) \<le> 14")
    case True
    then have "ethernet_input ops arp is_odd nif c s = free_and_return c s"
      by (simp add: ethernet_input_def c word_le_nat_alt cdefs)
    moreover have "frame_spec nif (chain_bytes c) = Fr_drop" using True len by (simp add: frame_spec_def)
    ultimately show ?thesis using free_and_return_pool [OF pc] by simp
  next
    case False
    obtain h3 where h3: "pbuf_remove_header ?h 14 = (0, h3)" "pool_chain (h3 # t)" "chain_bytes (h3 # t) = drop 14 (chain_bytes c)"
      "unat (p_len h3) = unat (p_len h) - 14" "p_payload h3 = p_payload h + 14"
      using remove_pool_chain [OF pm(1), of 14] False pm(2) by (auto simp del: chain_bytes_simps)
    have ip: "ip_packet (h3 # t)" "roomy 1522 (h3 # t)" "0 < unat (p_len h3)"
      using h3 ff False by (auto simp: ip_packet_def roomy_def first_full_def c)
    have ty: "get16 h 12 = PP_HTONS x \<longleftrightarrow> field16 (chain_bytes c) 12 = x" for x
      using get16_net [OF ok, of 12] False htons_type [of "get16 h 12" x] by (simp add: c del: chain_bytes_simps)
    have run: "ethernet_input ops arp is_odd nif c s =
       (if flags nif AND NETIF_FLAG_ETHARP = 0 then free_and_return (?h # t) s
        else if field16 (chain_bytes c) 12 = ETHTYPE_IP then map_option (\<lambda>s1. (ERR_OK, [], s1)) (ip4_input ops is_odd (h3 # t) nif s)
        else if field16 (chain_bytes c) 12 = ETHTYPE_ARP then map_option (\<lambda>s1. (ERR_OK, [], s1)) (arp (h3 # t) nif s)
        else free_and_return (?h # t) s)"
      using False h3(1) unfolding ethernet_input_def c list.case Let_def m ty [unfolded c]
      by (simp add: word_le_nat_alt SIZEOF_ETH_HDR_def bind_ret_map)
    have l: "\<not> length (chain_bytes c) \<le> 14" using False len by simp
    have ne: "ETHTYPE_ARP \<noteq> ETHTYPE_IP" by (simp add: cdefs)
    show ?thesis unfolding run frame_spec_def
      using free l ne h3(2,3) ip by (auto simp: c simp del: chain_bytes_simps intro!: exI [of _ "h3 # t"])
  qed
qed

section \<open>The frame that is sent\<close>

lemma take_2_split: "take 14 m = take 6 m @ take 6 (drop 6 m) @ take 2 (drop 12 m)"
  using take_add [of 6 8 m] take_add [of 6 2 "drop 6 m"] by simp

lemma eth_header_data:
  assumes "pbuf_ok h" and "14 \<le> unat (p_len h)" and "length src = 6" and "length dst = 6"
  shows "pbuf_ok (pbuf_write (pbuf_write (pbuf_write h 12 (store16 ty)) 0 dst) 6 src)
     \<and> pbuf_data (pbuf_write (pbuf_write (pbuf_write h 12 (store16 ty)) 0 dst) 6 src) = dst @ src @ store16 ty @ drop 14 (pbuf_data h)"
proof -
  let ?a = "pbuf_write h 12 (store16 ty)"
  let ?b = "pbuf_write ?a 0 dst"
  have d: "length (pbuf_data h) = unat (p_len h)" using assms(1) by simp
  have a: "pbuf_ok ?a" "pbuf_data ?a = take 12 (pbuf_data h) @ store16 ty @ drop 14 (pbuf_data h)"
    using pbuf_write_ok [OF assms(1), of 12 "store16 ty"] pbuf_write_data [OF assms(1), of 12 "store16 ty"] assms(2) by simp_all
  have b: "pbuf_ok ?b" "pbuf_data ?b = dst @ drop 6 (pbuf_data ?a)"
    using pbuf_write_ok [OF a(1), of 0 dst] pbuf_write_data [OF a(1), of 0 dst] assms(2,4) by simp_all
  have c: "pbuf_ok (pbuf_write ?b 6 src)" "pbuf_data (pbuf_write ?b 6 src) = take 6 (pbuf_data ?b) @ src @ drop 12 (pbuf_data ?b)"
    using pbuf_write_ok [OF b(1), of 6 src] pbuf_write_data [OF b(1), of 6 src] assms(2,3) by simp_all
  have "drop 12 (pbuf_data ?b) = drop 12 (pbuf_data ?a)" using assms(4) by (simp add: b(2))
  then show ?thesis using c assms(2,4) d by (simp add: b(2) a(2))
qed

lemma ethernet_output_frame:
  assumes ok: "chain_ok (h # t)" and ty: "p_type h AND PBUF_TYPE_FLAG_STRUCT_DATA_CONTIGUOUS \<noteq> 0"
    and h': "pbuf_add_header h 14 = (0, h')" and len: "length (chain_bytes (h # t)) + 14 < 2048" and al: "cut_aligned (h' # t)"
    and after: "\<forall>q. 3 \<le> length (after q)" and hw: "hwaddr_len nif = 6" "length src = 6" "length dst = 6"
  shows "\<exists>q s' ws. ethernet_output after nif (h # t) src dst eth_type s = Some (ERR_OK, q, s') \<and> tx_fifo s' = tx_fifo s @ ws
     \<and> tx_frame ws = dst @ src @ store16 (lwip_htons eth_type) @ chain_bytes (h # t)"
proof -
  let ?w = "pbuf_write (pbuf_write (pbuf_write h' 12 (store16 (lwip_htons eth_type))) 0 dst) 6 src"
  have tot: "unat (p_tot_len h) = length (chain_bytes (h # t))" by (rule chain_tot_bytes [OF ok])
  have H: "pbuf_ok h'" "drop 14 (pbuf_data h') = pbuf_data h" "unat (p_len h') = unat (p_len h) + 14" "unat (p_tot_len h') = unat (p_tot_len h) + 14"
    using add_header_data [of h 14 h'] h' ty ok len tot by (auto split: list.splits)
  have e: "pbuf_ok ?w" "pbuf_data ?w = dst @ src @ store16 (lwip_htons eth_type) @ pbuf_data h"
    using eth_header_data [OF H(1) _ hw(2,3), of "lwip_htons eth_type"] H(2,3) by auto
  have wl: "p_len ?w = p_len h'" "p_tot_len ?w = p_tot_len h'" by (simp_all add: pbuf_write_fields)
  have cb: "chain_bytes (?w # t) = dst @ src @ store16 (lwip_htons eth_type) @ chain_bytes (h # t)" using e(2) by simp
  have cok: "chain_ok (?w # t)" using ok e(1) H(3,4) wl by (simp split: list.splits)
  have "cut_aligned (?w # t)" using al wl by simp
  moreover have "length (chain_bytes (?w # t)) < 2048" unfolding cb using len hw by (simp del: chain_bytes_simps)
  ultimately obtain s' ws where o: "lan9118_linkoutput after (?w # t) s = Some (ERR_OK, s')" "tx_fifo s' = tx_fifo s @ ws" "tx_frame ws = chain_bytes (?w # t)"
    using linkoutput_frame [OF cok, of after s] after by auto
  moreover have "ethernet_output after nif (h # t) src dst eth_type s = Some (ERR_OK, ?w # t, s')"
    using h' hw o(1) by (simp add: ethernet_output_def SIZEOF_ETH_HDR_def Let_def)
  ultimately show ?thesis using cb by auto
qed

section \<open>Properties\<close>

text \<open>
  C38. Ethernet round trip: a packet given to \<open>ethernet_output\<close> with room for the header leaves
  the station as destination address, source address, type and the bytes of the packet, and a
  station that receives this frame with \<open>ethernet_input\<close> passes exactly the bytes of the
  packet to IP or ARP, whichever the type says.
\<close>

theorem ethernet_roundtrip:
  assumes "chain_ok (h # t)" and "p_type h AND PBUF_TYPE_FLAG_STRUCT_DATA_CONTIGUOUS \<noteq> 0"
    and "pbuf_add_header h 14 = (0, h')" and "length (chain_bytes (h # t)) + 14 < 2048" and "cut_aligned (h' # t)"
    and "\<forall>q. 3 \<le> length (after q)" and "hwaddr_len nif = 6" and "length src = 6" and "length dst = 6"
    and "chain_bytes (h # t) \<noteq> []" and "flags rnif AND NETIF_FLAG_ETHARP \<noteq> 0" and "eth_type = ETHTYPE_IP \<or> eth_type = ETHTYPE_ARP"
  shows "\<exists>q s' ws. ethernet_output after nif (h # t) src dst eth_type s = Some (ERR_OK, q, s') \<and> tx_fifo s' = tx_fifo s @ ws
     \<and> tx_frame ws = dst @ src @ store16 (lwip_htons eth_type) @ chain_bytes (h # t)
     \<and> (\<forall>c. rx_packet c \<and> chain_bytes c = tx_frame ws \<longrightarrow>
          frame_does ops arp is_odd rnif c rs (if eth_type = ETHTYPE_IP then Fr_ip (chain_bytes (h # t)) else Fr_arp (chain_bytes (h # t)))
            (ethernet_input ops arp is_odd rnif c rs))"
proof -
  let ?p = "chain_bytes (h # t)"
  obtain q s' ws where o: "ethernet_output after nif (h # t) src dst eth_type s = Some (ERR_OK, q, s')" "tx_fifo s' = tx_fifo s @ ws"
    "tx_frame ws = dst @ src @ store16 (lwip_htons eth_type) @ ?p"
    using ethernet_output_frame [OF assms(1-9)] by blast
  have "field16 (dst @ src @ store16 (lwip_htons eth_type) @ ?p) 12 = eth_type"
    using assms(8,9,12) by (auto simp: field16_def nth_append store16_def lwip_htons_def PP_HTONS_def cdefs)
  moreover have "ETHTYPE_ARP \<noteq> ETHTYPE_IP" by (simp add: cdefs)
  ultimately have fs: "frame_spec rnif (tx_frame ws) = (if eth_type = ETHTYPE_IP then Fr_ip ?p else Fr_arp ?p)"
    unfolding o(3) frame_spec_def using assms(8-12) by (auto simp del: chain_bytes_simps)
  have "frame_does ops arp is_odd rnif c rs (if eth_type = ETHTYPE_IP then Fr_ip ?p else Fr_arp ?p) (ethernet_input ops arp is_odd rnif c rs)"
    if "rx_packet c \<and> chain_bytes c = tx_frame ws" for c
    using ethernet_input_does [of c ops arp is_odd rnif rs] that unfolding fs [symmetric] by simp
  then show ?thesis using o by blast
qed

theorem ethernet_roundtrip_witness:
  "\<exists>q s' ws. ethernet_output (\<lambda>_. [0, 0, 0]) small_netif [pbuf_init_alloced_pbuf (replicate 16 0 @ [1, 2, 3]) 16 3 3 PBUF_RAM 0] (replicate 6 1) (replicate 6 2) ETHTYPE_ARP sample_lan
       = Some (ERR_OK, q, s') \<and> tx_frame ws = replicate 6 2 @ replicate 6 1 @ [8, 6] @ [1, 2, 3] \<and> tx_fifo s' = ws"
proof -
  let ?h = "pbuf_init_alloced_pbuf (replicate 16 0 @ [1, 2, 3]) 16 3 3 PBUF_RAM 0"
  obtain h' where h': "pbuf_add_header ?h 14 = (0, h')"
    by (simp add: pbuf_add_header_def pbuf_add_header_impl_def pbuf_init_alloced_pbuf_def cdefs Let_def)
  have c: "chain_ok [?h]" "chain_bytes [?h] = [1, 2, 3]"
    by (simp_all add: pbuf_init_alloced_pbuf_def pbuf_ok_def pbuf_data_def pbuf_read_def)
  have "tx_fifo sample_lan = []" by (simp add: tx_fifo_def sample_lan_def)
  moreover have "store16 (lwip_htons ETHTYPE_ARP) = [8, 6]" by (simp add: store16_def lwip_htons_def PP_HTONS_def cdefs)
  moreover have "p_type ?h AND PBUF_TYPE_FLAG_STRUCT_DATA_CONTIGUOUS \<noteq> 0" by (simp add: pbuf_init_alloced_pbuf_def cdefs)
  moreover have "hwaddr_len small_netif = 6" "flags small_netif AND NETIF_FLAG_ETHARP \<noteq> 0" by (simp_all add: small_netif_def cdefs)
  ultimately show ?thesis
    using ethernet_roundtrip [OF c(1) _ h', where after = "\<lambda>_. [0, 0, 0]" and nif = small_netif and src = "replicate 6 1" and dst = "replicate 6 2"
        and rnif = small_netif and eth_type = ETHTYPE_ARP and s = sample_lan] c(2) by simp blast
qed

end
