(* ===== verification/Net_Stack.thy ===== *)
theory Net_Stack
  imports Ntp_Proofs Lwip_Ethernet
begin

text \<open>
  The receive path as a whole: \<open>lan9118_poll\<close> calls \<open>ethernet_input\<close>, which calls
  \<open>ip4_input\<close>, which calls \<open>udp_input\<close> and through it the callback of the NTP client. The
  contract the driver states for its input function (\<open>netif_input\<close>) is interpreted on this
  composition.

  What is still a parameter is the record \<open>stack_env\<close>: ICMP, ARP input, reassembly, the
  callbacks of DHCP and DNS and the lwIP timers. They are required to return, to leave the
  device's read side, the interface, the control blocks and the client's variables alone and
  to keep the buffers whole; reassembly is not required anything, so nothing is claimed of
  frames that carry fragments.
\<close>

section \<open>Composition\<close>

record 's stack_env =
  x_icmp_input :: "pchain \<Rightarrow> netif ip_globals \<Rightarrow> 's \<Rightarrow> 's option"
  x_icmp_dest_unreach :: "pchain \<Rightarrow> u8 \<Rightarrow> 's \<Rightarrow> 's option"
  x_ip4_reass :: "pchain \<Rightarrow> 's \<Rightarrow> (pchain \<times> 's) option"
  x_etharp_input :: "'s arp_in"
  x_udp_recv :: "udp_cb \<Rightarrow> pchain \<Rightarrow> 's \<Rightarrow> 's option"
  x_sys_check_timeouts :: "'s \<Rightarrow> 's option"

text \<open>One datagram: UDP input, and the callback of the control block it selects.\<close>

definition net_deliver :: "net_env \<Rightarrow> 'a sys_scheme stack_env \<Rightarrow> pchain \<Rightarrow> netif ip_globals \<Rightarrow> 'a sys_scheme \<Rightarrow> 'a sys_scheme option" where
  "net_deliver env x p g s =
     do { (r, u, e) \<leftarrow> udp_input (env_odd env) p g (udp s) (penv s);
          let s1 = s\<lparr>udp := u, penv := e\<rparr> in
          case r of
            Deliver cb i q addr port \<Rightarrow>
              (if cb = Ntp_recv_callback then ntp_recv_callback (env_stack env) q s1 else x_udp_recv x cb q s1)
          | _ \<Rightarrow> Some s1 }"

definition stack_ops :: "net_env \<Rightarrow> 'a sys_scheme stack_env \<Rightarrow> 'a sys_scheme ip_ops" where
  "stack_ops env x = \<lparr>op_udp_input = net_deliver env x, op_icmp_input = x_icmp_input x,
     op_icmp_dest_unreach = x_icmp_dest_unreach x, op_ip4_reass = x_ip4_reass x\<rparr>"

text \<open>The input function of the interface, which is the default one.\<close>

definition stack_input :: "net_env \<Rightarrow> 'a sys_scheme stack_env \<Rightarrow> pchain \<Rightarrow> 'a sys_scheme \<Rightarrow> (lwip_err \<times> pchain \<times> 'a sys_scheme) option" where
  "stack_input env x p s =
     (case netif_default s of None \<Rightarrow> None
      | Some nif \<Rightarrow> ethernet_input (stack_ops env x) (x_etharp_input x) (env_odd env) nif p s)"

section \<open>What a datagram does\<close>

type_synonym net_view = "udp_cb udp_state \<times> u32 \<times> int"

definition net_view :: "'a sys_scheme \<Rightarrow> net_view" where
  "net_view s = (udp s, ntp_timestamp s, ntp_response_received s)"

definition udp_taken :: "netif ip_globals \<Rightarrow> u8 list \<Rightarrow> net_view \<Rightarrow> net_view" where
  "udp_taken g bs v =
     (case v of (u, ts, got) \<Rightarrow>
        if length bs < 8 then v
        else let inp = current_netif g;
                 (full, pcbs, uncon) = udp_find u g (ip4_addr_isbroadcast_u32 (current_dest g) inp) (field16 bs 0) (field16 bs 2) [] (udp_pcbs u) None;
                 u1 = u\<lparr>udp_pcbs := pcbs\<rparr>;
                 pcb = (case full of Some i \<Rightarrow> Some i | None \<Rightarrow> uncon)
             in if pcb = None \<and> ip_addr inp \<noteq> current_dest g
                   \<or> field16 bs 6 \<noteq> 0 \<and> rfc1071 (pseudo_header (current_src g) (current_dest g) IP_PROTO_UDP (of_nat (length bs)) @ bs) \<noteq> 0
                then (u1, ts, got)
                else case pcb of None \<Rightarrow> (u1, ts, got)
                     | Some i \<Rightarrow> if recv (pcb_at u i) = Some Ntp_recv_callback \<and> 56 \<le> length bs
                                 then (u1, be32 (drop 48 bs), 1) else (u1, ts, got))"

lemma get16_zero: "chain_ok (h # t) \<Longrightarrow> off + 2 \<le> unat (p_len h) \<Longrightarrow> get16 h off = 0 \<longleftrightarrow> field16 (chain_bytes (h # t)) off = 0"
  by (metis get16_net htons_involution PP_HTONS_def lwip_htons_def and_zero_eq push_bit_of_0 drop_bit_of_0 or.right_neutral bit.conj_zero_left)

lemma drop_pool: "pool_chain q \<Longrightarrow> \<exists>e'. udp_drop q u e = Some (Discarded, u, e') \<and> kept q e [] e'"
  using free_pool_chain [of q e] by (auto simp: udp_drop_def)

text \<open>After verification: the callback gets the payload, or the buffers are given back.\<close>

fun udp_gives :: "pchain \<Rightarrow> pbuf_env \<Rightarrow> udp_cb option \<Rightarrow> udp_cb udp_outcome \<Rightarrow> pbuf_env \<Rightarrow> bool" where
  "udp_gives q e (Some cb) r e' \<longleftrightarrow> (\<exists>i q' a port. r = Deliver cb i q' a port \<and> e' = e \<and> pool_chain q' \<and> length q' = length q
      \<and> chain_bytes q' = drop 8 (chain_bytes q))"
| "udp_gives q e None r e' \<longleftrightarrow> kept q e [] e' \<and> (\<forall>cb i q' a port. r \<noteq> Deliver cb i q' a port)"

lemma header_force_pool: "pool_pbuf h \<Longrightarrow> pool_pbuf (snd (pbuf_header_force h n))"
  by (auto simp: pool_pbuf_def pbuf_header_force_def pbuf_header_impl_def pbuf_remove_header_def pbuf_add_header_impl_def Let_def)

lemma udp_accept_pool:
  assumes "pool_chain (h # t)" and "8 \<le> unat (p_len h)"
  shows "\<exists>r e'. udp_accept (h # t) pcb bc src g u e = Some (r, u, e')
     \<and> udp_gives (h # t) e (case pcb of None \<Rightarrow> None | Some i \<Rightarrow> recv (pcb_at u i)) r e'"
proof -
  obtain h' where h': "pbuf_remove_header h 8 = (0, h')" "pool_chain (h' # t)" "chain_bytes (h' # t) = drop 8 (chain_bytes (h # t))"
    using remove_pool_chain [OF assms(1), of 8] assms(2) by auto
  obtain e1 where e1: "udp_drop (h' # t) u e = Some (Discarded, u, e1)" "kept (h # t) e [] e1"
    using drop_pool [OF h'(2), of u e] by (auto simp: kept_def)
  have lp: "list_all pool_pbuf (snd (pbuf_header_force h' n) # t)" for n using h'(2) header_force_pool by (simp add: pool_chain_def)
  have fr: "\<exists>m e'. pbuf_free (snd (pbuf_header_force h' n) # t) e = Some (m, [], e') \<and> kept (h # t) e [] e'" for n
    using free_pool_loop [OF lp [of n], of 0 e] by (auto simp: pbuf_free_def kept_def)
  show ?thesis
  proof (cases pcb)
    case (Some i)
    then show ?thesis using h' e1 by (cases "recv (pcb_at u i)") (auto simp: udp_accept_def UDP_HLEN_def)
  next
    case None
    obtain m e2 where "pbuf_free (snd (pbuf_header_force h' (sint (current_header_tot_len g + 8))) # t) e = Some (m, [], e2)" "kept (h # t) e [] e2"
      using fr by blast
    then show ?thesis using None h'(1) e1 by (auto simp: udp_accept_def UDP_HLEN_def Let_def)
  qed
qed

text \<open>The whole of \<open>udp_input\<close>, by the bytes of the datagram.\<close>

definition udp_lookup :: "netif ip_globals \<Rightarrow> u8 list \<Rightarrow> udp_cb udp_state \<Rightarrow> nat option \<times> udp_cb udp_state" where
  "udp_lookup g bs u =
     (let (full, pcbs, uncon) = udp_find u g (ip4_addr_isbroadcast_u32 (current_dest g) (current_netif g)) (field16 bs 0) (field16 bs 2) [] (udp_pcbs u) None
      in (case full of Some i \<Rightarrow> Some i | None \<Rightarrow> uncon, u\<lparr>udp_pcbs := pcbs\<rparr>))"

definition udp_refused :: "netif ip_globals \<Rightarrow> u8 list \<Rightarrow> nat option \<Rightarrow> bool" where
  "udp_refused g bs pcb \<longleftrightarrow> pcb = None \<and> ip_addr (current_netif g) \<noteq> current_dest g
     \<or> field16 bs 6 \<noteq> 0 \<and> rfc1071 (pseudo_header (current_src g) (current_dest g) IP_PROTO_UDP (of_nat (length bs)) @ bs) \<noteq> 0"

lemma udp_taken_lookup:
  "udp_taken g bs (u, ts, got) =
     (if length bs < 8 then (u, ts, got)
      else let (pcb, u1) = udp_lookup g bs u in
           if \<not> udp_refused g bs pcb \<and> (\<exists>i. pcb = Some i \<and> recv (pcb_at u i) = Some Ntp_recv_callback) \<and> 56 \<le> length bs
           then (u1, be32 (drop 48 bs), 1) else (u1, ts, got))"
  unfolding udp_taken_def udp_lookup_def udp_refused_def by (auto simp: Let_def split: prod.splits option.splits)

lemma udp_input_pool:
  assumes q: "pool_chain q" "roomy 8 q" and bs: "bs = chain_bytes q" and lk: "udp_lookup g bs u = (pcb, u1)"
  shows "\<exists>r e'. udp_input is_odd q g u e = Some (r, if length bs < 8 then u else u1, e')
     \<and> udp_gives q e (if length bs < 8 \<or> udp_refused g bs pcb then None else case pcb of None \<Rightarrow> None | Some i \<Rightarrow> recv (pcb_at u i)) r e'"
proof -
  obtain h t where h: "q = h # t" using q(1) by (cases q) (auto simp: pool_chain_def)
  have ok: "chain_ok (h # t)" using q(1) by (simp add: pool_chain_def h)
  have len: "unat (p_len h) < 8 \<longleftrightarrow> length bs < 8"
    using q(2) single_len [of h] ok len_first [OF ok] by (cases t) (auto simp: roomy_def h bs)
  obtain n e1 where f1: "pbuf_free q e = Some (n, [], e1)" "kept q e [] e1" using free_pool_chain [OF q(1)] by blast
  then have e1: "udp_drop q v e = Some (Discarded, v, e1)" "kept q e [] e1" for v by (simp_all add: udp_drop_def)
  show ?thesis
  proof (cases "length bs < 8")
    case True
    then show ?thesis using len e1 by (auto simp: udp_input_def h cdefs word_less_nat_alt)
  next
    case False
    then have l8: "8 \<le> unat (p_len h)" using len by simp
    have f: "lwip_htons (get16 h 0) = field16 bs 0" "lwip_htons (get16 h 2) = field16 bs 2" "get16 h 6 = 0 \<longleftrightarrow> field16 bs 6 = 0"
      using get16_net [OF ok, of 0] get16_net [OF ok, of 2] get16_zero [OF ok, of 6] l8 by (simp_all add: bs h del: chain_bytes_simps)
    have tot: "p_tot_len h = of_nat (length bs)" using chain_tot_bytes [OF ok] unfolding bs h by (metis of_nat_unat ucast_id)
    obtain full pcbs un where fd: "udp_find u g (ip4_addr_isbroadcast_u32 (current_dest g) (current_netif g)) (field16 bs 0) (field16 bs 2) [] (udp_pcbs u) None = (full, pcbs, un)"
      by (metis prod_cases3)
    have pcb: "pcb = (case full of Some i \<Rightarrow> Some i | None \<Rightarrow> un)" "u1 = u\<lparr>udp_pcbs := pcbs\<rparr>" using lk by (simp_all add: udp_lookup_def fd)
    have chk: "ip_chksum_pseudo is_odd q IP_PROTO_UDP (p_tot_len h) (current_src g) (current_dest g) =
        rfc1071 (pseudo_header (current_src g) (current_dest g) IP_PROTO_UDP (of_nat (length bs)) @ bs)"
      using chksum_pseudo_spec [OF chain_ok_all [OF ok]] by (simp add: h bs tot rfc1071_def)
    have run: "udp_input is_odd q g u e = (if udp_refused g bs pcb then udp_drop q u1 e
        else udp_accept q pcb (ip4_addr_isbroadcast_u32 (current_dest g) (current_netif g)) (field16 bs 0) g u1 e)"
      using l8 unfolding udp_input_def h list.sel Let_def f fd prod.case udp_refused_def chk [unfolded h] pcb
      by (auto simp: word_less_nat_alt cdefs)
    obtain r e2 where "udp_accept q pcb (ip4_addr_isbroadcast_u32 (current_dest g) (current_netif g)) (field16 bs 0) g u1 e = Some (r, u1, e2)"
      "udp_gives q e (case pcb of None \<Rightarrow> None | Some i \<Rightarrow> recv (pcb_at u1 i)) r e2"
      using udp_accept_pool [OF q(1) [unfolded h] l8] h by blast
    moreover have "(case pcb of None \<Rightarrow> None | Some i \<Rightarrow> recv (pcb_at u1 i)) = (case pcb of None \<Rightarrow> None | Some i \<Rightarrow> recv (pcb_at u i))"
      by (simp add: pcb(2) split: option.split)
    ultimately show ?thesis using False run e1 by auto
  qed
qed

lemma ntp_callback_upd:
  assumes "pbuf_free q (penv s) = Some (n, c, e')" and "q \<noteq> []"
  shows "\<exists>t x. ntp_recv_callback stack q s = Some (s\<lparr>penv := e', ntp_timestamp := t, ntp_response_received := x\<rparr>)"
proof (cases "p_tot_len (hd q) \<ge> NTP_PACKET_SIZE")
  case True
  obtain bytes k where b: "pbuf_copy_partial q NTP_PACKET_SIZE 0 = (bytes, k)" by fastforce
  define buf where "buf = bytes @ drop (length bytes) stack"
  have "ntp_recv_callback stack q s =
      Some (s\<lparr>penv := e', ntp_timestamp := push_bit 24 (ucast (buf ! 40)) OR push_bit 16 (ucast (buf ! 41))
              OR push_bit 8 (ucast (buf ! 42)) OR ucast (buf ! 43), ntp_response_received := 1\<rparr>)"
    using assms True by (simp add: ntp_recv_callback_def b buf_def Let_def)
  then show ?thesis by blast
next
  case False
  then have "ntp_recv_callback stack q s =
      Some (s\<lparr>penv := e', ntp_timestamp := ntp_timestamp s, ntp_response_received := ntp_response_received s\<rparr>)"
    using assms by (simp add: ntp_recv_callback_def)
  then show ?thesis by blast
qed

lemma ntp_callback_taken:
  assumes "pool_chain q"
  shows "\<exists>e. ntp_recv_callback stack q s = Some (if 48 \<le> length (chain_bytes q)
       then s\<lparr>penv := e, ntp_timestamp := be32 (drop 40 (chain_bytes q)), ntp_response_received := 1\<rparr> else s\<lparr>penv := e\<rparr>)
     \<and> kept q (penv s) [] e"
proof -
  have c: "chain_ok q" "list_all pbuf_live q" "q \<noteq> []" using assms pool_live by (auto simp: pool_chain_def)
  obtain n e where f: "pbuf_free q (penv s) = Some (n, [], e)" "kept q (penv s) [] e" using free_pool_chain [OF assms] by blast
  show ?thesis
  proof (cases "48 \<le> length (chain_bytes q)")
    case True
    obtain e' where r: "ntp_recv_callback stack q s =
        Some (s\<lparr>penv := e', ntp_timestamp := be32 (drop 40 (chain_bytes q)), ntp_response_received := 1\<rparr>)"
      using ntp_callback_spec [OF c(1,2) True] by blast
    obtain t x where r': "ntp_recv_callback stack q s = Some (s\<lparr>penv := e, ntp_timestamp := t, ntp_response_received := x\<rparr>)"
      using ntp_callback_upd [OF f(1) c(3)] by blast
    have "penv (s\<lparr>penv := e', ntp_timestamp := be32 (drop 40 (chain_bytes q)), ntp_response_received := 1\<rparr>) =
        penv (s\<lparr>penv := e, ntp_timestamp := t, ntp_response_received := x\<rparr>)" using r r' by simp
    then show ?thesis using r f(2) True by auto
  next
    case False
    then have "\<not> p_tot_len (hd q) \<ge> NTP_PACKET_SIZE" using tot_len_bytes [OF c(1,3)] by (simp add: word_le_nat_alt cdefs)
    then show ?thesis using False f c(3) by (intro exI [of _ e]) (simp add: ntp_recv_callback_def)
  qed
qed

definition quiet :: "'a sys_scheme \<Rightarrow> 'a sys_scheme \<Rightarrow> bool" where
  "quiet s s' \<longleftrightarrow> reg_in s' = reg_in s \<and> reg_n s' = reg_n s \<and> net_view s' = net_view s \<and> netif_default s' = netif_default s
     \<and> (pool_ok (penv s) \<longrightarrow> pool_ok (penv s')) \<and> (uart_ready s \<longrightarrow> uart_ready s')"

definition stack_env_ok :: "'a sys_scheme stack_env \<Rightarrow> bool" where
  "stack_env_ok x \<longleftrightarrow>
     (\<forall>q g s. pool_chain q \<longrightarrow> (\<exists>s'. x_icmp_input x q g s = Some s' \<and> quiet s s'))
     \<and> (\<forall>q k s. pool_chain q \<longrightarrow> (\<exists>s'. x_icmp_dest_unreach x q k s = Some s' \<and> quiet s s'
           \<and> length (pool (penv s)) \<le> length (pool (penv s'))))
     \<and> (\<forall>q nif s. pool_chain q \<longrightarrow> (\<exists>s'. x_etharp_input x q nif s = Some s' \<and> quiet s s'
           \<and> length (pool (penv s)) + length q \<le> length (pool (penv s'))))
     \<and> (\<forall>cb q s. pool_chain q \<longrightarrow> (\<exists>s'. x_udp_recv x cb q s = Some s' \<and> quiet s s'
           \<and> length (pool (penv s)) + length q \<le> length (pool (penv s'))))
     \<and> (\<forall>s. \<exists>s'. x_sys_check_timeouts x s = Some s' \<and> quiet s s' \<and> length (pool (penv s)) \<le> length (pool (penv s')))"

lemma env_icmp_input: "stack_env_ok x \<Longrightarrow> pool_chain q \<Longrightarrow> \<exists>s'. x_icmp_input x q g s = Some s' \<and> quiet s s'"
  by (simp add: stack_env_ok_def)

lemma env_dest_unreach: "stack_env_ok x \<Longrightarrow> pool_chain q \<Longrightarrow>
    \<exists>s'. x_icmp_dest_unreach x q k s = Some s' \<and> quiet s s' \<and> length (pool (penv s)) \<le> length (pool (penv s'))"
  by (simp add: stack_env_ok_def)

lemma env_etharp_input: "stack_env_ok x \<Longrightarrow> pool_chain q \<Longrightarrow>
    \<exists>s'. x_etharp_input x q nif s = Some s' \<and> quiet s s' \<and> length (pool (penv s)) + length q \<le> length (pool (penv s'))"
  by (simp add: stack_env_ok_def)

lemma env_udp_recv: "stack_env_ok x \<Longrightarrow> pool_chain q \<Longrightarrow>
    \<exists>s'. x_udp_recv x cb q s = Some s' \<and> quiet s s' \<and> length (pool (penv s)) + length q \<le> length (pool (penv s'))"
  by (simp add: stack_env_ok_def)

lemma env_timeouts: "stack_env_ok x \<Longrightarrow>
    \<exists>s'. x_sys_check_timeouts x s = Some s' \<and> quiet s s' \<and> length (pool (penv s)) \<le> length (pool (penv s'))"
  by (simp add: stack_env_ok_def)

text \<open>One packet: the view changes by \<open>f\<close>, everything else is kept.\<close>

definition stepped :: "netif \<Rightarrow> (net_view \<Rightarrow> net_view) \<Rightarrow> bool \<Rightarrow> pchain \<Rightarrow> 'a sys_scheme \<Rightarrow> 'a sys_scheme option \<Rightarrow> bool" where
  "stepped nif f fr c s r \<longleftrightarrow> (\<exists>s'. r = Some s' \<and> reg_in s' = reg_in s \<and> reg_n s' = reg_n s \<and> netif_default s' = netif_default s
     \<and> (pool_ok (penv s) \<longrightarrow> pool_ok (penv s')) \<and> (uart_ready s \<longrightarrow> uart_ready s') \<and> net_view s' = f (net_view s)
     \<and> (fr \<longrightarrow> length (pool (penv s)) + length c \<le> length (pool (penv s'))))"

lemma net_deliver_taken:
  assumes q: "pool_chain q" "roomy 8 q" and x: "stack_env_ok x"
  shows "stepped nif (udp_taken g (chain_bytes q)) True q s (net_deliver env x q g s)"
proof -
  define bs where "bs = chain_bytes q"
  obtain pcb u1 where lk: "udp_lookup g bs (udp s) = (pcb, u1)" by fastforce
  define u2 where "u2 = (if length bs < 8 then udp s else u1)"
  define cb where "cb = (if length bs < 8 \<or> udp_refused g bs pcb then None else case pcb of None \<Rightarrow> None | Some i \<Rightarrow> recv (pcb_at (udp s) i))"
  obtain r e' where i: "udp_input (env_odd env) q g (udp s) (penv s) = Some (r, u2, e')" and gv: "udp_gives q (penv s) cb r e'"
    using udp_input_pool [OF q bs_def lk, of "env_odd env" "penv s"] unfolding u2_def cb_def by blast
  let ?s = "s\<lparr>udp := u2, penv := e'\<rparr>"
  have tk: "udp_taken g bs (net_view s) = (if cb = Some Ntp_recv_callback \<and> 56 \<le> length bs then (u2, be32 (drop 48 bs), 1)
      else (u2, ntp_timestamp s, ntp_response_received s))"
    unfolding net_view_def udp_taken_lookup lk u2_def cb_def by (auto split: option.splits)
  have "stepped nif (udp_taken g bs) True q s (net_deliver env x q g s)"
  proof (cases cb)
    case None
    then show ?thesis using gv i tk by (cases r) (auto simp: stepped_def net_deliver_def net_view_def kept_def)
  next
    case (Some c)
    then obtain j q' a port where r: "r = Deliver c j q' a port" "e' = penv s" "pool_chain q'" "length q' = length q" "chain_bytes q' = drop 8 bs"
      using gv by (auto simp: bs_def)
    show ?thesis
    proof (cases "c = Ntp_recv_callback")
      case True
      obtain e where cbk: "ntp_recv_callback (env_stack env) q' ?s = Some (if 48 \<le> length (chain_bytes q')
          then ?s\<lparr>penv := e, ntp_timestamp := be32 (drop 40 (chain_bytes q')), ntp_response_received := 1\<rparr> else ?s\<lparr>penv := e\<rparr>)"
        "kept q' (penv ?s) [] e" using ntp_callback_taken [OF r(3)] by blast
      moreover have "drop 40 (chain_bytes q') = drop 48 bs" by (simp add: r(5))
      moreover have "48 \<le> length (chain_bytes q') \<longleftrightarrow> 56 \<le> length bs" by (auto simp: r(5))
      moreover have "net_deliver env x q g s = ntp_recv_callback (env_stack env) q' ?s" using i by (simp add: net_deliver_def r(1) True)
      moreover have "kept q (penv s) [] e" using r(2,4) cbk(2) by (simp add: kept_def)
      ultimately show ?thesis using tk Some True by (cases "56 \<le> length bs") (auto simp: stepped_def net_view_def kept_def)
    next
      case False
      obtain s' where "x_udp_recv x c q' ?s = Some s'" "quiet ?s s'" "length (pool (penv ?s)) + length q' \<le> length (pool (penv s'))"
        using env_udp_recv [OF x r(3)] by blast
      moreover have "net_deliver env x q g s = x_udp_recv x c q' ?s" using i False by (simp add: net_deliver_def r(1))
      ultimately show ?thesis using r(2,4) False Some tk by (auto simp: stepped_def quiet_def net_view_def)
    qed
  qed
  then show ?thesis by (simp add: bs_def)
qed

section \<open>What a frame does\<close>

text \<open>The datagram a frame carries for UDP, with the addresses of its IP header.\<close>

definition frame_datagram :: "netif \<Rightarrow> u8 list \<Rightarrow> (netif ip_globals \<times> u8 list) option" where
  "frame_datagram nif bs =
     (case frame_spec nif bs of
        Fr_ip d \<Rightarrow> (case ip4_spec nif (replicate 4 0) d of
                      Ip_upper proto src dest hl body \<Rightarrow> if proto = IP_PROTO_UDP then Some (upper_globals nif src dest hl, body) else None
                    | _ \<Rightarrow> None)
      | _ \<Rightarrow> None)"

definition frame_taken :: "netif \<Rightarrow> u8 list \<Rightarrow> net_view \<Rightarrow> net_view" where
  "frame_taken nif bs v = (case frame_datagram nif bs of None \<Rightarrow> v | Some (g, d) \<Rightarrow> udp_taken g d v)"

definition whole_frame :: "netif \<Rightarrow> u8 list \<Rightarrow> bool" where
  "whole_frame nif bs \<longleftrightarrow> (\<forall>d. frame_spec nif bs = Fr_ip d \<and> ip_header_ok d \<longrightarrow> unat (field16 d 6) mod 16384 = 0)"

definition freed_frame :: "netif \<Rightarrow> u8 list \<Rightarrow> bool" where
  "freed_frame nif bs \<longleftrightarrow> (\<forall>d. frame_spec nif bs = Fr_ip d \<and> ip_header_ok d \<longrightarrow> d ! 9 \<noteq> IP_PROTO_ICMP)"

definition ip_effect :: "netif \<Rightarrow> ip_verdict \<Rightarrow> net_view \<Rightarrow> net_view" where
  "ip_effect nif r v = (case r of
     Ip_upper proto src dest hl body \<Rightarrow> if proto = IP_PROTO_UDP then udp_taken (upper_globals nif src dest hl) body v else v | _ \<Rightarrow> v)"

lemma udp_taken_short: "length bs < 8 \<Longrightarrow> udp_taken g bs v = v"
  by (cases v) (simp add: udp_taken_def)

text \<open>The bytes behind a packet do not matter.\<close>

lemma ip_effect_junk: "ip_effect nif (ip4_spec nif j d) v = ip_effect nif (ip4_spec nif j' d) v"
proof -
  let ?body = "take (ip_len d - ip_hlen d) (drop (ip_hlen d) d)"
  show ?thesis
  proof (cases "4 \<le> length ?body")
    case True
    then have "field16 (?body @ j) 2 = field16 (?body @ j') 2" by (simp add: field16_append)
    then have "ip4_spec nif j d = ip4_spec nif j' d" by (simp add: ip4_spec_def Let_def)
    then show ?thesis by simp
  next
    case False
    then have "length ?body < 8" by linarith
    then have "udp_taken g ?body v = v" for g by (rule udp_taken_short)
    then have "ip_effect nif (ip4_spec nif k d) v = v" for k by (auto simp: ip_effect_def ip4_spec_def Let_def split del: if_split split: if_splits)
    then show ?thesis by simp
  qed
qed

lemma frame_taken_ip: "frame_spec nif bs = Fr_ip d \<Longrightarrow> frame_taken nif bs v = ip_effect nif (ip4_spec nif j d) v"
  using ip_effect_junk [of nif j d v "replicate 4 0"]
  by (auto simp: frame_taken_def frame_datagram_def ip_effect_def split: ip_verdict.splits)

lemma frame_taken_other: "(\<And>d. frame_spec nif bs \<noteq> Fr_ip d) \<Longrightarrow> frame_taken nif bs v = v"
  by (auto simp: frame_taken_def frame_datagram_def split: frame_verdict.splits)

lemma stepped_penv:
  assumes "stepped nif f fr c' (s\<lparr>penv := e\<rparr>) r" and "kept c (penv s) c' e"
  shows "stepped nif f fr c s r"
proof -
  have "net_view (s\<lparr>penv := e\<rparr>) = net_view s" by (simp add: net_view_def)
  then show ?thesis using assms by (auto simp: stepped_def kept_def)
qed

lemma stepped_drop: "(\<exists>e. r = Some (s\<lparr>penv := e\<rparr>) \<and> kept c (penv s) [] e) \<Longrightarrow> stepped nif (\<lambda>v. v) fr c s r"
  by (auto simp: stepped_def kept_def net_view_def)

lemma ip4_stack_step:
  assumes x: "stack_env_ok x" and does: "ip4_does (stack_ops env x) c nif s r (ip4_input (stack_ops env x) o1 c nif s)"
    and nf: "r \<noteq> Ip_fragment" and ro: "roomy 68 c"
  shows "stepped nif (ip_effect nif r) (\<forall>src dest hl body. r \<noteq> Ip_upper IP_PROTO_ICMP src dest hl body) c s (ip4_input (stack_ops env x) o1 c nif s)"
proof (cases r)
  case Ip_drop
  then have "ip_effect nif r = (\<lambda>v. v)" by (simp add: fun_eq_iff ip_effect_def)
  then show ?thesis using does Ip_drop by (simp add: stepped_drop)
next
  case Ip_fragment
  then show ?thesis using nf by simp
next
  case r: (Ip_upper proto src dest hl body)
  let ?r = "ip4_input (stack_ops env x) o1 c nif s" and ?g = "upper_globals nif src dest hl"
  obtain q e where q: "pool_chain q" "kept c (penv s) q e" "roomy 8 q"
    and alt: "if proto = IP_PROTO_UDP then chain_bytes q = body \<and> ?r = net_deliver env x q ?g (s\<lparr>penv := e\<rparr>)
       else if proto = IP_PROTO_ICMP then chain_bytes q = body \<and> ?r = x_icmp_input x q ?g (s\<lparr>penv := e\<rparr>)
       else if ip4_addr_isbroadcast_u32 dest nif = 0 \<and> \<not> ip4_addr_ismulticast dest
       then ?r = do { s1 \<leftarrow> x_icmp_dest_unreach x q ICMP_DUR_PROTO (s\<lparr>penv := e\<rparr>); ip4_drop q s1 }
       else \<exists>e. ?r = Some (s\<lparr>penv := e\<rparr>) \<and> kept c (penv s) [] e"
    using does ro unfolding r ip4_does.simps stack_ops_def by (force split: if_splits)
  consider "proto = IP_PROTO_UDP" | "proto \<noteq> IP_PROTO_UDP" "proto = IP_PROTO_ICMP" | "proto \<noteq> IP_PROTO_UDP" "proto \<noteq> IP_PROTO_ICMP" by blast
  then show ?thesis
  proof cases
    case 1
    have "stepped nif (ip_effect nif r) True q (s\<lparr>penv := e\<rparr>) ?r"
      using net_deliver_taken [OF q(1,3) x, of nif ?g "s\<lparr>penv := e\<rparr>" env] alt 1 by (simp add: ip_effect_def r stepped_def)
    then have "stepped nif (ip_effect nif r) True c s ?r" using q(2) by (rule stepped_penv)
    then show ?thesis by (auto simp: stepped_def)
  next
    case 2
    obtain s' where "x_icmp_input x q ?g (s\<lparr>penv := e\<rparr>) = Some s'" "quiet (s\<lparr>penv := e\<rparr>) s'" using env_icmp_input [OF x q(1)] by blast
    then have "stepped nif (ip_effect nif r) False q (s\<lparr>penv := e\<rparr>) ?r"
      using alt 2 by (auto simp: stepped_def quiet_def ip_effect_def r)
    then have "stepped nif (ip_effect nif r) False c s ?r" using q(2) by (rule stepped_penv)
    then show ?thesis using 2 r by (auto simp: stepped_def)
  next
    case 3
    show ?thesis
    proof (cases "ip4_addr_isbroadcast_u32 dest nif = 0 \<and> \<not> ip4_addr_ismulticast dest")
      case True
      obtain s' where s': "x_icmp_dest_unreach x q ICMP_DUR_PROTO (s\<lparr>penv := e\<rparr>) = Some s'" "quiet (s\<lparr>penv := e\<rparr>) s'"
        "length (pool (penv (s\<lparr>penv := e\<rparr>))) \<le> length (pool (penv s'))" using env_dest_unreach [OF x q(1)] by blast
      obtain e' where "ip4_drop q s' = Some (s'\<lparr>penv := e'\<rparr>)" "kept q (penv s') [] e'" using drop_pool_chain [OF q(1)] by blast
      then have "stepped nif (ip_effect nif r) True q (s\<lparr>penv := e\<rparr>) ?r"
        using alt 3 True s' by (auto simp: stepped_def quiet_def ip_effect_def r kept_def net_view_def)
      then have "stepped nif (ip_effect nif r) True c s ?r" using q(2) by (rule stepped_penv)
      then show ?thesis by (auto simp: stepped_def)
    next
      case False
      then have "stepped nif (\<lambda>v. v) True c s ?r" using alt 3 by (intro stepped_drop) simp
      then show ?thesis using 3 by (auto simp: stepped_def ip_effect_def r)
    qed
  qed
qed

lemma whole_no_fragment: "whole_frame nif bs \<Longrightarrow> frame_spec nif bs = Fr_ip d \<Longrightarrow> ip4_spec nif j d \<noteq> Ip_fragment"
  by (auto simp: whole_frame_def ip4_spec_def Let_def)

lemma freed_no_icmp: "freed_frame nif bs \<Longrightarrow> frame_spec nif bs = Fr_ip d \<Longrightarrow> ip4_spec nif j d \<noteq> Ip_upper IP_PROTO_ICMP src dest hl body"
  by (auto simp: freed_frame_def ip4_spec_def Let_def)

lemma stepped_same_length: "stepped nif f fr c s r \<Longrightarrow> length c' = length c \<Longrightarrow> stepped nif f fr c' s r"
  by (simp add: stepped_def)

lemma stack_input_step:
  assumes x: "stack_env_ok x" and nif: "netif_default s = Some nif" and c: "rx_packet c" and w: "whole_frame nif (chain_bytes c)"
  shows "\<exists>c' s'. stack_input env x c s = Some (ERR_OK, c', s')
     \<and> stepped nif (frame_taken nif (chain_bytes c)) (freed_frame nif (chain_bytes c)) c s (Some s')"
proof -
  let ?ops = "stack_ops env x" and ?b = "chain_bytes c"
  have run: "stack_input env x c s = ethernet_input ?ops (x_etharp_input x) (env_odd env) nif c s" by (simp add: stack_input_def nif)
  have does: "frame_does ?ops (x_etharp_input x) (env_odd env) nif c s (frame_spec nif ?b) (stack_input env x c s)"
    unfolding run by (rule ethernet_input_does [OF c])
  show ?thesis
  proof (cases "frame_spec nif ?b")
    case Fr_drop
    then have "frame_taken nif ?b = (\<lambda>v. v)" by (simp add: fun_eq_iff frame_taken_other)
    then show ?thesis using does Fr_drop stepped_drop [where s = s and c = c and nif = nif] by fastforce
  next
    case (Fr_arp d)
    then obtain q where q: "pool_chain q" "length q = length c" "stack_input env x c s = map_option (\<lambda>s1. (ERR_OK, [], s1)) (x_etharp_input x q nif s)"
      using does by auto
    obtain s' where "x_etharp_input x q nif s = Some s'" "quiet s s'" "length (pool (penv s)) + length q \<le> length (pool (penv s'))"
      using env_etharp_input [OF x q(1)] by blast
    moreover have "frame_taken nif ?b (net_view s) = net_view s" using Fr_arp by (simp add: frame_taken_other)
    ultimately show ?thesis using q(2,3) by (simp add: stepped_def quiet_def)
  next
    case (Fr_ip d)
    then obtain q where q: "ip_packet q" "roomy 1522 q" "0 < unat (p_len (hd q))" "chain_bytes q = d" "length q = length c"
      "stack_input env x c s = map_option (\<lambda>s1. (ERR_OK, [], s1)) (ip4_input ?ops (env_odd env) q nif s)"
      using does by auto
    let ?v = "ip4_spec nif (behind q) d"
    have "stepped nif (ip_effect nif ?v) (\<forall>src dest hl body. ?v \<noteq> Ip_upper IP_PROTO_ICMP src dest hl body) q s (ip4_input ?ops (env_odd env) q nif s)"
    proof (rule ip4_stack_step [OF x])
      show "ip4_does ?ops q nif s ?v (ip4_input ?ops (env_odd env) q nif s)" using ip4_input_does [OF q(1,3)] q(4) by metis
      show "?v \<noteq> Ip_fragment" using whole_no_fragment [OF w Fr_ip] by blast
      show "roomy 68 q" using q(2) by (auto simp: roomy_def)
    qed
    moreover have "ip_effect nif ?v (net_view s) = frame_taken nif ?b (net_view s)" using frame_taken_ip [OF Fr_ip] by metis
    moreover have "freed_frame nif ?b \<longrightarrow> (\<forall>src dest hl body. ?v \<noteq> Ip_upper IP_PROTO_ICMP src dest hl body)" using freed_no_icmp [OF _ Fr_ip] by blast
    ultimately show ?thesis using q(5,6) by (auto simp: stepped_def)
  qed
qed

text \<open>The composition meets the contract of the driver's input function.\<close>

interpretation rx: netif_input "stack_input env x" net_view "frame_taken nif" "\<lambda>s. netif_default s = Some nif \<and> stack_env_ok x \<and> (ready \<longrightarrow> uart_ready s)"
  "whole_frame nif" "freed_frame nif" for env x nif ready
proof
  fix c and s :: "'a sys_scheme"
  assume "rx_packet c" "whole_frame nif (chain_bytes c)" "pool_ok (penv s)" "netif_default s = Some nif \<and> stack_env_ok x \<and> (ready \<longrightarrow> uart_ready s)"
  then show "\<exists>c' s'. stack_input env x c s = Some (ERR_OK, c', s') \<and> reg_in s' = reg_in s \<and> reg_n s' = reg_n s
      \<and> pool_ok (penv s') \<and> (netif_default s' = Some nif \<and> stack_env_ok x \<and> (ready \<longrightarrow> uart_ready s')) \<and> net_view s' = frame_taken nif (chain_bytes c) (net_view s)
      \<and> (freed_frame nif (chain_bytes c) \<longrightarrow> length (pool (penv s)) + length c \<le> length (pool (penv s')))"
    using stack_input_step [of x s nif c env] by (auto simp: stepped_def)
qed (simp_all add: net_view_def uart_ready_def)

section \<open>The client's variables\<close>

lemma subseq_set: "subseq xs ys \<Longrightarrow> set xs \<subseteq> set ys"
  by (induction rule: list_emb.induct) auto

text \<open>What a datagram must be to change the variables of the client.\<close>

definition ntp_datagram :: "udp_cb udp_state \<Rightarrow> netif ip_globals \<Rightarrow> u8 list \<Rightarrow> bool" where
  "ntp_datagram u g d \<longleftrightarrow> 56 \<le> length d
     \<and> (\<exists>i\<in>set (udp_pcbs u). local_port (pcb_at u i) = field16 d 2 \<and> recv (pcb_at u i) = Some Ntp_recv_callback)
     \<and> (field16 d 6 = 0 \<or> rfc1071 (pseudo_header (current_src g) (current_dest g) IP_PROTO_UDP (of_nat (length d)) @ d) = 0)"

lemma udp_lookup_find:
  assumes "udp_lookup g bs u = (p, u1)"
  obtains bc full pcbs un where "udp_find u g bc (field16 bs 0) (field16 bs 2) [] (udp_pcbs u) None = (full, pcbs, un)"
    and "p = (case full of Some i \<Rightarrow> Some i | None \<Rightarrow> un)" and "u1 = u\<lparr>udp_pcbs := pcbs\<rparr>"
  using assms by (auto simp: udp_lookup_def split: prod.splits)

lemma udp_lookup_port:
  assumes "udp_lookup g bs u = (Some i, u1)"
  shows "i \<in> set (udp_pcbs u) \<and> local_port (pcb_at u i) = field16 bs 2"
  using assms
proof (rule udp_lookup_find)
  fix bc full pcbs un
  assume f: "udp_find u g bc (field16 bs 0) (field16 bs 2) [] (udp_pcbs u) None = (full, pcbs, un)"
    and p: "Some i = (case full of Some i \<Rightarrow> Some i | None \<Rightarrow> un)"
  have "(\<forall>i. full = Some i \<longrightarrow> local_port (pcb_at u i) = field16 bs 2 \<and> i \<in> set (udp_pcbs u))
     \<and> (\<forall>i. un = Some i \<longrightarrow> local_port (pcb_at u i) = field16 bs 2 \<and> i \<in> set (udp_pcbs u))"
    by (rule udp_find_port [OF f]) simp_all
  then show ?thesis using p by (auto split: option.splits)
qed

lemma udp_lookup_same:
  assumes "udp_lookup g bs u = (p, u1)"
  shows "set (udp_pcbs u1) = set (udp_pcbs u) \<and> pcb_at u1 = pcb_at u"
  using assms
proof (rule udp_lookup_find)
  fix bc full pcbs un
  assume f: "udp_find u g bc (field16 bs 0) (field16 bs 2) [] (udp_pcbs u) None = (full, pcbs, un)" and u: "u1 = u\<lparr>udp_pcbs := pcbs\<rparr>"
  have "mset pcbs = mset (udp_pcbs u)" using udp_find_perm [OF f] by simp
  then show ?thesis using u mset_eq_setD by auto
qed

lemma udp_taken_vars:
  assumes "udp_taken g d (u, ts, got) = (u', ts', got')"
  shows "set (udp_pcbs u') = set (udp_pcbs u) \<and> pcb_at u' = pcb_at u \<and>
     (ts' = ts \<and> got' = got \<or> ntp_datagram u g d \<and> ts' = be32 (drop 48 d) \<and> got' = 1)"
proof (cases "length d < 8")
  case True
  then show ?thesis using assms by (simp add: udp_taken_short)
next
  case False
  obtain pcb u1 where lk: "udp_lookup g d u = (pcb, u1)" by fastforce
  have "u' = u1" using assms False by (auto simp: udp_taken_lookup lk split: if_splits)
  moreover have "ntp_datagram u g d" if "\<not> udp_refused g d pcb" "pcb = Some i" "recv (pcb_at u i) = Some Ntp_recv_callback" "56 \<le> length d" for i
    using that udp_lookup_port [of g d u i u1] lk by (auto simp: ntp_datagram_def udp_refused_def)
  ultimately show ?thesis using assms False udp_lookup_same [OF lk] by (auto simp: udp_taken_lookup lk split: if_splits)
qed

lemma frames_vars:
  assumes "fold (frame_taken nif) fs (u, ts, got) = (u', ts', got')"
  shows "set (udp_pcbs u') = set (udp_pcbs u) \<and> pcb_at u' = pcb_at u \<and>
     (ts' = ts \<and> got' = got \<or> (\<exists>f\<in>set fs. \<exists>g d. frame_datagram nif f = Some (g, d) \<and> ntp_datagram u g d \<and> ts' = be32 (drop 48 d) \<and> got' = 1))"
  using assms
proof (induction fs arbitrary: u' ts' got' rule: rev_induct)
  case (snoc f fs)
  obtain u1 ts1 got1 where m: "fold (frame_taken nif) fs (u, ts, got) = (u1, ts1, got1)" by (metis prod_cases3)
  note IH = snoc.IH [OF m]
  have step: "frame_taken nif f (u1, ts1, got1) = (u', ts', got')" using snoc.prems m by simp
  show ?case
  proof (cases "frame_datagram nif f")
    case None
    then show ?thesis using step IH by (auto simp: frame_taken_def)
  next
    case (Some gd)
    obtain g d where gd: "gd = (g, d)" by fastforce
    have "set (udp_pcbs u') = set (udp_pcbs u1) \<and> pcb_at u' = pcb_at u1 \<and>
       (ts' = ts1 \<and> got' = got1 \<or> ntp_datagram u1 g d \<and> ts' = be32 (drop 48 d) \<and> got' = 1)"
      by (rule udp_taken_vars) (use step Some gd in \<open>simp add: frame_taken_def\<close>)
    moreover have "ntp_datagram u1 g d = ntp_datagram u g d" using IH by (simp add: ntp_datagram_def)
    ultimately show ?thesis using IH Some gd by auto
  qed
qed simp

section \<open>Properties\<close>


definition sample_netif :: netif where
  "sample_netif = \<lparr>ip_addr = IP4_ADDR 10 0 2 15, netmask = IP4_ADDR 255 255 255 0, gw = IP4_ADDR 10 0 2 2, mtu = 1500,
     hwaddr = [2, 0, 0, 0, 0, 1], hwaddr_len = 6, flags = 0x0F, nif_name = ''st'', num = 0\<rparr>"

definition sample_net :: net_env where
  "sample_net = \<lparr>env_malloc = (\<lambda>n. Some (replicate (unat n - 16) 0)), env_odd = (\<lambda>_. False), env_out = (\<lambda>q _ _ _ _ _. (ERR_OK, q)),
     env_stack = replicate 48 0\<rparr>"

definition sample_sys :: sys where
  "sample_sys = \<lparr>uart_state = (\<lambda>_. 0), uart_state_n = 0, uart_rx = (\<lambda>_. 0), uart_rx_n = 0, uart_ctrl = 3, uart_bauddiv = 217,
     uart_tx = [], uart_buf = [], reg_in = (\<lambda>_ _. 0), reg_n = (\<lambda>_. 0), reg_out = [], penv = sample_env, ntp_response_received = 0, ntp_timestamp = 0,
     udp = \<lparr>pcb_at = (\<lambda>_. new_udp_pcb), udp_pcbs = [], udp_free = [0, 1, 2, 3], udp_port = 0xC000\<rparr>,
     netif_default = Some sample_netif\<rparr>"

text \<open>A frame with an NTP answer for port 0xC001, with its frame check sequence, as the device announces it.\<close>

definition sample_frame :: "u8 list" where
  "sample_frame = [2, 0, 0, 0, 0, 1, 82, 85, 10, 0, 2, 2, 8, 0, 69, 0, 0, 76, 0, 0, 0, 0, 64, 17, 3, 242, 162, 159, 200, 1, 10, 0, 2, 15]
     @ [0, 123, 0xC0, 1, 0, 56, 0, 0] @ replicate 40 0 @ [0xE8, 0xFE, 0x58, 0x80, 0, 0, 0, 0] @ replicate 6 0"

definition sample_regs :: "u32 \<Rightarrow> nat \<Rightarrow> u32" where
  "sample_regs r k = (if r = RX_FIFO_INF then (if k = 0 then 0x00010000 else 0) else if r = RX_STATUS_FIFO then push_bit 16 96
     else if r = RX_DATA_FIFO then word_of_bytes (take 4 (drop (4 * k) sample_frame)) else 0)"

definition sample_rx :: sys where
  "sample_rx = sample_sys\<lparr>reg_in := sample_regs, penv := sample_env\<lparr>pool := replicate 11 (replicate 1536 0)\<rparr>,
     udp := \<lparr>pcb_at = (\<lambda>_. new_udp_pcb\<lparr>local_port := 0xC001, recv := Some Ntp_recv_callback\<rparr>), udp_pcbs = [0], udp_free = [1, 2, 3], udp_port = 0xC001\<rparr>\<rparr>"

definition sample_stack :: "sys stack_env" where
  "sample_stack = \<lparr>x_icmp_input = (\<lambda>q g s. ip4_drop q s), x_icmp_dest_unreach = (\<lambda>q k s. Some s), x_ip4_reass = (\<lambda>q s. None),
     x_etharp_input = (\<lambda>q nif s. ip4_drop q s), x_udp_recv = (\<lambda>cb q s. ip4_drop q s), x_sys_check_timeouts = Some\<rparr>"

lemma sample_frame_length: "length sample_frame = 96"
  by (simp add: sample_frame_def)

lemma fifo_words: "4 * n \<le> length f \<Longrightarrow> concat (map (\<lambda>k. bytes_of_word (word_of_bytes (take 4 (drop (4 * k) f)))) [0..<n]) = take (4 * n) f"
proof (induction n)
  case (Suc n)
  have "bytes_of_word (word_of_bytes (take 4 (drop (4 * n) f))) = take 4 (drop (4 * n) f)"
    by (rule word_of_bytes_inverse) (use Suc.prems in simp)
  then show ?case using Suc by (simp add: take_add [symmetric] add.commute)
qed simp

lemma sample_stack_ok: "stack_env_ok sample_stack"
proof -
  have "\<exists>s'. ip4_drop q s = Some s' \<and> quiet s s' \<and> length (pool (penv s)) + length q \<le> length (pool (penv s'))" if "pool_chain q" for q and s :: sys
  proof -
    obtain e where "ip4_drop q s = Some (s\<lparr>penv := e\<rparr>)" "kept q (penv s) [] e" using drop_pool_chain \<open>pool_chain q\<close> by blast
    then show ?thesis by (auto simp: quiet_def kept_def net_view_def uart_ready_def)
  qed
  then show ?thesis unfolding stack_env_ok_def sample_stack_def by (auto simp: quiet_def)
qed

lemma sample_script: "rx_script (reg_in sample_rx) (reg_n sample_rx) [sample_frame]"
proof -
  have ne: "RX_STATUS_FIFO \<noteq> RX_FIFO_INF" "RX_DATA_FIFO \<noteq> RX_FIFO_INF" "RX_DATA_FIFO \<noteq> RX_STATUS_FIFO" by (simp_all add: cdefs)
  have n: "frame_words sample_frame = 24" by (simp add: frame_words_def sample_frame_length)
  have "take 96 (concat (map (\<lambda>k. bytes_of_word (sample_regs RX_DATA_FIFO (0 + k))) [0..<24])) = sample_frame"
    using fifo_words [of 24 sample_frame] by (simp add: sample_regs_def ne sample_frame_length)
  then show ?thesis using ne by (simp add: sample_rx_def sample_sys_def n sample_frame_length sample_regs_def)
qed

lemma sample_strip: "strip_crc sample_frame = take 92 sample_frame"
  by (simp add: strip_crc_def sample_frame_length)

definition sample_dgram :: "u8 list" where
  "sample_dgram = [0, 123, 0xC0, 1, 0, 56, 0, 0] @ replicate 40 0 @ [0xE8, 0xFE, 0x58, 0x80, 0, 0, 0, 0]"

definition sample_ip :: "u8 list" where
  "sample_ip = [69, 0, 0, 76, 0, 0, 0, 0, 64, 17, 3, 242, 162, 159, 200, 1, 10, 0, 2, 15]"

lemma sample_frame_ip: "frame_spec sample_netif (strip_crc sample_frame) = Fr_ip (sample_ip @ sample_dgram @ [0, 0])"
proof -
  have "replicate 2 (0 :: u8) = [0, 0]" by (simp add: numeral_2_eq_2)
  then show ?thesis unfolding sample_strip
    by (simp add: frame_spec_def sample_frame_def sample_netif_def field16_def cdefs sample_ip_def sample_dgram_def)
qed

lemma sample_ip_len: "ip_hlen (sample_ip @ r) = 20" "ip_len (sample_ip @ r) = 76" "length sample_dgram = 56" "length sample_ip = 20"
  by (simp_all add: ip_hlen_def ip_len_def field16_def sample_ip_def sample_dgram_def)

lemma sample_ip_ok: "ip_header_ok (sample_ip @ sample_dgram @ [0, 0])"
proof -
  have "rfc1071 sample_ip = 0" by (simp add: rfc1071_def sample_ip_def ones_comp_def)
  then show ?thesis unfolding ip_header_ok_def sample_ip_len using sample_ip_len(3,4) by (simp add: sample_ip_def)
qed

lemma sample_ip_fields:
  "field32 (sample_ip @ r) 12 = IP4_ADDR 162 159 200 1" "field32 (sample_ip @ r) 16 = IP4_ADDR 10 0 2 15"
  "field16 (sample_ip @ r) 6 = 0" "(sample_ip @ r) ! 9 = IP_PROTO_UDP"
  by (simp_all add: field32_def field16_def word_of_bytes_def sample_ip_def IP4_ADDR_def PP_HTONL_def LWIP_MAKEU32_def cdefs)

lemma sample_for_us: "for_us sample_netif (IP4_ADDR 10 0 2 15)" "\<not> bad_source sample_netif (IP4_ADDR 162 159 200 1)"
  by (simp_all add: for_us_def bad_source_def sample_netif_def ip4_addr_isbroadcast_u32_def ip4_addr_net_eq_def ip4_addr_ismulticast_def
      IP4_ADDR_def PP_HTONL_def LWIP_MAKEU32_def cdefs)

lemma sample_datagram: "frame_datagram sample_netif (strip_crc sample_frame) =
    Some (upper_globals sample_netif (IP4_ADDR 162 159 200 1) (IP4_ADDR 10 0 2 15) 20, sample_dgram)"
  unfolding frame_datagram_def sample_frame_ip frame_verdict.case ip4_spec_def sample_ip_fields sample_ip_len Let_def
  using sample_ip_ok sample_for_us sample_ip_len(3,4) by (simp add: cdefs)

lemma sample_taken: "udp_taken (upper_globals sample_netif (IP4_ADDR 162 159 200 1) (IP4_ADDR 10 0 2 15) 20) sample_dgram (net_view sample_rx) =
    (udp sample_rx, 0xE8FE5880, 1)"
proof -
  have d: "field16 sample_dgram 0 = 123" "field16 sample_dgram 2 = 0xC001" "field16 sample_dgram 6 = 0" "be32 (drop 48 sample_dgram) = 0xE8FE5880"
    by (simp_all add: field16_def sample_dgram_def be32_def)
  show ?thesis using sample_ip_len(3)
    by (simp add: udp_taken_def net_view_def sample_rx_def d upper_globals_def new_udp_pcb_def udp_input_local_match_def Let_def cdefs)
qed




end
