(* ===== verification/Network.thy ===== *)
theory Network
  imports Net_Stack
begin

text \<open>
  The periodic work of the network, \<open>lwip_periodic_handle\<close> of \<open>network/lwip_init.c\<close>: poll
  the driver, then run the lwIP timers. The contract of the NTP client for the function it
  polls with is interpreted on it, so what is proved of \<open>ntp_get_time\<close> holds from the
  registers of the Ethernet device to the time that is returned.

  \<open>rx_traffic R n fss\<close> describes the device over many polls: in the \<open>j\<close>-th poll it announces
  the frames \<open>fss j\<close>.
\<close>

section \<open>Periodic work\<close>

definition lwip_periodic_handle :: "net_env \<Rightarrow> 'a sys_scheme stack_env \<Rightarrow> 'a sys_scheme \<Rightarrow> 'a sys_scheme option" where
  "lwip_periodic_handle env x s = do { s1 \<leftarrow> lan9118_poll (stack_input env x) s; x_sys_check_timeouts x s1 }"

section \<open>Traffic\<close>

primrec polls_end :: "(u32 \<Rightarrow> nat) \<Rightarrow> (nat \<Rightarrow> u8 list list) \<Rightarrow> nat \<Rightarrow> u32 \<Rightarrow> nat" where
  "polls_end n fss 0 = n"
| "polls_end n fss (Suc j) = script_end (polls_end n fss j) (fss j)"

definition rx_traffic :: "(u32 \<Rightarrow> nat \<Rightarrow> u32) \<Rightarrow> (u32 \<Rightarrow> nat) \<Rightarrow> (nat \<Rightarrow> u8 list list) \<Rightarrow> bool" where
  "rx_traffic R n fss \<longleftrightarrow> (\<forall>j. rx_script R (polls_end n fss j) (fss j))"

lemma polls_end_shift: "polls_end (script_end n (fss 0)) (\<lambda>j. fss (Suc j)) j = polls_end n fss (Suc j)"
  by (induction j) simp_all

lemma traffic_next:
  assumes "rx_traffic R n fss"
  shows "rx_script R n (fss 0) \<and> rx_traffic R (script_end n (fss 0)) (\<lambda>j. fss (Suc j))"
proof -
  have "rx_script R (polls_end n fss j) (fss j)" for j using assms by (simp add: rx_traffic_def)
  from this [of 0] this [of "Suc _"] show ?thesis unfolding rx_traffic_def polls_end_shift by simp
qed

text \<open>What a poll leaves of the control blocks.\<close>

lemma frame_taken_keeps:
  assumes "frame_taken nif f (u, ts, got) = (u', ts', got')"
  shows "mset (udp_pcbs u') = mset (udp_pcbs u) \<and> pcb_at u' = pcb_at u \<and> udp_free u' = udp_free u"
proof (cases "frame_datagram nif f")
  case None
  then show ?thesis using assms by (simp add: frame_taken_def)
next
  case (Some gd)
  obtain g d where gd: "gd = (g, d)" by fastforce
  have tk: "udp_taken g d (u, ts, got) = (u', ts', got')" using assms Some gd by (simp add: frame_taken_def)
  show ?thesis
  proof (cases "length d < 8")
    case True
    then show ?thesis using tk by (simp add: udp_taken_short)
  next
    case False
    obtain pcb u1 where lk: "udp_lookup g d u = (pcb, u1)" by fastforce
    have u': "u' = u1" using tk False by (auto simp: udp_taken_lookup lk split: if_splits)
    from lk show ?thesis
    proof (rule udp_lookup_find)
      fix bc full pcbs un
      assume f: "udp_find u g bc (field16 d 0) (field16 d 2) [] (udp_pcbs u) None = (full, pcbs, un)" and "u1 = u\<lparr>udp_pcbs := pcbs\<rparr>"
      then show ?thesis using udp_find_perm [OF f] u' by simp
    qed
  qed
qed

lemma frames_keep:
  assumes "fold (frame_taken nif) fs (u, ts, got) = (u', ts', got')"
  shows "mset (udp_pcbs u') = mset (udp_pcbs u) \<and> pcb_at u' = pcb_at u \<and> udp_free u' = udp_free u"
  using assms
proof (induction fs arbitrary: u ts got)
  case (Cons f fs)
  obtain u1 ts1 got1 where m: "frame_taken nif f (u, ts, got) = (u1, ts1, got1)" by (metis prod_cases3)
  then show ?case using Cons frame_taken_keeps [OF m] by simp
qed simp

section \<open>The client polls the network\<close>

text \<open>
  The invariant after \<open>k\<close> polls; with \<open>lossless\<close>, buffers for every frame are left and no
  ICMP message, which may keep its buffers, is among the frames.
\<close>

definition net_traffic :: "bool \<Rightarrow> (nat \<Rightarrow> u8 list list) \<Rightarrow> netif \<Rightarrow> 'a sys_scheme stack_env \<Rightarrow> nat \<Rightarrow> 'a sys_scheme \<Rightarrow> bool" where
  "net_traffic lossless fss nif x k s \<longleftrightarrow>
     rx_traffic (reg_in s) (reg_n s) (\<lambda>j. fss (k + j)) \<and> pool_ok (penv s) \<and> netif_default s = Some nif \<and> stack_env_ok x
     \<and> (\<forall>j. \<forall>f\<in>set (fss j). whole_frame nif (strip_crc f) \<and> (lossless \<longrightarrow> freed_frame nif (strip_crc f)))
     \<and> (lossless \<longrightarrow> 11 \<le> length (pool (penv s)))"

lemma net_view_eq: "net_view s = (udp s, ntp_timestamp s, ntp_response_received s)"
  by (simp add: net_view_def)

lemma periodic_takes:
  assumes inv: "net_traffic lossless fss nif x k s" and ready: "uart_ready s"
  shows "\<exists>s' ds. lwip_periodic_handle env x s = Some s' \<and> net_traffic lossless fss nif x (Suc k) s' \<and> uart_ready s'
     \<and> subseq ds (filter (\<lambda>f. f \<noteq> []) (fss k)) \<and> (lossless \<longrightarrow> ds = filter (\<lambda>f. f \<noteq> []) (fss k))
     \<and> net_view s' = fold (frame_taken nif) (map strip_crc ds) (net_view s)"
proof -
  have t: "rx_script (reg_in s) (reg_n s) (fss k)" "rx_traffic (reg_in s) (script_end (reg_n s) (fss k)) (\<lambda>j. fss (Suc k + j))"
    using traffic_next [of "reg_in s" "reg_n s" "\<lambda>j. fss (k + j)"] inv by (simp_all add: net_traffic_def)
  have n: "pool_ok (penv s)" "netif_default s = Some nif" "stack_env_ok x" using inv by (simp_all add: net_traffic_def)
  have w: "\<forall>f\<in>set (fss k). whole_frame nif (strip_crc f)" using inv by (simp add: net_traffic_def)
  have "\<exists>s1 ds. lan9118_poll (stack_input env x) s = Some s1 \<and> subseq ds (filter (\<lambda>f. f \<noteq> []) (fss k))
     \<and> (lossless \<longrightarrow> ds = filter (\<lambda>f. f \<noteq> []) (fss k) \<and> 11 \<le> length (pool (penv s1)))
     \<and> net_view s1 = fold (frame_taken nif) (map strip_crc ds) (net_view s) \<and> pool_ok (penv s1) \<and> netif_default s1 = Some nif
     \<and> uart_ready s1 \<and> reg_in s1 = reg_in s \<and> reg_n s1 = script_end (reg_n s) (fss k)"
  proof (cases lossless)
    case True
    then have l: "11 \<le> length (pool (penv s))" "\<forall>f\<in>set (fss k). whole_frame nif (strip_crc f) \<and> freed_frame nif (strip_crc f)"
      using inv by (simp_all add: net_traffic_def)
    obtain s1 where "lan9118_poll (stack_input env x) s = Some s1"
      "net_view s1 = fold (frame_taken nif) (map strip_crc (filter (\<lambda>f. f \<noteq> []) (fss k))) (net_view s)"
      "pool_ok (penv s1)" "netif_default s1 = Some nif" "uart_ready s1" "length (pool (penv s)) \<le> length (pool (penv s1))"
      "reg_in s1 = reg_in s" "reg_n s1 = script_end (reg_n s) (fss k)"
      using rx.poll_takes_all [OF t(1) n(1), of nif x True env] n ready l by auto
    then show ?thesis using l(1) by (intro exI [of _ s1] exI [of _ "filter (\<lambda>f. f \<noteq> []) (fss k)"]) simp
  next
    case False
    then show ?thesis using rx.poll_takes [OF t(1) n(1), of nif x True env] n ready w by auto
  qed
  then obtain s1 ds where p: "lan9118_poll (stack_input env x) s = Some s1" "subseq ds (filter (\<lambda>f. f \<noteq> []) (fss k))"
    "lossless \<longrightarrow> ds = filter (\<lambda>f. f \<noteq> []) (fss k) \<and> 11 \<le> length (pool (penv s1))"
    "net_view s1 = fold (frame_taken nif) (map strip_crc ds) (net_view s)" "pool_ok (penv s1)" "netif_default s1 = Some nif"
    "uart_ready s1" "reg_in s1 = reg_in s" "reg_n s1 = script_end (reg_n s) (fss k)" by blast
  obtain s' where s': "x_sys_check_timeouts x s1 = Some s'" "quiet s1 s'" "length (pool (penv s1)) \<le> length (pool (penv s'))"
    using env_timeouts [OF n(3)] by blast
  have "net_traffic lossless fss nif x (Suc k) s'" using inv s' p t(2) by (auto simp: net_traffic_def quiet_def)
  moreover have "lwip_periodic_handle env x s = Some s'" using p(1) s'(1) by (simp add: lwip_periodic_handle_def)
  ultimately show ?thesis using p s'(2) by (intro exI [of _ s'] exI [of _ ds]) (simp add: quiet_def)
qed

lemma periodic_polled:
  assumes "net_view s' = fold (frame_taken nif) fs (net_view s)" and "uart_ready s'"
  shows "polled s s'"
  using frames_keep [of nif fs "udp s" "ntp_timestamp s" "ntp_response_received s" "udp s'" "ntp_timestamp s'" "ntp_response_received s'"] assms
  by (simp add: net_view_eq polled_def)

interpretation net: ntp_polling "lwip_periodic_handle env x" "net_traffic lossless fss nif x" for env x lossless fss nif
proof
  fix k and s :: "'a sys_scheme"
  assume "net_traffic lossless fss nif x k s" "uart_ready s"
  then obtain s' ds where "lwip_periodic_handle env x s = Some s'" "net_traffic lossless fss nif x (Suc k) s'" "uart_ready s'"
    "net_view s' = fold (frame_taken nif) (map strip_crc ds) (net_view s)"
    using periodic_takes by blast
  then show "\<exists>s'. lwip_periodic_handle env x s = Some s' \<and> polled s s' \<and> net_traffic lossless fss nif x (Suc k) s'"
    using periodic_polled by blast
next
  fix k and s s' :: "'a sys_scheme"
  assume "net_traffic lossless fss nif x k s" "client_step s s'"
  then show "net_traffic lossless fss nif x k s'" by (auto simp: net_traffic_def client_step_def pool_ok_def)
qed

section \<open>An answer on the wire\<close>

definition for_port :: "netif \<Rightarrow> u16 \<Rightarrow> u8 list \<Rightarrow> bool" where
  "for_port nif lp f \<longleftrightarrow> (case frame_datagram nif (strip_crc f) of None \<Rightarrow> False | Some (g, d) \<Rightarrow> field16 d 2 = lp)"

text \<open>A frame with an NTP answer for port \<open>lp\<close> whose transmit timestamp has the seconds \<open>ts\<close>.\<close>

definition ntp_answer :: "netif \<Rightarrow> u16 \<Rightarrow> u32 \<Rightarrow> u8 list \<Rightarrow> bool" where
  "ntp_answer nif lp ts f \<longleftrightarrow>
     (case frame_datagram nif (strip_crc f) of
        None \<Rightarrow> False
      | Some (g, d) \<Rightarrow> field16 d 2 = lp \<and> 56 \<le> length d \<and> ts = be32 (drop 48 d)
          \<and> (field16 d 6 = 0 \<or> rfc1071 (pseudo_header (current_src g) (current_dest g) IP_PROTO_UDP (of_nat (length d)) @ d) = 0))"

lemma frame_taken_other_port:
  assumes aw: "awaiting pcb lp u" and np: "\<not> for_port nif lp f" and tk: "frame_taken nif (strip_crc f) (u, ts, got) = (u', ts', got')"
  shows "ts' = ts \<and> got' = got"
proof (cases "frame_datagram nif (strip_crc f)")
  case None
  then show ?thesis using tk by (simp add: frame_taken_def)
next
  case (Some gd)
  obtain g d where gd: "gd = (g, d)" by fastforce
  have "field16 d 2 \<noteq> lp" using np Some gd by (simp add: for_port_def)
  moreover have "local_port (pcb_at u pcb) = lp" "\<forall>i\<in>set (udp_pcbs u). recv (pcb_at u i) = Some Ntp_recv_callback \<longrightarrow> i = pcb"
    using aw by (simp_all add: awaiting_def only_client_def listens_def)
  ultimately have "\<not> ntp_datagram u g d" by (auto simp: ntp_datagram_def)
  moreover have "udp_taken g d (u, ts, got) = (u', ts', got')" using tk Some gd by (simp add: frame_taken_def)
  ultimately show ?thesis using udp_taken_vars by blast
qed

lemma awaiting_keeps: "awaiting pcb lp u \<Longrightarrow> mset (udp_pcbs u') = mset (udp_pcbs u) \<Longrightarrow> pcb_at u' = pcb_at u \<Longrightarrow> awaiting pcb lp u'"
  using mset_eq_setD [of "udp_pcbs u'" "udp_pcbs u"] mset_eq_imp_distinct_iff [of "udp_pcbs u'" "udp_pcbs u"]
  by (simp add: awaiting_def listens_def only_client_def)

lemma frames_other_port:
  assumes "awaiting pcb lp u" and "\<forall>f\<in>set fs. \<not> for_port nif lp f"
    and "fold (frame_taken nif) (map strip_crc fs) (u, ts, got) = (u', ts', got')"
  shows "ts' = ts \<and> got' = got \<and> awaiting pcb lp u'"
  using assms
proof (induction fs arbitrary: u ts got)
  case (Cons f fs)
  obtain u1 ts1 got1 where m: "frame_taken nif (strip_crc f) (u, ts, got) = (u1, ts1, got1)" by (metis prod_cases3)
  have "ts1 = ts \<and> got1 = got" using frame_taken_other_port [OF Cons.prems(1) _ m] Cons.prems(2) by simp
  moreover have "awaiting pcb lp u1" using awaiting_keeps [OF Cons.prems(1)] frame_taken_keeps [OF m] by simp
  ultimately show ?case using Cons.IH [of u1 ts1 got1] Cons.prems(2,3) m by simp
qed simp

lemma frame_taken_answer:
  assumes aw: "awaiting pcb lp u" and an: "ntp_answer nif lp t f"
  shows "\<exists>u'. frame_taken nif (strip_crc f) (u, ts, got) = (u', t, 1) \<and> awaiting pcb lp u'"
proof -
  obtain g d where gd: "frame_datagram nif (strip_crc f) = Some (g, d)" and d: "field16 d 2 = lp" "56 \<le> length d" "t = be32 (drop 48 d)"
    "field16 d 6 = 0 \<or> rfc1071 (pseudo_header (current_src g) (current_dest g) IP_PROTO_UDP (of_nat (length d)) @ d) = 0"
    using an by (auto simp: ntp_answer_def split: option.splits)
  have lis: "listens u pcb lp Ntp_recv_callback" using aw by (simp add: awaiting_def)
  let ?bc = "ip4_addr_isbroadcast_u32 (current_dest g) (current_netif g)"
  obtain full pcbs un where u: "udp_find u g ?bc (field16 d 0) lp [] (udp_pcbs u) None = (full, pcbs, un)"
    "(case full of Some j \<Rightarrow> Some j | None \<Rightarrow> un) = Some pcb"
    using udp_find_listener [of pcb "udp_pcbs u" u lp g ?bc "field16 d 0" "[]"] lis unfolding listens_def by auto
  have lk: "udp_lookup g d u = (Some pcb, u\<lparr>udp_pcbs := pcbs\<rparr>)" using u by (simp add: udp_lookup_def d(1))
  have "\<not> udp_refused g d (Some pcb)" using d(4) by (simp add: udp_refused_def)
  then have tk: "frame_taken nif (strip_crc f) (u, ts, got) = (u\<lparr>udp_pcbs := pcbs\<rparr>, t, 1)"
    using d(2,3) lis lk by (auto simp: frame_taken_def gd udp_taken_lookup listens_def)
  then show ?thesis using awaiting_keeps [OF aw] frame_taken_keeps [OF tk] by simp
qed

lemma frames_answer:
  assumes aw: "awaiting pcb lp u" and fs: "fs = fs1 @ f # fs2" "ntp_answer nif lp t f" "\<forall>f\<in>set (fs1 @ fs2). \<not> for_port nif lp f"
    and v: "fold (frame_taken nif) (map strip_crc fs) (u, ts, got) = (u', ts', got')"
  shows "ts' = t \<and> got' = 1"
proof -
  obtain u1 ts1 got1 where m: "fold (frame_taken nif) (map strip_crc fs1) (u, ts, got) = (u1, ts1, got1)" by (metis prod_cases3)
  have "awaiting pcb lp u1" using frames_other_port [OF aw _ m] fs(3) by simp
  then obtain u2 where a: "frame_taken nif (strip_crc f) (u1, ts1, got1) = (u2, t, 1)" "awaiting pcb lp u2"
    using frame_taken_answer [OF _ fs(2)] by blast
  have "fold (frame_taken nif) (map strip_crc fs2) (u2, t, 1) = (u', ts', got')" using v m a(1) by (simp add: fs(1))
  then show ?thesis using frames_other_port [OF a(2), of fs2 nif t 1 u' ts' got'] fs(3) by simp
qed

text \<open>A frame that is an answer is not empty.\<close>

lemma answer_not_empty: "ntp_answer nif lp t f \<Longrightarrow> f \<noteq> []"
  by (auto simp: ntp_answer_def frame_datagram_def frame_spec_def strip_crc_def)

lemma ntp_answered:
  fixes s :: "'a sys_scheme"
  assumes "uart_ready s" and "net_traffic True fss nif x 0 s" and "out_ok (env_out env)" and "udp_wf (udp s)"
    and "udp_free (udp s) \<noteq> []" and "length (udp_pcbs (udp s)) < 0x4000" and "0xC000 \<le> udp_port (udp s)"
    and "\<forall>i\<in>set (udp_pcbs (udp s)). recv (pcb_at (udp s) i) \<noteq> Some Ntp_recv_callback"
    and "env_malloc env 120 = Some m" and "ip4_route (netif_default s) server_addr \<noteq> None"
    and "\<forall>q a b c d e. fst (env_out env q a b c d e) = ERR_OK" and lp: "lp = fst (udp_new_port (udp s))"
    and j: "j < NTP_TIMEOUT_CYCLES" and before: "\<forall>i<j. \<forall>f\<in>set (fss i). \<not> for_port nif lp f"
    and fs: "fss j = fs1 @ f # fs2" "ntp_answer nif lp ts f" "\<forall>f\<in>set (fs1 @ fs2). \<not> for_port nif lp f"
  shows "\<exists>s'. ntp_get_time (lwip_periodic_handle env x) env msg s = Some (0, ntp_to_msg ts, s')"
proof (rule net.ntp_get_time_answered [OF assms(1-11) j])
  fix pcb i and t t' :: "'a sys_scheme"
  assume i: "i < j" and t: "net_traffic True fss nif x (0 + i) t" "uart_ready t" "awaiting pcb (fst (udp_new_port (udp s))) (udp t)"
    "lwip_periodic_handle env x t = Some t'"
  have "net_view t' = fold (frame_taken nif) (map strip_crc (filter (\<lambda>f. f \<noteq> []) (fss i))) (net_view t)"
    using periodic_takes [OF t(1,2), of env] t(4) by auto
  then show "ntp_response_received t' = ntp_response_received t"
    using frames_other_port [OF t(3), of "filter (\<lambda>f. f \<noteq> []) (fss i)" nif "ntp_timestamp t" "ntp_response_received t"] before i lp
    by (auto simp: net_view_eq dest: sym)
next
  fix pcb and t t' :: "'a sys_scheme"
  assume t: "net_traffic True fss nif x (0 + j) t" "uart_ready t" "awaiting pcb (fst (udp_new_port (udp s))) (udp t)"
    "lwip_periodic_handle env x t = Some t'"
  let ?g = "filter (\<lambda>f. f \<noteq> [])"
  have v: "net_view t' = fold (frame_taken nif) (map strip_crc (?g (fss j))) (net_view t)"
    using periodic_takes [OF t(1,2), of env] t(4) by auto
  have split: "?g (fss j) = ?g fs1 @ f # ?g fs2" using answer_not_empty [OF fs(2)] by (simp add: fs(1))
  have "\<forall>f\<in>set (?g fs1 @ ?g fs2). \<not> for_port nif lp f" using fs(3) by auto
  from frames_answer [OF t(3) [folded lp] split fs(2) this v [unfolded net_view_eq, symmetric]]
  show "ntp_response_received t' = 1 \<and> ntp_timestamp t' = ts" by simp
qed

section \<open>Properties\<close>


text \<open>The device of the samples: nothing in the first two polls, an answer in the third, nothing afterwards.\<close>

definition sample_dev :: "u32 \<Rightarrow> nat \<Rightarrow> u32" where
  "sample_dev r k = (if r = RX_FIFO_INF then (if k = 2 then 0x00010000 else 0) else sample_regs r k)"

definition sample_fss :: "nat \<Rightarrow> u8 list list" where
  "sample_fss j = (if j = 2 then [sample_frame] else [])"

definition sample_start :: sys where
  "sample_start = sample_sys\<lparr>reg_in := sample_dev, penv := sample_env\<lparr>pool := replicate 11 (replicate 1536 0)\<rparr>\<rparr>"

lemma rx_regs_ne: "RX_STATUS_FIFO \<noteq> RX_FIFO_INF" "RX_DATA_FIFO \<noteq> RX_FIFO_INF" "RX_DATA_FIFO \<noteq> RX_STATUS_FIFO"
  by (simp_all add: cdefs)

lemma sample_polls_end: "polls_end (\<lambda>_. 0) sample_fss j RX_FIFO_INF = (if j \<le> 2 then j else Suc j)
    \<and> (j \<le> 2 \<longrightarrow> polls_end (\<lambda>_. 0) sample_fss j RX_STATUS_FIFO = 0 \<and> polls_end (\<lambda>_. 0) sample_fss j RX_DATA_FIFO = 0)"
  using rx_regs_ne by (induction j) (auto simp: sample_fss_def)

lemma sample_traffic: "rx_traffic (reg_in sample_start) (reg_n sample_start) sample_fss"
proof -
  have n: "frame_words sample_frame = 24" by (simp add: frame_words_def sample_frame_length)
  have d: "take 96 (concat (map (\<lambda>k. bytes_of_word (sample_dev RX_DATA_FIFO (0 + k))) [0..<24])) = sample_frame"
    using fifo_words [of 24 sample_frame] rx_regs_ne by (simp add: sample_dev_def sample_regs_def sample_frame_length)
  have st: "sample_dev RX_STATUS_FIFO k = push_bit 16 96" for k using rx_regs_ne by (simp add: sample_dev_def sample_regs_def)
  have inf: "sample_dev RX_FIFO_INF k = (if k = 2 then 0x00010000 else 0)" for k by (simp add: sample_dev_def)
  have "rx_script sample_dev (polls_end (\<lambda>_. 0) sample_fss j) (sample_fss j)" for j
    using sample_polls_end [of j] d st inf n rx_regs_ne by (auto simp: sample_fss_def sample_frame_length)
  then show ?thesis by (simp add: rx_traffic_def sample_start_def sample_sys_def)
qed

lemma sample_start_facts:
  "uart_ready sample_start" "pool_ok (penv sample_start)" "netif_default sample_start = Some sample_netif" "udp_wf (udp sample_start)"
  "11 \<le> length (pool (penv sample_start))"
  by (auto simp: sample_start_def sample_sys_def uart_ready_def pool_ok_def udp_wf_def)

lemma sample_out: "out_ok (env_out sample_net)"
  by (simp add: out_ok_def sample_net_def list_all2_same same_buffer_refl)

lemma sample_frames: "\<forall>j. \<forall>f\<in>set (sample_fss j). whole_frame sample_netif (strip_crc f) \<and> freed_frame sample_netif (strip_crc f)"
proof -
  have "whole_frame sample_netif (strip_crc sample_frame)" "freed_frame sample_netif (strip_crc sample_frame)"
    unfolding whole_frame_def freed_frame_def sample_frame_ip by (auto simp: sample_ip_fields cdefs)
  then show ?thesis by (simp add: sample_fss_def)
qed



lemma sample_answer_facts:
  "ntp_answer sample_netif 0xC001 0xE8FE5880 sample_frame"
  "fst (udp_new_port (udp sample_start)) = 0xC001"
  "ip4_route (netif_default sample_start) server_addr \<noteq> None"
proof -
  have "field16 sample_dgram 2 = 0xC001" "field16 sample_dgram 6 = 0" "be32 (drop 48 sample_dgram) = 0xE8FE5880" "length sample_dgram = 56"
    by (simp_all add: field16_def sample_dgram_def be32_def)
  then show "ntp_answer sample_netif 0xC001 0xE8FE5880 sample_frame" by (simp add: ntp_answer_def sample_datagram)
  show "fst (udp_new_port (udp sample_start)) = 0xC001"
    by (simp add: sample_start_def sample_sys_def udp_new_port_def udp_new_port_loop.simps next_port_def cdefs Let_def)
  show "ip4_route (netif_default sample_start) server_addr \<noteq> None"
    by (simp add: sample_start_def sample_sys_def sample_netif_def ip4_route_def server_addr_def IP4_ADDR_def PP_HTONL_def LWIP_MAKEU32_def
        ip4_addr_isloopback_def cdefs)
qed


end
