(* ===== verification/Lwip_Netif.thy ===== *)
theory Lwip_Netif
  imports Network
begin

text \<open>
  The network interface, \<open>lwip/src/core/netif.c\<close>, and its use by \<open>network/lwip_init.c\<close>: adding
  the interface, changing its address, bringing it up and down, the status callback that
  tells the application that it has an address, and \<open>network_init\<close>.

  The application has one interface structure, \<open>netif_st\<close>; \<open>netif_default\<close> is null or points to
  it, so an update of the structure is seen through both. ARP announcements, the initialisation
  of the rest of lwIP and the DHCP client are arguments.
\<close>

section \<open>State\<close>

record app = sys +
  netif_st :: netif
  status_callback :: bool
  dhcp_done :: int

record 's netif_env =
  x_etharp_gratuitous :: "'s \<Rightarrow> 's option"
  x_etharp_cleanup_netif :: "'s \<Rightarrow> 's option"
  x_lwip_init :: "'s \<Rightarrow> 's option"
  x_dhcp_start :: "'s \<Rightarrow> 's option"

definition upd_netif :: "(netif \<Rightarrow> netif) \<Rightarrow> app \<Rightarrow> app" where
  "upd_netif f s = s\<lparr>netif_st := f (netif_st s), netif_default := map_option (\<lambda>_. f (netif_st s)) (netif_default s)\<rparr>"

section \<open>Status\<close>

definition ntoa :: "u32 \<Rightarrow> string" where
  "ntoa a = (case ip4addr_ntoa a of Some t \<Rightarrow> t | None \<Rightarrow> [])"

definition netif_status_callback :: "app \<Rightarrow> app option" where
  "netif_status_callback s =
     (let nif = netif_st s in
      if ip_addr nif \<noteq> 0
      then do { s1 \<leftarrow> uart_print (''Network: IP address obtained via DHCP'' @ crlf) [] (s\<lparr>dhcp_done := 1\<rparr>);
                s2 \<leftarrow> uart_print (''  IP:      %s'' @ crlf) [AStr (ntoa (ip_addr nif))] s1;
                s3 \<leftarrow> uart_print (''  Netmask: %s'' @ crlf) [AStr (ntoa (netmask nif))] s2;
                uart_print (''  Gateway: %s'' @ crlf) [AStr (ntoa (gw nif))] s3 }
      else Some s)"

definition NETIF_STATUS_CALLBACK :: "app \<Rightarrow> app option" where
  "NETIF_STATUS_CALLBACK s = (if status_callback s then netif_status_callback s else Some s)"

definition netif_issue_reports :: "app netif_env \<Rightarrow> app \<Rightarrow> app option" where
  "netif_issue_reports x s =
     (let f = flags (netif_st s) in
      if f AND NETIF_FLAG_LINK_UP = 0 \<or> f AND NETIF_FLAG_UP = 0 then Some s
      else if ip_addr (netif_st s) \<noteq> 0 \<and> f AND NETIF_FLAG_ETHARP \<noteq> 0 then x_etharp_gratuitous x s
      else Some s)"

section \<open>Addresses\<close>

definition netif_do_ip_addr_changed :: "u32 \<Rightarrow> u32 \<Rightarrow> app \<Rightarrow> app" where
  "netif_do_ip_addr_changed old_addr new_addr s = s\<lparr>udp := udp_netif_ip_addr_changed old_addr new_addr (udp s)\<rparr>"

definition netif_do_set_ipaddr :: "app netif_env \<Rightarrow> u32 \<Rightarrow> app \<Rightarrow> (bool \<times> app) option" where
  "netif_do_set_ipaddr x ipaddr s =
     (if ipaddr \<noteq> ip_addr (netif_st s)
      then let s1 = netif_do_ip_addr_changed (ip_addr (netif_st s)) ipaddr s;
               s2 = upd_netif (\<lambda>n. n\<lparr>ip_addr := ipaddr\<rparr>) s1
           in do { s3 \<leftarrow> netif_issue_reports x s2; s4 \<leftarrow> NETIF_STATUS_CALLBACK s3; Some (True, s4) }
      else Some (False, s))"

definition netif_do_set_netmask :: "u32 \<Rightarrow> app \<Rightarrow> bool \<times> app" where
  "netif_do_set_netmask m s =
     (if m \<noteq> netmask (netif_st s) then (True, upd_netif (\<lambda>n. n\<lparr>netmask := m\<rparr>) s) else (False, s))"

definition netif_do_set_gw :: "u32 \<Rightarrow> app \<Rightarrow> bool \<times> app" where
  "netif_do_set_gw g s =
     (if g \<noteq> gw (netif_st s) then (True, upd_netif (\<lambda>n. n\<lparr>gw := g\<rparr>) s) else (False, s))"

text \<open>A null pointer stands for the address 0.\<close>

definition or_any :: "u32 option \<Rightarrow> u32" where
  "or_any a = (case a of None \<Rightarrow> 0 | Some v \<Rightarrow> v)"

definition netif_set_ipaddr :: "app netif_env \<Rightarrow> u32 option \<Rightarrow> app \<Rightarrow> app option" where
  "netif_set_ipaddr x a s = do { (changed, s1) \<leftarrow> netif_do_set_ipaddr x (or_any a) s; Some s1 }"

definition netif_set_netmask :: "u32 option \<Rightarrow> app \<Rightarrow> app" where
  "netif_set_netmask m s = snd (netif_do_set_netmask (or_any m) s)"

definition netif_set_gw :: "u32 option \<Rightarrow> app \<Rightarrow> app" where
  "netif_set_gw g s = snd (netif_do_set_gw (or_any g) s)"

text \<open>An address is taken away before the mask and the gateway change, and set after them.\<close>

definition netif_set_addr :: "app netif_env \<Rightarrow> u32 option \<Rightarrow> u32 option \<Rightarrow> u32 option \<Rightarrow> app \<Rightarrow> app option" where
  "netif_set_addr x a m g s =
     (let ipaddr = or_any a; remove = (ipaddr = 0) in
      do { s1 \<leftarrow> (if remove then do { (c, u) \<leftarrow> netif_do_set_ipaddr x ipaddr s; Some u } else Some s);
           let s2 = snd (netif_do_set_netmask (or_any m) s1); s3 = snd (netif_do_set_gw (or_any g) s2) in
           if \<not> remove then do { (c, u) \<leftarrow> netif_do_set_ipaddr x ipaddr s3; Some u } else Some s3 })"

section \<open>Administration\<close>

definition netif_set_default :: "bool \<Rightarrow> app \<Rightarrow> app" where
  "netif_set_default given s = s\<lparr>netif_default := (if given then Some (netif_st s) else None)\<rparr>"

definition netif_set_status_callback :: "bool \<Rightarrow> app \<Rightarrow> app" where
  "netif_set_status_callback cb s = s\<lparr>status_callback := cb\<rparr>"

definition netif_set_up :: "app netif_env \<Rightarrow> app \<Rightarrow> app option" where
  "netif_set_up x s =
     (if flags (netif_st s) AND NETIF_FLAG_UP = 0
      then do { s1 \<leftarrow> NETIF_STATUS_CALLBACK (upd_netif (\<lambda>n. n\<lparr>flags := flags n OR NETIF_FLAG_UP\<rparr>) s);
                netif_issue_reports x s1 }
      else Some s)"

definition netif_set_down :: "app netif_env \<Rightarrow> app \<Rightarrow> app option" where
  "netif_set_down x s =
     (if flags (netif_st s) AND NETIF_FLAG_UP \<noteq> 0
      then let s1 = upd_netif (\<lambda>n. n\<lparr>flags := flags n AND NOT NETIF_FLAG_UP\<rparr>) s in
           do { s2 \<leftarrow> (if flags (netif_st s1) AND NETIF_FLAG_ETHARP \<noteq> 0 then x_etharp_cleanup_netif x s1 else Some s1);
                NETIF_STATUS_CALLBACK s2 }
      else Some s)"

text \<open>A second interface is refused by an assertion: \<open>None\<close>. The first component is false for a null result.\<close>

definition netif_add :: "app netif_env \<Rightarrow> u32 option \<Rightarrow> u32 option \<Rightarrow> u32 option \<Rightarrow> app \<Rightarrow> (bool \<times> app) option" where
  "netif_add x a m g s =
     (if netif_default s \<noteq> None then None
      else let s1 = s\<lparr>netif_st := (netif_st s)\<lparr>ip_addr := 0, netmask := 0, gw := 0, mtu := 0, flags := 0, num := 0\<rparr>,
                      status_callback := False\<rparr>
           in do { s2 \<leftarrow> netif_set_addr x a m g s1;
                   (e, nif, s3) \<leftarrow> lan9118_netif_init (netif_st s2) s2;
                   Some (e = ERR_OK, upd_netif (\<lambda>_. nif) s3) })"

section \<open>The application\<close>

definition network_init :: "app netif_env \<Rightarrow> app \<Rightarrow> app option" where
  "network_init x s =
     do { s1 \<leftarrow> uart_puts (''Initializing lwIP stack...'' @ crlf) s;
          s2 \<leftarrow> x_lwip_init x s1;
          s3 \<leftarrow> uart_puts (''lwIP init done.'' @ crlf) s2;
          s4 \<leftarrow> uart_puts (''Adding network interface...'' @ crlf) s3;
          (ok, s5) \<leftarrow> netif_add x (Some 0) (Some 0) (Some 0) s4;
          s6 \<leftarrow> uart_puts (''Network interface added.'' @ crlf) s5;
          s7 \<leftarrow> netif_set_up x (netif_set_status_callback True (netif_set_default True s6));
          s8 \<leftarrow> uart_puts (''Starting DHCP...'' @ crlf) s7;
          x_dhcp_start x s8 }"

definition network_is_up :: "app \<Rightarrow> int" where
  "network_is_up s = dhcp_done s"

definition get_netif :: "app \<Rightarrow> netif" where
  "get_netif s = netif_st s"

section \<open>Correctness\<close>

text \<open>What ARP announcements leave alone, and what the console changes.\<close>

definition app_same :: "app \<Rightarrow> app \<Rightarrow> bool" where
  "app_same s s' \<longleftrightarrow> netif_st s' = netif_st s \<and> netif_default s' = netif_default s \<and> status_callback s' = status_callback s
     \<and> udp s' = udp s \<and> dhcp_done s' = dhcp_done s \<and> prefix (uart_tx s) (uart_tx s')"

definition arp_ok :: "app netif_env \<Rightarrow> bool" where
  "arp_ok x \<longleftrightarrow> (\<forall>s. uart_ready s \<longrightarrow> (\<exists>s'. x_etharp_gratuitous x s = Some s' \<and> uart_ready s' \<and> app_same s s'))"

lemma app_same_refl: "app_same s s"
  by (simp add: app_same_def)

text \<open>What the status callback prints.\<close>

definition status_text :: "netif \<Rightarrow> string" where
  "status_text n = ''Network: IP address obtained via DHCP'' @ crlf @ (''  IP:      '' @ dotted (ip_addr n) @ crlf)
     @ (''  Netmask: '' @ dotted (netmask n) @ crlf) @ ''  Gateway: '' @ dotted (gw n) @ crlf"

lemma ntoa_dotted: "ntoa a = dotted a"
  using length_dotted [of a] by (simp add: ntoa_def ip4addr_ntoa_def ntoa_r_spec)

lemma vformat_plain: "CHR ''%'' \<notin> set t \<Longrightarrow> vformat None (t @ cs) as = t @ vformat None cs as"
  by (induction t) auto

lemma labelled_emitter:
  assumes "nul_free label" and "CHR ''%'' \<notin> set label" and "length label \<le> 200"
  shows "uart_emitter (uart_print (label @ ''%s'' @ crlf) [AStr (ntoa a)]) (label @ dotted a @ crlf)"
proof -
  have v: "vformat None (label @ ''%s'' @ crlf) [AStr (ntoa a)] = label @ dotted a @ crlf"
    using assms(2) by (simp add: vformat_plain crlf_def pad_left_def ntoa_dotted)
  have l: "length (label @ dotted a @ crlf) \<le> 255" using assms(3) length_dotted [of a] by (simp add: crlf_def)
  have n: "CHR 0x00 \<notin> set (label @ dotted a @ crlf)"
    using assms(1) dotted_nul_free [of a] by (simp add: ntoa_dotted [unfolded ntoa_def] nul_free_def crlf_def)
  show ?thesis using uart_print_emitter [of "label @ ''%s'' @ crlf" "[AStr (ntoa a)]"] n l unfolding v by simp
qed

lemma status_emitter:
  "uart_emitter (\<lambda>s :: 'a uart_scheme. do { s1 \<leftarrow> uart_print (''Network: IP address obtained via DHCP'' @ crlf) [] s;
       s2 \<leftarrow> uart_print (''  IP:      %s'' @ crlf) [AStr (ntoa (ip_addr n))] s1;
       s3 \<leftarrow> uart_print (''  Netmask: %s'' @ crlf) [AStr (ntoa (netmask n))] s2;
       uart_print (''  Gateway: %s'' @ crlf) [AStr (ntoa (gw n))] s3 }) (status_text n)"
proof -
  have h: "uart_emitter (uart_print (''Network: IP address obtained via DHCP'' @ crlf) []) (''Network: IP address obtained via DHCP'' @ crlf)"
    using uart_print_emitter [of "''Network: IP address obtained via DHCP'' @ crlf" "[]"] by (simp add: crlf_def)
  have a: "uart_emitter (uart_print (''  IP:      %s'' @ crlf) [AStr (ntoa (ip_addr n))]) (''  IP:      '' @ dotted (ip_addr n) @ crlf)"
    and m: "uart_emitter (uart_print (''  Netmask: %s'' @ crlf) [AStr (ntoa (netmask n))]) (''  Netmask: '' @ dotted (netmask n) @ crlf)"
    and g: "uart_emitter (uart_print (''  Gateway: %s'' @ crlf) [AStr (ntoa (gw n))]) (''  Gateway: '' @ dotted (gw n) @ crlf)"
    using labelled_emitter [of "''  IP:      ''" "ip_addr n"] labelled_emitter [of "''  Netmask: ''" "netmask n"]
      labelled_emitter [of "''  Gateway: ''" "gw n"] by (simp_all add: nul_free_code)
  show ?thesis unfolding status_text_def
    by (rule con.emitter_bind [OF h con.emitter_bind [OF a con.emitter_bind [OF m g refl] refl]]) simp
qed

text \<open>What an operation that reports the state of the interface leaves: its text comes last.\<close>

definition reported :: "app \<Rightarrow> app \<Rightarrow> bool" where
  "reported s s' \<longleftrightarrow> uart_ready s' \<and> netif_st s' = netif_st s \<and> netif_default s' = netif_default s \<and> status_callback s'
     \<and> udp s' = udp s \<and> network_is_up s' = (if ip_addr (netif_st s) \<noteq> 0 then 1 else network_is_up s)
     \<and> (\<exists>w. uart_tx s' = uart_tx s @ w @ map u32_of_char (if ip_addr (netif_st s) \<noteq> 0 then status_text (netif_st s) else []))"

lemma status_callback_reports:
  assumes "uart_ready s" and "status_callback s"
  shows "\<exists>s'. NETIF_STATUS_CALLBACK s = Some s' \<and> reported s s'"
proof (cases "ip_addr (netif_st s) = 0")
  case True
  then show ?thesis using assms by (simp add: NETIF_STATUS_CALLBACK_def netif_status_callback_def reported_def)
next
  case False
  obtain s' where s': "netif_status_callback s = Some s'" "uart_emits (s\<lparr>dhcp_done := 1\<rparr>) (status_text (netif_st s)) s'" "uart_ready s'"
    using con.emitter_run [OF status_emitter, of "s\<lparr>dhcp_done := 1\<rparr>" "netif_st s"] assms(1) False
    by (auto simp: netif_status_callback_def Let_def uart_ready_def)
  have "reported s s'" using s'(2,3) assms(2) False by (auto simp: reported_def uart_emits_def network_is_up_def)
  then show ?thesis using s'(1) assms(2) by (simp add: NETIF_STATUS_CALLBACK_def)
qed

lemma reported_after: "app_same s t \<Longrightarrow> reported t u \<Longrightarrow> reported s u"
  by (auto simp: app_same_def reported_def prefix_def network_is_up_def)

lemma issue_reports_same:
  assumes "arp_ok x" and "uart_ready s"
  shows "\<exists>s'. netif_issue_reports x s = Some s' \<and> uart_ready s' \<and> app_same s s'"
  using assms by (auto simp: netif_issue_reports_def arp_ok_def Let_def app_same_refl)

lemma announce_reports:
  assumes "arp_ok x" and "uart_ready s" and "status_callback s"
  shows "\<exists>s'. Option.bind (netif_issue_reports x s) NETIF_STATUS_CALLBACK = Some s' \<and> reported s s'"
proof -
  obtain t where t: "netif_issue_reports x s = Some t" "uart_ready t" "app_same s t" using issue_reports_same [OF assms(1,2)] by blast
  then have "status_callback t" using assms(3) by (simp add: app_same_def)
  then obtain u where "NETIF_STATUS_CALLBACK t = Some u" "reported t u" using status_callback_reports t(2) by blast
  then show ?thesis using t reported_after by auto
qed

text \<open>The structure seen through \<open>netif_default\<close> is the application's.\<close>

definition default_ok :: "app \<Rightarrow> bool" where
  "default_ok s \<longleftrightarrow> netif_default s = Some (netif_st s)"

lemma upd_netif_simps:
  "netif_st (upd_netif f s) = f (netif_st s)" "uart_ready (upd_netif f s) = uart_ready s" "status_callback (upd_netif f s) = status_callback s"
  "udp (upd_netif f s) = udp s" "network_is_up (upd_netif f s) = network_is_up s" "uart_tx (upd_netif f s) = uart_tx s"
  "default_ok s \<Longrightarrow> default_ok (upd_netif f s)"
  by (simp_all add: upd_netif_def uart_ready_def network_is_up_def default_ok_def)

lemma uart_ready_udp: "uart_ready (s\<lparr>udp := u\<rparr>) = uart_ready s"
  by (simp add: uart_ready_def)

lemma set_ipaddr_reports:
  assumes "arp_ok x" and "uart_ready s" and "status_callback s" and "a \<noteq> ip_addr (netif_st s)"
  shows "\<exists>s'. netif_do_set_ipaddr x a s = Some (True, s')
     \<and> reported (upd_netif (\<lambda>n. n\<lparr>ip_addr := a\<rparr>) (netif_do_ip_addr_changed (ip_addr (netif_st s)) a s)) s'"
proof -
  let ?t = "upd_netif (\<lambda>n. n\<lparr>ip_addr := a\<rparr>) (netif_do_ip_addr_changed (ip_addr (netif_st s)) a s)"
  have "uart_ready ?t" "status_callback ?t"
    using assms(2,3) by (simp_all add: upd_netif_simps netif_do_ip_addr_changed_def uart_ready_udp)
  then obtain u where "Option.bind (netif_issue_reports x ?t) NETIF_STATUS_CALLBACK = Some u" "reported ?t u"
    using announce_reports [OF assms(1)] by blast
  then show ?thesis using assms(4) by (auto simp: netif_do_set_ipaddr_def Let_def split: bind_splits)
qed

text \<open>Changing the mask and the gateway has no effect besides.\<close>

definition masked :: "u32 \<Rightarrow> u32 \<Rightarrow> app \<Rightarrow> app" where
  "masked m g s = snd (netif_do_set_gw g (snd (netif_do_set_netmask m s)))"

lemma masked_eq: "default_ok s \<Longrightarrow> masked m g s = upd_netif (\<lambda>n. n\<lparr>netmask := m, gw := g\<rparr>) s"
  by (auto simp: masked_def netif_do_set_netmask_def netif_do_set_gw_def upd_netif_def default_ok_def)

text \<open>C24. When the DHCP client gives the interface a new address (netif_set_addr with an address that
  is not zero and not the current one), the call returns: the structure has the three values, the
  bound UDP pcbs follow the address, network_is_up answers 1, and the text the status callback
  prints last shows the new address, netmask and gateway together, because the address is set after
  the other two. Taking the address away (a null address) changes the structure too, prints nothing
  from the callback, and leaves network_is_up as it was.\<close>

theorem netif_set_addr_reports:
  assumes "arp_ok x" and "uart_ready s" and "status_callback s" and "netif_default s = Some (netif_st s)"
    and "a \<noteq> ip_addr (netif_st s)"
  shows "\<exists>s' w. netif_set_addr x (Some a) (Some m) (Some g) s = Some s'
     \<and> netif_st s' = (netif_st s)\<lparr>ip_addr := a, netmask := m, gw := g\<rparr> \<and> netif_default s' = Some (netif_st s')
     \<and> udp s' = udp_netif_ip_addr_changed (ip_addr (netif_st s)) a (udp s)
     \<and> network_is_up s' = (if a \<noteq> 0 then 1 else network_is_up s)
     \<and> uart_tx s' = uart_tx s @ w @ map u32_of_char (if a \<noteq> 0 then status_text (netif_st s') else [])"
proof (cases "a = 0")
  case True
  let ?t = "upd_netif (\<lambda>n. n\<lparr>ip_addr := a\<rparr>) (netif_do_ip_addr_changed (ip_addr (netif_st s)) a s)"
  obtain u where u: "netif_do_set_ipaddr x a s = Some (True, u)" "reported ?t u" using set_ipaddr_reports assms by blast
  have d: "default_ok u" using u(2) assms(4) by (auto simp: reported_def default_ok_def upd_netif_def netif_do_ip_addr_changed_def)
  have "netif_set_addr x (Some a) (Some m) (Some g) s = Some (masked m g u)"
    using u(1) True by (simp add: netif_set_addr_def masked_def or_any_def Let_def)
  then show ?thesis using u(2) True d
    by (auto simp: masked_eq reported_def upd_netif_def netif_do_ip_addr_changed_def network_is_up_def default_ok_def)
next
  case False
  let ?s = "upd_netif (\<lambda>n. n\<lparr>netmask := m, gw := g\<rparr>) s"
  let ?t = "upd_netif (\<lambda>n. n\<lparr>ip_addr := a\<rparr>) (netif_do_ip_addr_changed (ip_addr (netif_st ?s)) a ?s)"
  have "uart_ready ?s" "status_callback ?s" "a \<noteq> ip_addr (netif_st ?s)" using assms by (simp_all add: upd_netif_simps)
  then obtain u where u: "netif_do_set_ipaddr x a ?s = Some (True, u)" "reported ?t u" using set_ipaddr_reports assms(1) by blast
  have d: "default_ok s" using assms(4) by (simp add: default_ok_def)
  have "netif_set_addr x (Some a) (Some m) (Some g) s = Some u"
    using u(1) False by (simp add: netif_set_addr_def masked_eq [OF d, unfolded masked_def] or_any_def Let_def)
  then show ?thesis using u(2) False assms(4)
    by (auto simp: reported_def upd_netif_def netif_do_ip_addr_changed_def network_is_up_def)
qed

text \<open>An interface whose ARP announcement succeeds silently.\<close>

definition sample_app :: app where
  "sample_app = sys.extend sample_start \<lparr>netif_st = sample_netif, status_callback = True, dhcp_done = 0\<rparr>"

definition quiet_env :: "app netif_env" where
  "quiet_env = \<lparr>x_etharp_gratuitous = Some, x_etharp_cleanup_netif = Some, x_lwip_init = Some, x_dhcp_start = Some\<rparr>"

lemma sample_app_facts:
  "uart_ready sample_app" "status_callback sample_app" "netif_default sample_app = Some (netif_st sample_app)"
  "0x0202000A \<noteq> ip_addr (netif_st sample_app)" "arp_ok quiet_env"
  by (simp_all add: sample_app_def sample_start_def sample_sys_def sys.defs uart_ready_def sample_netif_def IP4_ADDR_def arp_ok_def
      quiet_env_def app_same_refl LWIP_MAKEU32_def) (auto simp: PP_HTONL_def)

theorem netif_set_addr_reports_witness:
  "\<exists>s' w. netif_set_addr quiet_env (Some 0x0202000A) (Some 0x00FFFFFF) (Some 0x0102000A) sample_app = Some s' \<and> network_is_up s' = 1
     \<and> uart_tx s' = uart_tx sample_app @ w @ map u32_of_char (status_text (netif_st s'))"
  using netif_set_addr_reports [OF sample_app_facts(5,1,2,3,4), of "0x00FFFFFF" "0x0102000A"] by auto

end
