(* ===== verification/Rtos_List.thy ===== *)
theory Rtos_List
  imports Clock_Prelude
begin

text \<open>
  The kernel lists, \<open>freertos/list.c\<close> and \<open>include/list.h\<close>: circular doubly linked lists
  with an end marker inside the list structure. The structures live in an explicit store,
  because items are shared and the code works by updating neighbours through pointers. A
  node is the end marker of a list or a list item; both are named by numbers.

  The abstract list is the sequence of the items from the end marker on, with the item
  \<open>pxIndex\<close> points to (none for the end marker). Lemmas: every operation on the store
  implements the corresponding operation on the abstract list, leaves all other lists
  alone, and the search of \<open>vListInsert\<close> ends.
\<close>

section \<open>Store\<close>

datatype node = End nat | Item nat

record list_store =
  pxNext :: "node \<Rightarrow> node"
  pxPrevious :: "node \<Rightarrow> node"
  xItemValue :: "node \<Rightarrow> u32"
  pxContainer :: "node \<Rightarrow> nat option"
  pxIndex :: "nat \<Rightarrow> node"
  uxNumberOfItems :: "nat \<Rightarrow> u32"

definition portMAX_DELAY :: u32 where [cdefs]: "portMAX_DELAY = 0xFFFFFFFF"

section \<open>Operations\<close>

definition vListInitialise :: "nat \<Rightarrow> list_store \<Rightarrow> list_store" where
  "vListInitialise l s =
     s\<lparr>pxIndex := (pxIndex s)(l := End l),
       xItemValue := (xItemValue s)(End l := portMAX_DELAY),
       pxNext := (pxNext s)(End l := End l),
       pxPrevious := (pxPrevious s)(End l := End l),
       uxNumberOfItems := (uxNumberOfItems s)(l := 0)\<rparr>"

definition vListInitialiseItem :: "nat \<Rightarrow> list_store \<Rightarrow> list_store" where
  "vListInitialiseItem i s = s\<lparr>pxContainer := (pxContainer s)(Item i := None)\<rparr>"

definition vListInsertEnd :: "nat \<Rightarrow> nat \<Rightarrow> list_store \<Rightarrow> list_store" where
  "vListInsertEnd l i s =
     (let idx = pxIndex s l;
          s1 = s\<lparr>pxNext := (pxNext s)(Item i := idx)\<rparr>;
          s2 = s1\<lparr>pxPrevious := (pxPrevious s1)(Item i := pxPrevious s1 idx)\<rparr>;
          s3 = s2\<lparr>pxNext := (pxNext s2)(pxPrevious s2 idx := Item i)\<rparr>;
          s4 = s3\<lparr>pxPrevious := (pxPrevious s3)(idx := Item i)\<rparr>;
          s5 = s4\<lparr>pxContainer := (pxContainer s4)(Item i := Some l)\<rparr>
      in s5\<lparr>uxNumberOfItems := (uxNumberOfItems s5)(l := uxNumberOfItems s5 l + 1)\<rparr>)"

partial_function (option) insert_position :: "u32 \<Rightarrow> node \<Rightarrow> list_store \<Rightarrow> node option" where
  "insert_position v it s =
     (if xItemValue s (pxNext s it) \<le> v then insert_position v (pxNext s it) s else Some it)"

definition link_after :: "node \<Rightarrow> nat \<Rightarrow> nat \<Rightarrow> list_store \<Rightarrow> list_store" where
  "link_after it l i s =
     (let s1 = s\<lparr>pxNext := (pxNext s)(Item i := pxNext s it)\<rparr>;
          s2 = s1\<lparr>pxPrevious := (pxPrevious s1)(pxNext s1 (Item i) := Item i)\<rparr>;
          s3 = s2\<lparr>pxPrevious := (pxPrevious s2)(Item i := it)\<rparr>;
          s4 = s3\<lparr>pxNext := (pxNext s3)(it := Item i)\<rparr>;
          s5 = s4\<lparr>pxContainer := (pxContainer s4)(Item i := Some l)\<rparr>
      in s5\<lparr>uxNumberOfItems := (uxNumberOfItems s5)(l := uxNumberOfItems s5 l + 1)\<rparr>)"

definition vListInsert :: "nat \<Rightarrow> nat \<Rightarrow> list_store \<Rightarrow> list_store option" where
  "vListInsert l i s =
     (let v = xItemValue s (Item i)
      in do { it \<leftarrow> (if v = portMAX_DELAY then Some (pxPrevious s (End l)) else insert_position v (End l) s);
              Some (link_after it l i s) })"

text \<open>An item that is in no list has a null container, which is dereferenced: \<open>None\<close>.\<close>

definition uxListRemove :: "nat \<Rightarrow> list_store \<Rightarrow> (u32 \<times> list_store) option" where
  "uxListRemove i s =
     (case pxContainer s (Item i) of None \<Rightarrow> None
      | Some l \<Rightarrow>
         let s1 = s\<lparr>pxPrevious := (pxPrevious s)(pxNext s (Item i) := pxPrevious s (Item i))\<rparr>;
             s2 = s1\<lparr>pxNext := (pxNext s1)(pxPrevious s1 (Item i) := pxNext s1 (Item i))\<rparr>;
             s3 = (if pxIndex s2 l = Item i then s2\<lparr>pxIndex := (pxIndex s2)(l := pxPrevious s2 (Item i))\<rparr> else s2);
             s4 = s3\<lparr>pxContainer := (pxContainer s3)(Item i := None)\<rparr>;
             s5 = s4\<lparr>uxNumberOfItems := (uxNumberOfItems s4)(l := uxNumberOfItems s4 l - 1)\<rparr>
         in Some (uxNumberOfItems s5 l, s5))"

definition listGET_OWNER_OF_NEXT_ENTRY :: "nat \<Rightarrow> list_store \<Rightarrow> node \<times> list_store" where
  "listGET_OWNER_OF_NEXT_ENTRY l s =
     (let s1 = s\<lparr>pxIndex := (pxIndex s)(l := pxNext s (pxIndex s l))\<rparr>;
          s2 = (if pxIndex s1 l = End l then s1\<lparr>pxIndex := (pxIndex s1)(l := pxNext s1 (End l))\<rparr> else s1)
      in (pxIndex s2 l, s2))"

definition listGET_HEAD_ENTRY :: "nat \<Rightarrow> list_store \<Rightarrow> node" where
  "listGET_HEAD_ENTRY l s = pxNext s (End l)"

definition listLIST_IS_EMPTY :: "nat \<Rightarrow> list_store \<Rightarrow> bool" where
  "listLIST_IS_EMPTY l s \<longleftrightarrow> uxNumberOfItems s l = 0"

section \<open>Abstract lists\<close>

type_synonym 'a alist = "'a list \<times> 'a option"

definition a_insert :: "('a \<Rightarrow> u32) \<Rightarrow> 'a \<Rightarrow> 'a alist \<Rightarrow> 'a alist" where
  "a_insert key x A = (takeWhile (\<lambda>y. key y \<le> key x) (fst A) @ x # dropWhile (\<lambda>y. key y \<le> key x) (fst A), snd A)"

definition a_insert_end :: "'a \<Rightarrow> 'a alist \<Rightarrow> 'a alist" where
  "a_insert_end x A = (case snd A of None \<Rightarrow> (fst A @ [x], None)
     | Some y \<Rightarrow> (takeWhile (\<lambda>z. z \<noteq> y) (fst A) @ x # dropWhile (\<lambda>z. z \<noteq> y) (fst A), Some y))"

definition a_pred :: "'a \<Rightarrow> 'a list \<Rightarrow> 'a option" where
  "a_pred x xs = (let pre = takeWhile (\<lambda>z. z \<noteq> x) xs in if pre = [] then None else Some (last pre))"

definition a_remove :: "'a \<Rightarrow> 'a alist \<Rightarrow> 'a alist" where
  "a_remove x A = (remove1 x (fst A), if snd A = Some x then a_pred x (fst A) else snd A)"

definition a_next :: "'a alist \<Rightarrow> 'a \<times> 'a alist" where
  "a_next A = (let n = (case snd A of None \<Rightarrow> hd (fst A)
       | Some y \<Rightarrow> (case tl (dropWhile (\<lambda>z. z \<noteq> y) (fst A)) of [] \<Rightarrow> hd (fst A) | z # _ \<Rightarrow> z))
     in (n, (fst A, Some n)))"

section \<open>The representation\<close>

definition adj :: "list_store \<Rightarrow> node \<Rightarrow> node \<Rightarrow> bool" where
  "adj s a b \<longleftrightarrow> pxNext s a = b \<and> pxPrevious s b = a"

definition ring :: "list_store \<Rightarrow> nat \<Rightarrow> nat list \<Rightarrow> bool" where
  "ring s l xs \<longleftrightarrow> distinct xs \<and> successively (adj s) (End l # map Item xs @ [End l])
     \<and> (\<forall>x\<in>set xs. pxContainer s (Item x) = Some l) \<and> uxNumberOfItems s l = of_nat (length xs)
     \<and> xItemValue s (End l) = portMAX_DELAY"

definition idx_node :: "nat \<Rightarrow> nat option \<Rightarrow> node" where
  "idx_node l i = (case i of None \<Rightarrow> End l | Some y \<Rightarrow> Item y)"

definition rep :: "list_store \<Rightarrow> nat \<Rightarrow> nat alist \<Rightarrow> bool" where
  "rep s l A \<longleftrightarrow> ring s l (fst A) \<and> pxIndex s l = idx_node l (snd A) \<and> (\<forall>y. snd A = Some y \<longrightarrow> y \<in> set (fst A))"

lemma adj_frame:
  assumes "successively (adj s) ps" and "\<forall>n\<in>set (butlast ps). pxNext s' n = pxNext s n" and "\<forall>n\<in>set (tl ps). pxPrevious s' n = pxPrevious s n"
  shows "successively (adj s') ps"
  using assms
proof (induction ps rule: induct_list012)
  case (3 x y zs)
  then show ?case by (auto simp: adj_def successively_Cons split: if_splits)
qed simp_all

lemma ring_split:
  "successively (adj s) (End l # map Item (xs @ ys) @ [End l]) \<longleftrightarrow>
     successively (adj s) (End l # map Item xs) \<and> successively (adj s) (map Item ys @ [End l])
     \<and> adj s (last (End l # map Item xs)) (hd (map Item ys @ [End l]))"
  using successively_append_iff [of "adj s" "End l # map Item xs" "map Item ys @ [End l]"] by auto

text \<open>Linking a new item between two neighbours; the two insertion functions do this.\<close>

definition linked_in :: "node \<Rightarrow> node \<Rightarrow> nat \<Rightarrow> nat \<Rightarrow> list_store \<Rightarrow> list_store" where
  "linked_in a b l i s =
     s\<lparr>pxNext := (pxNext s)(Item i := b, a := Item i), pxPrevious := (pxPrevious s)(Item i := a, b := Item i),
       pxContainer := (pxContainer s)(Item i := Some l), uxNumberOfItems := (uxNumberOfItems s)(l := uxNumberOfItems s l + 1)\<rparr>"

lemma link_after_eq: "it \<noteq> Item i \<Longrightarrow> pxNext s it \<noteq> Item i \<Longrightarrow> link_after it l i s = linked_in it (pxNext s it) l i s"
  by (simp add: link_after_def linked_in_def Let_def fun_upd_twist)

lemma insert_end_eq:
  "pxIndex s l \<noteq> Item i \<Longrightarrow> pxPrevious s (pxIndex s l) \<noteq> Item i \<Longrightarrow>
   vListInsertEnd l i s = linked_in (pxPrevious s (pxIndex s l)) (pxIndex s l) l i s"
  by (simp add: vListInsertEnd_def linked_in_def Let_def)

lemma linked_in_ring:
  assumes "ring s l (xs @ ys)" and "i \<notin> set (xs @ ys)"
    and "a = last (End l # map Item xs)" and "b = hd (map Item ys @ [End l])"
  shows "ring (linked_in a b l i s) l (xs @ i # ys)"
proof -
  let ?s = "linked_in a b l i s"
  have d: "distinct (xs @ ys)" and pr: "successively (adj s) (End l # map Item xs)"
    and po: "successively (adj s) (map Item ys @ [End l])" and "adj s a b"
    using assms ring_split [of s l xs ys] by (auto simp: ring_def)
  have ai: "a \<noteq> Item i" using assms(2,3) by (cases xs rule: rev_cases) auto
  have bi: "b \<noteq> Item i" using assms(2,4) by (cases ys) auto
  have "successively (adj ?s) (End l # map Item xs)"
  proof (rule adj_frame [OF pr])
    have "n \<noteq> a \<and> n \<noteq> Item i" if "n \<in> set (butlast (End l # map Item xs))" for n
      using that d assms(2,3) by (cases xs rule: rev_cases) (auto simp: butlast_append)
    then show "\<forall>n\<in>set (butlast (End l # map Item xs)). pxNext ?s n = pxNext s n" by (auto simp: linked_in_def)
    have "n \<noteq> b \<and> n \<noteq> Item i" if "n \<in> set (tl (End l # map Item xs))" for n
      using that d assms(2,4) by (cases ys) auto
    then show "\<forall>n\<in>set (tl (End l # map Item xs)). pxPrevious ?s n = pxPrevious s n" by (auto simp: linked_in_def)
  qed
  moreover have "successively (adj ?s) (map Item ys @ [End l])"
  proof (rule adj_frame [OF po])
    have "n \<noteq> a \<and> n \<noteq> Item i" if "n \<in> set (butlast (map Item ys @ [End l]))" for n
      using that d assms(2,3) by (cases xs rule: rev_cases) auto
    then show "\<forall>n\<in>set (butlast (map Item ys @ [End l])). pxNext ?s n = pxNext s n" by (auto simp: linked_in_def)
    have "n \<noteq> b \<and> n \<noteq> Item i" if "n \<in> set (tl (map Item ys @ [End l]))" for n
      using that d assms(2,4) by (cases ys) auto
    then show "\<forall>n\<in>set (tl (map Item ys @ [End l])). pxPrevious ?s n = pxPrevious s n" by (auto simp: linked_in_def)
  qed
  moreover have "adj ?s a (Item i)" "adj ?s (Item i) b" using ai bi by (auto simp: adj_def linked_in_def)
  ultimately have "successively (adj ?s) (End l # map Item (xs @ i # ys) @ [End l])"
    unfolding ring_split assms(3,4) by (cases ys) (auto simp: successively_Cons)
  then show ?thesis using assms(1,2) d by (auto simp: ring_def linked_in_def add.commute)
qed

text \<open>An update that touches only nodes outside a list leaves the list as it is.\<close>

lemma ring_frame:
  assumes "ring s l xs"
    and "\<forall>n. n = End l \<or> n \<in> Item ` set xs \<longrightarrow>
      pxNext s' n = pxNext s n \<and> pxPrevious s' n = pxPrevious s n \<and> pxContainer s' n = pxContainer s n"
    and "xItemValue s' (End l) = xItemValue s (End l)" and "uxNumberOfItems s' l = uxNumberOfItems s l"
  shows "ring s' l xs"
proof -
  have "successively (adj s') (End l # map Item xs @ [End l])"
  proof (rule adj_frame)
    show "successively (adj s) (End l # map Item xs @ [End l])" using assms(1) by (simp add: ring_def)
  qed (use assms(2) in \<open>auto simp: butlast_append\<close>)
  then show ?thesis using assms by (auto simp: ring_def)
qed

lemma ring_next_prev:
  assumes "ring s l (xs @ ys)"
  shows "pxNext s (last (End l # map Item xs)) = hd (map Item ys @ [End l])"
    and "pxPrevious s (hd (map Item ys @ [End l])) = last (End l # map Item xs)"
  using assms ring_split [of s l xs ys] by (auto simp: ring_def adj_def)

lemma le_max_delay: "v \<le> portMAX_DELAY"
proof -
  have "unat v < 4294967296" by simp
  then have "unat v \<le> 4294967295" by linarith
  then show ?thesis by (simp add: word_le_nat_alt portMAX_DELAY_def)
qed

lemma insert_position_spec:
  assumes "ring s l (pre @ post)" and "v \<noteq> portMAX_DELAY"
  shows "insert_position v (last (End l # map Item pre)) s =
     Some (last (End l # map Item (pre @ takeWhile (\<lambda>y. xItemValue s (Item y) \<le> v) post)))"
  using assms(1)
proof (induction post arbitrary: pre)
  case Nil
  have "xItemValue s (End l) = portMAX_DELAY" using Nil by (simp add: ring_def)
  then have "\<not> xItemValue s (End l) \<le> v" using assms(2) le_max_delay [of v] by auto
  then show ?case using ring_next_prev(1) [OF Nil] by (subst insert_position.simps) simp
next
  case (Cons y ys)
  have nx: "pxNext s (last (End l # map Item pre)) = Item y" using ring_next_prev(1) [OF Cons.prems] by simp
  show ?case
  proof (cases "xItemValue s (Item y) \<le> v")
    case True
    then have "insert_position v (last (End l # map Item pre)) s = insert_position v (Item y) s"
      by (subst insert_position.simps) (simp only: nx if_True)
    also have "\<dots> = Some (last (End l # map Item ((pre @ [y]) @ takeWhile (\<lambda>y. xItemValue s (Item y) \<le> v) ys)))"
      using Cons.IH [of "pre @ [y]"] Cons.prems by simp
    finally show ?thesis using True by simp
  next
    case False
    then have "insert_position v (last (End l # map Item pre)) s = Some (last (End l # map Item pre))"
      by (subst insert_position.simps) (simp only: nx if_False)
    then show ?thesis using False by simp
  qed
qed

section \<open>Refinement of the operations\<close>

lemma rep_linked_in:
  assumes "rep s l A" and "fst A = xs @ ys" and "i \<notin> set (fst A)"
    and "a = last (End l # map Item xs)" and "b = hd (map Item ys @ [End l])"
  shows "rep (linked_in a b l i s) l (xs @ i # ys, snd A)"
    and "l' \<noteq> l \<Longrightarrow> rep s l' B \<Longrightarrow> set (fst B) \<inter> set (i # fst A) = {} \<Longrightarrow> rep (linked_in a b l i s) l' B"
proof -
  show "rep (linked_in a b l i s) l (xs @ i # ys, snd A)"
    using assms linked_in_ring [of s l xs ys i a b] unfolding rep_def by (auto simp: linked_in_def)
  have ab: "a = End l \<or> a \<in> Item ` set (fst A)" "b = End l \<or> b \<in> Item ` set (fst A)"
    using assms(2,4,5) by (cases xs rule: rev_cases; cases ys; auto)+
  assume l': "l' \<noteq> l" "rep s l' B" "set (fst B) \<inter> set (i # fst A) = {}"
  have "ring (linked_in a b l i s) l' (fst B)"
  proof (rule ring_frame)
    show "ring s l' (fst B)" using l'(2) by (simp add: rep_def)
    show "\<forall>n. n = End l' \<or> n \<in> Item ` set (fst B) \<longrightarrow> pxNext (linked_in a b l i s) n = pxNext s n
       \<and> pxPrevious (linked_in a b l i s) n = pxPrevious s n \<and> pxContainer (linked_in a b l i s) n = pxContainer s n"
      using ab l'(1,3) by (auto simp: linked_in_def)
  qed (use l'(1) in \<open>auto simp: linked_in_def\<close>)
  then show "rep (linked_in a b l i s) l' B" using l' by (auto simp: rep_def linked_in_def)
qed

lemma vListInsert_refines:
  assumes "rep s l A" and "i \<notin> set (fst A)"
  shows "\<exists>s'. vListInsert l i s = Some s' \<and> rep s' l (a_insert (\<lambda>y. xItemValue s (Item y)) i A) \<and> xItemValue s' = xItemValue s
     \<and> (\<forall>l' B. l' \<noteq> l \<longrightarrow> rep s l' B \<longrightarrow> set (fst B) \<inter> set (i # fst A) = {} \<longrightarrow> rep s' l' B)
     \<and> (\<forall>j. j \<noteq> i \<longrightarrow> pxContainer s' (Item j) = pxContainer s (Item j))"
proof -
  define v where "v = xItemValue s (Item i)"
  define xs where "xs = takeWhile (\<lambda>y. xItemValue s (Item y) \<le> v) (fst A)"
  define ys where "ys = dropWhile (\<lambda>y. xItemValue s (Item y) \<le> v) (fst A)"
  define a where "a = last (End l # map Item xs)"
  define b where "b = hd (map Item ys @ [End l])"
  have sp: "fst A = xs @ ys" by (simp add: xs_def ys_def)
  have rg: "ring s l (xs @ ys)" using assms(1) sp by (simp add: rep_def)
  have pos: "(if v = portMAX_DELAY then Some (pxPrevious s (End l)) else insert_position v (End l) s) = Some a"
  proof (cases "v = portMAX_DELAY")
    case True
    then have "xItemValue s (Item y) \<le> v" for y using le_max_delay by simp
    then have "xs = fst A" "ys = []" by (simp_all add: xs_def ys_def)
    then show ?thesis using True ring_next_prev(2) [OF rg] by (simp add: a_def)
  next
    case False
    have "ring s l ([] @ fst A)" using assms(1) by (simp add: rep_def)
    from insert_position_spec [OF this False] False show ?thesis by (simp add: xs_def a_def)
  qed
  have nx: "pxNext s a = b" unfolding a_def b_def by (rule ring_next_prev(1) [OF rg])
  have ai: "a \<noteq> Item i" using assms(2) sp by (cases xs rule: rev_cases) (auto simp: a_def)
  have bi: "b \<noteq> Item i" using assms(2) sp by (cases ys) (auto simp: b_def)
  have "vListInsert l i s = Some (linked_in a b l i s)"
    unfolding vListInsert_def Let_def v_def [symmetric] pos using link_after_eq [of a i s l] ai bi nx by simp
  moreover have "a_insert (\<lambda>y. xItemValue s (Item y)) i A = (xs @ i # ys, snd A)" by (simp add: a_insert_def xs_def ys_def v_def)
  moreover note rep_linked_in [OF assms(1) sp assms(2) a_def b_def]
  ultimately show ?thesis
    by (intro exI [of _ "linked_in a b l i s"] conjI allI impI) (auto simp: linked_in_def)
qed

lemma vListInsertEnd_refines:
  assumes "rep s l A" and "i \<notin> set (fst A)"
  shows "rep (vListInsertEnd l i s) l (a_insert_end i A) \<and> xItemValue (vListInsertEnd l i s) = xItemValue s
     \<and> (\<forall>l' B. l' \<noteq> l \<longrightarrow> rep s l' B \<longrightarrow> set (fst B) \<inter> set (i # fst A) = {} \<longrightarrow> rep (vListInsertEnd l i s) l' B)
     \<and> (\<forall>j. j \<noteq> i \<longrightarrow> pxContainer (vListInsertEnd l i s) (Item j) = pxContainer s (Item j))"
proof -
  obtain xs ys where sp: "fst A = xs @ ys" "hd (map Item ys @ [End l]) = idx_node l (snd A)" "a_insert_end i A = (xs @ i # ys, snd A)"
  proof (cases "snd A")
    case None
    then show ?thesis using that [of "fst A" "[]"] by (simp add: idx_node_def a_insert_end_def prod_eq_iff)
  next
    case (Some y)
    then have y: "y \<in> set (fst A)" using assms(1) by (simp add: rep_def)
    then have "dropWhile (\<lambda>z. z \<noteq> y) (fst A) \<noteq> []" by (simp add: dropWhile_eq_Nil_conv)
    moreover from this have "hd (dropWhile (\<lambda>z. z \<noteq> y) (fst A)) = y" using hd_dropWhile [of "\<lambda>z. z \<noteq> y" "fst A"] by blast
    ultimately have "hd (map Item (dropWhile (\<lambda>z. z \<noteq> y) (fst A)) @ [End l]) = Item y" by (cases "dropWhile (\<lambda>z. z \<noteq> y) (fst A)") simp_all
    then show ?thesis using that [of "takeWhile (\<lambda>z. z \<noteq> y) (fst A)" "dropWhile (\<lambda>z. z \<noteq> y) (fst A)"] Some
      by (simp add: idx_node_def a_insert_end_def)
  qed
  define a where "a = last (End l # map Item xs)"
  define b where "b = hd (map Item ys @ [End l])"
  have rg: "ring s l (xs @ ys)" using assms(1) sp by (simp add: rep_def)
  have ix: "pxIndex s l = b" using assms(1) sp(2) by (simp add: rep_def b_def)
  have pv: "pxPrevious s b = a" unfolding a_def b_def by (rule ring_next_prev(2) [OF rg])
  have ai: "a \<noteq> Item i" using assms(2) sp by (cases xs rule: rev_cases) (auto simp: a_def)
  have bi: "b \<noteq> Item i" using assms(2) sp by (cases ys) (auto simp: b_def)
  have "vListInsertEnd l i s = linked_in a b l i s" using insert_end_eq [of s l i] ai bi pv ix by simp
  moreover note rep_linked_in [OF assms(1) sp(1) assms(2) a_def b_def]
  ultimately show ?thesis using sp(3) by (auto simp: linked_in_def)
qed

definition unlinked :: "node \<Rightarrow> node \<Rightarrow> nat \<Rightarrow> nat \<Rightarrow> list_store \<Rightarrow> list_store" where
  "unlinked a b l i s =
     s\<lparr>pxNext := (pxNext s)(a := b), pxPrevious := (pxPrevious s)(b := a),
       pxIndex := (if pxIndex s l = Item i then (pxIndex s)(l := a) else pxIndex s),
       pxContainer := (pxContainer s)(Item i := None), uxNumberOfItems := (uxNumberOfItems s)(l := uxNumberOfItems s l - 1)\<rparr>"

lemma unlinked_ring:
  assumes "ring s l (xs @ i # ys)" and a: "a = last (End l # map Item xs)" and b: "b = hd (map Item ys @ [End l])"
  shows "ring (unlinked a b l i s) l (xs @ ys)" "pxNext s (Item i) = b" "pxPrevious s (Item i) = a" "a \<noteq> Item i" "b \<noteq> Item i"
proof -
  let ?s = "unlinked a b l i s"
  have d: "distinct (xs @ i # ys)" using assms(1) by (simp add: ring_def)
  have pr: "successively (adj s) (End l # map Item xs)" and po: "successively (adj s) (map Item ys @ [End l])"
    and l1: "adj s a (Item i)" and l2: "adj s (Item i) b"
    using assms(1) ring_split [of s l xs "i # ys"] by (auto simp: ring_def successively_Cons a b)
  show ai: "a \<noteq> Item i" using d a by (cases xs rule: rev_cases) auto
  show bi: "b \<noteq> Item i" using d b by (cases ys) auto
  show "pxNext s (Item i) = b" "pxPrevious s (Item i) = a" using l1 l2 by (auto simp: adj_def)
  have "successively (adj ?s) (End l # map Item xs)"
  proof (rule adj_frame [OF pr])
    show "\<forall>n\<in>set (butlast (End l # map Item xs)). pxNext ?s n = pxNext s n"
      using d a by (cases xs rule: rev_cases) (auto simp: butlast_append unlinked_def)
    show "\<forall>n\<in>set (tl (End l # map Item xs)). pxPrevious ?s n = pxPrevious s n"
      using d b by (cases ys) (auto simp: unlinked_def)
  qed
  moreover have "successively (adj ?s) (map Item ys @ [End l])"
  proof (rule adj_frame [OF po])
    show "\<forall>n\<in>set (butlast (map Item ys @ [End l])). pxNext ?s n = pxNext s n"
      using d a by (cases xs rule: rev_cases) (auto simp: unlinked_def)
    show "\<forall>n\<in>set (tl (map Item ys @ [End l])). pxPrevious ?s n = pxPrevious s n"
      using d b by (cases ys) (auto simp: unlinked_def)
  qed
  moreover have "adj ?s a b" by (simp add: adj_def unlinked_def)
  ultimately have "successively (adj ?s) (End l # map Item (xs @ ys) @ [End l])" unfolding ring_split a b by blast
  then show "ring ?s l (xs @ ys)" using assms(1) d by (auto simp: ring_def unlinked_def)
qed

lemma uxListRemove_refines:
  assumes "rep s l A" and "i \<in> set (fst A)"
  shows "\<exists>n s'. uxListRemove i s = Some (n, s') \<and> n = of_nat (length (fst A) - 1) \<and> rep s' l (a_remove i A) \<and> xItemValue s' = xItemValue s
     \<and> (\<forall>l' B. l' \<noteq> l \<longrightarrow> rep s l' B \<longrightarrow> set (fst B) \<inter> set (fst A) = {} \<longrightarrow> rep s' l' B)
     \<and> pxContainer s' = (pxContainer s)(Item i := None)"
proof -
  define xs where "xs = takeWhile (\<lambda>z. z \<noteq> i) (fst A)"
  define ys where "ys = tl (dropWhile (\<lambda>z. z \<noteq> i) (fst A))"
  have "dropWhile (\<lambda>z. z \<noteq> i) (fst A) = i # ys"
    using assms(2) hd_dropWhile [of "\<lambda>z. z \<noteq> i" "fst A"] by (cases "dropWhile (\<lambda>z. z \<noteq> i) (fst A)") (auto simp: ys_def dropWhile_eq_Nil_conv)
  then have sp: "fst A = xs @ i # ys" using takeWhile_dropWhile_id [of "\<lambda>z. z \<noteq> i" "fst A"] by (simp add: xs_def)
  have ix: "i \<notin> set xs" unfolding xs_def by (metis set_takeWhileD)
  define a where "a = last (End l # map Item xs)"
  define b where "b = hd (map Item ys @ [End l])"
  have rg: "ring s l (xs @ i # ys)" using assms(1) sp by (simp add: rep_def)
  note u = unlinked_ring [OF rg a_def b_def]
  have cont: "pxContainer s (Item i) = Some l" "uxNumberOfItems s l = of_nat (length (fst A))" "distinct (fst A)"
    using rg sp by (auto simp: ring_def)
  have num: "uxNumberOfItems s l - 1 = of_nat (length (fst A) - 1)" using cont(2) sp by simp
  have run: "uxListRemove i s = Some (uxNumberOfItems s l - 1, unlinked a b l i s)"
    using cont(1) u(2-5) by (auto simp: uxListRemove_def unlinked_def Let_def)
  have rm: "remove1 i (fst A) = xs @ ys" using ix by (simp add: sp remove1_append)
  have pd: "idx_node l (a_pred i (fst A)) = a"
    unfolding a_pred_def xs_def [symmetric] by (cases xs rule: rev_cases) (simp_all add: Let_def idx_node_def a_def)
  have pm: "y \<in> set (xs @ ys)" if "a_pred i (fst A) = Some y" for y
    using that unfolding a_pred_def xs_def [symmetric] by (cases xs rule: rev_cases) (auto simp: Let_def)
  have "rep (unlinked a b l i s) l (a_remove i A)"
    using u(1) assms(1) pd pm rm sp unfolding rep_def a_remove_def
    by (auto simp: unlinked_def idx_node_def split: option.splits)
  moreover have "rep (unlinked a b l i s) l' B" if l': "l' \<noteq> l" "rep s l' B" "set (fst B) \<inter> set (fst A) = {}" for l' B
  proof -
    have ab: "a = End l \<or> a \<in> Item ` set (fst A)" "b = End l \<or> b \<in> Item ` set (fst A)"
      using sp by (cases xs rule: rev_cases; cases ys; auto simp: a_def b_def)+
    have "ring (unlinked a b l i s) l' (fst B)"
    proof (rule ring_frame)
      show "ring s l' (fst B)" using l'(2) by (simp add: rep_def)
      show "\<forall>n. n = End l' \<or> n \<in> Item ` set (fst B) \<longrightarrow> pxNext (unlinked a b l i s) n = pxNext s n
         \<and> pxPrevious (unlinked a b l i s) n = pxPrevious s n \<and> pxContainer (unlinked a b l i s) n = pxContainer s n"
        using ab l'(1,3) assms(2) by (auto simp: unlinked_def)
    qed (use l'(1) in \<open>auto simp: unlinked_def\<close>)
    then show ?thesis using l' by (auto simp: rep_def unlinked_def)
  qed
  ultimately show ?thesis using run num
    by (intro exI [of _ "uxNumberOfItems s l - 1"] exI [of _ "unlinked a b l i s"]) (simp add: unlinked_def)
qed

lemma next_entry_refines:
  assumes "rep s l A" and "fst A \<noteq> []"
  shows "\<exists>s'. listGET_OWNER_OF_NEXT_ENTRY l s = (Item (fst (a_next A)), s') \<and> rep s' l (snd (a_next A)) \<and> s' = s\<lparr>pxIndex := (pxIndex s)(l := Item (fst (a_next A)))\<rparr>"
proof -
  have rg: "ring s l (fst A)" using assms(1) by (simp add: rep_def)
  have hd: "pxNext s (End l) = Item (hd (fst A))" using ring_next_prev(1) [of s l "[]" "fst A"] rg assms(2) by (cases "fst A") auto
  have st: "listGET_OWNER_OF_NEXT_ENTRY l s = (Item (fst (a_next A)), s\<lparr>pxIndex := (pxIndex s)(l := Item (fst (a_next A)))\<rparr>)"
  proof (cases "snd A")
    case None
    then have "pxIndex s l = End l" using assms(1) by (simp add: rep_def idx_node_def)
    then show ?thesis using hd None by (simp add: listGET_OWNER_OF_NEXT_ENTRY_def a_next_def Let_def)
  next
    case (Some y)
    then have ix: "pxIndex s l = Item y" "y \<in> set (fst A)" using assms(1) by (auto simp: rep_def idx_node_def)
    define xs where "xs = takeWhile (\<lambda>z. z \<noteq> y) (fst A)"
    define ys where "ys = tl (dropWhile (\<lambda>z. z \<noteq> y) (fst A))"
    have "dropWhile (\<lambda>z. z \<noteq> y) (fst A) = y # ys"
      using ix(2) hd_dropWhile [of "\<lambda>z. z \<noteq> y" "fst A"] by (cases "dropWhile (\<lambda>z. z \<noteq> y) (fst A)") (auto simp: ys_def dropWhile_eq_Nil_conv)
    then have sp: "fst A = (xs @ [y]) @ ys" using takeWhile_dropWhile_id [of "\<lambda>z. z \<noteq> y" "fst A"] by (simp add: xs_def)
    have nx: "pxNext s (Item y) = hd (map Item ys @ [End l])" using ring_next_prev(1) [of s l "xs @ [y]" ys] rg sp by simp
    have an: "fst (a_next A) = (case ys of [] \<Rightarrow> hd (fst A) | z # _ \<Rightarrow> z)" using Some by (simp add: a_next_def Let_def ys_def)
    show ?thesis
    proof (cases ys)
      case Nil
      then show ?thesis using ix(1) nx hd an by (simp add: listGET_OWNER_OF_NEXT_ENTRY_def Let_def)
    next
      case (Cons z zs)
      then show ?thesis using ix(1) nx an by (simp add: listGET_OWNER_OF_NEXT_ENTRY_def Let_def)
    qed
  qed
  have mem: "fst (a_next A) \<in> set (fst A)"
  proof (cases "snd A")
    case (Some y)
    then show ?thesis using assms(2)
      by (auto simp: a_next_def Let_def split: list.split) (metis list.set_intros(1) list.set_sel(2) set_dropWhileD tl_Nil)
  qed (use assms(2) in \<open>simp add: a_next_def Let_def\<close>)
  have "ring (s\<lparr>pxIndex := (pxIndex s)(l := Item (fst (a_next A)))\<rparr>) l (fst A)" by (rule ring_frame [OF rg]) auto
  then have "rep (s\<lparr>pxIndex := (pxIndex s)(l := Item (fst (a_next A)))\<rparr>) l (snd (a_next A))"
    using mem by (simp add: rep_def a_next_def Let_def idx_node_def)
  then show ?thesis using st by blast
qed

section \<open>The interface of the kernel lists\<close>

text \<open>
  What the scheduler and the queues rely on: a family of lists, named by the numbers in
  \<open>L\<close>, with every item in at most one of them. \<open>abs_op\<close> is an operation on the
  abstract lists, \<open>None\<close> when it is not allowed; \<open>con_op\<close> is the call on the store.
\<close>

datatype list_op = Insert nat nat | Insert_end nat nat | Remove nat nat | Next nat

definition apart_lists :: "nat list \<Rightarrow> (nat \<Rightarrow> nat alist) \<Rightarrow> bool" where
  "apart_lists L A \<longleftrightarrow> (\<forall>l\<in>set L. \<forall>k\<in>set L. l \<noteq> k \<longrightarrow> set (fst (A l)) \<inter> set (fst (A k)) = {})"

definition in_no_list :: "nat list \<Rightarrow> (nat \<Rightarrow> nat alist) \<Rightarrow> nat \<Rightarrow> bool" where
  "in_no_list L A i \<longleftrightarrow> (\<forall>l\<in>set L. i \<notin> set (fst (A l)))"

fun abs_op :: "(nat \<Rightarrow> u32) \<Rightarrow> nat list \<Rightarrow> list_op \<Rightarrow> (nat \<Rightarrow> nat alist) \<Rightarrow> (nat \<Rightarrow> nat alist) option" where
  "abs_op key L (Insert l i) A = (if l \<in> set L \<and> in_no_list L A i then Some (A(l := a_insert key i (A l))) else None)"
| "abs_op key L (Insert_end l i) A = (if l \<in> set L \<and> in_no_list L A i then Some (A(l := a_insert_end i (A l))) else None)"
| "abs_op key L (Remove l i) A = (if l \<in> set L \<and> i \<in> set (fst (A l)) then Some (A(l := a_remove i (A l))) else None)"
| "abs_op key L (Next l) A = (if l \<in> set L \<and> fst (A l) \<noteq> [] then Some (A(l := snd (a_next (A l)))) else None)"

fun con_op :: "(nat \<Rightarrow> nat \<Rightarrow> 's \<Rightarrow> 's option) \<Rightarrow> (nat \<Rightarrow> nat \<Rightarrow> 's \<Rightarrow> 's) \<Rightarrow> (nat \<Rightarrow> 's \<Rightarrow> (u32 \<times> 's) option) \<Rightarrow> (nat \<Rightarrow> 's \<Rightarrow> node \<times> 's)
    \<Rightarrow> list_op \<Rightarrow> 's \<Rightarrow> 's option" where
  "con_op ins ins_end rem nxt (Insert l i) s = ins l i s"
| "con_op ins ins_end rem nxt (Insert_end l i) s = Some (ins_end l i s)"
| "con_op ins ins_end rem nxt (Remove l i) s = map_option snd (rem i s)"
| "con_op ins ins_end rem nxt (Next l) s = Some (snd (nxt l s))"

fun run_ops :: "('op \<Rightarrow> 's \<Rightarrow> 's option) \<Rightarrow> 'op list \<Rightarrow> 's \<Rightarrow> 's option" where
  "run_ops f [] s = Some s"
| "run_ops f (x # xs) s = do { s1 \<leftarrow> f x s; run_ops f xs s1 }"

lemma a_ops_items:
  "set (fst (a_insert key i A)) = insert i (set (fst A))" "set (fst (a_insert_end i A)) = insert i (set (fst A))"
  "fst (snd (a_next A)) = fst A" "set (fst (a_remove i A)) \<subseteq> set (fst A)"
proof -
  have u: "set (takeWhile P xs) \<union> set (dropWhile P xs) = set xs" for P and xs :: "'a list"
    by (metis set_append takeWhile_dropWhile_id)
  show "set (fst (a_insert key i A)) = insert i (set (fst A))" "set (fst (a_insert_end i A)) = insert i (set (fst A))"
    using u by (auto simp: a_insert_def a_insert_end_def split: option.split dest: set_takeWhileD set_dropWhileD)
  show "fst (snd (a_next A)) = fst A" by (simp add: a_next_def Let_def)
  show "set (fst (a_remove i A)) \<subseteq> set (fst A)" by (simp add: a_remove_def set_remove1_subset)
qed

lemma apart_lists_sub:
  assumes "apart_lists L A" and "set (fst B) \<subseteq> set (fst (A l))" and "l \<in> set L"
  shows "apart_lists L (A(l := B))"
  unfolding apart_lists_def
proof (intro ballI impI)
  fix j k assume jk: "j \<in> set L" "k \<in> set L" "j \<noteq> k"
  then have d: "set (fst (A j)) \<inter> set (fst (A k)) = {}" using assms(1) by (simp add: apart_lists_def)
  show "set (fst ((A(l := B)) j)) \<inter> set (fst ((A(l := B)) k)) = {}"
    using d jk(3) assms(2) by (cases "j = l"; cases "k = l") auto
qed

locale kernel_lists =
  fixes ins :: "nat \<Rightarrow> nat \<Rightarrow> 's \<Rightarrow> 's option"
    and ins_end :: "nat \<Rightarrow> nat \<Rightarrow> 's \<Rightarrow> 's"
    and rem :: "nat \<Rightarrow> 's \<Rightarrow> (u32 \<times> 's) option"
    and nxt :: "nat \<Rightarrow> 's \<Rightarrow> node \<times> 's"
    and holds :: "'s \<Rightarrow> nat \<Rightarrow> nat alist \<Rightarrow> bool"
    and val :: "'s \<Rightarrow> nat \<Rightarrow> u32"
  assumes ins_is: "holds s l A \<Longrightarrow> i \<notin> set (fst A) \<Longrightarrow> \<exists>s'. ins l i s = Some s' \<and> holds s' l (a_insert (val s) i A) \<and> val s' = val s
      \<and> (\<forall>l' B. l' \<noteq> l \<longrightarrow> holds s l' B \<longrightarrow> set (fst B) \<inter> set (i # fst A) = {} \<longrightarrow> holds s' l' B)"
    and ins_end_is: "holds s l A \<Longrightarrow> i \<notin> set (fst A) \<Longrightarrow> holds (ins_end l i s) l (a_insert_end i A) \<and> val (ins_end l i s) = val s
      \<and> (\<forall>l' B. l' \<noteq> l \<longrightarrow> holds s l' B \<longrightarrow> set (fst B) \<inter> set (i # fst A) = {} \<longrightarrow> holds (ins_end l i s) l' B)"
    and rem_is: "holds s l A \<Longrightarrow> i \<in> set (fst A) \<Longrightarrow> \<exists>n s'. rem i s = Some (n, s') \<and> holds s' l (a_remove i A) \<and> val s' = val s
      \<and> (\<forall>l' B. l' \<noteq> l \<longrightarrow> holds s l' B \<longrightarrow> set (fst B) \<inter> set (fst A) = {} \<longrightarrow> holds s' l' B)"
    and nxt_is: "holds s l A \<Longrightarrow> fst A \<noteq> [] \<Longrightarrow> \<exists>s'. nxt l s = (Item (fst (a_next A)), s') \<and> holds s' l (snd (a_next A)) \<and> val s' = val s
      \<and> (\<forall>l' B. l' \<noteq> l \<longrightarrow> holds s l' B \<longrightarrow> holds s' l' B)"
begin

lemma step_simulates:
  assumes "\<forall>l\<in>set L. holds s l (A l)" and "apart_lists L A" and "abs_op (val s) L x A = Some A'"
  shows "\<exists>s'. con_op ins ins_end rem nxt x s = Some s' \<and> (\<forall>l\<in>set L. holds s' l (A' l)) \<and> apart_lists L A' \<and> val s' = val s"
proof (cases x)
  case (Insert l i)
  then have o: "l \<in> set L" "in_no_list L A i" "A' = A(l := a_insert (val s) i (A l))" using assms(3) by (auto split: if_splits)
  then have "holds s l (A l)" "i \<notin> set (fst (A l))" using assms(1) by (auto simp: in_no_list_def)
  from ins_is [OF this] obtain s' where s': "ins l i s = Some s'" "holds s' l (a_insert (val s) i (A l))" "val s' = val s"
    "\<And>l' B. l' \<noteq> l \<Longrightarrow> holds s l' B \<Longrightarrow> set (fst B) \<inter> set (i # fst (A l)) = {} \<Longrightarrow> holds s' l' B" by blast
  have "holds s' k (A' k)" if "k \<in> set L" for k
    using s'(2) s'(4) [of k "A k"] that o assms(1,2) by (auto simp: apart_lists_def in_no_list_def)
  moreover have "apart_lists L A'" using assms(2) o by (auto simp: apart_lists_def in_no_list_def a_ops_items)
  ultimately show ?thesis using s' Insert by auto
next
  case (Insert_end l i)
  then have o: "l \<in> set L" "in_no_list L A i" "A' = A(l := a_insert_end i (A l))" using assms(3) by (auto split: if_splits)
  then have "holds s l (A l)" "i \<notin> set (fst (A l))" using assms(1) by (auto simp: in_no_list_def)
  note s0 = ins_end_is [OF this]
  then have s': "holds (ins_end l i s) l (a_insert_end i (A l))" "val (ins_end l i s) = val s"
    "\<And>l' B. l' \<noteq> l \<Longrightarrow> holds s l' B \<Longrightarrow> set (fst B) \<inter> set (i # fst (A l)) = {} \<Longrightarrow> holds (ins_end l i s) l' B" by blast+
  have "holds (ins_end l i s) k (A' k)" if "k \<in> set L" for k
    using s'(1) s'(3) [of k "A k"] that o assms(1,2) by (auto simp: apart_lists_def in_no_list_def)
  moreover have "apart_lists L A'" using assms(2) o by (auto simp: apart_lists_def in_no_list_def a_ops_items)
  ultimately show ?thesis using s' Insert_end by auto
next
  case (Remove l i)
  then have o: "l \<in> set L" "i \<in> set (fst (A l))" "A' = A(l := a_remove i (A l))" using assms(3) by (auto split: if_splits)
  then have "holds s l (A l)" using assms(1) by auto
  from rem_is [OF this o(2)] obtain n s' where s': "rem i s = Some (n, s')" "holds s' l (a_remove i (A l))" "val s' = val s"
    "\<And>l' B. l' \<noteq> l \<Longrightarrow> holds s l' B \<Longrightarrow> set (fst B) \<inter> set (fst (A l)) = {} \<Longrightarrow> holds s' l' B" by blast
  have "holds s' k (A' k)" if "k \<in> set L" for k
    using s'(2) s'(4) [of k "A k"] that o assms(1,2) by (auto simp: apart_lists_def)
  moreover have "apart_lists L A'" unfolding o(3) by (rule apart_lists_sub [OF assms(2) a_ops_items(4) o(1)])
  ultimately show ?thesis using s' Remove by auto
next
  case (Next l)
  then have o: "l \<in> set L" "fst (A l) \<noteq> []" "A' = A(l := snd (a_next (A l)))" using assms(3) by (auto split: if_splits)
  then have "holds s l (A l)" using assms(1) by auto
  from nxt_is [OF this o(2)] obtain s' where s': "nxt l s = (Item (fst (a_next (A l))), s')" "holds s' l (snd (a_next (A l)))" "val s' = val s"
    "\<And>l' B. l' \<noteq> l \<Longrightarrow> holds s l' B \<Longrightarrow> holds s' l' B" by blast
  have "holds s' k (A' k)" if "k \<in> set L" for k using s' that o assms(1) by auto
  moreover have "apart_lists L A'" using assms(2) o by (auto simp: apart_lists_def a_ops_items)
  ultimately show ?thesis using s' Next by auto
qed

lemma run_simulates:
  assumes "\<forall>l\<in>set L. holds s l (A l)" and "apart_lists L A" and "run_ops (abs_op (val s) L) xs A = Some A'"
  shows "\<exists>s'. run_ops (con_op ins ins_end rem nxt) xs s = Some s' \<and> (\<forall>l\<in>set L. holds s' l (A' l))"
  using assms
proof (induction xs arbitrary: s A)
  case (Cons x xs)
  obtain A1 where A1: "abs_op (val s) L x A = Some A1" "run_ops (abs_op (val s) L) xs A1 = Some A'"
    using Cons.prems(3) by (auto simp: bind_eq_Some_conv')
  obtain s1 where s1: "con_op ins ins_end rem nxt x s = Some s1" "\<forall>l\<in>set L. holds s1 l (A1 l)" "apart_lists L A1" "val s1 = val s"
    using step_simulates [OF Cons.prems(1,2) A1(1)] by blast
  with Cons.IH [of s1 A1] A1(2) show ?case by auto
qed simp

end

interpretation kl: kernel_lists vListInsert vListInsertEnd uxListRemove listGET_OWNER_OF_NEXT_ENTRY rep "\<lambda>s i. xItemValue s (Item i)"
proof (unfold_locales, goal_cases)
  case (1 s l A i)
  from vListInsert_refines [OF this] show ?case by (elim exE conjE, intro exI conjI) (assumption | simp)+
next
  case (2 s l A i)
  from vListInsertEnd_refines [OF this] show ?case by simp
next
  case (3 s l A i)
  from uxListRemove_refines [OF this] show ?case by (elim exE conjE, intro exI conjI) (assumption | simp)+
next
  case (4 s l A)
  from next_entry_refines [OF this] obtain s' where s': "listGET_OWNER_OF_NEXT_ENTRY l s = (Item (fst (a_next A)), s')"
    "rep s' l (snd (a_next A))" "s' = s\<lparr>pxIndex := (pxIndex s)(l := Item (fst (a_next A)))\<rparr>" by blast
  have "rep s' l' B" if "l' \<noteq> l" "rep s l' B" for l' B
    using that ring_frame [of s l' "fst B" s'] s'(3) by (auto simp: rep_def)
  then show ?case using s' by auto
qed

section \<open>Properties\<close>

lemma init_rep: "rep (vListInitialise l s) l ([], None)"
  by (simp add: rep_def ring_def vListInitialise_def adj_def idx_node_def)

lemma init_frame: "l' \<noteq> l \<Longrightarrow> rep s l' A \<Longrightarrow> rep (vListInitialise l s) l' A"
proof -
  assume l': "l' \<noteq> l" "rep s l' A"
  have "ring (vListInitialise l s) l' (fst A)"
    by (rule ring_frame [of s]) (use l' in \<open>auto simp: rep_def vListInitialise_def\<close>)
  then show ?thesis using l' by (simp add: rep_def vListInitialise_def)
qed

lemma init_value: "xItemValue (vListInitialise l s) (Item i) = xItemValue s (Item i)"
  by (simp add: vListInitialise_def)

lemma init_all:
  "(\<forall>l\<in>set L. rep (fold vListInitialise L s) l ([], None)) \<and> (\<lambda>i. xItemValue (fold vListInitialise L s) (Item i)) = (\<lambda>i. xItemValue s (Item i))"
proof (induction L rule: rev_induct)
  case (snoc l L)
  then show ?case by (auto simp: init_rep init_value) (metis init_frame init_rep)
qed simp

lemma insert_sorted:
  assumes "sorted (map key xs)"
  shows "sorted (map key (takeWhile (\<lambda>y. key y \<le> key x) xs @ x # dropWhile (\<lambda>y. key y \<le> (key x :: u32)) xs))"
    and "\<forall>y\<in>set (dropWhile (\<lambda>y. key y \<le> key x) xs). key x < key y"
proof -
  have "key x < key y" if "y \<in> set (dropWhile (\<lambda>y. key y \<le> key x) xs)" for y
    using assms that
  proof (induction xs)
    case (Cons z zs)
    then show ?case by (auto split: if_splits)
  qed simp
  then show d: "\<forall>y\<in>set (dropWhile (\<lambda>y. key y \<le> key x) xs). key x < key y" by blast
  obtain pre post where pp: "pre = takeWhile (\<lambda>y. key y \<le> key x) xs" "post = dropWhile (\<lambda>y. key y \<le> key x) xs" by blast
  have "xs = pre @ post" by (simp add: pp)
  then have "sorted (map key pre)" "sorted (map key post)" using assms by (simp_all add: sorted_append)
  moreover have "\<forall>y\<in>set pre. key y \<le> key x" unfolding pp by (auto dest: set_takeWhileD)
  moreover have "\<forall>y\<in>set post. key x < key y" using d pp by simp
  ultimately have "sorted (map key (pre @ x # post))" by (simp add: sorted_append less_imp_le) (meson less_imp_le order_trans)
  then show "sorted (map key (takeWhile (\<lambda>y. key y \<le> key x) xs @ x # dropWhile (\<lambda>y. key y \<le> key x) xs))" by (simp add: pp)
qed

text \<open>
  C36. The linked lists implement sequences: from freshly initialised lists, every sequence of
  insertions in order, insertions at the walking index, removals and index advances that is
  allowed (no item inserted while it is in a list, removals of members only, advances of
  non-empty lists only) runs to its end on the pointer structure, and the structure then
  represents in every list exactly the sequence and the index the abstract operations give.
\<close>

theorem kernel_lists_refine:
  assumes "run_ops (abs_op (\<lambda>i. xItemValue s (Item i)) L) ops (\<lambda>_. ([], None)) = Some A"
  shows "\<exists>s'. run_ops (con_op vListInsert vListInsertEnd uxListRemove listGET_OWNER_OF_NEXT_ENTRY) ops (fold vListInitialise L s) = Some s'
     \<and> (\<forall>l\<in>set L. rep s' l (A l))"
proof -
  have "apart_lists L (\<lambda>_. ([], None))" by (simp add: apart_lists_def)
  then show ?thesis using kl.run_simulates [of L "fold vListInitialise L s" "\<lambda>_. ([], None)" ops A] init_all [of L s] assms by simp
qed

definition blank_store :: list_store where
  "blank_store = \<lparr>pxNext = (\<lambda>n. n), pxPrevious = (\<lambda>n. n), xItemValue = (\<lambda>n. case n of Item i \<Rightarrow> of_nat i | End _ \<Rightarrow> 0),
     pxContainer = (\<lambda>_. None), pxIndex = End, uxNumberOfItems = (\<lambda>_. 0)\<rparr>"

theorem kernel_lists_refine_witness:
  "\<exists>s'. run_ops (con_op vListInsert vListInsertEnd uxListRemove listGET_OWNER_OF_NEXT_ENTRY)
      [Insert 0 7, Insert 0 3, Insert 0 5, Insert_end 1 4, Next 1, Remove 0 7] (fold vListInitialise [0, 1] blank_store) = Some s'
     \<and> rep s' 0 ([3, 5], None) \<and> rep s' 1 ([4], Some 4)"
proof -
  have "run_ops (abs_op (\<lambda>i. xItemValue blank_store (Item i)) [0, 1]) [Insert 0 7, Insert 0 3, Insert 0 5, Insert_end 1 4, Next 1, Remove 0 7] (\<lambda>_. ([], None))
      = Some ((\<lambda>_. ([], None))(0 := ([3, 5], None), 1 := ([4], Some 4)))"
    by (simp add: blank_store_def in_no_list_def a_insert_def a_insert_end_def a_next_def a_remove_def Let_def fun_upd_twist)
  from kernel_lists_refine [OF this] show ?thesis by simp
qed

text \<open>
  Ordered insertion: inserting an item into a list whose item values ascend ends, keeps
  them ascending, and puts the item behind all items of the same or a smaller value and before
  all others, also for the value \<open>portMAX_DELAY\<close> of the end marker.
\<close>

theorem vListInsert_sorted:
  assumes "rep s l (xs, idx)" and "i \<notin> set xs" and "sorted (map (\<lambda>y. xItemValue s (Item y)) xs)"
  shows "\<exists>s' pre post. vListInsert l i s = Some s' \<and> rep s' l (pre @ i # post, idx) \<and> xs = pre @ post
     \<and> sorted (map (\<lambda>y. xItemValue s' (Item y)) (pre @ i # post))
     \<and> (\<forall>y\<in>set pre. xItemValue s (Item y) \<le> xItemValue s (Item i)) \<and> (\<forall>y\<in>set post. xItemValue s (Item i) < xItemValue s (Item y))"
proof -
  obtain s' where s': "vListInsert l i s = Some s'" "rep s' l (a_insert (\<lambda>y. xItemValue s (Item y)) i (xs, idx))" "xItemValue s' = xItemValue s"
    using vListInsert_refines [OF assms(1), of i] assms(2) by auto
  note so = insert_sorted [OF assms(3), where x = i]
  show ?thesis
    by (intro exI [of _ s'] exI [of _ "takeWhile (\<lambda>y. xItemValue s (Item y) \<le> xItemValue s (Item i)) xs"]
        exI [of _ "dropWhile (\<lambda>y. xItemValue s (Item y) \<le> xItemValue s (Item i)) xs"] conjI)
      (use s' so in \<open>auto simp: a_insert_def dest: set_takeWhileD\<close>)
qed

theorem vListInsert_sorted_witness:
  "\<exists>s'. vListInsert 0 4 (vListInitialise 0 blank_store) = Some s' \<and> rep s' 0 ([4], None)"
  using vListInsert_sorted [OF init_rep, of 4 0 blank_store] by auto

end
