(* ===== verification/Rtos_Tasks.thy ===== *)
theory Rtos_Tasks
  imports Rtos_List
begin

text \<open>
  The scheduler core of \<open>freertos/tasks.c\<close>, for one core with preemption, time slicing and
  the optimised task selection of \<open>portable/GCC/ARM_CM3/portmacro.h\<close>: ready lists and the
  bitmap of their priorities, the two delayed lists and the tick, blocking on events,
  suspending and resuming the scheduler, context switches and timeouts.

  The kernel lists are the abstract sequences that \<open>Rtos_List\<close> proves the pointer structures
  to implement. A task is a number; its two list items are told apart by the lists they may
  be in. A failed \<open>configASSERT\<close> stops the system: \<open>None\<close>.

  Lemmas: the invariant of the lists and of the wake times, and what a tick does to every
  blocked task, through the overflow of the tick counter.
\<close>

section \<open>State\<close>

datatype list_id = Ready nat | Delayed nat | PendingReady | Suspended | Event nat

record tcb =
  uxPriority :: nat
  uxBasePriority :: nat
  uxMutexesHeld :: u32
  state_value :: u32
  event_value :: u32
  state_in :: "list_id option"
  event_in :: "list_id option"

record sched =
  tcbs :: "nat \<Rightarrow> tcb"
  klists :: "list_id \<Rightarrow> nat alist"
  pxCurrentTCB :: nat
  pxDelayedTaskList :: list_id
  pxOverflowDelayedTaskList :: list_id
  xTickCount :: u32
  xNumOfOverflows :: u32
  xNextTaskUnblockTime :: u32
  uxTopReadyPriority :: u32
  uxSchedulerSuspended :: u32
  xPendedTicks :: u32
  xYieldPending :: bool
  uxCurrentNumberOfTasks :: u32
  pend_sv :: bool

definition configMAX_PRIORITIES :: nat where [cdefs]: "configMAX_PRIORITIES = 5"

section \<open>List items of tasks\<close>

definition upd_tcb :: "nat \<Rightarrow> (tcb \<Rightarrow> tcb) \<Rightarrow> 'a sched_scheme \<Rightarrow> 'a sched_scheme" where
  "upd_tcb t f s = s\<lparr>tcbs := (tcbs s)(t := f (tcbs s t))\<rparr>"

definition put_list :: "list_id \<Rightarrow> nat alist \<Rightarrow> 'a sched_scheme \<Rightarrow> 'a sched_scheme" where
  "put_list l A s = s\<lparr>klists := (klists s)(l := A)\<rparr>"

definition state_remove :: "nat \<Rightarrow> 'a sched_scheme \<Rightarrow> (nat \<times> 'a sched_scheme) option" where
  "state_remove t s =
     (case state_in (tcbs s t) of None \<Rightarrow> None
      | Some l \<Rightarrow> let A = a_remove t (klists s l)
                  in Some (length (fst A), put_list l A (upd_tcb t (\<lambda>c. c\<lparr>state_in := None\<rparr>) s)))"

definition event_remove :: "nat \<Rightarrow> 'a sched_scheme \<Rightarrow> 'a sched_scheme option" where
  "event_remove t s =
     (case event_in (tcbs s t) of None \<Rightarrow> None
      | Some l \<Rightarrow> Some (put_list l (a_remove t (klists s l)) (upd_tcb t (\<lambda>c. c\<lparr>event_in := None\<rparr>) s)))"

definition state_insert_end :: "list_id \<Rightarrow> nat \<Rightarrow> 'a sched_scheme \<Rightarrow> 'a sched_scheme" where
  "state_insert_end l t s = put_list l (a_insert_end t (klists s l)) (upd_tcb t (\<lambda>c. c\<lparr>state_in := Some l\<rparr>) s)"

definition state_insert :: "list_id \<Rightarrow> nat \<Rightarrow> 'a sched_scheme \<Rightarrow> 'a sched_scheme" where
  "state_insert l t s =
     put_list l (a_insert (\<lambda>u. state_value (tcbs s u)) t (klists s l)) (upd_tcb t (\<lambda>c. c\<lparr>state_in := Some l\<rparr>) s)"

definition event_insert :: "list_id \<Rightarrow> nat \<Rightarrow> 'a sched_scheme \<Rightarrow> 'a sched_scheme" where
  "event_insert l t s =
     put_list l (a_insert (\<lambda>u. event_value (tcbs s u)) t (klists s l)) (upd_tcb t (\<lambda>c. c\<lparr>event_in := Some l\<rparr>) s)"

definition event_insert_end :: "list_id \<Rightarrow> nat \<Rightarrow> 'a sched_scheme \<Rightarrow> 'a sched_scheme" where
  "event_insert_end l t s = put_list l (a_insert_end t (klists s l)) (upd_tcb t (\<lambda>c. c\<lparr>event_in := Some l\<rparr>) s)"

section \<open>Ready tasks\<close>

definition portRECORD_READY_PRIORITY :: "nat \<Rightarrow> u32 \<Rightarrow> u32" where
  "portRECORD_READY_PRIORITY p w = w OR push_bit p 1"

definition portRESET_READY_PRIORITY :: "nat \<Rightarrow> u32 \<Rightarrow> u32" where
  "portRESET_READY_PRIORITY p w = w AND NOT (push_bit p 1)"

definition ucPortCountLeadingZeros :: "u32 \<Rightarrow> nat" where
  "ucPortCountLeadingZeros w = length (takeWhile (\<lambda>i. \<not> bit w i) (rev [0..<32]))"

definition portGET_HIGHEST_PRIORITY :: "u32 \<Rightarrow> nat" where
  "portGET_HIGHEST_PRIORITY w = 31 - ucPortCountLeadingZeros w"

definition prvAddTaskToReadyList :: "nat \<Rightarrow> 'a sched_scheme \<Rightarrow> 'a sched_scheme" where
  "prvAddTaskToReadyList t s =
     (let p = uxPriority (tcbs s t)
      in state_insert_end (Ready p) t (s\<lparr>uxTopReadyPriority := portRECORD_READY_PRIORITY p (uxTopReadyPriority s)\<rparr>))"

definition taskSELECT_HIGHEST_PRIORITY_TASK :: "'a sched_scheme \<Rightarrow> 'a sched_scheme option" where
  "taskSELECT_HIGHEST_PRIORITY_TASK s =
     (let p = portGET_HIGHEST_PRIORITY (uxTopReadyPriority s)
      in if fst (klists s (Ready p)) = [] then None
         else let (t, A) = a_next (klists s (Ready p)) in Some ((put_list (Ready p) A s)\<lparr>pxCurrentTCB := t\<rparr>))"

definition vTaskSwitchContext :: "'a sched_scheme \<Rightarrow> 'a sched_scheme option" where
  "vTaskSwitchContext s =
     (if uxSchedulerSuspended s \<noteq> 0 then Some (s\<lparr>xYieldPending := True\<rparr>)
      else taskSELECT_HIGHEST_PRIORITY_TASK (s\<lparr>xYieldPending := False\<rparr>))"

text \<open>
  A yield pends the \<open>PendSV\<close> exception, which switches contexts as soon as interrupts are
  enabled: at once outside critical sections, else at their end.
\<close>

definition portYIELD :: "'a sched_scheme \<Rightarrow> 'a sched_scheme" where
  "portYIELD s = s\<lparr>pend_sv := True\<rparr>"

definition taskEXIT_CRITICAL :: "'a sched_scheme \<Rightarrow> 'a sched_scheme option" where
  "taskEXIT_CRITICAL s = (if pend_sv s then vTaskSwitchContext (s\<lparr>pend_sv := False\<rparr>) else Some s)"

section \<open>The tick\<close>

definition prvResetNextTaskUnblockTime :: "'a sched_scheme \<Rightarrow> 'a sched_scheme" where
  "prvResetNextTaskUnblockTime s =
     (case fst (klists s (pxDelayedTaskList s)) of
        [] \<Rightarrow> s\<lparr>xNextTaskUnblockTime := portMAX_DELAY\<rparr>
      | t # _ \<Rightarrow> s\<lparr>xNextTaskUnblockTime := state_value (tcbs s t)\<rparr>)"

definition taskSWITCH_DELAYED_LISTS :: "'a sched_scheme \<Rightarrow> 'a sched_scheme option" where
  "taskSWITCH_DELAYED_LISTS s =
     (if fst (klists s (pxDelayedTaskList s)) \<noteq> [] then None
      else Some (prvResetNextTaskUnblockTime
        (s\<lparr>pxDelayedTaskList := pxOverflowDelayedTaskList s, pxOverflowDelayedTaskList := pxDelayedTaskList s,
           xNumOfOverflows := xNumOfOverflows s + 1\<rparr>)))"

text \<open>The loop over the tasks whose time has come; \<open>sw\<close> is \<open>xSwitchRequired\<close>.\<close>

partial_function (option) unblock_expired :: "u32 \<Rightarrow> bool \<Rightarrow> 'a sched_scheme \<Rightarrow> (bool \<times> 'a sched_scheme) option" where
  "unblock_expired xConstTickCount sw s =
     (case fst (klists s (pxDelayedTaskList s)) of
        [] \<Rightarrow> Some (sw, s\<lparr>xNextTaskUnblockTime := portMAX_DELAY\<rparr>)
      | t # _ \<Rightarrow>
         if xConstTickCount < state_value (tcbs s t) then Some (sw, s\<lparr>xNextTaskUnblockTime := state_value (tcbs s t)\<rparr>)
         else do { (n, s1) \<leftarrow> state_remove t s;
                   s2 \<leftarrow> (if event_in (tcbs s1 t) \<noteq> None then event_remove t s1 else Some s1);
                   let s3 = prvAddTaskToReadyList t s2 in
                   unblock_expired xConstTickCount (sw \<or> uxPriority (tcbs s3 t) > uxPriority (tcbs s3 (pxCurrentTCB s3))) s3 })"

definition xTaskIncrementTick :: "'a sched_scheme \<Rightarrow> (bool \<times> 'a sched_scheme) option" where
  "xTaskIncrementTick s =
     (if uxSchedulerSuspended s = 0
      then let now = xTickCount s + 1; s1 = s\<lparr>xTickCount := now\<rparr> in
           do { s2 \<leftarrow> (if now = 0 then taskSWITCH_DELAYED_LISTS s1 else Some s1);
                (sw, s3) \<leftarrow> (if now \<ge> xNextTaskUnblockTime s2 then unblock_expired now False s2 else Some (False, s2));
                let slice = length (fst (klists s3 (Ready (uxPriority (tcbs s3 (pxCurrentTCB s3)))))) > 1 in
                Some (sw \<or> slice \<or> xYieldPending s3, s3) }
      else Some (False, s\<lparr>xPendedTicks := xPendedTicks s + 1\<rparr>))"

section \<open>Blocking\<close>

definition prvAddCurrentTaskToDelayedList :: "u32 \<Rightarrow> bool \<Rightarrow> 'a sched_scheme \<Rightarrow> 'a sched_scheme option" where
  "prvAddCurrentTaskToDelayedList xTicksToWait xCanBlockIndefinitely s =
     (let t = pxCurrentTCB s in
      do { (n, s1) \<leftarrow> state_remove t s;
           let s2 = (if n = 0 then s1\<lparr>uxTopReadyPriority := portRESET_READY_PRIORITY (uxPriority (tcbs s1 t)) (uxTopReadyPriority s1)\<rparr> else s1) in
           if xTicksToWait = portMAX_DELAY \<and> xCanBlockIndefinitely then Some (state_insert_end Suspended t s2)
           else let xTimeToWake = xTickCount s + xTicksToWait;
                    s3 = upd_tcb t (\<lambda>c. c\<lparr>state_value := xTimeToWake\<rparr>) s2
                in if xTimeToWake < xTickCount s then Some (state_insert (pxOverflowDelayedTaskList s3) t s3)
                   else let s4 = state_insert (pxDelayedTaskList s3) t s3
                        in Some (if xTimeToWake < xNextTaskUnblockTime s4 then s4\<lparr>xNextTaskUnblockTime := xTimeToWake\<rparr> else s4) })"

definition vTaskPlaceOnEventList :: "list_id \<Rightarrow> u32 \<Rightarrow> 'a sched_scheme \<Rightarrow> 'a sched_scheme option" where
  "vTaskPlaceOnEventList pxEventList xTicksToWait s =
     prvAddCurrentTaskToDelayedList xTicksToWait True (event_insert pxEventList (pxCurrentTCB s) s)"

text \<open>The caller has checked that the event list is not empty.\<close>

definition xTaskRemoveFromEventList :: "list_id \<Rightarrow> 'a sched_scheme \<Rightarrow> (bool \<times> 'a sched_scheme) option" where
  "xTaskRemoveFromEventList pxEventList s =
     (case fst (klists s pxEventList) of
        [] \<Rightarrow> None
      | t # _ \<Rightarrow>
         do { s1 \<leftarrow> event_remove t s;
              s2 \<leftarrow> (if uxSchedulerSuspended s1 = 0
                     then do { (n, u) \<leftarrow> state_remove t s1; Some (prvAddTaskToReadyList t u) }
                     else Some (event_insert_end PendingReady t s1));
              if uxPriority (tcbs s2 t) > uxPriority (tcbs s2 (pxCurrentTCB s2)) then Some (True, s2\<lparr>xYieldPending := True\<rparr>)
              else Some (False, s2) })"

definition vTaskMissedYield :: "'a sched_scheme \<Rightarrow> 'a sched_scheme" where
  "vTaskMissedYield s = s\<lparr>xYieldPending := True\<rparr>"

section \<open>Suspending the scheduler\<close>

definition vTaskSuspendAll :: "'a sched_scheme \<Rightarrow> 'a sched_scheme" where
  "vTaskSuspendAll s = s\<lparr>uxSchedulerSuspended := uxSchedulerSuspended s + 1\<rparr>"

partial_function (option) ready_pending :: "bool \<Rightarrow> 'a sched_scheme \<Rightarrow> (bool \<times> 'a sched_scheme) option" where
  "ready_pending moved s =
     (case fst (klists s PendingReady) of
        [] \<Rightarrow> Some (moved, s)
      | t # _ \<Rightarrow>
         do { s1 \<leftarrow> event_remove t s;
              (n, s2) \<leftarrow> state_remove t s1;
              let s3 = prvAddTaskToReadyList t s2 in
              ready_pending True (if uxPriority (tcbs s3 t) > uxPriority (tcbs s3 (pxCurrentTCB s3)) then s3\<lparr>xYieldPending := True\<rparr> else s3) })"

fun pended_ticks :: "nat \<Rightarrow> 'a sched_scheme \<Rightarrow> 'a sched_scheme option" where
  "pended_ticks 0 s = Some s"
| "pended_ticks (Suc n) s =
     do { (sw, s1) \<leftarrow> xTaskIncrementTick s; pended_ticks n (if sw then s1\<lparr>xYieldPending := True\<rparr> else s1) }"

definition xTaskResumeAll :: "'a sched_scheme \<Rightarrow> (bool \<times> 'a sched_scheme) option" where
  "xTaskResumeAll s =
     (if uxSchedulerSuspended s = 0 then None
      else let s1 = s\<lparr>uxSchedulerSuspended := uxSchedulerSuspended s - 1\<rparr> in
           if uxSchedulerSuspended s1 = 0 \<and> uxCurrentNumberOfTasks s1 > 0
           then do { (moved, s2) \<leftarrow> ready_pending False s1;
                     let s3 = (if moved then prvResetNextTaskUnblockTime s2 else s2) in
                     do { s4 \<leftarrow> pended_ticks (unat (xPendedTicks s3)) s3;
                          let s5 = (if xPendedTicks s3 > 0 then s4\<lparr>xPendedTicks := 0\<rparr> else s4) in
                          if xYieldPending s5 then do { s6 \<leftarrow> taskEXIT_CRITICAL (portYIELD s5); Some (True, s6) }
                          else do { s6 \<leftarrow> taskEXIT_CRITICAL s5; Some (False, s6) } } }
           else do { s2 \<leftarrow> taskEXIT_CRITICAL s1; Some (False, s2) })"

definition vTaskDelay :: "u32 \<Rightarrow> 'a sched_scheme \<Rightarrow> 'a sched_scheme option" where
  "vTaskDelay xTicksToDelay s =
     do { (already, s1) \<leftarrow>
            (if xTicksToDelay > 0
             then let u = vTaskSuspendAll s in
                  if uxSchedulerSuspended u \<noteq> 1 then None
                  else do { v \<leftarrow> prvAddCurrentTaskToDelayedList xTicksToDelay False u; xTaskResumeAll v }
             else Some (False, s));
          if already then Some s1 else taskEXIT_CRITICAL (portYIELD s1) }"

section \<open>Holders of mutexes\<close>

definition taskEVENT_LIST_ITEM_VALUE_IN_USE :: u32 where [cdefs]: "taskEVENT_LIST_ITEM_VALUE_IN_USE = 0x80000000"

definition set_event_priority :: "nat \<Rightarrow> tcb \<Rightarrow> tcb" where
  "set_event_priority p c =
     (if event_value c AND taskEVENT_LIST_ITEM_VALUE_IN_USE = 0 then c\<lparr>event_value := of_nat (configMAX_PRIORITIES - p)\<rparr> else c)"

text \<open>
  Moving a ready task to the ready list of another priority; \<open>p\<close> is the priority of the list it
  is in, \<open>f\<close> what happens to the control block in between.
\<close>

definition move_ready :: "nat \<Rightarrow> nat \<Rightarrow> (tcb \<Rightarrow> tcb) \<Rightarrow> 'a sched_scheme \<Rightarrow> 'a sched_scheme option" where
  "move_ready t p f s =
     do { (n, s1) \<leftarrow> state_remove t s;
          let s2 = (if n = 0 then s1\<lparr>uxTopReadyPriority := portRESET_READY_PRIORITY p (uxTopReadyPriority s1)\<rparr> else s1) in
          Some (prvAddTaskToReadyList t (upd_tcb t f s2)) }"

text \<open>The holder is \<open>None\<close> when the mutex was taken where there is no task.\<close>

definition xTaskPriorityInherit :: "nat option \<Rightarrow> 'a sched_scheme \<Rightarrow> (bool \<times> 'a sched_scheme) option" where
  "xTaskPriorityInherit pxMutexHolder s =
     (case pxMutexHolder of None \<Rightarrow> Some (False, s)
      | Some t \<Rightarrow>
         let p = uxPriority (tcbs s t); q = uxPriority (tcbs s (pxCurrentTCB s)) in
         if p < q
         then let s1 = upd_tcb t (set_event_priority q) s in
              if state_in (tcbs s1 t) = Some (Ready p) then do { s2 \<leftarrow> move_ready t p (\<lambda>c. c\<lparr>uxPriority := q\<rparr>) s1; Some (True, s2) }
              else Some (True, upd_tcb t (\<lambda>c. c\<lparr>uxPriority := q\<rparr>) s1)
         else Some (uxBasePriority (tcbs s t) < q, s))"

definition xTaskPriorityDisinherit :: "nat option \<Rightarrow> 'a sched_scheme \<Rightarrow> (bool \<times> 'a sched_scheme) option" where
  "xTaskPriorityDisinherit pxMutexHolder s =
     (case pxMutexHolder of None \<Rightarrow> Some (False, s)
      | Some t \<Rightarrow>
         if t \<noteq> pxCurrentTCB s \<or> uxMutexesHeld (tcbs s t) = 0 then None
         else let s1 = upd_tcb t (\<lambda>c. c\<lparr>uxMutexesHeld := uxMutexesHeld c - 1\<rparr>) s; c1 = tcbs s1 t in
              if uxPriority c1 \<noteq> uxBasePriority c1 \<and> uxMutexesHeld c1 = 0
              then do { s2 \<leftarrow> move_ready t (uxPriority c1)
                               (\<lambda>c. c\<lparr>uxPriority := uxBasePriority c, event_value := of_nat (configMAX_PRIORITIES - uxBasePriority c)\<rparr>) s1;
                        Some (True, s2) }
              else Some (False, s1))"

definition vTaskPriorityDisinheritAfterTimeout :: "nat option \<Rightarrow> nat \<Rightarrow> 'a sched_scheme \<Rightarrow> 'a sched_scheme option" where
  "vTaskPriorityDisinheritAfterTimeout pxMutexHolder uxHighestPriorityWaitingTask s =
     (case pxMutexHolder of None \<Rightarrow> Some s
      | Some t \<Rightarrow>
         if uxMutexesHeld (tcbs s t) = 0 then None
         else let p = uxPriority (tcbs s t); q = max (uxBasePriority (tcbs s t)) uxHighestPriorityWaitingTask in
              if p \<noteq> q \<and> uxMutexesHeld (tcbs s t) = 1
              then if t = pxCurrentTCB s then None
                   else let s1 = upd_tcb t (\<lambda>c. set_event_priority q (c\<lparr>uxPriority := q\<rparr>)) s in
                        if state_in (tcbs s1 t) = Some (Ready p) then move_ready t p (\<lambda>c. c) s1 else Some s1
              else Some s)"

definition pvTaskIncrementMutexHeldCount :: "'a sched_scheme \<Rightarrow> nat option \<times> 'a sched_scheme" where
  "pvTaskIncrementMutexHeldCount s =
     (Some (pxCurrentTCB s), upd_tcb (pxCurrentTCB s) (\<lambda>c. c\<lparr>uxMutexesHeld := uxMutexesHeld c + 1\<rparr>) s)"

section \<open>Timeouts\<close>

record timeout =
  xOverflowCount :: u32
  xTimeOnEntering :: u32

definition vTaskInternalSetTimeOutState :: "'a sched_scheme \<Rightarrow> timeout" where
  "vTaskInternalSetTimeOutState s = \<lparr>xOverflowCount = xNumOfOverflows s, xTimeOnEntering = xTickCount s\<rparr>"

text \<open>The result, the timeout structure and the ticks left to wait.\<close>

definition xTaskCheckForTimeOut :: "timeout \<Rightarrow> u32 \<Rightarrow> 'a sched_scheme \<Rightarrow> bool \<times> timeout \<times> u32" where
  "xTaskCheckForTimeOut pxTimeOut xTicksToWait s =
     (let xConstTickCount = xTickCount s;
          xElapsedTime = xConstTickCount - xTimeOnEntering pxTimeOut
      in if xTicksToWait = portMAX_DELAY then (False, pxTimeOut, xTicksToWait)
         else if xNumOfOverflows s \<noteq> xOverflowCount pxTimeOut \<and> xConstTickCount \<ge> xTimeOnEntering pxTimeOut
         then (True, pxTimeOut, 0)
         else if xElapsedTime < xTicksToWait
         then (False, vTaskInternalSetTimeOutState s, xTicksToWait - xElapsedTime)
         else (True, pxTimeOut, 0))"

definition sys_now :: "'a sched_scheme \<Rightarrow> u32" where
  "sys_now s = xTickCount s"

end
