(* ===== verification/Rtos_Heap.thy ===== *)
theory Rtos_Heap
  imports Clock_Prelude
begin

text \<open>
  The kernel heap, \<open>freertos/portable/MemMang/heap_4.c\<close>, in the configuration of
  \<open>FreeRTOSConfig.h\<close> (64 KiB, no heap protector, no clearing, no failure hook). The free
  list linked from \<open>xStart\<close> up to \<open>pxEnd\<close> is the list of the address and size of its
  blocks; an allocated block is an entry of \<open>allocated\<close> under the address of its header,
  with its size without the ownership bit. Addresses and block sizes are natural numbers:
  the heap lies below the end of the address space, so arithmetic inside it does not wrap.
  The arithmetic on the requested size, which can, is on 32-bit words. A failing
  \<open>configASSERT\<close> does not return (\<open>vAssertCalled\<close>): the value \<open>None\<close>. The address of
  the array \<open>ucHeap\<close> is a parameter.

  Lemmas: free and allocated blocks tile the heap with no two free neighbours; allocation
  returns aligned memory disjoint from everything allocated before and fails only when no
  free block is large enough; freeing undoes allocation exactly, whatever happened between.
\<close>

section \<open>State\<close>

type_synonym block = "nat \<times> nat"

record heap4 =
  free_list :: "block list"
  allocated :: "nat \<Rightarrow> nat option"
  pxEnd :: nat
  xFreeBytesRemaining :: nat
  xMinimumEverFreeBytesRemaining :: nat
  xNumberOfSuccessfulAllocations :: u32
  xNumberOfSuccessfulFrees :: u32

definition heap4_start :: heap4 where
  "heap4_start = \<lparr>free_list = [], allocated = (\<lambda>_. None), pxEnd = 0, xFreeBytesRemaining = 0,
     xMinimumEverFreeBytesRemaining = 0, xNumberOfSuccessfulAllocations = 0, xNumberOfSuccessfulFrees = 0\<rparr>"

definition configTOTAL_HEAP_SIZE :: nat where "configTOTAL_HEAP_SIZE = 65536"
definition portBYTE_ALIGNMENT_MASK :: u32 where [cdefs]: "portBYTE_ALIGNMENT_MASK = 7"
definition xHeapStructSize :: u32 where "xHeapStructSize = (8 + (8 - 1)) AND NOT portBYTE_ALIGNMENT_MASK"
definition heapMINIMUM_BLOCK_SIZE :: u32 where "heapMINIMUM_BLOCK_SIZE = push_bit 1 xHeapStructSize"

definition heapADD_WILL_OVERFLOW :: "u32 \<Rightarrow> u32 \<Rightarrow> bool" where
  "heapADD_WILL_OVERFLOW a b \<longleftrightarrow> a > NOT 0 - b"

definition heapMULTIPLY_WILL_OVERFLOW :: "u32 \<Rightarrow> u32 \<Rightarrow> bool" where
  "heapMULTIPLY_WILL_OVERFLOW a b \<longleftrightarrow> a > 0 \<and> b > NOT 0 div a"

definition heapBLOCK_SIZE_IS_VALID :: "u32 \<Rightarrow> bool" where
  "heapBLOCK_SIZE_IS_VALID x \<longleftrightarrow> x AND 0x80000000 = 0"

definition heapVALIDATE_BLOCK_POINTER :: "nat \<Rightarrow> nat \<Rightarrow> bool" where
  "heapVALIDATE_BLOCK_POINTER ucHeap p \<longleftrightarrow> ucHeap \<le> p \<and> p \<le> ucHeap + (configTOTAL_HEAP_SIZE - 1)"

section \<open>Initialisation\<close>

definition prvHeapInit :: "nat \<Rightarrow> heap4 \<Rightarrow> heap4" where
  "prvHeapInit ucHeap h =
     (let (start, xTotalHeapSize) =
            (if ucHeap mod 8 \<noteq> 0
             then let a = (ucHeap + 7) div 8 * 8 in (a, configTOTAL_HEAP_SIZE - (a - ucHeap))
             else (ucHeap, configTOTAL_HEAP_SIZE));
          end0 = start + xTotalHeapSize - unat xHeapStructSize;
          end1 = end0 div 8 * 8
      in h\<lparr>free_list := [(start, end1 - start)], pxEnd := end1,
           xMinimumEverFreeBytesRemaining := end1 - start, xFreeBytesRemaining := end1 - start\<rparr>)"

section \<open>Allocation\<close>

text \<open>The size of the block for a request; 0 when the arithmetic would overflow.\<close>

definition wanted_size :: "u32 \<Rightarrow> u32" where
  "wanted_size x =
     (if x > 0
      then if \<not> heapADD_WILL_OVERFLOW x xHeapStructSize
           then let w = x + xHeapStructSize in
                if w AND portBYTE_ALIGNMENT_MASK \<noteq> 0
                then let add = 8 - (w AND portBYTE_ALIGNMENT_MASK) in
                     if \<not> heapADD_WILL_OVERFLOW w add then w + add else 0
                else w
           else 0
      else x)"

text \<open>
  The walk from \<open>xStart\<close>: the blocks passed over and the list from the first block that
  is large enough, \<open>[]\<close> when \<open>pxEnd\<close> was reached. Every pointer followed is validated.
\<close>

fun find_fit :: "(nat \<Rightarrow> bool) \<Rightarrow> nat \<Rightarrow> nat \<Rightarrow> block list \<Rightarrow> (block list \<times> block list) option" where
  "find_fit valid e w [] = (if valid e then Some ([], []) else None)"
| "find_fit valid e w ((a, s) # bs) =
     (if \<not> valid a then None
      else if s < w then do { (pre, rest) \<leftarrow> find_fit valid e w bs; Some ((a, s) # pre, rest) }
      else Some ([], (a, s) # bs))"

text \<open>The result is the returned pointer, 0 for NULL, and the heap.\<close>

definition pvPortMalloc :: "nat \<Rightarrow> u32 \<Rightarrow> heap4 \<Rightarrow> (nat \<times> heap4) option" where
  "pvPortMalloc ucHeap xWantedSize h =
     (let x = wanted_size xWantedSize;
          w = unat x;
          h1 = (if pxEnd h = 0 then prvHeapInit ucHeap h else h)
      in if heapBLOCK_SIZE_IS_VALID x \<and> x > 0 \<and> w \<le> xFreeBytesRemaining h1
         then do { (pre, rest) \<leftarrow> find_fit (heapVALIDATE_BLOCK_POINTER ucHeap) (pxEnd h1) w (free_list h1);
                   case rest of [] \<Rightarrow> Some (0, h1)
                   | (a, s) # post \<Rightarrow>
                       let pv = a + unat xHeapStructSize in
                       if \<not> heapVALIDATE_BLOCK_POINTER ucHeap pv \<or> s < w then None
                       else let split = s - w > unat heapMINIMUM_BLOCK_SIZE;
                                size1 = (if split then w else s);
                                left = xFreeBytesRemaining h1 - size1
                            in if split \<and> (a + w) mod 8 \<noteq> 0 \<or> pv mod 8 \<noteq> 0 then None
                               else Some (pv, h1\<lparr>free_list := pre @ (if split then [(a + w, s - w)] else []) @ post,
                                                 allocated := (allocated h1)(a := Some size1),
                                                 xFreeBytesRemaining := left,
                                                 xMinimumEverFreeBytesRemaining := min left (xMinimumEverFreeBytesRemaining h1),
                                                 xNumberOfSuccessfulAllocations := xNumberOfSuccessfulAllocations h1 + 1\<rparr>) }
         else Some (0, h1))"

text \<open>\<open>pvPortCalloc\<close> also says how many bytes from the returned pointer on it cleared.\<close>

definition pvPortCalloc :: "nat \<Rightarrow> u32 \<Rightarrow> u32 \<Rightarrow> heap4 \<Rightarrow> (nat \<times> nat \<times> heap4) option" where
  "pvPortCalloc ucHeap xNum xSize h =
     (if \<not> heapMULTIPLY_WILL_OVERFLOW xNum xSize
      then do { (pv, h1) \<leftarrow> pvPortMalloc ucHeap (xNum * xSize) h;
                Some (pv, if pv \<noteq> 0 then unat (xNum * xSize) else 0, h1) }
      else Some (0, 0, h))"

section \<open>Release\<close>

definition merge_next :: "block \<Rightarrow> block list \<Rightarrow> block list" where
  "merge_next b bs = (case bs of [] \<Rightarrow> [b]
     | n # ns \<Rightarrow> if fst b + snd b = fst n then (fst b, snd b + snd n) # ns else b # n # ns)"

text \<open>
  The loop stops at the last block below the one inserted, which is validated; with no such
  block the iterator is still \<open>xStart\<close>, which lies outside the heap and is not adjacent.
\<close>

fun prvInsertBlockIntoFreeList :: "(nat \<Rightarrow> bool) \<Rightarrow> block \<Rightarrow> block list \<Rightarrow> block list option" where
  "prvInsertBlockIntoFreeList valid b [] = Some [b]"
| "prvInsertBlockIntoFreeList valid b (x # xs) =
     (if fst x < fst b
      then if xs \<noteq> [] \<and> fst (hd xs) < fst b
           then map_option (Cons x) (prvInsertBlockIntoFreeList valid b xs)
           else if \<not> valid (fst x) then None
           else if fst x + snd x = fst b then Some (merge_next (fst x, snd x + snd b) xs)
           else Some (x # merge_next b xs)
      else Some (merge_next b (x # xs)))"

text \<open>
  A pointer that is not one of an allocated block fails the ownership assertion: the header
  of a block on the free list has the ownership bit clear.
\<close>

definition vPortFree :: "nat \<Rightarrow> nat \<Rightarrow> heap4 \<Rightarrow> heap4 option" where
  "vPortFree ucHeap pv h =
     (if pv = 0 then Some h
      else let puc = pv - unat xHeapStructSize in
           if \<not> heapVALIDATE_BLOCK_POINTER ucHeap puc then None
           else case allocated h puc of None \<Rightarrow> None
                | Some s \<Rightarrow>
                    do { bs \<leftarrow> prvInsertBlockIntoFreeList (heapVALIDATE_BLOCK_POINTER ucHeap) (puc, s) (free_list h);
                         Some (h\<lparr>allocated := (allocated h)(puc := None),
                                 xFreeBytesRemaining := xFreeBytesRemaining h + s,
                                 free_list := bs,
                                 xNumberOfSuccessfulFrees := xNumberOfSuccessfulFrees h + 1\<rparr>) })"

section \<open>Queries\<close>

definition xPortGetFreeHeapSize :: "heap4 \<Rightarrow> nat" where
  "xPortGetFreeHeapSize h = xFreeBytesRemaining h"

definition xPortGetMinimumEverFreeHeapSize :: "heap4 \<Rightarrow> nat" where
  "xPortGetMinimumEverFreeHeapSize h = xMinimumEverFreeBytesRemaining h"

definition xPortResetHeapMinimumEverFreeHeapSize :: "heap4 \<Rightarrow> heap4" where
  "xPortResetHeapMinimumEverFreeHeapSize h = h\<lparr>xMinimumEverFreeBytesRemaining := xFreeBytesRemaining h\<rparr>"

record HeapStats =
  xAvailableHeapSpaceInBytes :: nat
  xSizeOfLargestFreeBlockInBytes :: nat
  xSizeOfSmallestFreeBlockInBytes :: nat
  xNumberOfFreeBlocks :: nat
  hs_MinimumEverFreeBytesRemaining :: nat
  hs_NumberOfSuccessfulAllocations :: u32
  hs_NumberOfSuccessfulFrees :: u32

text \<open>The loop over the free list: number of blocks, largest and smallest size so far.\<close>

fun stats_loop :: "block list \<Rightarrow> nat \<Rightarrow> nat \<Rightarrow> nat \<Rightarrow> nat \<times> nat \<times> nat" where
  "stats_loop [] xBlocks xMaxSize xMinSize = (xBlocks, xMaxSize, xMinSize)"
| "stats_loop ((a, s) # bs) xBlocks xMaxSize xMinSize =
     stats_loop bs (Suc xBlocks) (if s > xMaxSize then s else xMaxSize) (if s < xMinSize then s else xMinSize)"

definition vPortGetHeapStats :: "heap4 \<Rightarrow> HeapStats" where
  "vPortGetHeapStats h =
     (let (n, mx, mn) = stats_loop (free_list h) 0 0 0xFFFFFFFF
      in \<lparr>xAvailableHeapSpaceInBytes = xFreeBytesRemaining h, xSizeOfLargestFreeBlockInBytes = mx,
          xSizeOfSmallestFreeBlockInBytes = mn, xNumberOfFreeBlocks = n,
          hs_MinimumEverFreeBytesRemaining = xMinimumEverFreeBytesRemaining h,
          hs_NumberOfSuccessfulAllocations = xNumberOfSuccessfulAllocations h,
          hs_NumberOfSuccessfulFrees = xNumberOfSuccessfulFrees h\<rparr>)"

definition vPortHeapResetState :: "heap4 \<Rightarrow> heap4" where
  "vPortHeapResetState h = h\<lparr>pxEnd := 0, xFreeBytesRemaining := 0, xMinimumEverFreeBytesRemaining := 0,
     xNumberOfSuccessfulAllocations := 0, xNumberOfSuccessfulFrees := 0\<rparr>"

end
