(* ===== verification/Rtos_Queue.thy ===== *)
theory Rtos_Queue
  imports Rtos_Tasks Rtos_Heap
begin

text \<open>
  Queues, semaphores and mutexes, \<open>freertos/queue.c\<close>, on top of the scheduler of \<open>Rtos_Tasks\<close>
  and the heap of \<open>Rtos_Heap\<close>. A queue is named by the address of its structure; its storage
  area is a list of bytes and the pointers into it are offsets from \<open>pcHead\<close>. The field
  \<open>pcHead\<close> itself only distinguishes mutexes, for which it is null (\<open>uxQueueType\<close>); the mutex
  holder is a field of its own, since a mutex never uses the two pointers it shares memory with.

  The blocking calls are loops that give up the processor in the middle. Each is modelled by
  the two steps of one round of its loop: the critical section that tries the operation, and
  the section with suspended scheduler that blocks the task or gives up. Between the two, and
  between rounds, other tasks and interrupts run.

  A failed assertion stops the system: \<open>None\<close>.
\<close>

section \<open>State\<close>

record queue =
  storage :: "u8 list"
  uxQueueType_mutex :: bool
  pcWriteTo :: int
  pcTail :: int
  pcReadFrom :: int
  xMutexHolder :: "nat option"
  uxMessagesWaiting :: u32
  uxLength :: u32
  uxItemSize :: u32
  cRxLock :: int
  cTxLock :: int

record ksys = sched +
  queues :: "nat \<Rightarrow> queue"
  heap :: heap4
  xQueueRegistry :: "(string option \<times> nat) list"

definition xTasksWaitingToSend :: "nat \<Rightarrow> list_id" where "xTasksWaitingToSend q = Event (2 * q)"
definition xTasksWaitingToReceive :: "nat \<Rightarrow> list_id" where "xTasksWaitingToReceive q = Event (2 * q + 1)"

definition queueUNLOCKED :: int where [cdefs]: "queueUNLOCKED = - 1"
definition queueLOCKED_UNMODIFIED :: int where [cdefs]: "queueLOCKED_UNMODIFIED = 0"
definition queueINT8_MAX :: int where [cdefs]: "queueINT8_MAX = 127"
definition sizeof_Queue_t :: u32 where [cdefs]: "sizeof_Queue_t = 72"

datatype position = SEND_TO_BACK | SEND_TO_FRONT | OVERWRITE

definition upd_queue :: "nat \<Rightarrow> (queue \<Rightarrow> queue) \<Rightarrow> ksys \<Rightarrow> ksys" where
  "upd_queue q f s = s\<lparr>queues := (queues s)(q := f (queues s q))\<rparr>"

section \<open>Creation\<close>

text \<open>Waking the first task of an event list, if there is one; the result asks for a context switch.\<close>

definition wake_waiting :: "list_id \<Rightarrow> 'a sched_scheme \<Rightarrow> (bool \<times> 'a sched_scheme) option" where
  "wake_waiting l s = (if fst (klists s l) = [] then Some (False, s) else xTaskRemoveFromEventList l s)"

definition queueYIELD_IF_USING_PREEMPTION :: "bool \<Rightarrow> 'a sched_scheme \<Rightarrow> 'a sched_scheme" where
  "queueYIELD_IF_USING_PREEMPTION required s = (if required then portYIELD s else s)"

definition reset_queue :: "queue \<Rightarrow> queue" where
  "reset_queue Q = Q\<lparr>pcTail := int (unat (uxLength Q * uxItemSize Q)), uxMessagesWaiting := 0, pcWriteTo := 0,
     pcReadFrom := int (unat ((uxLength Q - 1) * uxItemSize Q)), cRxLock := queueUNLOCKED, cTxLock := queueUNLOCKED\<rparr>"

definition xQueueGenericReset :: "nat \<Rightarrow> bool \<Rightarrow> ksys \<Rightarrow> ksys option" where
  "xQueueGenericReset q xNewQueue s =
     (if q \<noteq> 0 \<and> uxLength (queues s q) \<ge> 1 \<and> 0xFFFFFFFF div uxLength (queues s q) \<ge> uxItemSize (queues s q)
      then let s1 = upd_queue q reset_queue s in
           if \<not> xNewQueue
           then do { (y, s2) \<leftarrow> wake_waiting (xTasksWaitingToSend q) s1;
                     taskEXIT_CRITICAL (queueYIELD_IF_USING_PREEMPTION y s2) }
           else taskEXIT_CRITICAL (put_list (xTasksWaitingToReceive q) ([], None) (put_list (xTasksWaitingToSend q) ([], None) s1))
      else None)"

definition prvInitialiseNewQueue :: "u32 \<Rightarrow> u32 \<Rightarrow> u8 list \<Rightarrow> nat \<Rightarrow> ksys \<Rightarrow> ksys option" where
  "prvInitialiseNewQueue uxQueueLength uxItSize pucQueueStorage q s =
     xQueueGenericReset q True
       (upd_queue q (\<lambda>Q. Q\<lparr>uxQueueType_mutex := False, storage := (if uxItSize = 0 then [] else pucQueueStorage),
          uxLength := uxQueueLength, uxItemSize := uxItSize\<rparr>) s)"

text \<open>\<open>ram\<close> is what the memory of the storage area holds, which nobody has written yet.\<close>

definition xQueueGenericCreate :: "nat \<Rightarrow> u8 list \<Rightarrow> u32 \<Rightarrow> u32 \<Rightarrow> ksys \<Rightarrow> (nat \<times> ksys) option" where
  "xQueueGenericCreate ucHeap ram uxQueueLength uxItSize s =
     (if uxQueueLength > 0 \<and> 0xFFFFFFFF div uxQueueLength \<ge> uxItSize \<and> 0xFFFFFFFF - sizeof_Queue_t \<ge> uxQueueLength * uxItSize
      then do { (q, h) \<leftarrow> pvPortMalloc ucHeap (sizeof_Queue_t + uxQueueLength * uxItSize) (heap s);
                let s1 = s\<lparr>heap := h\<rparr> in
                if q \<noteq> 0 then do { s2 \<leftarrow> prvInitialiseNewQueue uxQueueLength uxItSize ram q s1; Some (q, s2) }
                else Some (0, s1) }
      else None)"

definition xQueueCreateCountingSemaphore :: "nat \<Rightarrow> u32 \<Rightarrow> u32 \<Rightarrow> ksys \<Rightarrow> (nat \<times> ksys) option" where
  "xQueueCreateCountingSemaphore ucHeap uxMaxCount uxInitialCount s =
     (if uxMaxCount \<noteq> 0 \<and> uxInitialCount \<le> uxMaxCount
      then do { (q, s1) \<leftarrow> xQueueGenericCreate ucHeap [] uxMaxCount 0 s;
                Some (q, if q \<noteq> 0 then upd_queue q (\<lambda>Q. Q\<lparr>uxMessagesWaiting := uxInitialCount\<rparr>) s1 else s1) }
      else None)"

section \<open>The ring buffer\<close>

definition write_at :: "int \<Rightarrow> u8 list \<Rightarrow> u8 list \<Rightarrow> u8 list" where
  "write_at a bs m = take (nat a) m @ bs @ drop (nat a + length bs) m"

text \<open>An item is copied to the place for the next write, or in front of the next read.\<close>

definition copy_to :: "u8 list \<Rightarrow> position \<Rightarrow> queue \<Rightarrow> queue" where
  "copy_to item pos Q =
     (let z = int (unat (uxItemSize Q)) in
      if pos = SEND_TO_BACK
      then let w = pcWriteTo Q + z
           in Q\<lparr>storage := write_at (pcWriteTo Q) item (storage Q), pcWriteTo := (if w \<ge> pcTail Q then 0 else w)\<rparr>
      else let r = pcReadFrom Q - z
           in Q\<lparr>storage := write_at (pcReadFrom Q) item (storage Q), pcReadFrom := (if r < 0 then pcTail Q - z else r)\<rparr>)"

definition prvCopyDataToQueue :: "nat \<Rightarrow> u8 list \<Rightarrow> position \<Rightarrow> ksys \<Rightarrow> (bool \<times> ksys) option" where
  "prvCopyDataToQueue q item pos s =
     (let Q = queues s q; n = uxMessagesWaiting Q in
      if uxItemSize Q = 0
      then do { (y, s1) \<leftarrow> (if uxQueueType_mutex Q
                            then do { (y, s1) \<leftarrow> xTaskPriorityDisinherit (xMutexHolder Q) s;
                                      Some (y, upd_queue q (\<lambda>Q. Q\<lparr>xMutexHolder := None\<rparr>) s1) }
                            else Some (False, s));
                Some (y, upd_queue q (\<lambda>Q. Q\<lparr>uxMessagesWaiting := n + 1\<rparr>) s1) }
      else let m = (if pos = OVERWRITE \<and> n > 0 then n - 1 else n)
           in Some (False, upd_queue q (\<lambda>Q. (copy_to item pos Q)\<lparr>uxMessagesWaiting := m + 1\<rparr>) s))"

text \<open>The bytes read, and the queue with the moved read pointer.\<close>

definition prvCopyDataFromQueue :: "queue \<Rightarrow> u8 list \<times> queue" where
  "prvCopyDataFromQueue Q =
     (if uxItemSize Q \<noteq> 0
      then let z = int (unat (uxItemSize Q)); r = pcReadFrom Q + z; r1 = (if r \<ge> pcTail Q then 0 else r)
           in (take (nat z) (drop (nat r1) (storage Q)), Q\<lparr>pcReadFrom := r1\<rparr>)
      else ([], Q))"

definition prvIsQueueEmpty :: "nat \<Rightarrow> ksys \<Rightarrow> bool" where
  "prvIsQueueEmpty q s \<longleftrightarrow> uxMessagesWaiting (queues s q) = 0"

definition prvIsQueueFull :: "nat \<Rightarrow> ksys \<Rightarrow> bool" where
  "prvIsQueueFull q s \<longleftrightarrow> uxMessagesWaiting (queues s q) = uxLength (queues s q)"

definition uxQueueMessagesWaiting :: "nat \<Rightarrow> ksys \<Rightarrow> u32" where
  "uxQueueMessagesWaiting q s = uxMessagesWaiting (queues s q)"

definition uxQueueSpacesAvailable :: "nat \<Rightarrow> ksys \<Rightarrow> u32" where
  "uxQueueSpacesAvailable q s = uxLength (queues s q) - uxMessagesWaiting (queues s q)"

section \<open>Locking\<close>

definition lock_queue :: "queue \<Rightarrow> queue" where
  "lock_queue Q = Q\<lparr>cRxLock := (if cRxLock Q = queueUNLOCKED then queueLOCKED_UNMODIFIED else cRxLock Q),
     cTxLock := (if cTxLock Q = queueUNLOCKED then queueLOCKED_UNMODIFIED else cTxLock Q)\<rparr>"

definition prvLockQueue :: "nat \<Rightarrow> ksys \<Rightarrow> ksys option" where
  "prvLockQueue q s = taskEXIT_CRITICAL (upd_queue q lock_queue s)"

text \<open>The lock counts are signed bytes; a count below zero converts to a large unsigned number.\<close>

definition prvIncrementQueueTxLock :: "nat \<Rightarrow> int \<Rightarrow> ksys \<Rightarrow> ksys option" where
  "prvIncrementQueueTxLock q n s =
     (if (word_of_int n :: u32) < uxCurrentNumberOfTasks s
      then if n = queueINT8_MAX then None else Some (upd_queue q (\<lambda>Q. Q\<lparr>cTxLock := n + 1\<rparr>) s)
      else Some s)"

definition prvIncrementQueueRxLock :: "nat \<Rightarrow> int \<Rightarrow> ksys \<Rightarrow> ksys option" where
  "prvIncrementQueueRxLock q n s =
     (if (word_of_int n :: u32) < uxCurrentNumberOfTasks s
      then if n = queueINT8_MAX then None else Some (upd_queue q (\<lambda>Q. Q\<lparr>cRxLock := n + 1\<rparr>) s)
      else Some s)"

text \<open>The loop of the unlock: one waiting task per item that came or went while the queue was locked.\<close>

fun wake_counted :: "nat \<Rightarrow> list_id \<Rightarrow> 'a sched_scheme \<Rightarrow> 'a sched_scheme option" where
  "wake_counted 0 l s = Some s"
| "wake_counted (Suc n) l s =
     (if fst (klists s l) = [] then Some s
      else do { (y, s1) \<leftarrow> xTaskRemoveFromEventList l s; wake_counted n l (if y then vTaskMissedYield s1 else s1) })"

definition prvUnlockQueue :: "nat \<Rightarrow> ksys \<Rightarrow> ksys option" where
  "prvUnlockQueue q s =
     do { s1 \<leftarrow> wake_counted (nat (cTxLock (queues s q))) (xTasksWaitingToReceive q) s;
          s2 \<leftarrow> taskEXIT_CRITICAL (upd_queue q (\<lambda>Q. Q\<lparr>cTxLock := queueUNLOCKED\<rparr>) s1);
          s3 \<leftarrow> wake_counted (nat (cRxLock (queues s2 q))) (xTasksWaitingToSend q) s2;
          taskEXIT_CRITICAL (upd_queue q (\<lambda>Q. Q\<lparr>cRxLock := queueUNLOCKED\<rparr>) s3) }"

section \<open>Blocking calls\<close>

text \<open>
  The local variables of a blocking call: the ticks left to wait, the time of entry once it is
  set, and for semaphores whether the holder of a mutex has inherited a priority.
\<close>

record waiting =
  xTicksToWait :: u32
  xTimeOut :: "timeout option"
  xInheritanceOccurred :: bool

definition call_start :: "u32 \<Rightarrow> waiting" where
  "call_start ticks = \<lparr>xTicksToWait = ticks, xTimeOut = None, xInheritanceOccurred = False\<rparr>"

datatype 'r outcome = Return 'r | Again waiting

definition note_entry :: "'a sched_scheme \<Rightarrow> waiting \<Rightarrow> waiting" where
  "note_entry s W = (case xTimeOut W of None \<Rightarrow> W\<lparr>xTimeOut := Some (vTaskInternalSetTimeOutState s)\<rparr> | Some _ \<Rightarrow> W)"

text \<open>What all blocking calls do when the operation is not possible now; \<open>r\<close> is the result of giving up.\<close>

definition give_up_or_wait :: "'r \<Rightarrow> waiting \<Rightarrow> ksys \<Rightarrow> ('r outcome \<times> ksys) option" where
  "give_up_or_wait r W s =
     do { s1 \<leftarrow> taskEXIT_CRITICAL s;
          Some (if xTicksToWait W = 0 then Return r else Again (note_entry s W), s1) }"

definition blocking_allowed :: "u32 \<Rightarrow> ksys \<Rightarrow> bool" where
  "blocking_allowed ticks s \<longleftrightarrow> uxSchedulerSuspended s = 0 \<or> ticks = 0"

definition resume_and_yield :: "ksys \<Rightarrow> ksys option" where
  "resume_and_yield s = do { (y, s1) \<leftarrow> xTaskResumeAll s; if y then Some s1 else taskEXIT_CRITICAL (portYIELD s1) }"

text \<open>
  The section with suspended scheduler: \<open>still\<close> tells whether the operation is still not
  possible, \<open>before\<close> is done before the task is put on the event list \<open>l\<close> (it gets and gives
  \<open>xInheritanceOccurred\<close>), and \<open>after\<close> decides what happens when the time is up.
\<close>

definition wait_section ::
  "nat \<Rightarrow> list_id \<Rightarrow> (ksys \<Rightarrow> bool) \<Rightarrow> (bool \<Rightarrow> ksys \<Rightarrow> (bool \<times> ksys) option) \<Rightarrow> (waiting \<Rightarrow> ksys \<Rightarrow> ('r outcome \<times> ksys) option)
     \<Rightarrow> waiting \<Rightarrow> ksys \<Rightarrow> ('r outcome \<times> ksys) option" where
  "wait_section q l still before after W s =
     (case xTimeOut W of None \<Rightarrow> None
      | Some t \<Rightarrow>
         do { s1 \<leftarrow> prvLockQueue q (vTaskSuspendAll s);
              let (expired, t1, left) = xTaskCheckForTimeOut t (xTicksToWait W) s1; W1 = W\<lparr>xTimeOut := Some t1, xTicksToWait := left\<rparr> in
              if \<not> expired
              then if still s1
                   then do { (i, s2) \<leftarrow> before (xInheritanceOccurred W) s1;
                             s3 \<leftarrow> vTaskPlaceOnEventList l left s2;
                             s4 \<leftarrow> prvUnlockQueue q s3;
                             s5 \<leftarrow> resume_and_yield s4;
                             Some (Again (W1\<lparr>xInheritanceOccurred := i\<rparr>), s5) }
                   else do { s2 \<leftarrow> prvUnlockQueue q s1; (y, s3) \<leftarrow> xTaskResumeAll s2; Some (Again W1, s3) }
              else do { s2 \<leftarrow> prvUnlockQueue q s1; (y, s3) \<leftarrow> xTaskResumeAll s2; after W1 s3 } })"

subsection \<open>Sending\<close>

definition xQueueGenericSend_try :: "nat \<Rightarrow> u8 list \<Rightarrow> position \<Rightarrow> waiting \<Rightarrow> ksys \<Rightarrow> (bool outcome \<times> ksys) option" where
  "xQueueGenericSend_try q item pos W s =
     (let Q = queues s q in
      if uxMessagesWaiting Q < uxLength Q \<or> pos = OVERWRITE
      then do { (y, s1) \<leftarrow> prvCopyDataToQueue q item pos s;
                (w, s2) \<leftarrow> wake_waiting (xTasksWaitingToReceive q) s1;
                s3 \<leftarrow> taskEXIT_CRITICAL (queueYIELD_IF_USING_PREEMPTION (if fst (klists s1 (xTasksWaitingToReceive q)) \<noteq> [] then w else y) s2);
                Some (Return True, s3) }
      else give_up_or_wait False W s)"

definition xQueueGenericSend_block :: "nat \<Rightarrow> waiting \<Rightarrow> ksys \<Rightarrow> (bool outcome \<times> ksys) option" where
  "xQueueGenericSend_block q = wait_section q (xTasksWaitingToSend q) (prvIsQueueFull q) (\<lambda>i s. Some (i, s)) (\<lambda>W s. Some (Return False, s))"

text \<open>A call that does not have to wait, which is the case without a block time.\<close>

definition xQueueGenericSend :: "nat \<Rightarrow> u8 list \<Rightarrow> u32 \<Rightarrow> position \<Rightarrow> ksys \<Rightarrow> (bool outcome \<times> ksys) option" where
  "xQueueGenericSend q item ticks pos s =
     (if q = 0 \<or> pos = OVERWRITE \<and> uxLength (queues s q) \<noteq> 1 \<or> \<not> blocking_allowed ticks s then None
      else xQueueGenericSend_try q item pos (call_start ticks) s)"

definition prvInitialiseMutex :: "nat \<Rightarrow> ksys \<Rightarrow> ksys option" where
  "prvInitialiseMutex q s =
     (if q \<noteq> 0 then do { (r, s1) \<leftarrow> xQueueGenericSend q [] 0 SEND_TO_BACK (upd_queue q (\<lambda>Q. Q\<lparr>xMutexHolder := None, uxQueueType_mutex := True\<rparr>) s);
                        Some s1 }
      else Some s)"

definition xQueueCreateMutex :: "nat \<Rightarrow> ksys \<Rightarrow> (nat \<times> ksys) option" where
  "xQueueCreateMutex ucHeap s =
     do { (q, s1) \<leftarrow> xQueueGenericCreate ucHeap [] 1 0 s; s2 \<leftarrow> prvInitialiseMutex q s1; Some (q, s2) }"

subsection \<open>Receiving\<close>

definition xQueueReceive_try :: "nat \<Rightarrow> waiting \<Rightarrow> ksys \<Rightarrow> (u8 list option outcome \<times> ksys) option" where
  "xQueueReceive_try q W s =
     (let Q = queues s q; n = uxMessagesWaiting Q in
      if n > 0
      then let (bs, Q1) = prvCopyDataFromQueue Q in
           do { (w, s1) \<leftarrow> wake_waiting (xTasksWaitingToSend q) (upd_queue q (\<lambda>_. Q1\<lparr>uxMessagesWaiting := n - 1\<rparr>) s);
                s2 \<leftarrow> taskEXIT_CRITICAL (queueYIELD_IF_USING_PREEMPTION w s1);
                Some (Return (Some bs), s2) }
      else give_up_or_wait None W s)"

text \<open>When the time is up the call ends if the queue is still empty, else it tries again.\<close>

definition if_still_empty :: "nat \<Rightarrow> 'r \<Rightarrow> waiting \<Rightarrow> ksys \<Rightarrow> ('r outcome \<times> ksys) option" where
  "if_still_empty q r W s = Some (if prvIsQueueEmpty q s then Return r else Again W, s)"

definition xQueueReceive_block :: "nat \<Rightarrow> waiting \<Rightarrow> ksys \<Rightarrow> (u8 list option outcome \<times> ksys) option" where
  "xQueueReceive_block q = wait_section q (xTasksWaitingToReceive q) (prvIsQueueEmpty q) (\<lambda>i s. Some (i, s)) (if_still_empty q None)"

definition xQueueReceive :: "nat \<Rightarrow> u32 \<Rightarrow> ksys \<Rightarrow> (u8 list option outcome \<times> ksys) option" where
  "xQueueReceive q ticks s =
     (if q = 0 \<or> \<not> blocking_allowed ticks s then None else xQueueReceive_try q (call_start ticks) s)"

definition xQueuePeek_try :: "nat \<Rightarrow> waiting \<Rightarrow> ksys \<Rightarrow> (u8 list option outcome \<times> ksys) option" where
  "xQueuePeek_try q W s =
     (let Q = queues s q in
      if uxMessagesWaiting Q > 0
      then do { (w, s1) \<leftarrow> wake_waiting (xTasksWaitingToReceive q) s;
                s2 \<leftarrow> taskEXIT_CRITICAL (queueYIELD_IF_USING_PREEMPTION w s1);
                Some (Return (Some (fst (prvCopyDataFromQueue Q))), s2) }
      else give_up_or_wait None W s)"

definition xQueuePeek_block :: "nat \<Rightarrow> waiting \<Rightarrow> ksys \<Rightarrow> (u8 list option outcome \<times> ksys) option" where
  "xQueuePeek_block q = wait_section q (xTasksWaitingToReceive q) (prvIsQueueEmpty q) (\<lambda>i s. Some (i, s)) (if_still_empty q None)"

definition xQueuePeek :: "nat \<Rightarrow> u32 \<Rightarrow> ksys \<Rightarrow> (u8 list option outcome \<times> ksys) option" where
  "xQueuePeek q ticks s =
     (if q = 0 \<or> \<not> blocking_allowed ticks s then None else xQueuePeek_try q (call_start ticks) s)"

subsection \<open>Semaphores\<close>

definition xQueueSemaphoreTake_try :: "nat \<Rightarrow> waiting \<Rightarrow> ksys \<Rightarrow> (bool outcome \<times> ksys) option" where
  "xQueueSemaphoreTake_try q W s =
     (let Q = queues s q; n = uxMessagesWaiting Q in
      if n > 0
      then let s1 = upd_queue q (\<lambda>Q. Q\<lparr>uxMessagesWaiting := n - 1\<rparr>) s;
               s2 = (if uxQueueType_mutex Q then let (h, u) = pvTaskIncrementMutexHeldCount s1 in upd_queue q (\<lambda>Q. Q\<lparr>xMutexHolder := h\<rparr>) u else s1) in
           do { (w, s3) \<leftarrow> wake_waiting (xTasksWaitingToSend q) s2;
                s4 \<leftarrow> taskEXIT_CRITICAL (queueYIELD_IF_USING_PREEMPTION w s3);
                Some (Return True, s4) }
      else give_up_or_wait False W s)"

definition inherit_before :: "nat \<Rightarrow> bool \<Rightarrow> ksys \<Rightarrow> (bool \<times> ksys) option" where
  "inherit_before q old s =
     (if uxQueueType_mutex (queues s q)
      then do { (i, s1) \<leftarrow> xTaskPriorityInherit (xMutexHolder (queues s q)) s; s2 \<leftarrow> taskEXIT_CRITICAL s1; Some (i, s2) }
      else Some (old, s))"

definition prvGetHighestPriorityOfWaitToReceiveList :: "nat \<Rightarrow> ksys \<Rightarrow> nat" where
  "prvGetHighestPriorityOfWaitToReceiveList q s =
     (case fst (klists s (xTasksWaitingToReceive q)) of [] \<Rightarrow> 0
      | t # _ \<Rightarrow> unat (of_nat configMAX_PRIORITIES - event_value (tcbs s t)))"

definition take_timed_out :: "nat \<Rightarrow> waiting \<Rightarrow> ksys \<Rightarrow> (bool outcome \<times> ksys) option" where
  "take_timed_out q W s =
     (if prvIsQueueEmpty q s
      then if xInheritanceOccurred W
           then do { s1 \<leftarrow> vTaskPriorityDisinheritAfterTimeout (xMutexHolder (queues s q)) (prvGetHighestPriorityOfWaitToReceiveList q s) s;
                     s2 \<leftarrow> taskEXIT_CRITICAL s1;
                     Some (Return False, s2) }
           else Some (Return False, s)
      else Some (Again W, s))"

definition xQueueSemaphoreTake_block :: "nat \<Rightarrow> waiting \<Rightarrow> ksys \<Rightarrow> (bool outcome \<times> ksys) option" where
  "xQueueSemaphoreTake_block q = wait_section q (xTasksWaitingToReceive q) (prvIsQueueEmpty q) (inherit_before q) (take_timed_out q)"

definition xQueueSemaphoreTake :: "nat \<Rightarrow> u32 \<Rightarrow> ksys \<Rightarrow> (bool outcome \<times> ksys) option" where
  "xQueueSemaphoreTake q ticks s =
     (if q = 0 \<or> uxItemSize (queues s q) \<noteq> 0 \<or> \<not> blocking_allowed ticks s then None
      else xQueueSemaphoreTake_try q (call_start ticks) s)"

section \<open>Calls from interrupts\<close>

text \<open>The first component tells whether a task of a higher priority was woken.\<close>

definition xQueueGenericSendFromISR :: "nat \<Rightarrow> u8 list \<Rightarrow> position \<Rightarrow> ksys \<Rightarrow> (bool \<times> bool \<times> ksys) option" where
  "xQueueGenericSendFromISR q item pos s =
     (let Q = queues s q in
      if q = 0 \<or> pos = OVERWRITE \<and> uxLength Q \<noteq> 1 then None
      else if uxMessagesWaiting Q < uxLength Q \<or> pos = OVERWRITE
      then do { (y, s1) \<leftarrow> prvCopyDataToQueue q item pos s;
                if cTxLock Q = queueUNLOCKED
                then do { (w, s2) \<leftarrow> wake_waiting (xTasksWaitingToReceive q) s1; Some (w, True, s2) }
                else do { s2 \<leftarrow> prvIncrementQueueTxLock q (cTxLock Q) s1; Some (False, True, s2) } }
      else Some (False, False, s))"

definition xQueueGiveFromISR :: "nat \<Rightarrow> ksys \<Rightarrow> (bool \<times> bool \<times> ksys) option" where
  "xQueueGiveFromISR q s =
     (let Q = queues s q in
      if q = 0 \<or> uxItemSize Q \<noteq> 0 \<or> uxQueueType_mutex Q \<and> xMutexHolder Q \<noteq> None then None
      else if uxMessagesWaiting Q < uxLength Q
      then let s1 = upd_queue q (\<lambda>Q. Q\<lparr>uxMessagesWaiting := uxMessagesWaiting Q + 1\<rparr>) s in
           if cTxLock Q = queueUNLOCKED
           then do { (w, s2) \<leftarrow> wake_waiting (xTasksWaitingToReceive q) s1; Some (w, True, s2) }
           else do { s2 \<leftarrow> prvIncrementQueueTxLock q (cTxLock Q) s1; Some (False, True, s2) }
      else Some (False, False, s))"

definition xQueueReceiveFromISR :: "nat \<Rightarrow> ksys \<Rightarrow> (bool \<times> u8 list option \<times> ksys) option" where
  "xQueueReceiveFromISR q s =
     (let Q = queues s q; n = uxMessagesWaiting Q in
      if q = 0 then None
      else if n > 0
      then let (bs, Q1) = prvCopyDataFromQueue Q; s1 = upd_queue q (\<lambda>_. Q1\<lparr>uxMessagesWaiting := n - 1\<rparr>) s in
           if cRxLock Q = queueUNLOCKED
           then do { (w, s2) \<leftarrow> wake_waiting (xTasksWaitingToSend q) s1; Some (w, Some bs, s2) }
           else do { s2 \<leftarrow> prvIncrementQueueRxLock q (cRxLock Q) s1; Some (False, Some bs, s2) }
      else Some (False, None, s))"

definition xQueuePeekFromISR :: "nat \<Rightarrow> ksys \<Rightarrow> u8 list option option" where
  "xQueuePeekFromISR q s =
     (if q = 0 \<or> uxItemSize (queues s q) = 0 then None
      else Some (if uxMessagesWaiting (queues s q) > 0 then Some (fst (prvCopyDataFromQueue (queues s q))) else None))"

end
