(* ===== verification/Clock_Tasks.thy ===== *)
theory Clock_Tasks
  imports Lwip_Netif Rtos_Queue
begin

text \<open>
  The application: \<open>key_task\<close>, \<open>ntp_task\<close> and \<open>speech_task\<close> of \<open>src/\<close>, running on the kernel of
  \<open>Rtos_Queue\<close> and on the board and network of \<open>Lwip_Netif\<close>, with the tick interrupt.

  A task is a program counter and one step function; the step the system takes next is that of
  the task \<open>pxCurrentTCB\<close>, or the tick. Kernel calls are the definitions of \<open>Rtos_Queue\<close> and
  \<open>Rtos_Tasks\<close>; a blocking call takes a step per critical section. The two tasks of priority 1
  write the console one character per step, because they preempt each other and are preempted by
  \<open>ntp_task\<close> between characters, and a formatted line is read back from the static buffer
  that all tasks share. \<open>ntp_task\<close> has the highest priority of the three and calls nothing that
  blocks between two of its kernel calls, so what it does there is one step. Other tasks (idle,
  timer service) do not use the two queues: they may change the rest of the kernel in any way.

  The last fields of \<open>clock\<close> record what happened; no step depends on them.
\<close>

section \<open>Console output of a preemptible task\<close>

text \<open>
  What a task has still to write: a string given to \<open>uart_puts\<close>, a call of \<open>uart_printf\<close>, or the
  rest of the shared buffer from a position on.
\<close>

datatype out_item = Puts string | Printf string "parg list" | Buf nat

text \<open>The second component is what was written of a string given to \<open>uart_puts\<close>.\<close>

fun out_step :: "out_item list \<Rightarrow> 'a uart_scheme \<Rightarrow> (out_item list \<times> string \<times> 'a uart_scheme) option" where
  "out_step [] u = None"
| "out_step (Puts [] # os) u = Some (os, [], u)"
| "out_step (Puts (c # cs) # os) u =
     (if c = CHR 0x00 then Some (os, [], u) else do { u1 \<leftarrow> uart_putc c u; Some (Puts cs # os, [c], u1) })"
| "out_step (Printf fmt as # os) u = Some (Buf 0 # os, [], u\<lparr>uart_buf := vsnprintf_to (vformat None fmt as) (uart_buf u)\<rparr>)"
| "out_step (Buf i # os) u =
     (if i < length (uart_buf u) \<and> uart_buf u ! i \<noteq> CHR 0x00
      then do { u1 \<leftarrow> uart_putc (uart_buf u ! i) u; Some (Buf (Suc i) # os, [], u1) }
      else Some (os, [], u))"

section \<open>Program counters\<close>

text \<open>Where a blocking kernel call is: not begun, at its critical section, or at the section that waits.\<close>

datatype call = Enter | Try waiting | Block waiting

datatype key_pc = KBanner "out_item list" | KPoll | KRead | KSay "out_item list" | KGive | KDelay

datatype ntp_pc = NStart | NDhcp | NTake call | NQuery nat | NRetry nat | NSend time_msg call | NPoll

datatype speech_pc = SBanner "out_item list" | SReceive call | SSay "out_item list"

record clock =
  kernel :: ksys
  board :: app
  time_request_sem :: nat
  time_queue :: nat
  key_handle :: nat
  ntp_handle :: nat
  speech_handle :: nat
  key_at :: key_pc
  ntp_at :: ntp_pc
  speech_at :: speech_pc
  msg_buf :: time_msg
  presses :: nat
  given :: nat
  taken :: nat
  answers :: "u32 list"
  sent :: "time_msg list"
  heard :: "time_msg list"
  said :: string

record clock_env =
  c_net :: net_env
  c_stack :: "app stack_env"
  c_netif :: "app netif_env"

section \<open>Kernel calls\<close>

text \<open>One step of a blocking call, and where an unfinished call goes on.\<close>

definition call_step ::
  "(ksys \<Rightarrow> ('r outcome \<times> ksys) option) \<Rightarrow> (waiting \<Rightarrow> ksys \<Rightarrow> ('r outcome \<times> ksys) option) \<Rightarrow> (waiting \<Rightarrow> ksys \<Rightarrow> ('r outcome \<times> ksys) option)
     \<Rightarrow> call \<Rightarrow> ksys \<Rightarrow> (('r + call) \<times> ksys) option" where
  "call_step enter try_section block_section c k =
     do { (r, k1) \<leftarrow> (case c of Enter \<Rightarrow> enter k | Try W \<Rightarrow> try_section W k | Block W \<Rightarrow> block_section W k);
          Some (case r of Return v \<Rightarrow> Inl v | Again W \<Rightarrow> Inr (case c of Block _ \<Rightarrow> Try W | _ \<Rightarrow> Block W), k1) }"

definition send_call :: "nat \<Rightarrow> u8 list \<Rightarrow> u32 \<Rightarrow> call \<Rightarrow> ksys \<Rightarrow> ((bool + call) \<times> ksys) option" where
  "send_call q item ticks = call_step (xQueueGenericSend q item ticks SEND_TO_BACK) (xQueueGenericSend_try q item SEND_TO_BACK) (xQueueGenericSend_block q)"

definition take_call :: "nat \<Rightarrow> u32 \<Rightarrow> call \<Rightarrow> ksys \<Rightarrow> ((bool + call) \<times> ksys) option" where
  "take_call q ticks = call_step (xQueueSemaphoreTake q ticks) (xQueueSemaphoreTake_try q) (xQueueSemaphoreTake_block q)"

definition receive_call :: "nat \<Rightarrow> u32 \<Rightarrow> call \<Rightarrow> ksys \<Rightarrow> ((u8 list option + call) \<times> ksys) option" where
  "receive_call q ticks = call_step (xQueueReceive q ticks) (xQueueReceive_try q) (xQueueReceive_block q)"

definition xPortSysTickHandler :: "'a sched_scheme \<Rightarrow> 'a sched_scheme option" where
  "xPortSysTickHandler k = do { (sw, k1) \<leftarrow> xTaskIncrementTick k; taskEXIT_CRITICAL (if sw then portYIELD k1 else k1) }"

definition pdMS_TO_TICKS :: "u32 \<Rightarrow> u32" where
  "pdMS_TO_TICKS ms = ucast ((ucast ms * 1000 :: 64 word) div 1000)"

section \<open>key\_task\<close>

definition key_banner :: "string list" where
  "key_banner = [crlf @ ''========================================'' @ crlf, ''  Network-Synchronised Speaking Clock'' @ crlf,
     ''  Press '' @ [CHR 0x27] @ ''t'' @ [CHR 0x27] @ '' to announce the time'' @ crlf, ''========================================'' @ crlf @ crlf]"

definition key_step :: "clock \<Rightarrow> clock option" where
  "key_step w =
     (case key_at w of
        KBanner os \<Rightarrow>
          (if os = [] then Some (w\<lparr>key_at := KPoll\<rparr>)
           else do { (os1, t, b) \<leftarrow> out_step os (board w); Some (w\<lparr>board := b, key_at := KBanner os1\<rparr>) })
      | KPoll \<Rightarrow>
          let (st, b) = UART0_STATE (board w)
          in Some (w\<lparr>board := b, key_at := (if st AND UART_STATE_RXFULL \<noteq> 0 then KRead else KDelay)\<rparr>)
      | KRead \<Rightarrow>
          let (d, b) = UART0_DATA (board w); c = char_of (unat (d AND 0xFF))
          in Some (if c = CHR ''t'' \<or> c = CHR ''T''
                   then w\<lparr>board := b, key_at := KSay [Puts (''Key: Time request received!'' @ crlf)], presses := presses w + 1\<rparr>
                   else w\<lparr>board := b, key_at := KDelay\<rparr>)
      | KSay os \<Rightarrow>
          (if os = [] then Some (w\<lparr>key_at := KGive\<rparr>)
           else do { (os1, t, b) \<leftarrow> out_step os (board w); Some (w\<lparr>board := b, key_at := KSay os1\<rparr>) })
      | KGive \<Rightarrow>
          do { (r, k) \<leftarrow> send_call (time_request_sem w) [] 0 Enter (kernel w);
               Some (w\<lparr>kernel := k, key_at := KDelay, given := given w + (if r = Inl True then 1 else 0)\<rparr>) }
      | KDelay \<Rightarrow> do { k \<leftarrow> vTaskDelay (pdMS_TO_TICKS 50) (kernel w); Some (w\<lparr>kernel := k, key_at := KPoll\<rparr>) })"

section \<open>ntp\_task\<close>

definition msg_args :: "time_msg \<Rightarrow> parg list" where
  "msg_args m = [AInt (uint (hour m)), AInt (uint (minute m)), AInt (uint (second m))]"

definition msg_bytes :: "time_msg \<Rightarrow> u8 list" where
  "msg_bytes m = [hour m, minute m, second m]"

definition msg_of :: "u8 list \<Rightarrow> time_msg" where
  "msg_of bs = \<lparr>hour = bs ! 0, minute = bs ! 1, second = bs ! 2\<rparr>"

text \<open>\<open>NQuery r\<close> is the head of the retry loop with \<open>r\<close> retries left, \<open>NRetry r\<close> the delay before it.\<close>

definition ntp_step :: "clock_env \<Rightarrow> clock \<Rightarrow> clock option" where
  "ntp_step x w =
     (case ntp_at w of
        NStart \<Rightarrow>
          do { b1 \<leftarrow> uart_puts (''NTP Task: Initializing network stack...'' @ crlf) (board w);
               b2 \<leftarrow> network_init (c_netif x) b1;
               b3 \<leftarrow> uart_puts (''NTP Task: Network stack initialized.'' @ crlf) b2;
               b4 \<leftarrow> uart_puts (''NTP Task: Waiting for DHCP...'' @ crlf) b3;
               Some (w\<lparr>board := b4, ntp_at := NDhcp\<rparr>) }
      | NDhcp \<Rightarrow>
          (if network_is_up (board w) = 0
           then do { b \<leftarrow> lwip_periodic_handle (c_net x) (c_stack x) (board w);
                     k \<leftarrow> vTaskDelay (pdMS_TO_TICKS 10) (kernel w);
                     Some (w\<lparr>board := b, kernel := k\<rparr>) }
           else do { b1 \<leftarrow> uart_puts (''NTP Task: Network is ready!'' @ crlf) (board w);
                     b2 \<leftarrow> uart_puts (''NTP Task: Waiting for time requests...'' @ crlf) b1;
                     Some (w\<lparr>board := b2, ntp_at := NTake Enter\<rparr>) })
      | NTake c \<Rightarrow>
          do { (r, k) \<leftarrow> take_call (time_request_sem w) (pdMS_TO_TICKS 100) c (kernel w);
               (case r of
                  Inr c1 \<Rightarrow> Some (w\<lparr>kernel := k, ntp_at := NTake c1\<rparr>)
                | Inl True \<Rightarrow> do { b \<leftarrow> uart_puts (''NTP Task: Processing time request...'' @ crlf) (board w);
                                  Some (w\<lparr>kernel := k, board := b, ntp_at := NQuery 3, taken := taken w + 1\<rparr>) }
                | Inl False \<Rightarrow> Some (w\<lparr>kernel := k, ntp_at := NPoll\<rparr>)) }
      | NQuery retries \<Rightarrow>
          do { (res, m, b) \<leftarrow> ntp_get_time (lwip_periodic_handle (c_net x) (c_stack x)) (c_net x) (msg_buf w) (board w);
               if res = 0
               then do { b1 \<leftarrow> uart_print (''NTP Task: Time = %02d:%02d:%02d IST'' @ crlf) (msg_args m) b;
                         Some (w\<lparr>board := b1, msg_buf := m, ntp_at := NSend m Enter, answers := answers w @ [ntp_timestamp b]\<rparr>) }
               else let r = retries - 1 in
                    if r > 0
                    then do { b1 \<leftarrow> uart_print (''NTP Task: Retry (%d remaining)...'' @ crlf) [AInt (int r)] b;
                              Some (w\<lparr>board := b1, msg_buf := m, ntp_at := NRetry r\<rparr>) }
                    else do { b1 \<leftarrow> uart_puts (''NTP Task: All retries failed!'' @ crlf) b;
                              Some (w\<lparr>board := b1, msg_buf := m, ntp_at := NPoll\<rparr>) } }
      | NRetry r \<Rightarrow> do { k \<leftarrow> vTaskDelay (pdMS_TO_TICKS 1000) (kernel w); Some (w\<lparr>kernel := k, ntp_at := NQuery r\<rparr>) }
      | NSend m c \<Rightarrow>
          do { (r, k) \<leftarrow> send_call (time_queue w) (msg_bytes m) (pdMS_TO_TICKS 1000) c (kernel w);
               (case r of
                  Inr c1 \<Rightarrow> Some (w\<lparr>kernel := k, ntp_at := NSend m c1\<rparr>)
                | Inl True \<Rightarrow> Some (w\<lparr>kernel := k, ntp_at := NPoll, sent := sent w @ [m]\<rparr>)
                | Inl False \<Rightarrow> do { b \<leftarrow> uart_puts (''NTP Task: Failed to send to queue!'' @ crlf) (board w);
                                   Some (w\<lparr>kernel := k, board := b, ntp_at := NPoll\<rparr>) }) }
      | NPoll \<Rightarrow> do { b \<leftarrow> lwip_periodic_handle (c_net x) (c_stack x) (board w); Some (w\<lparr>board := b, ntp_at := NTake Enter\<rparr>) })"

section \<open>speech\_task\<close>

definition token_puts :: "string \<Rightarrow> string list" where
  "token_puts token = [''TOKEN '', token, crlf]"

text \<open>The strings \<open>speak_time\<close> gives to \<open>uart_puts\<close>, one after the other.\<close>

definition speak_puts :: "u8 \<Rightarrow> u8 \<Rightarrow> u8 \<Rightarrow> string list" where
  "speak_puts h m s =
     [crlf @ ''--- Speech Output ---'' @ crlf] @ token_puts TOKEN_THE @ token_puts TOKEN_TIME @ token_puts TOKEN_IS
     @ (if h < 60 then token_puts (number_words ! unat h) else []) @ token_puts (if h = 1 then TOKEN_HOUR else TOKEN_HOURS)
     @ (if m < 60 then token_puts (number_words ! unat m) else []) @ token_puts (if m = 1 then TOKEN_MINUTE else TOKEN_MINUTES)
     @ token_puts TOKEN_AND
     @ (if s < 60 then token_puts (number_words ! unat s) else []) @ token_puts (if s = 1 then TOKEN_SECOND else TOKEN_SECONDS)
     @ [''END'' @ crlf, ''--- End Speech ---'' @ crlf @ crlf]"

definition speech_banner :: string where
  "speech_banner = ''Speech Task: Started, waiting for time messages...'' @ crlf"

definition announce :: "time_msg \<Rightarrow> out_item list" where
  "announce m = Printf (''Speech Task: Announcing %02d:%02d:%02d'' @ crlf) (msg_args m) # map Puts (speak_puts (hour m) (minute m) (second m))"

definition speech_step :: "clock \<Rightarrow> clock option" where
  "speech_step w =
     (case speech_at w of
        SBanner os \<Rightarrow>
          (if os = [] then Some (w\<lparr>speech_at := SReceive Enter\<rparr>)
           else do { (os1, t, b) \<leftarrow> out_step os (board w); Some (w\<lparr>board := b, speech_at := SBanner os1, said := said w @ t\<rparr>) })
      | SReceive c \<Rightarrow>
          do { (r, k) \<leftarrow> receive_call (time_queue w) portMAX_DELAY c (kernel w);
               Some (case r of
                       Inr c1 \<Rightarrow> w\<lparr>kernel := k, speech_at := SReceive c1\<rparr>
                     | Inl (Some bs) \<Rightarrow> w\<lparr>kernel := k, speech_at := SSay (announce (msg_of bs)), heard := heard w @ [msg_of bs]\<rparr>
                     | Inl None \<Rightarrow> w\<lparr>kernel := k, speech_at := SReceive Enter\<rparr>) }
      | SSay os \<Rightarrow>
          (if os = [] then Some (w\<lparr>speech_at := SReceive Enter\<rparr>)
           else do { (os1, t, b) \<leftarrow> out_step os (board w); Some (w\<lparr>board := b, speech_at := SSay os1, said := said w @ t\<rparr>) }))"

section \<open>The system\<close>

inductive clock_step :: "clock_env \<Rightarrow> clock \<Rightarrow> clock \<Rightarrow> bool" for x where
  tick: "xPortSysTickHandler (kernel w) = Some k \<Longrightarrow> clock_step x w (w\<lparr>kernel := k\<rparr>)"
| key: "pxCurrentTCB (kernel w) = key_handle w \<Longrightarrow> key_step w = Some w' \<Longrightarrow> clock_step x w w'"
| ntp: "pxCurrentTCB (kernel w) = ntp_handle w \<Longrightarrow> ntp_step x w = Some w' \<Longrightarrow> clock_step x w w'"
| speech: "pxCurrentTCB (kernel w) = speech_handle w \<Longrightarrow> speech_step w = Some w' \<Longrightarrow> clock_step x w w'"
| other: "pxCurrentTCB (kernel w) \<notin> {key_handle w, ntp_handle w, speech_handle w} \<Longrightarrow>
    queues k (time_request_sem w) = queues (kernel w) (time_request_sem w) \<Longrightarrow> queues k (time_queue w) = queues (kernel w) (time_queue w) \<Longrightarrow>
    clock_step x w (w\<lparr>kernel := k\<rparr>)"

inductive reachable :: "clock_env \<Rightarrow> clock \<Rightarrow> clock \<Rightarrow> bool" for x w0 where
  start: "reachable x w0 w0"
| step: "reachable x w0 w \<Longrightarrow> clock_step x w w' \<Longrightarrow> reachable x w0 w'"

inductive_cases clock_stepE: "clock_step x w w'"

end
