(* ===== verification/Rtos_Tasks_Proofs.thy ===== *)
theory Rtos_Tasks_Proofs
  imports Rtos_Tasks
begin

text \<open>
  Correctness of the scheduler core: the invariant that ties the kernel lists to the task
  control blocks and to the ready bitmap, what a tick does to every blocked task through the
  overflow of the tick counter, how long a delay lasts, which task a context switch selects,
  and that timeouts are measured correctly.
\<close>

section \<open>Abstract lists\<close>

definition alist_ok :: "'a alist \<Rightarrow> bool" where
  "alist_ok A \<longleftrightarrow> distinct (fst A) \<and> (\<forall>y. snd A = Some y \<longrightarrow> y \<in> set (fst A))"

lemma alist_ok_empty [simp]: "alist_ok ([], None)"
  by (simp add: alist_ok_def)

lemma split_at_dropWhile: "set (takeWhile P xs) \<union> set (dropWhile P xs) = set xs"
proof -
  have "set (takeWhile P xs @ dropWhile P xs) = set xs" by simp
  then show ?thesis by (simp only: set_append)
qed

lemma set_a_insert [simp]: "set (fst (a_insert key x A)) = insert x (set (fst A))"
  using split_at_dropWhile [of _ "fst A"] by (auto simp: a_insert_def)

lemma set_a_insert_end [simp]: "set (fst (a_insert_end x A)) = insert x (set (fst A))"
  using split_at_dropWhile [of _ "fst A"] by (auto simp: a_insert_end_def split: option.splits)

lemma set_a_remove [simp]: "alist_ok A \<Longrightarrow> set (fst (a_remove x A)) = set (fst A) - {x}"
  by (simp add: a_remove_def alist_ok_def set_remove1_eq)

lemma distinct_insert_mid: "distinct xs \<Longrightarrow> x \<notin> set xs \<Longrightarrow> distinct (takeWhile P xs @ x # dropWhile P xs)"
proof -
  assume a: "distinct xs" "x \<notin> set xs"
  have "distinct (takeWhile P xs @ dropWhile P xs)" using a(1) by simp
  then show ?thesis using a(2) split_at_dropWhile [of P xs] by (simp only: distinct_append) auto
qed

lemma alist_ok_insert: "alist_ok A \<Longrightarrow> x \<notin> set (fst A) \<Longrightarrow> alist_ok (a_insert key x A)"
proof -
  assume a: "alist_ok A" "x \<notin> set (fst A)"
  then have "distinct (fst (a_insert key x A))" by (simp add: a_insert_def alist_ok_def distinct_insert_mid del: distinct_append)
  moreover have "snd (a_insert key x A) = snd A" by (simp add: a_insert_def)
  ultimately show ?thesis using a(1) by (auto simp: alist_ok_def)
qed

lemma alist_ok_insert_end: "alist_ok A \<Longrightarrow> x \<notin> set (fst A) \<Longrightarrow> alist_ok (a_insert_end x A)"
proof -
  assume a: "alist_ok A" "x \<notin> set (fst A)"
  then have "distinct (fst (a_insert_end x A))"
    by (cases "snd A") (simp_all add: a_insert_end_def alist_ok_def distinct_insert_mid del: distinct_append, simp)
  moreover have "snd (a_insert_end x A) = snd A" by (simp add: a_insert_end_def split: option.splits)
  ultimately show ?thesis using a(1) by (auto simp: alist_ok_def)
qed

lemma alist_ok_remove: "alist_ok A \<Longrightarrow> alist_ok (a_remove x A)"
proof -
  assume a: "alist_ok A"
  have "y \<in> set (fst A) - {x}" if "snd (a_remove x A) = Some y" for y
  proof (cases "snd A = Some x")
    case True
    then have l: "takeWhile (\<lambda>z. z \<noteq> x) (fst A) \<noteq> []" "y = last (takeWhile (\<lambda>z. z \<noteq> x) (fst A))"
      using that by (auto simp: a_remove_def a_pred_def Let_def split: if_splits)
    then have "y \<in> set (takeWhile (\<lambda>z. z \<noteq> x) (fst A))" using last_in_set by blast
    then show ?thesis by (auto dest: set_takeWhileD)
  next
    case False
    then show ?thesis using that a by (auto simp: a_remove_def alist_ok_def)
  qed
  moreover have "distinct (fst (a_remove x A))" using a by (simp add: alist_ok_def a_remove_def distinct_remove1)
  ultimately show ?thesis using set_a_remove [OF a, of x] by (simp add: alist_ok_def)
qed

lemma a_next_member: "fst A \<noteq> [] \<Longrightarrow> fst (a_next A) \<in> set (fst A)"
proof -
  assume "fst A \<noteq> []"
  then have "hd (fst A) \<in> set (fst A)" by simp
  moreover have "z \<in> set (fst A)" if "tl (dropWhile P (fst A)) = z # zs" for P z zs
    using that by (metis list.set_intros(1) list.set_sel(2) list.sel(2) neq_Nil_conv set_dropWhileD)
  ultimately show ?thesis by (auto simp: a_next_def Let_def split: option.splits list.splits)
qed

lemma alist_ok_next: "alist_ok A \<Longrightarrow> fst A \<noteq> [] \<Longrightarrow> alist_ok (snd (a_next A))"
  using a_next_member [of A] by (simp add: alist_ok_def a_next_def Let_def)

lemma fst_snd_a_next [simp]: "fst (snd (a_next A)) = fst A"
  by (simp add: a_next_def Let_def)

section \<open>Reading the state\<close>

lemma upd_tcb_sel [simp]:
  "tcbs (upd_tcb t f s) = (tcbs s)(t := f (tcbs s t))" "klists (upd_tcb t f s) = klists s"
  "pxCurrentTCB (upd_tcb t f s) = pxCurrentTCB s" "pxDelayedTaskList (upd_tcb t f s) = pxDelayedTaskList s"
  "pxOverflowDelayedTaskList (upd_tcb t f s) = pxOverflowDelayedTaskList s" "xTickCount (upd_tcb t f s) = xTickCount s"
  "xNumOfOverflows (upd_tcb t f s) = xNumOfOverflows s" "xNextTaskUnblockTime (upd_tcb t f s) = xNextTaskUnblockTime s"
  "uxTopReadyPriority (upd_tcb t f s) = uxTopReadyPriority s" "uxSchedulerSuspended (upd_tcb t f s) = uxSchedulerSuspended s"
  "xPendedTicks (upd_tcb t f s) = xPendedTicks s" "xYieldPending (upd_tcb t f s) = xYieldPending s"
  "uxCurrentNumberOfTasks (upd_tcb t f s) = uxCurrentNumberOfTasks s" "pend_sv (upd_tcb t f s) = pend_sv s"
  by (simp_all add: upd_tcb_def)

lemma put_list_sel [simp]:
  "tcbs (put_list l A s) = tcbs s" "klists (put_list l A s) = (klists s)(l := A)"
  "pxCurrentTCB (put_list l A s) = pxCurrentTCB s" "pxDelayedTaskList (put_list l A s) = pxDelayedTaskList s"
  "pxOverflowDelayedTaskList (put_list l A s) = pxOverflowDelayedTaskList s" "xTickCount (put_list l A s) = xTickCount s"
  "xNumOfOverflows (put_list l A s) = xNumOfOverflows s" "xNextTaskUnblockTime (put_list l A s) = xNextTaskUnblockTime s"
  "uxTopReadyPriority (put_list l A s) = uxTopReadyPriority s" "uxSchedulerSuspended (put_list l A s) = uxSchedulerSuspended s"
  "xPendedTicks (put_list l A s) = xPendedTicks s" "xYieldPending (put_list l A s) = xYieldPending s"
  "uxCurrentNumberOfTasks (put_list l A s) = uxCurrentNumberOfTasks s" "pend_sv (put_list l A s) = pend_sv s"
  by (simp_all add: put_list_def)

section \<open>The invariant\<close>

fun state_list :: "list_id \<Rightarrow> bool" where
  "state_list (Ready _) = True"
| "state_list (Delayed _) = True"
| "state_list Suspended = True"
| "state_list _ = False"

text \<open>Membership of the kernel lists is what the container pointers of the list items say.\<close>

definition links_ok :: "'a sched_scheme \<Rightarrow> bool" where
  "links_ok s \<longleftrightarrow> (\<forall>l. alist_ok (klists s l))
     \<and> (\<forall>t l. state_list l \<longrightarrow> (t \<in> set (fst (klists s l)) \<longleftrightarrow> state_in (tcbs s t) = Some l))
     \<and> (\<forall>t l. \<not> state_list l \<longrightarrow> (t \<in> set (fst (klists s l)) \<longleftrightarrow> event_in (tcbs s t) = Some l))
     \<and> (\<forall>t l. state_in (tcbs s t) = Some l \<longrightarrow> state_list l) \<and> (\<forall>t l. event_in (tcbs s t) = Some l \<longrightarrow> \<not> state_list l)"

text \<open>A ready task is in the list of its priority, and the bitmap tells which lists are occupied.\<close>

definition ready_ok :: "'a sched_scheme \<Rightarrow> bool" where
  "ready_ok s \<longleftrightarrow> (\<forall>t. uxPriority (tcbs s t) < configMAX_PRIORITIES)
     \<and> (\<forall>t p. state_in (tcbs s t) = Some (Ready p) \<longrightarrow> p = uxPriority (tcbs s t))
     \<and> (\<forall>p. bit (uxTopReadyPriority s) p \<longleftrightarrow> fst (klists s (Ready p)) \<noteq> [])"

text \<open>The delayed lists are in the order of the wake times.\<close>

definition delays_ok :: "'a sched_scheme \<Rightarrow> bool" where
  "delays_ok s \<longleftrightarrow> (\<exists>d e. d \<noteq> e \<and> pxDelayedTaskList s = Delayed d \<and> pxOverflowDelayedTaskList s = Delayed e)
     \<and> (\<forall>t d. state_in (tcbs s t) = Some (Delayed d) \<longrightarrow> Delayed d = pxDelayedTaskList s \<or> Delayed d = pxOverflowDelayedTaskList s)
     \<and> (\<forall>d. sorted (map (\<lambda>t. state_value (tcbs s t)) (fst (klists s (Delayed d)))))"

text \<open>
  No wake time of the current list has passed, and the cached time is no later than the first
  wake time.
\<close>

definition times_ok :: "'a sched_scheme \<Rightarrow> bool" where
  "times_ok s \<longleftrightarrow> (\<forall>t. state_in (tcbs s t) = Some (pxDelayedTaskList s) \<longrightarrow>
       xTickCount s < state_value (tcbs s t) \<and> xNextTaskUnblockTime s \<le> state_value (tcbs s t))"

definition tick_inv :: "'a sched_scheme \<Rightarrow> bool" where
  "tick_inv s \<longleftrightarrow> links_ok s \<and> ready_ok s \<and> delays_ok s"

definition core_ok :: "'a sched_scheme \<Rightarrow> bool" where
  "core_ok s \<longleftrightarrow> tick_inv s \<and> times_ok s"

text \<open>Only a suspended scheduler has ticks and readied tasks to catch up on.\<close>

definition sched_ok :: "'a sched_scheme \<Rightarrow> bool" where
  "sched_ok s \<longleftrightarrow> core_ok s \<and> (uxSchedulerSuspended s = 0 \<longrightarrow> xPendedTicks s = 0 \<and> fst (klists s PendingReady) = [])"

text \<open>The number of ticks until a task with a time limit wakes.\<close>

definition blocked_for :: "'a sched_scheme \<Rightarrow> nat \<Rightarrow> nat option" where
  "blocked_for s t =
     (if state_in (tcbs s t) = Some (pxDelayedTaskList s) then Some (unat (state_value (tcbs s t)) - unat (xTickCount s))
      else if state_in (tcbs s t) = Some (pxOverflowDelayedTaskList s)
      then Some (2 ^ 32 - unat (xTickCount s) + unat (state_value (tcbs s t)))
      else None)"

section \<open>The primitives keep the invariant\<close>

lemma links_okD:
  assumes "links_ok s"
  shows "alist_ok (klists s l)" "state_list l \<Longrightarrow> t \<in> set (fst (klists s l)) \<longleftrightarrow> state_in (tcbs s t) = Some l"
    "\<not> state_list l \<Longrightarrow> t \<in> set (fst (klists s l)) \<longleftrightarrow> event_in (tcbs s t) = Some l"
    "state_in (tcbs s t) = Some l \<Longrightarrow> state_list l" "event_in (tcbs s t) = Some l \<Longrightarrow> \<not> state_list l"
  using assms by (auto simp: links_ok_def)

lemma links_cong: "links_ok s \<Longrightarrow> tcbs s' = tcbs s \<Longrightarrow> klists s' = klists s \<Longrightarrow> links_ok s'"
  by (simp add: links_ok_def)

definition unstate :: "nat \<Rightarrow> list_id \<Rightarrow> 'a sched_scheme \<Rightarrow> 'a sched_scheme" where
  "unstate t l s = put_list l (a_remove t (klists s l)) (upd_tcb t (\<lambda>c. c\<lparr>state_in := None\<rparr>) s)"

definition unevent :: "nat \<Rightarrow> 'a sched_scheme \<Rightarrow> 'a sched_scheme" where
  "unevent t s = (case event_in (tcbs s t) of None \<Rightarrow> s
     | Some l \<Rightarrow> put_list l (a_remove t (klists s l)) (upd_tcb t (\<lambda>c. c\<lparr>event_in := None\<rparr>) s))"

lemma state_remove_eq:
  "state_in (tcbs s t) = Some l \<Longrightarrow> state_remove t s = Some (length (fst (a_remove t (klists s l))), unstate t l s)"
  by (simp add: state_remove_def unstate_def Let_def)

lemma event_remove_eq: "event_in (tcbs s t) = Some l \<Longrightarrow> event_remove t s = Some (unevent t s)"
  by (simp add: event_remove_def unevent_def)

lemma links_unstate: "links_ok s \<Longrightarrow> state_in (tcbs s t) = Some l \<Longrightarrow> links_ok (unstate t l s)"
  by (auto simp: links_ok_def unstate_def alist_ok_remove)

lemma links_unevent: "links_ok s \<Longrightarrow> links_ok (unevent t s)"
  by (auto simp: links_ok_def unevent_def alist_ok_remove split: option.splits)

lemma links_state_insert_end:
  "links_ok s \<Longrightarrow> state_list l \<Longrightarrow> state_in (tcbs s t) = None \<Longrightarrow> links_ok (state_insert_end l t s)"
  by (auto simp: links_ok_def state_insert_end_def alist_ok_insert_end)

lemma links_state_insert:
  "links_ok s \<Longrightarrow> state_list l \<Longrightarrow> state_in (tcbs s t) = None \<Longrightarrow> links_ok (state_insert l t s)"
  by (auto simp: links_ok_def state_insert_def alist_ok_insert)

lemma links_event_insert:
  "links_ok s \<Longrightarrow> \<not> state_list l \<Longrightarrow> event_in (tcbs s t) = None \<Longrightarrow> links_ok (event_insert l t s)"
  by (auto simp: links_ok_def event_insert_def alist_ok_insert)

lemma links_event_insert_end:
  "links_ok s \<Longrightarrow> \<not> state_list l \<Longrightarrow> event_in (tcbs s t) = None \<Longrightarrow> links_ok (event_insert_end l t s)"
  by (auto simp: links_ok_def event_insert_end_def alist_ok_insert_end)

section \<open>Waking a task\<close>

definition wake :: "nat \<Rightarrow> list_id \<Rightarrow> 'a sched_scheme \<Rightarrow> 'a sched_scheme" where
  "wake t l s = prvAddTaskToReadyList t (unevent t (unstate t l s))"

definition readied :: "tcb \<Rightarrow> tcb" where
  "readied c = c\<lparr>state_in := Some (Ready (uxPriority c)), event_in := None\<rparr>"

lemma readied_sel [simp]:
  "state_in (readied c) = Some (Ready (uxPriority c))" "event_in (readied c) = None" "uxPriority (readied c) = uxPriority c"
  "state_value (readied c) = state_value c" "event_value (readied c) = event_value c" "uxBasePriority (readied c) = uxBasePriority c"
  by (simp_all add: readied_def)

lemma unstate_sel [simp]:
  "tcbs (unstate t l s) = (tcbs s)(t := (tcbs s t)\<lparr>state_in := None\<rparr>)" "klists (unstate t l s) = (klists s)(l := a_remove t (klists s l))"
  "pxCurrentTCB (unstate t l s) = pxCurrentTCB s" "pxDelayedTaskList (unstate t l s) = pxDelayedTaskList s"
  "pxOverflowDelayedTaskList (unstate t l s) = pxOverflowDelayedTaskList s" "xTickCount (unstate t l s) = xTickCount s"
  "xNumOfOverflows (unstate t l s) = xNumOfOverflows s" "xNextTaskUnblockTime (unstate t l s) = xNextTaskUnblockTime s"
  "uxTopReadyPriority (unstate t l s) = uxTopReadyPriority s" "uxSchedulerSuspended (unstate t l s) = uxSchedulerSuspended s"
  "xPendedTicks (unstate t l s) = xPendedTicks s" "xYieldPending (unstate t l s) = xYieldPending s"
  "uxCurrentNumberOfTasks (unstate t l s) = uxCurrentNumberOfTasks s" "pend_sv (unstate t l s) = pend_sv s"
  by (simp_all add: unstate_def)

lemma unevent_sel [simp]:
  "tcbs (unevent t s) = (tcbs s)(t := (tcbs s t)\<lparr>event_in := None\<rparr>)"
  "pxCurrentTCB (unevent t s) = pxCurrentTCB s" "pxDelayedTaskList (unevent t s) = pxDelayedTaskList s"
  "pxOverflowDelayedTaskList (unevent t s) = pxOverflowDelayedTaskList s" "xTickCount (unevent t s) = xTickCount s"
  "xNumOfOverflows (unevent t s) = xNumOfOverflows s" "xNextTaskUnblockTime (unevent t s) = xNextTaskUnblockTime s"
  "uxTopReadyPriority (unevent t s) = uxTopReadyPriority s" "uxSchedulerSuspended (unevent t s) = uxSchedulerSuspended s"
  "xPendedTicks (unevent t s) = xPendedTicks s" "xYieldPending (unevent t s) = xYieldPending s"
  "uxCurrentNumberOfTasks (unevent t s) = uxCurrentNumberOfTasks s" "pend_sv (unevent t s) = pend_sv s"
  by (auto simp: unevent_def fun_eq_iff split: option.splits)

lemma klists_unevent: "links_ok s \<Longrightarrow> state_list l \<Longrightarrow> klists (unevent t s) l = klists s l"
  using links_okD(5) [of s t] by (auto simp: unevent_def split: option.splits)

lemma prvAdd_sel [simp]:
  "tcbs (prvAddTaskToReadyList t s) = (tcbs s)(t := (tcbs s t)\<lparr>state_in := Some (Ready (uxPriority (tcbs s t)))\<rparr>)"
  "klists (prvAddTaskToReadyList t s) = (klists s)(Ready (uxPriority (tcbs s t)) := a_insert_end t (klists s (Ready (uxPriority (tcbs s t)))))"
  "pxCurrentTCB (prvAddTaskToReadyList t s) = pxCurrentTCB s" "pxDelayedTaskList (prvAddTaskToReadyList t s) = pxDelayedTaskList s"
  "pxOverflowDelayedTaskList (prvAddTaskToReadyList t s) = pxOverflowDelayedTaskList s" "xTickCount (prvAddTaskToReadyList t s) = xTickCount s"
  "xNumOfOverflows (prvAddTaskToReadyList t s) = xNumOfOverflows s" "xNextTaskUnblockTime (prvAddTaskToReadyList t s) = xNextTaskUnblockTime s"
  "uxTopReadyPriority (prvAddTaskToReadyList t s) = portRECORD_READY_PRIORITY (uxPriority (tcbs s t)) (uxTopReadyPriority s)"
  "uxSchedulerSuspended (prvAddTaskToReadyList t s) = uxSchedulerSuspended s"
  "xPendedTicks (prvAddTaskToReadyList t s) = xPendedTicks s" "xYieldPending (prvAddTaskToReadyList t s) = xYieldPending s"
  "uxCurrentNumberOfTasks (prvAddTaskToReadyList t s) = uxCurrentNumberOfTasks s" "pend_sv (prvAddTaskToReadyList t s) = pend_sv s"
  by (simp_all add: prvAddTaskToReadyList_def state_insert_end_def Let_def)

lemma bit_record: "p < 32 \<Longrightarrow> bit (portRECORD_READY_PRIORITY p w) q \<longleftrightarrow> q = p \<or> bit w q"
  by (auto simp: portRECORD_READY_PRIORITY_def bit_simps)

lemma bit_reset: "bit (portRESET_READY_PRIORITY p w) q \<longleftrightarrow> q \<noteq> p \<and> bit w q"
  by (auto simp: portRESET_READY_PRIORITY_def bit_simps dest: bit_imp_le_length)

lemma readied_twice: "c\<lparr>event_in := None, state_in := Some (Ready (uxPriority c))\<rparr> = readied c"
  by (cases c) (simp add: readied_def)

lemma wake_tcbs: "tcbs (wake t l s) = (tcbs s)(t := readied (tcbs s t))"
  by (simp add: wake_def readied_twice)

lemma wake_same [simp]:
  "pxCurrentTCB (wake t l s) = pxCurrentTCB s" "pxDelayedTaskList (wake t l s) = pxDelayedTaskList s"
  "pxOverflowDelayedTaskList (wake t l s) = pxOverflowDelayedTaskList s" "xTickCount (wake t l s) = xTickCount s"
  "xNumOfOverflows (wake t l s) = xNumOfOverflows s" "xNextTaskUnblockTime (wake t l s) = xNextTaskUnblockTime s"
  "uxSchedulerSuspended (wake t l s) = uxSchedulerSuspended s"
  "xPendedTicks (wake t l s) = xPendedTicks s" "xYieldPending (wake t l s) = xYieldPending s"
  "uxCurrentNumberOfTasks (wake t l s) = uxCurrentNumberOfTasks s" "pend_sv (wake t l s) = pend_sv s"
  by (simp_all add: wake_def)

lemma wake_klists:
  assumes "links_ok s" and "state_in (tcbs s t) = Some l" and "state_list m"
  shows "klists (wake t l s) m = (let A = (if m = l then a_remove t (klists s l) else klists s m)
     in if m = Ready (uxPriority (tcbs s t)) then a_insert_end t A else A)"
  using klists_unevent [OF links_unstate [OF assms(1,2)] assms(3)] by (auto simp: wake_def Let_def)

lemma wake_links: "links_ok s \<Longrightarrow> state_in (tcbs s t) = Some l \<Longrightarrow> links_ok (wake t l s)"
proof -
  assume a: "links_ok s" "state_in (tcbs s t) = Some l"
  have "links_ok (unevent t (unstate t l s))" by (intro links_unevent links_unstate a)
  then have "links_ok ((unevent t (unstate t l s))\<lparr>uxTopReadyPriority := w\<rparr>)" for w by (simp add: links_ok_def)
  then show ?thesis unfolding wake_def prvAddTaskToReadyList_def Let_def by (intro links_state_insert_end) simp_all
qed

lemma wake_ready:
  assumes "links_ok s" and "ready_ok s" and "state_in (tcbs s t) = Some l" and "\<forall>p. l \<noteq> Ready p"
  shows "ready_ok (wake t l s)"
proof -
  have p: "uxPriority (tcbs s t) < 32" using assms(2) by (simp add: ready_ok_def configMAX_PRIORITIES_def less_trans [of _ 5 32])
  have e: "fst (a_insert_end t A) \<noteq> []" for A by (simp add: a_insert_end_def split: option.splits)
  have top: "uxTopReadyPriority (wake t l s) = portRECORD_READY_PRIORITY (uxPriority (tcbs s t)) (uxTopReadyPriority s)"
    by (simp add: wake_def)
  have "klists (wake t l s) (Ready q) = (if q = uxPriority (tcbs s t) then a_insert_end t (klists s (Ready q)) else klists s (Ready q))" for q
    using wake_klists [OF assms(1,3), of "Ready q"] assms(4) [THEN spec, of q] by (auto simp: Let_def)
  then show ?thesis using assms(2) e p unfolding ready_ok_def top by (simp add: wake_tcbs bit_record)
qed

lemma wake_delays:
  assumes "links_ok s" and "delays_ok s" and "state_in (tcbs s t) = Some l"
  shows "delays_ok (wake t l s)"
proof -
  have "sorted (map (\<lambda>u. state_value (tcbs (wake t l s) u)) (fst (klists (wake t l s) (Delayed d))))" for d
  proof -
    have "(\<lambda>u. state_value (tcbs (wake t l s) u)) = (\<lambda>u. state_value (tcbs s u))" by (auto simp: wake_tcbs)
    moreover have "fst (klists (wake t l s) (Delayed d)) = fst (klists s (Delayed d)) \<or> fst (klists (wake t l s) (Delayed d)) = remove1 t (fst (klists s (Delayed d)))"
      using wake_klists [OF assms(1,3), of "Delayed d"] by (auto simp: Let_def a_remove_def)
    ultimately show ?thesis using assms(2) by (auto simp: delays_ok_def sorted_map_remove1)
  qed
  then show ?thesis using assms(2) by (simp add: delays_ok_def wake_tcbs)
qed

section \<open>The loop of the tick\<close>

lemma wake_tick_inv: "tick_inv s \<Longrightarrow> state_in (tcbs s t) = Some l \<Longrightarrow> \<forall>p. l \<noteq> Ready p \<Longrightarrow> tick_inv (wake t l s)"
  by (simp add: tick_inv_def wake_links wake_ready wake_delays)

text \<open>The part of the state that waking tasks leaves alone.\<close>

definition same_clock :: "'a sched_scheme \<Rightarrow> 'a sched_scheme \<Rightarrow> bool" where
  "same_clock s s' \<longleftrightarrow> pxCurrentTCB s' = pxCurrentTCB s \<and> pxDelayedTaskList s' = pxDelayedTaskList s
     \<and> pxOverflowDelayedTaskList s' = pxOverflowDelayedTaskList s \<and> xTickCount s' = xTickCount s \<and> xNumOfOverflows s' = xNumOfOverflows s
     \<and> uxSchedulerSuspended s' = uxSchedulerSuspended s \<and> xPendedTicks s' = xPendedTicks s \<and> xYieldPending s' = xYieldPending s
     \<and> uxCurrentNumberOfTasks s' = uxCurrentNumberOfTasks s \<and> pend_sv s' = pend_sv s"

lemma unblock_step:
  assumes "tick_inv s" and "fst (klists s (pxDelayedTaskList s)) = t # ts" and "state_value (tcbs s t) \<le> c"
  shows "unblock_expired c sw s = unblock_expired c (sw \<or> uxPriority (tcbs s t) > uxPriority (tcbs s (pxCurrentTCB s))) (wake t (pxDelayedTaskList s) s)"
    and "state_in (tcbs s t) = Some (pxDelayedTaskList s)" and "\<forall>p. pxDelayedTaskList s \<noteq> Ready p"
    and "fst (klists (wake t (pxDelayedTaskList s) s) (pxDelayedTaskList s)) = ts"
proof -
  have d: "state_list (pxDelayedTaskList s)" "\<forall>p. pxDelayedTaskList s \<noteq> Ready p" using assms(1) by (auto simp: tick_inv_def delays_ok_def)
  then show "\<forall>p. pxDelayedTaskList s \<noteq> Ready p" by simp
  show st: "state_in (tcbs s t) = Some (pxDelayedTaskList s)"
    using links_okD(2) [of s "pxDelayedTaskList s" t] assms(1,2) d by (simp add: tick_inv_def)
  have ev: "(if event_in (tcbs u t) \<noteq> None then event_remove t u else Some u) = Some (unevent t u)" for u :: "'a sched_scheme"
    by (cases "event_in (tcbs u t)") (simp_all add: event_remove_eq, simp add: unevent_def)
  have pr: "uxPriority (tcbs (wake t (pxDelayedTaskList s) s) u) = uxPriority (tcbs s u)" for u by (simp add: wake_tcbs)
  have nl: "\<not> c < state_value (tcbs s t)" using assms(3) by simp
  show "unblock_expired c sw s = unblock_expired c (sw \<or> uxPriority (tcbs s t) > uxPriority (tcbs s (pxCurrentTCB s))) (wake t (pxDelayedTaskList s) s)"
    by (subst unblock_expired.simps)
      (simp only: assms(2) list.case nl if_False state_remove_eq [OF st] Option.bind.bind_lunit prod.case ev Let_def wake_def [symmetric] pr wake_same)
  show "fst (klists (wake t (pxDelayedTaskList s) s) (pxDelayedTaskList s)) = ts"
    using wake_klists [of s t "pxDelayedTaskList s", OF _ st d(1)] assms(1,2) d(2) by (simp add: tick_inv_def Let_def a_remove_def)
qed

text \<open>What the loop achieves: exactly the tasks whose time has come are ready.\<close>

definition expired :: "u32 \<Rightarrow> 'a sched_scheme \<Rightarrow> nat \<Rightarrow> bool" where
  "expired c s t \<longleftrightarrow> state_in (tcbs s t) = Some (pxDelayedTaskList s) \<and> state_value (tcbs s t) \<le> c"

definition woken :: "u32 \<Rightarrow> 'a sched_scheme \<Rightarrow> 'a sched_scheme \<Rightarrow> bool" where
  "woken c s s' \<longleftrightarrow> tick_inv s' \<and> same_clock s s' \<and> tcbs s' = (\<lambda>t. if expired c s t then readied (tcbs s t) else tcbs s t)
     \<and> (\<forall>t. state_in (tcbs s' t) = Some (pxDelayedTaskList s) \<longrightarrow> c < state_value (tcbs s' t) \<and> xNextTaskUnblockTime s' \<le> state_value (tcbs s' t))"

definition outranks :: "'a sched_scheme \<Rightarrow> nat \<Rightarrow> bool" where
  "outranks s t \<longleftrightarrow> uxPriority (tcbs s t) > uxPriority (tcbs s (pxCurrentTCB s))"

lemma delayed_member:
  assumes "tick_inv s"
  shows "u \<in> set (fst (klists s (pxDelayedTaskList s))) \<longleftrightarrow> state_in (tcbs s u) = Some (pxDelayedTaskList s)"
proof -
  have "state_list (pxDelayedTaskList s)" using assms by (auto simp: tick_inv_def delays_ok_def)
  then show ?thesis using links_okD(2) [of s "pxDelayedTaskList s" u] assms by (simp add: tick_inv_def)
qed

lemma delayed_sorted:
  assumes "tick_inv s"
  shows "sorted (map (\<lambda>t. state_value (tcbs s t)) (fst (klists s (pxDelayedTaskList s))))"
proof -
  obtain d where "pxDelayedTaskList s = Delayed d" using assms by (auto simp: tick_inv_def delays_ok_def)
  then show ?thesis using assms by (simp add: tick_inv_def delays_ok_def)
qed

lemma unblock_stop:
  assumes "tick_inv s" and "\<forall>t. \<not> expired c s t"
    and "\<forall>t. state_in (tcbs s t) = Some (pxDelayedTaskList s) \<longrightarrow> n \<le> state_value (tcbs s t)"
  shows "woken c s (s\<lparr>xNextTaskUnblockTime := n\<rparr>)"
proof -
  have "tick_inv (s\<lparr>xNextTaskUnblockTime := n\<rparr>)"
    using assms(1) by (simp add: tick_inv_def links_ok_def ready_ok_def delays_ok_def)
  then show ?thesis using assms(2,3) by (simp add: woken_def same_clock_def) (auto simp: expired_def)
qed

lemma expired_after_wake:
  assumes "\<forall>p. pxDelayedTaskList s \<noteq> Ready p"
  shows "expired c (wake t (pxDelayedTaskList s) s) u \<longleftrightarrow> u \<noteq> t \<and> expired c s u"
  using assms [THEN spec, of "uxPriority (tcbs s t)"] by (auto simp: expired_def wake_tcbs)

lemma outranks_after_wake: "outranks (wake t l s) u \<longleftrightarrow> outranks s u"
  by (simp add: outranks_def wake_tcbs)

lemma woken_step:
  assumes "woken c (wake t (pxDelayedTaskList s) s) s'" and "expired c s t" and "\<forall>p. pxDelayedTaskList s \<noteq> Ready p"
  shows "woken c s s'"
proof -
  have "tcbs s' = (\<lambda>u. if expired c s u then readied (tcbs s u) else tcbs s u)"
    using assms by (auto simp: woken_def expired_after_wake wake_tcbs fun_eq_iff)
  moreover have "same_clock s s'" using assms(1) by (simp add: woken_def same_clock_def)
  ultimately show ?thesis using assms(1) unfolding woken_def wake_same by blast
qed

lemma unblock_expired_spec:
  assumes "tick_inv s"
  shows "\<exists>s'. unblock_expired c sw s = Some (sw \<or> (\<exists>t. expired c s t \<and> outranks s t), s') \<and> woken c s s'"
  using assms
proof (induction "fst (klists s (pxDelayedTaskList s))" arbitrary: s sw)
  case Nil
  have n: "\<not> expired c s t" for t using delayed_member [OF Nil.prems, of t] Nil.hyps by (simp add: expired_def)
  have "unblock_expired c sw s = Some (sw, s\<lparr>xNextTaskUnblockTime := portMAX_DELAY\<rparr>)"
    by (subst unblock_expired.simps) (simp only: Nil.hyps [symmetric] list.case)
  then show ?case using n unblock_stop [OF Nil.prems, of c portMAX_DELAY] delayed_member [OF Nil.prems] Nil.hyps by auto
next
  case (Cons t ts)
  show ?case
  proof (cases "c < state_value (tcbs s t)")
    case True
    have v: "state_value (tcbs s t) \<le> state_value (tcbs s u)" if "state_in (tcbs s u) = Some (pxDelayedTaskList s)" for u
      using delayed_sorted [OF Cons.prems] delayed_member [OF Cons.prems, of u] that unfolding Cons.hyps(2) [symmetric] by auto
    have n: "\<not> expired c s u" for u using v [of u] True by (auto simp: expired_def)
    have "unblock_expired c sw s = Some (sw, s\<lparr>xNextTaskUnblockTime := state_value (tcbs s t)\<rparr>)"
      by (subst unblock_expired.simps) (simp only: Cons.hyps(2) [symmetric] list.case True if_True)
    then show ?thesis using n v unblock_stop [OF Cons.prems, of c "state_value (tcbs s t)"] by auto
  next
    case False
    let ?w = "wake t (pxDelayedTaskList s) s"
    have f: "state_value (tcbs s t) \<le> c" using False by simp
    note st = unblock_step [OF Cons.prems Cons.hyps(2) [symmetric] f]
    have ex: "expired c s t" using st(2) f by (simp add: expired_def)
    have e: "ts = fst (klists ?w (pxDelayedTaskList ?w))" using st(4) by simp
    obtain s' where s': "unblock_expired c (sw \<or> outranks s t) ?w = Some ((sw \<or> outranks s t) \<or> (\<exists>u. expired c ?w u \<and> outranks ?w u), s')" "woken c ?w s'"
      using Cons.hyps(1) [OF e wake_tick_inv [OF Cons.prems st(2,3)]] by blast
    have "((sw \<or> outranks s t) \<or> (\<exists>u. expired c ?w u \<and> outranks ?w u)) = (sw \<or> (\<exists>u. expired c s u \<and> outranks s u))"
      using ex unfolding expired_after_wake [OF st(3)] outranks_after_wake by metis
    then show ?thesis using s' st(1) [of sw] woken_step [OF s'(2) ex st(3)] unfolding outranks_def [symmetric] by auto
  qed
qed

section \<open>The tick\<close>

lemma check_expired:
  assumes "tick_inv s" and "\<forall>t. state_in (tcbs s t) = Some (pxDelayedTaskList s) \<longrightarrow> xNextTaskUnblockTime s \<le> state_value (tcbs s t)"
  shows "\<exists>s'. (if c \<ge> xNextTaskUnblockTime s then unblock_expired c False s else Some (False, s)) = Some (\<exists>t. expired c s t \<and> outranks s t, s') \<and> woken c s s'"
proof (cases "c \<ge> xNextTaskUnblockTime s")
  case True
  then show ?thesis using unblock_expired_spec [OF assms(1), of c False] by simp
next
  case False
  then have "\<forall>t. \<not> expired c s t" using assms(2) by (auto simp: expired_def)
  then show ?thesis using False unblock_stop [OF assms(1) _ assms(2)] by simp
qed

text \<open>The state in which a tick looks for expired tasks.\<close>

definition ticked :: "'a sched_scheme \<Rightarrow> 'a sched_scheme" where
  "ticked s = (let s1 = s\<lparr>xTickCount := xTickCount s + 1\<rparr> in
     if xTickCount s + 1 = 0 then prvResetNextTaskUnblockTime
       (s1\<lparr>pxDelayedTaskList := pxOverflowDelayedTaskList s, pxOverflowDelayedTaskList := pxDelayedTaskList s,
           xNumOfOverflows := xNumOfOverflows s + 1\<rparr>) else s1)"

lemma reset_sel [simp]:
  "tcbs (prvResetNextTaskUnblockTime s) = tcbs s" "klists (prvResetNextTaskUnblockTime s) = klists s"
  "pxCurrentTCB (prvResetNextTaskUnblockTime s) = pxCurrentTCB s" "pxDelayedTaskList (prvResetNextTaskUnblockTime s) = pxDelayedTaskList s"
  "pxOverflowDelayedTaskList (prvResetNextTaskUnblockTime s) = pxOverflowDelayedTaskList s" "xTickCount (prvResetNextTaskUnblockTime s) = xTickCount s"
  "xNumOfOverflows (prvResetNextTaskUnblockTime s) = xNumOfOverflows s" "uxTopReadyPriority (prvResetNextTaskUnblockTime s) = uxTopReadyPriority s"
  "uxSchedulerSuspended (prvResetNextTaskUnblockTime s) = uxSchedulerSuspended s" "xPendedTicks (prvResetNextTaskUnblockTime s) = xPendedTicks s"
  "xYieldPending (prvResetNextTaskUnblockTime s) = xYieldPending s" "uxCurrentNumberOfTasks (prvResetNextTaskUnblockTime s) = uxCurrentNumberOfTasks s"
  "pend_sv (prvResetNextTaskUnblockTime s) = pend_sv s"
  by (simp_all add: prvResetNextTaskUnblockTime_def split: list.splits)

lemma tick_inv_cong:
  assumes "tick_inv s" and "tcbs s' = tcbs s" and "klists s' = klists s" and "uxTopReadyPriority s' = uxTopReadyPriority s"
    and "{pxDelayedTaskList s', pxOverflowDelayedTaskList s'} = {pxDelayedTaskList s, pxOverflowDelayedTaskList s}"
  shows "tick_inv s'"
proof -
  obtain d e where de: "d \<noteq> e" "pxDelayedTaskList s = Delayed d" "pxOverflowDelayedTaskList s = Delayed e" and dl: "delays_ok s"
    using assms(1) by (auto simp: tick_inv_def delays_ok_def)
  have "(\<forall>l. l = pxDelayedTaskList s' \<or> l = pxOverflowDelayedTaskList s' \<longleftrightarrow> l = pxDelayedTaskList s \<or> l = pxOverflowDelayedTaskList s)"
    using assms(5) by blast
  moreover have "\<exists>d e. d \<noteq> e \<and> pxDelayedTaskList s' = Delayed d \<and> pxOverflowDelayedTaskList s' = Delayed e"
    using assms(5) de by (auto simp: doubleton_eq_iff)
  ultimately have "delays_ok s'" using dl unfolding delays_ok_def assms(2,3) by blast
  then show ?thesis using assms by (simp add: tick_inv_def links_ok_def ready_ok_def)
qed

lemma reset_time:
  assumes "tick_inv s" and "state_in (tcbs s t) = Some (pxDelayedTaskList s)"
  shows "xNextTaskUnblockTime (prvResetNextTaskUnblockTime s) \<le> state_value (tcbs s t)"
proof -
  have m: "t \<in> set (fst (klists s (pxDelayedTaskList s)))" using delayed_member [OF assms(1)] assms(2) by simp
  then obtain u us where u: "fst (klists s (pxDelayedTaskList s)) = u # us" by (cases "fst (klists s (pxDelayedTaskList s))") auto
  then show ?thesis using delayed_sorted [OF assms(1)] m by (auto simp: prvResetNextTaskUnblockTime_def)
qed

lemma tick_wraps: "(w :: u32) + 1 = 0 \<longleftrightarrow> unat w = 4294967295" "w + 1 \<noteq> 0 \<Longrightarrow> unat (w + 1) = unat w + 1"
proof -
  have b: "unat w < 4294967296" by simp
  have "w + 1 = 0 \<longleftrightarrow> unat (w + 1) = 0" by (simp add: unat_eq_0)
  then show e: "w + 1 = 0 \<longleftrightarrow> unat w = 4294967295" using b by (simp only: unat_add_u32 unat_1) (auto simp: mod_Suc)
  show "unat (w + 1) = unat w + 1" if "w + 1 \<noteq> 0" using that b e mod_less [of "unat w + 1" 4294967296] by (simp only: unat_add_u32 unat_1)
qed

lemma none_due_at_wrap:
  assumes "core_ok s" and "xTickCount s + 1 = 0"
  shows "state_in (tcbs s t) \<noteq> Some (pxDelayedTaskList s)" "fst (klists s (pxDelayedTaskList s)) = []"
proof -
  have "unat (xTickCount s) = 4294967295" using assms(2) tick_wraps(1) by simp
  then have n: "\<not> xTickCount s < v" for v using unat_u32_less [of v] unfolding word_less_nat_alt by linarith
  then show "state_in (tcbs s t) \<noteq> Some (pxDelayedTaskList s)" for t using assms(1) by (auto simp: core_ok_def times_ok_def)
  then show "fst (klists s (pxDelayedTaskList s)) = []"
    using assms(1) delayed_member [of s] by (cases "fst (klists s (pxDelayedTaskList s))") (auto simp: core_ok_def)
qed

lemma ticked_inv:
  assumes "core_ok s"
  shows "tick_inv (ticked s)"
    and "\<forall>t. state_in (tcbs (ticked s) t) = Some (pxDelayedTaskList (ticked s)) \<longrightarrow> xNextTaskUnblockTime (ticked s) \<le> state_value (tcbs (ticked s) t)"
proof -
  have i: "tick_inv s" using assms by (simp add: core_ok_def)
  show "tick_inv (ticked s)" by (rule tick_inv_cong [OF i]) (auto simp: ticked_def Let_def)
  let ?u = "s\<lparr>xTickCount := xTickCount s + 1, pxDelayedTaskList := pxOverflowDelayedTaskList s, pxOverflowDelayedTaskList := pxDelayedTaskList s,
           xNumOfOverflows := xNumOfOverflows s + 1\<rparr>"
  have "tick_inv ?u" by (rule tick_inv_cong [OF i]) auto
  from reset_time [OF this] show "\<forall>t. state_in (tcbs (ticked s) t) = Some (pxDelayedTaskList (ticked s)) \<longrightarrow> xNextTaskUnblockTime (ticked s) \<le> state_value (tcbs (ticked s) t)"
    using assms by (auto simp: ticked_def Let_def core_ok_def times_ok_def)
qed

lemma ticked_same [simp]:
  "tcbs (ticked s) = tcbs s" "klists (ticked s) = klists s" "pxCurrentTCB (ticked s) = pxCurrentTCB s" "xTickCount (ticked s) = xTickCount s + 1"
  "uxSchedulerSuspended (ticked s) = uxSchedulerSuspended s" "xPendedTicks (ticked s) = xPendedTicks s" "xYieldPending (ticked s) = xYieldPending s"
  "uxCurrentNumberOfTasks (ticked s) = uxCurrentNumberOfTasks s" "pend_sv (ticked s) = pend_sv s"
  by (simp_all add: ticked_def Let_def)

lemma tick_spec:
  assumes "core_ok s" and "uxSchedulerSuspended s = 0"
  shows "\<exists>sw s'. xTaskIncrementTick s = Some (sw, s') \<and> core_ok s' \<and> woken (xTickCount s + 1) (ticked s) s'
     \<and> (\<forall>t. expired (xTickCount s + 1) (ticked s) t \<and> outranks s t \<longrightarrow> sw)"
proof -
  have sw: "(if xTickCount s + 1 = 0 then taskSWITCH_DELAYED_LISTS (s\<lparr>xTickCount := xTickCount s + 1\<rparr>) else Some (s\<lparr>xTickCount := xTickCount s + 1\<rparr>)) = Some (ticked s)"
    using none_due_at_wrap(2) [OF assms(1)] by (auto simp: ticked_def taskSWITCH_DELAYED_LISTS_def Let_def)
  obtain s' where s': "(if xTickCount s + 1 \<ge> xNextTaskUnblockTime (ticked s) then unblock_expired (xTickCount s + 1) False (ticked s) else Some (False, ticked s))
      = Some (\<exists>t. expired (xTickCount s + 1) (ticked s) t \<and> outranks (ticked s) t, s')" "woken (xTickCount s + 1) (ticked s) s'"
    using check_expired [OF ticked_inv [OF assms(1)], of "xTickCount s + 1"] by blast
  have o: "outranks (ticked s) t = outranks s t" for t by (simp add: outranks_def)
  have "xTickCount s' = xTickCount s + 1" "pxDelayedTaskList s' = pxDelayedTaskList (ticked s)" using s'(2) by (simp_all add: woken_def same_clock_def)
  then have c: "core_ok s'" using s'(2) unfolding woken_def core_ok_def times_ok_def by metis
  obtain b where "xTaskIncrementTick s = Some (b, s')" "(\<exists>t. expired (xTickCount s + 1) (ticked s) t \<and> outranks (ticked s) t) \<longrightarrow> b"
    unfolding xTaskIncrementTick_def using assms(2) by (simp add: Let_def sw s'(1) del: not_less)
  then show ?thesis using c s'(2) o by auto
qed

text \<open>One tick takes one from the time every blocked task has left, and readies those that had one.\<close>

definition counted_down :: "'a sched_scheme \<Rightarrow> bool \<Rightarrow> 'a sched_scheme \<Rightarrow> nat \<Rightarrow> bool" where
  "counted_down s sw s' t = (case blocked_for s t of
       None \<Rightarrow> tcbs s' t = tcbs s t \<and> blocked_for s' t = None
     | Some n \<Rightarrow> if n = 1 then tcbs s' t = readied (tcbs s t) \<and> blocked_for s' t = None \<and> (outranks s t \<longrightarrow> sw)
                else tcbs s' t = tcbs s t \<and> blocked_for s' t = Some (n - 1))"

lemma blocked_forE:
  assumes "core_ok s"
  obtains (no) "blocked_for s t = None" "state_in (tcbs s t) \<noteq> Some (pxDelayedTaskList s)" "state_in (tcbs s t) \<noteq> Some (pxOverflowDelayedTaskList s)"
  | (cur) "blocked_for s t = Some (unat (state_value (tcbs s t)) - unat (xTickCount s))" "state_in (tcbs s t) = Some (pxDelayedTaskList s)"
      "unat (xTickCount s) < unat (state_value (tcbs s t))" "Some (pxDelayedTaskList s) \<noteq> Some (pxOverflowDelayedTaskList s)"
  | (ovf) "blocked_for s t = Some (4294967296 - unat (xTickCount s) + unat (state_value (tcbs s t)))" "state_in (tcbs s t) = Some (pxOverflowDelayedTaskList s)"
      "pxDelayedTaskList s \<noteq> pxOverflowDelayedTaskList s"
proof -
  note no = that(1) and cur = that(2) and ovf = that(3)
  have "pxDelayedTaskList s \<noteq> pxOverflowDelayedTaskList s" using assms by (auto simp: core_ok_def tick_inv_def delays_ok_def)
  moreover have "unat (xTickCount s) < unat (state_value (tcbs s t))" if "state_in (tcbs s t) = Some (pxDelayedTaskList s)"
    using that assms by (simp add: core_ok_def times_ok_def word_less_nat_alt)
  moreover have "blocked_for s t = (if state_in (tcbs s t) = Some (pxDelayedTaskList s) then Some (unat (state_value (tcbs s t)) - unat (xTickCount s))
      else if state_in (tcbs s t) = Some (pxOverflowDelayedTaskList s) then Some (4294967296 - unat (xTickCount s) + unat (state_value (tcbs s t))) else None)"
    by (simp only: blocked_for_def) simp
  ultimately show ?thesis using no cur ovf by (metis option.inject)
qed

lemma blocked_for_readied: "core_ok s' \<Longrightarrow> tcbs s' t = readied c \<Longrightarrow> blocked_for s' t = None"
  by (auto simp: blocked_for_def core_ok_def tick_inv_def delays_ok_def)

lemma ticked_lists:
  "pxDelayedTaskList (ticked s) = (if xTickCount s + 1 = 0 then pxOverflowDelayedTaskList s else pxDelayedTaskList s)"
  "pxOverflowDelayedTaskList (ticked s) = (if xTickCount s + 1 = 0 then pxDelayedTaskList s else pxOverflowDelayedTaskList s)"
  by (simp_all add: ticked_def Let_def)

lemma expired_iff_one_left:
  assumes "core_ok s"
  shows "expired (xTickCount s + 1) (ticked s) t \<longleftrightarrow> blocked_for s t = Some 1"
proof -
  note w = tick_wraps [of "xTickCount s"]
  have b: "unat (xTickCount s) < 4294967296" by simp
  have ex: "expired (xTickCount s + 1) (ticked s) t \<longleftrightarrow> state_in (tcbs s t) = Some (pxDelayedTaskList (ticked s)) \<and> unat (state_value (tcbs s t)) \<le> unat (xTickCount s + 1)"
    by (simp add: expired_def word_le_nat_alt)
  show ?thesis using assms
  proof (cases rule: blocked_forE [where t = t])
    case no
    then show ?thesis by (simp add: ex ticked_lists)
  next
    case cur
    then have "xTickCount s + 1 \<noteq> 0" using none_due_at_wrap(1) [OF assms] by blast
    then show ?thesis using cur w(2) by (auto simp: ex ticked_lists)
  next
    case ovf
    show ?thesis
    proof (cases "xTickCount s + 1 = 0")
      case True
      then show ?thesis using ovf w(1) unfolding ex by (simp add: ticked_lists)
    next
      case False
      then have "unat (xTickCount s) \<noteq> 4294967295" using w(1) by blast
      then have "4294967296 - unat (xTickCount s) + v \<noteq> 1" for v using b by linarith
      then show ?thesis using False ovf by (simp add: ex ticked_lists)
    qed
  qed
qed

lemma not_expired_counts_down:
  assumes "core_ok s" and "tcbs s' t = tcbs s t" and "same_clock (ticked s) s'"
  shows "blocked_for s' t = map_option (\<lambda>n. n - 1) (blocked_for s t)"
proof -
  note w = tick_wraps [of "xTickCount s"]
  have b: "unat (xTickCount s) < 4294967296" by simp
  have px: "pxDelayedTaskList s' = pxDelayedTaskList (ticked s)" "pxOverflowDelayedTaskList s' = pxOverflowDelayedTaskList (ticked s)" "xTickCount s' = xTickCount s + 1"
    using assms(3) by (auto simp: same_clock_def)
  show ?thesis using assms(1)
  proof (cases rule: blocked_forE [where t = t])
    case no
    then show ?thesis using assms(2) px by (simp add: blocked_for_def ticked_lists)
  next
    case cur
    then have "xTickCount s + 1 \<noteq> 0" using none_due_at_wrap(1) [OF assms(1)] by blast
    then show ?thesis using cur w(2) assms(2) px by (simp add: blocked_for_def ticked_lists)
  next
    case ovf
    show ?thesis
    proof (cases "xTickCount s + 1 = 0")
      case True
      then show ?thesis using ovf w(1) assms(2) px by (simp add: blocked_for_def ticked_lists)
    next
      case False
      then have "unat (xTickCount s) \<noteq> 4294967295" using w(1) by blast
      then have "4294967296 - (unat (xTickCount s) + 1) + v = 4294967296 - unat (xTickCount s) + v - 1" for v using b by linarith
      then show ?thesis using False ovf assms(2) px w(2) by (simp add: blocked_for_def ticked_lists)
    qed
  qed
qed

lemma counts_down:
  assumes "core_ok s" and "core_ok s'" and "woken (xTickCount s + 1) (ticked s) s'" and "\<forall>t. expired (xTickCount s + 1) (ticked s) t \<and> outranks s t \<longrightarrow> sw"
  shows "counted_down s sw s' t"
proof (cases "blocked_for s t = Some 1")
  case True
  then have e: "expired (xTickCount s + 1) (ticked s) t" using expired_iff_one_left [OF assms(1)] by simp
  then have tc: "tcbs s' t = readied (tcbs s t)" using assms(3) by (simp add: woken_def)
  then have "blocked_for s' t = None" by (rule blocked_for_readied [OF assms(2)])
  then show ?thesis using True e tc assms(4) [THEN spec, of t] by (simp add: counted_down_def)
next
  case False
  then have "\<not> expired (xTickCount s + 1) (ticked s) t" using expired_iff_one_left [OF assms(1)] by simp
  then have "tcbs s' t = tcbs s t" using assms(3) by (simp add: woken_def)
  moreover from not_expired_counts_down [where s' = s', OF assms(1) this] have "blocked_for s' t = map_option (\<lambda>n. n - 1) (blocked_for s t)"
    using assms(3) by (simp add: woken_def)
  ultimately show ?thesis using False by (auto simp: counted_down_def split: option.splits)
qed

lemma tick_counts_down:
  assumes "core_ok s" and "uxSchedulerSuspended s = 0"
  shows "\<exists>sw s'. xTaskIncrementTick s = Some (sw, s') \<and> core_ok s' \<and> same_clock (ticked s) s' \<and> (\<forall>t. counted_down s sw s' t)"
proof -
  obtain sw s' where s': "xTaskIncrementTick s = Some (sw, s')" "core_ok s'" "woken (xTickCount s + 1) (ticked s) s'"
    "\<forall>t. expired (xTickCount s + 1) (ticked s) t \<and> outranks s t \<longrightarrow> sw" using tick_spec [OF assms] by blast
  then have "\<forall>t. counted_down s sw s' t" using counts_down [OF assms(1)] by blast
  then show ?thesis using s' by (auto simp: woken_def)
qed

section \<open>Blocking\<close>

lemma links_upd_value: "links_ok s \<Longrightarrow> links_ok (upd_tcb t (\<lambda>c. c\<lparr>state_value := v\<rparr>) s)"
  by (auto simp: links_ok_def)

text \<open>Taking the running task off its ready list.\<close>

definition unready :: "nat \<Rightarrow> 'a sched_scheme \<Rightarrow> 'a sched_scheme" where
  "unready t s = (let p = uxPriority (tcbs s t); s1 = unstate t (Ready p) s in
     if fst (klists s1 (Ready p)) = [] then s1\<lparr>uxTopReadyPriority := portRESET_READY_PRIORITY p (uxTopReadyPriority s1)\<rparr> else s1)"

lemma unready_sel [simp]:
  "tcbs (unready t s) = (tcbs s)(t := (tcbs s t)\<lparr>state_in := None\<rparr>)"
  "klists (unready t s) = (klists s)(Ready (uxPriority (tcbs s t)) := a_remove t (klists s (Ready (uxPriority (tcbs s t)))))"
  "pxCurrentTCB (unready t s) = pxCurrentTCB s" "pxDelayedTaskList (unready t s) = pxDelayedTaskList s"
  "pxOverflowDelayedTaskList (unready t s) = pxOverflowDelayedTaskList s" "xTickCount (unready t s) = xTickCount s"
  "xNumOfOverflows (unready t s) = xNumOfOverflows s" "xNextTaskUnblockTime (unready t s) = xNextTaskUnblockTime s"
  "uxSchedulerSuspended (unready t s) = uxSchedulerSuspended s"
  "xPendedTicks (unready t s) = xPendedTicks s" "xYieldPending (unready t s) = xYieldPending s"
  "uxCurrentNumberOfTasks (unready t s) = uxCurrentNumberOfTasks s" "pend_sv (unready t s) = pend_sv s"
  by (simp_all add: unready_def Let_def)

lemma unready_inv:
  assumes "tick_inv s" and "state_in (tcbs s t) = Some (Ready p)"
  shows "tick_inv (unready t s)"
proof -
  have p: "p = uxPriority (tcbs s t)" using assms by (simp add: tick_inv_def ready_ok_def)
  have "links_ok (unready t s)"
    by (rule links_cong [OF links_unstate [of s t "Ready p"]]) (use assms p in \<open>simp_all add: tick_inv_def\<close>)
  moreover have "ready_ok (unready t s)"
  proof -
    have top: "uxTopReadyPriority (unready t s) = (if fst (a_remove t (klists s (Ready p))) = [] then portRESET_READY_PRIORITY p (uxTopReadyPriority s) else uxTopReadyPriority s)"
      by (simp add: unready_def Let_def p)
    have r: "\<forall>q. bit (uxTopReadyPriority s) q \<longleftrightarrow> fst (klists s (Ready q)) \<noteq> []" "\<forall>u. uxPriority (tcbs s u) < configMAX_PRIORITIES"
      "\<forall>u q. state_in (tcbs s u) = Some (Ready q) \<longrightarrow> q = uxPriority (tcbs s u)"
      using assms(1) by (auto simp: tick_inv_def ready_ok_def)
    have "bit (uxTopReadyPriority (unready t s)) q \<longleftrightarrow> fst (klists (unready t s) (Ready q)) \<noteq> []" for q
    proof (cases "q = p")
      case True
      have "fst (klists s (Ready p)) \<noteq> []" if "fst (a_remove t (klists s (Ready p))) \<noteq> []" using that by (auto simp: a_remove_def)
      then have "bit (uxTopReadyPriority s) p" if "fst (a_remove t (klists s (Ready p))) \<noteq> []" using that r(1) by blast
      then show ?thesis unfolding top unready_sel p [symmetric] True by (simp add: bit_reset)
    next
      case False
      then show ?thesis using r(1) [THEN spec, of q] unfolding top unready_sel p [symmetric] by (simp add: bit_reset)
    qed
    then show ?thesis using r(2,3) by (simp add: ready_ok_def)
  qed
  moreover have "delays_ok (unready t s)"
  proof -
    have "(\<lambda>u. state_value (tcbs (unready t s) u)) = (\<lambda>u. state_value (tcbs s u))" by auto
    then show ?thesis using assms(1) unfolding tick_inv_def delays_ok_def by (simp add: fun_upd_def)
  qed
  ultimately show ?thesis by (simp add: tick_inv_def)
qed

text \<open>Putting a task that is in no state list into a delayed list.\<close>

definition delay_in :: "list_id \<Rightarrow> nat \<Rightarrow> u32 \<Rightarrow> 'a sched_scheme \<Rightarrow> 'a sched_scheme" where
  "delay_in l t v s = state_insert l t (upd_tcb t (\<lambda>c. c\<lparr>state_value := v\<rparr>) s)"

lemma delay_in_sel [simp]:
  "tcbs (delay_in l t v s) = (tcbs s)(t := (tcbs s t)\<lparr>state_value := v, state_in := Some l\<rparr>)"
  "pxCurrentTCB (delay_in l t v s) = pxCurrentTCB s" "pxDelayedTaskList (delay_in l t v s) = pxDelayedTaskList s"
  "pxOverflowDelayedTaskList (delay_in l t v s) = pxOverflowDelayedTaskList s" "xTickCount (delay_in l t v s) = xTickCount s"
  "xNumOfOverflows (delay_in l t v s) = xNumOfOverflows s" "xNextTaskUnblockTime (delay_in l t v s) = xNextTaskUnblockTime s"
  "uxTopReadyPriority (delay_in l t v s) = uxTopReadyPriority s" "uxSchedulerSuspended (delay_in l t v s) = uxSchedulerSuspended s"
  "xPendedTicks (delay_in l t v s) = xPendedTicks s" "xYieldPending (delay_in l t v s) = xYieldPending s"
  "uxCurrentNumberOfTasks (delay_in l t v s) = uxCurrentNumberOfTasks s" "pend_sv (delay_in l t v s) = pend_sv s"
  "m \<noteq> l \<Longrightarrow> klists (delay_in l t v s) m = klists s m"
  by (simp_all add: delay_in_def state_insert_def)

lemma delay_in_inv:
  assumes "tick_inv s" and "state_in (tcbs s t) = None" and "l = pxDelayedTaskList s \<or> l = pxOverflowDelayedTaskList s"
  shows "tick_inv (delay_in l t v s)"
proof -
  obtain d where d: "l = Delayed d" using assms(1,3) by (auto simp: tick_inv_def delays_ok_def)
  have lk: "links_ok s" using assms(1) by (simp add: tick_inv_def)
  have "links_ok (delay_in l t v s)"
    unfolding delay_in_def by (intro links_state_insert links_upd_value lk) (use assms(2) d in auto)
  moreover have "ready_ok (delay_in l t v s)" using assms(1) d by (simp add: tick_inv_def ready_ok_def)
  moreover have "delays_ok (delay_in l t v s)"
  proof -
    let ?f = "\<lambda>u. state_value (tcbs (delay_in l t v s) u)"
    have same: "map ?f (fst (klists s (Delayed e))) = map (\<lambda>u. state_value (tcbs s u)) (fst (klists s (Delayed e)))" for e
      using links_okD(2) [OF lk, of "Delayed e" t] assms(2) by (intro map_cong) auto
    have so: "sorted (map ?f (fst (klists s (Delayed e))))" for e using assms(1) unfolding same tick_inv_def delays_ok_def by blast
    have "sorted (map ?f (fst (klists (delay_in l t v s) (Delayed e))))" for e
    proof (cases "e = d")
      case True
      have "fst (klists (delay_in l t v s) l) = takeWhile (\<lambda>y. ?f y \<le> ?f t) (fst (klists s l)) @ t # dropWhile (\<lambda>y. ?f y \<le> ?f t) (fst (klists s l))"
        by (simp add: delay_in_def state_insert_def a_insert_def if_distrib)
      then show ?thesis using insert_sorted(1) [OF so [of d], of t] True d by (simp only:)
    next
      case False
      then show ?thesis using so [of e] d by simp
    qed
    then show ?thesis using assms(1,3) d unfolding tick_inv_def delays_ok_def by (simp del: delay_in_sel(1)) auto
  qed
  ultimately show ?thesis by (simp add: tick_inv_def)
qed

lemma unready_eq:
  assumes "state_in (tcbs s t) = Some (Ready p)" and "p = uxPriority (tcbs s t)"
  shows "\<exists>n s1. state_remove t s = Some (n, s1)
     \<and> (if n = 0 then s1\<lparr>uxTopReadyPriority := portRESET_READY_PRIORITY (uxPriority (tcbs s1 t)) (uxTopReadyPriority s1)\<rparr> else s1) = unready t s"
  using assms by (simp add: state_remove_eq unready_def Let_def)

lemma add_mod_once: "a < m \<Longrightarrow> b < m \<Longrightarrow> (a + b) mod m = (if a + b < m then a + b else a + b - (m :: nat))"
  by (auto simp: le_mod_geq not_less)

lemma wrapped_sum: "a < m \<Longrightarrow> b < m \<Longrightarrow> c = (if a + b < m then a + b else a + b - m) \<Longrightarrow> c < a \<Longrightarrow> m - a + c = (b :: nat)"
  by (simp split: if_splits)

lemma unwrapped_sum: "a < m \<Longrightarrow> b < m \<Longrightarrow> 0 < b \<Longrightarrow> c = (if a + b < m then a + b else a + b - m) \<Longrightarrow> \<not> c < a \<Longrightarrow> a < c \<and> c - a = (b :: nat)"
  by (auto split: if_splits)

text \<open>The wake time of a delay lies in the current round of the counter or in the next one.\<close>

lemma wake_time:
  assumes "(w :: u32) \<noteq> 0"
  shows "x + w < x \<Longrightarrow> 4294967296 - unat x + unat (x + w) = unat w" and "\<not> x + w < x \<Longrightarrow> x < x + w \<and> unat (x + w) - unat x = unat w"
proof -
  have b: "unat x < 4294967296" "unat w < 4294967296" "0 < unat w" using assms by (simp_all add: unat_gt_0)
  have e: "unat (x + w) = (if unat x + unat w < 4294967296 then unat x + unat w else unat x + unat w - 4294967296)"
    unfolding unat_add_u32 by (rule add_mod_once [OF b(1,2)])
  show "4294967296 - unat x + unat (x + w) = unat w" if "x + w < x"
    by (rule wrapped_sum [OF b(1,2) e]) (use that in \<open>simp only: word_less_nat_alt\<close>)
  show "x < x + w \<and> unat (x + w) - unat x = unat w" if "\<not> x + w < x"
    unfolding word_less_nat_alt by (rule unwrapped_sum [OF b e]) (use that in \<open>simp only: word_less_nat_alt not_False_eq_True\<close>)
qed

definition delayed :: "u32 \<Rightarrow> 'a sched_scheme \<Rightarrow> 'a sched_scheme" where
  "delayed w s = (let t = pxCurrentTCB s; v = xTickCount s + w in
     if v < xTickCount s then delay_in (pxOverflowDelayedTaskList s) t v (unready t s)
     else (delay_in (pxDelayedTaskList s) t v (unready t s))\<lparr>xNextTaskUnblockTime := min v (xNextTaskUnblockTime s)\<rparr>)"

lemma prvAdd_eq:
  assumes "tick_inv s" and "state_in (tcbs s (pxCurrentTCB s)) = Some (Ready p)" and "\<not> (w = portMAX_DELAY \<and> ind)"
  shows "prvAddCurrentTaskToDelayedList w ind s = Some (delayed w s)"
proof -
  let ?t = "pxCurrentTCB s"
  have "p = uxPriority (tcbs s ?t)" using assms(1,2) by (simp add: tick_inv_def ready_ok_def)
  then obtain n s1 where n: "state_remove ?t s = Some (n, s1)"
    "(if n = 0 then s1\<lparr>uxTopReadyPriority := portRESET_READY_PRIORITY (uxPriority (tcbs s1 ?t)) (uxTopReadyPriority s1)\<rparr> else s1) = unready ?t s"
    using unready_eq [OF assms(2)] by blast
  have sel: "pxDelayedTaskList (upd_tcb ?t f (unready ?t s)) = pxDelayedTaskList s" "pxOverflowDelayedTaskList (upd_tcb ?t f (unready ?t s)) = pxOverflowDelayedTaskList s" for f
    by simp_all
  have mn: "(if v < xNextTaskUnblockTime (delay_in l ?t v (unready ?t s)) then (delay_in l ?t v (unready ?t s))\<lparr>xNextTaskUnblockTime := v\<rparr> else delay_in l ?t v (unready ?t s))
      = (delay_in l ?t v (unready ?t s))\<lparr>xNextTaskUnblockTime := min v (xNextTaskUnblockTime s)\<rparr>" for l v
    by (auto simp: min_def not_less)
  show ?thesis
    unfolding prvAddCurrentTaskToDelayedList_def Let_def n(1) Option.bind.bind_lunit prod.case n(2) if_not_P [OF assms(3)] sel delay_in_def [symmetric] mn delayed_def
    by (simp split: if_split)
qed

lemma delayed_sel:
  "pxCurrentTCB (delayed w s) = pxCurrentTCB s" "same_clock s (delayed w s)" "u \<noteq> pxCurrentTCB s \<Longrightarrow> tcbs (delayed w s) u = tcbs s u"
  by (auto simp: delayed_def same_clock_def Let_def)

lemma delayed_events: "tick_inv s \<Longrightarrow> \<not> state_list l \<Longrightarrow> klists (delayed w s) l = klists s l"
  by (cases l) (auto simp: delayed_def Let_def tick_inv_def delays_ok_def)

lemma delayed_inv:
  assumes "tick_inv s" and "state_in (tcbs s (pxCurrentTCB s)) = Some (Ready p)"
  shows "tick_inv (delayed w s)"
proof -
  have i: "tick_inv (unready (pxCurrentTCB s) s)" by (rule unready_inv [OF assms])
  have "tick_inv (delay_in l (pxCurrentTCB s) v (unready (pxCurrentTCB s) s))" if "l = pxDelayedTaskList s \<or> l = pxOverflowDelayedTaskList s" for l v
    by (rule delay_in_inv [OF i]) (use that in auto)
  moreover have "tick_inv (u\<lparr>xNextTaskUnblockTime := n\<rparr>)" if "tick_inv u" for u :: "'a sched_scheme" and n
    by (rule tick_inv_cong [OF that]) simp_all
  ultimately show ?thesis unfolding delayed_def Let_def by simp
qed

lemma delayed_times:
  assumes "core_ok s" and "w \<noteq> 0" and "pxDelayedTaskList s \<noteq> pxOverflowDelayedTaskList s"
  shows "times_ok (delayed w s)" and "blocked_for (delayed w s) (pxCurrentTCB s) = Some (unat w)"
    and "u \<noteq> pxCurrentTCB s \<Longrightarrow> blocked_for (delayed w s) u = blocked_for s u"
proof -
  note wt = wake_time [OF assms(2), of "xTickCount s"]
  have t: "\<forall>u. state_in (tcbs s u) = Some (pxDelayedTaskList s) \<longrightarrow> xTickCount s < state_value (tcbs s u) \<and> xNextTaskUnblockTime s \<le> state_value (tcbs s u)"
    using assms(1) by (simp add: core_ok_def times_ok_def)
  show "times_ok (delayed w s)" "blocked_for (delayed w s) (pxCurrentTCB s) = Some (unat w)"
    using t wt assms(3) by (auto simp: times_ok_def blocked_for_def delayed_def Let_def min.coboundedI2)
  show "u \<noteq> pxCurrentTCB s \<Longrightarrow> blocked_for (delayed w s) u = blocked_for s u"
    by (auto simp: blocked_for_def delayed_def Let_def)
qed

lemma delayed_spec:
  assumes "core_ok s" and "state_in (tcbs s (pxCurrentTCB s)) = Some (Ready p)" and "w \<noteq> 0"
  shows "core_ok (delayed w s)" and "blocked_for (delayed w s) (pxCurrentTCB s) = Some (unat w)"
    and "u \<noteq> pxCurrentTCB s \<Longrightarrow> blocked_for (delayed w s) u = blocked_for s u"
proof -
  have "pxDelayedTaskList s \<noteq> pxOverflowDelayedTaskList s" and i: "tick_inv s" using assms(1) by (auto simp: core_ok_def tick_inv_def delays_ok_def)
  note d = delayed_times [OF assms(1,3) this(1)]
  show "core_ok (delayed w s)" using d(1) delayed_inv [OF i assms(2)] by (simp add: core_ok_def)
  show "blocked_for (delayed w s) (pxCurrentTCB s) = Some (unat w)" "u \<noteq> pxCurrentTCB s \<Longrightarrow> blocked_for (delayed w s) u = blocked_for s u"
    by (fact d)+
qed

section \<open>Selecting the task to run\<close>

text \<open>The bitmap names the highest priority that has a ready task.\<close>

lemma highest_bit:
  assumes "bit (w :: u32) p"
  shows "bit w (portGET_HIGHEST_PRIORITY w)" and "p \<le> portGET_HIGHEST_PRIORITY w"
proof -
  have p: "p < 32" using bit_imp_le_length [OF assms] by simp
  let ?n = "ucPortCountLeadingZeros w"
  let ?xs = "rev [0..<32 :: nat]"
  have nth: "?xs ! i = 31 - i" if "i < 32" for i using that by (simp add: rev_nth)
  have m: "p \<in> set ?xs" using p by simp
  have lt: "?n < 32"
  proof (rule ccontr)
    assume "\<not> ?n < 32"
    then have "length (takeWhile (\<lambda>i. \<not> bit w i) ?xs) = length ?xs"
      using length_takeWhile_le [of "\<lambda>i. \<not> bit w i" ?xs] by (simp add: ucPortCountLeadingZeros_def)
    then have "\<forall>i\<in>set ?xs. \<not> bit w i" by (metis nth_length_takeWhile set_takeWhileD takeWhile_eq_all_conv takeWhile_eq_take take_all_iff order_refl)
    then show False using assms m by blast
  qed
  have "bit w (?xs ! ?n)" using nth_length_takeWhile [of "\<lambda>i. \<not> bit w i" ?xs] lt by (simp add: ucPortCountLeadingZeros_def)
  then show "bit w (portGET_HIGHEST_PRIORITY w)" using nth [OF lt] by (simp add: portGET_HIGHEST_PRIORITY_def)
  have "\<not> bit w (?xs ! i)" if "i < ?n" for i
    using that nth_mem [of i "takeWhile (\<lambda>i. \<not> bit w i) ?xs"] takeWhile_nth [of i "\<lambda>i. \<not> bit w i" ?xs]
    by (auto simp: ucPortCountLeadingZeros_def dest: set_takeWhileD)
  from this [of "31 - p"] have "\<not> 31 - p < ?n" using assms nth [of "31 - p"] p by auto
  then show "p \<le> portGET_HIGHEST_PRIORITY w" using p lt by (simp add: portGET_HIGHEST_PRIORITY_def)
qed

text \<open>The task runs that is ready and has a priority no ready task exceeds.\<close>

definition runs_highest :: "'a sched_scheme \<Rightarrow> bool" where
  "runs_highest s \<longleftrightarrow> state_in (tcbs s (pxCurrentTCB s)) = Some (Ready (uxPriority (tcbs s (pxCurrentTCB s))))
     \<and> (\<forall>t p. state_in (tcbs s t) = Some (Ready p) \<longrightarrow> p \<le> uxPriority (tcbs s (pxCurrentTCB s)))"

lemma select_spec:
  assumes "core_ok s" and "state_in (tcbs s t) = Some (Ready p)"
  shows "\<exists>s'. taskSELECT_HIGHEST_PRIORITY_TASK s = Some s' \<and> core_ok s' \<and> runs_highest s' \<and> same_clock s (s'\<lparr>pxCurrentTCB := pxCurrentTCB s\<rparr>) \<and> tcbs s' = tcbs s
     \<and> (\<forall>l. \<not> state_list l \<longrightarrow> klists s' l = klists s l)"
proof -
  let ?h = "portGET_HIGHEST_PRIORITY (uxTopReadyPriority s)"
  let ?A = "klists s (Ready ?h)"
  have lk: "links_ok s" and rd: "ready_ok s" and i: "tick_inv s" using assms(1) by (simp_all add: core_ok_def tick_inv_def)
  have occ: "bit (uxTopReadyPriority s) q \<longleftrightarrow> fst (klists s (Ready q)) \<noteq> []" for q using rd by (simp add: ready_ok_def)
  have bt: "bit (uxTopReadyPriority s) q" if "state_in (tcbs s u) = Some (Ready q)" for u q
    unfolding occ using links_okD(2) [OF lk, of "Ready q" u] that by auto
  note h = highest_bit [OF bt]
  have ne: "fst ?A \<noteq> []" using h(1) [OF assms(2)] occ by blast
  let ?u = "fst (a_next ?A)"
  let ?s = "(put_list (Ready ?h) (snd (a_next ?A)) s)\<lparr>pxCurrentTCB := ?u\<rparr>"
  have u: "state_in (tcbs s ?u) = Some (Ready ?h)" using links_okD(2) [OF lk, of "Ready ?h" ?u] a_next_member [OF ne] by simp
  then have up: "uxPriority (tcbs s ?u) = ?h" using rd by (simp add: ready_ok_def)
  have fsts: "fst (klists ?s l) = fst (klists s l)" for l by simp
  have "links_ok ?s" using lk alist_ok_next [OF links_okD(1) [OF lk] ne] unfolding links_ok_def fsts by simp
  moreover have "ready_ok ?s" using rd unfolding ready_ok_def fsts by simp
  moreover have "delays_ok ?s" using i unfolding tick_inv_def delays_ok_def fsts by simp
  moreover have "times_ok ?s" using assms(1) by (simp add: core_ok_def times_ok_def)
  ultimately have "core_ok ?s" by (simp add: core_ok_def tick_inv_def)
  moreover have "runs_highest ?s" using u up h(2) by (auto simp: runs_highest_def)
  moreover have "taskSELECT_HIGHEST_PRIORITY_TASK s = Some ?s"
    using ne by (simp add: taskSELECT_HIGHEST_PRIORITY_TASK_def Let_def split_beta)
  ultimately show ?thesis by (intro exI [of _ ?s]) (auto simp: same_clock_def)
qed

lemma switch_spec:
  assumes "core_ok s" and "state_in (tcbs s t) = Some (Ready p)" and "uxSchedulerSuspended s = 0"
  shows "\<exists>s'. vTaskSwitchContext s = Some s' \<and> core_ok s' \<and> runs_highest s' \<and> same_clock (s\<lparr>xYieldPending := False\<rparr>) (s'\<lparr>pxCurrentTCB := pxCurrentTCB s\<rparr>) \<and> tcbs s' = tcbs s
     \<and> (\<forall>l. \<not> state_list l \<longrightarrow> klists s' l = klists s l)"
proof -
  have "core_ok (s\<lparr>xYieldPending := False\<rparr>)"
    using assms(1) unfolding core_ok_def times_ok_def by (auto intro: tick_inv_cong [of s])
  from select_spec [OF this, of t p] show ?thesis using assms(2,3) by (simp add: vTaskSwitchContext_def)
qed

section \<open>Runs of ticks\<close>

lemma core_ok_cong:
  assumes "core_ok s" and "tcbs s' = tcbs s" and "klists s' = klists s" and "uxTopReadyPriority s' = uxTopReadyPriority s"
    and "pxDelayedTaskList s' = pxDelayedTaskList s" and "pxOverflowDelayedTaskList s' = pxOverflowDelayedTaskList s"
    and "xTickCount s' = xTickCount s" and "xNextTaskUnblockTime s' = xNextTaskUnblockTime s"
  shows "core_ok s'"
  using assms tick_inv_cong [of s s'] by (simp add: core_ok_def times_ok_def)

lemma blocked_for_cong:
  assumes "tcbs s' t = tcbs s t" and "pxDelayedTaskList s' = pxDelayedTaskList s" and "pxOverflowDelayedTaskList s' = pxOverflowDelayedTaskList s"
    and "xTickCount s' = xTickCount s"
  shows "blocked_for s' t = blocked_for s t"
  using assms by (simp add: blocked_for_def)

text \<open>The time since the start, as the two counters give it.\<close>

definition ticks_of :: "'a sched_scheme \<Rightarrow> nat" where
  "ticks_of s = unat (xNumOfOverflows s) * 4294967296 + unat (xTickCount s)"

lemma ticks_of_ticked: "ticks_of (ticked s) = (ticks_of s + 1) mod 18446744073709551616"
proof (cases "xTickCount s + 1 = 0")
  case True
  then have t: "unat (xTickCount s) = 4294967295" using tick_wraps(1) by simp
  have "ticks_of (ticked s) = (unat (xNumOfOverflows s) + 1) mod 4294967296 * 4294967296"
    using True by (simp add: ticks_of_def ticked_def Let_def unat_add_u32)
  also have "\<dots> = (unat (xNumOfOverflows s) + 1) * 4294967296 mod (4294967296 * 4294967296)" by (rule mod_mult_mult2 [symmetric])
  also have "(unat (xNumOfOverflows s) + 1) * 4294967296 = ticks_of s + 1" unfolding ticks_of_def t by (simp only: add_mult_distrib)
  finally show ?thesis by (simp only: arith_simps)
next
  case False
  have "unat (xNumOfOverflows s) < 4294967296" "unat (xTickCount s + 1) < 4294967296" by simp_all
  then have "unat (xNumOfOverflows s) * 4294967296 + unat (xTickCount s + 1) < 18446744073709551616" by linarith
  moreover have "ticks_of (ticked s) = unat (xNumOfOverflows s) * 4294967296 + unat (xTickCount s + 1)"
    using False by (simp add: ticks_of_def ticked_def Let_def)
  moreover have "unat (xTickCount s + 1) = unat (xTickCount s) + 1" by (rule tick_wraps(2) [OF False])
  ultimately show ?thesis by (simp add: ticks_of_def)
qed

text \<open>What \<open>n\<close> ticks do to a task.\<close>

definition after_ticks :: "nat \<Rightarrow> 'a sched_scheme \<Rightarrow> 'a sched_scheme \<Rightarrow> nat \<Rightarrow> bool" where
  "after_ticks n s s' t = (case blocked_for s t of
       None \<Rightarrow> tcbs s' t = tcbs s t \<and> blocked_for s' t = None
     | Some m \<Rightarrow> if n < m then tcbs s' t = tcbs s t \<and> blocked_for s' t = Some (m - n)
                else tcbs s' t = readied (tcbs s t) \<and> blocked_for s' t = None)"

lemma blocked_for_pos: "core_ok s \<Longrightarrow> blocked_for s t = Some m \<Longrightarrow> 0 < m"
proof -
  assume a: "core_ok s" "blocked_for s t = Some m"
  have "unat (xTickCount s) < 4294967296" by simp
  then have "0 < 4294967296 - unat (xTickCount s) + v" for v by linarith
  then show ?thesis using a(2) by (cases rule: blocked_forE [OF a(1), of t]) auto
qed

lemma after_ticks_Suc:
  assumes "core_ok s" and "counted_down s sw s1 t" and "after_ticks n s1 s' t"
  shows "after_ticks (Suc n) s s' t"
  using assms(2,3) blocked_for_pos [OF assms(1), of t] by (auto simp: after_ticks_def counted_down_def split: option.splits if_splits)

lemma after_no_ticks:
  assumes "core_ok s"
  shows "after_ticks 0 s s t"
  using blocked_for_pos [OF assms, of t] by (auto simp: after_ticks_def split: option.splits)

lemma pended_ticks_spec:
  assumes "core_ok s" and "uxSchedulerSuspended s = 0"
  shows "\<exists>s'. pended_ticks n s = Some s' \<and> core_ok s' \<and> (\<forall>t. after_ticks n s s' t) \<and> uxSchedulerSuspended s' = 0
     \<and> ticks_of s' = (ticks_of s + n) mod 18446744073709551616 \<and> pxCurrentTCB s' = pxCurrentTCB s"
  using assms
proof (induction n arbitrary: s)
  case 0
  have "unat (xNumOfOverflows s) < 4294967296" "unat (xTickCount s) < 4294967296" by simp_all
  then have "ticks_of s < 18446744073709551616" unfolding ticks_of_def by linarith
  then show ?case using 0 after_no_ticks [OF 0(1)] by auto
next
  case (Suc n)
  obtain sw s1 where s1: "xTaskIncrementTick s = Some (sw, s1)" "core_ok s1" "same_clock (ticked s) s1" "\<forall>t. counted_down s sw s1 t"
    using tick_counts_down [OF Suc.prems] by blast
  let ?u = "if sw then s1\<lparr>xYieldPending := True\<rparr> else s1"
  have c: "core_ok ?u" by (rule core_ok_cong [OF s1(2)]) simp_all
  have bf: "blocked_for ?u t = blocked_for s1 t" for t by (rule blocked_for_cong) simp_all
  have tc: "tcbs ?u = tcbs s1" "uxSchedulerSuspended ?u = 0" "pxCurrentTCB ?u = pxCurrentTCB s" using s1(3) Suc.prems(2) by (simp_all add: same_clock_def)
  from Suc.IH [OF c tc(2)] obtain s' where s': "pended_ticks n ?u = Some s'" "core_ok s'" "\<forall>t. after_ticks n ?u s' t" "uxSchedulerSuspended s' = 0"
    "ticks_of s' = (ticks_of ?u + n) mod 18446744073709551616" "pxCurrentTCB s' = pxCurrentTCB s" using tc(3) by auto
  have "after_ticks n s1 s' t" for t using s'(3) [THEN spec, of t] unfolding after_ticks_def bf tc(1) .
  then have "\<forall>t. after_ticks (Suc n) s s' t" using after_ticks_Suc [OF Suc.prems(1)] s1(4) by blast
  moreover have "ticks_of ?u = (ticks_of s + 1) mod 18446744073709551616"
    using s1(3) ticks_of_ticked [of s] by (simp add: same_clock_def ticks_of_def)
  then have "ticks_of s' = (ticks_of s + Suc n) mod 18446744073709551616" unfolding s'(5) by (simp add: mod_simps)
  ultimately show ?case using s1(1) s' by simp
qed

section \<open>Delays\<close>

text \<open>A state that differs only in the task that runs and in pending context switches.\<close>

definition settled :: "'a sched_scheme \<Rightarrow> 'a sched_scheme \<Rightarrow> bool" where
  "settled s s' \<longleftrightarrow> core_ok s' \<and> tcbs s' = tcbs s \<and> (\<forall>t. blocked_for s' t = blocked_for s t) \<and> uxSchedulerSuspended s' = uxSchedulerSuspended s
     \<and> xPendedTicks s' = xPendedTicks s \<and> (\<forall>l. \<not> state_list l \<longrightarrow> klists s' l = klists s l)"

lemma settled_trans: "settled s s1 \<Longrightarrow> settled s1 s2 \<Longrightarrow> settled s s2"
  by (simp add: settled_def)

lemma settled_upd:
  assumes "core_ok s"
  shows "settled s (s\<lparr>xYieldPending := b\<rparr>)" "settled s (s\<lparr>pend_sv := b\<rparr>)" "settled s s"
  using assms core_ok_cong [OF assms, of "s\<lparr>xYieldPending := b\<rparr>"] core_ok_cong [OF assms, of "s\<lparr>pend_sv := b\<rparr>"]
  by (auto simp: settled_def blocked_for_def)

lemma switch_settles:
  assumes "core_ok s" and "state_in (tcbs s t) = Some (Ready p)" and "uxSchedulerSuspended s = 0"
  shows "\<exists>s'. vTaskSwitchContext s = Some s' \<and> settled s s' \<and> runs_highest s'"
proof -
  obtain s' where s': "vTaskSwitchContext s = Some s'" "core_ok s'" "runs_highest s'" "same_clock (s\<lparr>xYieldPending := False\<rparr>) (s'\<lparr>pxCurrentTCB := pxCurrentTCB s\<rparr>)"
    "tcbs s' = tcbs s" "\<forall>l. \<not> state_list l \<longrightarrow> klists s' l = klists s l" using switch_spec [OF assms] by blast
  then show ?thesis by (auto simp: settled_def same_clock_def blocked_for_def)
qed

lemma exit_yield:
  assumes "core_ok s" and "state_in (tcbs s t) = Some (Ready p)" and "uxSchedulerSuspended s = 0"
  shows "\<exists>s'. taskEXIT_CRITICAL (portYIELD s) = Some s' \<and> settled s s' \<and> runs_highest s'"
proof -
  have st: "settled s (s\<lparr>pend_sv := False\<rparr>)" using settled_upd(2) [OF assms(1)] .
  then have "core_ok (s\<lparr>pend_sv := False\<rparr>)" by (simp add: settled_def)
  from switch_settles [OF this, of t p] obtain s' where s': "vTaskSwitchContext (s\<lparr>pend_sv := False\<rparr>) = Some s'" "settled (s\<lparr>pend_sv := False\<rparr>) s'" "runs_highest s'"
    using assms(2,3) by auto
  then show ?thesis using settled_trans [OF st s'(2)] by (simp add: taskEXIT_CRITICAL_def portYIELD_def)
qed

lemma exit_settles:
  assumes "core_ok s" and "state_in (tcbs s t) = Some (Ready p)" and "uxSchedulerSuspended s = 0"
  shows "\<exists>s'. taskEXIT_CRITICAL s = Some s' \<and> settled s s'"
proof (cases "pend_sv s")
  case True
  then have "taskEXIT_CRITICAL s = taskEXIT_CRITICAL (portYIELD s)" by (simp add: taskEXIT_CRITICAL_def portYIELD_def)
  then show ?thesis using exit_yield [OF assms] by auto
next
  case False
  then show ?thesis using settled_upd(3) [OF assms(1)] by (simp add: taskEXIT_CRITICAL_def)
qed

text \<open>Resuming a scheduler that has nothing to catch up on.\<close>

lemma resume_idle:
  assumes "core_ok s" and "uxSchedulerSuspended s = 1" and "xPendedTicks s = 0" and "fst (klists s PendingReady) = []" and "uxCurrentNumberOfTasks s > 0"
    and "state_in (tcbs s t) = Some (Ready p)"
  shows "\<exists>b s'. xTaskResumeAll s = Some (b, s') \<and> settled (s\<lparr>uxSchedulerSuspended := 0\<rparr>) s' \<and> (b \<longrightarrow> runs_highest s')"
proof -
  let ?s = "s\<lparr>uxSchedulerSuspended := 0\<rparr>"
  have c: "core_ok ?s" by (rule core_ok_cong [OF assms(1)]) simp_all
  have rp: "ready_pending False ?s = Some (False, ?s)" by (subst ready_pending.simps) (simp add: assms(4))
  have r: "xTaskResumeAll s = (if xYieldPending s then do { s6 \<leftarrow> taskEXIT_CRITICAL (portYIELD ?s); Some (True, s6) }
      else do { s6 \<leftarrow> taskEXIT_CRITICAL ?s; Some (False, s6) })"
    using assms(2,3,5) by (simp add: xTaskResumeAll_def Let_def rp)
  show ?thesis
  proof (cases "xYieldPending s")
    case True
    then show ?thesis using exit_yield [OF c, of t p] assms(6) by (auto simp: r)
  next
    case False
    then show ?thesis using exit_settles [OF c, of t p] assms(6) by (auto simp: r)
  qed
qed

lemma delay_spec:
  assumes "sched_ok s" and "uxSchedulerSuspended s = 0" and "uxCurrentNumberOfTasks s > 0" and "state_in (tcbs s (pxCurrentTCB s)) = Some (Ready p)"
    and "u \<noteq> pxCurrentTCB s" and "state_in (tcbs s u) = Some (Ready q)" and "w > 0"
  shows "\<exists>s'. vTaskDelay w s = Some s' \<and> sched_ok s' \<and> runs_highest s' \<and> uxSchedulerSuspended s' = 0 \<and> blocked_for s' (pxCurrentTCB s) = Some (unat w)
     \<and> (\<forall>t. t \<noteq> pxCurrentTCB s \<longrightarrow> tcbs s' t = tcbs s t \<and> blocked_for s' t = blocked_for s t)
     \<and> uxPriority (tcbs s' (pxCurrentTCB s)) = uxPriority (tcbs s (pxCurrentTCB s))"
proof -
  let ?u = "s\<lparr>uxSchedulerSuspended := 1\<rparr>"
  let ?v = "delayed w ?u"
  let ?z = "?v\<lparr>uxSchedulerSuspended := 0\<rparr>"
  have w: "w \<noteq> 0" using assms(7) by auto
  have c: "core_ok ?u" and i: "tick_inv ?u"
    using core_ok_cong [of s ?u] assms(1) by (auto simp: sched_ok_def core_ok_def)
  have cur: "state_in (tcbs ?u (pxCurrentTCB ?u)) = Some (Ready p)" using assms(4) by simp
  note d = delayed_spec [OF c cur w]
  have sc: "same_clock ?u ?v" by (rule delayed_sel(2))
  have vu: "tcbs ?v t = tcbs s t" if "t \<noteq> pxCurrentTCB s" for t using delayed_sel(3) [of t ?u w] that by simp
  have pr: "klists ?v l = klists s l" if "\<not> state_list l" for l using delayed_events [OF i that] by simp
  have cz: "core_ok ?z" by (rule core_ok_cong [OF d(1)]) simp_all
  have bz: "blocked_for ?z t = blocked_for ?v t" for t by (rule blocked_for_cong) simp_all
  have ru: "state_in (tcbs ?v u) = Some (Ready q)" using vu [OF assms(5)] assms(6) by simp
  obtain b x where x: "xTaskResumeAll ?v = Some (b, x)" "settled ?z x" "b \<longrightarrow> runs_highest x"
    using resume_idle [OF d(1) _ _ _ _ ru] sc assms(1,2,3) pr [of PendingReady] by (auto simp: same_clock_def sched_ok_def)
  have rx: "state_in (tcbs x u) = Some (Ready q)" "core_ok x" "uxSchedulerSuspended x = 0" using x(2) ru by (simp_all add: settled_def)
  have del: "vTaskDelay w s = (if b then Some x else taskEXIT_CRITICAL (portYIELD x))"
    using assms(2,7) prvAdd_eq [OF i cur, of w False] x(1) by (simp add: vTaskDelay_def vTaskSuspendAll_def Let_def)
  obtain s' where s': "vTaskDelay w s = Some s'" "settled ?z s'" "runs_highest s'"
  proof (cases b)
    case True
    then show ?thesis using that [of x] x del by simp
  next
    case False
    obtain y where "taskEXIT_CRITICAL (portYIELD x) = Some y" "settled x y" "runs_highest y" using exit_yield [OF rx(2,1,3)] by blast
    then show ?thesis using that [of y] False del settled_trans [OF x(2)] by simp
  qed
  have "sched_ok s'" using s'(2) pr [of PendingReady] assms(1,2) sc by (simp add: sched_ok_def settled_def same_clock_def)
  moreover have "uxPriority (tcbs ?v (pxCurrentTCB s)) = uxPriority (tcbs s (pxCurrentTCB s))" by (simp add: delayed_def Let_def)
  moreover have "blocked_for ?u t = blocked_for s t" for t by (rule blocked_for_cong) simp_all
  ultimately show ?thesis using s' d(2,3) vu bz by (auto simp: settled_def)
qed

section \<open>Timeouts\<close>

lemma two_digits:
  assumes "h' * m + l' = (h * m + y) mod (m * m)" and "l' < m"
  shows "l' = y mod m" and "h' = (h + y div m) mod (m :: nat)"
proof -
  have m: "m \<noteq> 0" using assms(2) by simp
  have e: "h' * m + l' = m * ((h + y div m) mod m) + y mod m" using m by (simp add: assms(1) mod_mult2_eq)
  from arg_cong [OF e, of "\<lambda>x. x mod m"] show "l' = y mod m" using assms(2) by simp
  from arg_cong [OF e, of "\<lambda>x. x div m"] show "h' = (h + y div m) mod m" using assms(2) m by simp
qed

lemma counters_advance:
  assumes "ticks_of s' = (ticks_of s + k) mod 18446744073709551616" and "k \<le> 4294967296"
  shows "xTickCount s' = xTickCount s + of_nat k"
    and "xNumOfOverflows s' \<noteq> xNumOfOverflows s \<and> xTickCount s' \<ge> xTickCount s \<longleftrightarrow> k = 4294967296"
proof -
  define m :: nat where "m = 4294967296"
  let ?n = "unat (xNumOfOverflows s)" and ?t = "unat (xTickCount s)" and ?n' = "unat (xNumOfOverflows s')" and ?t' = "unat (xTickCount s')"
  have b: "?n < m" "?t < m" "?n' < m" "?t' < m" "k \<le> m" "1 < m" using assms(2) by (simp_all add: m_def)
  have e: "?n' * m + ?t' = (?n * m + (?t + k)) mod (m * m)" using assms(1) by (simp add: ticks_of_def m_def add.assoc)
  note d = two_digits [OF e b(4)]
  show "xTickCount s' = xTickCount s + of_nat k"
    using d(1) unfolding word_unat_eq_iff unat_add_u32 unat_of_nat_u32 m_def by (simp add: mod_simps)
  show "xNumOfOverflows s' \<noteq> xNumOfOverflows s \<and> xTickCount s' \<ge> xTickCount s \<longleftrightarrow> k = 4294967296"
  proof (cases "?t + k < m")
    case True
    then show ?thesis using d b by (simp add: word_unat_eq_iff m_def)
  next
    case False
    then have "(?t + k) mod m = ?t + k - m" "(?t + k) div m = 1" using b by (simp_all add: le_mod_geq le_div_geq)
    moreover have "(?n + 1) mod m \<noteq> ?n" using b by (auto simp: mod_Suc)
    ultimately have "?n' \<noteq> ?n" "?t \<le> ?t' \<longleftrightarrow> k = m" using d b False by auto
    then show ?thesis by (auto simp: word_le_nat_alt m_def)
  qed
qed

lemma timeout_spec:
  assumes "ticks_of s' = (ticks_of s + k) mod 18446744073709551616" and "k \<le> 4294967296"
  shows "xTaskCheckForTimeOut (vTaskInternalSetTimeOutState s) w s' =
     (if w = portMAX_DELAY then (False, vTaskInternalSetTimeOutState s, w)
      else if k < unat w then (False, vTaskInternalSetTimeOutState s', w - of_nat k) else (True, vTaskInternalSetTimeOutState s, 0))"
proof -
  note c = counters_advance [OF assms]
  have el: "xTickCount s' - xTickCount s = of_nat k" using c(1) by simp
  have lt: "(of_nat k :: u32) < w \<longleftrightarrow> k < unat w" if "k \<noteq> 4294967296"
    using that assms(2) by (simp add: word_less_nat_alt unat_of_nat_u32)
  have "unat w < 4294967296" by simp
  then have "\<not> 4294967296 < unat w" by linarith
  then show ?thesis using c(2) el lt by (auto simp: xTaskCheckForTimeOut_def vTaskInternalSetTimeOutState_def Let_def)
qed

section \<open>Events\<close>

text \<open>A task that waits for an event is blocked, with or without a time limit.\<close>

definition waiters_ok :: "'a sched_scheme \<Rightarrow> bool" where
  "waiters_ok s \<longleftrightarrow> (\<forall>t l. event_in (tcbs s t) = Some l \<longrightarrow> (\<exists>m. state_in (tcbs s t) = Some m \<and> (\<forall>p. m \<noteq> Ready p)))"

definition some_ready :: "'a sched_scheme \<Rightarrow> bool" where
  "some_ready s \<longleftrightarrow> (\<exists>t p. state_in (tcbs s t) = Some (Ready p))"

text \<open>The state between kernel calls of tasks.\<close>

definition kernel_ok :: "'a sched_scheme \<Rightarrow> bool" where
  "kernel_ok s \<longleftrightarrow> sched_ok s \<and> waiters_ok s \<and> some_ready s \<and> uxSchedulerSuspended s = 0"

lemma unlink_commute:
  assumes "event_in (tcbs s t) = Some m" and "m \<noteq> l"
  shows "unstate t l (unevent t s) = unevent t (unstate t l s)"
proof -
  have c: "c\<lparr>event_in := None, state_in := None\<rparr> = c\<lparr>state_in := None, event_in := None\<rparr>" for c :: tcb by (cases c) simp
  have "(klists s)(m := A, l := B) = (klists s)(l := B, m := A)" for A B using assms(2) by (rule fun_upd_twist)
  then show ?thesis using assms by (simp add: unstate_def unevent_def put_list_def upd_tcb_def c)
qed

lemma unlink_both:
  assumes "links_ok s" and "waiters_ok s" and "event_in (tcbs s t) = Some l"
  obtains m where "state_in (tcbs s t) = Some m" "\<forall>p. m \<noteq> Ready p" "\<not> state_list l" "event_remove t s = Some (unevent t s)"
    "\<exists>n. state_remove t (unevent t s) = Some (n, unstate t m (unevent t s))" "prvAddTaskToReadyList t (unstate t m (unevent t s)) = wake t m s"
proof -
  obtain m where m: "state_in (tcbs s t) = Some m" "\<forall>p. m \<noteq> Ready p" using assms(2,3) by (auto simp: waiters_ok_def)
  have l: "\<not> state_list l" using links_okD(5) [OF assms(1,3)] .
  then have "m \<noteq> l" using links_okD(4) [OF assms(1) m(1)] by auto
  then have "unstate t m (unevent t s) = unevent t (unstate t m s)" using unlink_commute [OF assms(3)] by auto
  moreover have "state_remove t (unevent t s) = Some (length (fst (a_remove t (klists (unevent t s) m))), unstate t m (unevent t s))"
    by (rule state_remove_eq) (simp add: m(1))
  ultimately show ?thesis using that [OF m l event_remove_eq [OF assms(3)]] by (simp add: wake_def)
qed

lemma remove_event:
  assumes "links_ok s" and "waiters_ok s" and "uxSchedulerSuspended s = 0" and "fst (klists s l) = t # ts" and "\<not> state_list l"
  shows "\<exists>m. state_in (tcbs s t) = Some m \<and> (\<forall>p. m \<noteq> Ready p)
     \<and> xTaskRemoveFromEventList l s = Some (outranks s t, if outranks s t then (wake t m s)\<lparr>xYieldPending := True\<rparr> else wake t m s)"
proof -
  have ev: "event_in (tcbs s t) = Some l" using links_okD(3) [OF assms(1,5), of t] assms(4) by simp
  obtain m where m: "state_in (tcbs s t) = Some m" "\<forall>p. m \<noteq> Ready p" "event_remove t s = Some (unevent t s)"
    "\<exists>n. state_remove t (unevent t s) = Some (n, unstate t m (unevent t s))" "prvAddTaskToReadyList t (unstate t m (unevent t s)) = wake t m s"
    using unlink_both [OF assms(1,2) ev] by metis
  have o: "uxPriority (tcbs (wake t m s) u) = uxPriority (tcbs s u)" for u by (simp add: wake_tcbs)
  have "xTaskRemoveFromEventList l s = Some (outranks s t, if outranks s t then (wake t m s)\<lparr>xYieldPending := True\<rparr> else wake t m s)"
    using assms(3,4) m(3-5) by (auto simp: xTaskRemoveFromEventList_def o outranks_def)
  then show ?thesis using m by blast
qed

lemma wake_event_list:
  assumes "links_ok s" and "\<not> state_list l" and "state_in (tcbs s t) = Some m"
  shows "klists (wake t m s) l = (if event_in (tcbs s t) = Some l then a_remove t (klists s l) else klists s l)"
proof -
  have "m \<noteq> l" "Ready p \<noteq> l" for p using links_okD(4) [OF assms(1,3)] assms(2) by auto
  then show ?thesis by (auto simp: wake_def unevent_def split: option.splits)
qed

lemma wake_core:
  assumes "core_ok s" and "state_in (tcbs s t) = Some m" and "\<forall>p. m \<noteq> Ready p"
  shows "core_ok (wake t m s)"
proof -
  have ti: "tick_inv s" and tm: "times_ok s" using assms(1) by (simp_all add: core_ok_def)
  have "pxDelayedTaskList s \<noteq> Ready q" for q using ti by (auto simp: tick_inv_def delays_ok_def)
  from this [of "uxPriority (tcbs s t)"] have "times_ok (wake t m s)" using tm by (auto simp: times_ok_def wake_tcbs)
  then show ?thesis using wake_tick_inv [OF ti assms(2,3)] by (simp add: core_ok_def)
qed

lemma wake_waiters: "waiters_ok s \<Longrightarrow> waiters_ok (wake t m s)"
  by (auto simp: waiters_ok_def wake_tcbs)

lemma wake_some_ready: "some_ready (wake t m s)"
  unfolding some_ready_def by (intro exI [of _ t] exI [of _ "uxPriority (tcbs s t)"]) (simp add: wake_tcbs)

lemma wake_kernel:
  assumes "kernel_ok s" and "state_in (tcbs s t) = Some m" and "\<forall>p. m \<noteq> Ready p"
  shows "kernel_ok (wake t m s)"
proof -
  have c: "core_ok s" and p: "xPendedTicks s = 0" "fst (klists s PendingReady) = []" and w: "waiters_ok s" "uxSchedulerSuspended s = 0"
    using assms(1) by (simp_all add: kernel_ok_def sched_ok_def)
  then have "fst (klists (wake t m s) PendingReady) = []"
    using wake_event_list [of s PendingReady t m] assms(2) by (simp add: a_remove_def core_ok_def tick_inv_def)
  then show ?thesis using p w wake_core [OF c assms(2,3)] wake_waiters [OF w(1)] wake_some_ready [of t m s] by (simp add: kernel_ok_def sched_ok_def)
qed

lemma kernel_settled: "kernel_ok s \<Longrightarrow> settled s s' \<Longrightarrow> kernel_ok s'"
proof -
  assume a: "kernel_ok s" "settled s s'"
  then have "klists s' PendingReady = klists s PendingReady" by (simp add: settled_def)
  then show ?thesis using a by (auto simp: kernel_ok_def sched_ok_def settled_def waiters_ok_def some_ready_def)
qed

lemma kernel_exit:
  assumes "kernel_ok s"
  shows "\<exists>s'. taskEXIT_CRITICAL s = Some s' \<and> settled s s' \<and> kernel_ok s'"
proof -
  obtain t p where "state_in (tcbs s t) = Some (Ready p)" "core_ok s" "uxSchedulerSuspended s = 0"
    using assms by (auto simp: kernel_ok_def some_ready_def sched_ok_def)
  then show ?thesis using exit_settles [of s t p] kernel_settled [OF assms] by blast
qed

lemma kernel_flags: "kernel_ok s \<Longrightarrow> settled s (s\<lparr>xYieldPending := b\<rparr>)" "kernel_ok s \<Longrightarrow> settled s (s\<lparr>pend_sv := b\<rparr>)"
  using settled_upd [of s] by (auto simp: kernel_ok_def sched_ok_def)

section \<open>Catching up\<close>

text \<open>The tasks readied while the scheduler was suspended.\<close>

lemma ready_pending_step:
  assumes "core_ok s" and "waiters_ok s" and "fst (klists s PendingReady) = t # ts"
  shows "\<exists>m. state_in (tcbs s t) = Some m \<and> (\<forall>p. m \<noteq> Ready p) \<and> fst (klists (wake t m s) PendingReady) = ts
     \<and> ready_pending b s = ready_pending True (if outranks s t then (wake t m s)\<lparr>xYieldPending := True\<rparr> else wake t m s)"
proof -
  have lk: "links_ok s" using assms(1) by (simp add: core_ok_def tick_inv_def)
  have ev: "event_in (tcbs s t) = Some PendingReady" using links_okD(3) [OF lk, of PendingReady t] assms(3) by simp
  obtain m n where m: "state_in (tcbs s t) = Some m" "\<forall>p. m \<noteq> Ready p" "event_remove t s = Some (unevent t s)"
    "state_remove t (unevent t s) = Some (n, unstate t m (unevent t s))" "prvAddTaskToReadyList t (unstate t m (unevent t s)) = wake t m s"
    using unlink_both [OF lk assms(2) ev] by metis
  have o: "uxPriority (tcbs (wake t m s) u) = uxPriority (tcbs s u)" for u by (simp add: wake_tcbs)
  have "ready_pending b s = ready_pending True (if outranks s t then (wake t m s)\<lparr>xYieldPending := True\<rparr> else wake t m s)"
    by (subst ready_pending.simps) (simp only: assms(3) list.case m(3,4) Option.bind.bind_lunit prod.case Let_def m(5) o wake_same outranks_def)
  moreover have "fst (klists (wake t m s) PendingReady) = ts" using wake_event_list [OF lk _ m(1), of PendingReady] ev assms(3) by (simp add: a_remove_def)
  ultimately show ?thesis using m by blast
qed

definition caught_up :: "'a sched_scheme \<Rightarrow> 'a sched_scheme \<Rightarrow> bool" where
  "caught_up s s' \<longleftrightarrow> core_ok s' \<and> waiters_ok s' \<and> tcbs s' = (\<lambda>t. if event_in (tcbs s t) = Some PendingReady then readied (tcbs s t) else tcbs s t)
     \<and> uxSchedulerSuspended s' = uxSchedulerSuspended s \<and> xPendedTicks s' = xPendedTicks s"

lemma ready_pending_spec:
  assumes "core_ok s" and "waiters_ok s"
  shows "\<exists>b' s'. ready_pending b s = Some (b', s') \<and> caught_up s s'"
  using assms
proof (induction "fst (klists s PendingReady)" arbitrary: s b)
  case Nil
  have "event_in (tcbs s t) \<noteq> Some PendingReady" for t using links_okD(3) [of s PendingReady t] Nil by (simp add: core_ok_def tick_inv_def)
  moreover have "ready_pending b s = Some (b, s)" by (subst ready_pending.simps) (simp add: Nil.hyps [symmetric])
  ultimately show ?case using Nil by (simp add: caught_up_def)
next
  case (Cons t ts)
  obtain m where m: "state_in (tcbs s t) = Some m" "\<forall>p. m \<noteq> Ready p" "fst (klists (wake t m s) PendingReady) = ts"
    "ready_pending b s = ready_pending True (if outranks s t then (wake t m s)\<lparr>xYieldPending := True\<rparr> else wake t m s)"
    using ready_pending_step [OF Cons.prems Cons.hyps(2) [symmetric]] by blast
  let ?u = "if outranks s t then (wake t m s)\<lparr>xYieldPending := True\<rparr> else wake t m s"
  have "settled (wake t m s) ?u" using settled_upd [OF wake_core [OF Cons.prems(1) m(1,2)]] by auto
  then have u: "core_ok ?u" "tcbs ?u = tcbs (wake t m s)" "uxSchedulerSuspended ?u = uxSchedulerSuspended s" "xPendedTicks ?u = xPendedTicks s" by (auto simp: settled_def)
  have wu: "waiters_ok ?u" using wake_waiters [OF Cons.prems(2)] u(2) by (simp add: waiters_ok_def)
  have hu: "ts = fst (klists ?u PendingReady)" using m(3) by simp
  from Cons.hyps(1) [OF hu u(1) wu] obtain b' s' where s': "ready_pending True ?u = Some (b', s')" "caught_up ?u s'" by blast
  have ev: "event_in (tcbs s t) = Some PendingReady"
    using links_okD(3) [of s PendingReady t] Cons.prems(1) Cons.hyps(2) [symmetric] by (simp add: core_ok_def tick_inv_def)
  have "caught_up s s'" using s'(2) ev unfolding caught_up_def u by (auto simp: wake_tcbs fun_eq_iff)
  then show ?case using m(4) s'(1) by auto
qed

lemma reset_core: "core_ok s \<Longrightarrow> core_ok (prvResetNextTaskUnblockTime s)"
proof -
  assume c: "core_ok s"
  then have "tick_inv (prvResetNextTaskUnblockTime s)" using tick_inv_cong [of s "prvResetNextTaskUnblockTime s"] by (simp add: core_ok_def)
  moreover have "times_ok (prvResetNextTaskUnblockTime s)" using c reset_time [of s] by (auto simp: core_ok_def times_ok_def)
  ultimately show ?thesis by (simp add: core_ok_def)
qed

text \<open>Resuming the scheduler: pended tasks are ready, pended ticks are made up for.\<close>

lemma catch_up_ticks:
  assumes "core_ok s" and "waiters_ok s" and "some_ready s" and "uxSchedulerSuspended s = 0" and "\<forall>t. event_in (tcbs s t) \<noteq> Some PendingReady" and "n = unat (xPendedTicks s)"
  shows "\<exists>s'. pended_ticks n s = Some s' \<and> kernel_ok (if xPendedTicks s > 0 then s'\<lparr>xPendedTicks := 0\<rparr> else s') \<and> (\<forall>t. blocked_for s t = None \<longrightarrow> tcbs s' t = tcbs s t)"
proof -
  obtain s' where s': "pended_ticks n s = Some s'" "core_ok s'" "\<forall>t. after_ticks n s s' t" "uxSchedulerSuspended s' = 0" using pended_ticks_spec [OF assms(1,4)] by blast
  let ?s = "if xPendedTicks s > 0 then s'\<lparr>xPendedTicks := 0\<rparr> else s'"
  have tc: "tcbs s' t = tcbs s t \<or> tcbs s' t = readied (tcbs s t)" for t using s'(3) [THEN spec, of t] by (auto simp: after_ticks_def split: option.splits if_splits)
  have "waiters_ok ?s" unfolding waiters_ok_def using tc assms(2) by (auto simp: waiters_ok_def) (metis option.distinct(1) readied_sel(2))+
  moreover have "some_ready ?s" using assms(3) tc by (auto simp: some_ready_def) (metis readied_sel(1))+
  moreover have "core_ok ?s" by (rule core_ok_cong [OF s'(2)]) simp_all
  moreover have "xPendedTicks ?s = 0" using s'(1) assms(6) by (auto simp: word_gt_0)
  moreover have "fst (klists ?s PendingReady) = []"
  proof -
    have "event_in (tcbs s' t) \<noteq> Some PendingReady" for t using tc [of t] assms(5) by auto
    then have "t \<notin> set (fst (klists s' PendingReady))" for t using links_okD(3) [of s' PendingReady t] s'(2) by (simp add: core_ok_def tick_inv_def)
    then show ?thesis by (cases "fst (klists s' PendingReady)") auto
  qed
  ultimately have "kernel_ok ?s" using s'(4) by (simp add: kernel_ok_def sched_ok_def)
  moreover have "tcbs s' t = tcbs s t" if "blocked_for s t = None" for t using s'(3) [THEN spec, of t] that by (simp add: after_ticks_def)
  ultimately show ?thesis using s'(1) by blast
qed

lemma resume_spec:
  assumes "core_ok s" and "waiters_ok s" and "some_ready s" and "uxSchedulerSuspended s = 1" and "uxCurrentNumberOfTasks s > 0"
  shows "\<exists>b s'. xTaskResumeAll s = Some (b, s') \<and> kernel_ok s' \<and> (\<forall>t. event_in (tcbs s t) = Some PendingReady \<longrightarrow> tcbs s' t = readied (tcbs s t))"
proof -
  let ?s = "s\<lparr>uxSchedulerSuspended := 0\<rparr>"
  have c: "core_ok ?s" by (rule core_ok_cong [OF assms(1)]) simp_all
  have w: "waiters_ok ?s" using assms(2) by (simp add: waiters_ok_def)
  obtain moved s2 where s2: "ready_pending False ?s = Some (moved, s2)" "caught_up ?s s2" using ready_pending_spec [OF c w] by blast
  let ?s3 = "if moved then prvResetNextTaskUnblockTime s2 else s2"
  have tc: "tcbs ?s3 = (\<lambda>t. if event_in (tcbs s t) = Some PendingReady then readied (tcbs s t) else tcbs s t)" using s2(2) by (auto simp: caught_up_def fun_eq_iff)
  have cu: "core_ok s2" "waiters_ok s2" "uxSchedulerSuspended s2 = 0" "xPendedTicks s2 = xPendedTicks s" using s2(2) by (simp_all add: caught_up_def)
  have s3: "core_ok ?s3" "uxSchedulerSuspended ?s3 = 0" "xPendedTicks ?s3 = xPendedTicks s" "waiters_ok ?s3" using cu reset_core [OF cu(1)] by (simp_all add: waiters_ok_def)
  have "some_ready ?s3" using assms(3) unfolding some_ready_def tc by (metis readied_sel(1))
  moreover have "\<forall>t. event_in (tcbs ?s3 t) \<noteq> Some PendingReady" unfolding tc by simp
  ultimately obtain s4 where s4: "pended_ticks (unat (xPendedTicks ?s3)) ?s3 = Some s4" "kernel_ok (if xPendedTicks ?s3 > 0 then s4\<lparr>xPendedTicks := 0\<rparr> else s4)"
    "\<forall>t. blocked_for ?s3 t = None \<longrightarrow> tcbs s4 t = tcbs ?s3 t" using catch_up_ticks [OF s3(1,4) _ s3(2)] by blast
  let ?s5 = "if xPendedTicks ?s3 > 0 then s4\<lparr>xPendedTicks := 0\<rparr> else s4"
  have k: "kernel_ok (if xYieldPending ?s5 then portYIELD ?s5 else ?s5)"
    using s4(2) kernel_settled [OF s4(2) kernel_flags(2) [OF s4(2), of True]] by (simp add: portYIELD_def)
  from kernel_exit [OF this] obtain s6 where s6: "taskEXIT_CRITICAL (if xYieldPending ?s5 then portYIELD ?s5 else ?s5) = Some s6"
    "settled (if xYieldPending ?s5 then portYIELD ?s5 else ?s5) s6" "kernel_ok s6" by blast
  have "tcbs s6 = tcbs s4" using s6(2) by (auto simp: settled_def portYIELD_def)
  then have "tcbs s6 t = readied (tcbs s t)" if "event_in (tcbs s t) = Some PendingReady" for t
    using s4(3) [THEN spec, of t] blocked_for_readied [OF s3(1), of t "tcbs s t"] that tc by simp
  moreover have "xTaskResumeAll s = Some (xYieldPending ?s5, s6)"
    using assms(4,5) s2(1) s4(1) s6(1) unfolding xTaskResumeAll_def Let_def by (cases "xYieldPending ?s5") simp_all
  ultimately show ?thesis using s6(3) by blast
qed

section \<open>Properties\<close>


text \<open>
  A sample system one tick before the counter overflows: the idle task 0 runs, task 1 of
  priority 2 sleeps until the counter is 0 again, task 2 of priority 1 is ready.
\<close>

definition sample_tcb :: "nat \<Rightarrow> u32 \<Rightarrow> list_id option \<Rightarrow> tcb" where
  "sample_tcb p v l = \<lparr>uxPriority = p, uxBasePriority = p, uxMutexesHeld = 0, state_value = v, event_value = of_nat (5 - p), state_in = l, event_in = None\<rparr>"

definition sample_with :: "'a \<Rightarrow> 'a sched_scheme" where
  "sample_with m =
     \<lparr>tcbs = (\<lambda>t. if t = 0 then sample_tcb 0 0 (Some (Ready 0)) else if t = 1 then sample_tcb 2 0 (Some (Delayed 1))
         else if t = 2 then sample_tcb 1 0 (Some (Ready 1)) else sample_tcb 0 0 None),
      klists = (\<lambda>l. if l = Ready 0 then ([0], Some 0) else if l = Delayed 1 then ([1], None) else if l = Ready 1 then ([2], None) else ([], None)),
      pxCurrentTCB = 2, pxDelayedTaskList = Delayed 0, pxOverflowDelayedTaskList = Delayed 1, xTickCount = 0xFFFFFFFF, xNumOfOverflows = 0,
      xNextTaskUnblockTime = 0xFFFFFFFF, uxTopReadyPriority = mask 2, uxSchedulerSuspended = 0, xPendedTicks = 0, xYieldPending = False,
      uxCurrentNumberOfTasks = 3, pend_sv = False, \<dots> = m\<rparr>"

abbreviation sample_sched :: sched where "sample_sched \<equiv> sample_with ()"

lemma sample_sel:
  "uxSchedulerSuspended (sample_with m) = 0" "pxCurrentTCB (sample_with m) = 2" "uxCurrentNumberOfTasks (sample_with m) = 3" "xTickCount (sample_with m) = 0xFFFFFFFF"
  "tcbs (sample_with m) 0 = sample_tcb 0 0 (Some (Ready 0))" "tcbs (sample_with m) 1 = sample_tcb 2 0 (Some (Delayed 1))"
  "tcbs (sample_with m) 2 = sample_tcb 1 0 (Some (Ready 1))"
  by (simp_all add: sample_with_def)

lemma sample_sched_ok: "sched_ok (sample_with m)"
proof -
  have "links_ok (sample_with m)" by (auto simp: links_ok_def sample_with_def sample_tcb_def alist_ok_def)
  moreover have "ready_ok (sample_with m)" by (auto simp: ready_ok_def sample_with_def sample_tcb_def configMAX_PRIORITIES_def bit_mask_iff)
  moreover have "delays_ok (sample_with m)" by (auto simp: delays_ok_def sample_with_def sample_tcb_def split: if_splits)
  moreover have "times_ok (sample_with m)" by (auto simp: times_ok_def sample_with_def sample_tcb_def)
  ultimately show ?thesis by (simp add: sched_ok_def core_ok_def tick_inv_def) (simp add: sample_with_def)
qed


text \<open>
  C22. Delays: when the running task calls \<open>vTaskDelay\<close> with a positive number of ticks and
  another task is ready, the call hands the processor to a ready task of the highest
  priority, leaves every other task as it was, and the caller is blocked for exactly that
  many ticks: after fewer ticks it is still blocked with the rest left, after that many it
  is ready, whether or not the tick counter overflows in between.
\<close>

theorem vTaskDelay_exact:
  assumes "sched_ok s" and "uxSchedulerSuspended s = 0" and "uxCurrentNumberOfTasks s > 0" and "state_in (tcbs s (pxCurrentTCB s)) = Some (Ready p)"
    and "u \<noteq> pxCurrentTCB s" and "state_in (tcbs s u) = Some (Ready q)" and "w > 0"
  shows "\<exists>s'. vTaskDelay w s = Some s' \<and> sched_ok s' \<and> runs_highest s' \<and> (\<forall>t. t \<noteq> pxCurrentTCB s \<longrightarrow> tcbs s' t = tcbs s t)
     \<and> (\<forall>n. \<exists>s''. pended_ticks n s' = Some s'' \<and> core_ok s''
           \<and> (if n < unat w then blocked_for s'' (pxCurrentTCB s) = Some (unat w - n)
              else state_in (tcbs s'' (pxCurrentTCB s)) = Some (Ready (uxPriority (tcbs s (pxCurrentTCB s))))))"
proof -
  let ?t = "pxCurrentTCB s"
  obtain s' where s': "vTaskDelay w s = Some s'" "sched_ok s'" "runs_highest s'" "uxSchedulerSuspended s' = 0" "blocked_for s' ?t = Some (unat w)"
    "\<forall>t. t \<noteq> ?t \<longrightarrow> tcbs s' t = tcbs s t" "uxPriority (tcbs s' ?t) = uxPriority (tcbs s ?t)"
    using delay_spec [OF assms] by blast
  have "\<exists>s''. pended_ticks n s' = Some s'' \<and> core_ok s'' \<and> after_ticks n s' s'' ?t" for n
    using pended_ticks_spec [of s' n] s'(2,4) by (auto simp: sched_ok_def)
  then show ?thesis using s' by (fastforce simp: after_ticks_def)
qed

theorem vTaskDelay_exact_witness:
  "\<exists>s'. vTaskDelay 5 sample_sched = Some s' \<and> (\<exists>s''. pended_ticks 4 s' = Some s'' \<and> blocked_for s'' 2 = Some 1)
     \<and> (\<exists>s''. pended_ticks 5 s' = Some s'' \<and> state_in (tcbs s'' 2) = Some (Ready 1))"
proof -
  have h: "0 < uxCurrentNumberOfTasks sample_sched" "state_in (tcbs sample_sched (pxCurrentTCB sample_sched)) = Some (Ready 1)"
    "0 \<noteq> pxCurrentTCB sample_sched" "state_in (tcbs sample_sched 0) = Some (Ready 0)" "0 < (5 :: u32)"
    by (simp_all add: sample_sel sample_tcb_def)
  obtain s' where s': "vTaskDelay 5 sample_sched = Some s'" "\<forall>n. \<exists>s''. pended_ticks n s' = Some s'' \<and> core_ok s''
           \<and> (if n < unat (5 :: u32) then blocked_for s'' (pxCurrentTCB sample_sched) = Some (unat (5 :: u32) - n)
              else state_in (tcbs s'' (pxCurrentTCB sample_sched)) = Some (Ready (uxPriority (tcbs sample_sched (pxCurrentTCB sample_sched)))))"
    using vTaskDelay_exact [OF sample_sched_ok [of "()"] sample_sel(1) h] by blast
  then show ?thesis using s'(2) [THEN spec, of 4] s'(2) [THEN spec, of 5] by (auto simp: sample_sel sample_tcb_def)
qed

text \<open>
  C23. Timeouts: a timeout started at some moment and checked after up to \<open>2 ^ 32\<close> ticks
  reports expiry exactly when at least the given number of ticks has passed, also when the
  tick counter has overflowed; otherwise it restarts the measurement with the ticks that are
  left. A wait of \<open>portMAX_DELAY\<close> ticks never expires.
\<close>

theorem xTaskCheckForTimeOut_exact:
  assumes "sched_ok s" and "uxSchedulerSuspended s = 0" and "k \<le> 2 ^ 32"
  shows "\<exists>s'. pended_ticks k s = Some s' \<and> xTaskCheckForTimeOut (vTaskInternalSetTimeOutState s) w s' =
     (if w = portMAX_DELAY then (False, vTaskInternalSetTimeOutState s, w)
      else if k < unat w then (False, vTaskInternalSetTimeOutState s', w - of_nat k) else (True, vTaskInternalSetTimeOutState s, 0))"
proof -
  obtain s' where "pended_ticks k s = Some s'" "ticks_of s' = (ticks_of s + k) mod 18446744073709551616"
    using pended_ticks_spec [of s k] assms(1,2) by (auto simp: sched_ok_def)
  then show ?thesis using timeout_spec [of s' s k w] assms(3) by auto
qed

theorem xTaskCheckForTimeOut_exact_witness:
  "\<exists>s'. pended_ticks 3 sample_sched = Some s' \<and> fst (xTaskCheckForTimeOut (vTaskInternalSetTimeOutState sample_sched) 3 s')"
  using xTaskCheckForTimeOut_exact [OF sample_sched_ok [of "()"] sample_sel(1), of 3 3] by (auto simp: portMAX_DELAY_def)

end
