(* ===== verification/Rtos_Queue_Proofs.thy ===== *)
theory Rtos_Queue_Proofs
  imports Rtos_Queue Rtos_Tasks_Proofs
begin

text \<open>
  Correctness of the queues. An interface of a bounded buffer says what storing and fetching
  items does to a sequence; the ring buffer of the code provides it. With the scheduler's
  invariant this gives that any sequence of calls of tasks and interrupts on a queue behaves
  like a bounded sequence, and that no task waiting on a locked queue is forgotten.
\<close>

section \<open>Bounded buffers\<close>

datatype 'i buf_op = Put position 'i | Get | Look

text \<open>The abstract buffer of capacity \<open>n\<close>: its contents after an operation, and the result.\<close>

fun buf_step :: "nat \<Rightarrow> 'i buf_op \<Rightarrow> 'i list \<Rightarrow> ('i option \<times> bool) \<times> 'i list" where
  "buf_step n (Put SEND_TO_BACK x) xs = (if length xs < n then ((None, True), xs @ [x]) else ((None, False), xs))"
| "buf_step n (Put SEND_TO_FRONT x) xs = (if length xs < n then ((None, True), x # xs) else ((None, False), xs))"
| "buf_step n (Put OVERWRITE x) xs = ((None, True), [x])"
| "buf_step n Get xs = (case xs of [] \<Rightarrow> ((None, False), []) | y # ys \<Rightarrow> ((Some y, True), ys))"
| "buf_step n Look xs = (case xs of [] \<Rightarrow> ((None, False), []) | y # ys \<Rightarrow> ((Some y, True), xs))"

fun op_fits :: "nat \<Rightarrow> 'i buf_op \<Rightarrow> bool" where
  "op_fits n (Put OVERWRITE x) \<longleftrightarrow> n = 1"
| "op_fits n _ \<longleftrightarrow> True"

lemma buf_step_bound: "length xs \<le> n \<Longrightarrow> 0 < n \<Longrightarrow> length (snd (buf_step n opr xs)) \<le> n"
  by (cases "(n, opr, xs)" rule: buf_step.cases) (auto split: list.splits)

section \<open>The ring buffer\<close>

text \<open>The item in a slot, and the sequence of items a queue holds.\<close>

definition slot :: "queue \<Rightarrow> nat \<Rightarrow> u8 list" where
  "slot Q i = take (unat (uxItemSize Q)) (drop (i * unat (uxItemSize Q)) (storage Q))"

definition ring_at :: "nat \<Rightarrow> queue \<Rightarrow> u8 list list \<Rightarrow> bool" where
  "ring_at i Q xs \<longleftrightarrow>
     (let n = unat (uxLength Q); z = unat (uxItemSize Q) in
      0 < z \<and> i < n \<and> n * z < 2 ^ 32 \<and> length (storage Q) = n * z \<and> pcTail Q = int (n * z)
      \<and> pcReadFrom Q = int (i * z) \<and> pcWriteTo Q = int ((i + 1 + length xs) mod n * z)
      \<and> length xs \<le> n \<and> uxMessagesWaiting Q = of_nat (length xs) \<and> (\<forall>k<length xs. slot Q ((i + 1 + k) mod n) = xs ! k)
      \<and> \<not> uxQueueType_mutex Q)"

definition q_holds :: "queue \<Rightarrow> u8 list list \<Rightarrow> bool" where
  "q_holds Q xs \<longleftrightarrow> (\<exists>i. ring_at i Q xs)"

lemma slot_same: "uxItemSize Q' = uxItemSize Q \<Longrightarrow> storage Q' = storage Q \<Longrightarrow> slot Q' i = slot Q i"
  by (simp add: slot_def)

lemma length_write_at: "nat a + length bs \<le> length m \<Longrightarrow> length (write_at a bs m) = length m"
  by (simp add: write_at_def)

lemma write_slot:
  assumes "length item = z" and "j < n" and "k < n" and "length m = n * z"
  shows "take z (drop (k * z) (write_at (int (j * z)) item m)) = (if k = j then item else take z (drop (k * z) m))"
proof -
  have jz: "j * z + z \<le> n * z" using assms(2) by (metis Suc_leI add.commute mult_Suc mult_le_mono1)
  have w: "write_at (int (j * z)) item m = take (j * z) m @ item @ drop (j * z + z) m" by (simp only: write_at_def nat_int assms(1))
  consider "k = j" | "k < j" | "j < k" by linarith
  then show ?thesis
  proof cases
    case 1
    then show ?thesis unfolding w using assms jz by simp
  next
    case 2
    then have "k * z + z \<le> j * z" by (metis Suc_leI add.commute mult_Suc mult_le_mono1)
    then show ?thesis unfolding w using 2 assms jz by (simp add: min_def take_drop)
  next
    case 3
    then have "j * z + z \<le> k * z" by (metis Suc_leI add.commute mult_Suc mult_le_mono1)
    then show ?thesis unfolding w using 3 assms jz by (auto simp: min_def)
  qed
qed

lemma slot_write:
  assumes "storage Q' = write_at (int (j * z)) item (storage Q)" and "uxItemSize Q' = uxItemSize Q" and "z = unat (uxItemSize Q)"
    and "length item = z" and "j < n" and "length (storage Q) = n * z" and "k < n"
  shows "slot Q' k = (if k = j then item else slot Q k)"
  unfolding slot_def assms(1,2) assms(3) [symmetric] by (rule write_slot [OF assms(4,5,7,6)])

text \<open>Storing and fetching as the calls do it, with the count of items.\<close>

definition put_item :: "position \<Rightarrow> u8 list \<Rightarrow> queue \<Rightarrow> queue" where
  "put_item pos item Q = (copy_to item pos Q)\<lparr>uxMessagesWaiting :=
     (if pos = OVERWRITE \<and> uxMessagesWaiting Q > 0 then uxMessagesWaiting Q - 1 else uxMessagesWaiting Q) + 1\<rparr>"

definition get_item :: "queue \<Rightarrow> u8 list \<times> queue" where
  "get_item Q = (let (bs, Q1) = prvCopyDataFromQueue Q in (bs, Q1\<lparr>uxMessagesWaiting := uxMessagesWaiting Q - 1\<rparr>))"

lemma moved_pointers:
  "pcWriteTo (put_item SEND_TO_BACK item Q) =
     (if pcWriteTo Q + int (unat (uxItemSize Q)) \<ge> pcTail Q then 0 else pcWriteTo Q + int (unat (uxItemSize Q)))"
  "pos \<noteq> SEND_TO_BACK \<Longrightarrow> pcReadFrom (put_item pos item Q) =
     (if pcReadFrom Q - int (unat (uxItemSize Q)) < 0 then pcTail Q - int (unat (uxItemSize Q)) else pcReadFrom Q - int (unat (uxItemSize Q)))"
  by (simp_all add: put_item_def copy_to_def Let_def)

lemma next_slot:
  assumes "i < (n :: nat)" and "0 < z"
  shows "(if int (i * z) + int z \<ge> int (n * z) then 0 else int (i * z) + int z) = int ((i + 1) mod n * z)"
proof (cases "i + 1 = n")
  case True
  then have "int (i * z) + int z = int (n * z)" by (auto simp: algebra_simps)
  then show ?thesis using True by simp
next
  case False
  then have l: "i + 1 < n" using assms by linarith
  have "i * z + z < n * z" using mult_less_mono1 [OF l assms(2)] by (simp only: add_mult_distrib mult_1)
  then have "\<not> int (i * z) + int z \<ge> int (n * z)" by linarith
  then show ?thesis using l by (simp add: algebra_simps)
qed

lemma prev_slot:
  assumes "i < (n :: nat)" and "0 < z"
  shows "(if int (i * z) - int z < 0 then int (n * z) - int z else int (i * z) - int z) = int ((i + n - 1) mod n * z)"
proof (cases i)
  case 0
  have "int (n * z) - int z = int ((n - 1) * z)" using assms(1) by (cases n) simp_all
  moreover have "(0 + n - 1) mod n = n - 1" using assms(1) by simp
  ultimately show ?thesis using 0 assms(2) by simp
next
  case (Suc j)
  then have "(i + n - 1) mod n = j" using assms(1) by simp
  moreover have "\<not> int j * int z < 0" by (simp add: not_less)
  ultimately show ?thesis using Suc by simp
qed

lemma mod_slots_distinct: "(a + k) mod n = (a + l) mod n \<Longrightarrow> k < n \<Longrightarrow> l < n \<Longrightarrow> k = (l :: nat)"
proof (induction k l rule: linorder_wlog)
  case (le k l)
  then have "n dvd l - k" using mod_eq_dvd_iff_nat [of "a + k" "a + l" n] by simp
  moreover have "l - k < n" using le by linarith
  ultimately show ?case using le(1) nat_dvd_not_less [of "l - k" n] by (cases "k < l") auto
qed simp

lemma ring_put_back:
  assumes "ring_at i Q xs" and "length xs < unat (uxLength Q)" and "length item = unat (uxItemSize Q)"
  shows "ring_at i (put_item SEND_TO_BACK item Q) (xs @ [item])"
proof -
  let ?n = "unat (uxLength Q)" and ?z = "unat (uxItemSize Q)" and ?Q = "put_item SEND_TO_BACK item Q" and ?j = "(i + 1 + length xs) mod unat (uxLength Q)"
  have r: "0 < ?z" "i < ?n" "length (storage Q) = ?n * ?z" "pcTail Q = int (?n * ?z)" "pcWriteTo Q = int (?j * ?z)" "uxMessagesWaiting Q = of_nat (length xs)"
    and sl: "\<forall>k<length xs. slot Q ((i + 1 + k) mod ?n) = xs ! k" using assms(1) by (simp_all add: ring_at_def Let_def)
  have j: "?j < ?n" using r(2) by simp
  have jz: "?j * ?z + ?z \<le> ?n * ?z" using j by (metis Suc_leI add.commute mult_Suc mult_le_mono1)
  have st: "storage ?Q = write_at (int (?j * ?z)) item (storage Q)" "uxItemSize ?Q = uxItemSize Q" "uxLength ?Q = uxLength Q" "pcTail ?Q = pcTail Q"
    "pcReadFrom ?Q = pcReadFrom Q" "uxMessagesWaiting ?Q = uxMessagesWaiting Q + 1" "uxQueueType_mutex ?Q = uxQueueType_mutex Q"
    by (simp_all add: put_item_def copy_to_def Let_def r(5) del: of_nat_mult)
  have wr: "pcWriteTo ?Q = int ((i + 1 + length (xs @ [item])) mod ?n * ?z)"
    unfolding moved_pointers r(4,5) next_slot [OF j r(1)] by (simp add: mod_simps)
  have "slot ?Q ((i + 1 + k) mod ?n) = (xs @ [item]) ! k" if "k < length (xs @ [item])" for k
  proof -
    have "slot ?Q ((i + 1 + k) mod ?n) = (if (i + 1 + k) mod ?n = ?j then item else slot Q ((i + 1 + k) mod ?n))"
      by (rule slot_write [OF st(1,2) refl assms(3) j r(3)]) (use r(2) in simp)
    moreover have "(i + 1 + k) mod ?n = ?j \<longleftrightarrow> k = length xs" using mod_slots_distinct [of "i + 1" k ?n "length xs"] that assms(2) by auto
    ultimately show ?thesis using sl that by (auto simp: nth_append)
  qed
  moreover have "length (storage ?Q) = ?n * ?z" unfolding st(1) using length_write_at [of "int (?j * ?z)" item "storage Q"] jz assms(3) r(3) by (simp del: of_nat_mult)
  ultimately show ?thesis using assms wr st r by (simp add: ring_at_def Let_def del: of_nat_mult)
qed

lemma ring_put_front:
  assumes "ring_at i Q xs" and "length xs < unat (uxLength Q)" and "length item = unat (uxItemSize Q)"
  shows "ring_at ((i + unat (uxLength Q) - 1) mod unat (uxLength Q)) (put_item SEND_TO_FRONT item Q) (item # xs)"
proof -
  let ?n = "unat (uxLength Q)" and ?z = "unat (uxItemSize Q)" and ?Q = "put_item SEND_TO_FRONT item Q" and ?j = "(i + unat (uxLength Q) - 1) mod unat (uxLength Q)"
  have r: "0 < ?z" "i < ?n" "length (storage Q) = ?n * ?z" "pcTail Q = int (?n * ?z)" "pcReadFrom Q = int (i * ?z)" "uxMessagesWaiting Q = of_nat (length xs)"
    and sl: "\<forall>k<length xs. slot Q ((i + 1 + k) mod ?n) = xs ! k" using assms(1) by (simp_all add: ring_at_def Let_def)
  have iz: "i * ?z + ?z \<le> ?n * ?z" using r(2) by (metis Suc_leI add.commute mult_Suc mult_le_mono1)
  have st: "storage ?Q = write_at (int (i * ?z)) item (storage Q)" "uxItemSize ?Q = uxItemSize Q" "uxLength ?Q = uxLength Q" "pcTail ?Q = pcTail Q"
    "pcWriteTo ?Q = pcWriteTo Q" "uxMessagesWaiting ?Q = uxMessagesWaiting Q + 1" "uxQueueType_mutex ?Q = uxQueueType_mutex Q"
    by (simp_all add: put_item_def copy_to_def Let_def r(5) del: of_nat_mult)
  have rd: "pcReadFrom ?Q = int (?j * ?z)"
    unfolding moved_pointers(2) [of SEND_TO_FRONT, OF position.distinct(2)] r(4,5) prev_slot [OF r(2,1)] ..
  have bk: "(?j + (1 + m)) mod ?n = (i + m) mod ?n" for m
  proof -
    have "(?j + (1 + m)) mod ?n = (i + ?n - 1 + (1 + m)) mod ?n" by (rule mod_add_left_eq)
    also have "\<dots> = (i + m + ?n) mod ?n" using r(2) by (intro arg_cong [of _ _ "\<lambda>x. x mod ?n"]) simp
    finally show ?thesis by simp
  qed
  have "slot ?Q ((?j + 1 + k) mod ?n) = (item # xs) ! k" if "k < length (item # xs)" for k
  proof -
    have e: "(?j + 1 + k) mod ?n = (i + k) mod ?n" using bk [of k] by (simp add: add.assoc)
    have "slot ?Q ((i + k) mod ?n) = (if (i + k) mod ?n = i then item else slot Q ((i + k) mod ?n))"
      by (rule slot_write [OF st(1,2) refl assms(3) r(2,3)]) (use r(2) in simp)
    moreover have "(i + k) mod ?n = i \<longleftrightarrow> k = 0" using mod_slots_distinct [of i k ?n 0] that assms(2) r(2) by auto
    moreover have "slot Q ((i + Suc l) mod ?n) = xs ! l" if "l < length xs" for l using sl that by simp
    ultimately show ?thesis unfolding e using that by (cases k) auto
  qed
  moreover have "length (storage ?Q) = ?n * ?z" unfolding st(1) using length_write_at [of "int (i * ?z)" item "storage Q"] iz assms(3) r(3) by (simp del: of_nat_mult)
  moreover have "(?j + 1 + length (item # xs)) mod ?n = (i + 1 + length xs) mod ?n" using bk [of "1 + length xs"] by (simp add: add.assoc)
  moreover have "?j < ?n" using r(2) by simp
  ultimately show ?thesis using assms rd st r by (simp add: ring_at_def Let_def del: of_nat_mult)
qed

lemma ring_overwrite:
  assumes "ring_at i Q xs" and "unat (uxLength Q) = 1" and "length item = unat (uxItemSize Q)"
  shows "ring_at 0 (put_item OVERWRITE item Q) [item]"
proof -
  have r: "0 < unat (uxItemSize Q)" "i = 0" "length (storage Q) = unat (uxItemSize Q)" "length xs \<le> 1" "uxMessagesWaiting Q = of_nat (length xs)"
    using assms(1,2) by (auto simp: ring_at_def Let_def)
  have "uxMessagesWaiting (put_item OVERWRITE item Q) = 1" using r(4,5) by (cases xs) (auto simp: put_item_def)
  moreover have "storage (put_item OVERWRITE item Q) = item" "pcReadFrom (put_item OVERWRITE item Q) = 0"
    using assms r prev_slot [of 0 1 "unat (uxItemSize Q)"] moved_pointers(2) [of OVERWRITE item Q]
    by (auto simp: put_item_def copy_to_def write_at_def ring_at_def Let_def)
  moreover have "slot (put_item OVERWRITE item Q) 0 = item"
    using assms(3) calculation(2) by (simp add: slot_def) (simp add: put_item_def copy_to_def Let_def)
  moreover have "uxItemSize (put_item OVERWRITE item Q) = uxItemSize Q" "uxLength (put_item OVERWRITE item Q) = uxLength Q" "pcTail (put_item OVERWRITE item Q) = pcTail Q"
    "pcWriteTo (put_item OVERWRITE item Q) = pcWriteTo Q" "uxQueueType_mutex (put_item OVERWRITE item Q) = uxQueueType_mutex Q"
    by (simp_all add: put_item_def copy_to_def Let_def)
  moreover have "pcTail Q = int (1 * unat (uxItemSize Q))" "pcWriteTo Q = 0" "\<not> uxQueueType_mutex Q" using assms(1,2) by (simp_all add: ring_at_def Let_def)
  ultimately show ?thesis unfolding ring_at_def Let_def using assms(2,3) r by simp
qed

lemma ring_get:
  assumes "ring_at i Q (y # ys)"
  shows "fst (get_item Q) = y" and "ring_at ((i + 1) mod unat (uxLength Q)) (snd (get_item Q)) ys" and "fst (prvCopyDataFromQueue Q) = y"
proof -
  let ?n = "unat (uxLength Q)" and ?z = "unat (uxItemSize Q)" and ?j = "(i + 1) mod unat (uxLength Q)"
  have r: "0 < ?z" "i < ?n" "pcTail Q = int (?n * ?z)" "pcReadFrom Q = int (i * ?z)" "uxMessagesWaiting Q = of_nat (length (y # ys))"
    and sl: "\<forall>k<length (y # ys). slot Q ((i + 1 + k) mod ?n) = (y # ys) ! k" using assms by (simp_all add: ring_at_def Let_def)
  have z: "uxItemSize Q \<noteq> 0" using r(1) by auto
  have c: "prvCopyDataFromQueue Q = (slot Q ?j, Q\<lparr>pcReadFrom := int (?j * ?z)\<rparr>)"
    unfolding prvCopyDataFromQueue_def Let_def r(3,4) next_slot [OF r(2,1)] nat_int if_P [OF z] slot_def ..
  have y: "slot Q ?j = y" using sl [THEN spec, of 0] by simp
  show "fst (get_item Q) = y" "fst (prvCopyDataFromQueue Q) = y" using y by (simp_all add: get_item_def c)
  let ?Q = "Q\<lparr>pcReadFrom := int (?j * ?z), uxMessagesWaiting := uxMessagesWaiting Q - 1\<rparr>"
  have nx: "(?j + 1 + k) mod ?n = (i + 1 + Suc k) mod ?n" for k using mod_add_left_eq [of "i + 1" ?n "1 + k"] by (simp add: add.assoc)
  have "slot ?Q ((?j + 1 + k) mod ?n) = ys ! k" if "k < length ys" for k
    using sl [THEN spec, of "Suc k"] that slot_same [of ?Q Q] unfolding nx by simp
  moreover have "(?j + 1 + length ys) mod ?n = (i + 1 + length (y # ys)) mod ?n" using nx [of "length ys"] by simp
  moreover have "?j < ?n" using r(2) by simp
  ultimately have "ring_at ?j ?Q ys" using assms r(5) by (simp add: ring_at_def Let_def del: of_nat_mult)
  then show "ring_at ?j (snd (get_item Q)) ys" by (simp add: get_item_def c del: of_nat_mult)
qed

section \<open>The interface of a bounded buffer\<close>

text \<open>An operation on a buffer that offers storing, fetching, looking and a count.\<close>

fun do_op :: "(position \<Rightarrow> 'i \<Rightarrow> 'q \<Rightarrow> 'q) \<Rightarrow> ('q \<Rightarrow> 'i \<times> 'q) \<Rightarrow> ('q \<Rightarrow> 'i) \<Rightarrow> ('q \<Rightarrow> nat) \<Rightarrow> ('q \<Rightarrow> nat) \<Rightarrow> 'i buf_op \<Rightarrow> 'q \<Rightarrow> ('i option \<times> bool) \<times> 'q" where
  "do_op put get look cap count (Put pos x) q = (if count q < cap q \<or> pos = OVERWRITE then ((None, True), put pos x q) else ((None, False), q))"
| "do_op put get look cap count Get q = (if count q > 0 then ((Some (fst (get q)), True), snd (get q)) else ((None, False), q))"
| "do_op put get look cap count Look q = (if count q > 0 then ((Some (look q), True), q) else ((None, False), q))"

locale bounded_buffer =
  fixes put :: "position \<Rightarrow> 'i \<Rightarrow> 'q \<Rightarrow> 'q" and get :: "'q \<Rightarrow> 'i \<times> 'q" and look :: "'q \<Rightarrow> 'i" and cap :: "'q \<Rightarrow> nat" and count :: "'q \<Rightarrow> nat"
    and fits :: "'q \<Rightarrow> 'i \<Rightarrow> bool" and holds :: "'q \<Rightarrow> 'i list \<Rightarrow> bool"
  assumes counted: "holds q xs \<Longrightarrow> count q = length xs \<and> length xs \<le> cap q"
    and put_back: "holds q xs \<Longrightarrow> length xs < cap q \<Longrightarrow> fits q x \<Longrightarrow> holds (put SEND_TO_BACK x q) (xs @ [x])"
    and put_front: "holds q xs \<Longrightarrow> length xs < cap q \<Longrightarrow> fits q x \<Longrightarrow> holds (put SEND_TO_FRONT x q) (x # xs)"
    and put_over: "holds q xs \<Longrightarrow> cap q = 1 \<Longrightarrow> fits q x \<Longrightarrow> holds (put OVERWRITE x q) [x]"
    and get_first: "holds q (x # xs) \<Longrightarrow> fst (get q) = x \<and> holds (snd (get q)) xs"
    and look_first: "holds q (x # xs) \<Longrightarrow> look q = x"
begin

lemma step_simulates:
  assumes "holds q xs" and "op_fits (cap q) opr" and "\<And>pos x. opr = Put pos x \<Longrightarrow> fits q x"
  shows "fst (do_op put get look cap count opr q) = fst (buf_step (cap q) opr xs) \<and> holds (snd (do_op put get look cap count opr q)) (snd (buf_step (cap q) opr xs))"
proof (cases opr)
  case (Put pos x)
  then show ?thesis using assms counted [OF assms(1)] put_back [OF assms(1)] put_front [OF assms(1)] put_over [OF assms(1)] by (cases pos) auto
next
  case Get
  then show ?thesis using assms counted [OF assms(1)] get_first [of q] by (cases xs) auto
next
  case Look
  then show ?thesis using assms counted [OF assms(1)] look_first [of q] by (cases xs) auto
qed

end

definition item_fits :: "queue \<Rightarrow> u8 list \<Rightarrow> bool" where
  "item_fits Q item \<longleftrightarrow> length item = unat (uxItemSize Q)"

lemma q_holds_count:
  assumes "q_holds Q xs"
  shows "unat (uxMessagesWaiting Q) = length xs" and "length xs \<le> unat (uxLength Q)" and "0 < unat (uxLength Q)" and "uxItemSize Q \<noteq> 0" and "\<not> uxQueueType_mutex Q"
proof -
  obtain i where i: "ring_at i Q xs" using assms by (auto simp: q_holds_def)
  have b: "length xs \<le> unat (uxLength Q)" "unat (uxLength Q) < 4294967296" "uxMessagesWaiting Q = of_nat (length xs)" using i by (simp_all add: ring_at_def Let_def)
  then have "length xs < 4294967296" by linarith
  then show "unat (uxMessagesWaiting Q) = length xs" using b(3) by (simp add: unat_of_nat_u32)
  show "length xs \<le> unat (uxLength Q)" "0 < unat (uxLength Q)" "uxItemSize Q \<noteq> 0" "\<not> uxQueueType_mutex Q" using i by (auto simp: ring_at_def Let_def)
qed

interpretation ring: bounded_buffer put_item get_item "\<lambda>Q. fst (prvCopyDataFromQueue Q)" "\<lambda>Q. unat (uxLength Q)" "\<lambda>Q. unat (uxMessagesWaiting Q)" item_fits q_holds
proof
  fix Q :: queue and xs :: "u8 list list" and x :: "u8 list"
  show "q_holds Q xs \<Longrightarrow> unat (uxMessagesWaiting Q) = length xs \<and> length xs \<le> unat (uxLength Q)" using q_holds_count by blast
  show "q_holds Q xs \<Longrightarrow> length xs < unat (uxLength Q) \<Longrightarrow> item_fits Q x \<Longrightarrow> q_holds (put_item SEND_TO_BACK x Q) (xs @ [x])"
    unfolding q_holds_def item_fits_def using ring_put_back by blast
  show "q_holds Q xs \<Longrightarrow> length xs < unat (uxLength Q) \<Longrightarrow> item_fits Q x \<Longrightarrow> q_holds (put_item SEND_TO_FRONT x Q) (x # xs)"
    unfolding q_holds_def item_fits_def using ring_put_front by blast
  show "q_holds Q xs \<Longrightarrow> unat (uxLength Q) = 1 \<Longrightarrow> item_fits Q x \<Longrightarrow> q_holds (put_item OVERWRITE x Q) [x]"
    unfolding q_holds_def item_fits_def using ring_overwrite by blast
  show "q_holds Q (x # xs) \<Longrightarrow> fst (get_item Q) = x \<and> q_holds (snd (get_item Q)) xs"
    unfolding q_holds_def using ring_get by blast
  show "q_holds Q (x # xs) \<Longrightarrow> fst (prvCopyDataFromQueue Q) = x" unfolding q_holds_def using ring_get by blast
qed

section \<open>Queues and the scheduler\<close>

lemma queues_sel [simp]:
  "queues (put_list l A s) = queues s" "queues (upd_tcb t f s) = queues s" "queues (unstate t l s) = queues s" "queues (unevent t s) = queues s"
  "queues (wake t m s) = queues s" "queues (portYIELD s) = queues s" "queues (vTaskMissedYield s) = queues s"
  by (simp_all add: put_list_def upd_tcb_def unstate_def unevent_def wake_def prvAddTaskToReadyList_def state_insert_end_def portYIELD_def vTaskMissedYield_def Let_def split: option.splits)

lemma exit_queues: "taskEXIT_CRITICAL s = Some s' \<Longrightarrow> queues s' = queues s"
  by (auto simp: taskEXIT_CRITICAL_def vTaskSwitchContext_def taskSELECT_HIGHEST_PRIORITY_TASK_def Let_def split_beta split: if_splits)

lemma upd_queue_sel [simp]:
  "queues (upd_queue q f s) = (queues s)(q := f (queues s q))" "klists (upd_queue q f s) = klists s" "tcbs (upd_queue q f s) = tcbs s"
  "uxSchedulerSuspended (upd_queue q f s) = uxSchedulerSuspended s" "uxCurrentNumberOfTasks (upd_queue q f s) = uxCurrentNumberOfTasks s"
  "pxCurrentTCB (upd_queue q f s) = pxCurrentTCB s"
  by (simp_all add: upd_queue_def)

lemma kernel_upd_queue [simp]: "kernel_ok (upd_queue q f s) \<longleftrightarrow> kernel_ok s"
  by (simp add: upd_queue_def kernel_ok_def sched_ok_def core_ok_def tick_inv_def links_ok_def ready_ok_def delays_ok_def times_ok_def waiters_ok_def some_ready_def)

lemma wake_waiting_spec:
  assumes "kernel_ok s"
  shows "\<exists>w s'. wake_waiting (Event e) s = Some (w, s') \<and> kernel_ok s' \<and> queues s' = queues s"
proof (cases "fst (klists s (Event e))")
  case Nil
  then show ?thesis using assms by (auto simp: wake_waiting_def)
next
  case (Cons t ts)
  have k: "links_ok s" "waiters_ok s" "uxSchedulerSuspended s = 0" using assms by (simp_all add: kernel_ok_def sched_ok_def core_ok_def tick_inv_def)
  obtain m where m: "state_in (tcbs s t) = Some m" "\<forall>p. m \<noteq> Ready p"
    "xTaskRemoveFromEventList (Event e) s = Some (outranks s t, if outranks s t then (wake t m s)\<lparr>xYieldPending := True\<rparr> else wake t m s)"
    using remove_event [OF k Cons] by auto
  have "kernel_ok (wake t m s)" by (rule wake_kernel [OF assms m(1,2)])
  then have "kernel_ok (if outranks s t then (wake t m s)\<lparr>xYieldPending := True\<rparr> else wake t m s)" using kernel_settled kernel_flags(1) by auto
  then show ?thesis using m(3) Cons by (auto simp: wake_waiting_def)
qed

lemma finish_spec:
  assumes "kernel_ok s"
  shows "\<exists>s'. taskEXIT_CRITICAL (queueYIELD_IF_USING_PREEMPTION w s) = Some s' \<and> kernel_ok s' \<and> queues s' = queues s"
proof -
  have "kernel_ok (queueYIELD_IF_USING_PREEMPTION w s)"
    using assms kernel_settled [OF assms kernel_flags(2) [OF assms, of True]] by (simp add: queueYIELD_IF_USING_PREEMPTION_def portYIELD_def)
  then obtain s' where "taskEXIT_CRITICAL (queueYIELD_IF_USING_PREEMPTION w s) = Some s'" "kernel_ok s'" using kernel_exit by blast
  then show ?thesis using exit_queues [of "queueYIELD_IF_USING_PREEMPTION w s" s'] by (auto simp: queueYIELD_IF_USING_PREEMPTION_def)
qed

section \<open>Calls on a queue\<close>

text \<open>A call without block time by a task or by an interrupt.\<close>

datatype caller = Task | Interrupt

definition returned :: "('r \<Rightarrow> 'b) \<Rightarrow> ('r outcome \<times> ksys) option \<Rightarrow> ('b \<times> ksys) option" where
  "returned f x = (case x of Some (Return r, s) \<Rightarrow> Some (f r, s) | _ \<Rightarrow> None)"

definition fetched :: "'i option \<Rightarrow> 'i option \<times> bool" where
  "fetched r = (r, r \<noteq> None)"

fun api_call :: "nat \<Rightarrow> caller \<times> u8 list buf_op \<Rightarrow> ksys \<Rightarrow> ((u8 list option \<times> bool) \<times> ksys) option" where
  "api_call q (Task, Put pos x) s = returned (\<lambda>b. (None, b)) (xQueueGenericSend q x 0 pos s)"
| "api_call q (Task, Get) s = returned fetched (xQueueReceive q 0 s)"
| "api_call q (Task, Look) s = returned fetched (xQueuePeek q 0 s)"
| "api_call q (Interrupt, Put pos x) s = do { (w, b, s') \<leftarrow> xQueueGenericSendFromISR q x pos s; Some ((None, b), s') }"
| "api_call q (Interrupt, Get) s = do { (w, r, s') \<leftarrow> xQueueReceiveFromISR q s; Some (fetched r, s') }"
| "api_call q (Interrupt, Look) s = do { r \<leftarrow> xQueuePeekFromISR q s; Some (fetched r, s) }"

text \<open>What a call does to the queue itself.\<close>

abbreviation ring_op :: "u8 list buf_op \<Rightarrow> queue \<Rightarrow> (u8 list option \<times> bool) \<times> queue" where
  "ring_op \<equiv> do_op put_item get_item (\<lambda>Q. fst (prvCopyDataFromQueue Q)) (\<lambda>Q. unat (uxLength Q)) (\<lambda>Q. unat (uxMessagesWaiting Q))"

definition unlocked :: "queue \<Rightarrow> bool" where
  "unlocked Q \<longleftrightarrow> cRxLock Q = queueUNLOCKED \<and> cTxLock Q = queueUNLOCKED"

lemma copy_is_put: "uxItemSize (queues s q) \<noteq> 0 \<Longrightarrow> prvCopyDataToQueue q x pos s = Some (False, upd_queue q (put_item pos x) s)"
  by (simp add: prvCopyDataToQueue_def put_item_def upd_queue_def Let_def)

lemma get_is_fetch: "prvCopyDataFromQueue Q = (bs, Q1) \<Longrightarrow> get_item Q = (bs, Q1\<lparr>uxMessagesWaiting := uxMessagesWaiting Q - 1\<rparr>)"
  by (simp add: get_item_def)

lemma wake_and_finish:
  assumes "kernel_ok s"
  shows "\<exists>w s1 s'. wake_waiting (Event e) s = Some (w, s1) \<and> taskEXIT_CRITICAL (queueYIELD_IF_USING_PREEMPTION (if c then w else False) s1) = Some s'
     \<and> kernel_ok s' \<and> queues s' = queues s"
proof -
  obtain w s1 where s1: "wake_waiting (Event e) s = Some (w, s1)" "kernel_ok s1" "queues s1 = queues s" using wake_waiting_spec [OF assms] by blast
  then show ?thesis using finish_spec [OF s1(2), of "if c then w else False"] by auto
qed

lemma task_put:
  assumes "kernel_ok s" and "q_holds (queues s q) xs" and "q \<noteq> 0" and "op_fits (unat (uxLength (queues s q))) (Put pos x)"
  shows "\<exists>s'. api_call q (Task, Put pos x) s = Some (fst (ring_op (Put pos x) (queues s q)), s') \<and> kernel_ok s' \<and> queues s' = (queues s)(q := snd (ring_op (Put pos x) (queues s q)))"
proof -
  let ?Q = "queues s q" and ?s = "upd_queue q (put_item pos x) s"
  note c = q_holds_count [OF assms(2)]
  have g: "blocking_allowed 0 s" "\<not> (pos = OVERWRITE \<and> uxLength ?Q \<noteq> 1)"
    using assms(4) by (auto simp: blocking_allowed_def word_unat_eq_iff)
  show ?thesis
  proof (cases "uxMessagesWaiting ?Q < uxLength ?Q \<or> pos = OVERWRITE")
    case True
    have "kernel_ok ?s" using assms(1) by simp
    from wake_and_finish [OF this, of "2 * q + 1" "fst (klists ?s (xTasksWaitingToReceive q)) \<noteq> []"]
    obtain w s1 s' where s': "wake_waiting (xTasksWaitingToReceive q) ?s = Some (w, s1)"
      "taskEXIT_CRITICAL (queueYIELD_IF_USING_PREEMPTION (if fst (klists ?s (xTasksWaitingToReceive q)) \<noteq> [] then w else False) s1) = Some s'" "kernel_ok s'" "queues s' = queues ?s"
      unfolding xTasksWaitingToReceive_def by blast
    have "xQueueGenericSend q x 0 pos s = Some (Return True, s')"
      using True s'(1,2) g assms(3) by (auto simp: xQueueGenericSend_def xQueueGenericSend_try_def Let_def copy_is_put [OF c(4)])
    then show ?thesis using True s'(3,4) by (auto simp: returned_def word_less_nat_alt)
  next
    case False
    obtain s' where "taskEXIT_CRITICAL s = Some s'" "kernel_ok s'" using kernel_exit [OF assms(1)] by blast
    moreover from this have "queues s' = queues s" using exit_queues by blast
    ultimately show ?thesis using False g assms(3)
      by (auto simp: xQueueGenericSend_def xQueueGenericSend_try_def give_up_or_wait_def call_start_def returned_def word_less_nat_alt Let_def)
  qed
qed

lemma task_get:
  assumes "kernel_ok s" and "q_holds (queues s q) xs" and "q \<noteq> 0"
  shows "\<exists>s'. api_call q (Task, Get) s = Some (fst (ring_op Get (queues s q)), s') \<and> kernel_ok s' \<and> queues s' = (queues s)(q := snd (ring_op Get (queues s q)))"
proof (cases "uxMessagesWaiting (queues s q) > 0")
  case True
  obtain bs Q1 where f: "prvCopyDataFromQueue (queues s q) = (bs, Q1)" by (cases "prvCopyDataFromQueue (queues s q)")
  let ?s = "upd_queue q (\<lambda>_. Q1\<lparr>uxMessagesWaiting := uxMessagesWaiting (queues s q) - 1\<rparr>) s"
  have "kernel_ok ?s" using assms(1) by simp
  from wake_and_finish [OF this, of "2 * q" True] obtain w s1 s' where s': "wake_waiting (xTasksWaitingToSend q) ?s = Some (w, s1)"
    "taskEXIT_CRITICAL (queueYIELD_IF_USING_PREEMPTION w s1) = Some s'" "kernel_ok s'" "queues s' = queues ?s"
    unfolding xTasksWaitingToSend_def by auto
  then have "xQueueReceive q 0 s = Some (Return (Some bs), s')"
    using True f assms(3) by (simp add: xQueueReceive_def xQueueReceive_try_def blocking_allowed_def Let_def)
  moreover have "0 < unat (uxMessagesWaiting (queues s q))" using True by (simp add: word_less_nat_alt)
  ultimately show ?thesis using s'(3,4) by (simp add: returned_def fetched_def get_is_fetch [OF f])
next
  case False
  obtain s' where "taskEXIT_CRITICAL s = Some s'" "kernel_ok s'" using kernel_exit [OF assms(1)] by blast
  moreover from this have "queues s' = queues s" using exit_queues by blast
  ultimately show ?thesis using False assms(3)
    by (auto simp: xQueueReceive_def xQueueReceive_try_def blocking_allowed_def give_up_or_wait_def call_start_def returned_def fetched_def word_less_nat_alt Let_def)
qed

lemma task_look:
  assumes "kernel_ok s" and "q_holds (queues s q) xs" and "q \<noteq> 0"
  shows "\<exists>s'. api_call q (Task, Look) s = Some (fst (ring_op Look (queues s q)), s') \<and> kernel_ok s' \<and> queues s' = queues s"
proof (cases "uxMessagesWaiting (queues s q) > 0")
  case True
  from wake_and_finish [OF assms(1), of "2 * q + 1" True] obtain w s1 s' where s': "wake_waiting (xTasksWaitingToReceive q) s = Some (w, s1)"
    "taskEXIT_CRITICAL (queueYIELD_IF_USING_PREEMPTION w s1) = Some s'" "kernel_ok s'" "queues s' = queues s"
    unfolding xTasksWaitingToReceive_def by auto
  then have "xQueuePeek q 0 s = Some (Return (Some (fst (prvCopyDataFromQueue (queues s q)))), s')"
    using True assms(3) by (simp add: xQueuePeek_def xQueuePeek_try_def blocking_allowed_def Let_def)
  moreover have "0 < unat (uxMessagesWaiting (queues s q))" using True by (simp add: word_less_nat_alt)
  ultimately show ?thesis using s'(3,4) by (simp add: returned_def fetched_def)
next
  case False
  obtain s' where "taskEXIT_CRITICAL s = Some s'" "kernel_ok s'" using kernel_exit [OF assms(1)] by blast
  moreover from this have "queues s' = queues s" using exit_queues by blast
  ultimately show ?thesis using False assms(3)
    by (auto simp: xQueuePeek_def xQueuePeek_try_def blocking_allowed_def give_up_or_wait_def call_start_def returned_def fetched_def word_less_nat_alt Let_def)
qed

lemma isr_put:
  assumes "kernel_ok s" and "q_holds (queues s q) xs" and "q \<noteq> 0" and "op_fits (unat (uxLength (queues s q))) (Put pos x)" and "unlocked (queues s q)"
  shows "\<exists>s'. api_call q (Interrupt, Put pos x) s = Some (fst (ring_op (Put pos x) (queues s q)), s') \<and> kernel_ok s' \<and> queues s' = (queues s)(q := snd (ring_op (Put pos x) (queues s q)))"
proof (cases "uxMessagesWaiting (queues s q) < uxLength (queues s q) \<or> pos = OVERWRITE")
  case True
  have "kernel_ok (upd_queue q (put_item pos x) s)" using assms(1) by simp
  from wake_waiting_spec [OF this, of "2 * q + 1"] obtain w s' where s': "wake_waiting (xTasksWaitingToReceive q) (upd_queue q (put_item pos x) s) = Some (w, s')"
    "kernel_ok s'" "queues s' = queues (upd_queue q (put_item pos x) s)" unfolding xTasksWaitingToReceive_def by blast
  have "pos = OVERWRITE \<Longrightarrow> uxLength (queues s q) = 1" using assms(4) by (cases pos) (auto simp: word_unat_eq_iff)
  then have "xQueueGenericSendFromISR q x pos s = Some (w, True, s')"
    using True s'(1) assms(3,5) by (auto simp: xQueueGenericSendFromISR_def Let_def copy_is_put [OF q_holds_count(4) [OF assms(2)]] unlocked_def)
  then show ?thesis using True s'(2,3) by (auto simp: word_less_nat_alt)
next
  case False
  then show ?thesis using assms(1,3) by (auto simp: xQueueGenericSendFromISR_def word_less_nat_alt Let_def)
qed

lemma isr_get:
  assumes "kernel_ok s" and "q \<noteq> 0" and "unlocked (queues s q)"
  shows "\<exists>s'. api_call q (Interrupt, Get) s = Some (fst (ring_op Get (queues s q)), s') \<and> kernel_ok s' \<and> queues s' = (queues s)(q := snd (ring_op Get (queues s q)))"
proof (cases "uxMessagesWaiting (queues s q) > 0")
  case True
  obtain bs Q1 where f: "prvCopyDataFromQueue (queues s q) = (bs, Q1)" by (cases "prvCopyDataFromQueue (queues s q)")
  let ?s = "upd_queue q (\<lambda>_. Q1\<lparr>uxMessagesWaiting := uxMessagesWaiting (queues s q) - 1\<rparr>) s"
  have "kernel_ok ?s" using assms(1) by simp
  from wake_waiting_spec [OF this, of "2 * q"] obtain w s' where s': "wake_waiting (xTasksWaitingToSend q) ?s = Some (w, s')" "kernel_ok s'" "queues s' = queues ?s"
    unfolding xTasksWaitingToSend_def by blast
  then have "xQueueReceiveFromISR q s = Some (w, Some bs, s')" using True f assms(2,3) by (simp add: xQueueReceiveFromISR_def unlocked_def Let_def)
  moreover have "0 < unat (uxMessagesWaiting (queues s q))" using True by (simp add: word_less_nat_alt)
  ultimately show ?thesis using s'(2,3) by (simp add: fetched_def get_is_fetch [OF f])
next
  case False
  then show ?thesis using assms(1,2) by (auto simp: xQueueReceiveFromISR_def fetched_def word_less_nat_alt Let_def)
qed

lemma isr_look:
  assumes "kernel_ok s" and "q_holds (queues s q) xs" and "q \<noteq> 0"
  shows "api_call q (Interrupt, Look) s = Some (fst (ring_op Look (queues s q)), s)"
  using assms(3) q_holds_count(4) [OF assms(2)] by (simp add: xQueuePeekFromISR_def fetched_def word_less_nat_alt)

definition call_fits :: "queue \<Rightarrow> u8 list buf_op \<Rightarrow> bool" where
  "call_fits Q opr \<longleftrightarrow> op_fits (unat (uxLength Q)) opr \<and> (case opr of Put pos x \<Rightarrow> item_fits Q x | _ \<Rightarrow> True)"

definition same_shape :: "queue \<Rightarrow> queue \<Rightarrow> bool" where
  "same_shape Q Q' \<longleftrightarrow> uxLength Q' = uxLength Q \<and> uxItemSize Q' = uxItemSize Q \<and> cRxLock Q' = cRxLock Q \<and> cTxLock Q' = cTxLock Q"

lemma ring_op_shape: "same_shape Q (snd (ring_op opr Q))"
  by (cases opr) (auto simp: same_shape_def put_item_def copy_to_def get_item_def prvCopyDataFromQueue_def Let_def split_beta)

lemma api_call_spec:
  assumes "kernel_ok s" and "q_holds (queues s q) xs" and "q \<noteq> 0" and "unlocked (queues s q)" and "call_fits (queues s q) opr"
  shows "\<exists>s'. api_call q (c, opr) s = Some (fst (buf_step (unat (uxLength (queues s q))) opr xs), s') \<and> kernel_ok s'
     \<and> q_holds (queues s' q) (snd (buf_step (unat (uxLength (queues s q))) opr xs)) \<and> same_shape (queues s q) (queues s' q) \<and> (\<forall>p. p \<noteq> q \<longrightarrow> queues s' p = queues s p)"
proof -
  have sim: "fst (ring_op opr (queues s q)) = fst (buf_step (unat (uxLength (queues s q))) opr xs)" "q_holds (snd (ring_op opr (queues s q))) (snd (buf_step (unat (uxLength (queues s q))) opr xs))"
    using ring.step_simulates [OF assms(2), of opr] assms(5) by (auto simp: call_fits_def split: buf_op.splits)
  have "\<exists>s'. api_call q (c, opr) s = Some (fst (ring_op opr (queues s q)), s') \<and> kernel_ok s' \<and> queues s' = (queues s)(q := snd (ring_op opr (queues s q)))"
  proof (cases opr)
    case (Put pos x)
    then have "op_fits (unat (uxLength (queues s q))) (Put pos x)" using assms(5) by (simp add: call_fits_def)
    then show ?thesis unfolding Put by (cases c) (use task_put [OF assms(1,2,3)] isr_put [OF assms(1,2,3) _ assms(4)] in \<open>simp_all only:\<close>)
  next
    case Get
    then show ?thesis by (cases c) (use task_get [OF assms(1,2,3)] isr_get [OF assms(1,3,4)] in \<open>simp_all only:\<close>)
  next
    case Look
    have "snd (ring_op Look (queues s q)) = queues s q" by simp
    then show ?thesis unfolding Look
      by (cases c) (use task_look [OF assms(1,2,3)] isr_look [OF assms(1,2,3)] assms(1) in \<open>simp_all only: fun_upd_triv, blast\<close>)
  qed
  then show ?thesis using sim ring_op_shape [of "queues s q" opr] by auto
qed

fun run_calls :: "nat \<Rightarrow> (caller \<times> u8 list buf_op) list \<Rightarrow> ksys \<Rightarrow> ((u8 list option \<times> bool) list \<times> ksys) option" where
  "run_calls q [] s = Some ([], s)"
| "run_calls q (c # cs) s = do { (r, s1) \<leftarrow> api_call q c s; (rs, s2) \<leftarrow> run_calls q cs s1; Some (r # rs, s2) }"

fun buf_run :: "nat \<Rightarrow> 'i buf_op list \<Rightarrow> 'i list \<Rightarrow> ('i option \<times> bool) list \<times> 'i list" where
  "buf_run n [] xs = ([], xs)"
| "buf_run n (opr # oprs) xs = (let (r, ys) = buf_step n opr xs; (rs, zs) = buf_run n oprs ys in (r # rs, zs))"

lemma run_calls_spec:
  assumes "kernel_ok s" and "q_holds (queues s q) xs" and "q \<noteq> 0" and "unlocked (queues s q)" and "\<forall>c\<in>set cs. call_fits (queues s q) (snd c)"
  shows "\<exists>s'. run_calls q cs s = Some (fst (buf_run (unat (uxLength (queues s q))) (map snd cs) xs), s') \<and> kernel_ok s'
     \<and> q_holds (queues s' q) (snd (buf_run (unat (uxLength (queues s q))) (map snd cs) xs)) \<and> (\<forall>p. p \<noteq> q \<longrightarrow> queues s' p = queues s p)"
  using assms
proof (induction cs arbitrary: s xs)
  case (Cons c cs)
  obtain who opr where c: "c = (who, opr)" by (cases c)
  have "call_fits (queues s q) opr" using Cons.prems(5) c by simp
  from api_call_spec [OF Cons.prems(1-4) this, of who] obtain s1 where s1: "api_call q c s = Some (fst (buf_step (unat (uxLength (queues s q))) opr xs), s1)" "kernel_ok s1"
    "q_holds (queues s1 q) (snd (buf_step (unat (uxLength (queues s q))) opr xs))" "same_shape (queues s q) (queues s1 q)" "\<forall>p. p \<noteq> q \<longrightarrow> queues s1 p = queues s p"
    unfolding c by blast
  have sh: "uxLength (queues s1 q) = uxLength (queues s q)" "unlocked (queues s1 q)" "\<forall>d\<in>set cs. call_fits (queues s1 q) (snd d)"
    using s1(4) Cons.prems(4,5) by (auto simp: same_shape_def unlocked_def call_fits_def item_fits_def split: buf_op.splits)
  from Cons.IH [OF s1(2,3) Cons.prems(3) sh(2,3)] show ?case using s1(1,5) c unfolding sh(1) by (auto simp: split_beta Let_def)
qed simp

section \<open>Locked queues\<close>

text \<open>While the scheduler is suspended a woken task goes to the pending ready list.\<close>

definition pend :: "nat \<Rightarrow> 'a sched_scheme \<Rightarrow> 'a sched_scheme" where
  "pend t s = event_insert_end PendingReady t (unevent t s)"

lemma pend_sel [simp]:
  "tcbs (pend t s) = (tcbs s)(t := (tcbs s t)\<lparr>event_in := Some PendingReady\<rparr>)" "queues (pend t k) = queues k" "uxSchedulerSuspended (pend t s) = uxSchedulerSuspended s"
  "uxCurrentNumberOfTasks (pend t s) = uxCurrentNumberOfTasks s" "pxCurrentTCB (pend t s) = pxCurrentTCB s"
  by (auto simp: pend_def event_insert_end_def)

text \<open>The state in which a task manipulates a locked queue.\<close>

definition paused_ok :: "'a sched_scheme \<Rightarrow> bool" where
  "paused_ok s \<longleftrightarrow> core_ok s \<and> waiters_ok s \<and> some_ready s \<and> uxSchedulerSuspended s = 1 \<and> uxCurrentNumberOfTasks s > 0"

lemma pend_paused:
  assumes "paused_ok s" and "event_in (tcbs s t) = Some l"
  shows "paused_ok (pend t s)"
proof -
  have c: "core_ok s" "waiters_ok s" and lk: "links_ok s" using assms(1) by (simp_all add: paused_ok_def core_ok_def tick_inv_def)
  have st: "\<And>u. state_in (tcbs (pend t s) u) = state_in (tcbs s u)" "\<And>u. state_value (tcbs (pend t s) u) = state_value (tcbs s u)" "\<And>u. uxPriority (tcbs (pend t s) u) = uxPriority (tcbs s u)"
    by simp_all
  have kl: "klists (pend t s) m = klists s m" if "state_list m" for m
    using that klists_unevent [OF lk that] by (cases m) (auto simp: pend_def event_insert_end_def)
  have gl: "pxDelayedTaskList (pend t s) = pxDelayedTaskList s" "pxOverflowDelayedTaskList (pend t s) = pxOverflowDelayedTaskList s" "xTickCount (pend t s) = xTickCount s"
    "xNextTaskUnblockTime (pend t s) = xNextTaskUnblockTime s" "uxTopReadyPriority (pend t s) = uxTopReadyPriority s" by (simp_all add: pend_def event_insert_end_def)
  have "links_ok (pend t s)" unfolding pend_def by (intro links_event_insert_end links_unevent lk) simp_all
  moreover have "ready_ok (pend t s)" using c(1) unfolding core_ok_def tick_inv_def ready_ok_def st gl by (simp add: kl)
  moreover have "delays_ok (pend t s)" using c(1) unfolding core_ok_def tick_inv_def delays_ok_def st gl by (simp add: kl)
  moreover have "times_ok (pend t s)" using c(1) unfolding core_ok_def times_ok_def st gl by simp
  moreover have "waiters_ok (pend t s)" using c(2) assms(2) unfolding waiters_ok_def st by auto
  moreover have "some_ready (pend t s)" using assms(1) unfolding paused_ok_def some_ready_def st by simp
  ultimately show ?thesis using assms(1) by (simp add: paused_ok_def core_ok_def tick_inv_def)
qed

lemma remove_event_paused:
  assumes "paused_ok s" and "fst (klists s l) = t # ts" and "\<not> state_list l"
  shows "event_in (tcbs s t) = Some l"
    and "xTaskRemoveFromEventList l s = Some (outranks s t, if outranks s t then (pend t s)\<lparr>xYieldPending := True\<rparr> else pend t s)"
proof -
  have lk: "links_ok s" using assms(1) by (simp add: paused_ok_def core_ok_def tick_inv_def)
  show ev: "event_in (tcbs s t) = Some l" using links_okD(3) [OF lk assms(3), of t] assms(2) by simp
  have "uxPriority (tcbs (pend t s) u) = uxPriority (tcbs s u)" for u by simp
  then show "xTaskRemoveFromEventList l s = Some (outranks s t, if outranks s t then (pend t s)\<lparr>xYieldPending := True\<rparr> else pend t s)"
    using assms(1,2) by (simp add: xTaskRemoveFromEventList_def event_remove_eq [OF ev] pend_def [symmetric] outranks_def paused_ok_def)
qed

lemma pend_lists:
  assumes "links_ok s" and "event_in (tcbs s t) = Some l" and "l \<noteq> PendingReady" and "klists s PendingReady = (ps, None)"
  shows "klists (pend t s) PendingReady = (ps @ [t], None)" and "klists (pend t s) l = a_remove t (klists s l)" and "m \<noteq> l \<Longrightarrow> m \<noteq> PendingReady \<Longrightarrow> klists (pend t s) m = klists s m"
  using assms by (auto simp: pend_def event_insert_end_def unevent_def a_insert_end_def)

text \<open>Waking as many tasks as were counted, in the order they wait.\<close>

definition paused_same :: "ksys \<Rightarrow> ksys \<Rightarrow> bool" where
  "paused_same s s' \<longleftrightarrow> paused_ok s' \<and> queues s' = queues s"

lemma wake_counted_spec:
  assumes "paused_ok s" and "klists s PendingReady = (ps, None)" and "l = Event e"
  shows "\<exists>s'. wake_counted n l s = Some s' \<and> paused_same s s' \<and> klists s' PendingReady = (ps @ take n (fst (klists s l)), None)
     \<and> fst (klists s' l) = drop n (fst (klists s l)) \<and> (\<forall>m. m \<noteq> l \<and> m \<noteq> PendingReady \<longrightarrow> klists s' m = klists s m)"
  using assms(1,2)
proof (induction n arbitrary: s ps)
  case 0
  then show ?case by (simp add: paused_same_def)
next
  case (Suc n)
  show ?case
  proof (cases "fst (klists s l)")
    case Nil
    then show ?thesis using Suc.prems by (simp add: paused_same_def)
  next
    case (Cons t ts)
    have l: "\<not> state_list l" "l \<noteq> PendingReady" using assms(3) by simp_all
    note re = remove_event_paused [OF Suc.prems(1) Cons l(1)]
    have lk: "links_ok s" using Suc.prems(1) by (simp add: paused_ok_def core_ok_def tick_inv_def)
    note pl = pend_lists [OF lk re(1) l(2) Suc.prems(2)]
    let ?u = "if outranks s t then vTaskMissedYield ((pend t s)\<lparr>xYieldPending := True\<rparr>) else pend t s"
    have fl: "paused_ok (u\<lparr>xYieldPending := True\<rparr>)" if "paused_ok u" for u :: ksys
      using that core_ok_cong [of u "u\<lparr>xYieldPending := True\<rparr>"] by (simp add: paused_ok_def waiters_ok_def some_ready_def)
    have pu: "paused_ok ?u" using pend_paused [OF Suc.prems(1) re(1)] fl by (simp add: vTaskMissedYield_def)
    have ku: "klists ?u = klists (pend t s)" "queues ?u = queues s" by (simp_all add: vTaskMissedYield_def)
    have "klists ?u PendingReady = (ps @ [t], None)" using pl(1) ku by simp
    from Suc.IH [OF pu this] obtain s' where s': "wake_counted n l ?u = Some s'" "paused_same ?u s'" "klists s' PendingReady = ((ps @ [t]) @ take n (fst (klists ?u l)), None)"
      "fst (klists s' l) = drop n (fst (klists ?u l))" "\<forall>m. m \<noteq> l \<and> m \<noteq> PendingReady \<longrightarrow> klists s' m = klists ?u m" by blast
    have ts: "fst (klists ?u l) = ts" using pl(2) ku Cons by (simp add: a_remove_def)
    have "wake_counted (Suc n) l s = wake_counted n l ?u" using re(2) Cons by simp
    then show ?thesis using s' ts Cons pl(3) ku by (auto simp: paused_same_def)
  qed
qed

lemma paused_exit:
  assumes "paused_ok s"
  shows "\<exists>s'. taskEXIT_CRITICAL s = Some s' \<and> paused_ok s' \<and> klists s' = klists s \<and> queues s' = queues s"
proof -
  have c: "core_ok (s\<lparr>pend_sv := False, xYieldPending := True\<rparr>)" using core_ok_cong [of s "s\<lparr>pend_sv := False, xYieldPending := True\<rparr>"] assms by (simp add: paused_ok_def)
  then have "paused_ok (s\<lparr>pend_sv := False, xYieldPending := True\<rparr>)" using assms by (simp add: paused_ok_def waiters_ok_def some_ready_def)
  then show ?thesis using assms by (cases "pend_sv s") (simp_all add: taskEXIT_CRITICAL_def vTaskSwitchContext_def paused_ok_def)
qed

lemma paused_upd_queue [simp]: "paused_ok (upd_queue q f s) \<longleftrightarrow> paused_ok s"
  by (simp add: upd_queue_def paused_ok_def core_ok_def tick_inv_def links_ok_def ready_ok_def delays_ok_def times_ok_def waiters_ok_def some_ready_def)

fun isr_sends :: "nat \<Rightarrow> u8 list list \<Rightarrow> ksys \<Rightarrow> ksys option" where
  "isr_sends q [] s = Some s"
| "isr_sends q (x # xs) s = do { (w, ok, s1) \<leftarrow> xQueueGenericSendFromISR q x SEND_TO_BACK s; if ok then isr_sends q xs s1 else None }"

text \<open>Interrupts that send to a locked queue leave the event lists alone and count what they sent.\<close>

definition locked_by :: "nat \<Rightarrow> queue \<Rightarrow> bool" where
  "locked_by k Q \<longleftrightarrow> cTxLock Q = int k \<and> cRxLock Q = 0"

lemma q_holds_lock: "q_holds (Q\<lparr>cTxLock := a\<rparr>) xs \<longleftrightarrow> q_holds Q xs" "q_holds (Q\<lparr>cRxLock := a\<rparr>) xs \<longleftrightarrow> q_holds Q xs"
  by (simp_all add: q_holds_def ring_at_def slot_def Let_def)

lemma isr_sends_spec:
  assumes "q_holds (queues s q) xs" and "q \<noteq> 0" and "locked_by k (queues s q)" and "k \<le> unat (uxCurrentNumberOfTasks s)" and "unat (uxCurrentNumberOfTasks s) \<le> 127"
    and "length xs + length items \<le> unat (uxLength (queues s q))" and "\<forall>x\<in>set items. item_fits (queues s q) x" and "paused_ok s"
  shows "\<exists>s'. isr_sends q items s = Some s' \<and> klists s' = klists s \<and> paused_ok s' \<and> q_holds (queues s' q) (xs @ items)
     \<and> locked_by (min (k + length items) (unat (uxCurrentNumberOfTasks s))) (queues s' q)"
  using assms
proof (induction items arbitrary: s xs k)
  case Nil
  then show ?case by (simp add: min_def)
next
  case (Cons x items)
  let ?Q = "queues s q" and ?N = "unat (uxCurrentNumberOfTasks s)"
  note c = q_holds_count [OF Cons.prems(1)]
  have room: "uxMessagesWaiting ?Q < uxLength ?Q" using c(1) Cons.prems(6) by (simp add: word_less_nat_alt)
  have pu: "q_holds (put_item SEND_TO_BACK x ?Q) (xs @ [x])" using ring.put_back [OF Cons.prems(1)] Cons.prems(6,7) by simp
  let ?f = "\<lambda>Q. (put_item SEND_TO_BACK x Q)\<lparr>cTxLock := int (min (k + 1) ?N)\<rparr>"
  have tx: "cTxLock (put_item SEND_TO_BACK x ?Q) = int k" "cRxLock (put_item SEND_TO_BACK x ?Q) = 0" "cTxLock ?Q = int k" "uxLength (put_item SEND_TO_BACK x ?Q) = uxLength ?Q" "uxItemSize (put_item SEND_TO_BACK x ?Q) = uxItemSize ?Q"
    using Cons.prems(3) by (simp_all add: put_item_def copy_to_def locked_by_def Let_def)
  have k: "k < 4294967296" using Cons.prems(4,5) by linarith
  have same: "(put_item SEND_TO_BACK x ?Q)\<lparr>cTxLock := int k\<rparr> = put_item SEND_TO_BACK x ?Q" using tx(1) by (cases "put_item SEND_TO_BACK x ?Q") simp
  have "prvIncrementQueueTxLock q (int k) (upd_queue q (put_item SEND_TO_BACK x) s) = Some (upd_queue q ?f s)"
  proof (cases "k < ?N")
    case True
    then have "(word_of_int (int k) :: u32) < uxCurrentNumberOfTasks s" using k by (simp add: word_less_nat_alt unat_of_nat_u32)
    then show ?thesis using True Cons.prems(5) by (simp add: prvIncrementQueueTxLock_def queueINT8_MAX_def upd_queue_def min_def add.commute)
  next
    case False
    then have "\<not> (word_of_int (int k) :: u32) < uxCurrentNumberOfTasks s" using k by (simp add: word_less_nat_alt unat_of_nat_u32)
    moreover have "min (k + 1) ?N = k" using False Cons.prems(4) by simp
    ultimately show ?thesis using same by (simp add: prvIncrementQueueTxLock_def upd_queue_def)
  qed
  then have send: "xQueueGenericSendFromISR q x SEND_TO_BACK s = Some (False, True, upd_queue q ?f s)"
    using room Cons.prems(2) tx(3) by (simp add: xQueueGenericSendFromISR_def copy_is_put [OF c(4)] queueUNLOCKED_def Let_def)
  let ?s = "upd_queue q ?f s"
  have pre: "q_holds (queues ?s q) (xs @ [x])" "locked_by (min (k + 1) ?N) (queues ?s q)" "\<forall>y\<in>set items. item_fits (queues ?s q) y"
    "length (xs @ [x]) + length items \<le> unat (uxLength (queues ?s q))" "paused_ok ?s"
    using pu tx Cons.prems(6,7,8) by (simp_all add: q_holds_lock locked_by_def item_fits_def)
  from Cons.IH [OF pre(1) Cons.prems(2) pre(2) _ _ pre(4,3,5)] obtain s' where "isr_sends q items ?s = Some s'" "klists s' = klists ?s" "paused_ok s'" "q_holds (queues s' q) ((xs @ [x]) @ items)"
    "locked_by (min (min (k + 1) ?N + length items) ?N) (queues s' q)" using Cons.prems(5) by auto
  moreover have "min (min (k + 1) ?N + length items) ?N = min (k + length (x # items)) ?N" by simp
  ultimately show ?case using send by auto
qed

lemma unlock_spec:
  assumes "paused_ok s" and "locked_by k (queues s q)" and "klists s PendingReady = (ps, None)" and "q_holds (queues s q) xs"
  shows "\<exists>s'. prvUnlockQueue q s = Some s' \<and> paused_ok s' \<and> unlocked (queues s' q) \<and> q_holds (queues s' q) xs
     \<and> klists s' PendingReady = (ps @ take k (fst (klists s (xTasksWaitingToReceive q))), None)
     \<and> fst (klists s' (xTasksWaitingToReceive q)) = drop k (fst (klists s (xTasksWaitingToReceive q)))"
proof -
  obtain s1 where s1: "wake_counted k (xTasksWaitingToReceive q) s = Some s1" "paused_same s s1"
    "klists s1 PendingReady = (ps @ take k (fst (klists s (xTasksWaitingToReceive q))), None)" "fst (klists s1 (xTasksWaitingToReceive q)) = drop k (fst (klists s (xTasksWaitingToReceive q)))"
    using wake_counted_spec [OF assms(1,3) xTasksWaitingToReceive_def] by blast
  have n: "nat (cTxLock (queues s q)) = k" "cRxLock (queues s q) = 0" using assms(2) by (simp_all add: locked_by_def)
  let ?u = "upd_queue q (\<lambda>Q. Q\<lparr>cTxLock := queueUNLOCKED\<rparr>) s1"
  obtain s2 where s2: "taskEXIT_CRITICAL ?u = Some s2" "paused_ok s2" "klists s2 = klists s1" "queues s2 = queues ?u"
    using paused_exit [of ?u] s1(2) by (auto simp: paused_same_def)
  have q2: "queues s2 q = (queues s q)\<lparr>cTxLock := queueUNLOCKED\<rparr>" using s2(4) s1(2) by (simp add: paused_same_def)
  let ?v = "upd_queue q (\<lambda>Q. Q\<lparr>cRxLock := queueUNLOCKED\<rparr>) s2"
  obtain s3 where s3: "taskEXIT_CRITICAL ?v = Some s3" "paused_ok s3" "klists s3 = klists s2" "queues s3 = queues ?v"
    using paused_exit [of ?v] s2(2) by auto
  have "prvUnlockQueue q s = Some s3" using s1(1) s2(1) s3(1) n q2 by (simp add: prvUnlockQueue_def)
  moreover have "unlocked (queues s3 q)" "q_holds (queues s3 q) xs" using s3(4) q2 assms(4) by (simp_all add: unlocked_def q_holds_lock)
  ultimately show ?thesis using s3 s2(3) s1(3,4) by auto
qed

section \<open>Properties\<close>

text \<open>
  C6. A queue is a bounded sequence: from any state of the kernel in which a queue holds some
  items, every sequence of calls without block time on that queue, made by tasks or by
  interrupts (send to the back, send to the front, overwrite for queues of length one,
  receive, peek), runs without a failed assertion, gives exactly the results of the same
  operations on a sequence with the capacity of the queue, leaves the queue holding the
  final sequence and the other queues untouched, and keeps the invariant of the scheduler.
\<close>

theorem queue_is_bounded_sequence:
  assumes "kernel_ok s" and "q_holds (queues s q) xs" and "q \<noteq> 0" and "unlocked (queues s q)" and "\<forall>c\<in>set cs. call_fits (queues s q) (snd c)"
  shows "\<exists>s'. run_calls q cs s = Some (fst (buf_run (unat (uxLength (queues s q))) (map snd cs) xs), s') \<and> kernel_ok s'
     \<and> q_holds (queues s' q) (snd (buf_run (unat (uxLength (queues s q))) (map snd cs) xs)) \<and> (\<forall>p. p \<noteq> q \<longrightarrow> queues s' p = queues s p)"
  by (rule run_calls_spec [OF assms])

text \<open>A sample queue of two items of one byte in the sample system, with its storage at address 8.\<close>

definition sample_queue :: queue where
  "sample_queue = reset_queue \<lparr>storage = [0, 0], uxQueueType_mutex = False, pcWriteTo = 0, pcTail = 0, pcReadFrom = 0, xMutexHolder = None,
     uxMessagesWaiting = 0, uxLength = 2, uxItemSize = 1, cRxLock = 0, cTxLock = 0\<rparr>"

definition sample_ksys :: ksys where
  "sample_ksys = sample_with \<lparr>queues = (\<lambda>_. sample_queue), heap = heap4_start, xQueueRegistry = []\<rparr>"

lemma sample_ksys_ok: "kernel_ok sample_ksys"
proof -
  have "waiters_ok sample_ksys" by (auto simp: waiters_ok_def sample_ksys_def sample_with_def sample_tcb_def split: if_splits)
  moreover have "some_ready sample_ksys"
    unfolding some_ready_def by (intro exI [of _ 0] exI [of _ 0]) (simp add: sample_ksys_def sample_with_def sample_tcb_def)
  ultimately show ?thesis using sample_sched_ok unfolding kernel_ok_def by (simp add: sample_ksys_def sample_sel)
qed

lemma sample_queue_holds: "q_holds sample_queue []"
  unfolding q_holds_def by (intro exI [of _ 1]) (simp add: ring_at_def sample_queue_def reset_queue_def Let_def)

theorem queue_is_bounded_sequence_witness:
  "\<exists>s'. run_calls 8 [(Task, Put SEND_TO_BACK [1]), (Interrupt, Put SEND_TO_BACK [2]), (Task, Put SEND_TO_BACK [3]), (Task, Get), (Interrupt, Get)] sample_ksys
     = Some ([(None, True), (None, True), (None, False), (Some [1], True), (Some [2], True)], s')"
proof -
  have q: "queues sample_ksys 8 = sample_queue" by (simp add: sample_ksys_def sample_with_def)
  have "unlocked sample_queue" "unat (uxLength sample_queue) = 2" "unat (uxItemSize sample_queue) = 1" by (simp_all add: unlocked_def sample_queue_def reset_queue_def)
  then show ?thesis
    using queue_is_bounded_sequence [OF sample_ksys_ok, of 8 "[]" "[(Task, Put SEND_TO_BACK [1]), (Interrupt, Put SEND_TO_BACK [2]), (Task, Put SEND_TO_BACK [3]), (Task, Get), (Interrupt, Get)]"]
      sample_queue_holds unfolding q by (auto simp: call_fits_def item_fits_def)
qed

text \<open>
  C11. No wake-up is lost on a locked queue: while a task holds the scheduler suspended and the
  queue locked, interrupts that send items do not touch the list of waiting receivers, and
  the items are stored. Unlocking the queue and resuming the scheduler then readies, in the
  order of the list, one waiting receiver per item sent, and the kernel is in order again.
\<close>

theorem locked_queue_wakes_receivers:
  assumes "paused_ok s" and "klists s PendingReady = (ps, None)" and "q_holds (queues s q) xs" and "q \<noteq> 0" and "locked_by 0 (queues s q)"
    and "fst (klists s (xTasksWaitingToReceive q)) = ts" and "length ts \<le> unat (uxCurrentNumberOfTasks s)" and "unat (uxCurrentNumberOfTasks s) \<le> 127"
    and "length xs + length items \<le> unat (uxLength (queues s q))" and "\<forall>x\<in>set items. item_fits (queues s q) x"
  shows "\<exists>s1 s2 b s3. isr_sends q items s = Some s1 \<and> klists s1 = klists s \<and> prvUnlockQueue q s1 = Some s2 \<and> q_holds (queues s2 q) (xs @ items) \<and> unlocked (queues s2 q)
     \<and> fst (klists s2 (xTasksWaitingToReceive q)) = drop (length items) ts \<and> xTaskResumeAll s2 = Some (b, s3) \<and> kernel_ok s3
     \<and> (\<forall>t\<in>set (take (length items) ts). state_in (tcbs s3 t) = Some (Ready (uxPriority (tcbs s3 t))) \<and> event_in (tcbs s3 t) = None)"
proof -
  let ?k = "min (length items) (unat (uxCurrentNumberOfTasks s))"
  obtain s1 where s1: "isr_sends q items s = Some s1" "klists s1 = klists s" "paused_ok s1" "q_holds (queues s1 q) (xs @ items)" "locked_by ?k (queues s1 q)"
    using isr_sends_spec [OF assms(3,4,5) _ assms(8,9,10,1)] by auto
  obtain s2 where s2: "prvUnlockQueue q s1 = Some s2" "paused_ok s2" "unlocked (queues s2 q)" "q_holds (queues s2 q) (xs @ items)"
    "klists s2 PendingReady = (ps @ take ?k ts, None)" "fst (klists s2 (xTasksWaitingToReceive q)) = drop ?k ts"
    using unlock_spec [OF s1(3,5) _ s1(4), of ps] assms(2,6) s1(2) by auto
  have k: "take ?k ts = take (length items) ts" "drop ?k ts = drop (length items) ts" using assms(7) by (auto simp: min_def)
  obtain b s3 where s3: "xTaskResumeAll s2 = Some (b, s3)" "kernel_ok s3" "\<forall>t. event_in (tcbs s2 t) = Some PendingReady \<longrightarrow> tcbs s3 t = readied (tcbs s2 t)"
    using resume_spec [of s2] s2(2) by (auto simp: paused_ok_def)
  have "event_in (tcbs s2 t) = Some PendingReady" if "t \<in> set (take (length items) ts)" for t
    using links_okD(3) [of s2 PendingReady t] s2(2,5) that k(1) by (simp add: paused_ok_def core_ok_def tick_inv_def)
  then have "\<forall>t\<in>set (take (length items) ts). tcbs s3 t = readied (tcbs s2 t)" using s3(3) by blast
  then show ?thesis using s1(1,2) s2 s3(1,2) k by auto
qed

text \<open>The sample system with task 1 waiting for the sample queue, which task 2 has locked.\<close>

definition sample_locked :: ksys where
  "sample_locked = sample_ksys\<lparr>tcbs := (tcbs sample_ksys)(1 := (tcbs sample_ksys 1)\<lparr>event_in := Some (Event 17)\<rparr>),
     klists := (klists sample_ksys)(Event 17 := ([1], None)), queues := (\<lambda>_. lock_queue sample_queue), uxSchedulerSuspended := 1\<rparr>"

lemma sample_locked_ok: "paused_ok sample_locked"
proof -
  have "links_ok sample_locked" by (auto simp: links_ok_def sample_locked_def sample_ksys_def sample_with_def sample_tcb_def alist_ok_def)
  moreover have "ready_ok sample_locked" by (auto simp: ready_ok_def sample_locked_def sample_ksys_def sample_with_def sample_tcb_def configMAX_PRIORITIES_def bit_mask_iff)
  moreover have "delays_ok sample_locked" by (auto simp: delays_ok_def sample_locked_def sample_ksys_def sample_with_def sample_tcb_def split: if_splits)
  moreover have "times_ok sample_locked" by (auto simp: times_ok_def sample_locked_def sample_ksys_def sample_with_def sample_tcb_def)
  moreover have "waiters_ok sample_locked" by (auto simp: waiters_ok_def sample_locked_def sample_ksys_def sample_with_def sample_tcb_def split: if_splits)
  moreover have "some_ready sample_locked"
    unfolding some_ready_def by (intro exI [of _ 0] exI [of _ 0]) (simp add: sample_locked_def sample_ksys_def sample_with_def sample_tcb_def)
  ultimately show ?thesis by (simp add: paused_ok_def core_ok_def tick_inv_def) (simp add: sample_locked_def sample_ksys_def sample_with_def)
qed

theorem locked_queue_wakes_receivers_witness:
  "\<exists>s1 s2 b s3. isr_sends 8 [[7]] sample_locked = Some s1 \<and> prvUnlockQueue 8 s1 = Some s2 \<and> xTaskResumeAll s2 = Some (b, s3)
     \<and> q_holds (queues s2 8) [[7]] \<and> event_in (tcbs s3 1) = None"
proof -
  have q: "queues sample_locked 8 = lock_queue sample_queue" "klists sample_locked PendingReady = ([], None)" "fst (klists sample_locked (xTasksWaitingToReceive 8)) = [1]"
    "uxCurrentNumberOfTasks sample_locked = 3" by (simp_all add: sample_locked_def sample_ksys_def sample_with_def xTasksWaitingToReceive_def)
  have "q_holds (lock_queue sample_queue) []" using sample_queue_holds by (simp add: lock_queue_def q_holds_lock)
  moreover have "locked_by 0 (lock_queue sample_queue)" "unat (uxLength (lock_queue sample_queue)) = 2" "unat (uxItemSize (lock_queue sample_queue)) = 1"
    by (simp_all add: locked_by_def lock_queue_def sample_queue_def reset_queue_def queueUNLOCKED_def queueLOCKED_UNMODIFIED_def)
  ultimately show ?thesis
    using locked_queue_wakes_receivers [OF sample_locked_ok q(2), of 8 "[]" "[1]" "[[7]]"] unfolding q by (auto simp: item_fits_def)
qed

end
