(* ===== verification/Clock_Proofs.thy ===== *)
theory Clock_Proofs
  imports Clock_Tasks Rtos_Queue_Proofs
begin

text \<open>
  What the application does as a whole: invariants of every reachable state of \<open>clock_step\<close>, by
  rule induction. The first sections show that the scheduler never touches queues and what the
  steps of blocking calls do to them, whenever they return.
\<close>

section \<open>The scheduler keeps everything that is not its own\<close>

lemma more_upd [simp]:
  "sched.more (put_list l A s) = sched.more s" "sched.more (upd_tcb t f s) = sched.more s" "sched.more (portYIELD s) = sched.more s"
  "sched.more (vTaskSuspendAll s) = sched.more s" "sched.more (vTaskMissedYield s) = sched.more s" "sched.more (state_insert_end l t s) = sched.more s"
  "sched.more (state_insert l t s) = sched.more s" "sched.more (event_insert l t s) = sched.more s" "sched.more (event_insert_end l t s) = sched.more s"
  "sched.more (prvAddTaskToReadyList t s) = sched.more s" "sched.more (prvResetNextTaskUnblockTime s) = sched.more s"
  by (simp_all add: put_list_def upd_tcb_def portYIELD_def vTaskSuspendAll_def vTaskMissedYield_def state_insert_end_def state_insert_def event_insert_def
      event_insert_end_def prvAddTaskToReadyList_def prvResetNextTaskUnblockTime_def Let_def split: list.splits)

lemma more_removed:
  "state_remove t s = Some (n, s') \<Longrightarrow> sched.more s' = sched.more s" "event_remove t s = Some s' \<Longrightarrow> sched.more s' = sched.more s"
  by (auto simp: state_remove_def event_remove_def Let_def split: option.splits)

lemma more_switched:
  "vTaskSwitchContext s = Some s' \<Longrightarrow> sched.more s' = sched.more s" "taskEXIT_CRITICAL s = Some s' \<Longrightarrow> sched.more s' = sched.more s"
  by (auto simp: taskEXIT_CRITICAL_def vTaskSwitchContext_def taskSELECT_HIGHEST_PRIORITY_TASK_def Let_def split_beta split: if_splits)

lemma more_unblocked: "unblock_expired c sw s = Some (sw', s') \<Longrightarrow> sched.more s' = sched.more s"
proof -
  assume "unblock_expired c sw s = Some (sw', s')"
  from unblock_expired.raw_induct [OF _ this, where P = "\<lambda>c sw s r. sched.more (snd r) = sched.more s"]
  show ?thesis
    by (fastforce dest: more_removed split: list.splits if_splits bind_splits simp: Let_def)
qed

lemma more_readied: "ready_pending m s = Some (m', s') \<Longrightarrow> sched.more s' = sched.more s"
proof -
  assume "ready_pending m s = Some (m', s')"
  from ready_pending.raw_induct [OF _ this, where P = "\<lambda>m s r. sched.more (snd r) = sched.more s"]
  show ?thesis
    by (fastforce dest: more_removed split: list.splits if_splits bind_splits simp: Let_def)
qed

lemma more_ticked: "xTaskIncrementTick s = Some (sw, s') \<Longrightarrow> sched.more s' = sched.more s"
  by (auto simp: xTaskIncrementTick_def taskSWITCH_DELAYED_LISTS_def Let_def dest: more_unblocked split: if_splits bind_splits)

lemma more_pended: "pended_ticks n s = Some s' \<Longrightarrow> sched.more s' = sched.more s"
  by (induction n arbitrary: s) (auto dest: more_ticked split: bind_splits if_splits)

lemma more_resumed: "xTaskResumeAll s = Some (b, s') \<Longrightarrow> sched.more s' = sched.more s"
  by (auto simp: xTaskResumeAll_def Let_def dest!: more_readied more_pended more_switched split: if_splits bind_splits)

lemma more_delayed: "prvAddCurrentTaskToDelayedList n b s = Some s' \<Longrightarrow> sched.more s' = sched.more s"
  by (auto simp: prvAddCurrentTaskToDelayedList_def Let_def dest!: more_removed split: if_splits bind_splits)

lemma more_placed: "vTaskPlaceOnEventList l n s = Some s' \<Longrightarrow> sched.more s' = sched.more s"
  unfolding vTaskPlaceOnEventList_def by (drule more_delayed) simp

lemma more_woken: "xTaskRemoveFromEventList l s = Some (b, s') \<Longrightarrow> sched.more s' = sched.more s"
  by (auto simp: xTaskRemoveFromEventList_def Let_def dest!: more_removed split: list.splits if_splits bind_splits)

lemma more_waked: "wake_waiting l s = Some (b, s') \<Longrightarrow> sched.more s' = sched.more s"
  by (auto simp: wake_waiting_def dest: more_woken split: if_splits)

lemma more_counted: "wake_counted n l s = Some s' \<Longrightarrow> sched.more s' = sched.more s"
  by (induction n arbitrary: s) (auto dest: more_woken split: if_splits bind_splits)

lemma more_delay: "vTaskDelay n s = Some s' \<Longrightarrow> sched.more s' = sched.more s"
  by (auto simp: vTaskDelay_def Let_def dest!: more_delayed more_resumed more_switched split: if_splits bind_splits)

lemma more_tick_handler: "xPortSysTickHandler s = Some s' \<Longrightarrow> sched.more s' = sched.more s"
  by (auto simp: xPortSysTickHandler_def dest!: more_ticked more_switched split: bind_splits)

lemma more_moved: "move_ready t p f s = Some s' \<Longrightarrow> sched.more s' = sched.more s"
  by (auto simp: move_ready_def Let_def dest!: more_removed split: if_splits bind_splits)

lemma more_inherited: "xTaskPriorityInherit h s = Some (b, s') \<Longrightarrow> sched.more s' = sched.more s"
  by (auto simp: xTaskPriorityInherit_def Let_def dest!: more_moved split: option.splits if_splits bind_splits)

lemma more_disinherited: "vTaskPriorityDisinheritAfterTimeout h p s = Some s' \<Longrightarrow> sched.more s' = sched.more s"
  by (auto simp: vTaskPriorityDisinheritAfterTimeout_def Let_def dest!: more_moved split: option.splits if_splits bind_splits)

lemma queues_of_more: "sched.more s' = sched.more s \<Longrightarrow> queues s' = queues s"
  by (cases s, cases s') (simp add: ksys.defs)

lemmas queues_kept = more_switched(2) [THEN queues_of_more] more_resumed [THEN queues_of_more] more_placed [THEN queues_of_more]
  more_waked [THEN queues_of_more] more_counted [THEN queues_of_more] more_delay [THEN queues_of_more] more_tick_handler [THEN queues_of_more]

section \<open>Steps of blocking calls\<close>

text \<open>Two queues that differ in their locks only hold the same.\<close>

definition same_items :: "queue \<Rightarrow> queue \<Rightarrow> bool" where
  "same_items Q Q' \<longleftrightarrow> Q'\<lparr>cRxLock := 0, cTxLock := 0\<rparr> = Q\<lparr>cRxLock := 0, cTxLock := 0\<rparr>"

lemma same_items_refl: "same_items Q Q"
  by (simp add: same_items_def)

lemma same_items_trans: "same_items P Q \<Longrightarrow> same_items Q R \<Longrightarrow> same_items P R"
  by (simp add: same_items_def)

lemma same_items_locks: "same_items Q (lock_queue Q)" "same_items Q (Q\<lparr>cRxLock := a\<rparr>)" "same_items Q (Q\<lparr>cTxLock := a\<rparr>)"
  by (simp_all add: same_items_def lock_queue_def)

definition all_same :: "ksys \<Rightarrow> ksys \<Rightarrow> bool" where
  "all_same s s' \<longleftrightarrow> (\<forall>q. same_items (queues s q) (queues s' q))"

lemma all_same_refl: "queues s' = queues s \<Longrightarrow> all_same s s'"
  by (simp add: all_same_def same_items_refl)

lemma all_same_trans: "all_same s t \<Longrightarrow> all_same t u \<Longrightarrow> all_same s u"
  unfolding all_same_def using same_items_trans by blast

lemma all_same_upd: "(\<And>Q. same_items Q (f Q)) \<Longrightarrow> all_same s (upd_queue q f s)"
  by (simp add: all_same_def same_items_refl)

lemma exit_same: "taskEXIT_CRITICAL (upd_queue q f s) = Some s' \<Longrightarrow> (\<And>Q. same_items Q (f Q)) \<Longrightarrow> all_same s s'"
  by (drule queues_kept(1)) (simp add: all_same_def same_items_refl)

lemma lock_same: "prvLockQueue q s = Some s' \<Longrightarrow> all_same s s'"
  unfolding prvLockQueue_def by (erule exit_same) (rule same_items_locks)

lemma unlock_same:
  assumes "prvUnlockQueue q s = Some s'"
  shows "all_same s s'"
proof -
  obtain s1 s2 s3 where s: "wake_counted (nat (cTxLock (queues s q))) (xTasksWaitingToReceive q) s = Some s1"
    "taskEXIT_CRITICAL (upd_queue q (\<lambda>Q. Q\<lparr>cTxLock := queueUNLOCKED\<rparr>) s1) = Some s2"
    "wake_counted (nat (cRxLock (queues s2 q))) (xTasksWaitingToSend q) s2 = Some s3"
    "taskEXIT_CRITICAL (upd_queue q (\<lambda>Q. Q\<lparr>cRxLock := queueUNLOCKED\<rparr>) s3) = Some s'"
    using assms by (auto simp: prvUnlockQueue_def split: bind_splits)
  have "all_same s s1" "all_same s2 s3" using queues_kept(5) [OF s(1)] queues_kept(5) [OF s(3)] by (simp_all add: all_same_refl)
  moreover have "all_same s1 s2" "all_same s3 s'" using exit_same [OF s(2)] exit_same [OF s(4)] by (simp_all add: same_items_locks)
  ultimately show ?thesis using all_same_trans by blast
qed

lemma resume_same: "xTaskResumeAll s = Some (b, s') \<Longrightarrow> all_same s s'" "resume_and_yield s = Some s' \<Longrightarrow> all_same s s'"
proof -
  show r: "xTaskResumeAll s = Some (b, s') \<Longrightarrow> all_same s s'" for s s' b using queues_kept(2) all_same_refl by metis
  show "resume_and_yield s = Some s' \<Longrightarrow> all_same s s'"
    by (auto simp: resume_and_yield_def dest!: queues_kept(1,2) intro!: all_same_refl split: bind_splits if_splits)
qed

lemma wait_section_same:
  assumes "wait_section q l still before after W s = Some (r, s')"
    and "\<And>i u j v. before i u = Some (j, v) \<Longrightarrow> all_same u v" and "\<And>W u r v. after W u = Some (r, v) \<Longrightarrow> all_same u v"
  shows "all_same s s'" and "(\<exists>W'. r = Again W') \<or> (\<exists>W' u v. after W' u = Some (r, v))"
proof -
  obtain t where t: "xTimeOut W = Some t" using assms(1) by (cases "xTimeOut W") (auto simp: wait_section_def)
  obtain s1 where s1: "prvLockQueue q (vTaskSuspendAll s) = Some s1" using assms(1) t by (auto simp: wait_section_def split: bind_splits)
  have a: "all_same s s1" using lock_same [OF s1] queues_of_more [of "vTaskSuspendAll s" s] by (auto simp: all_same_def)
  obtain ex t1 left where c: "xTaskCheckForTimeOut t (xTicksToWait W) s1 = (ex, t1, left)" by (metis prod_cases3)
  let ?W = "W\<lparr>xTimeOut := Some t1, xTicksToWait := left\<rparr>"
  consider (placed) i s2 s3 s4 where "before (xInheritanceOccurred W) s1 = Some (i, s2)" "vTaskPlaceOnEventList l left s2 = Some s3" "prvUnlockQueue q s3 = Some s4"
      "resume_and_yield s4 = Some s'" "r = Again (?W\<lparr>xInheritanceOccurred := i\<rparr>)"
    | (retry) s2 y where "prvUnlockQueue q s1 = Some s2" "xTaskResumeAll s2 = Some (y, s')" "r = Again ?W"
    | (expired) s2 y s3 where "prvUnlockQueue q s1 = Some s2" "xTaskResumeAll s2 = Some (y, s3)" "after ?W s3 = Some (r, s')"
    using assms(1) s1 c t by (auto simp: wait_section_def Let_def split: if_splits bind_splits)
  note cases = this
  from cases show "all_same s s'"
  proof cases
    case placed
    have "all_same s2 s3" using queues_kept(3) [OF placed(2)] by (rule all_same_refl)
    then show ?thesis using a assms(2) [OF placed(1)] unlock_same [OF placed(3)] resume_same(2) [OF placed(4)] by (blast intro: all_same_trans)
  next
    case retry
    then show ?thesis using a unlock_same resume_same(1) by (blast intro: all_same_trans)
  next
    case expired
    then show ?thesis using a assms(3) unlock_same resume_same(1) by (blast intro: all_same_trans)
  qed
  from cases show "(\<exists>W'. r = Again W') \<or> (\<exists>W' u v. after W' u = Some (r, v))" by cases blast+
qed

lemma give_up_same: "give_up_or_wait r W s = Some (r', s') \<Longrightarrow> all_same s s' \<and> (r' = Return r \<or> (\<exists>W'. r' = Again W'))"
  by (auto simp: give_up_or_wait_def dest!: queues_kept(1) intro!: all_same_refl split: bind_splits if_splits)

lemma before_same: "inherit_before q i s = Some (j, s') \<Longrightarrow> all_same s s'"
  by (auto simp: inherit_before_def dest!: more_inherited [THEN queues_of_more] queues_kept(1) intro!: all_same_refl split: if_splits bind_splits)

lemma take_after_same: "take_timed_out q W s = Some (r, s') \<Longrightarrow> all_same s s' \<and> r \<noteq> Return True"
  by (auto simp: take_timed_out_def dest!: more_disinherited [THEN queues_of_more] queues_kept(1) intro!: all_same_refl split: if_splits bind_splits)

lemma block_sections_same:
  "xQueueGenericSend_block q W s = Some (r, s') \<Longrightarrow> all_same s s' \<and> r \<noteq> Return True"
  "xQueueReceive_block q W s = Some (r', s') \<Longrightarrow> all_same s s' \<and> (\<forall>bs. r' \<noteq> Return (Some bs))"
  "xQueueSemaphoreTake_block q W s = Some (r, s') \<Longrightarrow> all_same s s' \<and> r \<noteq> Return True"
proof -
  assume *: "xQueueGenericSend_block q W s = Some (r, s')"
  show "all_same s s' \<and> r \<noteq> Return True"
    using wait_section_same [OF * [unfolded xQueueGenericSend_block_def]] by (auto simp: all_same_refl)
next
  assume *: "xQueueReceive_block q W s = Some (r', s')"
  show "all_same s s' \<and> (\<forall>bs. r' \<noteq> Return (Some bs))"
    using wait_section_same [OF * [unfolded xQueueReceive_block_def]] by (auto simp: all_same_refl if_still_empty_def split: if_splits)
next
  assume *: "xQueueSemaphoreTake_block q W s = Some (r, s')"
  note w = wait_section_same [OF * [unfolded xQueueSemaphoreTake_block_def]]
  have "all_same s s'" by (rule w(1)) (use before_same take_after_same in blast)+
  moreover have "(\<exists>W'. r = Again W') \<or> (\<exists>W' u v. take_timed_out q W' u = Some (r, v))" by (rule w(2)) (use before_same take_after_same in blast)+
  ultimately show "all_same s s' \<and> r \<noteq> Return True" using take_after_same by blast
qed

text \<open>The critical sections either do the operation or change nothing.\<close>

lemma finish_queues: "taskEXIT_CRITICAL (queueYIELD_IF_USING_PREEMPTION y s) = Some s' \<Longrightarrow> queues s' = queues s"
  by (drule queues_kept(1)) (simp add: queueYIELD_IF_USING_PREEMPTION_def)

lemma send_try_effect:
  assumes "xQueueGenericSend_try q item SEND_TO_BACK W s = Some (r, s')" and "\<not> uxQueueType_mutex (queues s q)"
  shows "if r = Return True then uxMessagesWaiting (queues s q) < uxLength (queues s q)
           \<and> queues s' = (queues s)(q := if uxItemSize (queues s q) = 0 then (queues s q)\<lparr>uxMessagesWaiting := uxMessagesWaiting (queues s q) + 1\<rparr>
                                        else put_item SEND_TO_BACK item (queues s q))
         else all_same s s'"
proof (cases "uxMessagesWaiting (queues s q) < uxLength (queues s q)")
  case True
  obtain y s1 w s2 where c: "prvCopyDataToQueue q item SEND_TO_BACK s = Some (y, s1)" and w: "wake_waiting (xTasksWaitingToReceive q) s1 = Some (w, s2)"
    and e: "taskEXIT_CRITICAL (queueYIELD_IF_USING_PREEMPTION (if fst (klists s1 (xTasksWaitingToReceive q)) \<noteq> [] then w else y) s2) = Some s'" and r: "r = Return True"
    using assms(1) True by (auto simp: xQueueGenericSend_try_def Let_def split: bind_splits)
  have "queues s' = queues s1" using finish_queues [OF e] queues_kept(4) [OF w] by simp
  moreover have "queues s1 = (queues s)(q := if uxItemSize (queues s q) = 0 then (queues s q)\<lparr>uxMessagesWaiting := uxMessagesWaiting (queues s q) + 1\<rparr>
      else put_item SEND_TO_BACK item (queues s q))"
  proof (cases "uxItemSize (queues s q) = 0")
    case True
    then show ?thesis using c assms(2) by (auto simp: prvCopyDataToQueue_def Let_def)
  next
    case False
    then show ?thesis using c by (auto simp: copy_is_put)
  qed
  ultimately show ?thesis using True r by simp
next
  case False
  then have "give_up_or_wait False W s = Some (r, s')" using assms(1) by (simp add: xQueueGenericSend_try_def Let_def)
  then show ?thesis using give_up_same by fastforce
qed

lemma take_try_effect:
  assumes "xQueueSemaphoreTake_try q W s = Some (r, s')" and "\<not> uxQueueType_mutex (queues s q)"
  shows "if r = Return True then 0 < uxMessagesWaiting (queues s q)
           \<and> queues s' = (queues s)(q := (queues s q)\<lparr>uxMessagesWaiting := uxMessagesWaiting (queues s q) - 1\<rparr>)
         else all_same s s'"
proof (cases "0 < uxMessagesWaiting (queues s q)")
  case True
  then have "r = Return True \<and> queues s' = (queues s)(q := (queues s q)\<lparr>uxMessagesWaiting := uxMessagesWaiting (queues s q) - 1\<rparr>)"
    using assms by (auto simp: xQueueSemaphoreTake_try_def Let_def dest!: finish_queues queues_kept(4) split: bind_splits)
  then show ?thesis using True by simp
next
  case False
  then have "give_up_or_wait False W s = Some (r, s')" using assms(1) by (simp add: xQueueSemaphoreTake_try_def Let_def)
  then show ?thesis using give_up_same by fastforce
qed

lemma receive_try_effect:
  assumes "xQueueReceive_try q W s = Some (r, s')"
  shows "if (\<exists>bs. r = Return (Some bs)) then 0 < uxMessagesWaiting (queues s q) \<and> r = Return (Some (fst (get_item (queues s q))))
           \<and> queues s' = (queues s)(q := snd (get_item (queues s q)))
         else all_same s s'"
proof (cases "0 < uxMessagesWaiting (queues s q)")
  case True
  obtain bs Q1 where f: "prvCopyDataFromQueue (queues s q) = (bs, Q1)" by (cases "prvCopyDataFromQueue (queues s q)")
  have "r = Return (Some bs) \<and> queues s' = (queues s)(q := Q1\<lparr>uxMessagesWaiting := uxMessagesWaiting (queues s q) - 1\<rparr>)"
    using assms True f by (auto simp: xQueueReceive_try_def Let_def dest!: finish_queues queues_kept(4) split: bind_splits)
  then show ?thesis using True get_is_fetch [OF f] by simp
next
  case False
  then have "give_up_or_wait None W s = Some (r, s')" using assms(1) by (simp add: xQueueReceive_try_def Let_def)
  then show ?thesis using give_up_same by fastforce
qed

text \<open>The same for the calls as the tasks make them.\<close>

lemma call_stepE:
  assumes "call_step enter try_section block_section c s = Some (r, s')"
  obtains (entered) res where "c = Enter" "enter s = Some (res, s')" "r = (case res of Return v \<Rightarrow> Inl v | Again W \<Rightarrow> Inr (Block W))"
  | (tried) W res where "c = Try W" "try_section W s = Some (res, s')" "r = (case res of Return v \<Rightarrow> Inl v | Again W \<Rightarrow> Inr (Block W))"
  | (blocked) W res where "c = Block W" "block_section W s = Some (res, s')" "r = (case res of Return v \<Rightarrow> Inl v | Again W \<Rightarrow> Inr (Try W))"
  using assms by (cases c) (auto simp: call_step_def split: bind_splits outcome.splits)

lemma send_call_effect:
  assumes "send_call q item n c s = Some (r, s')" and "\<not> uxQueueType_mutex (queues s q)"
  shows "if r = Inl True then uxMessagesWaiting (queues s q) < uxLength (queues s q)
           \<and> queues s' = (queues s)(q := if uxItemSize (queues s q) = 0 then (queues s q)\<lparr>uxMessagesWaiting := uxMessagesWaiting (queues s q) + 1\<rparr>
                                        else put_item SEND_TO_BACK item (queues s q))
         else all_same s s'"
  using assms(1) unfolding send_call_def
proof (cases rule: call_stepE)
  case (entered res)
  then have "xQueueGenericSend_try q item SEND_TO_BACK (call_start n) s = Some (res, s')" by (simp add: xQueueGenericSend_def split: if_splits)
  then show ?thesis using send_try_effect [OF _ assms(2)] entered(3) by (fastforce split: outcome.splits)
next
  case (tried W res)
  then show ?thesis using send_try_effect [OF _ assms(2)] by (fastforce split: outcome.splits)
next
  case (blocked W res)
  then show ?thesis using block_sections_same(1) by (fastforce split: outcome.splits)
qed

lemma take_call_effect:
  assumes "take_call q n c s = Some (r, s')" and "\<not> uxQueueType_mutex (queues s q)"
  shows "if r = Inl True then 0 < uxMessagesWaiting (queues s q)
           \<and> queues s' = (queues s)(q := (queues s q)\<lparr>uxMessagesWaiting := uxMessagesWaiting (queues s q) - 1\<rparr>)
         else all_same s s'"
  using assms(1) unfolding take_call_def
proof (cases rule: call_stepE)
  case (entered res)
  then have "xQueueSemaphoreTake_try q (call_start n) s = Some (res, s')" by (simp add: xQueueSemaphoreTake_def split: if_splits)
  then show ?thesis using take_try_effect [OF _ assms(2)] entered(3) by (fastforce split: outcome.splits)
next
  case (tried W res)
  then show ?thesis using take_try_effect [OF _ assms(2)] by (fastforce split: outcome.splits)
next
  case (blocked W res)
  then show ?thesis using block_sections_same(3) by (fastforce split: outcome.splits)
qed

lemma receive_call_effect:
  assumes "receive_call q n c s = Some (r, s')"
  shows "if (\<exists>bs. r = Inl (Some bs)) then 0 < uxMessagesWaiting (queues s q) \<and> r = Inl (Some (fst (get_item (queues s q))))
           \<and> queues s' = (queues s)(q := snd (get_item (queues s q)))
         else all_same s s'"
  using assms(1) unfolding receive_call_def
proof (cases rule: call_stepE)
  case (entered res)
  then have "xQueueReceive_try q (call_start n) s = Some (res, s')" by (simp add: xQueueReceive_def split: if_splits)
  then show ?thesis using receive_try_effect entered(3) by (fastforce split: outcome.splits)
next
  case (tried W res)
  then show ?thesis using receive_try_effect by (fastforce split: outcome.splits)
next
  case (blocked W res)
  then show ?thesis using block_sections_same(2) by (fastforce split: outcome.splits)
qed

section \<open>The semaphore and the queue of the application\<close>

definition sem_holds :: "nat \<Rightarrow> queue \<Rightarrow> bool" where
  "sem_holds n Q \<longleftrightarrow> uxItemSize Q = 0 \<and> \<not> uxQueueType_mutex Q \<and> uxLength Q = 1 \<and> uxMessagesWaiting Q = of_nat n \<and> n \<le> 1"

definition box_holds :: "time_msg list \<Rightarrow> queue \<Rightarrow> bool" where
  "box_holds ms Q \<longleftrightarrow> uxItemSize Q = 3 \<and> uxLength Q = 1 \<and> q_holds Q (map msg_bytes ms)"

definition ipc :: "nat \<Rightarrow> nat \<Rightarrow> nat \<Rightarrow> time_msg list \<Rightarrow> ksys \<Rightarrow> bool" where
  "ipc sq tq n ms k \<longleftrightarrow> sq \<noteq> tq \<and> sem_holds n (queues k sq) \<and> box_holds ms (queues k tq)"

lemma holds_zero_locks:
  "sem_holds n (Q\<lparr>cRxLock := a, cTxLock := b\<rparr>) = sem_holds n Q" "box_holds ms (Q\<lparr>cRxLock := a, cTxLock := b\<rparr>) = box_holds ms Q"
  by (simp_all add: sem_holds_def box_holds_def q_holds_lock)

lemma holds_same: "same_items Q Q' \<Longrightarrow> sem_holds n Q \<Longrightarrow> sem_holds n Q'" "same_items Q Q' \<Longrightarrow> box_holds ms Q \<Longrightarrow> box_holds ms Q'"
  unfolding same_items_def using holds_zero_locks by metis+

lemma ipc_same: "all_same k k' \<Longrightarrow> ipc sq tq n ms k \<Longrightarrow> ipc sq tq n ms k'"
  unfolding all_same_def ipc_def using holds_same by blast

lemma box_bound: "box_holds ms Q \<Longrightarrow> length ms \<le> 1"
  using q_holds_count(2) [of Q "map msg_bytes ms"] by (simp add: box_holds_def)

lemma msg_of_bytes [simp]: "msg_of (msg_bytes m) = m"
  by (simp add: msg_of_def msg_bytes_def)

lemma ipc_give:
  assumes "send_call sq [] n c k = Some (r, k')" and "ipc sq tq i ms k"
  shows "if r = Inl True then i = 0 \<and> ipc sq tq 1 ms k' else ipc sq tq i ms k'"
proof -
  have h: "sem_holds i (queues k sq)" "sq \<noteq> tq" "box_holds ms (queues k tq)" using assms(2) by (simp_all add: ipc_def)
  then have e: "if r = Inl True then uxMessagesWaiting (queues k sq) < uxLength (queues k sq)
      \<and> queues k' = (queues k)(sq := (queues k sq)\<lparr>uxMessagesWaiting := uxMessagesWaiting (queues k sq) + 1\<rparr>) else all_same k k'"
    using send_call_effect [OF assms(1)] unfolding sem_holds_def by presburger
  have "i = 0 \<or> i = 1" using h(1) by (auto simp: sem_holds_def)
  then show ?thesis using e h ipc_same [OF _ assms(2)] by (auto simp: ipc_def sem_holds_def split: if_splits)
qed

lemma ipc_take:
  assumes "take_call sq n c k = Some (r, k')" and "ipc sq tq i ms k"
  shows "if r = Inl True then i = 1 \<and> ipc sq tq 0 ms k' else ipc sq tq i ms k'"
proof -
  have h: "sem_holds i (queues k sq)" "sq \<noteq> tq" "box_holds ms (queues k tq)" using assms(2) by (simp_all add: ipc_def)
  then have e: "if r = Inl True then 0 < uxMessagesWaiting (queues k sq)
      \<and> queues k' = (queues k)(sq := (queues k sq)\<lparr>uxMessagesWaiting := uxMessagesWaiting (queues k sq) - 1\<rparr>) else all_same k k'"
    using take_call_effect [OF assms(1)] by (simp add: sem_holds_def)
  have "i = 0 \<or> i = 1" using h(1) by (auto simp: sem_holds_def)
  then show ?thesis using e h ipc_same [OF _ assms(2)] by (auto simp: ipc_def sem_holds_def split: if_splits)
qed

lemma put_item_shape: "uxItemSize (put_item p x Q) = uxItemSize Q" "uxLength (put_item p x Q) = uxLength Q"
  by (simp_all add: put_item_def copy_to_def Let_def)

lemma get_item_shape: "uxItemSize (snd (get_item Q)) = uxItemSize Q" "uxLength (snd (get_item Q)) = uxLength Q"
  by (simp_all add: get_item_def prvCopyDataFromQueue_def Let_def split_beta)

lemma ipc_send:
  assumes "send_call tq (msg_bytes m) n c k = Some (r, k')" and "ipc sq tq i ms k"
  shows "if r = Inl True then ms = [] \<and> ipc sq tq i [m] k' else ipc sq tq i ms k'"
proof (cases "r = Inl True")
  case True
  have h: "sem_holds i (queues k sq)" "sq \<noteq> tq" "q_holds (queues k tq) (map msg_bytes ms)" "uxItemSize (queues k tq) = 3" "uxLength (queues k tq) = 1"
    using assms(2) by (simp_all add: ipc_def box_holds_def)
  note c = q_holds_count [OF h(3)]
  have e: "uxMessagesWaiting (queues k tq) < uxLength (queues k tq)" "queues k' = (queues k)(tq := put_item SEND_TO_BACK (msg_bytes m) (queues k tq))"
    using send_call_effect [OF assms(1) c(5)] True h(4) by auto
  have ms: "ms = []" using e(1) c(1) h(5) by (simp add: word_less_nat_alt)
  have "q_holds (put_item SEND_TO_BACK (msg_bytes m) (queues k tq)) (map msg_bytes ms @ [msg_bytes m])"
    using ring.put_back [OF h(3), of "msg_bytes m"] ms h(4,5) by (simp add: item_fits_def msg_bytes_def)
  then show ?thesis using True ms h e(2) by (simp add: ipc_def box_holds_def put_item_shape)
next
  case False
  then have "all_same k k'" using send_call_effect [OF assms(1)] assms(2) q_holds_count(5) unfolding ipc_def box_holds_def by (metis (full_types))
  then show ?thesis using False ipc_same [OF _ assms(2)] by simp
qed

lemma ipc_receive:
  assumes "receive_call tq n c k = Some (r, k')" and "ipc sq tq i ms k"
  shows "if (\<exists>bs. r = Inl (Some bs)) then \<exists>m. ms = [m] \<and> r = Inl (Some (msg_bytes m)) \<and> ipc sq tq i [] k' else ipc sq tq i ms k'"
proof (cases "\<exists>bs. r = Inl (Some bs)")
  case True
  have h: "sem_holds i (queues k sq)" "sq \<noteq> tq" "q_holds (queues k tq) (map msg_bytes ms)" "uxItemSize (queues k tq) = 3" "uxLength (queues k tq) = 1"
    using assms(2) by (simp_all add: ipc_def box_holds_def)
  have e: "0 < uxMessagesWaiting (queues k tq)" "r = Inl (Some (fst (get_item (queues k tq))))" "queues k' = (queues k)(tq := snd (get_item (queues k tq)))"
    using receive_call_effect [OF assms(1)] True by auto
  have "length ms = 1" using e(1) q_holds_count(1,2) [OF h(3)] h(5) by (cases ms) (simp_all add: word_less_nat_alt)
  then obtain m where m: "ms = [m]" by (auto simp: length_Suc_conv)
  have g: "fst (get_item (queues k tq)) = msg_bytes m" "q_holds (snd (get_item (queues k tq))) []"
    using ring.get_first [of "queues k tq" "msg_bytes m" "[]"] h(3) m by auto
  then show ?thesis using True m h e by (simp add: ipc_def box_holds_def get_item_shape)
next
  case False
  then have "all_same k k'" using receive_call_effect [OF assms(1)] by (simp only: if_False)
  then show ?thesis using False ipc_same [OF _ assms(2)] by simp
qed

section \<open>The console and the NTP client\<close>

text \<open>A console operation that returns has changed nothing but the console.\<close>

definition console_only :: "'a uart_scheme \<Rightarrow> 'a uart_scheme \<Rightarrow> bool" where
  "console_only u v \<longleftrightarrow> uart.more v = uart.more u"

lemma putc_only: "uart_putc c u = Some v \<Longrightarrow> console_only u v"
proof -
  assume "uart_putc c u = Some v"
  from uart_putc.raw_induct [OF _ this, where P = "\<lambda>c u v. uart.more v = uart.more u"] show ?thesis
    by (fastforce simp: console_only_def UART0_STATE_def split: if_splits)
qed

lemma puts_only: "uart_puts s u = Some v \<Longrightarrow> console_only u v"
  by (induction s arbitrary: u) (auto simp: uart_puts.simps console_only_def dest!: putc_only split: if_splits bind_splits)

lemma print_only: "uart_print f as u = Some v \<Longrightarrow> console_only u v"
  by (auto simp: uart_print_def uart_printf_def console_only_def Let_def dest!: puts_only split: bind_splits)

lemma timestamp_of_more: "console_only (u :: 'a sys_scheme) v \<Longrightarrow> ntp_timestamp v = ntp_timestamp u"
  by (cases u, cases v) (simp add: console_only_def)

lemma fail_is_no_answer: "ntp_fail t pcb msg s \<noteq> Some (0, m, b')"
  by (auto simp: ntp_fail_def split: bind_splits)

lemma answer_awaited:
  assumes "ntp_get_time poll env msg b = Some (0, m, b')"
  shows "\<exists>pcb err u. ntp_await poll pcb err msg u = Some (0, m, b')"
proof -
  obtain s1 where s1: "uart_puts (''NTP: Sending time request...'' @ crlf) b = Some s1"
    using assms unfolding ntp_get_time_def by (auto simp: bind_eq_Some_conv)
  let ?s2 = "s1\<lparr>ntp_response_received := 0, ntp_timestamp := 0\<rparr>"
  obtain a v where a: "udp_new (udp ?s2) = (a, v)" by (cases "udp_new (udp ?s2)")
  show ?thesis
  proof (cases a)
    case None
    then show ?thesis using assms s1 a by (auto simp: ntp_get_time_def Let_def bind_eq_Some_conv)
  next
    case (Some pcb)
    note * = assms [unfolded ntp_get_time_def s1 Let_def a Some bind.simps prod.case option.case]
    show ?thesis using * by (auto simp only: bind_eq_Some_conv split_paired_Ex prod.case fail_is_no_answer split: if_splits)
  qed
qed

lemma answer_is_converted:
  assumes "ntp_get_time poll env msg b = Some (0, m, b')"
  shows "m = ntp_to_msg (ntp_timestamp b')"
proof -
  obtain pcb err u where "ntp_await poll pcb err msg u = Some (0, m, b')" using answer_awaited [OF assms] by blast
  then obtain s4 args where "m = ntp_to_msg (ntp_timestamp s4)" "uart_print (''NTP: IST time = %02d:%02d:%02d'' @ crlf) args s4 = Some b'"
    unfolding ntp_await_def Let_def by (auto simp only: bind_eq_Some_conv option.inject prod.inject split: if_splits)
  then show ?thesis using print_only [THEN timestamp_of_more] by metis
qed

section \<open>The invariant\<close>

definition asked :: "key_pc \<Rightarrow> nat" where
  "asked p = (case p of KSay _ \<Rightarrow> 1 | KGive \<Rightarrow> 1 | _ \<Rightarrow> 0)"

definition requests_ok :: "clock \<Rightarrow> bool" where
  "requests_ok w \<longleftrightarrow> taken w \<le> given w \<and> given w + asked (key_at w) \<le> presses w"

text \<open>
  The answers of the time server so far and the messages sent so far, in terms of the requests
  taken: a query is under way for a request that has no answer yet, and a message about to be
  sent is the last answer.
\<close>

fun answers_at :: "ntp_pc \<Rightarrow> nat \<Rightarrow> u32 list \<Rightarrow> time_msg list \<Rightarrow> bool" where
  "answers_at (NSend m c) n us ms = (length us \<le> n \<and> us \<noteq> [] \<and> m = ntp_to_msg (last us) \<and> subseq ms (map ntp_to_msg (butlast us)))"
| "answers_at (NQuery r) n us ms = (length us < n \<and> subseq ms (map ntp_to_msg us))"
| "answers_at (NRetry r) n us ms = (length us < n \<and> subseq ms (map ntp_to_msg us))"
| "answers_at _ n us ms = (length us \<le> n \<and> subseq ms (map ntp_to_msg us))"

definition answers_ok :: "clock \<Rightarrow> bool" where
  "answers_ok w \<longleftrightarrow> answers_at (ntp_at w) (taken w) (answers w) (sent w)"

definition channels_ok :: "clock \<Rightarrow> bool" where
  "channels_ok w \<longleftrightarrow> (\<exists>ms. sent w = heard w @ ms \<and> ipc (time_request_sem w) (time_queue w) (given w - taken w) ms (kernel w))"

text \<open>What is still to be written of strings, and the text of an announcement besides its first line.\<close>

definition unsaid :: "out_item list \<Rightarrow> string" where
  "unsaid os = concat (map (\<lambda>i. case i of Puts t \<Rightarrow> t | _ \<Rightarrow> []) os)"

definition plain :: "out_item list \<Rightarrow> bool" where
  "plain os \<longleftrightarrow> (\<forall>t. Puts t \<in> set os \<longrightarrow> nul_free t)"

definition to_say :: "speech_pc \<Rightarrow> out_item list" where
  "to_say p = (case p of SBanner os \<Rightarrow> os | SSay os \<Rightarrow> os | SReceive c \<Rightarrow> [])"

definition spoken_text :: "time_msg list \<Rightarrow> string" where
  "spoken_text ms = concat (map (\<lambda>m. speech_text (hour m) (minute m) (second m)) ms)"

definition speech_ok :: "clock \<Rightarrow> bool" where
  "speech_ok w \<longleftrightarrow> plain (to_say (speech_at w)) \<and> said w @ unsaid (to_say (speech_at w)) = speech_banner @ spoken_text (heard w)"

definition clock_inv :: "clock \<Rightarrow> bool" where
  "clock_inv w \<longleftrightarrow> requests_ok w \<and> answers_ok w \<and> channels_ok w \<and> speech_ok w"

lemmas inv_defs = clock_inv_def requests_ok_def answers_ok_def channels_ok_def speech_ok_def

lemma inv_board: "clock_inv (w\<lparr>board := b\<rparr>) = clock_inv w"
  by (simp add: inv_defs)

lemma inv_kernel: "all_same (kernel w) k \<Longrightarrow> clock_inv w \<Longrightarrow> clock_inv (w\<lparr>kernel := k\<rparr>)"
  by (auto simp: inv_defs intro: ipc_same)

lemma delay_same: "vTaskDelay n s = Some s' \<Longrightarrow> all_same s s'"
  by (rule all_same_refl) (rule queues_kept(6))

section \<open>Every step keeps the invariant\<close>

lemma key_keeps:
  assumes "key_step w = Some w'" and "clock_inv w"
  shows "clock_inv w'"
proof (cases "key_at w")
  case KGive
  obtain r k where r: "send_call (time_request_sem w) [] 0 Enter (kernel w) = Some (r, k)"
    and w': "w' = w\<lparr>kernel := k, key_at := KDelay, given := given w + (if r = Inl True then 1 else 0)\<rparr>"
    using assms(1) KGive by (auto simp: key_step_def split: bind_splits)
  obtain ms where ms: "sent w = heard w @ ms" "ipc (time_request_sem w) (time_queue w) (given w - taken w) ms (kernel w)"
    using assms(2) by (auto simp: inv_defs)
  from ipc_give [OF r ms(2)] have "ipc (time_request_sem w) (time_queue w) (given w' - taken w) ms k"
    using assms(2) w' by (auto simp: inv_defs split: if_splits)
  then show ?thesis using assms(2) w' KGive ms(1) by (auto simp: inv_defs asked_def split: if_splits)
next
  case KDelay
  then obtain k where k: "vTaskDelay (pdMS_TO_TICKS 50) (kernel w) = Some k" "w' = w\<lparr>kernel := k, key_at := KPoll\<rparr>"
    using assms(1) by (auto simp: key_step_def split: bind_splits)
  have "clock_inv (w\<lparr>kernel := k\<rparr>)" using inv_kernel [OF delay_same [OF k(1)] assms(2)] .
  then show ?thesis using k(2) KDelay by (simp add: inv_defs asked_def)
qed (use assms in \<open>auto simp: key_step_def inv_defs asked_def Let_def split_beta split: if_splits bind_splits\<close>)

text \<open>A step of the NTP task that moves on without a message or a request.\<close>

lemma ntp_moves:
  assumes "clock_inv w" and "all_same (kernel w) k" and "answers_at p (taken w) (answers w) (sent w)"
  shows "clock_inv (w\<lparr>kernel := k, board := b, msg_buf := m, ntp_at := p\<rparr>)"
proof -
  have "clock_inv (w\<lparr>kernel := k\<rparr>)" by (rule inv_kernel [OF assms(2,1)])
  then show ?thesis using assms(3) by (simp add: inv_defs)
qed

lemmas ntp_moves_same = ntp_moves [OF _ all_same_refl [OF refl]]

lemma ntp_take_keeps:
  assumes "ntp_step x w = Some w'" and "clock_inv w" and "ntp_at w = NTake c"
  shows "clock_inv w'"
proof -
  obtain r k where r: "take_call (time_request_sem w) (pdMS_TO_TICKS 100) c (kernel w) = Some (r, k)"
    using assms(1,3) by (auto simp: ntp_step_def bind_eq_Some_conv)
  obtain ms where ms: "sent w = heard w @ ms" "ipc (time_request_sem w) (time_queue w) (given w - taken w) ms (kernel w)"
    using assms(2) by (auto simp: inv_defs)
  note e = ipc_take [OF r ms(2)]
  show ?thesis
  proof (cases "r = Inl True")
    case True
    then obtain b where w': "w' = w\<lparr>kernel := k, board := b, ntp_at := NQuery 3, taken := taken w + 1\<rparr>"
      using assms(1,3) r by (auto simp: ntp_step_def bind_eq_Some_conv)
    have "given w - taken w = 1" "ipc (time_request_sem w) (time_queue w) 0 ms k" using e True by simp_all
    then show ?thesis using assms(2,3) w' ms(1) by (auto simp: inv_defs)
  next
    case False
    then obtain p where p: "w' = w\<lparr>kernel := k, ntp_at := p\<rparr>" "p = NPoll \<or> (\<exists>c1. p = NTake c1)"
      using assms(1,3) r by (auto simp: ntp_step_def bind_eq_Some_conv split: sum.splits bool.splits)
    then show ?thesis using assms(2,3) e False ms(1) by (auto simp: inv_defs)
  qed
qed

lemma ntp_send_keeps:
  assumes "ntp_step x w = Some w'" and "clock_inv w" and "ntp_at w = NSend m c"
  shows "clock_inv w'"
proof -
  obtain r k where r: "send_call (time_queue w) (msg_bytes m) (pdMS_TO_TICKS 1000) c (kernel w) = Some (r, k)"
    using assms(1,3) by (auto simp: ntp_step_def bind_eq_Some_conv)
  obtain ms where ms: "sent w = heard w @ ms" "ipc (time_request_sem w) (time_queue w) (given w - taken w) ms (kernel w)"
    using assms(2) by (auto simp: inv_defs)
  note e = ipc_send [OF r ms(2)]
  have a: "length (answers w) \<le> taken w" "answers w \<noteq> []" "m = ntp_to_msg (last (answers w))" "subseq (sent w) (map ntp_to_msg (butlast (answers w)))"
    using assms(2,3) by (simp_all add: inv_defs)
  have all: "map ntp_to_msg (answers w) = map ntp_to_msg (butlast (answers w)) @ [m]"
    using a(2,3) by (metis append_butlast_last_id list.simps(8,9) map_append)
  have sub: "subseq (sent w @ [m]) (map ntp_to_msg (answers w))" "subseq (sent w) (map ntp_to_msg (answers w))"
    unfolding all using list_emb_append_mono [OF a(4), of "[m]" "[m]"] list_emb_append_mono [OF a(4), of "[]" "[m]"] by simp_all
  show ?thesis
  proof (cases "r = Inl True")
    case True
    then have "w' = w\<lparr>kernel := k, ntp_at := NPoll, sent := sent w @ [m]\<rparr>" using assms(1,3) r by (simp add: ntp_step_def)
    then show ?thesis using e True assms(2) ms(1) a(1) sub(1) by (simp add: inv_defs)
  next
    case False
    then obtain p b where p: "w' = w\<lparr>kernel := k, board := b, ntp_at := p\<rparr>" "p = NPoll \<or> (\<exists>c1. p = NSend m c1)"
      using assms(1,3) r by (auto simp: ntp_step_def bind_eq_Some_conv split: sum.splits bool.splits) (metis clock.surjective clock.update_convs(2))+
    then show ?thesis using assms(2,3) e False ms(1) sub(2) a by (auto simp: inv_defs)
  qed
qed

lemma ntp_query_keeps:
  assumes "ntp_step x w = Some w'" and "clock_inv w" and "ntp_at w = NQuery n"
  shows "clock_inv w'"
proof -
  obtain res m b where r: "ntp_get_time (lwip_periodic_handle (c_net x) (c_stack x)) (c_net x) (msg_buf w) (board w) = Some (res, m, b)"
    using assms(1,3) by (auto simp: ntp_step_def bind_eq_Some_conv)
  have a: "length (answers w) < taken w" "subseq (sent w) (map ntp_to_msg (answers w))" using assms(2,3) by (simp_all add: inv_defs)
  show ?thesis
  proof (cases "res = 0")
    case True
    then obtain b1 where w': "w' = w\<lparr>board := b1, msg_buf := m, ntp_at := NSend m Enter, answers := answers w @ [ntp_timestamp b]\<rparr>"
      using assms(1,3) r by (auto simp: ntp_step_def bind_eq_Some_conv)
    have "m = ntp_to_msg (ntp_timestamp b)" by (rule answer_is_converted) (use r True in simp)
    then show ?thesis using w' assms(2) a by (simp add: inv_defs)
  next
    case False
    then obtain b1 p where "w' = w\<lparr>board := b1, msg_buf := m, ntp_at := p\<rparr>" "p = NPoll \<or> (\<exists>i. p = NRetry i)"
      using assms(1,3) r by (auto simp: ntp_step_def bind_eq_Some_conv Let_def split: if_splits)
    then show ?thesis using ntp_moves_same [OF assms(2), where p = p and b = b1 and m = m] a by auto
  qed
qed

lemma ntp_keeps:
  assumes "ntp_step x w = Some w'" and "clock_inv w"
  shows "clock_inv w'"
proof (cases "ntp_at w")
  case NStart
  then obtain b where "w' = w\<lparr>board := b, ntp_at := NDhcp\<rparr>" using assms(1) by (auto simp: ntp_step_def bind_eq_Some_conv)
  then show ?thesis using NStart assms(2) by (simp add: inv_defs)
next
  case NDhcp
  then consider (down) b k where "vTaskDelay (pdMS_TO_TICKS 10) (kernel w) = Some k" "w' = w\<lparr>board := b, kernel := k\<rparr>"
    | (up) b where "w' = w\<lparr>board := b, ntp_at := NTake Enter\<rparr>"
    using assms(1) by (auto simp: ntp_step_def bind_eq_Some_conv split: if_splits)
  then show ?thesis
  proof cases
    case down
    then show ?thesis using inv_kernel [OF delay_same [OF down(1)] assms(2)] by (simp add: inv_defs)
  next
    case up
    then show ?thesis using NDhcp assms(2) by (simp add: inv_defs)
  qed
next
  case (NRetry r)
  then obtain k where k: "vTaskDelay (pdMS_TO_TICKS 1000) (kernel w) = Some k" "w' = w\<lparr>kernel := k, ntp_at := NQuery r\<rparr>"
    using assms(1) by (auto simp: ntp_step_def bind_eq_Some_conv)
  have "clock_inv (w\<lparr>kernel := k\<rparr>)" by (rule inv_kernel [OF delay_same [OF k(1)] assms(2)])
  then show ?thesis using k(2) NRetry by (simp add: inv_defs)
next
  case NPoll
  then obtain b where "w' = w\<lparr>board := b, ntp_at := NTake Enter\<rparr>" using assms(1) by (auto simp: ntp_step_def bind_eq_Some_conv)
  then show ?thesis using NPoll assms(2) by (simp add: inv_defs)
qed (use assms ntp_take_keeps ntp_send_keeps ntp_query_keeps in blast)+

subsection \<open>The speech task\<close>

lemma out_step_says:
  assumes "out_step os u = Some (os', t, u')" and "plain os"
  shows "plain os' \<and> t @ unsaid os' = unsaid os"
  using assms by (cases "(os, u)" rule: out_step.cases)
    (auto simp: unsaid_def plain_def nul_free_def split: bind_splits if_splits)

lemma unsaid_puts: "unsaid (map Puts ts) = concat ts" "unsaid (Printf f as # os) = unsaid os"
  by (simp_all add: unsaid_def comp_def)

lemma token_puts_line: "concat (token_puts t) = token_line t"
  by (simp add: token_puts_def token_line_def)

lemma speak_puts_text: "concat (speak_puts h m s) = speech_text h m s"
proof -
  have one: "(w = 1) = (unat w = 1)" "(w < 60) = (unat w < 60)" for w :: u8 by (simp_all add: word_less_nat_alt word_unat_eq_iff)
  show ?thesis
    by (simp add: speak_puts_def speech_text_def speech_token_list_def number_tokens_def token_puts_line one)
qed

lemma puts_all_append: "uart_puts_all (a @ b) u = Option.bind (uart_puts_all a u) (uart_puts_all b)"
  by (induction a arbitrary: u) (auto split: bind_splits)

text \<open>The strings are those of \<open>speak_time\<close>.\<close>

lemma speak_time_puts: "speak_time h m s u = uart_puts_all (speak_puts h m s) u"
proof -
  have one: "uart_puts_all [t] = uart_puts t" for t by (rule ext) (simp split: bind_splits)
  have token: "uart_puts_all (token_puts t) = uart_send_token t" for t
    by (rule ext) (auto simp: token_puts_def uart_send_token_def split: bind_splits)
  have number: "uart_puts_all (if n < 60 then token_puts (number_words ! unat n) else []) = send_number n" for n :: u8
    by (rule ext) (simp add: send_number_def token)
  have two: "uart_puts_all [s1, s2] = (\<lambda>u. Option.bind (uart_puts s1 u) (uart_puts s2))" for s1 s2 by (rule ext) (auto split: bind_splits)
  show ?thesis unfolding speak_puts_def speak_time_def puts_all_append one token number two by simp
qed

lemma speak_puts_plain: "t \<in> set (speak_puts h m s) \<Longrightarrow> nul_free t"
proof -
  have w: "unat n < 60 \<Longrightarrow> nul_free (number_words ! unat n)" for n :: u8
    using number_word_token [of n] token_word_chars unfolding nul_free_def by blast
  assume "t \<in> set (speak_puts h m s)"
  then show ?thesis using w [of h] w [of m] w [of s]
    by (auto simp: speak_puts_def token_puts_def nul_free_code crlf_def cdefs word_less_nat_alt split: if_splits)
qed

lemma announce_text: "plain (announce m)" "unsaid (announce m) = speech_text (hour m) (minute m) (second m)"
  by (auto simp: announce_def plain_def unsaid_puts speak_puts_text dest: speak_puts_plain)

lemma speech_keeps:
  assumes "speech_step w = Some w'" and "clock_inv w"
  shows "clock_inv w'"
proof (cases "speech_at w")
  case (SReceive c)
  obtain r k where r: "receive_call (time_queue w) portMAX_DELAY c (kernel w) = Some (r, k)"
    using assms(1) SReceive by (auto simp: speech_step_def bind_eq_Some_conv)
  obtain ms where ms: "sent w = heard w @ ms" "ipc (time_request_sem w) (time_queue w) (given w - taken w) ms (kernel w)"
    using assms(2) by (auto simp: inv_defs)
  note e = ipc_receive [OF r ms(2)]
  have sp: "said w = speech_banner @ spoken_text (heard w)" using assms(2) SReceive by (simp add: inv_defs to_say_def unsaid_def)
  show ?thesis
  proof (cases "\<exists>bs. r = Inl (Some bs)")
    case True
    then obtain m where m: "ms = [m]" "r = Inl (Some (msg_bytes m))" "ipc (time_request_sem w) (time_queue w) (given w - taken w) [] k" using e by auto
    have w': "w' = w\<lparr>kernel := k, speech_at := SSay (announce m), heard := heard w @ [m]\<rparr>" using assms(1) SReceive r m(2) by (simp add: speech_step_def)
    then show ?thesis using assms(2) m ms(1) sp announce_text [of m] by (simp add: inv_defs to_say_def spoken_text_def)
  next
    case False
    then obtain c1 where "w' = w\<lparr>kernel := k, speech_at := SReceive c1\<rparr>"
      using assms(1) SReceive r by (auto simp: speech_step_def split: sum.splits option.splits)
    then show ?thesis using False e assms(2) ms(1) sp by (auto simp: inv_defs to_say_def unsaid_def plain_def)
  qed
qed (use assms in \<open>auto simp: speech_step_def inv_defs to_say_def bind_eq_Some_conv unsaid_def dest!: out_step_says split: if_splits\<close>)

subsection \<open>Reachable states\<close>

lemma step_keeps: "clock_step x w w' \<Longrightarrow> clock_inv w \<Longrightarrow> clock_inv w'"
proof (induction rule: clock_step.induct)
  case (tick w k)
  then show ?case using inv_kernel [OF all_same_refl [OF queues_kept(7)]] by blast
next
  case (other w k)
  then show ?case by (auto simp: inv_defs ipc_def)
qed (use key_keeps ntp_keeps speech_keeps in blast)+

lemma reachable_keeps: "reachable x w0 w \<Longrightarrow> clock_inv w0 \<Longrightarrow> clock_inv w"
  by (induction rule: reachable.induct) (auto intro: step_keeps)

text \<open>
  The state in which the scheduler starts the tasks: the semaphore and the queue are new and
  empty, and every task is at the beginning of its function.
\<close>

definition clock_start :: "clock \<Rightarrow> bool" where
  "clock_start w \<longleftrightarrow> ipc (time_request_sem w) (time_queue w) 0 [] (kernel w)
     \<and> key_at w = KBanner (map Puts key_banner) \<and> ntp_at w = NStart \<and> speech_at w = SBanner [Puts speech_banner]
     \<and> presses w = 0 \<and> given w = 0 \<and> taken w = 0 \<and> answers w = [] \<and> sent w = [] \<and> heard w = [] \<and> said w = []"

lemma start_inv: "clock_start w \<Longrightarrow> clock_inv w"
  by (simp add: clock_start_def inv_defs asked_def to_say_def unsaid_def plain_def spoken_text_def speech_banner_def nul_free_code crlf_def)

section \<open>Properties\<close>

text \<open>
  C2. In every state the system can reach, under any interleaving of the tasks and the tick,
  the messages the speech task has received are the first of those the NTP task has sent, with
  at most one still in the queue; the messages sent are, in order, conversions of timestamps
  that queries have returned, so nothing but answers of the server is announced; and what the
  speech task has written with \<open>uart_puts\<close> is its banner and the announcements of
  exactly the received messages, in order, up to the point it has reached.
\<close>

theorem announcements_are_answers:
  assumes "clock_start w0" and "reachable x w0 w"
  shows "prefix (heard w) (sent w) \<and> length (sent w) \<le> length (heard w) + 1
     \<and> subseq (sent w) (map ntp_to_msg (answers w))
     \<and> prefix (said w) (speech_banner @ spoken_text (heard w))"
proof -
  have i: "clock_inv w" using reachable_keeps [OF assms(2) start_inv [OF assms(1)]] .
  then obtain ms where ms: "sent w = heard w @ ms" "box_holds ms (queues (kernel w) (time_queue w))" by (auto simp: inv_defs ipc_def)
  have "subseq (sent w) (map ntp_to_msg (answers w))"
  proof (cases "ntp_at w")
    case (NSend m c)
    then have "subseq (sent w) (map ntp_to_msg (butlast (answers w)))" using i by (simp add: inv_defs)
    moreover have "subseq (map ntp_to_msg (butlast (answers w))) (map ntp_to_msg (answers w))"
      by (intro subseq_map prefix_imp_subseq) (simp add: prefixeq_butlast)
    ultimately show ?thesis by (rule subseq_order.trans)
  qed (use i in \<open>simp_all add: inv_defs\<close>)
  moreover have "prefix (said w) (speech_banner @ spoken_text (heard w))" using i by (metis clock_inv_def prefixI speech_ok_def)
  ultimately show ?thesis using ms box_bound by auto
qed

text \<open>The system at its start, with the key task running, and after its first step.\<close>

definition sample_box :: queue where
  "sample_box = reset_queue \<lparr>storage = [0, 0, 0], uxQueueType_mutex = False, pcWriteTo = 0, pcTail = 0, pcReadFrom = 0, xMutexHolder = None,
     uxMessagesWaiting = 0, uxLength = 1, uxItemSize = 3, cRxLock = 0, cTxLock = 0\<rparr>"

definition sample_sem :: queue where
  "sample_sem = reset_queue \<lparr>storage = [], uxQueueType_mutex = False, pcWriteTo = 0, pcTail = 0, pcReadFrom = 0, xMutexHolder = None,
     uxMessagesWaiting = 0, uxLength = 1, uxItemSize = 0, cRxLock = 0, cTxLock = 0\<rparr>"

definition sample_clock :: clock where
  "sample_clock = \<lparr>kernel = sample_with \<lparr>queues = (\<lambda>q. if q = 8 then sample_sem else sample_box), heap = heap4_start, xQueueRegistry = []\<rparr>,
     board = sample_app, time_request_sem = 8, time_queue = 16, key_handle = pxCurrentTCB sample_ksys, ntp_handle = 7, speech_handle = 9,
     key_at = KBanner (map Puts key_banner), ntp_at = NStart, speech_at = SBanner [Puts speech_banner],
     msg_buf = \<lparr>hour = 0, minute = 0, second = 0\<rparr>, presses = 0, given = 0, taken = 0, answers = [], sent = [], heard = [], said = []\<rparr>"

definition sample_clock_env :: clock_env where
  "sample_clock_env = \<lparr>c_net = sample_net, c_stack = \<lparr>x_icmp_input = (\<lambda>p g. Some), x_icmp_dest_unreach = (\<lambda>p c. Some), x_ip4_reass = (\<lambda>p s. Some (p, s)),
     x_etharp_input = (\<lambda>nif p s. Some s), x_udp_recv = (\<lambda>cb p. Some), x_sys_check_timeouts = Some\<rparr>, c_netif = quiet_env\<rparr>"

lemma sample_box_holds: "q_holds sample_box []"
  unfolding q_holds_def by (intro exI [of _ 0]) (simp add: ring_at_def sample_box_def reset_queue_def Let_def)

lemma sample_clock_start: "clock_start sample_clock"
  using sample_box_holds
  by (simp add: clock_start_def sample_clock_def ipc_def sem_holds_def box_holds_def sample_with_def) (simp add: sample_sem_def sample_box_def reset_queue_def)

lemma sample_reaches: "\<exists>w. reachable sample_clock_env sample_clock w \<and> w \<noteq> sample_clock"
proof -
  obtain b where b: "uart_putc (CHR 0x0D) sample_app = Some b" using uart_putc_emits [OF sample_app_facts(1)] by blast
  let ?w = "sample_clock\<lparr>board := b, key_at := KBanner (Puts (tl (hd key_banner)) # map Puts (tl key_banner))\<rparr>"
  have "key_step sample_clock = Some ?w" using b by (simp add: key_step_def sample_clock_def key_banner_def crlf_def)
  then have "clock_step sample_clock_env sample_clock ?w" by (intro clock_step.key) (simp_all add: sample_clock_def sample_ksys_def sample_sel)
  moreover have "key_at ?w \<noteq> key_at sample_clock" by (simp add: sample_clock_def key_banner_def crlf_def)
  ultimately show ?thesis using reachable.intros by metis
qed

theorem announcements_are_answers_witness:
  "\<exists>w. reachable sample_clock_env sample_clock w \<and> w \<noteq> sample_clock \<and> prefix (heard w) (sent w)
     \<and> prefix (said w) (speech_banner @ spoken_text (heard w))"
  using sample_reaches announcements_are_answers [OF sample_clock_start] by blast

text \<open>
  C3. In every reachable state each time announced and each answer obtained belongs to a request
  of its own: the number of messages received is at most that of answers, which is at most the
  number of requests the NTP task has taken, which is at most the number of times the semaphore
  was given, which is at most the number of times the key was pressed; and at most one request
  waits at any time, so presses that come while one waits are merged with it.
\<close>

theorem announcements_were_requested:
  assumes "clock_start w0" and "reachable x w0 w"
  shows "length (heard w) \<le> length (answers w) \<and> length (answers w) \<le> taken w \<and> taken w \<le> given w \<and> given w \<le> presses w
     \<and> given w \<le> taken w + 1 \<and> unat (uxMessagesWaiting (queues (kernel w) (time_request_sem w))) = given w - taken w"
proof -
  have i: "clock_inv w" using reachable_keeps [OF assms(2) start_inv [OF assms(1)]] .
  then obtain ms where ms: "sent w = heard w @ ms" "sem_holds (given w - taken w) (queues (kernel w) (time_request_sem w))" by (auto simp: inv_defs ipc_def)
  have "length (sent w) \<le> length (answers w) \<and> length (answers w) \<le> taken w"
    using i by (cases "ntp_at w") (auto simp: inv_defs dest!: list_emb_length)
  moreover have "given w - taken w \<le> 1" "unat (uxMessagesWaiting (queues (kernel w) (time_request_sem w))) = given w - taken w"
    using ms(2) by (auto simp: sem_holds_def le_Suc_eq)
  ultimately show ?thesis using i ms(1) by (auto simp: inv_defs)
qed

theorem announcements_were_requested_witness:
  "\<exists>w. reachable sample_clock_env sample_clock w \<and> w \<noteq> sample_clock \<and> length (heard w) \<le> presses w"
proof -
  obtain w where w: "reachable sample_clock_env sample_clock w" "w \<noteq> sample_clock" using sample_reaches by blast
  then show ?thesis using announcements_were_requested [OF sample_clock_start w(1)] by (intro exI [of _ w]) linarith
qed

end
