(* ===== verification/Rtos_Boot.thy ===== *)
theory Rtos_Boot
  imports Rtos_Queue
begin

text \<open>
  Creating tasks and starting the scheduler: \<open>xTaskCreate\<close> and \<open>vTaskStartScheduler\<close> of
  \<open>freertos/tasks.c\<close>, \<open>pxPortInitialiseStack\<close> and \<open>xPortStartScheduler\<close> of
  \<open>freertos/portable/GCC/ARM_CM3/port.c\<close>, the queue registry of \<open>freertos/queue.c\<close> and the
  creation of the timer service task, \<open>xTimerCreateTimerTask\<close> of \<open>freertos/timers.c\<close>.

  A task is named by the address of its control block, 0 is the null pointer. The fields of a
  control block that only its creation writes (stack, name) are maps on these addresses; stacks
  lie in a memory of words. Addresses of functions, the heap array, the contents of fresh memory
  and the priority bits the interrupt controller has are in the environment. The assembly that
  loads the first task is not modelled: the state is that in which it runs.

  A failed assertion stops the system: \<open>None\<close>.
\<close>

section \<open>State\<close>

record boot =
  kern :: ksys
  xSchedulerRunning :: bool
  uxTaskNumber :: u32
  pxStack :: "nat \<Rightarrow> nat"
  pxTopOfStack :: "nat \<Rightarrow> nat"
  pcTaskName :: "nat \<Rightarrow> string"
  stack_ram :: "nat \<Rightarrow> u32"
  xIdleTaskHandle :: nat
  xTimerQueue :: nat
  xTimerTaskHandle :: nat
  xActiveTimerLists :: "nat alist \<times> nat alist"
  shpr2 :: u32
  shpr3 :: u32
  systick_ctrl :: u32
  systick_load :: u32
  systick_current :: u32
  uxCriticalNesting :: u32
  ucMaxSysCallPriority :: u8
  ulMaxPRIGROUPValue :: u32

record boot_env =
  e_ucHeap :: nat
  e_fresh :: "nat \<Rightarrow> u8 list"
  e_prvIdleTask :: u32
  e_prvTimerTask :: u32
  e_prvTaskExitError :: u32
  e_implemented_priority :: u8

definition configMINIMAL_STACK_SIZE :: u32 where [cdefs]: "configMINIMAL_STACK_SIZE = 128"
definition configTIMER_TASK_PRIORITY :: nat where [cdefs]: "configTIMER_TASK_PRIORITY = 3"
definition configTIMER_QUEUE_LENGTH :: u32 where [cdefs]: "configTIMER_QUEUE_LENGTH = 10"
definition configTIMER_TASK_STACK_DEPTH :: u32 where [cdefs]: "configTIMER_TASK_STACK_DEPTH = configMINIMAL_STACK_SIZE * 2"
definition configMAX_TASK_NAME_LEN :: nat where [cdefs]: "configMAX_TASK_NAME_LEN = 16"
definition configMAX_SYSCALL_INTERRUPT_PRIORITY :: u8 where [cdefs]: "configMAX_SYSCALL_INTERRUPT_PRIORITY = 4"
definition tskSTACK_FILL_BYTE :: u32 where [cdefs]: "tskSTACK_FILL_BYTE = 0xA5"
definition pdPASS :: int where [cdefs]: "pdPASS = 1"
definition pdFAIL :: int where [cdefs]: "pdFAIL = 0"
definition errCOULD_NOT_ALLOCATE_REQUIRED_MEMORY :: int where [cdefs]: "errCOULD_NOT_ALLOCATE_REQUIRED_MEMORY = - 1"

text \<open>
  The size of a control block: the top of the stack, two list items of five words, priority,
  stack, name, base priority, mutexes held, three notification values and three notification
  states, padded to a word.
\<close>

definition sizeof_TCB_t :: u32 where [cdefs]: "sizeof_TCB_t = 92"

text \<open>A message to the timer task: its kind, and a union whose longer member has three words.\<close>

definition sizeof_DaemonTaskMessage_t :: u32 where [cdefs]: "sizeof_DaemonTaskMessage_t = 16"

definition upd_kern :: "(ksys \<Rightarrow> ksys) \<Rightarrow> 'a boot_scheme \<Rightarrow> 'a boot_scheme" where
  "upd_kern f b = b\<lparr>kern := f (kern b)\<rparr>"

section \<open>The queue registry\<close>

definition configQUEUE_REGISTRY_SIZE :: nat where [cdefs]: "configQUEUE_REGISTRY_SIZE = 8"

text \<open>The entry to write: that of the queue, else the first free one; \<open>e\<close> is \<open>pxEntryToWrite\<close>.\<close>

fun registry_entry :: "nat \<Rightarrow> nat option \<Rightarrow> nat \<Rightarrow> (string option \<times> nat) list \<Rightarrow> nat option" where
  "registry_entry q e ux [] = e"
| "registry_entry q e ux ((pcQueueName, xHandle) # rs) =
     (if q = xHandle then Some ux
      else registry_entry q (if e = None \<and> pcQueueName = None then Some ux else e) (Suc ux) rs)"

definition vQueueAddToRegistry :: "nat \<Rightarrow> string option \<Rightarrow> ksys \<Rightarrow> ksys option" where
  "vQueueAddToRegistry q pcQueueName s =
     (if q = 0 then None
      else Some (case (if pcQueueName = None then None else registry_entry q None 0 (xQueueRegistry s)) of
                   None \<Rightarrow> s
                 | Some i \<Rightarrow> s\<lparr>xQueueRegistry := (xQueueRegistry s)[i := (pcQueueName, q)]\<rparr>))"

definition pcQueueGetName :: "nat \<Rightarrow> ksys \<Rightarrow> string option option" where
  "pcQueueGetName q s =
     (if q = 0 then None else Some (case find (\<lambda>r. snd r = q) (xQueueRegistry s) of None \<Rightarrow> None | Some r \<Rightarrow> fst r))"

fun clear_entry :: "nat \<Rightarrow> (string option \<times> nat) list \<Rightarrow> (string option \<times> nat) list" where
  "clear_entry q [] = []"
| "clear_entry q (r # rs) = (if snd r = q then (None, 0) # rs else r # clear_entry q rs)"

definition vQueueUnregisterQueue :: "nat \<Rightarrow> ksys \<Rightarrow> ksys option" where
  "vQueueUnregisterQueue q s = (if q = 0 then None else Some (s\<lparr>xQueueRegistry := clear_entry q (xQueueRegistry s)\<rparr>))"

section \<open>The stack of a new task\<close>

definition portINITIAL_XPSR :: u32 where [cdefs]: "portINITIAL_XPSR = 0x01000000"
definition portSTART_ADDRESS_MASK :: u32 where [cdefs]: "portSTART_ADDRESS_MASK = 0xFFFFFFFE"

text \<open>The registers the first context switch pops: \<open>R4\<close> to \<open>R11\<close>, then the exception frame.\<close>

definition pxPortInitialiseStack :: "u32 \<Rightarrow> nat \<Rightarrow> u32 \<Rightarrow> u32 \<Rightarrow> (nat \<Rightarrow> u32) \<Rightarrow> nat \<times> (nat \<Rightarrow> u32)" where
  "pxPortInitialiseStack portTASK_RETURN_ADDRESS tos1 pxCode pvParameters m =
     (let p1 = tos1 - 4; m1 = m(p1 := portINITIAL_XPSR);
          p2 = p1 - 4; m2 = m1(p2 := pxCode AND portSTART_ADDRESS_MASK);
          p3 = p2 - 4; m3 = m2(p3 := portTASK_RETURN_ADDRESS);
          p4 = p3 - 5 * 4; m4 = m3(p4 := pvParameters)
      in (p4 - 8 * 4, m4))"

section \<open>Creating a task\<close>

text \<open>The 16 characters of a name, the last always a null; what follows a shorter name is null already.\<close>

definition copy_name :: "string \<Rightarrow> string" where
  "copy_name pcName =
     (let cs = take configMAX_TASK_NAME_LEN (takeWhile (\<lambda>c. c \<noteq> CHR 0x00) pcName)
      in (cs @ replicate (configMAX_TASK_NAME_LEN - length cs) (CHR 0x00))[configMAX_TASK_NAME_LEN - 1 := CHR 0x00])"

definition fill_stack :: "nat \<Rightarrow> nat \<Rightarrow> (nat \<Rightarrow> u32) \<Rightarrow> nat \<Rightarrow> u32" where
  "fill_stack p n m = (\<lambda>a. if p \<le> a \<and> a < p + n then tskSTACK_FILL_BYTE * 0x01010101 else m a)"

definition zero_tcb :: tcb where
  "zero_tcb = \<lparr>uxPriority = 0, uxBasePriority = 0, uxMutexesHeld = 0, state_value = 0, event_value = 0, state_in = None, event_in = None\<rparr>"

definition prvInitialiseNewTask ::
  "boot_env \<Rightarrow> u32 \<Rightarrow> string option \<Rightarrow> u32 \<Rightarrow> u32 \<Rightarrow> nat \<Rightarrow> nat \<Rightarrow> 'a boot_scheme \<Rightarrow> 'a boot_scheme option" where
  "prvInitialiseNewTask e pxTaskCode pcName uxStackDepth pvParameters prio t b =
     (let m1 = fill_stack (pxStack b t) (unat (uxStackDepth * 4)) (stack_ram b);
          tos1 = (pxStack b t + 4 * unat (uxStackDepth - 1)) div 8 * 8;
          names = (case pcName of None \<Rightarrow> pcTaskName b | Some n \<Rightarrow> (pcTaskName b)(t := copy_name n))
      in if tos1 mod 8 \<noteq> 0 \<or> \<not> prio < configMAX_PRIORITIES then None
         else let k = upd_tcb t (\<lambda>c. c\<lparr>uxPriority := prio, uxBasePriority := prio, state_in := None, event_in := None,
                                       event_value := of_nat configMAX_PRIORITIES - of_nat prio\<rparr>) (kern b);
                  (sp, m2) = pxPortInitialiseStack (e_prvTaskExitError e) tos1 pxTaskCode pvParameters m1
              in if (tos1 - sp) div 4 < unat uxStackDepth
                 then Some (b\<lparr>kern := k, pxTopOfStack := (pxTopOfStack b)(t := sp), pcTaskName := names, stack_ram := m2\<rparr>)
                 else None)"

text \<open>The stack grows down, so it is allocated first.\<close>

definition prvCreateTask ::
  "boot_env \<Rightarrow> u32 \<Rightarrow> string option \<Rightarrow> u32 \<Rightarrow> u32 \<Rightarrow> nat \<Rightarrow> 'a boot_scheme \<Rightarrow> (nat \<times> 'a boot_scheme) option" where
  "prvCreateTask e pxTaskCode pcName uxStackDepth pvParameters prio b =
     do { (stk, h1) \<leftarrow> pvPortMalloc (e_ucHeap e) (uxStackDepth * 4) (heap (kern b));
          if stk = 0 then Some (0, upd_kern (\<lambda>k. k\<lparr>heap := h1\<rparr>) b)
          else do { (t, h2) \<leftarrow> pvPortMalloc (e_ucHeap e) sizeof_TCB_t h1;
                    if t = 0
                    then do { h3 \<leftarrow> vPortFree (e_ucHeap e) stk h2; Some (0, upd_kern (\<lambda>k. k\<lparr>heap := h3\<rparr>) b) }
                    else let b1 = upd_kern (\<lambda>k. upd_tcb t (\<lambda>c. zero_tcb) (k\<lparr>heap := h2\<rparr>)) b;
                             b2 = b1\<lparr>pxStack := (pxStack b1)(t := stk), pcTaskName := (pcTaskName b1)(t := replicate 16 (CHR 0x00))\<rparr>
                         in do { b3 \<leftarrow> prvInitialiseNewTask e pxTaskCode pcName uxStackDepth pvParameters prio t b2; Some (t, b3) } } }"

definition prvInitialiseTaskLists :: "'a sched_scheme \<Rightarrow> 'a sched_scheme" where
  "prvInitialiseTaskLists s =
     s\<lparr>klists := (\<lambda>l. if (\<exists>p<configMAX_PRIORITIES. l = Ready p) \<or> l = Delayed 1 \<or> l = Delayed 2 \<or> l = PendingReady \<or> l = Suspended
                      then ([], None) else klists s l),
       pxDelayedTaskList := Delayed 1, pxOverflowDelayedTaskList := Delayed 2\<rparr>"

definition make_current :: "bool \<Rightarrow> nat \<Rightarrow> 'a sched_scheme \<Rightarrow> 'a sched_scheme" where
  "make_current running t s =
     (if pxCurrentTCB s = 0
      then let s1 = s\<lparr>pxCurrentTCB := t\<rparr> in if uxCurrentNumberOfTasks s1 = 1 then prvInitialiseTaskLists s1 else s1
      else if \<not> running \<and> uxPriority (tcbs s (pxCurrentTCB s)) \<le> uxPriority (tcbs s t) then s\<lparr>pxCurrentTCB := t\<rparr> else s)"

definition taskYIELD_ANY_CORE_IF_USING_PREEMPTION :: "nat \<Rightarrow> 'a sched_scheme \<Rightarrow> 'a sched_scheme" where
  "taskYIELD_ANY_CORE_IF_USING_PREEMPTION t s =
     (if uxPriority (tcbs s (pxCurrentTCB s)) < uxPriority (tcbs s t) then portYIELD s else s)"

text \<open>The first yield is taken at the end of the critical section, the second at once.\<close>

definition prvAddNewTaskToReadyList :: "nat \<Rightarrow> 'a boot_scheme \<Rightarrow> 'a boot_scheme option" where
  "prvAddNewTaskToReadyList t b =
     (let k1 = (kern b)\<lparr>uxCurrentNumberOfTasks := uxCurrentNumberOfTasks (kern b) + 1\<rparr>;
          k2 = prvAddTaskToReadyList t (make_current (xSchedulerRunning b) t k1)
      in do { k3 \<leftarrow> taskEXIT_CRITICAL k2;
              k4 \<leftarrow> (if xSchedulerRunning b then taskEXIT_CRITICAL (taskYIELD_ANY_CORE_IF_USING_PREEMPTION t k3) else Some k3);
              Some (b\<lparr>kern := k4, uxTaskNumber := uxTaskNumber b + 1\<rparr>) })"

text \<open>The result and the handle, which is not written when the task could not be created.\<close>

definition xTaskCreate ::
  "boot_env \<Rightarrow> u32 \<Rightarrow> string option \<Rightarrow> u32 \<Rightarrow> u32 \<Rightarrow> nat \<Rightarrow> 'a boot_scheme \<Rightarrow> (int \<times> nat option \<times> 'a boot_scheme) option" where
  "xTaskCreate e pxTaskCode pcName uxStackDepth pvParameters prio b =
     do { (t, b1) \<leftarrow> prvCreateTask e pxTaskCode pcName uxStackDepth pvParameters prio b;
          if t \<noteq> 0 then do { b2 \<leftarrow> prvAddNewTaskToReadyList t b1; Some (pdPASS, Some t, b2) }
          else Some (errCOULD_NOT_ALLOCATE_REQUIRED_MEMORY, None, b1) }"

section \<open>Starting the scheduler\<close>

definition prvCreateIdleTasks :: "boot_env \<Rightarrow> 'a boot_scheme \<Rightarrow> (int \<times> 'a boot_scheme) option" where
  "prvCreateIdleTasks e b =
     do { (r, hdl, b1) \<leftarrow> xTaskCreate e (e_prvIdleTask e) (Some ''IDLE'') configMINIMAL_STACK_SIZE 0 0 b;
          Some (r, case hdl of None \<Rightarrow> b1 | Some t \<Rightarrow> b1\<lparr>xIdleTaskHandle := t\<rparr>) }"

definition prvCheckForValidListAndQueue :: "boot_env \<Rightarrow> 'a boot_scheme \<Rightarrow> 'a boot_scheme option" where
  "prvCheckForValidListAndQueue e b =
     (if xTimerQueue b = 0
      then do { (q, k1) \<leftarrow> xQueueGenericCreate (e_ucHeap e) (e_fresh e (unat (configTIMER_QUEUE_LENGTH * sizeof_DaemonTaskMessage_t)))
                             configTIMER_QUEUE_LENGTH sizeof_DaemonTaskMessage_t (kern b);
                k2 \<leftarrow> (if q \<noteq> 0 then vQueueAddToRegistry q (Some ''TmrQ'') k1 else Some k1);
                k3 \<leftarrow> taskEXIT_CRITICAL k2;
                Some (b\<lparr>kern := k3, xActiveTimerLists := (([], None), ([], None)), xTimerQueue := q\<rparr>) }
      else do { k3 \<leftarrow> taskEXIT_CRITICAL (kern b); Some (b\<lparr>kern := k3\<rparr>) })"

definition xTimerCreateTimerTask :: "boot_env \<Rightarrow> 'a boot_scheme \<Rightarrow> (int \<times> 'a boot_scheme) option" where
  "xTimerCreateTimerTask e b =
     do { b1 \<leftarrow> prvCheckForValidListAndQueue e b;
          (r, b2) \<leftarrow> (if xTimerQueue b1 \<noteq> 0
                       then do { (r, hdl, b2) \<leftarrow> xTaskCreate e (e_prvTimerTask e) (Some ''Tmr Svc'') configTIMER_TASK_STACK_DEPTH 0
                                                   configTIMER_TASK_PRIORITY b1;
                                 Some (r, case hdl of None \<Rightarrow> b2 | Some t \<Rightarrow> b2\<lparr>xTimerTaskHandle := t\<rparr>) }
                       else Some (pdFAIL, b1));
          if r = 0 then None else Some (r, b2) }"

text \<open>The processor's entries of the vector table of \<open>startup/startup_stm32.s\<close>; the port's handlers have these names in \<open>FreeRTOSConfig.h\<close>.\<close>

definition g_pfnVectors :: "string list" where
  "g_pfnVectors = [''_estack'', ''Reset_Handler'', ''NMI_Handler'', ''HardFault_Handler'', ''MemManage_Handler'', ''BusFault_Handler'',
     ''UsageFault_Handler'', ''0'', ''0'', ''0'', ''0'', ''SVC_Handler'', ''DebugMon_Handler'', ''0'', ''PendSV_Handler'', ''SysTick_Handler'']"

function implemented_bits :: "u8 \<Rightarrow> u32" where
  "implemented_bits w = (if w AND 0x80 = 0x80 then implemented_bits (push_bit 1 w) + 1 else 0)"
  by pat_completeness auto

lemma shift_out_top: "w AND 0x80 = 0x80 \<Longrightarrow> unat (push_bit 1 w) < unat w" for w :: u8
proof -
  assume "w AND 0x80 = 0x80"
  then have "0x80 \<le> w" using word_and_le2 [of w "0x80"] by simp
  then have "128 \<le> unat w" by (simp add: word_le_nat_alt)
  moreover have "unat w < 256" using unsigned_less [of w, where 'a = nat] by simp
  moreover have "push_bit 1 w = w + w" by (simp add: push_bit_eq_mult)
  then have "unat (push_bit 1 w) = unat (w + w)" by (rule arg_cong)
  then have "unat (push_bit 1 w) = (unat w + unat w) mod 256" unfolding unat_word_ariths(1) [of w w] by simp
  moreover have "(n + n) mod 256 = n + n - 256" if "128 \<le> n" "n < 256" for n :: nat using that by (simp add: le_mod_geq)
  ultimately have "unat (push_bit 1 w) = unat w + unat w - 256" "unat w < 256" "128 \<le> unat w" by metis+
  then show ?thesis by linarith
qed

termination implemented_bits
  by (relation "measure unat") (simp, use shift_out_top in \<open>simp add: push_bit_eq_mult\<close>)

declare implemented_bits.simps [simp del]

definition vPortSetupTimerInterrupt :: "'a boot_scheme \<Rightarrow> 'a boot_scheme" where
  "vPortSetupTimerInterrupt b =
     (let b1 = b\<lparr>systick_ctrl := 0\<rparr>; b2 = b1\<lparr>systick_current := 0\<rparr>; b3 = b2\<lparr>systick_load := 25000000 div 1000 - 1\<rparr>
      in b3\<lparr>systick_ctrl := push_bit 2 1 OR push_bit 1 1 OR push_bit 0 1\<rparr>)"

text \<open>
  Of the priority register that is written and read back, \<open>e_implemented_priority\<close> says which
  bits exist. The function ends where the first task is started.
\<close>

definition xPortStartScheduler :: "boot_env \<Rightarrow> 'a boot_scheme \<Rightarrow> 'a boot_scheme option" where
  "xPortStartScheduler e b =
     (if g_pfnVectors ! 11 \<noteq> ''SVC_Handler'' \<or> g_pfnVectors ! 14 \<noteq> ''PendSV_Handler'' then None
      else let ucMaxPriorityValue = 0xFF AND e_implemented_priority e;
               b1 = b\<lparr>ucMaxSysCallPriority := configMAX_SYSCALL_INTERRUPT_PRIORITY AND ucMaxPriorityValue\<rparr>
           in if ucMaxSysCallPriority b1 = 0 \<or> configMAX_SYSCALL_INTERRUPT_PRIORITY AND NOT ucMaxPriorityValue \<noteq> 0 then None
              else let n = implemented_bits ucMaxPriorityValue
                   in if n = 8 \<and> configMAX_SYSCALL_INTERRUPT_PRIORITY AND 1 \<noteq> 0 then None
                      else let g = (if n = 8 then 0 else 7 - n);
                               b2 = b1\<lparr>ulMaxPRIGROUPValue := push_bit 8 g AND push_bit 8 7\<rparr>;
                               b3 = b2\<lparr>shpr3 := shpr3 b2 OR push_bit 16 255\<rparr>;
                               b4 = b3\<lparr>shpr3 := shpr3 b3 OR push_bit 24 255, shpr2 := 0\<rparr>
                           in Some ((vPortSetupTimerInterrupt b4)\<lparr>uxCriticalNesting := 0\<rparr>))"

text \<open>The scheduler runs when this function ends without a failed assertion; it never returns to its caller.\<close>

definition vTaskStartScheduler :: "boot_env \<Rightarrow> 'a boot_scheme \<Rightarrow> (bool \<times> 'a boot_scheme) option" where
  "vTaskStartScheduler e b =
     do { (r, b1) \<leftarrow> prvCreateIdleTasks e b;
          (r2, b2) \<leftarrow> (if r = pdPASS then xTimerCreateTimerTask e b1 else Some (r, b1));
          if r2 = pdPASS
          then let b3 = b2\<lparr>kern := (kern b2)\<lparr>xNextTaskUnblockTime := portMAX_DELAY, xTickCount := 0\<rparr>, xSchedulerRunning := True\<rparr>
               in do { b4 \<leftarrow> xPortStartScheduler e b3; Some (True, b4) }
          else if r2 = errCOULD_NOT_ALLOCATE_REQUIRED_MEMORY then None else Some (False, b2) }"

end
