(* ===== verification/Rtos_Heap_Proofs.thy ===== *)
theory Rtos_Heap_Proofs
  imports Rtos_Heap
begin

text \<open>
  Correctness of the kernel heap. A tile is a block with its address, size and ownership;
  the invariant says that the tiles of a heap lie side by side from the first aligned
  address to \<open>pxEnd\<close>, that no two neighbours are both free, and that the free list, the
  allocated blocks and the byte count are those of the tiling.
\<close>

section \<open>Tilings\<close>

type_synonym tile = "nat \<times> nat \<times> bool"

fun tiles :: "nat \<Rightarrow> tile list \<Rightarrow> nat \<Rightarrow> bool" where
  "tiles a [] e \<longleftrightarrow> a = e"
| "tiles a ((b, s, u) # ts) e \<longleftrightarrow> b = a \<and> 8 dvd s \<and> 16 \<le> s \<and> tiles (a + s) ts e"

definition used :: "tile \<Rightarrow> bool" where "used t = snd (snd t)"

definition blk :: "tile \<Rightarrow> block" where "blk t = (fst t, fst (snd t))"

definition frees :: "tile list \<Rightarrow> block list" where
  "frees ts = map blk (filter (\<lambda>t. \<not> used t) ts)"

definition useds :: "tile list \<Rightarrow> block list" where
  "useds ts = map blk (filter used ts)"

definition coalesced :: "tile list \<Rightarrow> bool" where
  "coalesced ts = successively (\<lambda>x y. used x \<or> used y) ts"

lemma tile_simps [simp]:
  "used (a, s, u) = u" "blk (a, s, u) = (a, s)" "frees [] = []" "useds [] = []"
  "frees ((a, s, u) # ts) = (if u then frees ts else (a, s) # frees ts)"
  "useds ((a, s, u) # ts) = (if u then (a, s) # useds ts else useds ts)"
  "frees (xs @ ys) = frees xs @ frees ys" "useds (xs @ ys) = useds xs @ useds ys"
  by (simp_all add: used_def blk_def frees_def useds_def)

lemma tiles_append: "tiles a (xs @ ys) e \<longleftrightarrow> (\<exists>m. tiles a xs m \<and> tiles m ys e)"
  by (induction xs arbitrary: a) auto

lemma tiles_le: "tiles a ts e \<Longrightarrow> a \<le> e"
  by (induction ts arbitrary: a) fastforce+

lemma tiles_mem:
  "tiles a ts e \<Longrightarrow> t \<in> set ts \<Longrightarrow> a \<le> fst t \<and> fst t + fst (snd t) \<le> e \<and> 16 \<le> fst (snd t) \<and> (8 dvd a \<longrightarrow> 8 dvd fst t)"
proof (induction ts arbitrary: a)
  case (Cons x xs)
  obtain b s u where x: "x = (b, s, u)" by (cases x) auto
  have le: "a + s \<le> e" using Cons.prems(1) x tiles_le by auto
  show ?case
  proof (cases "t = x")
    case False
    then have t: "t \<in> set xs" using Cons.prems(2) by simp
    have rest: "tiles (a + s) xs e" "8 dvd s" using Cons.prems(1) x by auto
    show ?thesis using Cons.IH [OF rest(1) t] rest(2) by auto
  qed (use x Cons.prems(1) le in auto)
qed simp

lemma mem_frees: "b \<in> set (frees ts) \<longleftrightarrow> (fst b, snd b, False) \<in> set ts"
  by (auto simp: frees_def blk_def used_def image_iff) (metis prod.collapse)

lemma mem_useds: "b \<in> set (useds ts) \<longleftrightarrow> (fst b, snd b, True) \<in> set ts"
  by (auto simp: useds_def blk_def used_def image_iff) (metis fst_conv prod.collapse snd_conv)

lemma frees_split:
  "frees ts = pre @ (a, s) # post \<Longrightarrow> \<exists>t1 t2. ts = t1 @ (a, s, False) # t2 \<and> frees t1 = pre \<and> frees t2 = post"
proof (induction ts arbitrary: pre)
  case (Cons x xs)
  obtain b t u where x: "x = (b, t, u)" by (cases x) auto
  show ?case
  proof (cases "u \<or> pre \<noteq> []")
    case True
    define pre' where "pre' = (if u then pre else tl pre)"
    have "frees xs = pre' @ (a, s) # post" "pre = frees [x] @ pre'" using Cons.prems x True by (auto simp: pre'_def Cons_eq_append_conv)
    then obtain t1 t2 where "xs = t1 @ (a, s, False) # t2" "frees t1 = pre'" "frees t2 = post" using Cons.IH by blast
    then show ?thesis using x \<open>pre = frees [x] @ pre'\<close> by (intro exI [of _ "x # t1"] exI [of _ t2]) auto
  next
    case False
    then show ?thesis using Cons.prems x by (intro exI [of _ "[]"] exI [of _ xs]) auto
  qed
qed simp

lemma useds_split: "(a, s) \<in> set (useds ts) \<Longrightarrow> \<exists>t1 t2. ts = t1 @ (a, s, True) # t2"
  by (metis fst_conv mem_useds snd_conv split_list)

lemma useds_sorted: "tiles a ts e \<Longrightarrow> sorted_wrt (<) (map fst (useds ts))"
proof (induction ts arbitrary: a)
  case (Cons x xs)
  obtain b s u where x: "x = (b, s, u)" by (cases x) auto
  have t: "tiles (a + s) xs e" "b = a" "16 \<le> s" using Cons.prems x by auto
  have "a < fst y" if "y \<in> set (useds xs)" for y
    using tiles_mem [OF t(1), of "(fst y, snd y, True)"] that t(3) by (simp add: mem_useds)
  then show ?case using Cons.IH [OF t(1)] x t(2) by simp
qed simp

lemma map_of_useds_split:
  assumes "tiles a (t1 @ (l, s, u) # t2) e"
  shows "map_of (useds t1 @ (l, w) # useds t2) = (map_of (useds t1 @ useds t2))(l := Some w)"
    and "map_of (useds t1 @ useds t2) l = None"
proof -
  have t: "tiles a t1 l" "tiles (l + s) t2 e" "16 \<le> s" using assms by (auto simp: tiles_append)
  have 1: "l \<notin> fst ` set (useds t1)"
  proof
    assume "l \<in> fst ` set (useds t1)"
    then obtain y where "y \<in> set (useds t1)" "fst y = l" by auto
    then show False using tiles_mem [OF t(1), of "(fst y, snd y, True)"] by (auto simp: mem_useds)
  qed
  have 2: "l \<notin> fst ` set (useds t2)"
  proof
    assume "l \<in> fst ` set (useds t2)"
    then obtain y where "y \<in> set (useds t2)" "fst y = l" by auto
    then show False using tiles_mem [OF t(2), of "(fst y, snd y, True)"] t(3) by (simp add: mem_useds)
  qed
  show "map_of (useds t1 @ useds t2) l = None" using 1 2 by (simp add: map_of_eq_None_iff image_Un)
  show "map_of (useds t1 @ (l, w) # useds t2) = (map_of (useds t1 @ useds t2))(l := Some w)"
  proof -
    have "map_of (useds t1) l = None" using 1 by (simp add: map_of_eq_None_iff)
    then show ?thesis by (auto simp: fun_eq_iff map_add_def split: option.split)
  qed
qed

section \<open>A tiling without free neighbours is determined by its allocated blocks\<close>

lemma tiles_unique:
  assumes "tiles a ts e" "tiles a ts' e" "coalesced ts" "coalesced ts'" "useds ts = useds ts'"
  shows "ts = ts'"
  using assms
proof (induction ts arbitrary: a ts')
  case Nil
  then have "a = e" by simp
  then show ?case using Nil.prems(2) tiles_le by (cases ts') fastforce+
next
  case (Cons x xs)
  obtain s u where x: "x = (a, s, u)" "tiles (a + s) xs e" "16 \<le> s" using Cons.prems(1) by (cases x) auto
  have ne: "ts' \<noteq> []"
  proof
    assume "ts' = []"
    then show False using Cons.prems(2) x tiles_le by fastforce
  qed
  then obtain s' u' ys where y: "ts' = (a, s', u') # ys" "tiles (a + s') ys e" "16 \<le> s'" using Cons.prems(2) by (cases ts') auto
  have co: "coalesced xs" "coalesced ys" using Cons.prems(3,4) x y by (auto simp: coalesced_def successively_Cons)
  have above: "k < fst z" if "tiles (k + n) zs e" "z \<in> set (useds zs)" "16 \<le> n" for k n zs z
    using tiles_mem [OF that(1), of "(fst z, snd z, True)"] that(2,3) by (simp add: mem_useds)
  have first: "k + n = e \<and> zs = [] \<or> (\<exists>m zs'. zs = (k + n, m, True) # zs')"
    if "tiles (k + n) zs e" "coalesced ((k, n, False) # zs)" for k n zs
    using that by (cases zs) (auto simp: coalesced_def successively_Cons)
  show ?case
  proof (cases "u = u'")
    case True
    have "s = s'"
    proof (cases u)
      case True
      then show ?thesis using Cons.prems(5) x y \<open>u = u'\<close> by simp
    next
      case False
      have f1: "a + s = e \<and> xs = [] \<or> (\<exists>m zs'. xs = (a + s, m, True) # zs')" using first [OF x(2)] Cons.prems(3) x(1) False by simp
      have f2: "a + s' = e \<and> ys = [] \<or> (\<exists>m zs'. ys = (a + s', m, True) # zs')" using first [OF y(2)] Cons.prems(4) y(1) False True by simp
      have "useds xs = useds ys" using Cons.prems(5) x(1) y(1) False True by simp
      then show ?thesis using f1 f2 by fastforce
    qed
    then show ?thesis using Cons.IH [of "a + s" ys] x y co Cons.prems(5) True by (auto split: if_splits)
  next
    case False
    have "useds (x # xs) \<noteq> useds ts'"
    proof (cases u)
      case True
      then show ?thesis using False x(1) y above [OF y(2) _ y(3)] by auto (metis fst_conv less_irrefl list.set_intros(1))
    next
      case u: False
      then show ?thesis using False x y(1) above [OF x(2) _ x(3)] by auto (metis fst_conv less_irrefl list.set_intros(1))
    qed
    then show ?thesis using Cons.prems(5) by simp
  qed
qed

lemma map_of_sorted_inj:
  assumes "sorted_wrt (<) (map fst xs)" "sorted_wrt (<) (map fst ys)" "map_of xs = map_of (ys :: block list)"
  shows "xs = ys"
proof -
  have d: "distinct (map fst xs)" "distinct (map fst ys)" using assms(1,2) by (simp_all add: strict_sorted_iff)
  have "fst ` set xs = fst ` set ys" using assms(3) by (metis dom_map_of_conv_image_fst)
  then have k: "map fst xs = map fst ys" using assms(1,2) by (intro strict_sorted_equal) auto
  have e: "zs = map (\<lambda>k. (k, the (map_of zs k))) (map fst zs)" if "distinct (map fst zs)" for zs :: "block list"
  proof (rule nth_equalityI)
    fix i assume "i < length zs"
    then show "zs ! i = map (\<lambda>k. (k, the (map_of zs k))) (map fst zs) ! i"
      using map_of_is_SomeI [OF that, of "fst (zs ! i)" "snd (zs ! i)"] by (simp add: prod_eq_iff)
  qed simp
  show ?thesis using e [OF d(1)] e [OF d(2)] k assms(3) by metis
qed

section \<open>The invariant\<close>

definition heap_first :: "nat \<Rightarrow> nat" where "heap_first ucHeap = (ucHeap + 7) div 8 * 8"
definition heap_last :: "nat \<Rightarrow> nat" where "heap_last ucHeap = (ucHeap + 65528) div 8 * 8"

definition tiled :: "nat \<Rightarrow> heap4 \<Rightarrow> tile list \<Rightarrow> bool" where
  "tiled ucHeap h ts \<longleftrightarrow> tiles (heap_first ucHeap) ts (heap_last ucHeap) \<and> pxEnd h = heap_last ucHeap \<and> coalesced ts
     \<and> free_list h = frees ts \<and> allocated h = map_of (useds ts) \<and> xFreeBytesRemaining h = sum_list (map snd (frees ts))"

definition heap_inv :: "nat \<Rightarrow> heap4 \<Rightarrow> bool" where
  "heap_inv ucHeap h \<longleftrightarrow> 0 < ucHeap \<and> (pxEnd h = 0 \<and> allocated h = (\<lambda>_. None) \<or> (\<exists>ts. tiled ucHeap h ts))"

lemma struct_size: "unat xHeapStructSize = 8" "unat heapMINIMUM_BLOCK_SIZE = 16"
  by (simp_all add: xHeapStructSize_def heapMINIMUM_BLOCK_SIZE_def portBYTE_ALIGNMENT_MASK_def)

lemma heap_bounds:
  "ucHeap \<le> heap_first ucHeap" "heap_first ucHeap < ucHeap + 8" "heap_last ucHeap \<le> ucHeap + 65528"
  "ucHeap + 65520 < heap_last ucHeap" "8 dvd heap_first ucHeap" "8 dvd heap_last ucHeap"
  unfolding heap_first_def heap_last_def by simp_all

lemma valid_mem:
  assumes "tiles (heap_first ucHeap) ts (heap_last ucHeap)" "t \<in> set ts"
  shows "heapVALIDATE_BLOCK_POINTER ucHeap (fst t)" "heapVALIDATE_BLOCK_POINTER ucHeap (fst t + 8)" "8 dvd fst t"
  using tiles_mem [OF assms] heap_bounds [of ucHeap] by (auto simp: heapVALIDATE_BLOCK_POINTER_def configTOTAL_HEAP_SIZE_def)

lemma valid_last: "heapVALIDATE_BLOCK_POINTER ucHeap (heap_last ucHeap)"
  using heap_bounds [of ucHeap] by (simp add: heapVALIDATE_BLOCK_POINTER_def configTOTAL_HEAP_SIZE_def)

lemma heap_init_tiled:
  assumes "allocated h = (\<lambda>_. None)"
  shows "tiled ucHeap (prvHeapInit ucHeap h) [(heap_first ucHeap, heap_last ucHeap - heap_first ucHeap, False)]"
proof -
  have f: "(if ucHeap mod 8 \<noteq> 0 then let a = (ucHeap + 7) div 8 * 8 in (a, configTOTAL_HEAP_SIZE - (a - ucHeap))
      else (ucHeap, configTOTAL_HEAP_SIZE)) = (heap_first ucHeap, ucHeap + 65536 - heap_first ucHeap)"
  proof (cases "ucHeap mod 8 = 0")
    case True
    then have "heap_first ucHeap = ucHeap" unfolding heap_first_def by presburger
    then show ?thesis using True by (simp add: configTOTAL_HEAP_SIZE_def)
  next
    case False
    then show ?thesis using heap_bounds(1,2) [of ucHeap] by (simp add: Let_def heap_first_def configTOTAL_HEAP_SIZE_def)
  qed
  have p: "prvHeapInit ucHeap h = h\<lparr>free_list := [(heap_first ucHeap, heap_last ucHeap - heap_first ucHeap)], pxEnd := heap_last ucHeap,
      xMinimumEverFreeBytesRemaining := heap_last ucHeap - heap_first ucHeap, xFreeBytesRemaining := heap_last ucHeap - heap_first ucHeap\<rparr>"
    (is ?p)
  proof -
    have e: "heap_first ucHeap + (ucHeap + 65536 - heap_first ucHeap) - 8 = ucHeap + 65528" using heap_bounds(1,2) [of ucHeap] by simp
    show ?p unfolding prvHeapInit_def f by (simp add: Let_def struct_size e heap_last_def)
  qed
  have d: "8 dvd heap_last ucHeap - heap_first ucHeap" using heap_bounds(5,6) dvd_diff_nat by blast
  show ?thesis unfolding tiled_def p using heap_bounds [of ucHeap] d assms by (simp add: coalesced_def)
qed

text \<open>After the first lines of \<open>pvPortMalloc\<close> the heap is initialised.\<close>

lemma heap_inv_init:
  assumes "heap_inv ucHeap h"
  obtains ts where "tiled ucHeap (if pxEnd h = 0 then prvHeapInit ucHeap h else h) ts"
    and "allocated (if pxEnd h = 0 then prvHeapInit ucHeap h else h) = allocated h"
proof (cases "pxEnd h = 0")
  case True
  moreover have "heap_last ucHeap \<noteq> 0" using heap_bounds(4) [of ucHeap] by simp
  ultimately have "allocated h = (\<lambda>_. None)" using assms by (auto simp: heap_inv_def tiled_def)
  then have "tiled ucHeap (prvHeapInit ucHeap h) [(heap_first ucHeap, heap_last ucHeap - heap_first ucHeap, False)]"
    by (rule heap_init_tiled)
  moreover have "allocated (prvHeapInit ucHeap h) = allocated h" by (simp add: prvHeapInit_def Let_def split_beta)
  ultimately show ?thesis using that True by simp
next
  case False
  then show ?thesis using assms that by (auto simp: heap_inv_def)
qed

section \<open>Allocation\<close>

lemma find_fit_spec:
  assumes "valid e" and "\<forall>b\<in>set bs. valid (fst b)"
  shows "\<exists>pre rest. find_fit valid e w bs = Some (pre, rest) \<and> bs = pre @ rest \<and> (\<forall>b\<in>set pre. snd b < w)
     \<and> (rest \<noteq> [] \<longrightarrow> w \<le> snd (hd rest))"
  using assms
proof (induction bs)
  case (Cons b bs)
  obtain a s where b: "b = (a, s)" by fastforce
  obtain pre rest where r: "find_fit valid e w bs = Some (pre, rest)" "bs = pre @ rest" "\<forall>b\<in>set pre. snd b < w"
    "rest \<noteq> [] \<longrightarrow> w \<le> snd (hd rest)" using Cons by auto
  show ?case
  proof (cases "s < w")
    case True
    then have "find_fit valid e w (b # bs) = Some (b # pre, rest)" using Cons.prems b r(1) by simp
    then show ?thesis using r True b by (intro exI [of _ "b # pre"] exI [of _ rest]) simp
  next
    case False
    then show ?thesis using Cons.prems b by simp
  qed
qed simp

lemma round_up_8: "k mod 8 \<noteq> 0 \<Longrightarrow> (k + 7) div 8 * 8 = k + (8 - k mod 8)" for k :: nat
proof -
  assume nz: "k mod 8 \<noteq> 0"
  have lt: "k mod 8 < 8" by simp
  have "k + 7 = (k mod 8 - 1) + (k div 8 + 1) * 8" using nz div_mult_mod_eq [of k 8] by simp
  then have "(k + 7) div 8 = k div 8 + 1" using lt by simp
  then have "(k + 7) div 8 * 8 = k div 8 * 8 + 8" by simp
  then show ?thesis using lt div_mult_mod_eq [of k 8] by linarith
qed

lemma unat_wanted:
  assumes "wanted_size x \<noteq> 0"
  shows "unat (wanted_size x) = (unat x + 15) div 8 * 8" "0 < unat x"
proof -
  have ov: "heapADD_WILL_OVERFLOW a b \<longleftrightarrow> \<not> unat a + unat b < 4294967296" for a b
  proof -
    have "unat (NOT 0 - b :: u32) = 4294967295 - unat b"
    proof -
      have "unat (mask 32 :: u32) = 4294967295" by (simp add: mask_eq_exp_minus_1)
      moreover have "(mask 32 :: u32) = - 1" by (simp add: mask_eq_exp_minus_1)
      ultimately have "unat (- 1 :: u32) = 4294967295" by simp
      then show ?thesis using unat_sub [of b "- 1"] by simp
    qed
    then show ?thesis using unat_u32_less [of b] unfolding heapADD_WILL_OVERFLOW_def word_less_nat_alt by linarith
  qed
  have sz: "unat xHeapStructSize = 8" by (rule struct_size)
  have x: "x \<noteq> 0" "unat x + 8 < 4294967296"
    using assms by (auto simp: wanted_size_def ov sz word_gt_0 split: if_splits)
  show "0 < unat x" using x(1) by (simp add: unat_gt_0)
  have w: "unat (x + xHeapStructSize) = unat x + 8" using x(2) by (simp add: unat_add_u32 sz)
  have m: "unat ((x + xHeapStructSize) AND portBYTE_ALIGNMENT_MASK) = (unat x + 8) mod 8"
    by (simp add: portBYTE_ALIGNMENT_MASK_def unat_and_7 w)
  show "unat (wanted_size x) = (unat x + 15) div 8 * 8"
  proof (cases "(unat x + 8) mod 8 = 0")
    case True
    then have "wanted_size x = x + xHeapStructSize"
      using x m by (simp add: wanted_size_def ov sz word_gt_0 Let_def unat_eq_0)
    then show ?thesis using w True by simp presburger
  next
    case False
    have lt: "(unat x + 8) mod 8 < 8" by simp
    define add where "add = 8 - ((x + xHeapStructSize) AND portBYTE_ALIGNMENT_MASK)"
    have ad: "unat add = 8 - (unat x + 8) mod 8"
      unfolding add_def using lt m by (subst unat_sub) (simp_all add: word_le_nat_alt)
    have nz: "(x + xHeapStructSize) AND portBYTE_ALIGNMENT_MASK \<noteq> 0" using m False by (metis unat_0)
    have eq: "wanted_size x = (if heapADD_WILL_OVERFLOW (x + xHeapStructSize) add then 0 else x + xHeapStructSize + add)"
      using x nz unfolding wanted_size_def ov add_def Let_def by (simp add: sz word_gt_0)
    then have "unat x + 8 + unat add < 4294967296" using assms by (simp add: ov w split: if_splits)
    then have "unat (wanted_size x) = unat x + 8 + unat add" unfolding eq by (simp add: ov w sz unat_add_u32)
    then show ?thesis using ad round_up_8 [of "unat x + 8"] False by (simp add: add.commute)
  qed
qed

lemma malloc_split:
  assumes "tiled ucHeap h ts" and "frees ts = pre @ (a, s) # post" and "w \<le> s" and "8 dvd w" and "16 \<le> w"
    and size: "size1 = (if s - w > 16 then w else s)"
  shows "\<exists>ts'. tiles (heap_first ucHeap) ts' (heap_last ucHeap) \<and> coalesced ts'
     \<and> frees ts' = pre @ (if s - w > 16 then [(a + w, s - w)] else []) @ post
     \<and> map_of (useds ts') = (map_of (useds ts))(a := Some size1) \<and> map_of (useds ts) a = None
     \<and> sum_list (map snd (frees ts')) = sum_list (map snd (frees ts)) - size1
     \<and> (a, s, False) \<in> set ts"
proof -
  obtain t1 t2 where ts: "ts = t1 @ (a, s, False) # t2" "frees t1 = pre" "frees t2 = post" using frees_split [OF assms(2)] by blast
  have ti: "tiles (heap_first ucHeap) (t1 @ (a, s, False) # t2) (heap_last ucHeap)" "coalesced (t1 @ (a, s, False) # t2)"
    using assms(1) ts(1) by (auto simp: tiled_def)
  have t: "tiles (heap_first ucHeap) t1 a" "8 dvd s" "16 \<le> s" "tiles (a + s) t2 (heap_last ucHeap)" using ti(1) by (auto simp: tiles_append)
  define ts' where "ts' = t1 @ (a, size1, True) # (if s - w > 16 then [(a + w, s - w, False)] else []) @ t2"
  have "tiles (heap_first ucHeap) ts' (heap_last ucHeap)"
    unfolding ts'_def tiles_append using t assms(3-5) size by (intro exI [of _ a]) auto
  moreover have "coalesced ts'"
    using ti(2) unfolding ts'_def coalesced_def by (cases t2) (auto simp: successively_append_iff successively_Cons)
  moreover have "frees ts' = pre @ (if s - w > 16 then [(a + w, s - w)] else []) @ post" by (simp add: ts'_def ts)
  moreover have "map_of (useds ts') = (map_of (useds ts))(a := Some size1)" "map_of (useds ts) a = None"
    using map_of_useds_split(1) [OF ti(1), where w = size1] map_of_useds_split(2) [OF ti(1)] by (simp_all add: ts'_def ts(1))
  moreover have "sum_list (map snd (frees ts')) = sum_list (map snd (frees ts)) - size1"
    using assms(3) size by (simp add: ts'_def ts)
  ultimately show ?thesis using ts(1) by (intro exI [of _ ts']) simp
qed

lemma fresh_disjoint:
  assumes "tiles f ts e" and "(a, s, False) \<in> set ts" and "map_of (useds ts) b = Some n"
  shows "b + n \<le> a \<or> a + s \<le> b"
proof -
  have b: "(b, n, True) \<in> set ts" using map_of_SomeD [OF assms(3)] by (simp add: mem_useds)
  obtain t1 t2 where ts: "ts = t1 @ (a, s, False) # t2" using split_list [OF assms(2)] by blast
  have t: "tiles f t1 a" "tiles (a + s) t2 e" using assms(1) by (auto simp: ts tiles_append)
  from b ts have "(b, n, True) \<in> set t1 \<or> (b, n, True) \<in> set t2" by auto
  then show ?thesis using tiles_mem [OF t(1)] tiles_mem [OF t(2)] by fastforce
qed

lemma malloc_spec:
  assumes "heap_inv ucHeap h"
  shows "\<exists>p h'. pvPortMalloc ucHeap x h = Some (p, h') \<and> heap_inv ucHeap h' \<and> pxEnd h' \<noteq> 0 \<and>
     (p = 0 \<and> allocated h' = allocated h
        \<and> (wanted_size x = 0 \<or> \<not> heapBLOCK_SIZE_IS_VALID (wanted_size x) \<or> (\<forall>b\<in>set (free_list h'). snd b < unat (wanted_size x)))
      \<or> (\<exists>n. 8 \<le> p \<and> 8 dvd p \<and> unat x + 8 \<le> n \<and> allocated h (p - 8) = None \<and> allocated h' = (allocated h)(p - 8 := Some n)
          \<and> xFreeBytesRemaining h' + n = xFreeBytesRemaining (if pxEnd h = 0 then prvHeapInit ucHeap h else h)
          \<and> ucHeap \<le> p - 8 \<and> p - 8 + n \<le> ucHeap + configTOTAL_HEAP_SIZE
          \<and> (\<forall>b m. allocated h b = Some m \<longrightarrow> b + m \<le> p - 8 \<or> p - 8 + n \<le> b)))"
proof -
  define h1 where "h1 = (if pxEnd h = 0 then prvHeapInit ucHeap h else h)"
  obtain ts where ts: "tiled ucHeap h1 ts" "allocated h1 = allocated h" using heap_inv_init [OF assms] unfolding h1_def by blast
  define W where "W = wanted_size x"
  have pos: "0 < ucHeap" using assms by (simp add: heap_inv_def)
  have ti: "tiles (heap_first ucHeap) ts (heap_last ucHeap)" "pxEnd h1 = heap_last ucHeap" "free_list h1 = frees ts"
    "xFreeBytesRemaining h1 = sum_list (map snd (frees ts))" "allocated h1 = map_of (useds ts)"
    using ts(1) by (auto simp: tiled_def)
  have end0: "heap_last ucHeap \<noteq> 0" using heap_bounds(4) [of ucHeap] by simp
  have inv1: "heap_inv ucHeap h1" using ts(1) pos by (auto simp: heap_inv_def)
  show ?thesis
  proof (cases "heapBLOCK_SIZE_IS_VALID W \<and> W > 0 \<and> unat W \<le> xFreeBytesRemaining h1")
    case False
    have small: "\<forall>b\<in>set (free_list h1). snd b < unat W" if "\<not> unat W \<le> xFreeBytesRemaining h1"
    proof
      fix b assume "b \<in> set (free_list h1)"
      then have "snd b \<le> sum_list (map snd (frees ts))" unfolding ti(3) by (intro member_le_sum_list) auto
      then show "snd b < unat W" using that ti(4) by simp
    qed
    have "pvPortMalloc ucHeap x h = Some (0, h1)" unfolding pvPortMalloc_def h1_def [symmetric] W_def [symmetric] Let_def using False by auto
    then show ?thesis using inv1 ti(2) ts(2) end0 small False
      by (intro exI [of _ 0] exI [of _ h1]) (auto simp: W_def word_gt_0)
  next
    case True
    then have Wnz: "wanted_size x \<noteq> 0" by (auto simp: W_def)
    then have w: "unat W = (unat x + 15) div 8 * 8" "8 dvd unat W" "16 \<le> unat W" "unat x + 8 \<le> unat W"
      using unat_wanted [OF Wnz] by (auto simp: W_def)
    have "\<forall>b\<in>set (free_list h1). heapVALIDATE_BLOCK_POINTER ucHeap (fst b)"
    proof
      fix b assume "b \<in> set (free_list h1)"
      then show "heapVALIDATE_BLOCK_POINTER ucHeap (fst b)"
        using valid_mem(1) [OF ti(1), of "(fst b, snd b, False)"] by (simp add: ti(3) mem_frees)
    qed
    then obtain pre rest where ff: "find_fit (heapVALIDATE_BLOCK_POINTER ucHeap) (pxEnd h1) (unat W) (free_list h1) = Some (pre, rest)"
      "free_list h1 = pre @ rest" "\<forall>b\<in>set pre. snd b < unat W" "rest \<noteq> [] \<longrightarrow> unat W \<le> snd (hd rest)"
      using find_fit_spec [of "heapVALIDATE_BLOCK_POINTER ucHeap" "pxEnd h1" "free_list h1" "unat W"] valid_last ti(2) by metis
    show ?thesis
    proof (cases rest)
      case Nil
      then have "pvPortMalloc ucHeap x h = Some (0, h1)" unfolding pvPortMalloc_def h1_def [symmetric] W_def [symmetric] Let_def using True ff(1) by simp
      then show ?thesis using inv1 ti(2) ts(2) end0 ff(2,3) Nil by (intro exI [of _ 0] exI [of _ h1]) (auto simp: W_def)
    next
      case (Cons b post)
      obtain a s where b: "b = (a, s)" by fastforce
      have fr: "frees ts = pre @ (a, s) # post" "unat W \<le> s" using ff Cons b ti(3) by auto
      define n where "n = (if s - unat W > 16 then unat W else s)"
      obtain ts' where ts': "tiles (heap_first ucHeap) ts' (heap_last ucHeap)" "coalesced ts'"
        "frees ts' = pre @ (if s - unat W > 16 then [(a + unat W, s - unat W)] else []) @ post"
        "map_of (useds ts') = (map_of (useds ts))(a := Some n)" "map_of (useds ts) a = None"
        "sum_list (map snd (frees ts')) = sum_list (map snd (frees ts)) - n" "(a, s, False) \<in> set ts"
        using malloc_split [OF ts(1) fr w(2,3) n_def] by blast
      have va: "heapVALIDATE_BLOCK_POINTER ucHeap (a + 8)" "8 dvd a" using valid_mem [OF ti(1) ts'(7)] by auto
      have mod: "(a + 8) mod 8 = 0" "(a + unat W) mod 8 = 0" using va(2) w(2) by auto
      have mem: "heap_first ucHeap \<le> a" "a + s \<le> heap_last ucHeap" using tiles_mem [OF ti(1) ts'(7)] by auto
      have n: "n \<le> s" "unat W \<le> n" using fr(2) by (auto simp: n_def)
      define left where "left = xFreeBytesRemaining h1 - n"
      define h' where "h' = h1\<lparr>free_list := pre @ (if s - unat W > 16 then [(a + unat W, s - unat W)] else []) @ post,
          allocated := (allocated h1)(a := Some n), xFreeBytesRemaining := left,
          xMinimumEverFreeBytesRemaining := min left (xMinimumEverFreeBytesRemaining h1),
          xNumberOfSuccessfulAllocations := xNumberOfSuccessfulAllocations h1 + 1\<rparr>"
      have run: "pvPortMalloc ucHeap x h = Some (a + 8, h')"
        unfolding pvPortMalloc_def h1_def [symmetric] W_def [symmetric] Let_def using True ff(1) Cons b va(1) mod fr(2)
        by (simp add: struct_size h'_def left_def n_def)
      have "tiled ucHeap h' ts'" unfolding tiled_def h'_def left_def using ts' ti by simp
      then have inv: "heap_inv ucHeap h'" using pos by (auto simp: heap_inv_def)
      have "s \<le> sum_list (map snd (frees ts))" unfolding fr(1) by simp
      then have bytes: "xFreeBytesRemaining h' + n = xFreeBytesRemaining h1" using n by (simp add: h'_def left_def ti(4))
      have dis: "c + m \<le> a \<or> a + n \<le> c" if "allocated h c = Some m" for c m
        using fresh_disjoint [OF ti(1) ts'(7), of c m] that ts(2) ti(5) n(1) by auto
      have rng: "ucHeap \<le> a" "a + n \<le> ucHeap + configTOTAL_HEAP_SIZE"
        using mem n(1) heap_bounds(1,3) [of ucHeap] by (auto simp: configTOTAL_HEAP_SIZE_def)
      show ?thesis
        using run inv bytes dis rng va(2) w(4) n(2) ts'(5) ts(2) ti(2,5) end0 unfolding h1_def [symmetric]
        by (intro exI [of _ "a + 8"] exI [of _ h'] conjI disjI2 exI [of _ n]) (auto simp: h'_def)
    qed
  qed
qed

section \<open>Release\<close>

lemma insert_spec:
  assumes "\<forall>x\<in>set pre. fst x < l \<and> valid (fst x)" and "\<forall>x\<in>set post. l < fst x"
  shows "prvInsertBlockIntoFreeList valid (l, s) (pre @ post) = Some
    (if pre = [] then merge_next (l, s) post
     else if fst (last pre) + snd (last pre) = l then butlast pre @ merge_next (fst (last pre), snd (last pre) + s) post
     else pre @ merge_next (l, s) post)"
  using assms(1)
proof (induction pre)
  case Nil
  then show ?case using assms(2) by (cases post) (auto simp: merge_next_def)
next
  case (Cons x xs)
  show ?case
  proof (cases "xs = []")
    case True
    have "\<not> (post \<noteq> [] \<and> fst (hd post) < l)" using assms(2) by (cases post) fastforce+
    then show ?thesis using Cons.prems True by auto
  next
    case False
    then have "fst (hd (xs @ post)) < l" "xs @ post \<noteq> []" using Cons.prems by (cases xs; auto)+
    then show ?thesis using Cons False by (simp del: prvInsertBlockIntoFreeList.simps add: prvInsertBlockIntoFreeList.simps(2))
  qed
qed

text \<open>The tiling after a release: the block joins the free neighbours it has.\<close>

definition join_next :: "nat \<Rightarrow> nat \<Rightarrow> tile list \<Rightarrow> tile list" where
  "join_next l s t2 = (if t2 \<noteq> [] \<and> \<not> used (hd t2) then (l, s + fst (snd (hd t2)), False) # tl t2 else (l, s, False) # t2)"

definition join_tiles :: "tile list \<Rightarrow> nat \<Rightarrow> nat \<Rightarrow> tile list \<Rightarrow> tile list" where
  "join_tiles t1 l s t2 =
     (if t1 \<noteq> [] \<and> \<not> used (last t1) then butlast t1 @ join_next (fst (last t1)) (fst (snd (last t1)) + s) t2
      else t1 @ join_next l s t2)"

lemma join_next_facts:
  assumes "tiles (l + s) t2 e" and "coalesced t2" and "8 dvd s" and "16 \<le> s"
  shows "tiles l (join_next l s t2) e" "frees (join_next l s t2) = merge_next (l, s) (frees t2)"
    "useds (join_next l s t2) = useds t2" "coalesced (join_next l s t2)" "join_next l s t2 \<noteq> []" "\<not> used (hd (join_next l s t2))"
    "sum_list (map snd (frees (join_next l s t2))) = s + sum_list (map snd (frees t2))"
proof -
  have "l + s \<noteq> fst b" if free: "t2 = [] \<or> used (hd t2)" "b \<in> set (frees t2)" for b
  proof (cases t2)
    case (Cons x xs)
    obtain n where x: "x = (l + s, n, True)" "16 \<le> n" "tiles (l + s + n) xs e" using assms(1) free(1) Cons by (cases x) auto
    then have "b \<in> set (frees xs)" using free(2) Cons by simp
    then show ?thesis using tiles_mem [OF x(3), of "(fst b, snd b, False)"] x(2) by (simp add: mem_frees)
  qed (use free in simp)
  then have nm: "merge_next (l, s) (frees t2) = (l, s) # frees t2" if "t2 = [] \<or> used (hd t2)"
    using that by (cases "frees t2") (auto simp: merge_next_def)
  show "tiles l (join_next l s t2) e" "frees (join_next l s t2) = merge_next (l, s) (frees t2)"
    "useds (join_next l s t2) = useds t2" "coalesced (join_next l s t2)" "join_next l s t2 \<noteq> []" "\<not> used (hd (join_next l s t2))"
    "sum_list (map snd (frees (join_next l s t2))) = s + sum_list (map snd (frees t2))"
    using assms nm by (cases t2; auto simp: join_next_def merge_next_def coalesced_def successively_Cons add.assoc)+
qed

lemma join_facts:
  assumes "tiles f (t1 @ (l, s, True) # t2) e" and "coalesced (t1 @ (l, s, True) # t2)" and "\<forall>t\<in>set t1. valid (fst t)"
  shows "tiles f (join_tiles t1 l s t2) e \<and> coalesced (join_tiles t1 l s t2) \<and> useds (join_tiles t1 l s t2) = useds t1 @ useds t2
      \<and> prvInsertBlockIntoFreeList valid (l, s) (frees t1 @ frees t2) = Some (frees (join_tiles t1 l s t2))
      \<and> sum_list (map snd (frees (join_tiles t1 l s t2))) = sum_list (map snd (frees t1)) + s + sum_list (map snd (frees t2))"
proof -
  have t: "tiles f t1 l" "8 dvd s" "16 \<le> s" "tiles (l + s) t2 e" using assms(1) by (auto simp: tiles_append)
  have co: "coalesced t1" "coalesced t2" using assms(2) by (auto simp: coalesced_def successively_append_iff successively_Cons)
  have pre: "\<forall>x\<in>set (frees t1). fst x < l \<and> valid (fst x)"
  proof
    fix x assume "x \<in> set (frees t1)"
    then have m: "(fst x, snd x, False) \<in> set t1" by (simp add: mem_frees)
    then show "fst x < l \<and> valid (fst x)" using tiles_mem [OF t(1) m] assms(3) by auto
  qed
  have post: "\<forall>x\<in>set (frees t2). l < fst x"
  proof
    fix x assume "x \<in> set (frees t2)"
    then show "l < fst x" using tiles_mem [OF t(4), of "(fst x, snd x, False)"] t(3) by (simp add: mem_frees)
  qed
  note ins = insert_spec [OF pre post, of s]
  show ?thesis
  proof (cases "t1 \<noteq> [] \<and> \<not> used (last t1)")
    case True
    then obtain t0 a n where t1: "t1 = t0 @ [(a, n, False)]" by (metis append_butlast_last_id prod.collapse used_def)
    have t0: "tiles f t0 a" "a + n = l" "8 dvd n" "16 \<le> n" using t(1) by (auto simp: t1 tiles_append)
    have "tiles (a + (n + s)) t2 e" using t(4) t0(2) by (simp add: add.assoc [symmetric])
    note j = join_next_facts [OF this co(2)]
    have last0: "t0 = [] \<or> used (last t0)" "coalesced t0" using co(1) by (auto simp: t1 coalesced_def successively_append_iff)
    have jt: "join_tiles t1 l s t2 = t0 @ join_next a (n + s) t2" by (simp add: join_tiles_def t1)
    show ?thesis
      unfolding jt ins using j t t0 last0 by (auto simp: t1 tiles_append coalesced_def successively_append_iff)
  next
    case False
    then have lu: "t1 = [] \<or> used (last t1)" by blast
    note j = join_next_facts [OF t(4) co(2) t(2,3)]
    have nadj: "frees t1 \<noteq> [] \<Longrightarrow> fst (last (frees t1)) + snd (last (frees t1)) \<noteq> l"
    proof -
      assume ne: "frees t1 \<noteq> []"
      then obtain t0 a n where t1: "t1 = t0 @ [(a, n, True)]" using lu
        by (metis append_butlast_last_id prod.collapse used_def tile_simps(3))
      have t0: "tiles f t0 a" "a + n = l" "16 \<le> n" using t(1) by (auto simp: t1 tiles_append)
      have "last (frees t1) \<in> set (frees t0)" using ne by (simp add: t1)
      then show ?thesis using tiles_mem [OF t0(1), of "(fst (last (frees t1)), snd (last (frees t1)), False)"] t0(2,3) by (simp add: mem_frees)
    qed
    have jt: "join_tiles t1 l s t2 = t1 @ join_next l s t2" using lu by (auto simp: join_tiles_def)
    show ?thesis
      unfolding jt ins using j t lu nadj co by (auto simp: tiles_append coalesced_def successively_append_iff)
  qed
qed

lemma free_spec:
  assumes "heap_inv ucHeap h" and "allocated h l = Some s"
  shows "\<exists>h'. vPortFree ucHeap (l + 8) h = Some h' \<and> heap_inv ucHeap h' \<and> pxEnd h' = pxEnd h \<and> allocated h' = (allocated h)(l := None)
     \<and> xFreeBytesRemaining h' = xFreeBytesRemaining h + s"
proof -
  obtain ts where ts: "tiled ucHeap h ts" "0 < ucHeap" using assms by (auto simp: heap_inv_def)
  then have al: "allocated h = map_of (useds ts)" by (simp add: tiled_def)
  then have "(l, s) \<in> set (useds ts)" using assms(2) map_of_SomeD by metis
  then obtain t1 t2 where sp: "ts = t1 @ (l, s, True) # t2" using useds_split by blast
  have ti: "tiles (heap_first ucHeap) (t1 @ (l, s, True) # t2) (heap_last ucHeap)" "coalesced (t1 @ (l, s, True) # t2)"
    using ts(1) sp by (auto simp: tiled_def)
  have va: "\<forall>t\<in>set t1. heapVALIDATE_BLOCK_POINTER ucHeap (fst t)" "heapVALIDATE_BLOCK_POINTER ucHeap l"
    using valid_mem(1) [OF ti(1)] by fastforce+
  note j = join_facts [OF ti va(1)]
  let ?ts = "join_tiles t1 l s t2"
  let ?h = "h\<lparr>allocated := (allocated h)(l := None), xFreeBytesRemaining := xFreeBytesRemaining h + s,
      free_list := frees ?ts, xNumberOfSuccessfulFrees := xNumberOfSuccessfulFrees h + 1\<rparr>"
  have fl: "free_list h = frees t1 @ frees t2" using ts(1) sp by (simp add: tiled_def)
  have run: "vPortFree ucHeap (l + 8) h = Some ?h"
    using va(2) assms(2) j fl by (simp add: vPortFree_def struct_size)
  have "map_of (useds ?ts) = (map_of (useds ts))(l := None)"
  proof -
    have "useds ts = useds t1 @ (l, s) # useds t2" by (simp add: sp)
    then have "(map_of (useds ts))(l := None) = (map_of (useds t1 @ useds t2))(l := None)"
      using map_of_useds_split(1) [OF ti(1), where w = s] by simp
    also have "\<dots> = map_of (useds t1 @ useds t2)" using map_of_useds_split(2) [OF ti(1)] by (rule fun_upd_idem)
    finally show ?thesis using j by simp
  qed
  then have "tiled ucHeap ?h ?ts" using ts(1) j sp al by (simp add: tiled_def)
  then have "heap_inv ucHeap ?h" using ts(2) by (auto simp: heap_inv_def)
  then show ?thesis using run by (intro exI [of _ ?h]) simp
qed

section \<open>The interface of an allocator\<close>

text \<open>
  What the kernel relies on: \<open>live h p\<close> is the number of bytes usable at a pointer the
  application holds. A run of the allocator is any sequence of requests and of releases of
  pointers held.
\<close>

inductive alloc_run ::
  "(u32 \<Rightarrow> 'h \<Rightarrow> (nat \<times> 'h) option) \<Rightarrow> (nat \<Rightarrow> 'h \<Rightarrow> 'h option) \<Rightarrow> ('h \<Rightarrow> nat \<Rightarrow> nat option) \<Rightarrow> 'h \<Rightarrow> 'h \<Rightarrow> bool"
  for malloc free live h where
  start: "alloc_run malloc free live h h"
| request: "alloc_run malloc free live h h1 \<Longrightarrow> malloc x h1 = Some (p, h2) \<Longrightarrow> alloc_run malloc free live h h2"
| release: "alloc_run malloc free live h h1 \<Longrightarrow> live h1 p \<noteq> None \<Longrightarrow> free p h1 = Some h2 \<Longrightarrow> alloc_run malloc free live h h2"

definition apart :: "(nat \<Rightarrow> nat option) \<Rightarrow> bool" where
  "apart m \<longleftrightarrow> (\<forall>p q j k. p \<noteq> q \<longrightarrow> m p = Some j \<longrightarrow> m q = Some k \<longrightarrow> p + j \<le> q \<or> q + k \<le> p)"

locale allocator =
  fixes malloc :: "u32 \<Rightarrow> 'h \<Rightarrow> (nat \<times> 'h) option"
    and free :: "nat \<Rightarrow> 'h \<Rightarrow> 'h option"
    and live :: "'h \<Rightarrow> nat \<Rightarrow> nat option"
    and inv :: "'h \<Rightarrow> bool"
  assumes malloc_returns: "inv h \<Longrightarrow> \<exists>p h'. malloc x h = Some (p, h') \<and> inv h' \<and>
      (p = 0 \<and> live h' = live h
       \<or> p \<noteq> 0 \<and> live h p = None \<and> (\<exists>n\<ge>unat x. live h' = (live h)(p := Some n)
           \<and> (\<forall>q k. live h q = Some k \<longrightarrow> p + n \<le> q \<or> q + k \<le> p)))"
    and free_returns: "inv h \<Longrightarrow> live h p = Some n \<Longrightarrow> \<exists>h'. free p h = Some h' \<and> inv h' \<and> live h' = (live h)(p := None)"
begin

lemma run_safe:
  assumes "alloc_run malloc free live h h'" and "inv h" and "apart (live h)"
  shows "inv h' \<and> apart (live h')"
  using assms
proof (induction rule: alloc_run.induct)
  case (request h1 x p h2)
  then have h1: "inv h1" "apart (live h1)" by auto
  from malloc_returns [OF h1(1), of x] request.hyps(2)
  have "inv h2" and alt: "p = 0 \<and> live h2 = live h1 \<or> p \<noteq> 0 \<and> live h1 p = None \<and> (\<exists>n\<ge>unat x. live h2 = (live h1)(p := Some n)
           \<and> (\<forall>q k. live h1 q = Some k \<longrightarrow> p + n \<le> q \<or> q + k \<le> p))" by auto
  from alt have "apart (live h2)"
  proof
    assume "p \<noteq> 0 \<and> live h1 p = None \<and> (\<exists>n\<ge>unat x. live h2 = (live h1)(p := Some n)
           \<and> (\<forall>q k. live h1 q = Some k \<longrightarrow> p + n \<le> q \<or> q + k \<le> p))"
    then obtain n where n: "live h2 = (live h1)(p := Some n)" "\<And>q k. live h1 q = Some k \<Longrightarrow> p + n \<le> q \<or> q + k \<le> p" by blast
    show ?thesis unfolding apart_def
    proof (intro allI impI)
      fix a b j k assume ab: "a \<noteq> b" "live h2 a = Some j" "live h2 b = Some k"
      show "a + j \<le> b \<or> b + k \<le> a"
      proof (cases "a = p \<or> b = p")
        case True
        then show ?thesis using ab n(1) n(2) [of a j] n(2) [of b k] by auto
      next
        case False
        then show ?thesis using ab n(1) h1(2) unfolding apart_def by simp
      qed
    qed
  qed (use h1 in simp)
  with \<open>inv h2\<close> show ?case by simp
next
  case (release h1 p h2)
  then have h1: "inv h1" "apart (live h1)" by auto
  obtain n where "live h1 p = Some n" using release.hyps(2) by auto
  from free_returns [OF h1(1) this] release.hyps(3) have "inv h2" "live h2 = (live h1)(p := None)" by auto
  then show ?case using h1(2) by (auto simp: apart_def)
qed auto

lemma run_returns:
  assumes "alloc_run malloc free live h h'" and "inv h" and "apart (live h)"
  shows "\<exists>p h2. malloc x h' = Some (p, h2)" "live h' p = Some n \<Longrightarrow> \<exists>h2. free p h' = Some h2"
  using run_safe [OF assms] malloc_returns free_returns by blast+

end

definition heap_live :: "heap4 \<Rightarrow> nat \<Rightarrow> nat option" where
  "heap_live h p = (if 8 \<le> p then map_option (\<lambda>n. n - 8) (allocated h (p - 8)) else None)"

lemma heap_live_upd: "8 \<le> p \<Longrightarrow> allocated h' = (allocated h)(p - 8 := x) \<Longrightarrow> heap_live h' = (heap_live h)(p := map_option (\<lambda>n. n - 8) x)"
  by (auto simp: heap_live_def fun_eq_iff)

interpretation h4: allocator "pvPortMalloc ucHeap" "vPortFree ucHeap" heap_live "heap_inv ucHeap" for ucHeap
proof
  fix h x assume inv: "heap_inv ucHeap h"
  obtain p h' where r: "pvPortMalloc ucHeap x h = Some (p, h')" "heap_inv ucHeap h'" and
    alt: "p = 0 \<and> allocated h' = allocated h \<or> (\<exists>n. 8 \<le> p \<and> unat x + 8 \<le> n \<and> allocated h (p - 8) = None \<and> allocated h' = (allocated h)(p - 8 := Some n)
          \<and> (\<forall>b m. allocated h b = Some m \<longrightarrow> b + m \<le> p - 8 \<or> p - 8 + n \<le> b))"
    using malloc_spec [OF inv, of x] by blast
  show "\<exists>p h'. pvPortMalloc ucHeap x h = Some (p, h') \<and> heap_inv ucHeap h' \<and>
      (p = 0 \<and> heap_live h' = heap_live h
       \<or> p \<noteq> 0 \<and> heap_live h p = None \<and> (\<exists>n\<ge>unat x. heap_live h' = (heap_live h)(p := Some n)
           \<and> (\<forall>q k. heap_live h q = Some k \<longrightarrow> p + n \<le> q \<or> q + k \<le> p)))"
    using alt
  proof (elim disjE exE conjE)
    fix n assume n: "8 \<le> p" "unat x + 8 \<le> n" "allocated h (p - 8) = None" "allocated h' = (allocated h)(p - 8 := Some n)"
      "\<forall>b m. allocated h b = Some m \<longrightarrow> b + m \<le> p - 8 \<or> p - 8 + n \<le> b"
    have "p + (n - 8) \<le> q \<or> q + k \<le> p" if "heap_live h q = Some k" for q k
    proof -
      obtain m where m: "allocated h (q - 8) = Some m" "8 \<le> q" "k = m - 8" using \<open>heap_live h q = Some k\<close> by (auto simp: heap_live_def split: if_splits)
      then show ?thesis using n(1,2) n(5) [rule_format, OF m(1)] by linarith
    qed
    moreover have "heap_live h' = (heap_live h)(p := Some (n - 8))" using heap_live_upd [OF n(1,4)] by simp
    moreover have "heap_live h p = None" "unat x \<le> n - 8" "p \<noteq> 0" using n by (auto simp: heap_live_def)
    ultimately show ?thesis using r by blast
  qed (use r in \<open>auto simp: heap_live_def fun_eq_iff\<close>)
next
  fix h p n assume inv: "heap_inv ucHeap h" and l: "heap_live h p = Some n"
  then obtain m where m: "8 \<le> p" "allocated h (p - 8) = Some m" by (auto simp: heap_live_def split: if_splits)
  from free_spec [OF inv m(2)] m(1) obtain h' where "vPortFree ucHeap p h = Some h'" "heap_inv ucHeap h'" "allocated h' = (allocated h)(p - 8 := None)"
    by auto
  with heap_live_upd [OF m(1), of h' h None] show "\<exists>h'. vPortFree ucHeap p h = Some h' \<and> heap_inv ucHeap h' \<and> heap_live h' = (heap_live h)(p := None)"
    by simp
qed

section \<open>Properties\<close>

lemma heap_inv_start: "0 < ucHeap \<Longrightarrow> heap_inv ucHeap heap4_start"
  by (simp add: heap_inv_def heap4_start_def)

lemma apart_empty: "apart (heap_live heap4_start)"
  by (simp add: apart_def heap_live_def heap4_start_def)

lemma free_list_determined:
  assumes "tiled ucHeap h ts" and "tiled ucHeap h' ts'" and "allocated h = allocated h'"
  shows "free_list h = free_list h' \<and> xFreeBytesRemaining h = xFreeBytesRemaining h'"
proof -
  have t: "tiles (heap_first ucHeap) ts (heap_last ucHeap)" "tiles (heap_first ucHeap) ts' (heap_last ucHeap)" "coalesced ts" "coalesced ts'"
    "map_of (useds ts) = map_of (useds ts')" using assms by (auto simp: tiled_def)
  have "useds ts = useds ts'" by (rule map_of_sorted_inj [OF useds_sorted [OF t(1)] useds_sorted [OF t(2)] t(5)])
  then have "ts = ts'" by (rule tiles_unique [OF t(1-4)])
  then show ?thesis using assms(1,2) by (simp add: tiled_def)
qed

text \<open>
  C21. Safety of the kernel heap: from the state before the first call, after any sequence of
  \<open>pvPortMalloc\<close> calls of any sizes and \<open>vPortFree\<close> calls on pointers held, the memory
  areas held by the application are pairwise disjoint, and the next call of either function
  returns without a failed assertion.
\<close>

theorem heap_runs_safe:
  assumes "0 < ucHeap" and "alloc_run (pvPortMalloc ucHeap) (vPortFree ucHeap) heap_live heap4_start h"
  shows "apart (heap_live h) \<and> (\<exists>p h'. pvPortMalloc ucHeap x h = Some (p, h'))
     \<and> (\<forall>q n. heap_live h q = Some n \<longrightarrow> (\<exists>h'. vPortFree ucHeap q h = Some h'))"
  using h4.run_safe [OF assms(2) heap_inv_start apart_empty] h4.run_returns [OF assms(2) heap_inv_start apart_empty] assms(1)
  by auto

theorem heap_runs_safe_witness:
  "\<exists>p h h'. pvPortMalloc 0x20000000 100 heap4_start = Some (p, h) \<and> apart (heap_live h) \<and> pvPortMalloc 0x20000000 40 h \<noteq> None"
proof -
  obtain p h where r: "pvPortMalloc 0x20000000 100 heap4_start = Some (p, h)"
    using malloc_spec [OF heap_inv_start, of "0x20000000" 100] by auto
  have "alloc_run (pvPortMalloc 0x20000000) (vPortFree 0x20000000) heap_live heap4_start h"
    by (rule alloc_run.request) (rule alloc_run.start, rule r)
  from heap_runs_safe [OF _ this] r show ?thesis by fastforce
qed

text \<open>
  Allocation: for a heap that satisfies its invariant, \<open>pvPortMalloc\<close> returns. Either the
  pointer is NULL, nothing changed hands, and the request was empty, too large to express or
  larger than every free block; or the pointer is 8-byte aligned, the block behind it has room
  for the request and its header, lies inside \<open>ucHeap\<close>, overlaps no block allocated before,
  and the free byte count drops by exactly the size of the block.
\<close>

theorem malloc_correct:
  assumes "heap_inv ucHeap h" and "pxEnd h \<noteq> 0"
  shows "\<exists>p h'. pvPortMalloc ucHeap x h = Some (p, h') \<and> heap_inv ucHeap h' \<and>
     (p = 0 \<and> allocated h' = allocated h
        \<and> (wanted_size x = 0 \<or> \<not> heapBLOCK_SIZE_IS_VALID (wanted_size x) \<or> (\<forall>b\<in>set (free_list h'). snd b < unat (wanted_size x)))
      \<or> (\<exists>n. 8 \<le> p \<and> 8 dvd p \<and> unat x + 8 \<le> n \<and> allocated h (p - 8) = None \<and> allocated h' = (allocated h)(p - 8 := Some n)
          \<and> xFreeBytesRemaining h' + n = xFreeBytesRemaining h
          \<and> ucHeap \<le> p - 8 \<and> p - 8 + n \<le> ucHeap + configTOTAL_HEAP_SIZE
          \<and> (\<forall>b m. allocated h b = Some m \<longrightarrow> b + m \<le> p - 8 \<or> p - 8 + n \<le> b)))"
  using malloc_spec [OF assms(1), of x] assms(2) by (simp only: if_False) blast

definition sample_heap :: heap4 where
  "sample_heap = prvHeapInit 0x20000000 heap4_start"

lemma sample_heap_inv: "heap_inv 0x20000000 sample_heap" "pxEnd sample_heap \<noteq> 0"
proof -
  have al: "allocated heap4_start = (\<lambda>_. None)" by (simp add: heap4_start_def)
  note i = heap_init_tiled [OF al, of "0x20000000", folded sample_heap_def]
  then have t: "\<exists>ts. tiled 0x20000000 sample_heap ts" "pxEnd sample_heap = heap_last 0x20000000"
    by (blast, simp add: tiled_def)
  then show "heap_inv 0x20000000 sample_heap" "pxEnd sample_heap \<noteq> 0" using heap_bounds(4) [of "0x20000000"] by (auto simp: heap_inv_def)
qed

theorem malloc_correct_witness:
  "\<exists>p h'. pvPortMalloc 0x20000000 100 sample_heap = Some (p, h') \<and> heap_inv 0x20000000 h'"
  using malloc_correct [OF sample_heap_inv(1,2), of 100] by blast

text \<open>
  C34. Freeing undoes allocation: in every heap reached from the initial state by a run, the free
  list and the free byte count depend only on which blocks are held. In particular, once every
  block has been given back, in whatever order, the free list is again the one block that spans
  the heap.
\<close>

theorem heap_free_list_canonical:
  assumes "0 < ucHeap"
    and "alloc_run (pvPortMalloc ucHeap) (vPortFree ucHeap) heap_live heap4_start h"
    and "alloc_run (pvPortMalloc ucHeap) (vPortFree ucHeap) heap_live heap4_start h'"
    and "pxEnd h \<noteq> 0" and "pxEnd h' \<noteq> 0" and "allocated h = allocated h'"
  shows "free_list h = free_list h' \<and> xFreeBytesRemaining h = xFreeBytesRemaining h'
     \<and> (allocated h = (\<lambda>_. None) \<longrightarrow> free_list h = [(heap_first ucHeap, heap_last ucHeap - heap_first ucHeap)])"
proof -
  have "heap_inv ucHeap h" "heap_inv ucHeap h'"
    using h4.run_safe [OF assms(2) heap_inv_start apart_empty] h4.run_safe [OF assms(3) heap_inv_start apart_empty] assms(1) by auto
  then obtain ts ts' where t: "tiled ucHeap h ts" "tiled ucHeap h' ts'" using assms(4,5) by (auto simp: heap_inv_def)
  have "free_list h = [(heap_first ucHeap, heap_last ucHeap - heap_first ucHeap)]" if "allocated h = (\<lambda>_. None)"
  proof -
    have "allocated heap4_start = (\<lambda>_. None)" by (simp add: heap4_start_def)
    note i = heap_init_tiled [OF this, of ucHeap]
    have "allocated (prvHeapInit ucHeap heap4_start) = allocated h" using that by (simp add: prvHeapInit_def Let_def heap4_start_def split_beta)
    with free_list_determined [OF i t(1)] i show ?thesis by (simp add: tiled_def)
  qed
  then show ?thesis using free_list_determined [OF t assms(6)] by simp
qed

theorem heap_free_list_canonical_witness:
  "\<exists>p h h'. pvPortMalloc 0x20000000 100 heap4_start = Some (p, h) \<and> vPortFree 0x20000000 p h = Some h'
     \<and> free_list h' = [(heap_first 0x20000000, heap_last 0x20000000 - heap_first 0x20000000)]"
proof -
  have "\<exists>p h n. pvPortMalloc 0x20000000 100 heap4_start = Some (p, h) \<and> allocated h = [p - 8 \<mapsto> n] \<and> 8 \<le> p \<and> pxEnd h \<noteq> 0"
  proof -
    have n: "pvPortMalloc 0x20000000 100 heap4_start \<noteq> None"
      using malloc_spec [OF heap_inv_start, of "0x20000000" 100] by auto
    show ?thesis using n
      by (simp add: pvPortMalloc_def wanted_size_def prvHeapInit_def heap4_start_def heapADD_WILL_OVERFLOW_def xHeapStructSize_def
          heapMINIMUM_BLOCK_SIZE_def heapBLOCK_SIZE_IS_VALID_def heapVALIDATE_BLOCK_POINTER_def configTOTAL_HEAP_SIZE_def cdefs Let_def fun_eq_iff)
  qed
  then obtain p h n where r: "pvPortMalloc 0x20000000 100 heap4_start = Some (p, h)" "allocated h = [p - 8 \<mapsto> n]" "8 \<le> p" "pxEnd h \<noteq> 0" by blast
  have run1: "alloc_run (pvPortMalloc 0x20000000) (vPortFree 0x20000000) heap_live heap4_start h"
    by (rule alloc_run.request) (rule alloc_run.start, rule r(1))
  have inv: "heap_inv 0x20000000 h" using h4.run_safe [OF run1 heap_inv_start apart_empty] by simp
  obtain h' where f: "vPortFree 0x20000000 p h = Some h'" "allocated h' = (\<lambda>_. None)" "pxEnd h' \<noteq> 0"
    using free_spec [OF inv, of "p - 8" n] r by auto
  have l: "heap_live h p \<noteq> None" using r by (simp add: heap_live_def)
  have run2: "alloc_run (pvPortMalloc 0x20000000) (vPortFree 0x20000000) heap_live heap4_start h'"
    by (rule alloc_run.release [OF run1 l f(1)])
  from heap_free_list_canonical [OF _ run2 run2 f(3,3) refl] f r(1) show ?thesis by auto
qed

end
