(* ===== verification/Rtos_Boot_Proofs.thy ===== *)
theory Rtos_Boot_Proofs
  imports Rtos_Boot Rtos_Queue_Proofs Rtos_Heap_Proofs
begin

text \<open>
  Creating tasks. \<open>boot_ok\<close> is the invariant: the kernel invariant, a well-formed heap, control
  blocks of tasks lie in allocated memory, and the current task is a ready one of the highest
  priority. \<open>xTaskCreate\<close> keeps it, before and after the scheduler was started, and returns whatever
  is left of the heap. The first task of all sets the kernel lists up.
\<close>

section \<open>A new control block\<close>

lemma replace_unlinked:
  assumes "core_ok s" and "state_in (tcbs s t) = None" and "event_in (tcbs s t) = None"
    and "state_in c = None" and "event_in c = None" and "uxPriority c < configMAX_PRIORITIES"
  shows "core_ok (upd_tcb t (\<lambda>_. c) s)"
proof -
  have l: "links_ok s" and r: "ready_ok s" and d: "delays_ok s" and tm: "times_ok s" using assms(1) by (simp_all add: core_ok_def tick_inv_def)
  let ?s = "upd_tcb t (\<lambda>_. c) s"
  have out: "t \<notin> set (fst (klists s (Delayed i)))" for i using links_okD(2) [OF l, of "Delayed i" t] assms(2) by simp
  have "links_ok ?s" using l assms(2-5) unfolding links_ok_def by simp
  moreover have "ready_ok ?s" using r assms(4,6) by (simp add: ready_ok_def)
  moreover have "map (\<lambda>u. state_value (tcbs ?s u)) (fst (klists s (Delayed i))) = map (\<lambda>u. state_value (tcbs s u)) (fst (klists s (Delayed i)))" for i
    using out [of i] by auto
  then have "sorted (map (\<lambda>u. state_value (tcbs ?s u)) (fst (klists s (Delayed i))))" for i using d by (simp only: delays_ok_def)
  then have "delays_ok ?s" using d assms(4) unfolding delays_ok_def by simp
  moreover have "times_ok ?s" using tm assms(4) by (simp add: times_ok_def)
  ultimately show ?thesis by (simp add: core_ok_def tick_inv_def)
qed

lemma add_core:
  assumes "core_ok s" and "state_in (tcbs s t) = None"
  shows "core_ok (prvAddTaskToReadyList t s)"
proof -
  have l: "links_ok s" and r: "ready_ok s" and d: "delays_ok s" and tm: "times_ok s" using assms(1) by (simp_all add: core_ok_def tick_inv_def)
  have p: "uxPriority (tcbs s t) < 32" using r by (simp add: ready_ok_def configMAX_PRIORITIES_def less_trans [of _ 5 32])
  have e: "fst (a_insert_end t A) \<noteq> []" for A by (simp add: a_insert_end_def split: option.splits)
  let ?s = "prvAddTaskToReadyList t s"
  have "links_ok (s\<lparr>uxTopReadyPriority := w\<rparr>)" for w using l by (simp add: links_ok_def)
  then have "links_ok ?s" unfolding prvAddTaskToReadyList_def Let_def by (intro links_state_insert_end) (use assms(2) in simp_all)
  moreover have "ready_ok ?s" using r e p unfolding ready_ok_def by (simp add: bit_record)
  moreover have "(\<lambda>u. state_value (tcbs ?s u)) = (\<lambda>u. state_value (tcbs s u))" by auto
  then have "delays_ok ?s" using d by (simp add: delays_ok_def)
  moreover have "times_ok ?s" using tm d by (auto simp: times_ok_def delays_ok_def)
  ultimately show ?thesis by (simp add: core_ok_def tick_inv_def)
qed

lemma add_kernel:
  assumes "kernel_ok s" and "state_in (tcbs s t) = None" and "event_in (tcbs s t) = None"
  shows "kernel_ok (prvAddTaskToReadyList t s)"
  using assms add_core [of s t] by (auto simp: kernel_ok_def sched_ok_def waiters_ok_def some_ready_def)

lemma replace_kernel:
  assumes "kernel_ok s" and "state_in (tcbs s t) = None" and "event_in (tcbs s t) = None"
    and "state_in c = None" and "event_in c = None" and "uxPriority c < configMAX_PRIORITIES"
  shows "kernel_ok (upd_tcb t (\<lambda>_. c) s)"
proof -
  have "some_ready (upd_tcb t (\<lambda>_. c) s)" using assms(1,2) unfolding kernel_ok_def some_ready_def by (metis upd_tcb_sel(1) fun_upd_other option.distinct(1))
  then show ?thesis using assms replace_unlinked [OF _ assms(2-6)] by (simp add: kernel_ok_def sched_ok_def waiters_ok_def)
qed

lemma kernel_cong:
  assumes "kernel_ok s" and "tcbs s' = tcbs s" and "klists s' = klists s" and "uxTopReadyPriority s' = uxTopReadyPriority s"
    and "pxDelayedTaskList s' = pxDelayedTaskList s" and "pxOverflowDelayedTaskList s' = pxOverflowDelayedTaskList s"
    and "xTickCount s' = xTickCount s" and "xNextTaskUnblockTime s' = xNextTaskUnblockTime s"
    and "uxSchedulerSuspended s' = uxSchedulerSuspended s" and "xPendedTicks s' = xPendedTicks s"
  shows "kernel_ok s'"
  using assms core_ok_cong [of s s'] by (simp add: kernel_ok_def sched_ok_def waiters_ok_def some_ready_def)

section \<open>The end of a critical section\<close>

lemma exit_frame:
  assumes "taskEXIT_CRITICAL s = Some s'"
  shows "uxCurrentNumberOfTasks s' = uxCurrentNumberOfTasks s" "sched.more s' = sched.more s"
  using assms unfolding taskEXIT_CRITICAL_def vTaskSwitchContext_def taskSELECT_HIGHEST_PRIORITY_TASK_def put_list_def
  by (auto simp: Let_def split: if_splits prod.splits)

lemma exit_runs:
  assumes "kernel_ok s" and "runs_highest s \<or> pend_sv s"
  shows "\<exists>s'. taskEXIT_CRITICAL s = Some s' \<and> settled s s' \<and> runs_highest s' \<and> kernel_ok s'"
proof -
  obtain t p where r: "state_in (tcbs s t) = Some (Ready p)" "core_ok s" "uxSchedulerSuspended s = 0"
    using assms(1) by (auto simp: kernel_ok_def some_ready_def sched_ok_def)
  show ?thesis
  proof (cases "pend_sv s")
    case True
    then have "taskEXIT_CRITICAL s = taskEXIT_CRITICAL (portYIELD s)" by (simp add: taskEXIT_CRITICAL_def portYIELD_def)
    then show ?thesis using exit_yield [OF r(2,1,3)] kernel_settled [OF assms(1)] by auto
  next
    case False
    then show ?thesis using assms settled_upd(3) [OF r(2)] by (simp add: taskEXIT_CRITICAL_def)
  qed
qed

section \<open>Adding a task to the ready tasks\<close>

lemma kernel_other [simp]:
  "kernel_ok (s\<lparr>pxCurrentTCB := c, uxCurrentNumberOfTasks := n\<rparr>) = kernel_ok s" "kernel_ok (s\<lparr>uxCurrentNumberOfTasks := n\<rparr>) = kernel_ok s"
  "kernel_ok (portYIELD s) = kernel_ok s"
  by (auto elim: kernel_cong simp: portYIELD_def)

lemma highest_after_add:
  assumes "kernel_ok s" and "state_in (tcbs s t) = None"
    and "\<And>u p. state_in (tcbs s u) = Some (Ready p) \<Longrightarrow> p \<le> uxPriority (tcbs s c)" and "uxPriority (tcbs s t) \<le> uxPriority (tcbs s c)"
    and "c = t \<or> state_in (tcbs s c) = Some (Ready (uxPriority (tcbs s c)))"
  shows "runs_highest ((prvAddTaskToReadyList t s)\<lparr>pxCurrentTCB := c\<rparr>)"
  using assms by (auto simp: runs_highest_def)

lemma yield_if_higher:
  assumes "kernel_ok s" and "runs_highest s \<or> uxPriority (tcbs s (pxCurrentTCB s)) < uxPriority (tcbs s t)"
  shows "\<exists>s'. taskEXIT_CRITICAL (taskYIELD_ANY_CORE_IF_USING_PREEMPTION t s) = Some s' \<and> tcbs s' = tcbs s \<and> kernel_ok s' \<and> runs_highest s'
     \<and> uxCurrentNumberOfTasks s' = uxCurrentNumberOfTasks s \<and> sched.more s' = sched.more s"
proof -
  let ?y = "taskYIELD_ANY_CORE_IF_USING_PREEMPTION t s"
  have y: "kernel_ok ?y" "runs_highest ?y \<or> pend_sv ?y" "tcbs ?y = tcbs s" "uxCurrentNumberOfTasks ?y = uxCurrentNumberOfTasks s" "sched.more ?y = sched.more s"
    using assms by (auto simp: taskYIELD_ANY_CORE_IF_USING_PREEMPTION_def portYIELD_def runs_highest_def elim: kernel_cong)
  obtain s' where "taskEXIT_CRITICAL ?y = Some s'" "settled ?y s'" "runs_highest s'" "kernel_ok s'" using exit_runs [OF y(1,2)] by blast
  then show ?thesis using exit_frame [of ?y s'] y(3-5) by (auto simp: settled_def)
qed

lemma add_new_task:
  assumes k: "kernel_ok (kern b)" "runs_highest (kern b)" "pxCurrentTCB (kern b) \<noteq> 0" and t: "state_in (tcbs (kern b) t) = None" "event_in (tcbs (kern b) t) = None"
  shows "\<exists>k. prvAddNewTaskToReadyList t b = Some (b\<lparr>kern := k, uxTaskNumber := uxTaskNumber b + 1\<rparr>) \<and> kernel_ok k \<and> runs_highest k
     \<and> tcbs k = (tcbs (kern b))(t := (tcbs (kern b) t)\<lparr>state_in := Some (Ready (uxPriority (tcbs (kern b) t)))\<rparr>)
     \<and> uxCurrentNumberOfTasks k = uxCurrentNumberOfTasks (kern b) + 1 \<and> sched.more k = sched.more (kern b)"
proof -
  define s where "s = (kern b)\<lparr>uxCurrentNumberOfTasks := uxCurrentNumberOfTasks (kern b) + 1\<rparr>"
  define c where "c = (if \<not> xSchedulerRunning b \<and> uxPriority (tcbs s (pxCurrentTCB s)) \<le> uxPriority (tcbs s t) then t else pxCurrentTCB s)"
  define s2 where "s2 = (prvAddTaskToReadyList t s)\<lparr>pxCurrentTCB := c\<rparr>"
  have s: "kernel_ok s" "runs_highest s" "pxCurrentTCB s \<noteq> 0" "tcbs s = tcbs (kern b)" using k by (simp_all add: s_def runs_highest_def)
  have m: "prvAddTaskToReadyList t (make_current (xSchedulerRunning b) t s) = s2"
    using s(3) unfolding make_current_def s2_def c_def by (simp add: prvAddTaskToReadyList_def state_insert_end_def put_list_def upd_tcb_def Let_def)
  have k2: "kernel_ok s2" using add_kernel [OF s(1), of t] t s(4) unfolding s2_def by (auto elim: kernel_cong)
  have hi: "runs_highest s2 \<or> (xSchedulerRunning b \<and> uxPriority (tcbs s2 (pxCurrentTCB s2)) < uxPriority (tcbs s2 t))"
  proof (cases "uxPriority (tcbs s t) \<le> uxPriority (tcbs s c)")
    case True
    have "uxPriority (tcbs s (pxCurrentTCB s)) \<le> uxPriority (tcbs s c)" "c = t \<or> c = pxCurrentTCB s" by (auto simp: c_def)
    then have "runs_highest s2" unfolding s2_def using s(2) t s(4) True by (intro highest_after_add [OF s(1)]) (auto simp: runs_highest_def intro: order_trans)
    then show ?thesis ..
  next
    case False
    then have "xSchedulerRunning b" "c = pxCurrentTCB s" by (auto simp: c_def split: if_splits)
    moreover have "pxCurrentTCB s \<noteq> t" using s(2) t s(4) by (auto simp: runs_highest_def)
    ultimately show ?thesis using False by (simp add: s2_def)
  qed
  have f: "tcbs s2 = (tcbs (kern b))(t := (tcbs (kern b) t)\<lparr>state_in := Some (Ready (uxPriority (tcbs (kern b) t)))\<rparr>)"
    "uxCurrentNumberOfTasks s2 = uxCurrentNumberOfTasks (kern b) + 1" "sched.more s2 = sched.more (kern b)"
    by (simp_all add: s2_def s_def prvAddTaskToReadyList_def state_insert_end_def put_list_def upd_tcb_def Let_def)
  have "\<exists>k3. taskEXIT_CRITICAL s2 = Some k3 \<and> kernel_ok k3 \<and> tcbs k3 = tcbs s2 \<and> uxCurrentNumberOfTasks k3 = uxCurrentNumberOfTasks s2 \<and> sched.more k3 = sched.more s2
     \<and> (runs_highest k3 \<or> (xSchedulerRunning b \<and> uxPriority (tcbs k3 (pxCurrentTCB k3)) < uxPriority (tcbs k3 t)))"
  proof (cases "runs_highest s2 \<or> pend_sv s2")
    case True
    then obtain s' where "taskEXIT_CRITICAL s2 = Some s'" "settled s2 s'" "runs_highest s'" "kernel_ok s'" using exit_runs [OF k2] by blast
    then show ?thesis using exit_frame [of s2 s'] by (auto simp: settled_def)
  next
    case False
    then show ?thesis using hi k2 by (simp add: taskEXIT_CRITICAL_def)
  qed
  then obtain k3 where k3: "taskEXIT_CRITICAL s2 = Some k3" "kernel_ok k3" "tcbs k3 = tcbs s2" "uxCurrentNumberOfTasks k3 = uxCurrentNumberOfTasks s2" "sched.more k3 = sched.more s2"
    "runs_highest k3 \<or> (xSchedulerRunning b \<and> uxPriority (tcbs k3 (pxCurrentTCB k3)) < uxPriority (tcbs k3 t))" by blast
  have "\<exists>k4. (if xSchedulerRunning b then taskEXIT_CRITICAL (taskYIELD_ANY_CORE_IF_USING_PREEMPTION t k3) else Some k3) = Some k4 \<and> kernel_ok k4 \<and> runs_highest k4
     \<and> tcbs k4 = tcbs k3 \<and> uxCurrentNumberOfTasks k4 = uxCurrentNumberOfTasks k3 \<and> sched.more k4 = sched.more k3"
    using yield_if_higher [OF k3(2), of t] k3(2,6) by (cases "xSchedulerRunning b") auto
  then obtain k4 where k4: "(if xSchedulerRunning b then taskEXIT_CRITICAL (taskYIELD_ANY_CORE_IF_USING_PREEMPTION t k3) else Some k3) = Some k4"
    "kernel_ok k4" "runs_highest k4" "tcbs k4 = tcbs k3" "uxCurrentNumberOfTasks k4 = uxCurrentNumberOfTasks k3" "sched.more k4 = sched.more k3" by blast
  have "prvAddNewTaskToReadyList t b = Some (b\<lparr>kern := k4, uxTaskNumber := uxTaskNumber b + 1\<rparr>)"
    unfolding prvAddNewTaskToReadyList_def Let_def s_def [symmetric] m k3(1) by (simp add: k4(1))
  then show ?thesis using k4 k3(3-5) f by metis
qed

section \<open>Stack and control block\<close>

text \<open>
  What the first context switch finds: the stack pointer is inside the stack with room for the
  sixteen registers above it; the frame returns to the task's function with its parameter and in
  Thumb state, and a function that returns ends in \<open>prvTaskExitError\<close>.
\<close>

definition starts_at :: "boot_env \<Rightarrow> u32 \<Rightarrow> u32 \<Rightarrow> u32 \<Rightarrow> nat \<Rightarrow> 'a boot_scheme \<Rightarrow> bool" where
  "starts_at e code depth param t b \<longleftrightarrow>
     (let sp = pxTopOfStack b t in
      pxStack b t \<le> sp \<and> sp + 64 \<le> pxStack b t + 4 * unat depth \<and> sp mod 8 = 0
      \<and> stack_ram b (sp + 32) = param \<and> stack_ram b (sp + 52) = e_prvTaskExitError e
      \<and> stack_ram b (sp + 56) = code AND portSTART_ADDRESS_MASK \<and> stack_ram b (sp + 60) = portINITIAL_XPSR)"

definition fresh_tcb :: "nat \<Rightarrow> tcb" where
  "fresh_tcb prio = \<lparr>uxPriority = prio, uxBasePriority = prio, uxMutexesHeld = 0, state_value = 0,
     event_value = of_nat configMAX_PRIORITIES - of_nat prio, state_in = None, event_in = None\<rparr>"

lemma initialise_stack:
  assumes "64 \<le> p"
  shows "\<exists>m'. pxPortInitialiseStack ret p code param m = (p - 64, m') \<and> m' (p - 64 + 32) = param \<and> m' (p - 64 + 52) = ret
     \<and> m' (p - 64 + 56) = code AND portSTART_ADDRESS_MASK \<and> m' (p - 64 + 60) = portINITIAL_XPSR
     \<and> (\<forall>a. a < p - 64 \<or> p \<le> a \<longrightarrow> m' a = m a)"
proof -
  obtain q where q: "p = q + 64" using assms by (metis le_add_diff_inverse2)
  have "q + 64 - 4 = q + 60" "q + 60 - 4 = q + 56" "q + 56 - 4 = q + 52" "q + 52 - 5 * 4 = q + 32" "q + 32 - 8 * 4 = q" by simp_all
  then show ?thesis unfolding q pxPortInitialiseStack_def Let_def by simp
qed

lemma stack_top:
  assumes "(17 :: nat) \<le> d" and "q = (p + 4 * (d - 1)) div 8 * 8" and "8 dvd p"
  shows "64 \<le> q" "p \<le> q - 64" "q \<le> p + 4 * d" "q mod 8 = 0" "(q - 64) mod 8 = 0"
proof -
  obtain i where i: "p = 8 * i" using assms(3) by (auto simp: dvd_def)
  obtain j where j: "d = 17 + j" using assms(1) le_Suc_ex by blast
  have "p + 4 * (d - 1) = 4 * j + (i + 8) * 8" by (simp add: i j)
  then have "(p + 4 * (d - 1)) div 8 = i + 8 + 4 * j div 8" by simp
  also have "4 * j div 8 = j div 2" using div_mult_mult1 [of 4 j 2] by simp
  finally have q: "q = 8 * (i + 8 + j div 2)" using assms(2) by simp
  have "q - 64 = 8 * (i + j div 2)" unfolding q by simp
  then show "(q - 64) mod 8 = 0" by (simp only: mod_mult_self1_is_0)
  show "64 \<le> q" "p \<le> q - 64" "q mod 8 = 0" unfolding q i by simp_all
  have "8 * (j div 2) \<le> 4 * j" by linarith
  then show "q \<le> p + 4 * d" unfolding q i j by simp
qed

lemma initialise_task:
  assumes "prio < configMAX_PRIORITIES" and "17 \<le> unat depth" and "unat depth < 1073741824" and "8 dvd pxStack b t" and "tcbs (kern b) t = zero_tcb"
  shows "\<exists>b'. prvInitialiseNewTask e code nm depth param prio t b = Some b' \<and> kern b' = upd_tcb t (\<lambda>_. fresh_tcb prio) (kern b)
     \<and> starts_at e code depth param t b' \<and> xSchedulerRunning b' = xSchedulerRunning b \<and> uxTaskNumber b' = uxTaskNumber b \<and> pxStack b' = pxStack b
     \<and> (\<forall>u. u \<noteq> t \<longrightarrow> pxTopOfStack b' u = pxTopOfStack b u) \<and> xTimerQueue b' = xTimerQueue b
     \<and> (\<forall>a. a < pxStack b t \<or> pxStack b t + 4 * unat depth \<le> a \<longrightarrow> stack_ram b' a = stack_ram b a) \<and> (\<forall>n. nm = Some n \<longrightarrow> pcTaskName b' t = copy_name n)"
proof -
  define q where "q = (pxStack b t + 4 * unat (depth - 1)) div 8 * 8"
  have d: "unat (depth - 1) = unat depth - 1" using assms(2) by (subst unat_sub) (simp_all add: word_le_nat_alt)
  have n: "unat (depth * 4) = 4 * unat depth" using assms(3) by (simp add: unat_word_ariths(2))
  note q = stack_top [OF assms(2) q_def [unfolded d] assms(4)]
  obtain m' where m: "pxPortInitialiseStack (e_prvTaskExitError e) q code param (fill_stack (pxStack b t) (unat (depth * 4)) (stack_ram b)) = (q - 64, m')"
    "m' (q - 64 + 32) = param" "m' (q - 64 + 52) = e_prvTaskExitError e" "m' (q - 64 + 56) = code AND portSTART_ADDRESS_MASK" "m' (q - 64 + 60) = portINITIAL_XPSR"
    "\<forall>a. a < q - 64 \<or> q \<le> a \<longrightarrow> m' a = fill_stack (pxStack b t) (unat (depth * 4)) (stack_ram b) a"
    using initialise_stack [OF q(1)] by blast
  define b' where "b' = b\<lparr>kern := upd_tcb t (\<lambda>_. fresh_tcb prio) (kern b), pxTopOfStack := (pxTopOfStack b)(t := q - 64),
     pcTaskName := (case nm of None \<Rightarrow> pcTaskName b | Some n \<Rightarrow> (pcTaskName b)(t := copy_name n)), stack_ram := m'\<rparr>"
  have "upd_tcb t (\<lambda>c. c\<lparr>uxPriority := prio, uxBasePriority := prio, state_in := None, event_in := None,
       event_value := of_nat configMAX_PRIORITIES - of_nat prio\<rparr>) (kern b) = upd_tcb t (\<lambda>_. fresh_tcb prio) (kern b)"
    by (simp add: upd_tcb_def assms(5) zero_tcb_def fresh_tcb_def)
  moreover have "(q - (q - 64)) div 4 < unat depth" using q(1) assms(2) by simp
  ultimately have "prvInitialiseNewTask e code nm depth param prio t b = Some b'"
    using q(4) assms(1) m(1) unfolding prvInitialiseNewTask_def Let_def q_def [symmetric] by (simp add: b'_def)
  moreover have "starts_at e code depth param t b'" using q m(2-5) by (simp add: starts_at_def b'_def)
  moreover have "stack_ram b' a = stack_ram b a" if "a < pxStack b t \<or> pxStack b t + 4 * unat depth \<le> a" for a
  proof -
    have "a < q - 64 \<or> q \<le> a" using that q(2,3) by linarith
    then show ?thesis using that m(6) n by (auto simp: b'_def fill_stack_def)
  qed
  ultimately show ?thesis by (intro exI [of _ b']) (simp add: b'_def)
qed

section \<open>Allocation of a task\<close>

lemma malloc_live:
  assumes "heap_inv H h" and "apart (heap_live h)"
  shows "\<exists>p h'. pvPortMalloc H x h = Some (p, h') \<and> heap_inv H h' \<and> apart (heap_live h')
     \<and> (p = 0 \<and> heap_live h' = heap_live h \<or> p \<noteq> 0 \<and> 8 dvd p \<and> heap_live h p = None \<and> (\<exists>n\<ge>unat x. heap_live h' = (heap_live h)(p := Some n)))"
proof -
  obtain p h' where r: "pvPortMalloc H x h = Some (p, h')" "heap_inv H h'"
    "p = 0 \<and> heap_live h' = heap_live h \<or> p \<noteq> 0 \<and> heap_live h p = None \<and> (\<exists>n\<ge>unat x. heap_live h' = (heap_live h)(p := Some n))"
    using h4.malloc_returns [OF assms(1), of x] by blast
  have "p = 0 \<or> 8 dvd p" using malloc_spec [OF assms(1), of x] r(1) by auto
  moreover have "apart (heap_live h')" using h4.run_safe [OF _ assms] r(1) by (blast intro: alloc_run.intros)
  ultimately show ?thesis using r by blast
qed

lemma free_live:
  assumes "heap_inv H h" and "apart (heap_live h)" and "heap_live h p = Some n"
  shows "\<exists>h'. vPortFree H p h = Some h' \<and> heap_inv H h' \<and> apart (heap_live h') \<and> heap_live h' = (heap_live h)(p := None)"
proof -
  obtain h' where r: "vPortFree H p h = Some h'" "heap_inv H h'" "heap_live h' = (heap_live h)(p := None)" using h4.free_returns [OF assms(1,3)] by blast
  moreover have "apart (heap_live h')" using h4.run_safe [OF _ assms(1,2)] r(1) assms(3) by (blast intro: alloc_run.intros)
  ultimately show ?thesis by blast
qed

text \<open>The other tasks keep their stack pointers, and memory changes inside the new stack only.\<close>

definition stacks_kept :: "nat \<Rightarrow> u32 \<Rightarrow> 'a boot_scheme \<Rightarrow> 'b boot_scheme \<Rightarrow> bool" where
  "stacks_kept t depth b b' \<longleftrightarrow> (\<forall>u. u \<noteq> t \<longrightarrow> pxTopOfStack b' u = pxTopOfStack b u \<and> pxStack b' u = pxStack b u)
     \<and> (\<forall>a. a < pxStack b' t \<or> pxStack b' t + 4 * unat depth \<le> a \<longrightarrow> stack_ram b' a = stack_ram b a) \<and> xTimerQueue b' = xTimerQueue b"

text \<open>The tasks are in allocated memory, so a new control block is not one of a task.\<close>

definition memory_ok :: "boot_env \<Rightarrow> ksys \<Rightarrow> bool" where
  "memory_ok e k \<longleftrightarrow> heap_inv (e_ucHeap e) (heap k) \<and> apart (heap_live (heap k))
     \<and> (\<forall>t. state_in (tcbs k t) \<noteq> None \<or> event_in (tcbs k t) \<noteq> None \<longrightarrow> heap_live (heap k) t \<noteq> None)"

lemma create_task:
  assumes "memory_ok e (kern b)" and "prio < configMAX_PRIORITIES" and "17 \<le> unat depth" and "unat depth < 1073741824"
  obtains (fail) b1 where "prvCreateTask e code nm depth param prio b = Some (0, b1)" "kern b1 = (kern b)\<lparr>heap := heap (kern b1)\<rparr>"
       "heap_live (heap (kern b1)) = heap_live (heap (kern b))" "memory_ok e (kern b1)"
     | (made) t b1 n m where "prvCreateTask e code nm depth param prio b = Some (t, b1)" "t \<noteq> 0" "heap_live (heap (kern b)) t = None"
       "kern b1 = upd_tcb t (\<lambda>_. fresh_tcb prio) ((kern b)\<lparr>heap := heap (kern b1)\<rparr>)" "starts_at e code depth param t b1"
       "heap_live (heap (kern b)) (pxStack b1 t) = None" "pxStack b1 t \<noteq> t" "unat sizeof_TCB_t \<le> n" "4 * unat depth \<le> m"
       "heap_live (heap (kern b1)) = (heap_live (heap (kern b)))(pxStack b1 t := Some m, t := Some n)" "memory_ok e (kern b1)"
       "xSchedulerRunning b1 = xSchedulerRunning b" "uxTaskNumber b1 = uxTaskNumber b" "\<forall>s. nm = Some s \<longrightarrow> pcTaskName b1 t = copy_name s"
       "stacks_kept t depth b b1"
proof -
  let ?H = "e_ucHeap e" and ?h = "heap (kern b)"
  have w: "unat (depth * 4) = 4 * unat depth" using assms(4) by (simp add: unat_word_ariths(2))
  have i: "heap_inv ?H ?h" "apart (heap_live ?h)" and l: "\<And>t. state_in (tcbs (kern b) t) \<noteq> None \<or> event_in (tcbs (kern b) t) \<noteq> None \<Longrightarrow> heap_live ?h t \<noteq> None"
    using assms(1) by (auto simp: memory_ok_def)
  obtain stk h1 where m1: "pvPortMalloc ?H (depth * 4) ?h = Some (stk, h1)" "heap_inv ?H h1" "apart (heap_live h1)"
    "stk = 0 \<and> heap_live h1 = heap_live ?h \<or> stk \<noteq> 0 \<and> 8 dvd stk \<and> heap_live ?h stk = None \<and> (\<exists>n\<ge>unat (depth * 4). heap_live h1 = (heap_live ?h)(stk := Some n))"
    using malloc_live [OF i, of "depth * 4"] by blast
  show thesis
  proof (cases "stk = 0")
    case True
    then show ?thesis using m1 l by (intro fail [of "upd_kern (\<lambda>k. k\<lparr>heap := h1\<rparr>) b"]) (simp_all add: prvCreateTask_def upd_kern_def memory_ok_def)
  next
    case False
    then obtain m where m: "m \<ge> unat (depth * 4)" "heap_live h1 = (heap_live ?h)(stk := Some m)" "8 dvd stk" "heap_live ?h stk = None" using m1(4) by blast
    obtain t h2 where m2: "pvPortMalloc ?H sizeof_TCB_t h1 = Some (t, h2)" "heap_inv ?H h2" "apart (heap_live h2)"
      "t = 0 \<and> heap_live h2 = heap_live h1 \<or> t \<noteq> 0 \<and> 8 dvd t \<and> heap_live h1 t = None \<and> (\<exists>n\<ge>unat sizeof_TCB_t. heap_live h2 = (heap_live h1)(t := Some n))"
      using malloc_live [OF m1(2,3), of sizeof_TCB_t] by blast
    show ?thesis
    proof (cases "t = 0")
      case True
      then have "heap_live h2 stk = Some m" using m2(4) m(2) by simp
      then obtain h3 where h3: "vPortFree ?H stk h2 = Some h3" "heap_inv ?H h3" "apart (heap_live h3)" "heap_live h3 = (heap_live h2)(stk := None)"
        using free_live [OF m2(2,3)] by blast
      have "heap_live h3 = heap_live ?h" using h3(4) m2(4) True m(2,4) by (simp add: fun_upd_idem)
      then show ?thesis using True False m1(1) m2(1) h3 l
        by (intro fail [of "upd_kern (\<lambda>k. k\<lparr>heap := h3\<rparr>) b"]) (simp_all add: prvCreateTask_def upd_kern_def memory_ok_def)
    next
      case nz: False
      then obtain n where n: "n \<ge> unat sizeof_TCB_t" "heap_live h2 = (heap_live h1)(t := Some n)" "heap_live h1 t = None" using m2(4) by blast
      have ts: "t \<noteq> stk" "heap_live ?h t = None" using n(3) m(2) by (auto split: if_splits)
      let ?b2 = "(upd_kern (\<lambda>k. upd_tcb t (\<lambda>c. zero_tcb) (k\<lparr>heap := h2\<rparr>)) b)\<lparr>pxStack := (pxStack b)(t := stk), pcTaskName := (pcTaskName b)(t := replicate 16 (CHR 0x00))\<rparr>"
      have z: "tcbs (kern ?b2) t = zero_tcb" "pxStack ?b2 t = stk" "heap (kern ?b2) = h2" by (simp_all add: upd_kern_def upd_tcb_def)
      obtain b3 where b3: "prvInitialiseNewTask e code nm depth param prio t ?b2 = Some b3" "kern b3 = upd_tcb t (\<lambda>_. fresh_tcb prio) (kern ?b2)"
        "starts_at e code depth param t b3" "xSchedulerRunning b3 = xSchedulerRunning ?b2" "uxTaskNumber b3 = uxTaskNumber ?b2" "pxStack b3 = pxStack ?b2"
        "\<forall>s. nm = Some s \<longrightarrow> pcTaskName b3 t = copy_name s" "\<forall>u. u \<noteq> t \<longrightarrow> pxTopOfStack b3 u = pxTopOfStack ?b2 u" "xTimerQueue b3 = xTimerQueue ?b2"
        "\<forall>a. a < pxStack ?b2 t \<or> pxStack ?b2 t + 4 * unat depth \<le> a \<longrightarrow> stack_ram b3 a = stack_ram ?b2 a"
        using initialise_task [OF assms(2-4), of ?b2 t e code nm param] z m(3) by auto
      have k3: "kern b3 = upd_tcb t (\<lambda>_. fresh_tcb prio) ((kern b)\<lparr>heap := h2\<rparr>)" "heap (kern b3) = h2"
        unfolding b3(2) by (simp_all add: upd_kern_def upd_tcb_def)
      have "memory_ok e (kern b3)"
        using m2(2,3) l n(2) m(2) unfolding memory_ok_def k3(2) unfolding k3(1) by (auto simp: fresh_tcb_def)
      moreover have "prvCreateTask e code nm depth param prio b = Some (t, b3)"
        using False nz m1(1) m2(1) b3(1) by (simp add: prvCreateTask_def upd_kern_def)
      moreover have "kern b3 = upd_tcb t (\<lambda>_. fresh_tcb prio) ((kern b)\<lparr>heap := heap (kern b3)\<rparr>)" unfolding k3(2) by (rule k3(1))
      moreover have "pxStack b3 t = stk" "xSchedulerRunning b3 = xSchedulerRunning b" "uxTaskNumber b3 = uxTaskNumber b"
        using b3(4-6) by (simp_all add: upd_kern_def)
      moreover have "stacks_kept t depth b b3" using b3(6,8-10) by (simp add: stacks_kept_def upd_kern_def)
      ultimately show ?thesis using nz ts b3(3,7) n(1,2) m(1,2,4) w k3(2) by (intro made [of t b3 n m]) simp_all
    qed
  qed
qed

section \<open>The invariant\<close>

definition boot_ok :: "boot_env \<Rightarrow> 'a boot_scheme \<Rightarrow> bool" where
  "boot_ok e b \<longleftrightarrow> memory_ok e (kern b) \<and> kernel_ok (kern b) \<and> runs_highest (kern b)"

definition ready_tcb :: "nat \<Rightarrow> tcb" where
  "ready_tcb prio = (fresh_tcb prio)\<lparr>state_in := Some (Ready prio)\<rparr>"

lemma fresh_tcb_sel [simp]:
  "uxPriority (fresh_tcb p) = p" "state_in (fresh_tcb p) = None" "event_in (fresh_tcb p) = None"
  by (simp_all add: fresh_tcb_def)

lemma ready_tcb_sel [simp]: "uxPriority (ready_tcb p) = p" "state_in (ready_tcb p) = Some (Ready p)" "event_in (ready_tcb p) = None"
  by (simp_all add: ready_tcb_def)

lemma heap_live_null [simp]: "heap_live h 0 = None"
  by (simp add: heap_live_def)

lemma current_not_null: "boot_ok e b \<Longrightarrow> pxCurrentTCB (kern b) \<noteq> 0"
proof
  assume "boot_ok e b" "pxCurrentTCB (kern b) = 0"
  then show False unfolding boot_ok_def memory_ok_def runs_highest_def by (metis heap_live_null option.distinct(1))
qed

text \<open>What a successful creation makes of the state.\<close>

definition task_added :: "boot_env \<Rightarrow> u32 \<Rightarrow> string option \<Rightarrow> u32 \<Rightarrow> u32 \<Rightarrow> nat \<Rightarrow> nat \<Rightarrow> 'a boot_scheme \<Rightarrow> 'b boot_scheme \<Rightarrow> bool" where
  "task_added e code nm depth param prio t b b' \<longleftrightarrow>
     tcbs (kern b') = (tcbs (kern b))(t := ready_tcb prio)
     \<and> uxCurrentNumberOfTasks (kern b') = uxCurrentNumberOfTasks (kern b) + 1 \<and> queues (kern b') = queues (kern b)
     \<and> heap_live (heap (kern b)) t = None \<and> heap_live (heap (kern b)) (pxStack b' t) = None \<and> pxStack b' t \<noteq> t
     \<and> (\<exists>n m. unat sizeof_TCB_t \<le> n \<and> 4 * unat depth \<le> m \<and> heap_live (heap (kern b')) = (heap_live (heap (kern b)))(pxStack b' t := Some m, t := Some n))
     \<and> starts_at e code depth param t b' \<and> stacks_kept t depth b b' \<and> (\<forall>s. nm = Some s \<longrightarrow> pcTaskName b' t = copy_name s)"

lemma starts_at_cong:
  "pxTopOfStack b' = pxTopOfStack b \<Longrightarrow> pxStack b' = pxStack b \<Longrightarrow> stack_ram b' = stack_ram b \<Longrightarrow> starts_at e code depth param t b' = starts_at e code depth param t b"
  by (simp add: starts_at_def)

lemma memory_frame:
  assumes "memory_ok e k" and "sched.more k' = sched.more k" and "heap_live (heap k) t \<noteq> None"
    and "\<And>u. u \<noteq> t \<Longrightarrow> tcbs k' u = tcbs k u"
  shows "memory_ok e k'"
proof -
  have h: "heap k' = heap k" using assms(2) by (cases k; cases k') simp
  show ?thesis unfolding memory_ok_def h using assms(1,3,4) unfolding memory_ok_def by metis
qed

lemma queues_more: "sched.more k' = sched.more k \<Longrightarrow> queues k' = queues k \<and> heap k' = heap k \<and> xQueueRegistry k' = xQueueRegistry k" for k :: ksys
  by (cases k; cases k') simp

section \<open>The first task\<close>

text \<open>The kernel before the first task: all of its variables are zero and no list has an item.\<close>

definition kernel_reset :: "'a sched_scheme \<Rightarrow> bool" where
  "kernel_reset k \<longleftrightarrow> tcbs k = (\<lambda>_. zero_tcb) \<and> klists k = (\<lambda>_. ([], None)) \<and> pxCurrentTCB k = 0 \<and> uxCurrentNumberOfTasks k = 0
     \<and> uxTopReadyPriority k = 0 \<and> uxSchedulerSuspended k = 0 \<and> xPendedTicks k = 0 \<and> \<not> pend_sv k"

lemma zero_tcb_sel [simp]: "uxPriority zero_tcb = 0" "state_in zero_tcb = None" "event_in zero_tcb = None"
  by (simp_all add: zero_tcb_def)

lemma empty_kernel_core:
  assumes "tcbs s = (\<lambda>_. zero_tcb)(t := fresh_tcb p)" and "klists s = (\<lambda>_. ([], None))" and "uxTopReadyPriority s = 0" and "p < configMAX_PRIORITIES"
    and "pxDelayedTaskList s = Delayed 1" and "pxOverflowDelayedTaskList s = Delayed 2"
  shows "core_ok s"
proof -
  have "links_ok s" by (simp add: links_ok_def assms(1,2))
  moreover have "ready_ok s" using assms(4) by (simp add: ready_ok_def assms(1-3) configMAX_PRIORITIES_def)
  moreover have "delays_ok s" unfolding delays_ok_def assms(1,2,5,6) by auto
  moreover have "times_ok s" by (simp add: times_ok_def assms(1,5))
  ultimately show ?thesis by (simp add: core_ok_def tick_inv_def)
qed

lemma first_new_task:
  assumes "kernel_reset k0" and "kern b = upd_tcb t (\<lambda>_. fresh_tcb p) k0" and "\<not> xSchedulerRunning b" and "p < configMAX_PRIORITIES"
  shows "\<exists>k. prvAddNewTaskToReadyList t b = Some (b\<lparr>kern := k, uxTaskNumber := uxTaskNumber b + 1\<rparr>) \<and> kernel_ok k \<and> runs_highest k
     \<and> tcbs k = (tcbs (kern b))(t := ready_tcb p) \<and> uxCurrentNumberOfTasks k = uxCurrentNumberOfTasks (kern b) + 1 \<and> sched.more k = sched.more (kern b)"
proof -
  have r: "tcbs k0 = (\<lambda>_. zero_tcb)" "klists k0 = (\<lambda>_. ([], None))" "pxCurrentTCB k0 = 0" "uxCurrentNumberOfTasks k0 = 0" "uxTopReadyPriority k0 = 0"
    "uxSchedulerSuspended k0 = 0" "xPendedTicks k0 = 0" "\<not> pend_sv k0" using assms(1) by (simp_all add: kernel_reset_def)
  define s where "s = prvInitialiseTaskLists ((kern b)\<lparr>uxCurrentNumberOfTasks := 1, pxCurrentTCB := t\<rparr>)"
  have f: "tcbs s = (\<lambda>_. zero_tcb)(t := fresh_tcb p)" "klists s = (\<lambda>_. ([], None))" "uxTopReadyPriority s = 0" "pxDelayedTaskList s = Delayed 1"
    "pxOverflowDelayedTaskList s = Delayed 2" "pxCurrentTCB s = t" "uxCurrentNumberOfTasks s = 1" "uxSchedulerSuspended s = 0" "xPendedTicks s = 0" "\<not> pend_sv s"
    "sched.more s = sched.more (kern b)"
    using r by (auto simp: s_def prvInitialiseTaskLists_def assms(2) fun_eq_iff upd_tcb_def)
  have m: "make_current (xSchedulerRunning b) t ((kern b)\<lparr>uxCurrentNumberOfTasks := uxCurrentNumberOfTasks (kern b) + 1\<rparr>) = s"
    using r by (simp add: make_current_def s_def assms(2))
  let ?k = "prvAddTaskToReadyList t s"
  have tc: "tcbs ?k = (\<lambda>_. zero_tcb)(t := ready_tcb p)" by (simp add: f(1) ready_tcb_def)
  have core: "core_ok ?k" using add_core [OF empty_kernel_core [OF f(1-3) assms(4) f(4,5)], of t] by (simp add: f(1))
  have "kernel_ok ?k" using core f unfolding kernel_ok_def sched_ok_def waiters_ok_def some_ready_def tc by auto
  moreover have "runs_highest ?k" unfolding runs_highest_def tc by (simp add: f(6))
  moreover have "taskEXIT_CRITICAL ?k = Some ?k" using f(10) by (simp add: taskEXIT_CRITICAL_def)
  then have "prvAddNewTaskToReadyList t b = Some (b\<lparr>kern := ?k, uxTaskNumber := uxTaskNumber b + 1\<rparr>)"
    unfolding prvAddNewTaskToReadyList_def Let_def m using assms(3) by simp
  moreover have "tcbs ?k = (tcbs (kern b))(t := ready_tcb p)" using r(1) unfolding tc assms(2) by auto
  moreover have "sched.more ?k = sched.more (kern b)" using f(11) by (simp add: prvAddTaskToReadyList_def state_insert_end_def put_list_def upd_tcb_def Let_def)
  ultimately show ?thesis using f(7) r(4) by (intro exI [of _ ?k]) (simp add: assms(2))
qed

section \<open>Creating a task\<close>

lemma create_adds:
  assumes ok: "memory_ok e (kern b)" "boot_ok e b \<or> kernel_reset (kern b) \<and> \<not> xSchedulerRunning b"
    and p: "prio < configMAX_PRIORITIES" and d: "17 \<le> unat depth" "unat depth < 1073741824"
  shows "\<exists>r hdl b'. xTaskCreate e code nm depth param prio b = Some (r, hdl, b')
     \<and> (case hdl of None \<Rightarrow> r = errCOULD_NOT_ALLOCATE_REQUIRED_MEMORY \<and> kern b' = (kern b)\<lparr>heap := heap (kern b')\<rparr> \<and> heap_live (heap (kern b')) = heap_live (heap (kern b))
          \<and> memory_ok e (kern b') \<and> fst (the (prvCreateTask e code nm depth param prio b)) = 0
        | Some t \<Rightarrow> r = pdPASS \<and> boot_ok e b' \<and> task_added e code nm depth param prio t b b'
            \<and> xSchedulerRunning b' = xSchedulerRunning b
            \<and> heap (kern b') = heap (kern (snd (the (prvCreateTask e code nm depth param prio b)))))"
proof (cases rule: create_task [OF ok(1) p d, of code nm param])
  case fail: (1 b1)
  then show ?thesis
    by (intro exI [of _ errCOULD_NOT_ALLOCATE_REQUIRED_MEMORY] exI [of _ None] exI [of _ b1]) (simp only: xTaskCreate_def bind.simps split if_False refl simp_thms option.case option.sel fst_conv)
next
  case made: (2 t b1 n m)
  let ?k = "(kern b)\<lparr>heap := heap (kern b1)\<rparr>"
  have un: "state_in (tcbs (kern b) t) = None" "event_in (tcbs (kern b) t) = None" using ok(1) made(3) unfolding memory_ok_def by blast+
  have t1: "tcbs (kern b1) = (tcbs (kern b))(t := fresh_tcb prio)" "uxCurrentNumberOfTasks (kern b1) = uxCurrentNumberOfTasks (kern b)" "queues (kern b1) = queues (kern b)"
    "pxCurrentTCB (kern b1) = pxCurrentTCB (kern b)"
    by (subst made(4), simp add: upd_tcb_def)+
  have "\<exists>k. prvAddNewTaskToReadyList t b1 = Some (b1\<lparr>kern := k, uxTaskNumber := uxTaskNumber b1 + 1\<rparr>) \<and> kernel_ok k \<and> runs_highest k
     \<and> tcbs k = (tcbs (kern b1))(t := ready_tcb prio) \<and> uxCurrentNumberOfTasks k = uxCurrentNumberOfTasks (kern b1) + 1 \<and> sched.more k = sched.more (kern b1)"
    using ok(2)
  proof
    assume b: "boot_ok e b"
    then have "kernel_ok ?k" by (auto simp: boot_ok_def elim: kernel_cong)
    then have "kernel_ok (kern b1)" using replace_kernel [of ?k t "fresh_tcb prio"] un p made(4) by simp
    moreover have "runs_highest (kern b1)" using b un unfolding boot_ok_def runs_highest_def t1(1,4) by auto
    moreover have "pxCurrentTCB (kern b1) \<noteq> 0" using current_not_null [OF b] by (simp only: t1(4) not_False_eq_True)
    ultimately show ?thesis using add_new_task [of b1 t] by (simp add: t1(1) ready_tcb_def)
  next
    assume "kernel_reset (kern b) \<and> \<not> xSchedulerRunning b"
    then have "kernel_reset ?k" "\<not> xSchedulerRunning b1" using made(12) by (simp_all add: kernel_reset_def)
    then show ?thesis using first_new_task [of ?k b1 t prio] made(4) p by simp
  qed
  then obtain k where k: "prvAddNewTaskToReadyList t b1 = Some (b1\<lparr>kern := k, uxTaskNumber := uxTaskNumber b1 + 1\<rparr>)" "kernel_ok k" "runs_highest k"
     "tcbs k = (tcbs (kern b1))(t := ready_tcb prio)" "uxCurrentNumberOfTasks k = uxCurrentNumberOfTasks (kern b1) + 1" "sched.more k = sched.more (kern b1)" by blast
  let ?b = "b1\<lparr>kern := k, uxTaskNumber := uxTaskNumber b1 + 1\<rparr>"
  have run: "xTaskCreate e code nm depth param prio b = Some (pdPASS, Some t, ?b)" using made(1,2) k(1) by (simp add: xTaskCreate_def)
  have "memory_ok e k" using memory_frame [OF made(11) k(6), of t] k(4) made(10) by simp
  then have bo: "boot_ok e ?b" using k(2,3) by (simp add: boot_ok_def)
  have q: "queues k = queues (kern b1)" "heap k = heap (kern b1)" using queues_more [OF k(6)] by simp_all
  have "starts_at e code depth param t ?b" using made(5) starts_at_cong [of ?b b1] by simp
  moreover have "stacks_kept t depth b ?b" using made(15) by (simp add: stacks_kept_def)
  ultimately have "task_added e code nm depth param prio t b ?b"
    using made(3,6-10,14) k(4,5) q t1(1-3) unfolding task_added_def by auto
  then show ?thesis using run bo made(1,12) q(2) by (intro exI [of _ pdPASS] exI [of _ "Some t"] exI [of _ ?b]) simp
qed

section \<open>Start-up does not run out of memory\<close>

text \<open>While nothing has been freed, all that is left of the heap is one block, of at least \<open>r\<close> bytes.\<close>

definition room :: "nat \<Rightarrow> heap4 \<Rightarrow> bool" where
  "room r h \<longleftrightarrow> (if pxEnd h = 0 then r \<le> 65504 else \<exists>a s. free_list h = [(a, s)] \<and> r \<le> s)"

lemma room_init:
  assumes "heap_inv H h" and "room r h"
  shows "\<exists>a s. free_list (if pxEnd h = 0 then prvHeapInit H h else h) = [(a, s)] \<and> xFreeBytesRemaining (if pxEnd h = 0 then prvHeapInit H h else h) = s \<and> r \<le> s"
proof -
  let ?h = "if pxEnd h = 0 then prvHeapInit H h else h"
  obtain ts where ts: "tiled H ?h ts" using heap_inv_init [OF assms(1)] by blast
  have "\<exists>a s. free_list ?h = [(a, s)] \<and> r \<le> s"
  proof (cases "pxEnd h = 0")
    case True
    have "heap_last H \<noteq> 0" using heap_bounds(4) [of H] by simp
    then have "allocated h = (\<lambda>_. None)" using assms(1) True by (auto simp: heap_inv_def tiled_def)
    from heap_init_tiled [OF this, of H] have "free_list (prvHeapInit H h) = [(heap_first H, heap_last H - heap_first H)]" by (simp add: tiled_def)
    moreover have "r \<le> heap_last H - heap_first H" using assms(2) True heap_bounds(2,4) [of H] by (simp add: room_def)
    ultimately show ?thesis using True by simp
  qed (use assms(2) in \<open>simp add: room_def\<close>)
  then obtain a s where f: "free_list ?h = [(a, s)]" "r \<le> s" by blast
  have "xFreeBytesRemaining ?h = sum_list (map snd (free_list ?h))" using ts by (simp add: tiled_def)
  then have "xFreeBytesRemaining ?h = s" unfolding f(1) by simp
  then show ?thesis using f by blast
qed

lemma room_malloc:
  assumes inv: "heap_inv H h" and r: "room r h" and W: "wanted_size x = W" "heapBLOCK_SIZE_IS_VALID W" "W > 0" "unat W + 24 \<le> r"
  shows "\<exists>p h'. pvPortMalloc H x h = Some (p, h') \<and> p \<noteq> 0 \<and> room (r - unat W) h'"
proof -
  define h1 where "h1 = (if pxEnd h = 0 then prvHeapInit H h else h)"
  obtain a s where f: "free_list h1 = [(a, s)]" "xFreeBytesRemaining h1 = s" "r \<le> s" using room_init [OF inv r] unfolding h1_def by blast
  obtain p h' where run: "pvPortMalloc H x h = Some (p, h')" "pxEnd h' \<noteq> 0" using malloc_spec [OF inv, of x] by blast
  have big: "\<not> s < unat W" "s - unat W > unat heapMINIMUM_BLOCK_SIZE" "unat W \<le> s" using W(4) f(3) by (simp_all add: struct_size)
  have "find_fit (heapVALIDATE_BLOCK_POINTER H) (pxEnd h1) (unat W) [(a, s)] = Some ([], [(a, s)])"
    using run(1) W(2,3) big unfolding pvPortMalloc_def W(1) Let_def h1_def [symmetric] f(1,2) by (auto split: if_splits)
  then have "p = a + unat xHeapStructSize \<and> free_list h' = [(a + unat W, s - unat W)]"
    using run(1) W(2,3) big unfolding pvPortMalloc_def W(1) Let_def h1_def [symmetric] f(1,2)
    by (auto split: if_splits)
  then show ?thesis using run W(4) f(3) by (intro exI [of _ p] exI [of _ h']) (simp add: room_def struct_size diff_le_mono)
qed

lemma init_task_heap: "prvInitialiseNewTask e code nm depth param prio t b = Some b' \<Longrightarrow> heap (kern b') = heap (kern b)"
  unfolding prvInitialiseNewTask_def Let_def by (auto simp: upd_tcb_def split: if_splits prod.splits)

lemma room_task:
  assumes inv: "heap_inv (e_ucHeap e) (heap (kern b))" and r: "room r (heap (kern b))"
    and W: "wanted_size (depth * 4) = W" "heapBLOCK_SIZE_IS_VALID W" "W > 0" "unat W + 128 \<le> r"
    and run: "prvCreateTask e code nm depth param prio b = Some (t, b1)"
  shows "t \<noteq> 0" "room (r - unat W - 104) (heap (kern b1))"
proof -
  obtain stk h1 where m1: "pvPortMalloc (e_ucHeap e) (depth * 4) (heap (kern b)) = Some (stk, h1)" "stk \<noteq> 0" "room (r - unat W) h1"
    using room_malloc [OF inv r W(1-3)] W(4) by auto
  have i1: "heap_inv (e_ucHeap e) h1" using h4.malloc_returns [OF inv, of "depth * 4"] m1(1) by auto
  have "wanted_size sizeof_TCB_t = 104"
    by (simp add: wanted_size_def heapADD_WILL_OVERFLOW_def xHeapStructSize_def Let_def cdefs)
  moreover have "heapBLOCK_SIZE_IS_VALID 104" by (simp add: heapBLOCK_SIZE_IS_VALID_def)
  moreover have "unat (104 :: u32) + 24 \<le> r - unat W" using W(4) by simp
  ultimately obtain u h2 where m2: "pvPortMalloc (e_ucHeap e) sizeof_TCB_t h1 = Some (u, h2)" "u \<noteq> 0" "room (r - unat W - 104) h2"
    using room_malloc [OF i1 m1(3), of sizeof_TCB_t 104] by auto
  have "t = u \<and> heap (kern b1) = h2"
    using run m1(1,2) m2(1,2) unfolding prvCreateTask_def
    by (auto simp: bind_eq_Some_conv Let_def upd_kern_def upd_tcb_def dest!: init_task_heap)
  then show "t \<noteq> 0" "room (r - unat W - 104) (heap (kern b1))" using m2(2,3) by simp_all
qed

section \<open>The stages of start-up\<close>

definition stage :: "boot_env \<Rightarrow> nat \<Rightarrow> 'a boot_scheme \<Rightarrow> bool" where
  "stage e r b \<longleftrightarrow> memory_ok e (kern b) \<and> room r (heap (kern b)) \<and> \<not> xSchedulerRunning b \<and> \<not> pend_sv (kern b)
     \<and> (\<forall>t. tcbs (kern b) t = zero_tcb \<or> (\<exists>p. tcbs (kern b) t = ready_tcb p)) \<and> (boot_ok e b \<or> kernel_reset (kern b))"

lemma stage_events: "stage e r b \<Longrightarrow> klists (kern b) (Event i) = ([], None)"
proof -
  assume s: "stage e r b"
  show ?thesis
  proof (cases "kernel_reset (kern b)")
    case False
    then have l: "links_ok (kern b)" using s by (simp add: stage_def boot_ok_def kernel_ok_def sched_ok_def core_ok_def tick_inv_def)
    have "event_in (tcbs (kern b) t) = None" for t using s unfolding stage_def by (metis zero_tcb_sel(3) ready_tcb_sel(3))
    then have "fst (klists (kern b) (Event i)) = []" using links_okD(3) [OF l, of "Event i"] by (metis list.set_intros(1) neq_Nil_conv option.distinct(1) state_list.simps(5))
    then show ?thesis using links_okD(1) [OF l, of "Event i"] by (cases "klists (kern b) (Event i)") (auto simp: alist_ok_def split: option.splits)
  qed (simp add: kernel_reset_def)
qed

lemma add_keeps_flags:
  "prvAddNewTaskToReadyList t b = Some b' \<Longrightarrow> \<not> xSchedulerRunning b \<Longrightarrow> \<not> pend_sv (kern b) \<Longrightarrow> \<not> pend_sv (kern b')"
  unfolding prvAddNewTaskToReadyList_def Let_def
  by (auto simp: taskEXIT_CRITICAL_def make_current_def prvInitialiseTaskLists_def Let_def split: if_splits)

lemma init_task_flags: "prvInitialiseNewTask e code nm depth param prio t b = Some b' \<Longrightarrow> pend_sv (kern b') = pend_sv (kern b) \<and> xSchedulerRunning b' = xSchedulerRunning b"
  unfolding prvInitialiseNewTask_def Let_def by (auto simp: upd_tcb_def split: if_splits prod.splits)

lemma create_task_flags:
  assumes "prvCreateTask e code nm depth param prio b = Some (t, b')"
  shows "pend_sv (kern b') = pend_sv (kern b) \<and> xSchedulerRunning b' = xSchedulerRunning b"
proof -
  obtain stk h1 where m1: "pvPortMalloc (e_ucHeap e) (depth * 4) (heap (kern b)) = Some (stk, h1)"
    using assms by (cases "pvPortMalloc (e_ucHeap e) (depth * 4) (heap (kern b))") (auto simp: prvCreateTask_def)
  show ?thesis
  proof (cases "stk = 0")
    case False
    then obtain u h2 where m2: "pvPortMalloc (e_ucHeap e) sizeof_TCB_t h1 = Some (u, h2)"
      using assms m1 by (cases "pvPortMalloc (e_ucHeap e) sizeof_TCB_t h1") (auto simp: prvCreateTask_def)
    show ?thesis
    proof (cases "u = 0")
      case True
      then show ?thesis using assms m1 m2 False by (cases "vPortFree (e_ucHeap e) stk h2") (auto simp: prvCreateTask_def upd_kern_def)
    next
      case nz: False
      let ?b1 = "upd_kern (\<lambda>k. upd_tcb u (\<lambda>c. zero_tcb) (k\<lparr>heap := h2\<rparr>)) b"
      have "prvInitialiseNewTask e code nm depth param prio u (?b1\<lparr>pxStack := (pxStack ?b1)(u := stk), pcTaskName := (pcTaskName ?b1)(u := replicate 16 (CHR 0x00))\<rparr>) = Some b'"
        using assms m1 m2 False nz by (auto simp: prvCreateTask_def Let_def bind_eq_Some_conv)
      from init_task_flags [OF this] show ?thesis by (simp add: upd_kern_def upd_tcb_def)
    qed
  qed (use assms m1 in \<open>auto simp: prvCreateTask_def upd_kern_def\<close>)
qed

lemma stage_task:
  assumes s: "stage e r b" and p: "prio < configMAX_PRIORITIES" and d: "17 \<le> unat depth" "unat depth < 1073741824"
    and W: "wanted_size (depth * 4) = W" "heapBLOCK_SIZE_IS_VALID W" "W > 0" "unat W + 128 \<le> r"
  shows "\<exists>t b'. xTaskCreate e code nm depth param prio b = Some (pdPASS, Some t, b') \<and> stage e (r - unat W - 104) b' \<and> boot_ok e b' \<and> task_added e code nm depth param prio t b b'"
proof -
  have st: "memory_ok e (kern b)" "boot_ok e b \<or> kernel_reset (kern b) \<and> \<not> xSchedulerRunning b" "room r (heap (kern b))" "heap_inv (e_ucHeap e) (heap (kern b))"
    "\<not> xSchedulerRunning b" "\<not> pend_sv (kern b)" using s by (auto simp: stage_def memory_ok_def)
  obtain rr hdl b' where c: "xTaskCreate e code nm depth param prio b = Some (rr, hdl, b')"
     "case hdl of None \<Rightarrow> fst (the (prvCreateTask e code nm depth param prio b)) = 0
        | Some t \<Rightarrow> rr = pdPASS \<and> boot_ok e b' \<and> task_added e code nm depth param prio t b b' \<and> xSchedulerRunning b' = xSchedulerRunning b
            \<and> heap (kern b') = heap (kern (snd (the (prvCreateTask e code nm depth param prio b))))"
    using create_adds [OF st(1,2) p d, of code nm param] by (auto split: option.splits)
  obtain t b1 where pc: "prvCreateTask e code nm depth param prio b = Some (t, b1)" using c(1) by (auto simp: xTaskCreate_def bind_eq_Some_conv)
  note rt = room_task [OF st(4,3) W pc]
  have fl: "\<not> pend_sv (kern b1)" "\<not> xSchedulerRunning b1" using create_task_flags [OF pc] st(5,6) by simp_all
  obtain b2 where "prvAddNewTaskToReadyList t b1 = Some b2" "hdl = Some t" "b2 = b'" using c(1) pc rt(1) by (auto simp: xTaskCreate_def bind_eq_Some_conv)
  then have h: "hdl = Some t" "\<not> pend_sv (kern b')" using add_keeps_flags fl by auto
  then have r: "rr = pdPASS" "boot_ok e b'" "task_added e code nm depth param prio t b b'" "xSchedulerRunning b' = xSchedulerRunning b" "heap (kern b') = heap (kern b1)"
    using c(2) pc by simp_all
  have "\<forall>u. tcbs (kern b') u = zero_tcb \<or> (\<exists>p. tcbs (kern b') u = ready_tcb p)" using s r(3) unfolding stage_def task_added_def by auto
  then have "stage e (r - unat W - 104) b'" using r h(2) rt(2) st(5) by (simp add: stage_def boot_ok_def)
  then show ?thesis using c(1) h(1) r(1-3) by blast
qed

definition new_queue :: "u32 \<Rightarrow> u32 \<Rightarrow> u8 list \<Rightarrow> queue \<Rightarrow> queue" where
  "new_queue n z ram Q = reset_queue (Q\<lparr>uxQueueType_mutex := False, storage := (if z = 0 then [] else ram), uxLength := n, uxItemSize := z\<rparr>)"

lemma create_queue_run:
  assumes "pvPortMalloc H (sizeof_Queue_t + n * z) (heap k) = Some (q, h')" and "q \<noteq> 0" and n: "n > 0" "0xFFFFFFFF div n \<ge> z" "0xFFFFFFFF - sizeof_Queue_t \<ge> n * z"
    and "\<not> pend_sv k" and "\<And>i. klists k (Event i) = ([], None)"
  shows "xQueueGenericCreate H ram n z k = Some (q, k\<lparr>heap := h', queues := (queues k)(q := new_queue n z ram (queues k q))\<rparr>)"
proof -
  let ?k = "k\<lparr>heap := h', queues := (queues k)(q := new_queue n z ram (queues k q))\<rparr>"
  have "n \<ge> 1" using n(1) by (simp add: word_le_nat_alt word_less_nat_alt)
  moreover have e: "put_list (Event i) ([], None) ?k = ?k" for i
  proof -
    have "(klists k)(Event i := ([], None)) = klists k" using assms(7) [of i] by (rule fun_upd_idem)
    then show ?thesis by (simp add: put_list_def)
  qed
  ultimately show ?thesis using assms(1-6)
    by (simp add: xQueueGenericCreate_def prvInitialiseNewQueue_def xQueueGenericReset_def Let_def upd_queue_def new_queue_def [symmetric] e
        xTasksWaitingToSend_def xTasksWaitingToReceive_def taskEXIT_CRITICAL_def)
qed

lemma stage_queue:
  assumes s: "stage e r b" and n: "n > 0" "0xFFFFFFFF div n \<ge> z" "0xFFFFFFFF - sizeof_Queue_t \<ge> n * z"
    and W: "wanted_size (sizeof_Queue_t + n * z) = W" "heapBLOCK_SIZE_IS_VALID W" "W > 0" "unat W + 24 \<le> r"
  shows "\<exists>q k'. xQueueGenericCreate (e_ucHeap e) ram n z (kern b) = Some (q, k') \<and> q \<noteq> 0 \<and> heap_live (heap (kern b)) q = None \<and> stage e (r - unat W) (b\<lparr>kern := k'\<rparr>)
     \<and> queues k' = (queues (kern b))(q := new_queue n z ram (queues (kern b) q)) \<and> tcbs k' = tcbs (kern b) \<and> uxCurrentNumberOfTasks k' = uxCurrentNumberOfTasks (kern b)
     \<and> (\<exists>m. heap_live (heap k') = (heap_live (heap (kern b)))(q := Some m))"
proof -
  let ?k = "kern b"
  have mo: "memory_ok e ?k" "heap_inv (e_ucHeap e) (heap ?k)" "apart (heap_live (heap ?k))" "room r (heap ?k)" "\<not> pend_sv ?k" using s by (auto simp: stage_def memory_ok_def)
  obtain q h' where q: "pvPortMalloc (e_ucHeap e) (sizeof_Queue_t + n * z) (heap ?k) = Some (q, h')" "q \<noteq> 0" "room (r - unat W) h'"
    using room_malloc [OF mo(2,4) W] by blast
  then have l: "heap_inv (e_ucHeap e) h'" "apart (heap_live h')" "heap_live (heap ?k) q = None" "\<exists>m. heap_live h' = (heap_live (heap ?k))(q := Some m)"
    using malloc_live [OF mo(2,3), of "sizeof_Queue_t + n * z"] by auto
  define k' where "k' = ?k\<lparr>heap := h', queues := (queues ?k)(q := new_queue n z ram (queues ?k q))\<rparr>"
  have run: "xQueueGenericCreate (e_ucHeap e) ram n z ?k = Some (q, k')"
    using create_queue_run [OF q(1,2) n mo(5)] stage_events [OF s] unfolding k'_def by blast
  have f: "heap k' = h'" "tcbs k' = tcbs ?k" by (simp_all add: k'_def)
  have me: "memory_ok e k'" using mo(1) l unfolding memory_ok_def f by auto
  have "kernel_ok ?k \<Longrightarrow> kernel_ok k'" by (erule kernel_cong) (simp_all add: k'_def)
  moreover have "runs_highest ?k \<Longrightarrow> runs_highest k'" by (simp add: runs_highest_def k'_def)
  moreover have "kernel_reset ?k \<Longrightarrow> kernel_reset k'" by (simp add: kernel_reset_def k'_def)
  ultimately have "stage e (r - unat W) (b\<lparr>kern := k'\<rparr>)" using s me q(3) unfolding stage_def boot_ok_def by (auto simp: k'_def)
  then show ?thesis using run q(2) l(3,4) by (intro exI [of _ q] exI [of _ k']) (simp add: k'_def)
qed

section \<open>Tasks that wait to run\<close>

text \<open>A task that has not run yet: it is ready, and its stack is its own and holds the first frame.\<close>

definition runnable :: "boot_env \<Rightarrow> u32 \<Rightarrow> u32 \<Rightarrow> nat \<Rightarrow> nat \<Rightarrow> 'a boot_scheme \<Rightarrow> bool" where
  "runnable e code depth prio t b \<longleftrightarrow> t \<noteq> 0 \<and> tcbs (kern b) t = ready_tcb prio \<and> starts_at e code depth 0 t b \<and> heap_live (heap (kern b)) t \<noteq> None
     \<and> (\<exists>m. 4 * unat depth \<le> m \<and> heap_live (heap (kern b)) (pxStack b t) = Some m)"

lemma added_runnable: "task_added e code nm depth 0 prio t b b' \<Longrightarrow> runnable e code depth prio t b'"
proof -
  assume a: "task_added e code nm depth 0 prio t b b'"
  then have "t \<noteq> 0" unfolding task_added_def by (metis fun_upd_same heap_live_null option.distinct(1))
  then show ?thesis using a unfolding task_added_def runnable_def by auto
qed

lemma runnable_cong:
  assumes "runnable e code depth prio t b" and "pxTopOfStack b' = pxTopOfStack b" and "pxStack b' = pxStack b" and "stack_ram b' = stack_ram b"
    and "tcbs (kern b') = tcbs (kern b)" and "\<And>u. heap_live (heap (kern b)) u \<noteq> None \<Longrightarrow> heap_live (heap (kern b')) u = heap_live (heap (kern b)) u"
  shows "runnable e code depth prio t b'"
  using assms starts_at_cong [of b' b] unfolding runnable_def by (metis option.distinct(1))

lemma runnable_added:
  assumes r: "runnable e code depth prio u b" and a: "task_added e code' nm depth' 0 prio' t b b'" and mo: "memory_ok e (kern b')"
  shows "runnable e code depth prio u b'"
proof -
  let ?p = "pxStack b u" and ?q = "pxStack b' t"
  obtain m where m: "4 * unat depth \<le> m" "heap_live (heap (kern b)) ?p = Some m" using r by (auto simp: runnable_def)
  obtain i j where l: "heap_live (heap (kern b')) = (heap_live (heap (kern b)))(?q := Some j, t := Some i)" "4 * unat depth' \<le> j"
    using a by (auto simp: task_added_def)
  have new: "heap_live (heap (kern b)) t = None" "heap_live (heap (kern b)) ?q = None" "?q \<noteq> t" using a by (simp_all add: task_added_def)
  then have ut: "u \<noteq> t" "u \<noteq> ?q" "?p \<noteq> t" "?p \<noteq> ?q" using r m(2) by (auto simp: runnable_def)
  have live: "heap_live (heap (kern b')) ?p = Some m" "heap_live (heap (kern b')) ?q = Some j" using l(1) m(2) ut new(3) by simp_all
  then have out: "?p + m \<le> ?q \<or> ?q + j \<le> ?p" using mo ut(4) unfolding memory_ok_def apart_def by blast
  have k: "pxTopOfStack b' u = pxTopOfStack b u" "pxStack b' u = ?p" "\<And>x. x < ?q \<or> ?q + 4 * unat depth' \<le> x \<Longrightarrow> stack_ram b' x = stack_ram b x"
    using a ut(1) unfolding task_added_def stacks_kept_def by blast+
  have st: "starts_at e code depth 0 u b" using r by (simp add: runnable_def)
  then have sp: "?p \<le> pxTopOfStack b u" "pxTopOfStack b u + 64 \<le> ?p + 4 * unat depth" by (simp_all add: starts_at_def Let_def)
  have "stack_ram b' (pxTopOfStack b u + d) = stack_ram b (pxTopOfStack b u + d)" if "d < 64" for d
    using that sp out m(1) l(2) by (intro k(3)) linarith
  then have "starts_at e code depth 0 u b'" using st unfolding starts_at_def Let_def k(1,2) by simp
  then show ?thesis using r ut m(1) live(1) a l(1) k(2) unfolding runnable_def task_added_def by auto
qed

section \<open>Starting the scheduler\<close>

lemma stage_cong:
  assumes "stage e r b" and "sched.truncate (kern b') = sched.truncate (kern b)" and "heap (kern b') = heap (kern b)" and "xSchedulerRunning b' = xSchedulerRunning b"
  shows "stage e r b'"
proof -
  have k: "tcbs (kern b') = tcbs (kern b)" "klists (kern b') = klists (kern b)" "pxCurrentTCB (kern b') = pxCurrentTCB (kern b)"
    "uxCurrentNumberOfTasks (kern b') = uxCurrentNumberOfTasks (kern b)" "uxTopReadyPriority (kern b') = uxTopReadyPriority (kern b)"
    "pxDelayedTaskList (kern b') = pxDelayedTaskList (kern b)" "pxOverflowDelayedTaskList (kern b') = pxOverflowDelayedTaskList (kern b)"
    "xTickCount (kern b') = xTickCount (kern b)" "xNextTaskUnblockTime (kern b') = xNextTaskUnblockTime (kern b)"
    "uxSchedulerSuspended (kern b') = uxSchedulerSuspended (kern b)" "xPendedTicks (kern b') = xPendedTicks (kern b)" "pend_sv (kern b') = pend_sv (kern b)"
    using assms(2) by (simp_all add: sched.truncate_def)
  have "kernel_ok (kern b) \<Longrightarrow> kernel_ok (kern b')" using kernel_cong [of "kern b" "kern b'"] k by simp
  moreover have "kernel_reset (kern b') = kernel_reset (kern b)" "memory_ok e (kern b') = memory_ok e (kern b)" "runs_highest (kern b') = runs_highest (kern b)"
    using k assms(3) by (simp_all add: kernel_reset_def memory_ok_def runs_highest_def)
  ultimately show ?thesis using assms(1,3,4) k by (auto simp: stage_def boot_ok_def)
qed

text \<open>Starting depends on one bit of the priority registers: the one \<open>configMAX_SYSCALL_INTERRUPT_PRIORITY\<close> uses.\<close>

lemma bit_4: "bit (4 :: u8) n \<longleftrightarrow> n = 2"
proof -
  have "(4 :: u8) = push_bit 2 1" by simp
  then have "bit (4 :: u8) n = bit (push_bit 2 1 :: u8) n" by (rule arg_cong)
  also have "\<dots> \<longleftrightarrow> n = 2" unfolding bit_push_bit_iff bit_1_iff possible_bit_def by auto
  finally show ?thesis .
qed

lemma port_starts:
  "(\<exists>b'. xPortStartScheduler e b = Some b') \<longleftrightarrow> bit (e_implemented_priority e) 2"
proof -
  let ?m = "e_implemented_priority e"
  have "(0xFF :: u8) = - 1" by simp
  then have m: "0xFF AND ?m = ?m" by (simp only: and.left_neutral)
  have f: "(4 :: u8) AND x = (if bit x 2 then 4 else 0)" for x
    by (rule bit_word_eqI) (use bit_4 in \<open>simp add: bit_and_iff; metis\<close>)
  have "bit (NOT ?m) 2 \<longleftrightarrow> \<not> bit ?m 2" by (simp add: bit_not_iff)
  then have 1: "(4 :: u8) AND ?m = 0 \<longleftrightarrow> \<not> bit ?m 2" and 2: "(4 :: u8) AND NOT ?m = 0 \<longleftrightarrow> bit ?m 2" unfolding f by simp_all
  show ?thesis by (simp add: xPortStartScheduler_def g_pfnVectors_def Let_def m configMAX_SYSCALL_INTERRUPT_PRIORITY_def 1 2)
qed

lemma port_frame:
  assumes "xPortStartScheduler e b = Some b'"
  shows "kern b' = kern b" "pxTopOfStack b' = pxTopOfStack b" "pxStack b' = pxStack b" "stack_ram b' = stack_ram b" "xSchedulerRunning b' = xSchedulerRunning b"
    "systick_load b' = 24999" "systick_ctrl b' = 7"
  using assms unfolding xPortStartScheduler_def vPortSetupTimerInterrupt_def by (auto simp: Let_def split: if_splits)

lemma block_sizes:
  "wanted_size 512 = 520" "wanted_size 1024 = 1032" "wanted_size 2048 = 2056" "wanted_size 4096 = 4104" "wanted_size 72 = 80" "wanted_size 75 = 88" "wanted_size 232 = 240"
  "heapBLOCK_SIZE_IS_VALID 520" "heapBLOCK_SIZE_IS_VALID 1032" "heapBLOCK_SIZE_IS_VALID 2056" "heapBLOCK_SIZE_IS_VALID 4104" "heapBLOCK_SIZE_IS_VALID 80"
  "heapBLOCK_SIZE_IS_VALID 88" "heapBLOCK_SIZE_IS_VALID 240"
  by (simp_all add: wanted_size_def heapADD_WILL_OVERFLOW_def xHeapStructSize_def Let_def cdefs heapBLOCK_SIZE_IS_VALID_def)

text \<open>The counter and the time of the next wake-up are set anew; nothing is delayed yet.\<close>

lemma restart_clock:
  assumes "stage e r b" and "boot_ok e b"
  shows "kernel_ok ((kern b)\<lparr>xNextTaskUnblockTime := w, xTickCount := v\<rparr>)"
proof -
  have none: "state_in (tcbs (kern b) t) \<noteq> Some (Delayed d)" for t d using assms(1) unfolding stage_def by (metis zero_tcb_sel(2) ready_tcb_sel(2) list_id.distinct(1) option.distinct(1) option.inject)
  have k: "kernel_ok (kern b)" using assms(2) by (simp add: boot_ok_def)
  then have c: "tick_inv (kern b)" by (simp add: kernel_ok_def sched_ok_def core_ok_def)
  then obtain d where d: "pxDelayedTaskList (kern b) = Delayed d" by (auto simp: tick_inv_def delays_ok_def)
  let ?k = "(kern b)\<lparr>xNextTaskUnblockTime := w, xTickCount := v\<rparr>"
  have "tick_inv ?k" using c by (simp add: tick_inv_def links_ok_def ready_ok_def delays_ok_def)
  moreover have "times_ok ?k" using none d by (simp add: times_ok_def)
  ultimately show ?thesis using k by (simp add: kernel_ok_def sched_ok_def core_ok_def waiters_ok_def some_ready_def)
qed

lemma start_scheduler:
  assumes s: "stage e r b" and b: "boot_ok e b" and room: "3000 \<le> r" and timer: "xTimerQueue b = 0"
    and bits: "bit (e_implemented_priority e) 2"
  shows "\<exists>ti tt b'. vTaskStartScheduler e b = Some (True, b') \<and> boot_ok e b' \<and> xSchedulerRunning b' \<and> xTickCount (kern b') = 0
     \<and> uxCurrentNumberOfTasks (kern b') = uxCurrentNumberOfTasks (kern b) + 2
     \<and> runnable e (e_prvIdleTask e) configMINIMAL_STACK_SIZE 0 ti b' \<and> runnable e (e_prvTimerTask e) configTIMER_TASK_STACK_DEPTH configTIMER_TASK_PRIORITY tt b'
     \<and> heap_live (heap (kern b)) ti = None \<and> heap_live (heap (kern b)) tt = None \<and> ti \<noteq> tt
     \<and> tcbs (kern b') = (tcbs (kern b))(ti := ready_tcb 0, tt := ready_tcb configTIMER_TASK_PRIORITY)
     \<and> (\<forall>q. heap_live (heap (kern b)) q \<noteq> None \<longrightarrow> queues (kern b') q = queues (kern b) q)
     \<and> (\<forall>code depth prio t. runnable e code depth prio t b \<longrightarrow> runnable e code depth prio t b') \<and> systick_load b' = 24999 \<and> systick_ctrl b' = 7"
proof -
  have left: "264 \<le> r - 624" "1160 \<le> r - 864" using room by simp_all
  obtain ti b1 where i: "xTaskCreate e (e_prvIdleTask e) (Some ''IDLE'') configMINIMAL_STACK_SIZE 0 0 b = Some (pdPASS, Some ti, b1)"
    "stage e (r - unat (520 :: u32) - 104) b1" "boot_ok e b1" "task_added e (e_prvIdleTask e) (Some ''IDLE'') configMINIMAL_STACK_SIZE 0 0 ti b b1"
    using stage_task [OF s, of 0 configMINIMAL_STACK_SIZE 520 "e_prvIdleTask e" "Some ''IDLE''" 0] room by (auto simp: cdefs block_sizes)
  define b2 where "b2 = b1\<lparr>xIdleTaskHandle := ti\<rparr>"
  have idle: "prvCreateIdleTasks e b = Some (pdPASS, b2)" using i(1) by (simp add: prvCreateIdleTasks_def b2_def)
  have s2: "stage e (r - 624) b2" using stage_cong [of e "r - 624" b1 b2] i(2) by (simp add: b2_def)
  have e2: "tcbs (kern b2) = (tcbs (kern b))(ti := ready_tcb 0)" "queues (kern b2) = queues (kern b)" "xTimerQueue b2 = 0" "kern b2 = kern b1"
    "uxCurrentNumberOfTasks (kern b2) = uxCurrentNumberOfTasks (kern b) + 1" "heap_live (heap (kern b)) ti = None"
    using i(4) timer by (simp_all add: b2_def task_added_def stacks_kept_def)
  have live2: "heap_live (heap (kern b)) u \<noteq> None \<Longrightarrow> heap_live (heap (kern b2)) u = heap_live (heap (kern b)) u" "heap_live (heap (kern b2)) ti \<noteq> None" for u
    using i(4) by (auto simp: b2_def task_added_def)
  obtain q k1 where q: "xQueueGenericCreate (e_ucHeap e) (e_fresh e (unat (configTIMER_QUEUE_LENGTH * sizeof_DaemonTaskMessage_t))) configTIMER_QUEUE_LENGTH sizeof_DaemonTaskMessage_t (kern b2) = Some (q, k1)"
    "q \<noteq> 0" "heap_live (heap (kern b2)) q = None" "stage e (r - 624 - unat (240 :: u32)) (b2\<lparr>kern := k1\<rparr>)"
    "queues k1 = (queues (kern b2))(q := new_queue configTIMER_QUEUE_LENGTH sizeof_DaemonTaskMessage_t (e_fresh e (unat (configTIMER_QUEUE_LENGTH * sizeof_DaemonTaskMessage_t))) (queues (kern b2) q))"
    "tcbs k1 = tcbs (kern b2)" "uxCurrentNumberOfTasks k1 = uxCurrentNumberOfTasks (kern b2)" "\<exists>m. heap_live (heap k1) = (heap_live (heap (kern b2)))(q := Some m)"
    using stage_queue [OF s2, of configTIMER_QUEUE_LENGTH sizeof_DaemonTaskMessage_t 240 "e_fresh e (unat (configTIMER_QUEUE_LENGTH * sizeof_DaemonTaskMessage_t))"] left(1)
    by (simp add: cdefs block_sizes) blast
  obtain k2 where k2: "vQueueAddToRegistry q (Some ''TmrQ'') k1 = Some k2" "sched.truncate k2 = sched.truncate k1" "heap k2 = heap k1" "queues k2 = queues k1" "\<not> pend_sv k2"
  proof -
    have np: "\<not> pend_sv k1" using q(4) by (simp add: stage_def)
    show ?thesis using that q(2) np by (cases "registry_entry q None 0 (xQueueRegistry k1)") (simp_all add: vQueueAddToRegistry_def sched.truncate_def)
  qed
  define b3 where "b3 = b2\<lparr>kern := k2, xActiveTimerLists := (([], None), ([], None)), xTimerQueue := q\<rparr>"
  have chk: "prvCheckForValidListAndQueue e b2 = Some b3"
    using q(1,2) k2(1,5) e2(3) by (simp add: prvCheckForValidListAndQueue_def taskEXIT_CRITICAL_def b3_def)
  have s3: "stage e (r - 864) b3" using stage_cong [of e "r - 864" "b2\<lparr>kern := k1\<rparr>" b3] q(4) k2(2,3) by (simp add: b3_def)
  have tk: "tcbs k2 = tcbs k1" "uxCurrentNumberOfTasks k2 = uxCurrentNumberOfTasks k1" using k2(2) by (simp_all add: sched.truncate_def)
  obtain tt b4 where m: "xTaskCreate e (e_prvTimerTask e) (Some ''Tmr Svc'') configTIMER_TASK_STACK_DEPTH 0 configTIMER_TASK_PRIORITY b3 = Some (pdPASS, Some tt, b4)"
    "stage e (r - 864 - unat (1032 :: u32) - 104) b4" "boot_ok e b4"
    "task_added e (e_prvTimerTask e) (Some ''Tmr Svc'') configTIMER_TASK_STACK_DEPTH 0 configTIMER_TASK_PRIORITY tt b3 b4"
    using stage_task [OF s3, of configTIMER_TASK_PRIORITY configTIMER_TASK_STACK_DEPTH 1032 "e_prvTimerTask e" "Some ''Tmr Svc''" 0] left(2) by (simp add: cdefs block_sizes) blast
  define b5 where "b5 = b4\<lparr>xTimerTaskHandle := tt\<rparr>"
  have tmr: "xTimerCreateTimerTask e b2 = Some (pdPASS, b5)"
    using chk m(1) q(2) by (simp add: xTimerCreateTimerTask_def b3_def [symmetric] b5_def pdPASS_def) (simp add: b3_def)
  define b6 where "b6 = b5\<lparr>kern := (kern b5)\<lparr>xNextTaskUnblockTime := portMAX_DELAY, xTickCount := 0\<rparr>, xSchedulerRunning := True\<rparr>"
  obtain b' where b': "xPortStartScheduler e b6 = Some b'" using port_starts bits by blast
  note pf = port_frame [OF b']
  have run: "vTaskStartScheduler e b = Some (True, b')"
    using idle tmr b' by (simp add: vTaskStartScheduler_def b6_def [symmetric])
  have kk: "kernel_ok (kern b')" using restart_clock [OF m(2,3)] by (simp add: pf(1) b6_def b5_def)
  have mm: "memory_ok e (kern b4)" "runs_highest (kern b4)" using m(3) by (simp_all add: boot_ok_def)
  then have bo: "boot_ok e b'" using kk by (simp add: boot_ok_def pf(1) b6_def b5_def memory_ok_def runs_highest_def)
  have keep45: "runnable e code depth prio t b4 \<Longrightarrow> runnable e code depth prio t b'" for code depth prio t
    by (erule runnable_cong) (simp_all add: pf b6_def b5_def)
  have keep23: "runnable e code depth prio t b2 \<Longrightarrow> runnable e code depth prio t b3" for code depth prio t
    using q(8) q(3) by (elim runnable_cong) (auto simp: b3_def tk(1) q(6) k2(3))
  have keep: "runnable e code depth prio t b2 \<Longrightarrow> runnable e code depth prio t b'" for code depth prio t
    using keep45 runnable_added [OF keep23 m(4) mm(1)] by blast
  have all: "runnable e code depth prio t b \<Longrightarrow> runnable e code depth prio t b'" for code depth prio t
  proof -
    assume "runnable e code depth prio t b"
    then have "runnable e code depth prio t b1" using i(3) by (intro runnable_added [OF _ i(4)]) (auto simp: boot_ok_def)
    then show ?thesis by (intro keep) (erule runnable_cong, simp_all add: b2_def)
  qed
  have ri: "runnable e (e_prvIdleTask e) configMINIMAL_STACK_SIZE 0 ti b'"
    by (rule keep, rule runnable_cong [OF added_runnable [OF i(4)]]) (simp_all add: b2_def)
  have rt: "runnable e (e_prvTimerTask e) configTIMER_TASK_STACK_DEPTH configTIMER_TASK_PRIORITY tt b'" by (rule keep45 [OF added_runnable [OF m(4)]])
  have ttn: "heap_live (heap (kern b3)) tt = None" using m(4) by (simp add: task_added_def)
  then have "heap_live (heap (kern b2)) tt = None" using q(8) by (auto simp: b3_def k2(3) split: if_splits)
  then have fresh: "heap_live (heap (kern b)) tt = None" "ti \<noteq> tt" using live2 by metis+
  have "queues (kern b') u = queues (kern b) u" if "heap_live (heap (kern b)) u \<noteq> None" for u
  proof -
    have "u \<noteq> q" using q(3) live2(1) [OF that] that by auto
    then show ?thesis using m(4) q(5) e2(2) by (simp add: pf(1) b6_def b5_def task_added_def b3_def k2(4))
  qed
  moreover have "tcbs (kern b') = (tcbs (kern b))(ti := ready_tcb 0, tt := ready_tcb configTIMER_TASK_PRIORITY)"
    "uxCurrentNumberOfTasks (kern b') = uxCurrentNumberOfTasks (kern b) + 2"
    using m(4) e2(1,5) by (simp_all add: pf(1) b6_def b5_def task_added_def b3_def tk q(6,7))
  moreover have "xSchedulerRunning b'" "xTickCount (kern b') = 0" by (simp_all add: pf(1,5) b6_def)
  ultimately show ?thesis using run bo ri rt all fresh e2(6) pf(6,7) by blast
qed

section \<open>After reset\<close>

text \<open>The start-up code has cleared the variables; the heap is not set up.\<close>

definition boot_reset :: "'a boot_scheme \<Rightarrow> bool" where
  "boot_reset b \<longleftrightarrow> kernel_reset (kern b) \<and> heap (kern b) = heap4_start \<and> \<not> xSchedulerRunning b \<and> xTimerQueue b = 0"

lemma reset_stage:
  assumes "boot_reset b" and "0 < e_ucHeap e"
  shows "stage e 65504 b"
  using assms heap_inv_start apart_empty
  by (simp add: stage_def boot_reset_def memory_ok_def kernel_reset_def) (simp add: room_def heap4_start_def)

definition zero_queue :: queue where
  "zero_queue = \<lparr>storage = [], uxQueueType_mutex = False, pcWriteTo = 0, pcTail = 0, pcReadFrom = 0, xMutexHolder = None,
     uxMessagesWaiting = 0, uxLength = 0, uxItemSize = 0, cRxLock = 0, cTxLock = 0\<rparr>"

definition zero_kernel :: ksys where
  "zero_kernel = \<lparr>tcbs = (\<lambda>_. zero_tcb), klists = (\<lambda>_. ([], None)), pxCurrentTCB = 0, pxDelayedTaskList = Delayed 0, pxOverflowDelayedTaskList = Delayed 0,
     xTickCount = 0, xNumOfOverflows = 0, xNextTaskUnblockTime = 0, uxTopReadyPriority = 0, uxSchedulerSuspended = 0, xPendedTicks = 0,
     xYieldPending = False, uxCurrentNumberOfTasks = 0, pend_sv = False, queues = (\<lambda>_. zero_queue), heap = heap4_start, xQueueRegistry = replicate 8 (None, 0)\<rparr>"

definition zero_boot :: boot where
  "zero_boot = \<lparr>kern = zero_kernel, xSchedulerRunning = False, uxTaskNumber = 0, pxStack = (\<lambda>_. 0), pxTopOfStack = (\<lambda>_. 0), pcTaskName = (\<lambda>_. []),
     stack_ram = (\<lambda>_. 0), xIdleTaskHandle = 0, xTimerQueue = 0, xTimerTaskHandle = 0, xActiveTimerLists = (([], None), ([], None)), shpr2 = 0, shpr3 = 0,
     systick_ctrl = 0, systick_load = 0, systick_current = 0, uxCriticalNesting = 0xAAAAAAAA, ucMaxSysCallPriority = 0, ulMaxPRIGROUPValue = 0\<rparr>"

definition sample_boot_env :: boot_env where
  "sample_boot_env = \<lparr>e_ucHeap = 0x20000000, e_fresh = (\<lambda>n. replicate n 0), e_prvIdleTask = 0x101, e_prvTimerTask = 0x201,
     e_prvTaskExitError = 0x301, e_implemented_priority = 0xFF\<rparr>"

lemma zero_boot_reset: "boot_reset zero_boot" "0 < e_ucHeap sample_boot_env"
  by (simp_all add: boot_reset_def zero_boot_def zero_kernel_def kernel_reset_def sample_boot_env_def)

section \<open>Properties\<close>

text \<open>
  C13. Creating a task, before or after the scheduler was started, returns and keeps the kernel
  invariant, the heap and that the running task is one of the highest ready priority (so a new task of
  higher priority runs at once). Either memory is short and nothing has changed, not even the set of
  allocated blocks, or the task is ready with the given priority, all other tasks are as they were,
  its control block and stack are new separate blocks of sufficient size, its first frame enters the
  given function with the given parameter, and no byte outside its stack was written.
\<close>

theorem xTaskCreate_keeps_kernel:
  assumes "boot_ok e b" and "prio < configMAX_PRIORITIES" and "17 \<le> unat depth" and "unat depth < 1073741824"
  shows "\<exists>r hdl b'. xTaskCreate e code nm depth param prio b = Some (r, hdl, b') \<and> boot_ok e b'
     \<and> (case hdl of
          None \<Rightarrow> r = errCOULD_NOT_ALLOCATE_REQUIRED_MEMORY \<and> kern b' = (kern b)\<lparr>heap := heap (kern b')\<rparr> \<and> heap_live (heap (kern b')) = heap_live (heap (kern b))
        | Some t \<Rightarrow> r = pdPASS \<and> task_added e code nm depth param prio t b b')"
proof -
  have m: "memory_ok e (kern b)" using assms(1) by (simp add: boot_ok_def)
  obtain r hdl b' where c: "xTaskCreate e code nm depth param prio b = Some (r, hdl, b')"
     "case hdl of None \<Rightarrow> r = errCOULD_NOT_ALLOCATE_REQUIRED_MEMORY \<and> kern b' = (kern b)\<lparr>heap := heap (kern b')\<rparr> \<and> heap_live (heap (kern b')) = heap_live (heap (kern b))
          \<and> memory_ok e (kern b')
        | Some t \<Rightarrow> r = pdPASS \<and> boot_ok e b' \<and> task_added e code nm depth param prio t b b'"
    using create_adds [OF m _ assms(2-4), of code nm param] assms(1) by (auto split: option.splits)
  have "kernel_ok ((kern b)\<lparr>heap := h\<rparr>)" "runs_highest ((kern b)\<lparr>heap := h\<rparr>)" for h
    using assms(1) by (auto simp: boot_ok_def runs_highest_def elim: kernel_cong)
  then have "boot_ok e b'" using c(2) unfolding boot_ok_def by (cases hdl) (simp, metis, simp)
  then show ?thesis using c by (cases hdl) auto
qed

theorem xTaskCreate_keeps_kernel_witness:
  "\<exists>t b1 r hdl b2. xTaskCreate sample_boot_env 0x1001 (Some ''KEY'') 256 0 1 zero_boot = Some (1, Some t, b1) \<and> uxCurrentNumberOfTasks (kern b1) = 1
     \<and> xTaskCreate sample_boot_env 0x2001 (Some ''NTP'') 1024 0 2 b1 = Some (r, hdl, b2) \<and> boot_ok sample_boot_env b2"
proof -
  have "\<exists>t b'. xTaskCreate sample_boot_env 0x1001 (Some ''KEY'') 256 0 1 zero_boot = Some (pdPASS, Some t, b') \<and> boot_ok sample_boot_env b'
      \<and> task_added sample_boot_env 0x1001 (Some ''KEY'') 256 0 1 t zero_boot b'"
    using stage_task [OF reset_stage [OF zero_boot_reset], of 1 256 1032 "0x1001" "Some ''KEY''" 0] by (simp add: block_sizes cdefs) blast
  then obtain t b1 where b1: "xTaskCreate sample_boot_env 0x1001 (Some ''KEY'') 256 0 1 zero_boot = Some (pdPASS, Some t, b1)" "boot_ok sample_boot_env b1"
    "task_added sample_boot_env 0x1001 (Some ''KEY'') 256 0 1 t zero_boot b1" by blast
  then have "uxCurrentNumberOfTasks (kern b1) = 1" by (simp add: task_added_def zero_boot_def zero_kernel_def)
  then show ?thesis using b1 xTaskCreate_keeps_kernel [OF b1(2), of 2 1024 "0x2001" "Some ''NTP''" 0] by (auto simp: cdefs)
qed

end
