(* ===== verification/Clock_Boot.thy ===== *)
theory Clock_Boot
  imports Clock_Proofs Rtos_Boot_Proofs
begin

text \<open>
  \<open>main\<close> of \<open>src/main.c\<close>: the console, the semaphore and the queue, the three tasks, the
  scheduler. After reset it ends with the scheduler running in a state that satisfies the kernel
  invariant and from which the step relation of \<open>Clock_Tasks\<close> starts: what the theorems on the
  running clock assume of their start state, and the theorems on the kernel of theirs.
\<close>

section \<open>main\<close>

text \<open>The addresses of the tasks' functions are those of the linked program.\<close>

record main_env =
  m_boot :: boot_env
  m_key_task :: u32
  m_ntp_task :: u32
  m_speech_task :: u32

definition sizeof_time_msg :: u32 where [cdefs]: "sizeof_time_msg = 3"

datatype main_end = Scheduler_started | Main_spins

text \<open>
  The result: how \<open>main\<close> ends, the handles \<open>time_request_sem\<close> and \<open>time_queue\<close>, console and
  kernel. What \<open>xTaskCreate\<close> returns is not looked at.
\<close>

definition main ::
  "main_env \<Rightarrow> 'u uart_scheme \<Rightarrow> 'a boot_scheme \<Rightarrow> (main_end \<times> nat \<times> nat \<times> 'u uart_scheme \<times> 'a boot_scheme) option" where
  "main x u b =
     (let e = m_boot x in
      do { u1 \<leftarrow> system_init u;
           u2 \<leftarrow> uart_puts (''Creating IPC primitives...'' @ crlf) u1;
           (sem, k1) \<leftarrow> xQueueGenericCreate (e_ucHeap e) [] 1 0 (kern b);
           if sem = 0
           then do { u3 \<leftarrow> uart_puts (''FATAL: Failed to create semaphore!'' @ crlf) u2; Some (Main_spins, 0, 0, u3, b\<lparr>kern := k1\<rparr>) }
           else do { (tq, k2) \<leftarrow> xQueueGenericCreate (e_ucHeap e) (e_fresh e (unat sizeof_time_msg)) 1 sizeof_time_msg k1;
             if tq = 0
             then do { u3 \<leftarrow> uart_puts (''FATAL: Failed to create queue!'' @ crlf) u2; Some (Main_spins, sem, 0, u3, b\<lparr>kern := k2\<rparr>) }
             else do { u3 \<leftarrow> uart_puts (''Creating tasks...'' @ crlf) u2;
                       (r1, h1, b1) \<leftarrow> xTaskCreate e (m_key_task x) (Some ''KEY'') 256 0 1 (b\<lparr>kern := k2\<rparr>);
                       (r2, h2, b2) \<leftarrow> xTaskCreate e (m_ntp_task x) (Some ''NTP'') 1024 0 2 b1;
                       (r3, h3, b3) \<leftarrow> xTaskCreate e (m_speech_task x) (Some ''SPEECH'') 512 0 1 b2;
                       u4 \<leftarrow> uart_puts (''Starting FreeRTOS scheduler...'' @ crlf @ crlf) u3;
                       (started, b4) \<leftarrow> vTaskStartScheduler e b3;
                       if started then Some (Scheduler_started, sem, tq, u4, b4)
                       else do { u5 \<leftarrow> uart_puts (''FATAL: Scheduler returned!'' @ crlf) u4; Some (Main_spins, sem, tq, u5, b4) } } } })"

section \<open>The console\<close>

definition init_lines :: "string list" where
  "init_lines = [crlf, ''================================================'' @ crlf, ''  Speaking Clock - STM32 / FreeRTOS / QEMU'' @ crlf,
     ''  Network Time Protocol (NTP) Client'' @ crlf, ''================================================'' @ crlf, crlf]"

definition main_text :: string where
  "main_text = concat init_lines @ ''Creating IPC primitives...'' @ crlf @ ''Creating tasks...'' @ crlf @ ''Starting FreeRTOS scheduler...'' @ crlf @ crlf"

lemma emits_sel:
  "uart_emits u s v \<Longrightarrow> uart_tx v = uart_tx u @ map u32_of_char s \<and> uart_ctrl v = uart_ctrl u \<and> uart_bauddiv v = uart_bauddiv u"
  by (auto simp: uart_emits_def)

lemma system_init_emits:
  assumes "uart_ready u"
  shows "\<exists>v. system_init u = Some v \<and> uart_ready v \<and> uart_tx v = uart_tx u @ map u32_of_char (concat init_lines) \<and> uart_ctrl v = 3 \<and> uart_bauddiv v = 217"
proof -
  let ?u = "u\<lparr>uart_bauddiv := 217, uart_ctrl := 3\<rparr>"
  have "\<forall>s\<in>set init_lines. CHR 0x00 \<notin> set s" by (simp add: init_lines_def crlf_def)
  then have "uart_emitter (uart_puts_all init_lines) (concat init_lines)" by (rule uart_puts_all_emitter)
  moreover have r: "uart_ready ?u" using assms by (simp add: uart_ready_def)
  ultimately obtain v where v: "uart_puts_all init_lines ?u = Some v" "uart_emits ?u (concat init_lines) v" unfolding emitter_def by blast
  have "system_init u = uart_puts_all init_lines ?u" by (simp add: system_init_def init_lines_def cdefs del: uart_puts_all.simps)
  then show ?thesis using v emits_sel [OF v(2)] uart_emits_ready [OF v(2) r] by simp
qed

lemma puts_step:
  assumes "uart_ready u" and "nul_free s"
  shows "\<exists>v. uart_puts s u = Some v \<and> uart_ready v \<and> uart_tx v = uart_tx u @ map u32_of_char s \<and> uart_ctrl v = uart_ctrl u \<and> uart_bauddiv v = uart_bauddiv u"
  using uart_puts_runs [OF assms] emits_sel by blast

section \<open>The queues\<close>

lemma new_sem_holds: "sem_holds 0 (new_queue 1 0 ram Q)"
  by (simp add: sem_holds_def new_queue_def reset_queue_def)

lemma new_box_holds: "length ram = 3 \<Longrightarrow> box_holds [] (new_queue 1 3 ram Q)"
  unfolding box_holds_def q_holds_def by (simp add: new_queue_def reset_queue_def) (intro exI [of _ 0], simp add: ring_at_def)

definition clock_at_start :: "ksys \<Rightarrow> app \<Rightarrow> nat \<Rightarrow> nat \<Rightarrow> nat \<Rightarrow> nat \<Rightarrow> nat \<Rightarrow> clock" where
  "clock_at_start k u sem tq kt nt st =
     \<lparr>kernel = k, board = u, time_request_sem = sem, time_queue = tq, key_handle = kt, ntp_handle = nt, speech_handle = st,
      key_at = KBanner (map Puts key_banner), ntp_at = NStart, speech_at = SBanner [Puts speech_banner], msg_buf = \<lparr>hour = 0, minute = 0, second = 0\<rparr>,
      presses = 0, given = 0, taken = 0, answers = [], sent = [], heard = [], said = []\<rparr>"

section \<open>What main leaves\<close>

lemma created_queue_live: "task_added e c nm d 0 p t b b' \<Longrightarrow> heap_live (heap (kern b)) q \<noteq> None \<Longrightarrow> heap_live (heap (kern b')) q \<noteq> None"
  by (auto simp: task_added_def)

text \<open>The three tasks on top of the two queues; \<open>r\<close> is what is left of the heap.\<close>

lemma tasks_created:
  assumes s: "stage e r b" and r: "10000 \<le> r" and empty: "tcbs (kern b) = (\<lambda>_. zero_tcb)"
  shows "\<exists>kt nt st b1 b2 b3. xTaskCreate e ck (Some ''KEY'') 256 0 1 b = Some (pdPASS, Some kt, b1) \<and> xTaskCreate e cn (Some ''NTP'') 1024 0 2 b1 = Some (pdPASS, Some nt, b2)
     \<and> xTaskCreate e cs (Some ''SPEECH'') 512 0 1 b2 = Some (pdPASS, Some st, b3) \<and> stage e (r - 7504) b3 \<and> boot_ok e b3 \<and> distinct [kt, nt, st]
     \<and> tcbs (kern b3) = (\<lambda>_. zero_tcb)(kt := ready_tcb 1, nt := ready_tcb 2, st := ready_tcb 1) \<and> queues (kern b3) = queues (kern b)
     \<and> (\<forall>q. heap_live (heap (kern b)) q \<noteq> None \<longrightarrow> heap_live (heap (kern b3)) q \<noteq> None)
     \<and> uxCurrentNumberOfTasks (kern b3) = uxCurrentNumberOfTasks (kern b) + 3 \<and> xTimerQueue b3 = xTimerQueue b
     \<and> runnable e ck 256 1 kt b3 \<and> runnable e cn 1024 2 nt b3 \<and> runnable e cs 512 1 st b3"
proof -
  have room: "1160 \<le> r" "4232 \<le> r - 1136" "2184 \<le> r - 5344" using r by simp_all
  obtain kt b1 where k: "xTaskCreate e ck (Some ''KEY'') 256 0 1 b = Some (pdPASS, Some kt, b1)" "stage e (r - 1136) b1" "boot_ok e b1"
    "task_added e ck (Some ''KEY'') 256 0 1 kt b b1"
    using stage_task [OF s, of 1 256 1032 ck "Some ''KEY''" 0] room(1) by (simp add: block_sizes cdefs) blast
  obtain nt b2 where n: "xTaskCreate e cn (Some ''NTP'') 1024 0 2 b1 = Some (pdPASS, Some nt, b2)" "stage e (r - 5344) b2" "boot_ok e b2"
    "task_added e cn (Some ''NTP'') 1024 0 2 nt b1 b2"
    using stage_task [OF k(2), of 2 1024 4104 cn "Some ''NTP''" 0] room(2) by (simp add: block_sizes cdefs) blast
  obtain st b3 where sp: "xTaskCreate e cs (Some ''SPEECH'') 512 0 1 b2 = Some (pdPASS, Some st, b3)" "stage e (r - 7504) b3" "boot_ok e b3"
    "task_added e cs (Some ''SPEECH'') 512 0 1 st b2 b3"
    using stage_task [OF n(2), of 1 512 2056 cs "Some ''SPEECH''" 0] room(3) by (simp add: block_sizes cdefs) blast
  note live = created_queue_live [OF k(4)] created_queue_live [OF n(4)] created_queue_live [OF sp(4)]
  have mem: "memory_ok e (kern b2)" "memory_ok e (kern b3)" using n(3) sp(3) by (simp_all add: boot_ok_def)
  have run: "runnable e ck 256 1 kt b1" "runnable e cn 1024 2 nt b2" "runnable e cs 512 1 st b3" using added_runnable k(4) n(4) sp(4) by blast+
  have run2: "runnable e ck 256 1 kt b2" by (rule runnable_added [OF run(1) n(4) mem(1)])
  have run3: "runnable e ck 256 1 kt b3" "runnable e cn 1024 2 nt b3" by (rule runnable_added [OF run2 sp(4) mem(2)], rule runnable_added [OF run(2) sp(4) mem(2)])
  have "heap_live (heap (kern b1)) kt \<noteq> None" "heap_live (heap (kern b2)) kt \<noteq> None" "heap_live (heap (kern b2)) nt \<noteq> None"
    using run run2 by (simp_all add: runnable_def)
  moreover have "heap_live (heap (kern b1)) nt = None" "heap_live (heap (kern b2)) st = None" using n(4) sp(4) by (simp_all add: task_added_def)
  ultimately have d: "distinct [kt, nt, st]" by auto
  have "tcbs (kern b3) = (\<lambda>_. zero_tcb)(kt := ready_tcb 1, nt := ready_tcb 2, st := ready_tcb 1)" "queues (kern b3) = queues (kern b)"
    "uxCurrentNumberOfTasks (kern b3) = uxCurrentNumberOfTasks (kern b) + 3" "xTimerQueue b3 = xTimerQueue b"
    using k(4) n(4) sp(4) empty by (simp_all add: task_added_def stacks_kept_def)
  then show ?thesis using k(1) n(1) sp(1-3) d run(3) run3 live by blast
qed

lemma queues_created:
  assumes s: "stage e 65504 b" and fresh: "\<And>n. length (e_fresh e n) = n"
  shows "\<exists>sem tq k1 k2. xQueueGenericCreate (e_ucHeap e) [] 1 0 (kern b) = Some (sem, k1) \<and> sem \<noteq> 0
     \<and> xQueueGenericCreate (e_ucHeap e) (e_fresh e (unat sizeof_time_msg)) 1 sizeof_time_msg k1 = Some (tq, k2) \<and> tq \<noteq> 0
     \<and> stage e 65336 (b\<lparr>kern := k2\<rparr>) \<and> tcbs k2 = tcbs (kern b) \<and> uxCurrentNumberOfTasks k2 = uxCurrentNumberOfTasks (kern b)
     \<and> heap_live (heap k2) sem \<noteq> None \<and> heap_live (heap k2) tq \<noteq> None \<and> ipc sem tq 0 [] k2"
proof -
  have "\<exists>q k'. xQueueGenericCreate (e_ucHeap e) [] 1 0 (kern b) = Some (q, k') \<and> q \<noteq> 0 \<and> heap_live (heap (kern b)) q = None \<and> stage e (65504 - 80) (b\<lparr>kern := k'\<rparr>)
     \<and> queues k' = (queues (kern b))(q := new_queue 1 0 [] (queues (kern b) q)) \<and> tcbs k' = tcbs (kern b) \<and> uxCurrentNumberOfTasks k' = uxCurrentNumberOfTasks (kern b)
     \<and> (\<exists>m. heap_live (heap k') = (heap_live (heap (kern b)))(q := Some m))"
    using stage_queue [OF s, of 1 0 80 "[]"] by (simp add: block_sizes cdefs)
  then obtain sem k1 where k1: "xQueueGenericCreate (e_ucHeap e) [] 1 0 (kern b) = Some (sem, k1)" "sem \<noteq> 0" "stage e 65424 (b\<lparr>kern := k1\<rparr>)"
     "queues k1 = (queues (kern b))(sem := new_queue 1 0 [] (queues (kern b) sem))" "tcbs k1 = tcbs (kern b)"
     "uxCurrentNumberOfTasks k1 = uxCurrentNumberOfTasks (kern b)" "heap_live (heap k1) sem \<noteq> None" by auto
  have "\<exists>q k'. xQueueGenericCreate (e_ucHeap e) (e_fresh e (unat sizeof_time_msg)) 1 sizeof_time_msg (kern (b\<lparr>kern := k1\<rparr>)) = Some (q, k') \<and> q \<noteq> 0
     \<and> heap_live (heap (kern (b\<lparr>kern := k1\<rparr>))) q = None \<and> stage e (65424 - unat (88 :: u32)) (b\<lparr>kern := k1\<rparr>\<lparr>kern := k'\<rparr>)
     \<and> queues k' = (queues (kern (b\<lparr>kern := k1\<rparr>)))(q := new_queue 1 sizeof_time_msg (e_fresh e (unat sizeof_time_msg)) (queues (kern (b\<lparr>kern := k1\<rparr>)) q))
     \<and> tcbs k' = tcbs (kern (b\<lparr>kern := k1\<rparr>)) \<and> uxCurrentNumberOfTasks k' = uxCurrentNumberOfTasks (kern (b\<lparr>kern := k1\<rparr>))
     \<and> (\<exists>m. heap_live (heap k') = (heap_live (heap (kern (b\<lparr>kern := k1\<rparr>))))(q := Some m))"
    by (rule stage_queue [OF k1(3)]) (simp_all add: block_sizes cdefs)
  then obtain tq k2 where k2: "xQueueGenericCreate (e_ucHeap e) (e_fresh e (unat sizeof_time_msg)) 1 sizeof_time_msg k1 = Some (tq, k2)" "tq \<noteq> 0" "stage e 65336 (b\<lparr>kern := k2\<rparr>)"
     "heap_live (heap k1) tq = None" "queues k2 = (queues k1)(tq := new_queue 1 sizeof_time_msg (e_fresh e (unat sizeof_time_msg)) (queues k1 tq))" "tcbs k2 = tcbs k1"
     "uxCurrentNumberOfTasks k2 = uxCurrentNumberOfTasks k1" "\<exists>m. heap_live (heap k2) = (heap_live (heap k1))(tq := Some m)" by auto
  have ne: "sem \<noteq> tq" using k1(7) k2(4) by auto
  have "ipc sem tq 0 [] k2"
    using ne new_sem_holds new_box_holds [of "e_fresh e (unat sizeof_time_msg)"] fresh by (simp add: ipc_def k2(5) k1(4) cdefs)
  then show ?thesis using k1 k2 ne by (intro exI [of _ sem] exI [of _ tq] exI [of _ k1] exI [of _ k2]) auto
qed

lemma printed_text:
  assumes "uart_ready u"
  shows "\<exists>u1 u2 u3 u4. system_init u = Some u1 \<and> uart_puts (''Creating IPC primitives...'' @ crlf) u1 = Some u2 \<and> uart_puts (''Creating tasks...'' @ crlf) u2 = Some u3
     \<and> uart_puts (''Starting FreeRTOS scheduler...'' @ crlf @ crlf) u3 = Some u4 \<and> uart_tx u4 = uart_tx u @ map u32_of_char main_text \<and> uart_ctrl u4 = 3
     \<and> uart_bauddiv u4 = 217 \<and> uart_ready u4"
proof -
  have nf: "nul_free (''Creating IPC primitives...'' @ crlf)" "nul_free (''Creating tasks...'' @ crlf)" "nul_free (''Starting FreeRTOS scheduler...'' @ crlf @ crlf)"
    by (simp_all add: nul_free_def crlf_def)
  obtain u1 where u1: "system_init u = Some u1" "uart_ready u1" "uart_tx u1 = uart_tx u @ map u32_of_char (concat init_lines)" "uart_ctrl u1 = 3" "uart_bauddiv u1 = 217"
    using system_init_emits [OF assms] by blast
  obtain u2 where u2: "uart_puts (''Creating IPC primitives...'' @ crlf) u1 = Some u2" "uart_ready u2"
    "uart_tx u2 = uart_tx u1 @ map u32_of_char (''Creating IPC primitives...'' @ crlf)" "uart_ctrl u2 = uart_ctrl u1" "uart_bauddiv u2 = uart_bauddiv u1"
    using puts_step [OF u1(2) nf(1)] by blast
  obtain u3 where u3: "uart_puts (''Creating tasks...'' @ crlf) u2 = Some u3" "uart_ready u3"
    "uart_tx u3 = uart_tx u2 @ map u32_of_char (''Creating tasks...'' @ crlf)" "uart_ctrl u3 = uart_ctrl u2" "uart_bauddiv u3 = uart_bauddiv u2"
    using puts_step [OF u2(2) nf(2)] by blast
  obtain u4 where u4: "uart_puts (''Starting FreeRTOS scheduler...'' @ crlf @ crlf) u3 = Some u4" "uart_ready u4"
    "uart_tx u4 = uart_tx u3 @ map u32_of_char (''Starting FreeRTOS scheduler...'' @ crlf @ crlf)" "uart_ctrl u4 = uart_ctrl u3" "uart_bauddiv u4 = uart_bauddiv u3"
    using puts_step [OF u3(2) nf(3)] by blast
  have "uart_tx u4 = uart_tx u @ map u32_of_char main_text"
    unfolding u4(3) u3(3) u2(3) u1(3) main_text_def map_append append_assoc ..
  then show ?thesis using u1 u2 u3 u4 by (intro exI [of _ u1] exI [of _ u2] exI [of _ u3] exI [of _ u4]) (simp only: simp_thms)
qed

section \<open>Properties\<close>

text \<open>
  C4. From reset to the running clock. When the console takes characters and the interrupt
  controller has the priority bit that \<open>configMAX_SYSCALL_INTERRUPT_PRIORITY\<close> uses, \<open>main\<close> does not
  stop at an assertion and does not run out of memory: it prints its messages and starts the
  scheduler with a tick of one millisecond. Exactly five tasks exist, each ready, with its own stack
  and a first frame that enters its function; the timer task, which has the highest priority, is to
  run first. The kernel invariant holds, and the state is a start state of the clock: the semaphore
  and the queue are there and empty, and the three tasks are at the beginning of their functions.
\<close>

theorem main_starts_the_clock:
  fixes u :: app
  assumes "boot_reset b" and "0 < e_ucHeap (m_boot x)" and "\<And>n. length (e_fresh (m_boot x) n) = n" and "bit (e_implemented_priority (m_boot x)) 2" and "uart_ready u"
  shows "\<exists>sem tq u' b' kt nt st it tt. main x u b = Some (Scheduler_started, sem, tq, u', b')
     \<and> uart_tx u' = uart_tx u @ map u32_of_char main_text \<and> uart_ctrl u' = 3 \<and> uart_bauddiv u' = 217
     \<and> boot_ok (m_boot x) b' \<and> xSchedulerRunning b' \<and> systick_load b' = 24999 \<and> systick_ctrl b' = 7
     \<and> uxCurrentNumberOfTasks (kern b') = 5 \<and> distinct [kt, nt, st, it, tt] \<and> (\<forall>t. t \<notin> {kt, nt, st, it, tt} \<longrightarrow> tcbs (kern b') t = zero_tcb)
     \<and> runnable (m_boot x) (m_key_task x) 256 1 kt b' \<and> runnable (m_boot x) (m_ntp_task x) 1024 2 nt b' \<and> runnable (m_boot x) (m_speech_task x) 512 1 st b'
     \<and> runnable (m_boot x) (e_prvIdleTask (m_boot x)) 128 0 it b' \<and> runnable (m_boot x) (e_prvTimerTask (m_boot x)) 256 3 tt b'
     \<and> pxCurrentTCB (kern b') = tt \<and> clock_start (clock_at_start (kern b') u' sem tq kt nt st)"
proof -
  let ?e = "m_boot x"
  have r: "tcbs (kern b) = (\<lambda>_. zero_tcb)" "uxCurrentNumberOfTasks (kern b) = 0" "xTimerQueue b = 0" using assms(1) by (simp_all add: boot_reset_def kernel_reset_def)
  obtain u1 u2 u3 u4 where u: "system_init u = Some u1" "uart_puts (''Creating IPC primitives...'' @ crlf) u1 = Some u2" "uart_puts (''Creating tasks...'' @ crlf) u2 = Some u3"
     "uart_puts (''Starting FreeRTOS scheduler...'' @ crlf @ crlf) u3 = Some u4" "uart_tx u4 = uart_tx u @ map u32_of_char main_text" "uart_ctrl u4 = 3" "uart_bauddiv u4 = 217"
    using printed_text [OF assms(5)] by blast
  obtain sem tq k1 k2 where q: "xQueueGenericCreate (e_ucHeap ?e) [] 1 0 (kern b) = Some (sem, k1)" "sem \<noteq> 0"
     "xQueueGenericCreate (e_ucHeap ?e) (e_fresh ?e (unat sizeof_time_msg)) 1 sizeof_time_msg k1 = Some (tq, k2)" "tq \<noteq> 0"
     "stage ?e 65336 (b\<lparr>kern := k2\<rparr>)" "tcbs k2 = tcbs (kern b)" "uxCurrentNumberOfTasks k2 = uxCurrentNumberOfTasks (kern b)"
     "heap_live (heap k2) sem \<noteq> None" "heap_live (heap k2) tq \<noteq> None" "ipc sem tq 0 [] k2"
    using queues_created [OF reset_stage [OF assms(1,2)] assms(3)] by blast
  obtain kt nt st b1 b2 b3 where t: "xTaskCreate ?e (m_key_task x) (Some ''KEY'') 256 0 1 (b\<lparr>kern := k2\<rparr>) = Some (pdPASS, Some kt, b1)"
     "xTaskCreate ?e (m_ntp_task x) (Some ''NTP'') 1024 0 2 b1 = Some (pdPASS, Some nt, b2)" "xTaskCreate ?e (m_speech_task x) (Some ''SPEECH'') 512 0 1 b2 = Some (pdPASS, Some st, b3)"
     "stage ?e (65336 - 7504) b3" "boot_ok ?e b3" "distinct [kt, nt, st]" "tcbs (kern b3) = (\<lambda>_. zero_tcb)(kt := ready_tcb 1, nt := ready_tcb 2, st := ready_tcb 1)"
     "queues (kern b3) = queues (kern (b\<lparr>kern := k2\<rparr>))" "\<forall>q. heap_live (heap (kern (b\<lparr>kern := k2\<rparr>))) q \<noteq> None \<longrightarrow> heap_live (heap (kern b3)) q \<noteq> None"
     "uxCurrentNumberOfTasks (kern b3) = uxCurrentNumberOfTasks (kern (b\<lparr>kern := k2\<rparr>)) + 3" "xTimerQueue b3 = xTimerQueue (b\<lparr>kern := k2\<rparr>)"
     "runnable ?e (m_key_task x) 256 1 kt b3" "runnable ?e (m_ntp_task x) 1024 2 nt b3" "runnable ?e (m_speech_task x) 512 1 st b3"
    using tasks_created [OF q(5), of "m_key_task x" "m_ntp_task x" "m_speech_task x"] q(6) r(1) by (simp del: fun_upd_apply) blast
  obtain it tt b' where s: "vTaskStartScheduler ?e b3 = Some (True, b')" "boot_ok ?e b'" "xSchedulerRunning b'" "uxCurrentNumberOfTasks (kern b') = uxCurrentNumberOfTasks (kern b3) + 2"
     "runnable ?e (e_prvIdleTask ?e) configMINIMAL_STACK_SIZE 0 it b'" "runnable ?e (e_prvTimerTask ?e) configTIMER_TASK_STACK_DEPTH configTIMER_TASK_PRIORITY tt b'"
     "heap_live (heap (kern b3)) it = None" "heap_live (heap (kern b3)) tt = None" "it \<noteq> tt" "tcbs (kern b') = (tcbs (kern b3))(it := ready_tcb 0, tt := ready_tcb configTIMER_TASK_PRIORITY)"
     "\<forall>q. heap_live (heap (kern b3)) q \<noteq> None \<longrightarrow> queues (kern b') q = queues (kern b3) q" "\<forall>code depth prio t. runnable ?e code depth prio t b3 \<longrightarrow> runnable ?e code depth prio t b'"
     "systick_load b' = 24999" "systick_ctrl b' = 7"
    using start_scheduler [OF t(4,5) _ _ assms(4)] t(11) r(3) by (simp del: fun_upd_apply) blast
  have run: "main x u b = Some (Scheduler_started, sem, tq, u4, b')" using u(1-4) q(1-4) t(1-3) s(1) by (simp add: main_def Let_def del: uart_puts.simps)
  have live: "heap_live (heap (kern b3)) kt \<noteq> None" "heap_live (heap (kern b3)) nt \<noteq> None" "heap_live (heap (kern b3)) st \<noteq> None"
    using t(12-14) by (simp_all add: runnable_def)
  have d: "distinct [kt, nt, st, it, tt]" using t(6) s(7-9) live by auto
  have tc: "tcbs (kern b') = (\<lambda>_. zero_tcb)(kt := ready_tcb 1, nt := ready_tcb 2, st := ready_tcb 1, it := ready_tcb 0, tt := ready_tcb 3)"
    unfolding s(10) t(7) by (simp add: configTIMER_TASK_PRIORITY_def)
  have cur: "pxCurrentTCB (kern b') = tt"
  proof (rule ccontr)
    assume c: "pxCurrentTCB (kern b') \<noteq> tt"
    have "runs_highest (kern b')" using s(2) by (simp add: boot_ok_def)
    then have "3 \<le> uxPriority (tcbs (kern b') (pxCurrentTCB (kern b')))" unfolding runs_highest_def tc by (metis fun_upd_same ready_tcb_sel(2))
    then show False using c unfolding tc by (simp split: if_splits)
  qed
  have "queues (kern b') sem = queues k2 sem" "queues (kern b') tq = queues k2 tq" using s(11) t(8,9) q(8,9) by simp_all
  then have "ipc sem tq 0 [] (kern b')" using q(10) by (simp add: ipc_def)
  then have start: "clock_start (clock_at_start (kern b') u4 sem tq kt nt st)" by (simp add: clock_start_def clock_at_start_def)
  have n: "uxCurrentNumberOfTasks (kern b') = 5" using s(4) t(10) q(7) r(2) by simp
  have zero: "\<forall>t. t \<notin> {kt, nt, st, it, tt} \<longrightarrow> tcbs (kern b') t = zero_tcb" unfolding tc by simp
  have idle: "runnable ?e (e_prvIdleTask ?e) 128 0 it b'" and timer: "runnable ?e (e_prvTimerTask ?e) 256 3 tt b'" using s(5,6) by (simp_all add: cdefs)
  show ?thesis using run u(5-7) s(2,3,13,14) n d zero s(12) t(12-14) idle timer cur start by blast
qed

definition sample_main_env :: main_env where
  "sample_main_env = \<lparr>m_boot = sample_boot_env, m_key_task = 0x1001, m_ntp_task = 0x2001, m_speech_task = 0x3001\<rparr>"

theorem main_starts_the_clock_witness:
  "\<exists>sem tq u' b'. main sample_main_env sample_app zero_boot = Some (Scheduler_started, sem, tq, u', b') \<and> uxCurrentNumberOfTasks (kern b') = 5
     \<and> boot_ok sample_boot_env b'"
proof -
  have p: "boot_reset zero_boot" "0 < e_ucHeap (m_boot sample_main_env)" using zero_boot_reset by (simp_all add: sample_main_env_def)
  have f: "length (e_fresh (m_boot sample_main_env) n) = n" for n by (simp add: sample_main_env_def sample_boot_env_def)
  have b: "bit (e_implemented_priority (m_boot sample_main_env)) 2" by (simp add: sample_main_env_def sample_boot_env_def)
  from main_starts_the_clock [OF p f b sample_app_facts(1)] show ?thesis by (auto simp: sample_main_env_def)
qed

end
