(* ===== verification/Lwip_Etharp.thy ===== *)
theory Lwip_Etharp
  imports Lwip_Ethernet
begin

text \<open>
  Address resolution, \<open>lwip/src/core/ipv4/etharp.c\<close>, in the configuration of \<open>lwipopts.h\<close>: ten
  entries, at most three packets queued per pending entry, no static entries, one interface.

  The queue of an entry shares its packets with whoever sent them, so a packet is named by its
  address here: \<open>pstore\<close> gives the chain at an address, with the reference counts of \<open>Lwip_Pbuf\<close>.
  Packets at different addresses share no buffers. Queue elements come from the pool
  \<open>MEMP_ARP_QUEUE\<close>, of which the model keeps the number of free elements. The interface is an
  argument; an entry records whether it points to it.

  \<open>lwipopts.h\<close> defines \<open>LWIP_DEBUG\<close> as 0, which the \<open>#ifdef LWIP_DEBUG\<close> of \<open>etharp_free_entry\<close>
  takes for enabled: a released entry is cleared completely.
\<close>

section \<open>State\<close>

datatype etharp_state = ETHARP_STATE_EMPTY | ETHARP_STATE_PENDING | ETHARP_STATE_STABLE
  | ETHARP_STATE_STABLE_REREQUESTING_1 | ETHARP_STATE_STABLE_REREQUESTING_2

record etharp_entry =
  arp_q :: "nat list"
  e_ipaddr :: u32
  e_netif :: bool
  ethaddr :: "u8 list"
  ctime :: u16
  e_state :: etharp_state

record arp = lan +
  arp_table :: "etharp_entry list"
  etharp_cached_entry :: nat
  memp_arp_queue :: nat
  pstore :: "nat \<Rightarrow> pchain"

text \<open>What is needed besides: the lwIP heap, memory behind buffers for the driver, and the address of a new buffer.\<close>

record arp_env =
  a_malloc :: "u16 \<Rightarrow> u8 list option"
  a_after :: "pbuf \<Rightarrow> u8 list"
  a_new :: "(nat \<Rightarrow> pchain) \<Rightarrow> nat"

definition ARP_TABLE_SIZE :: nat where [cdefs]: "ARP_TABLE_SIZE = 10"
definition ARP_MAXAGE :: u16 where [cdefs]: "ARP_MAXAGE = 300"
definition ARP_MAXPENDING :: u16 where [cdefs]: "ARP_MAXPENDING = 5"
definition ARP_QUEUE_LEN :: nat where [cdefs]: "ARP_QUEUE_LEN = 3"
definition MEMP_NUM_ARP_QUEUE :: nat where [cdefs]: "MEMP_NUM_ARP_QUEUE = 8"
definition ARP_AGE_REREQUEST_USED_UNICAST :: u16 where [cdefs]: "ARP_AGE_REREQUEST_USED_UNICAST = ARP_MAXAGE - 30"
definition ARP_AGE_REREQUEST_USED_BROADCAST :: u16 where [cdefs]: "ARP_AGE_REREQUEST_USED_BROADCAST = ARP_MAXAGE - 15"
definition ETHARP_FLAG_TRY_HARD :: u8 where [cdefs]: "ETHARP_FLAG_TRY_HARD = 1"
definition ETHARP_FLAG_FIND_ONLY :: u8 where [cdefs]: "ETHARP_FLAG_FIND_ONLY = 2"
definition SIZEOF_ETHARP_HDR :: u16 where [cdefs]: "SIZEOF_ETHARP_HDR = 28"
definition ARP_REQUEST :: u16 where [cdefs]: "ARP_REQUEST = 1"
definition ARP_REPLY :: u16 where [cdefs]: "ARP_REPLY = 2"
definition LWIP_IANA_HWTYPE_ETHERNET :: u16 where [cdefs]: "LWIP_IANA_HWTYPE_ETHERNET = 1"
definition PBUF_LINK :: u16 where [cdefs]: "PBUF_LINK = 14"
definition PBUF_TYPE_FLAG_DATA_VOLATILE :: u8 where [cdefs]: "PBUF_TYPE_FLAG_DATA_VOLATILE = 0x40"
definition ethzero :: "u8 list" where "ethzero = replicate 6 0"

definition empty_entry :: etharp_entry where
  "empty_entry = \<lparr>arp_q = [], e_ipaddr = 0, e_netif = False, ethaddr = ethzero, ctime = 0, e_state = ETHARP_STATE_EMPTY\<rparr>"

definition stable :: "etharp_entry \<Rightarrow> bool" where
  "stable e \<longleftrightarrow> e_state e \<in> {ETHARP_STATE_STABLE, ETHARP_STATE_STABLE_REREQUESTING_1, ETHARP_STATE_STABLE_REREQUESTING_2}"

definition upd_entry :: "nat \<Rightarrow> (etharp_entry \<Rightarrow> etharp_entry) \<Rightarrow> 'a arp_scheme \<Rightarrow> 'a arp_scheme" where
  "upd_entry i f s = s\<lparr>arp_table := (arp_table s)[i := f (arp_table s ! i)]\<rparr>"

section \<open>Packets by address\<close>

definition free_at :: "nat \<Rightarrow> 'a arp_scheme \<Rightarrow> 'a arp_scheme option" where
  "free_at a s = do { (n, c, e) \<leftarrow> pbuf_free (pstore s a) (penv s); Some (s\<lparr>pstore := (pstore s)(a := c), penv := e\<rparr>) }"

definition ref_at :: "nat \<Rightarrow> 'a arp_scheme \<Rightarrow> 'a arp_scheme option" where
  "ref_at a s = do { c \<leftarrow> pbuf_ref (pstore s a); Some (s\<lparr>pstore := (pstore s)(a := c)\<rparr>) }"

definition output_at :: "arp_env \<Rightarrow> netif \<Rightarrow> nat \<Rightarrow> u8 list \<Rightarrow> 'a arp_scheme \<Rightarrow> (lwip_err \<times> 'a arp_scheme) option" where
  "output_at x nif a dst s =
     do { (err, c, s1) \<leftarrow> ethernet_output (a_after x) nif (pstore s a) (hwaddr nif) dst ETHTYPE_IP s;
          Some (err, s1\<lparr>pstore := (pstore s1)(a := c)\<rparr>) }"

subsection \<open>Copies\<close>

text \<open>
  The loop of \<open>pbuf_copy_partial_pbuf\<close>: \<open>before\<close> are the buffers of the target that are
  filled, \<open>to\<close> and \<open>from\<close> the rest of both chains, \<open>ot\<close> and \<open>fr\<close> the offsets in their first
  buffers.
\<close>

partial_function (option) copy_pbuf_loop :: "pchain \<Rightarrow> pchain \<Rightarrow> pchain \<Rightarrow> nat \<Rightarrow> nat \<Rightarrow> nat \<Rightarrow> (lwip_err \<times> pchain) option" where
  "copy_pbuf_loop before to from ot fr n =
     (if to = [] \<or> from = [] then None
      else let t = hd to; f = hd from;
               l = min n (min (unat (p_len f) - fr) (unat (p_len t) - ot));
               t1 = pbuf_write t ot (pbuf_read f fr l);
               n1 = n - l;
               (from1, fr1) = (if fr + l \<ge> unat (p_len f) then (tl from, 0) else (from, fr + l));
               (before1, to1, ot1) = (if ot + l = unat (p_len t) then (before @ [t1], tl to, 0) else (before, t1 # tl to, ot + l))
           in if from1 = [] \<and> n1 \<noteq> 0 \<or> to1 = [] \<and> n1 \<noteq> 0 then Some (ERR_ARG, before1 @ to1)
              else if from1 \<noteq> [] \<and> p_len (hd from1) = p_tot_len (hd from1) \<and> tl from1 \<noteq> []
                   \<or> to1 \<noteq> [] \<and> p_len (hd to1) = p_tot_len (hd to1) \<and> tl to1 \<noteq> [] then Some (ERR_VAL, before1 @ to1)
              else if n1 = 0 then Some (ERR_OK, before1 @ to1)
              else copy_pbuf_loop before1 to1 from1 ot1 fr1 n1)"

definition pbuf_copy_partial_pbuf :: "pchain \<Rightarrow> pchain \<Rightarrow> u16 \<Rightarrow> u16 \<Rightarrow> (lwip_err \<times> pchain) option" where
  "pbuf_copy_partial_pbuf to from copy_len offset =
     (if from = [] \<or> p_tot_len (hd from) < copy_len then Some (ERR_ARG, to)
      else if to = [] \<or> unat (p_tot_len (hd to)) < unat offset + unat copy_len then Some (ERR_ARG, to)
      else copy_pbuf_loop [] to from (unat offset) 0 (unat copy_len))"

definition pbuf_copy :: "pchain \<Rightarrow> pchain \<Rightarrow> (lwip_err \<times> pchain) option" where
  "pbuf_copy to from = (if from = [] then Some (ERR_ARG, to) else pbuf_copy_partial_pbuf to from (p_tot_len (hd from)) 0)"

definition pbuf_clone :: "(u16 \<Rightarrow> u8 list option) \<Rightarrow> u16 \<Rightarrow> u8 \<Rightarrow> pchain \<Rightarrow> pbuf_env \<Rightarrow> (pchain \<times> pbuf_env) option" where
  "pbuf_clone mem_malloc layer type p e =
     (if p = [] then None
      else do { (q, e1) \<leftarrow> pbuf_alloc mem_malloc layer (p_tot_len (hd p)) type e;
                if q = [] then Some ([], e1)
                else do { (err, q1) \<leftarrow> pbuf_copy q p; if err = ERR_OK then Some (q1, e1) else None } })"

definition PBUF_NEEDS_COPY :: "pbuf \<Rightarrow> bool" where
  "PBUF_NEEDS_COPY p \<longleftrightarrow> p_type p AND PBUF_TYPE_FLAG_DATA_VOLATILE \<noteq> 0"

text \<open>The search for a buffer that must be copied; a queue of packets fails an assertion.\<close>

fun copy_needed :: "pchain \<Rightarrow> bool option" where
  "copy_needed [] = Some False"
| "copy_needed (p # ps) =
     (if p_len p = p_tot_len p \<and> ps \<noteq> [] then None else if PBUF_NEEDS_COPY p then Some True else copy_needed ps)"

section \<open>Entries\<close>

fun free_etharp_q :: "nat list \<Rightarrow> 'a arp_scheme \<Rightarrow> 'a arp_scheme option" where
  "free_etharp_q [] s = Some s"
| "free_etharp_q (a # q) s = do { s1 \<leftarrow> free_at a s; free_etharp_q q (s1\<lparr>memp_arp_queue := memp_arp_queue s1 + 1\<rparr>) }"

definition etharp_free_entry :: "nat \<Rightarrow> 'a arp_scheme \<Rightarrow> 'a arp_scheme option" where
  "etharp_free_entry i s = do { s1 \<leftarrow> free_etharp_q (arp_q (arp_table s ! i)) s; Some (upd_entry i (\<lambda>_. empty_entry) s1) }"

text \<open>
  The sweep of \<open>etharp_find_entry\<close>: the index of a match, or the candidates for a new entry,
  each with its age (the first empty entry has none).
\<close>

record candidates =
  c_empty :: "nat option"
  c_stable :: "(nat \<times> u16) option"
  c_pending :: "(nat \<times> u16) option"
  c_queue :: "(nat \<times> u16) option"

definition older :: "nat \<Rightarrow> u16 \<Rightarrow> (nat \<times> u16) option \<Rightarrow> (nat \<times> u16) option" where
  "older i age c = (if age \<ge> (case c of None \<Rightarrow> 0 | Some (j, a) \<Rightarrow> a) then Some (i, age) else c)"

fun find_sweep :: "u32 option \<Rightarrow> nat \<Rightarrow> etharp_entry list \<Rightarrow> candidates \<Rightarrow> nat + candidates" where
  "find_sweep ip i [] c = Inr c"
| "find_sweep ip i (e # es) c =
     (if c_empty c = None \<and> e_state e = ETHARP_STATE_EMPTY then find_sweep ip (Suc i) es (c\<lparr>c_empty := Some i\<rparr>)
      else if e_state e \<noteq> ETHARP_STATE_EMPTY
      then if ip = Some (e_ipaddr e) then Inl i
           else find_sweep ip (Suc i) es
             (if e_state e = ETHARP_STATE_PENDING
              then if arp_q e \<noteq> [] then c\<lparr>c_queue := older i (ctime e) (c_queue c)\<rparr> else c\<lparr>c_pending := older i (ctime e) (c_pending c)\<rparr>
              else c\<lparr>c_stable := older i (ctime e) (c_stable c)\<rparr>)
      else find_sweep ip (Suc i) es c)"

definition no_candidates :: candidates where
  "no_candidates = \<lparr>c_empty = None, c_stable = None, c_pending = None, c_queue = None\<rparr>"

text \<open>The entry to recycle: a stable one must have no queued packets.\<close>

definition recycle :: "candidates \<Rightarrow> 'a arp_scheme \<Rightarrow> (nat option \<times> 'a arp_scheme) option" where
  "recycle c s =
     (case c_stable c of
        Some (i, _) \<Rightarrow> if arp_q (arp_table s ! i) \<noteq> [] then None else do { s1 \<leftarrow> etharp_free_entry i s; Some (Some i, s1) }
      | None \<Rightarrow> (case c_pending c of
          Some (i, _) \<Rightarrow> do { s1 \<leftarrow> etharp_free_entry i s; Some (Some i, s1) }
        | None \<Rightarrow> (case c_queue c of
            Some (i, _) \<Rightarrow> do { s1 \<leftarrow> etharp_free_entry i s; Some (Some i, s1) }
          | None \<Rightarrow> Some (None, s))))"

text \<open>The result is the index, \<open>None\<close> for \<open>ERR_MEM\<close>.\<close>

definition etharp_find_entry :: "u32 option \<Rightarrow> u8 \<Rightarrow> 'a arp_scheme \<Rightarrow> (nat option \<times> 'a arp_scheme) option" where
  "etharp_find_entry ip fl s =
     (case find_sweep ip 0 (arp_table s) no_candidates of
        Inl i \<Rightarrow> Some (Some i, s)
      | Inr c \<Rightarrow>
         if fl AND ETHARP_FLAG_FIND_ONLY \<noteq> 0 \<or> c_empty c = None \<and> fl AND ETHARP_FLAG_TRY_HARD = 0 then Some (None, s)
         else do { (r, s1) \<leftarrow> (case c_empty c of Some i \<Rightarrow> Some (Some i, s) | None \<Rightarrow> recycle c s);
                   (case r of None \<Rightarrow> Some (None, s1)
                    | Some i \<Rightarrow>
                       if e_state (arp_table s1 ! i) \<noteq> ETHARP_STATE_EMPTY then None
                       else Some (Some i, upd_entry i (\<lambda>e. e\<lparr>e_ipaddr := (case ip of None \<Rightarrow> e_ipaddr e | Some a \<Rightarrow> a), ctime := 0\<rparr>) s1)) })"

section \<open>Requests and replies\<close>

definition arp_packet :: "u8 list \<Rightarrow> u32 \<Rightarrow> u8 list \<Rightarrow> u32 \<Rightarrow> u16 \<Rightarrow> u8 list" where
  "arp_packet hwsrc ipsrc hwdst ipdst opcode =
     store16 (PP_HTONS LWIP_IANA_HWTYPE_ETHERNET) @ store16 (PP_HTONS ETHTYPE_IP) @ [6, 4] @ store16 (lwip_htons opcode)
     @ take 6 hwsrc @ bytes_of_word ipsrc @ take 6 hwdst @ bytes_of_word ipdst"

definition etharp_raw ::
  "arp_env \<Rightarrow> netif \<Rightarrow> u8 list \<Rightarrow> u8 list \<Rightarrow> u8 list \<Rightarrow> u32 \<Rightarrow> u8 list \<Rightarrow> u32 \<Rightarrow> u16 \<Rightarrow> 'a lan_scheme \<Rightarrow> (lwip_err \<times> 'a lan_scheme) option" where
  "etharp_raw x nif ethsrc ethdst hwsrc ipsrc hwdst ipdst opcode s =
     do { (p, e) \<leftarrow> pbuf_alloc (a_malloc x) PBUF_LINK SIZEOF_ETHARP_HDR PBUF_RAM (penv s);
          if p = [] then Some (ERR_MEM, s\<lparr>penv := e\<rparr>)
          else if p_len (hd p) < SIZEOF_ETHARP_HDR \<or> hwaddr_len nif \<noteq> 6 then None
          else let p1 = pbuf_write (hd p) 0 (arp_packet hwsrc ipsrc hwdst ipdst opcode) # tl p in
               do { (err, p2, s1) \<leftarrow> ethernet_output (a_after x) nif p1 ethsrc ethdst ETHTYPE_ARP (s\<lparr>penv := e\<rparr>);
                    (n, c, e1) \<leftarrow> pbuf_free p2 (penv s1);
                    Some (ERR_OK, s1\<lparr>penv := e1\<rparr>) } }"

definition etharp_request_dst :: "arp_env \<Rightarrow> netif \<Rightarrow> u32 \<Rightarrow> u8 list \<Rightarrow> 'a lan_scheme \<Rightarrow> (lwip_err \<times> 'a lan_scheme) option" where
  "etharp_request_dst x nif ip dst = etharp_raw x nif (hwaddr nif) dst (hwaddr nif) (ip_addr nif) ethzero ip ARP_REQUEST"

definition etharp_request :: "arp_env \<Rightarrow> netif \<Rightarrow> u32 \<Rightarrow> 'a lan_scheme \<Rightarrow> (lwip_err \<times> 'a lan_scheme) option" where
  "etharp_request x nif ip = etharp_request_dst x nif ip ethbroadcast"

definition etharp_gratuitous :: "arp_env \<Rightarrow> netif \<Rightarrow> 'a lan_scheme \<Rightarrow> (lwip_err \<times> 'a lan_scheme) option" where
  "etharp_gratuitous x nif = etharp_request x nif (ip_addr nif)"

section \<open>The timer\<close>

definition tmr_entry :: "arp_env \<Rightarrow> netif \<Rightarrow> nat \<Rightarrow> 'a arp_scheme \<Rightarrow> 'a arp_scheme option" where
  "tmr_entry x nif i s =
     (if e_state (arp_table s ! i) = ETHARP_STATE_EMPTY then Some s
      else let s1 = upd_entry i (\<lambda>e. e\<lparr>ctime := ctime e + 1\<rparr>) s; e = arp_table s1 ! i in
           if ctime e \<ge> ARP_MAXAGE \<or> e_state e = ETHARP_STATE_PENDING \<and> ctime e \<ge> ARP_MAXPENDING then etharp_free_entry i s1
           else if e_state e = ETHARP_STATE_STABLE_REREQUESTING_1 then Some (upd_entry i (\<lambda>e. e\<lparr>e_state := ETHARP_STATE_STABLE_REREQUESTING_2\<rparr>) s1)
           else if e_state e = ETHARP_STATE_STABLE_REREQUESTING_2 then Some (upd_entry i (\<lambda>e. e\<lparr>e_state := ETHARP_STATE_STABLE\<rparr>) s1)
           else if e_state e = ETHARP_STATE_PENDING
           then if \<not> e_netif e then None else do { (err, s2) \<leftarrow> etharp_request x nif (e_ipaddr e) s1; Some s2 }
           else Some s1)"

fun tmr_loop :: "arp_env \<Rightarrow> netif \<Rightarrow> nat list \<Rightarrow> 'a arp_scheme \<Rightarrow> 'a arp_scheme option" where
  "tmr_loop x nif [] s = Some s"
| "tmr_loop x nif (i # js) s = do { s1 \<leftarrow> tmr_entry x nif i s; tmr_loop x nif js s1 }"

definition etharp_tmr :: "arp_env \<Rightarrow> netif \<Rightarrow> 'a arp_scheme \<Rightarrow> 'a arp_scheme option" where
  "etharp_tmr x nif s = tmr_loop x nif [0..<ARP_TABLE_SIZE] s"

fun cleanup_loop :: "nat list \<Rightarrow> 'a arp_scheme \<Rightarrow> 'a arp_scheme option" where
  "cleanup_loop [] s = Some s"
| "cleanup_loop (i # js) s =
     do { s1 \<leftarrow> (if e_state (arp_table s ! i) \<noteq> ETHARP_STATE_EMPTY \<and> e_netif (arp_table s ! i) then etharp_free_entry i s else Some s);
          cleanup_loop js s1 }"

definition etharp_cleanup_netif :: "'a arp_scheme \<Rightarrow> 'a arp_scheme option" where
  "etharp_cleanup_netif s = cleanup_loop [0..<ARP_TABLE_SIZE] s"

section \<open>Resolution\<close>

text \<open>An address that cannot have an entry.\<close>

definition not_unicast :: "netif \<Rightarrow> u32 \<Rightarrow> bool" where
  "not_unicast nif ip \<longleftrightarrow> ip = IPADDR_ANY \<or> ip4_addr_isbroadcast_u32 ip nif \<noteq> 0 \<or> ip4_addr_ismulticast ip"

text \<open>The loop that sends the queued packets of a resolved entry.\<close>

function send_queue :: "arp_env \<Rightarrow> netif \<Rightarrow> nat \<Rightarrow> u8 list \<Rightarrow> nat list \<Rightarrow> 'a arp_scheme \<Rightarrow> 'a arp_scheme option" where
  "send_queue x nif i dst [] s = Some s"
| "send_queue x nif i dst (a # q) s =
     do { (err, s1) \<leftarrow> output_at x nif a dst (upd_entry i (\<lambda>e. e\<lparr>arp_q := q\<rparr>) (s\<lparr>memp_arp_queue := memp_arp_queue s + 1\<rparr>));
          s2 \<leftarrow> free_at a s1;
          send_queue x nif i dst q s2 }"
  by pat_completeness auto
termination by (relation "measure (\<lambda>(x, nif, i, dst, q, s). length q)") auto

definition etharp_update_arp_entry :: "arp_env \<Rightarrow> netif \<Rightarrow> u32 \<Rightarrow> u8 list \<Rightarrow> u8 \<Rightarrow> 'a arp_scheme \<Rightarrow> (lwip_err \<times> 'a arp_scheme) option" where
  "etharp_update_arp_entry x nif ip eth fl s =
     (if hwaddr_len nif \<noteq> 6 then None
      else if not_unicast nif ip then Some (ERR_ARG, s)
      else do { (r, s1) \<leftarrow> etharp_find_entry (Some ip) fl s;
                (case r of None \<Rightarrow> Some (ERR_MEM, s1)
                 | Some i \<Rightarrow>
                    let s2 = upd_entry i (\<lambda>e. e\<lparr>e_state := ETHARP_STATE_STABLE, e_netif := True, ethaddr := take 6 eth, ctime := 0\<rparr>) s1 in
                    do { s3 \<leftarrow> send_queue x nif i (take 6 eth) (arp_q (arp_table s2 ! i)) s2; Some (ERR_OK, s3) }) })"

definition etharp_find_addr :: "u32 \<Rightarrow> 'a arp_scheme \<Rightarrow> ((nat \<times> u8 list \<times> u32) option \<times> 'a arp_scheme) option" where
  "etharp_find_addr ip s =
     do { (r, s1) \<leftarrow> etharp_find_entry (Some ip) ETHARP_FLAG_FIND_ONLY s;
          Some (case r of None \<Rightarrow> None
                | Some i \<Rightarrow> let e = arp_table s1 ! i in if stable e then Some (i, ethaddr e, e_ipaddr e) else None, s1) }"

definition etharp_get_entry :: "nat \<Rightarrow> 'a arp_scheme \<Rightarrow> (u32 \<times> bool \<times> u8 list) option" where
  "etharp_get_entry i s =
     (let e = arp_table s ! i in if i < ARP_TABLE_SIZE \<and> stable e then Some (e_ipaddr e, e_netif e, ethaddr e) else None)"

definition etharp_input :: "arp_env \<Rightarrow> pchain \<Rightarrow> netif \<Rightarrow> 'a arp_scheme \<Rightarrow> 'a arp_scheme option" where
  "etharp_input x p nif s =
     (case p of [] \<Rightarrow> None
      | h # _ \<Rightarrow>
         if get16 h 0 \<noteq> PP_HTONS LWIP_IANA_HWTYPE_ETHERNET \<or> get8 h 4 \<noteq> 6 \<or> get8 h 5 \<noteq> 4 \<or> get16 h 2 \<noteq> PP_HTONS ETHTYPE_IP
         then ip4_drop p s
         else let sipaddr = get32 h 14; dipaddr = get32 h 24; shwaddr = pbuf_read h 8 6;
                  for_us = (ip_addr nif \<noteq> IPADDR_ANY \<and> dipaddr = ip_addr nif);
                  from_us = (ip_addr nif \<noteq> IPADDR_ANY \<and> sipaddr = ip_addr nif)
              in do { (err, s1) \<leftarrow> etharp_update_arp_entry x nif sipaddr shwaddr (if for_us then ETHARP_FLAG_TRY_HARD else ETHARP_FLAG_FIND_ONLY) s;
                      s2 \<leftarrow> (if get16 h 6 = PP_HTONS ARP_REQUEST \<and> for_us \<and> \<not> from_us
                             then do { (r, u) \<leftarrow> etharp_raw x nif (hwaddr nif) shwaddr (hwaddr nif) (ip_addr nif) shwaddr sipaddr ARP_REPLY s1; Some u }
                             else Some s1);
                      ip4_drop p s2 })"

section \<open>Output\<close>

definition etharp_output_to_arp_index :: "arp_env \<Rightarrow> netif \<Rightarrow> nat \<Rightarrow> nat \<Rightarrow> 'a arp_scheme \<Rightarrow> (lwip_err \<times> 'a arp_scheme) option" where
  "etharp_output_to_arp_index x nif a i s =
     (let e = arp_table s ! i in
      if \<not> stable e then None
      else do { s1 \<leftarrow> (if e_state e = ETHARP_STATE_STABLE
                       then if ctime e \<ge> ARP_AGE_REREQUEST_USED_BROADCAST
                            then do { (err, u) \<leftarrow> etharp_request x nif (e_ipaddr e) s;
                                      Some (if err = ERR_OK then upd_entry i (\<lambda>e. e\<lparr>e_state := ETHARP_STATE_STABLE_REREQUESTING_1\<rparr>) u else u) }
                            else if ctime e \<ge> ARP_AGE_REREQUEST_USED_UNICAST
                            then do { (err, u) \<leftarrow> etharp_request_dst x nif (e_ipaddr e) (ethaddr e) s;
                                      Some (if err = ERR_OK then upd_entry i (\<lambda>e. e\<lparr>e_state := ETHARP_STATE_STABLE_REREQUESTING_1\<rparr>) u else u) }
                            else Some s
                       else Some s);
                output_at x nif a (ethaddr (arp_table s1 ! i)) s1 })"

text \<open>Taking a packet over into a queue: a reference, or a copy at a new address.\<close>

definition take_over :: "arp_env \<Rightarrow> nat \<Rightarrow> 'a arp_scheme \<Rightarrow> (nat option \<times> 'a arp_scheme) option" where
  "take_over x a s =
     do { copy \<leftarrow> copy_needed (pstore s a);
          if copy
          then do { (c, e) \<leftarrow> pbuf_clone (a_malloc x) PBUF_LINK PBUF_RAM (pstore s a) (penv s);
                    Some (if c = [] then (None, s\<lparr>penv := e\<rparr>)
                          else let b = a_new x (pstore s) in (Some b, s\<lparr>penv := e, pstore := (pstore s)(b := c)\<rparr>)) }
          else do { s1 \<leftarrow> ref_at a s; Some (Some a, s1) } }"

definition enqueue :: "nat \<Rightarrow> nat \<Rightarrow> 'a arp_scheme \<Rightarrow> (lwip_err \<times> 'a arp_scheme) option" where
  "enqueue i b s =
     (if memp_arp_queue s = 0 then do { s1 \<leftarrow> free_at b s; Some (ERR_MEM, s1) }
      else let qlen = length (arp_q (arp_table s ! i));
               s1 = upd_entry i (\<lambda>e. e\<lparr>arp_q := arp_q e @ [b]\<rparr>) (s\<lparr>memp_arp_queue := memp_arp_queue s - 1\<rparr>)
           in if qlen \<ge> ARP_QUEUE_LEN
              then do { s2 \<leftarrow> free_at (hd (arp_q (arp_table s1 ! i))) (upd_entry i (\<lambda>e. e\<lparr>arp_q := tl (arp_q e)\<rparr>) s1);
                        Some (ERR_OK, s2\<lparr>memp_arp_queue := memp_arp_queue s2 + 1\<rparr>) }
              else Some (ERR_OK, s1))"

definition etharp_query :: "arp_env \<Rightarrow> netif \<Rightarrow> u32 \<Rightarrow> nat option \<Rightarrow> 'a arp_scheme \<Rightarrow> (lwip_err \<times> 'a arp_scheme) option" where
  "etharp_query x nif ip q s =
     (if not_unicast nif ip then Some (ERR_ARG, s)
      else do { (r, s1) \<leftarrow> etharp_find_entry (Some ip) ETHARP_FLAG_TRY_HARD s;
                (case r of None \<Rightarrow> Some (ERR_MEM, s1)
                 | Some i \<Rightarrow>
                    let is_new = (e_state (arp_table s1 ! i) = ETHARP_STATE_EMPTY);
                        s2 = (if is_new then upd_entry i (\<lambda>e. e\<lparr>e_state := ETHARP_STATE_PENDING, e_netif := True\<rparr>) s1 else s1)
                    in do { (result, s3) \<leftarrow>
                              (if is_new \<or> q = None
                               then do { (err, u) \<leftarrow> etharp_request x nif ip s2;
                                         Some (err, if err = ERR_OK \<and> e_state (arp_table u ! i) = ETHARP_STATE_PENDING \<and> \<not> is_new
                                                    then upd_entry i (\<lambda>e. e\<lparr>ctime := 0\<rparr>) u else u) }
                               else Some (ERR_MEM, s2));
                            (case q of None \<Rightarrow> Some (result, s3)
                             | Some a \<Rightarrow>
                                if stable (arp_table s3 ! i)
                                then output_at x nif a (ethaddr (arp_table s3 ! i)) (s3\<lparr>etharp_cached_entry := i\<rparr>)
                                else do { (b, s4) \<leftarrow> take_over x a s3;
                                          (case b of None \<Rightarrow> Some (ERR_MEM, s4) | Some b \<Rightarrow> enqueue i b s4) }) }) })"

definition ip4_addr_islinklocal :: "u32 \<Rightarrow> bool" where
  "ip4_addr_islinklocal a \<longleftrightarrow> a AND PP_HTONL 0xFFFF0000 = PP_HTONL 0xA9FE0000"

definition multicast_mac :: "u32 \<Rightarrow> u8 list" where
  "multicast_mac ip = [0x01, 0x00, 0x5E, ucast (drop_bit 8 ip) AND 0x7F, ucast (drop_bit 16 ip), ucast (drop_bit 24 ip)]"

fun find_stable :: "u32 \<Rightarrow> nat \<Rightarrow> etharp_entry list \<Rightarrow> nat option" where
  "find_stable ip i [] = None"
| "find_stable ip i (e # es) = (if stable e \<and> ip = e_ipaddr e then Some i else find_stable ip (Suc i) es)"

text \<open>The next hop: the destination itself, or the gateway; \<open>None\<close> when there is none.\<close>

definition next_hop :: "netif \<Rightarrow> u32 \<Rightarrow> u32 option" where
  "next_hop nif ip =
     (if \<not> ip4_addr_net_eq ip (ip_addr nif) (netmask nif) \<and> \<not> ip4_addr_islinklocal ip
      then if gw nif \<noteq> IPADDR_ANY then Some (gw nif) else None
      else Some ip)"

definition etharp_output :: "arp_env \<Rightarrow> netif \<Rightarrow> nat \<Rightarrow> u32 \<Rightarrow> 'a arp_scheme \<Rightarrow> (lwip_err \<times> 'a arp_scheme) option" where
  "etharp_output x nif a ip s =
     (if ip4_addr_isbroadcast_u32 ip nif \<noteq> 0 then output_at x nif a ethbroadcast s
      else if ip4_addr_ismulticast ip then output_at x nif a (multicast_mac ip) s
      else case next_hop nif ip of
             None \<Rightarrow> Some (ERR_RTE, s)
           | Some dst \<Rightarrow>
               let c = arp_table s ! etharp_cached_entry s in
               if stable c \<and> dst = e_ipaddr c then etharp_output_to_arp_index x nif a (etharp_cached_entry s) s
               else case find_stable dst 0 (arp_table s) of
                      Some i \<Rightarrow> etharp_output_to_arp_index x nif a i (s\<lparr>etharp_cached_entry := i\<rparr>)
                    | None \<Rightarrow> etharp_query x nif dst (Some a) s)"

end
