(* ===== verification/Lwip_Etharp_Proofs.thy ===== *)
theory Lwip_Etharp_Proofs
  imports Lwip_Etharp "HOL-Library.Multiset"
begin

text \<open>
  Proofs about \<open>Lwip_Etharp\<close>. An invariant of the table, the queue elements and the reference
  counts of queued packets, under which no operation runs into an assertion or loses a buffer;
  the address learned from a packet is the one the next packet is sent to; how long entries live.
\<close>

section \<open>What sending changes\<close>

lemma tx_words_upd: "tx_words after q i n s = s\<lparr>reg_out := reg_out s @ map (\<lambda>j. (TX_DATA_FIFO, load32 after q j)) [i..<i + n]\<rparr>"
proof (induction n arbitrary: i s)
  case (Suc n)
  show ?case unfolding tx_words.simps Suc by (simp add: REG_set_def upt_conv_Cons del: upt_Suc)
qed simp

lemma tx_chain_upd: "\<exists>r. tx_chain after c s = s\<lparr>reg_out := r\<rparr>"
proof (induction c arbitrary: s)
  case Nil
  show ?case by (rule exI [of _ "reg_out s"]) simp
next
  case (Cons q c)
  obtain r where "tx_chain after c (tx_words after q 0 ((unat (p_len q) + 3) div 4) s) = tx_words after q 0 ((unat (p_len q) + 3) div 4) s\<lparr>reg_out := r\<rparr>"
    using Cons by blast
  then show ?case unfolding tx_chain.simps tx_words_upd by auto
qed

lemma linkoutput_upd: "\<exists>r. lan9118_linkoutput after (h # t) s = Some (ERR_OK, s\<lparr>reg_out := r\<rparr>)"
  using tx_chain_upd [of after "h # t" "s\<lparr>reg_out := r\<rparr>" for r] unfolding lan9118_linkoutput_def REG_set_def Let_def list.case by force

text \<open>What a header and its bytes leave of a pbuf: how it is shared and freed.\<close>

definition same_ref :: "pchain \<Rightarrow> pchain \<Rightarrow> bool" where
  "same_ref c d \<longleftrightarrow> map (\<lambda>p. (p_ref p, p_type p, p_flags p, p_len p = p_tot_len p)) c
     = map (\<lambda>p. (p_ref p, p_type p, p_flags p, p_len p = p_tot_len p)) d"

lemma add_header_ref: "pbuf_add_header h n = (r, h') \<Longrightarrow> p_ref h' = p_ref h \<and> p_type h' = p_type h \<and> p_flags h' = p_flags h
    \<and> (p_len h' = p_tot_len h' \<longleftrightarrow> p_len h = p_tot_len h)"
  by (auto simp: pbuf_add_header_def pbuf_add_header_impl_def Let_def split: if_splits)

lemma write_ref: "p_ref (pbuf_write h i bs) = p_ref h" "p_type (pbuf_write h i bs) = p_type h" "p_flags (pbuf_write h i bs) = p_flags h"
  by (simp_all add: pbuf_write_def Let_def)

lemma live_cong: "p_ref p = p_ref q \<and> p_type p = p_type q \<and> p_flags p = p_flags q \<Longrightarrow> pbuf_live p = pbuf_live q"
  by (simp add: pbuf_live_def pbuf_get_allocsrc_def)

lemma same_ref_live: "same_ref c d \<Longrightarrow> list_all pbuf_live c = list_all pbuf_live d"
proof (induction c arbitrary: d)
  case (Cons p c)
  then obtain q e where "d = q # e" by (cases d) (auto simp: same_ref_def)
  then show ?case using Cons live_cong [of p q] by (simp add: same_ref_def)
qed (simp add: same_ref_def)

lemma same_ref_copy: "same_ref c d \<Longrightarrow> copy_needed c = copy_needed d"
proof (induction c arbitrary: d)
  case (Cons p c)
  then obtain q e where d: "d = q # e" by (cases d) (auto simp: same_ref_def)
  then have "c = [] \<longleftrightarrow> e = []" using Cons.prems by (auto simp: same_ref_def)
  then show ?case using Cons d by (simp add: same_ref_def PBUF_NEEDS_COPY_def)
qed (simp add: same_ref_def)

lemma copy_needed_ref [simp]: "copy_needed (h\<lparr>p_ref := r\<rparr> # t) = copy_needed (h # t)"
  by (simp add: PBUF_NEEDS_COPY_def)

lemma same_ref_hd: "same_ref c d \<Longrightarrow> (c = []) = (d = [])" "same_ref c d \<Longrightarrow> c \<noteq> [] \<Longrightarrow> p_ref (hd c) = p_ref (hd d)"
  by (auto simp: same_ref_def neq_Nil_conv)

lemma ethernet_output_upd:
  assumes "hwaddr_len nif = 6" and "p \<noteq> []"
  shows "\<exists>err q r. ethernet_output after nif p src dst ty s = Some (err, q, s\<lparr>reg_out := r\<rparr>) \<and> same_ref q p"
proof -
  obtain h t where p: "p = h # t" using assms(2) by (cases p) auto
  obtain r h1 where h1: "pbuf_add_header h (ucast SIZEOF_ETH_HDR) = (r, h1)" by (cases "pbuf_add_header h (ucast SIZEOF_ETH_HDR)") auto
  let ?w = "pbuf_write (pbuf_write (pbuf_write h1 12 (store16 (lwip_htons ty))) 0 (take 6 dst)) 6 (take 6 src)"
  show ?thesis
  proof (cases "r = 0")
    case True
    obtain o' where "lan9118_linkoutput after (?w # t) s = Some (ERR_OK, s\<lparr>reg_out := o'\<rparr>)" using linkoutput_upd by blast
    then have "ethernet_output after nif p src dst ty s = Some (ERR_OK, ?w # t, s\<lparr>reg_out := o'\<rparr>)"
      using assms(1) h1 True by (simp add: ethernet_output_def p)
    moreover have "same_ref (?w # t) p" using add_header_ref [OF h1] by (simp add: same_ref_def p write_ref)
    ultimately show ?thesis by blast
  next
    case False
    then have "ethernet_output after nif p src dst ty s = Some (ERR_BUF, p, s\<lparr>reg_out := reg_out s\<rparr>)"
      using h1 by (simp add: ethernet_output_def p)
    moreover have "same_ref p p" by (simp add: same_ref_def)
    ultimately show ?thesis by blast
  qed
qed

lemma etharp_raw_upd:
  assumes "hwaddr_len nif = 6"
  shows "\<exists>err r e. etharp_raw x nif es ed hs is' hd' id' opc s = Some (err, s\<lparr>reg_out := r, penv := e\<rparr>)"
proof (cases "a_malloc x 60")
  case None
  then have "etharp_raw x nif es ed hs is' hd' id' opc s = Some (ERR_MEM, s\<lparr>reg_out := reg_out s, penv := penv s\<rparr>)"
    by (simp add: etharp_raw_def pbuf_alloc_def cdefs LWIP_MEM_ALIGN_SIZE_def)
  then show ?thesis by blast
next
  case (Some m)
  let ?p = "pbuf_init_alloced_pbuf m 16 28 28 PBUF_RAM 0"
  let ?w = "pbuf_write ?p 0 (arp_packet hs is' hd' id' opc)"
  obtain err q r where o: "ethernet_output (a_after x) nif [?w] es ed ETHTYPE_ARP s = Some (err, q, s\<lparr>reg_out := r\<rparr>)" "same_ref q [?w]"
    using ethernet_output_upd [OF assms] by blast
  have "list_all pbuf_live [?w]" by (simp add: pbuf_live_def pbuf_get_allocsrc_def write_ref pbuf_init_alloced_pbuf_def cdefs)
  then obtain n c e where "pbuf_free q (penv s) = Some (n, c, e)"
    using free_loop_returns [of q 0 "penv s"] same_ref_live [OF o(2)] same_ref_hd(1) [OF o(2)] by (auto simp: pbuf_free_def)
  moreover have "pbuf_alloc (a_malloc x) PBUF_LINK SIZEOF_ETHARP_HDR PBUF_RAM (penv s) = Some ([?p], penv s)"
    using Some by (simp add: pbuf_alloc_def cdefs LWIP_MEM_ALIGN_SIZE_def)
  moreover have "\<not> p_len ?p < SIZEOF_ETHARP_HDR" by (simp add: pbuf_init_alloced_pbuf_def cdefs)
  ultimately have "etharp_raw x nif es ed hs is' hd' id' opc s = Some (ERR_OK, s\<lparr>reg_out := r, penv := e\<rparr>)"
    using o(1) assms by (simp add: etharp_raw_def)
  then show ?thesis by blast
qed

lemma etharp_request_upd:
  assumes "hwaddr_len nif = 6"
  shows "\<exists>err r e. etharp_request_dst x nif ip dst s = Some (err, s\<lparr>reg_out := r, penv := e\<rparr>)"
    "\<exists>err r e. etharp_request x nif ip s = Some (err, s\<lparr>reg_out := r, penv := e\<rparr>)"
  using etharp_raw_upd [OF assms] by (auto simp: etharp_request_def etharp_request_dst_def)

section \<open>References\<close>

text \<open>
  \<open>M\<close> is the multiset of the references to packets that queues and callers hold: the count in
  the first pbuf of a packet is exactly the number of them, and none of its buffers must be copied
  to keep it.
\<close>

definition accounted :: "nat multiset \<Rightarrow> (nat \<Rightarrow> pchain) \<Rightarrow> bool" where
  "accounted M st \<longleftrightarrow> (\<forall>a\<in>#M. st a \<noteq> [] \<and> list_all pbuf_live (st a) \<and> unat (p_ref (hd (st a))) = count M a
     \<and> copy_needed (st a) = Some False)"

lemma accounted_upd:
  assumes "accounted M st" and "\<forall>b. b \<noteq> a \<longrightarrow> count N b = count M b"
    and "a \<in># N \<Longrightarrow> c \<noteq> [] \<and> list_all pbuf_live c \<and> unat (p_ref (hd c)) = count N a \<and> copy_needed c = Some False"
  shows "accounted N (st(a := c))"
  unfolding accounted_def
proof
  fix b assume "b \<in># N"
  then have "b \<noteq> a \<Longrightarrow> b \<in># M" using assms(2) by (metis count_greater_zero_iff)
  then show "(st(a := c)) b \<noteq> [] \<and> list_all pbuf_live ((st(a := c)) b) \<and> unat (p_ref (hd ((st(a := c)) b))) = count N b \<and> copy_needed ((st(a := c)) b) = Some False"
    using assms \<open>b \<in># N\<close> by (cases "b = a") (auto simp: accounted_def)
qed

lemma free_at_ok:
  assumes "accounted (add_mset a M) (pstore s)"
  shows "\<exists>c e. free_at a s = Some (s\<lparr>pstore := (pstore s)(a := c), penv := e\<rparr>) \<and> accounted M ((pstore s)(a := c))"
proof -
  obtain h t where c: "pstore s a = h # t" using assms by (cases "pstore s a") (auto simp: accounted_def)
  have h: "pbuf_live h" "list_all pbuf_live t" "unat (p_ref h) = Suc (count M a)" "copy_needed (h # t) = Some False" using assms by (auto simp: accounted_def c)
  have nz: "p_ref h \<noteq> 0" using h(3) by auto
  have dec: "unat (p_ref h - 1) = count M a" using h(3) nz by (simp add: unat_minus_one)
  obtain n c' e where f: "pbuf_free (pstore s a) (penv s) = Some (n, c', e)"
    using free_loop_returns [of "h # t" 0 "penv s"] h by (auto simp: pbuf_free_def c)
  have nz1: "p_ref h - 1 \<noteq> 0" if "count M a \<noteq> 0" using dec that by (metis unat_0)
  have "c' = h\<lparr>p_ref := p_ref h - 1\<rparr> # t" if "count M a \<noteq> 0"
    using f nz nz1 [OF that] by (simp add: pbuf_free_def c Let_def)
  moreover have "pbuf_live (h\<lparr>p_ref := p_ref h - 1\<rparr>)" if "count M a \<noteq> 0"
    using h(1) nz1 [OF that] by (auto simp: pbuf_live_def pbuf_get_allocsrc_def)
  ultimately have "accounted M ((pstore s)(a := c'))"
    using accounted_upd [OF assms, of a M c'] h(2,4) dec by (auto simp flip: count_eq_zero_iff simp del: copy_needed.simps)
  moreover have "free_at a s = Some (s\<lparr>pstore := (pstore s)(a := c'), penv := e\<rparr>)" using f by (simp add: free_at_def)
  ultimately show ?thesis by blast
qed

lemma ref_at_ok:
  assumes "accounted M (pstore s)" and "a \<in># M" and "count M a < 255"
  shows "\<exists>c. ref_at a s = Some (s\<lparr>pstore := (pstore s)(a := c)\<rparr>) \<and> accounted (add_mset a M) ((pstore s)(a := c))"
proof -
  obtain h t where c: "pstore s a = h # t" using assms by (cases "pstore s a") (auto simp: accounted_def)
  have h: "pbuf_live h" "list_all pbuf_live t" "unat (p_ref h) = count M a" "copy_needed (h # t) = Some False"
    using bspec [OF assms(1) [unfolded accounted_def] assms(2)] by (simp_all add: c del: copy_needed.simps)
  have inc: "unat (p_ref h + 1) = Suc (count M a)" using h(3) assms(3) by (simp add: unat_word_ariths)
  then have nz: "p_ref h + 1 > 0" by (metis unat_gt_0 word_gt_0 zero_less_Suc)
  let ?c = "h\<lparr>p_ref := p_ref h + 1\<rparr> # t"
  have "pbuf_live (h\<lparr>p_ref := p_ref h + 1\<rparr>)" using h(1) nz by (auto simp: pbuf_live_def pbuf_get_allocsrc_def)
  then have "accounted (add_mset a M) ((pstore s)(a := ?c))"
    using accounted_upd [OF assms(1), of a "add_mset a M" ?c] h(2,4) inc by (simp del: copy_needed.simps)
  moreover have "ref_at a s = Some (s\<lparr>pstore := (pstore s)(a := ?c)\<rparr>)" using nz by (simp add: ref_at_def pbuf_ref_def c)
  ultimately show ?thesis by blast
qed

lemma output_at_ok:
  assumes "hwaddr_len nif = 6" and "accounted M (pstore s)" and "a \<in># M"
  shows "\<exists>err r c. output_at x nif a dst s = Some (err, s\<lparr>reg_out := r, pstore := (pstore s)(a := c)\<rparr>) \<and> accounted M ((pstore s)(a := c))"
proof -
  have a: "pstore s a \<noteq> []" "list_all pbuf_live (pstore s a)" "unat (p_ref (hd (pstore s a))) = count M a" "copy_needed (pstore s a) = Some False" using assms(2,3) by (auto simp: accounted_def)
  obtain err c r where o: "ethernet_output (a_after x) nif (pstore s a) (hwaddr nif) dst ETHTYPE_IP s = Some (err, c, s\<lparr>reg_out := r\<rparr>)" "same_ref c (pstore s a)"
    using ethernet_output_upd [OF assms(1) a(1)] by blast
  have "accounted M ((pstore s)(a := c))"
    using accounted_upd [OF assms(2), of a M c] a same_ref_hd [OF o(2)] same_ref_live [OF o(2)] same_ref_copy [OF o(2)] by auto
  moreover have "output_at x nif a dst s = Some (err, s\<lparr>reg_out := r, pstore := (pstore s)(a := c)\<rparr>)" using o(1) by (simp add: output_at_def)
  ultimately show ?thesis by blast
qed

lemma output_at_keeps:
  assumes "hwaddr_len nif = 6" and "accounted M (pstore s)" and "a \<in># M" and "output_at x nif a dst s = Some (err, s')"
  shows "accounted M (pstore s')"
  using output_at_ok [OF assms(1-3), of x dst] assms(4) by auto

lemma free_q_ok:
  assumes "accounted (mset q + M) (pstore s)"
  shows "\<exists>st e. free_etharp_q q s = Some (s\<lparr>pstore := st, penv := e, memp_arp_queue := memp_arp_queue s + length q\<rparr>) \<and> accounted M st"
  using assms
proof (induction q arbitrary: s)
  case Nil
  have "free_etharp_q [] s = Some (s\<lparr>pstore := pstore s, penv := penv s, memp_arp_queue := memp_arp_queue s + length []\<rparr>)" by simp
  then show ?case using Nil by (intro exI [of _ "pstore s"] exI [of _ "penv s"]) simp
next
  case (Cons a q)
  obtain c e where f: "free_at a s = Some (s\<lparr>pstore := (pstore s)(a := c), penv := e\<rparr>)" "accounted (mset q + M) ((pstore s)(a := c))"
    using free_at_ok [of a "mset q + M" s] Cons.prems by auto
  let ?s = "s\<lparr>pstore := (pstore s)(a := c), penv := e, memp_arp_queue := memp_arp_queue s + 1\<rparr>"
  obtain st e' where "free_etharp_q q ?s = Some (?s\<lparr>pstore := st, penv := e', memp_arp_queue := memp_arp_queue ?s + length q\<rparr>)" "accounted M st"
    using Cons.IH [of ?s] f(2) by (simp del: fun_upd_apply) blast
  then show ?case using f(1) by auto
qed

section \<open>The table\<close>

definition used :: "etharp_entry \<Rightarrow> bool" where
  "used e \<longleftrightarrow> e_state e \<noteq> ETHARP_STATE_EMPTY"

definition entry_ok :: "etharp_entry \<Rightarrow> bool" where
  "entry_ok e \<longleftrightarrow> (arp_q e \<noteq> [] \<longrightarrow> e_state e = ETHARP_STATE_PENDING) \<and> length (arp_q e) \<le> ARP_QUEUE_LEN
     \<and> length (ethaddr e) = 6 \<and> (used e \<longrightarrow> e_netif e)
     \<and> ctime e < (if e_state e = ETHARP_STATE_PENDING then ARP_MAXPENDING else ARP_MAXAGE)"

definition table_ok :: "etharp_entry list \<Rightarrow> bool" where
  "table_ok t \<longleftrightarrow> length t = ARP_TABLE_SIZE \<and> list_all entry_ok t
     \<and> (\<forall>i<length t. \<forall>j<length t. used (t ! i) \<and> used (t ! j) \<and> e_ipaddr (t ! i) = e_ipaddr (t ! j) \<longrightarrow> i = j)"

definition queued :: "etharp_entry list \<Rightarrow> nat multiset" where
  "queued t = mset (concat (map arp_q t))"

definition arp_ok :: "nat multiset \<Rightarrow> 'a arp_scheme \<Rightarrow> bool" where
  "arp_ok own s \<longleftrightarrow> table_ok (arp_table s) \<and> etharp_cached_entry s < ARP_TABLE_SIZE
     \<and> memp_arp_queue s + size (queued (arp_table s)) = MEMP_NUM_ARP_QUEUE
     \<and> accounted (queued (arp_table s) + own) (pstore s)"

lemma queued_upd: "i < length t \<Longrightarrow> queued (t[i := e]) + mset (arp_q (t ! i)) = queued t + mset (arp_q e)"
proof -
  assume i: "i < length t"
  have "concat (map arp_q t) = concat (map arp_q (take i t)) @ arp_q (t ! i) @ concat (map arp_q (drop (Suc i) t))"
    by (subst id_take_nth_drop [OF i]) simp
  then show ?thesis using i by (simp add: queued_def upd_conv_take_nth_drop)
qed

lemma queued_upd_same: "i < length t \<Longrightarrow> arp_q e = arp_q (t ! i) \<Longrightarrow> queued (t[i := e]) = queued t"
  using queued_upd [of i t e] by simp

lemma table_len: "table_ok t \<Longrightarrow> length t = 10"
  by (simp add: table_ok_def cdefs)

lemma table_entry: "table_ok t \<Longrightarrow> i < 10 \<Longrightarrow> entry_ok (t ! i)"
  by (simp add: table_ok_def cdefs list_all_length)

definition only_at :: "nat \<Rightarrow> u32 \<Rightarrow> etharp_entry list \<Rightarrow> bool" where
  "only_at i ip t \<longleftrightarrow> (\<forall>j<length t. j \<noteq> i \<longrightarrow> used (t ! j) \<longrightarrow> e_ipaddr (t ! j) \<noteq> ip)"

lemma table_upd:
  assumes "table_ok t" and "entry_ok e" and "used e \<Longrightarrow> only_at i (e_ipaddr e) t"
  shows "table_ok (t[i := e])"
proof -
  have "list_all entry_ok (t[i := e])"
    using assms(1,2) by (auto simp: table_ok_def list_all_iff dest: subsetD [OF set_update_subset_insert])
  moreover have "p = q" if "p < length t" "q < length t" "used (t[i := e] ! p)" "used (t[i := e] ! q)" "e_ipaddr (t[i := e] ! p) = e_ipaddr (t[i := e] ! q)" for p q
    using that assms(1,3) unfolding table_ok_def only_at_def by (metis nth_list_update_eq nth_list_update_neq)
  ultimately show ?thesis using assms(1) by (auto simp: table_ok_def)
qed

lemma table_only_at: "table_ok t \<Longrightarrow> i < 10 \<Longrightarrow> used (t ! i) \<Longrightarrow> only_at i (e_ipaddr (t ! i)) t"
  unfolding table_ok_def only_at_def by (simp add: ARP_TABLE_SIZE_def) metis

lemma empty_entry_simps [simp]: "arp_q empty_entry = []" "\<not> used empty_entry" "e_state empty_entry = ETHARP_STATE_EMPTY" "entry_ok empty_entry"
  by (simp_all add: empty_entry_def used_def entry_ok_def ethzero_def cdefs)

lemma entry_no_queue: "entry_ok e \<Longrightarrow> e_state e \<noteq> ETHARP_STATE_PENDING \<Longrightarrow> arp_q e = []"
  by (auto simp: entry_ok_def)

lemma stable_state: "stable e \<Longrightarrow> e_state e \<noteq> ETHARP_STATE_PENDING \<and> used e"
  by (auto simp: stable_def used_def)

lemma arp_ok_parts:
  assumes "arp_ok own s"
  shows "table_ok (arp_table s)" "length (arp_table s) = 10" "etharp_cached_entry s < 10" "\<And>i. i < 10 \<Longrightarrow> entry_ok (arp_table s ! i)"
    "memp_arp_queue s + size (queued (arp_table s)) = 8" "accounted (queued (arp_table s) + own) (pstore s)"
  using assms table_len table_entry by (auto simp: arp_ok_def cdefs)

text \<open>A change of one entry that leaves its queue alone.\<close>

lemma arp_ok_entry:
  assumes ok: "arp_ok own s" and i: "i < 10" and q: "arp_q (f (arp_table s ! i)) = arp_q (arp_table s ! i)" and e: "entry_ok (f (arp_table s ! i))"
    and o: "used (f (arp_table s ! i)) \<Longrightarrow> only_at i (e_ipaddr (f (arp_table s ! i))) (arp_table s)"
  shows "arp_ok own (upd_entry i f s)"
  using table_upd [OF arp_ok_parts(1) [OF ok] e o] queued_upd_same [of i "arp_table s" "f (arp_table s ! i)"] ok i q arp_ok_parts(2) [OF ok]
  by (simp add: arp_ok_def upd_entry_def)

lemma arp_ok_sent [simp]: "arp_ok own (s\<lparr>reg_out := r, penv := e\<rparr>) = arp_ok own s" "arp_ok own (s\<lparr>penv := e\<rparr>) = arp_ok own s" "arp_ok own (s\<lparr>reg_out := r\<rparr>) = arp_ok own s"
  by (simp_all add: arp_ok_def)

text \<open>Releasing an entry, also one whose fields other than the queue have just been changed.\<close>

lemma free_entry_upd:
  assumes ok: "arp_ok own s" and i: "i < 10" and f: "arp_q (f (arp_table s ! i)) = arp_q (arp_table s ! i)"
  shows "\<exists>st e m. etharp_free_entry i (upd_entry i f s) = Some (s\<lparr>pstore := st, penv := e, memp_arp_queue := m, arp_table := (arp_table s)[i := empty_entry]\<rparr>)
     \<and> arp_ok own (s\<lparr>pstore := st, penv := e, memp_arp_queue := m, arp_table := (arp_table s)[i := empty_entry]\<rparr>)"
proof -
  let ?t = "(arp_table s)[i := empty_entry]" and ?q = "arp_q (arp_table s ! i)" and ?s = "upd_entry i f s"
  note p = arp_ok_parts [OF ok]
  have q: "queued (arp_table s) = mset ?q + queued ?t" using queued_upd [of i "arp_table s" empty_entry] i p(2) by (simp add: add.commute)
  obtain st e where fr: "free_etharp_q ?q ?s = Some (?s\<lparr>pstore := st, penv := e, memp_arp_queue := memp_arp_queue ?s + length ?q\<rparr>)" "accounted (queued ?t + own) st"
    using free_q_ok [of ?q "queued ?t + own" ?s] p(6) by (auto simp: q add.assoc upd_entry_def)
  have "table_ok ?t" using table_upd [OF p(1), of empty_entry i] by simp
  moreover have "memp_arp_queue s + length ?q + size (queued ?t) = 8" using p(5) q by simp
  ultimately have "arp_ok own (s\<lparr>pstore := st, penv := e, memp_arp_queue := memp_arp_queue s + length ?q, arp_table := ?t\<rparr>)"
    using fr(2) p(3) by (simp add: arp_ok_def cdefs)
  moreover have "arp_q (arp_table ?s ! i) = ?q" using f i p(2) by (simp add: upd_entry_def)
  then have "etharp_free_entry i ?s = Some (s\<lparr>pstore := st, penv := e, memp_arp_queue := memp_arp_queue s + length ?q, arp_table := ?t\<rparr>)"
    using fr(1) by (simp add: etharp_free_entry_def upd_entry_def)
  ultimately show ?thesis by blast
qed

lemma free_entry_ok:
  assumes "arp_ok own s" and "i < 10"
  shows "\<exists>st e m. etharp_free_entry i s = Some (s\<lparr>pstore := st, penv := e, memp_arp_queue := m, arp_table := (arp_table s)[i := empty_entry]\<rparr>)
     \<and> arp_ok own (s\<lparr>pstore := st, penv := e, memp_arp_queue := m, arp_table := (arp_table s)[i := empty_entry]\<rparr>)"
  using free_entry_upd [OF assms, of "\<lambda>e. e"] by (simp add: upd_entry_def)

section \<open>Finding an entry\<close>

definition cand_ok :: "etharp_entry list \<Rightarrow> candidates \<Rightarrow> bool" where
  "cand_ok t c \<longleftrightarrow> (\<forall>i. c_empty c = Some i \<longrightarrow> i < length t \<and> \<not> used (t ! i))
     \<and> (\<forall>i a. c_stable c = Some (i, a) \<longrightarrow> i < length t \<and> e_state (t ! i) \<noteq> ETHARP_STATE_PENDING)
     \<and> (\<forall>i a. c_pending c = Some (i, a) \<longrightarrow> i < length t) \<and> (\<forall>i a. c_queue c = Some (i, a) \<longrightarrow> i < length t)"

definition some_cand :: "candidates \<Rightarrow> bool" where
  "some_cand c \<longleftrightarrow> c_empty c \<noteq> None \<or> c_stable c \<noteq> None \<or> c_pending c \<noteq> None \<or> c_queue c \<noteq> None"

fun swept :: "u32 \<Rightarrow> etharp_entry list \<Rightarrow> nat + candidates \<Rightarrow> bool" where
  "swept ip t (Inl i) \<longleftrightarrow> i < length t \<and> used (t ! i) \<and> e_ipaddr (t ! i) = ip"
| "swept ip t (Inr c) \<longleftrightarrow> cand_ok t c \<and> (t \<noteq> [] \<longrightarrow> some_cand c) \<and> (\<forall>e\<in>set t. used e \<longrightarrow> e_ipaddr e \<noteq> ip)"

lemma older_some: "older i a c = Some p \<Longrightarrow> p = (i, a) \<or> c = Some p" "older i a c \<noteq> None"
  by (cases c; auto simp: older_def split: if_splits)+

lemma sweep_one:
  assumes "swept ip pre (Inr c)"
  shows "\<not> used e \<Longrightarrow> c_empty c = None \<Longrightarrow> swept ip (pre @ [e]) (Inr (c\<lparr>c_empty := Some (length pre)\<rparr>))"
    "\<not> used e \<Longrightarrow> c_empty c \<noteq> None \<Longrightarrow> swept ip (pre @ [e]) (Inr c)"
    "used e \<Longrightarrow> e_ipaddr e \<noteq> ip \<Longrightarrow> swept ip (pre @ [e]) (Inr (c\<lparr>c_queue := older (length pre) a (c_queue c)\<rparr>))"
    "used e \<Longrightarrow> e_ipaddr e \<noteq> ip \<Longrightarrow> swept ip (pre @ [e]) (Inr (c\<lparr>c_pending := older (length pre) a (c_pending c)\<rparr>))"
    "used e \<Longrightarrow> e_ipaddr e \<noteq> ip \<Longrightarrow> e_state e \<noteq> ETHARP_STATE_PENDING \<Longrightarrow> swept ip (pre @ [e]) (Inr (c\<lparr>c_stable := older (length pre) a (c_stable c)\<rparr>))"
  using assms older_some by (fastforce simp: cand_ok_def some_cand_def nth_append)+

lemma find_sweep_swept: "swept ip pre (Inr c) \<Longrightarrow> swept ip (pre @ es) (find_sweep (Some ip) (length pre) es c)"
proof (induction es arbitrary: pre c)
  case Nil
  then show ?case by simp
next
  case (Cons e es)
  note IH = Cons.IH [of "pre @ [e]"] and one = sweep_one [OF Cons.prems, of e]
  show ?case
  proof (cases "used e")
    case True
    then show ?thesis using IH one(3-5) unfolding used_def by (auto simp del: swept.simps simp: used_def) (simp_all add: used_def)
  next
    case False
    then show ?thesis using IH one(1,2) unfolding used_def by (auto simp del: swept.simps simp: used_def)
  qed
qed

lemma no_candidates_swept: "swept ip [] (Inr no_candidates)"
  by (simp add: no_candidates_def cand_ok_def)

lemma recycle_ok:
  assumes ok: "arp_ok own s" and c: "cand_ok (arp_table s) c" "some_cand c" "c_empty c = None"
  shows "\<exists>i st e m. i < 10 \<and> recycle c s = Some (Some i, s\<lparr>pstore := st, penv := e, memp_arp_queue := m, arp_table := (arp_table s)[i := empty_entry]\<rparr>)
     \<and> arp_ok own (s\<lparr>pstore := st, penv := e, memp_arp_queue := m, arp_table := (arp_table s)[i := empty_entry]\<rparr>)"
proof -
  note p = arp_ok_parts [OF ok]
  consider i a where "c_stable c = Some (i, a)" | i a where "c_stable c = None" "c_pending c = Some (i, a)"
    | i a where "c_stable c = None" "c_pending c = None" "c_queue c = Some (i, a)"
    using c(2,3) unfolding some_cand_def by (metis not_None_eq surj_pair)
  then obtain i where i: "i < 10" and r: "recycle c s = do { s1 \<leftarrow> etharp_free_entry i s; Some (Some i, s1) }"
    using c(1) p(2) entry_no_queue [OF p(4)] by cases (auto simp: cand_ok_def recycle_def)
  obtain st e m where f: "etharp_free_entry i s = Some (s\<lparr>pstore := st, penv := e, memp_arp_queue := m, arp_table := (arp_table s)[i := empty_entry]\<rparr>)"
    "arp_ok own (s\<lparr>pstore := st, penv := e, memp_arp_queue := m, arp_table := (arp_table s)[i := empty_entry]\<rparr>)"
    using free_entry_ok [OF ok i] by blast
  show ?thesis unfolding r f(1) bind.bind_lunit using i f(2) by blast
qed

text \<open>
  The entry found for an address: one that has it, in an unchanged state, or an unused one that
  now carries the address, which no entry had. Nothing is sent.
\<close>

definition found :: "u32 \<Rightarrow> nat \<Rightarrow> 'a arp_scheme \<Rightarrow> 'a arp_scheme \<Rightarrow> bool" where
  "found ip i s s' \<longleftrightarrow> i < 10 \<and> e_ipaddr (arp_table s' ! i) = ip \<and> only_at i ip (arp_table s')
     \<and> (used (arp_table s ! i) \<and> s' = s
        \<or> e_state (arp_table s' ! i) = ETHARP_STATE_EMPTY \<and> ctime (arp_table s' ! i) = 0
          \<and> (\<forall>e\<in>set (arp_table s). used e \<longrightarrow> e_ipaddr e \<noteq> ip)
          \<and> (\<forall>j<10. j \<noteq> i \<longrightarrow> arp_table s' ! j = arp_table s ! j)
          \<and> (\<exists>st e m t. s' = s\<lparr>pstore := st, penv := e, memp_arp_queue := m, arp_table := t\<rparr>))"

lemma fresh_found:
  assumes ok: "arp_ok own s'" and s': "s' = s\<lparr>pstore := st, penv := e, memp_arp_queue := m, arp_table := t\<rparr>" and i: "i < 10"
    and emp: "\<not> used (t ! i)" and no: "\<forall>e\<in>set (arp_table s). used e \<longrightarrow> e_ipaddr e \<noteq> ip" and ot: "\<forall>j<10. j \<noteq> i \<longrightarrow> t ! j = arp_table s ! j"
    and len: "length (arp_table s) = 10"
  defines "u \<equiv> upd_entry i (\<lambda>e. e\<lparr>e_ipaddr := ip, ctime := 0\<rparr>) s'"
  shows "arp_ok own u \<and> found ip i s u"
proof -
  have lt: "length t = 10" using arp_ok_parts(2) [OF ok] by (simp add: s')
  have "entry_ok (t ! i)" using arp_ok_parts(4) [OF ok i] by (simp add: s')
  then have "entry_ok ((t ! i)\<lparr>e_ipaddr := ip, ctime := 0\<rparr>)" using emp by (auto simp: entry_ok_def used_def cdefs)
  then have a: "arp_ok own u" unfolding u_def using emp by (intro arp_ok_entry [OF ok i]) (simp_all add: s' used_def)
  have tu: "arp_table u = t[i := (t ! i)\<lparr>e_ipaddr := ip, ctime := 0\<rparr>]" by (simp add: u_def upd_entry_def s')
  have ot': "\<forall>j<10. j \<noteq> i \<longrightarrow> arp_table u ! j = arp_table s ! j" using ot lt i by (simp add: tu)
  then have "only_at i ip (arp_table u)" using no len lt by (auto simp: only_at_def tu)
  moreover have "\<exists>st e m t. u = s\<lparr>pstore := st, penv := e, memp_arp_queue := m, arp_table := t\<rparr>"
    by (rule exI [of _ st], rule exI [of _ e], rule exI [of _ m], rule exI [of _ "arp_table u"]) (simp add: u_def upd_entry_def s')
  moreover have "e_state (arp_table u ! i) = ETHARP_STATE_EMPTY" "ctime (arp_table u ! i) = 0" "e_ipaddr (arp_table u ! i) = ip"
    using emp i lt by (simp_all add: tu used_def)
  ultimately show ?thesis using a i no ot' by (simp add: found_def)
qed

lemma find_entry_ok:
  assumes ok: "arp_ok own s"
  shows "(\<exists>i s'. etharp_find_entry (Some ip) fl s = Some (Some i, s') \<and> arp_ok own s' \<and> found ip i s s'
           \<and> (fl AND ETHARP_FLAG_FIND_ONLY \<noteq> 0 \<longrightarrow> s' = s))
    \<or> etharp_find_entry (Some ip) fl s = Some (None, s) \<and> (fl AND ETHARP_FLAG_FIND_ONLY \<noteq> 0 \<or> fl AND ETHARP_FLAG_TRY_HARD = 0)
      \<and> (\<forall>e\<in>set (arp_table s). used e \<longrightarrow> e_ipaddr e \<noteq> ip)"
proof -
  note p = arp_ok_parts [OF ok]
  have sw: "swept ip (arp_table s) (find_sweep (Some ip) 0 (arp_table s) no_candidates)"
    using find_sweep_swept [OF no_candidates_swept, of ip "arp_table s"] by simp
  show ?thesis
  proof (cases "find_sweep (Some ip) 0 (arp_table s) no_candidates")
    case (Inl i)
    then have "i < 10" "used (arp_table s ! i)" "e_ipaddr (arp_table s ! i) = ip" using sw p(2) by simp_all
    moreover have "etharp_find_entry (Some ip) fl s = Some (Some i, s)" using Inl by (simp add: etharp_find_entry_def)
    ultimately show ?thesis using ok table_only_at [OF p(1)] by (auto simp: found_def)
  next
    case (Inr c)
    then have c: "cand_ok (arp_table s) c" "some_cand c" "\<forall>e\<in>set (arp_table s). used e \<longrightarrow> e_ipaddr e \<noteq> ip" using sw p(2) by (auto simp: Inr)
    show ?thesis
    proof (cases "fl AND ETHARP_FLAG_FIND_ONLY \<noteq> 0 \<or> c_empty c = None \<and> fl AND ETHARP_FLAG_TRY_HARD = 0")
      case True
      then show ?thesis using Inr c(3) by (simp add: etharp_find_entry_def)
    next
      case False
      obtain i st e m t where i: "i < 10" "\<not> used (t ! i)" "\<forall>j<10. j \<noteq> i \<longrightarrow> t ! j = arp_table s ! j"
        and ok': "arp_ok own (s\<lparr>pstore := st, penv := e, memp_arp_queue := m, arp_table := t\<rparr>)"
        and r: "(case c_empty c of Some i \<Rightarrow> Some (Some i, s) | None \<Rightarrow> recycle c s) = Some (Some i, s\<lparr>pstore := st, penv := e, memp_arp_queue := m, arp_table := t\<rparr>)"
      proof (cases "c_empty c")
        case None
        obtain i st e m where "i < 10" "recycle c s = Some (Some i, s\<lparr>pstore := st, penv := e, memp_arp_queue := m, arp_table := (arp_table s)[i := empty_entry]\<rparr>)"
          "arp_ok own (s\<lparr>pstore := st, penv := e, memp_arp_queue := m, arp_table := (arp_table s)[i := empty_entry]\<rparr>)"
          using recycle_ok [OF ok c(1,2) None] by blast
        then show ?thesis using that [of i "(arp_table s)[i := empty_entry]" m e st] None p(2) by simp
      next
        case (Some i)
        then show ?thesis using that [of i "arp_table s" "memp_arp_queue s" "penv s" "pstore s"] ok c(1) p(2) by (simp add: cand_ok_def)
      qed
      have "etharp_find_entry (Some ip) fl s = Some (Some i, upd_entry i (\<lambda>e. e\<lparr>e_ipaddr := ip, ctime := 0\<rparr>) (s\<lparr>pstore := st, penv := e, memp_arp_queue := m, arp_table := t\<rparr>))"
        using Inr r False i(2) unfolding etharp_find_entry_def by (simp add: used_def)
      then show ?thesis using fresh_found [OF ok' refl i(1,2) c(3) i(3) p(2)] False by auto
    qed
  qed
qed

section \<open>The timer\<close>

text \<open>What a call of the timer does to an entry.\<close>

definition aged :: "etharp_entry \<Rightarrow> etharp_entry" where
  "aged e =
     (if e_state e = ETHARP_STATE_EMPTY then e
      else let e1 = e\<lparr>ctime := ctime e + 1\<rparr> in
           if ctime e1 \<ge> ARP_MAXAGE \<or> e_state e = ETHARP_STATE_PENDING \<and> ctime e1 \<ge> ARP_MAXPENDING then empty_entry
           else if e_state e = ETHARP_STATE_STABLE_REREQUESTING_1 then e1\<lparr>e_state := ETHARP_STATE_STABLE_REREQUESTING_2\<rparr>
           else if e_state e = ETHARP_STATE_STABLE_REREQUESTING_2 then e1\<lparr>e_state := ETHARP_STATE_STABLE\<rparr>
           else e1)"

lemma upd_entry_simps [simp]:
  "arp_table (upd_entry i f s) = (arp_table s)[i := f (arp_table s ! i)]" "etharp_cached_entry (upd_entry i f s) = etharp_cached_entry s"
  "upd_entry i f s\<lparr>arp_table := t\<rparr> = s\<lparr>arp_table := t\<rparr>" "memp_arp_queue (upd_entry i f s) = memp_arp_queue s" "pstore (upd_entry i f s) = pstore s"
  "penv (upd_entry i f s) = penv s" "reg_out (upd_entry i f s) = reg_out s"
  by (simp_all add: upd_entry_def)

lemma aged_ok:
  assumes "entry_ok e" and "aged e \<noteq> empty_entry \<or> e = empty_entry"
  shows "entry_ok (aged e)" "arp_q (aged e) = arp_q e" "used (aged e) = used e" "e_ipaddr (aged e) = e_ipaddr e"
  using assms unfolding aged_def entry_ok_def used_def by (auto simp: Let_def cdefs split: if_splits)

lemma aged_empty:
  assumes "used e"
  shows "aged e = empty_entry \<longleftrightarrow> ctime e + 1 \<ge> ARP_MAXAGE \<or> e_state e = ETHARP_STATE_PENDING \<and> ctime e + 1 \<ge> ARP_MAXPENDING"
proof -
  have "e_state (aged e) \<noteq> e_state empty_entry" if "\<not> (ctime e + 1 \<ge> ARP_MAXAGE \<or> e_state e = ETHARP_STATE_PENDING \<and> ctime e + 1 \<ge> ARP_MAXPENDING)"
    using assms that by (auto simp: aged_def used_def Let_def)
  then show ?thesis using assms by (auto simp: aged_def used_def Let_def)
qed

lemma tmr_entry_ok:
  assumes ok: "arp_ok own s" and hw: "hwaddr_len nif = 6" and i: "i < 10"
  shows "\<exists>s'. tmr_entry x nif i s = Some s' \<and> arp_ok own s' \<and> arp_table s' = (arp_table s)[i := aged (arp_table s ! i)]"
proof -
  note p = arp_ok_parts [OF ok]
  let ?e = "arp_table s ! i" and ?f = "\<lambda>e. e\<lparr>ctime := ctime e + 1\<rparr>"
  have eo: "entry_ok ?e" by (rule p(4) [OF i])
  have upd: "arp_ok own (upd_entry i g s)" if "g ?e = aged ?e" "aged ?e \<noteq> empty_entry" for g
    using aged_ok [OF eo] table_only_at [OF p(1) i] that by (intro arp_ok_entry [OF ok i]) auto
  consider (empty) "e_state ?e = ETHARP_STATE_EMPTY" | (old) "used ?e" "aged ?e = empty_entry" | (on) "used ?e" "aged ?e \<noteq> empty_entry"
    by (auto simp: used_def)
  then show ?thesis
  proof cases
    case empty
    then show ?thesis using ok by (simp add: tmr_entry_def aged_def)
  next
    case old
    obtain st e m where f: "etharp_free_entry i (upd_entry i ?f s) = Some (s\<lparr>pstore := st, penv := e, memp_arp_queue := m, arp_table := (arp_table s)[i := empty_entry]\<rparr>)"
      "arp_ok own (s\<lparr>pstore := st, penv := e, memp_arp_queue := m, arp_table := (arp_table s)[i := empty_entry]\<rparr>)"
      using free_entry_upd [OF ok i, of ?f] by auto
    have "tmr_entry x nif i s = etharp_free_entry i (upd_entry i ?f s)"
      using old aged_empty [OF old(1)] i p(2) unfolding tmr_entry_def by (simp add: Let_def used_def)
    then show ?thesis using f old by simp
  next
    case on
    have c: "tmr_entry x nif i s = (if e_state ?e = ETHARP_STATE_PENDING then do { (err, s2) \<leftarrow> etharp_request x nif (e_ipaddr ?e) (upd_entry i aged s); Some s2 } else Some (upd_entry i aged s))"
      using on i p(2) eo unfolding tmr_entry_def by (auto simp: aged_def Let_def used_def entry_ok_def upd_entry_def)
    obtain err r e where "etharp_request x nif (e_ipaddr ?e) (upd_entry i aged s) = Some (err, upd_entry i aged s\<lparr>reg_out := r, penv := e\<rparr>)"
      using etharp_request_upd(2) [OF hw] by blast
    then show ?thesis unfolding c using upd [of aged] on by simp
  qed
qed

lemma tmr_loop_ok:
  assumes "arp_ok own s" and "hwaddr_len nif = 6" and "distinct js" and "\<forall>j\<in>set js. j < 10"
  shows "\<exists>s'. tmr_loop x nif js s = Some s' \<and> arp_ok own s' \<and> (\<forall>j<10. arp_table s' ! j = (if j \<in> set js then aged (arp_table s ! j) else arp_table s ! j))"
  using assms
proof (induction js arbitrary: s)
  case Nil
  then show ?case by simp
next
  case (Cons i js)
  obtain s1 where s1: "tmr_entry x nif i s = Some s1" "arp_ok own s1" "arp_table s1 = (arp_table s)[i := aged (arp_table s ! i)]"
    using tmr_entry_ok [OF Cons.prems(1,2), of i] Cons.prems(4) by auto
  obtain s' where "tmr_loop x nif js s1 = Some s'" "arp_ok own s'" "\<forall>j<10. arp_table s' ! j = (if j \<in> set js then aged (arp_table s1 ! j) else arp_table s1 ! j)"
    using Cons.IH [OF s1(2)] Cons.prems by auto
  then show ?case using s1 Cons.prems arp_ok_parts(2) [OF Cons.prems(1)] by (auto simp: nth_list_update)
qed

lemma etharp_tmr_ok:
  assumes "arp_ok own s" and "hwaddr_len nif = 6"
  shows "\<exists>s'. etharp_tmr x nif s = Some s' \<and> arp_ok own s' \<and> arp_table s' = map aged (arp_table s)"
proof -
  obtain s' where "etharp_tmr x nif s = Some s'" "arp_ok own s'" "\<forall>j<10. arp_table s' ! j = aged (arp_table s ! j)"
    using tmr_loop_ok [OF assms, of "[0..<10]" x] by (auto simp: etharp_tmr_def cdefs)
  then show ?thesis using arp_ok_parts(2) [of own s'] arp_ok_parts(2) [OF assms(1)] by (auto intro: nth_equalityI)
qed

lemma cleanup_loop_ok:
  assumes "arp_ok own s" and "\<forall>j\<in>set js. j < 10"
  shows "\<exists>s'. cleanup_loop js s = Some s' \<and> arp_ok own s' \<and> (\<forall>j<10. used (arp_table s' ! j) \<longleftrightarrow> j \<notin> set js \<and> used (arp_table s ! j))"
  using assms
proof (induction js arbitrary: s)
  case Nil
  then show ?case by simp
next
  case (Cons i js)
  note p = arp_ok_parts [OF Cons.prems(1)]
  obtain s1 where s1: "(if used (arp_table s ! i) \<and> e_netif (arp_table s ! i) then etharp_free_entry i s else Some s) = Some s1" "arp_ok own s1"
    "\<forall>j<10. used (arp_table s1 ! j) \<longleftrightarrow> j \<noteq> i \<and> used (arp_table s ! j)"
  proof (cases "used (arp_table s ! i)")
    case True
    then have "e_netif (arp_table s ! i)" using p(4) Cons.prems(2) by (auto simp: entry_ok_def)
    obtain st e m where f: "etharp_free_entry i s = Some (s\<lparr>pstore := st, penv := e, memp_arp_queue := m, arp_table := (arp_table s)[i := empty_entry]\<rparr>)"
      "arp_ok own (s\<lparr>pstore := st, penv := e, memp_arp_queue := m, arp_table := (arp_table s)[i := empty_entry]\<rparr>)"
      using free_entry_ok [OF Cons.prems(1), of i] Cons.prems(2) by auto
    have "\<forall>j<10. used ((arp_table s)[i := empty_entry] ! j) \<longleftrightarrow> j \<noteq> i \<and> used (arp_table s ! j)" using p(2) Cons.prems(2) by (auto simp: nth_list_update)
    then show ?thesis using that [OF _ f(2)] f(1) True \<open>e_netif _\<close> by simp
  next
    case False
    then show ?thesis using that [of s] Cons.prems(1) by auto
  qed
  obtain s' where "cleanup_loop js s1 = Some s'" "arp_ok own s'" "\<forall>j<10. used (arp_table s' ! j) \<longleftrightarrow> j \<notin> set js \<and> used (arp_table s1 ! j)"
    using Cons.IH [OF s1(2)] Cons.prems(2) by auto
  then show ?case using s1 by (auto simp: used_def)
qed

section \<open>Resolution\<close>

lemma send_queue_ok:
  assumes hw: "hwaddr_len nif = 6" and i: "i < length (arp_table s)"
    and "arp_q (arp_table s ! i) = q" and "accounted (mset q + M) (pstore s)"
  shows "\<exists>r st e. send_queue x nif i dst q s = Some (s\<lparr>reg_out := r, pstore := st, penv := e, memp_arp_queue := memp_arp_queue s + length q,
      arp_table := (arp_table s)[i := (arp_table s ! i)\<lparr>arp_q := []\<rparr>]\<rparr>) \<and> accounted M st"
  using assms
proof (induction q arbitrary: s)
  case Nil
  have "(arp_table s ! i)\<lparr>arp_q := []\<rparr> = arp_table s ! i" using Nil.prems(3) by simp
  then have "send_queue x nif i dst [] s = Some (s\<lparr>reg_out := reg_out s, pstore := pstore s, penv := penv s, memp_arp_queue := memp_arp_queue s + length [],
      arp_table := (arp_table s)[i := (arp_table s ! i)\<lparr>arp_q := []\<rparr>]\<rparr>)" by simp
  then show ?case using Nil.prems(4) by (intro exI [of _ "reg_out s"] exI [of _ "pstore s"] exI [of _ "penv s"] conjI) simp_all
next
  case (Cons a q)
  let ?s = "upd_entry i (\<lambda>e. e\<lparr>arp_q := q\<rparr>) (s\<lparr>memp_arp_queue := memp_arp_queue s + 1\<rparr>)"
  obtain err r c where o: "output_at x nif a dst ?s = Some (err, ?s\<lparr>reg_out := r, pstore := (pstore s)(a := c)\<rparr>)" "accounted (mset (a # q) + M) ((pstore s)(a := c))"
    using output_at_ok [OF hw, of "mset (a # q) + M" ?s a x dst] Cons.prems(4) by auto
  let ?s1 = "?s\<lparr>reg_out := r, pstore := (pstore s)(a := c)\<rparr>"
  obtain d e where f: "free_at a ?s1 = Some (?s1\<lparr>pstore := (pstore ?s1)(a := d), penv := e\<rparr>)" "accounted (mset q + M) ((pstore ?s1)(a := d))"
    using free_at_ok [of a "mset q + M" ?s1] o(2) by auto
  let ?s2 = "?s1\<lparr>pstore := (pstore ?s1)(a := d), penv := e\<rparr>"
  have "arp_table ?s2 = (arp_table s)[i := (arp_table s ! i)\<lparr>arp_q := q\<rparr>]" by simp
  then have "i < length (arp_table ?s2)" "arp_q (arp_table ?s2 ! i) = q" using Cons.prems(2) by simp_all
  moreover have "accounted (mset q + M) (pstore ?s2)" using f(2) by (simp del: fun_upd_apply)
  ultimately obtain r' st e' where
    "send_queue x nif i dst q ?s2 = Some (?s2\<lparr>reg_out := r', pstore := st, penv := e', memp_arp_queue := memp_arp_queue ?s2 + length q,
      arp_table := (arp_table ?s2)[i := (arp_table ?s2 ! i)\<lparr>arp_q := []\<rparr>]\<rparr>)" "accounted M st" using Cons.IH [OF hw, of ?s2] by blast
  moreover have "?s2\<lparr>reg_out := r', pstore := st, penv := e', memp_arp_queue := memp_arp_queue ?s2 + length q, arp_table := (arp_table ?s2)[i := (arp_table ?s2 ! i)\<lparr>arp_q := []\<rparr>]\<rparr>
     = s\<lparr>reg_out := r', pstore := st, penv := e', memp_arp_queue := memp_arp_queue s + length (a # q), arp_table := (arp_table s)[i := (arp_table s ! i)\<lparr>arp_q := []\<rparr>]\<rparr>"
    using Cons.prems(2) by (simp add: upd_entry_def)
  ultimately show ?case using o(1) f(1) by (simp add: upd_entry_def) blast
qed

text \<open>The entry of an address resolved \<open>k\<close> timer calls ago.\<close>

definition resolved :: "u32 \<Rightarrow> u8 list \<Rightarrow> nat \<Rightarrow> 'a arp_scheme \<Rightarrow> bool" where
  "resolved ip mac k s \<longleftrightarrow> (\<exists>i<10. e_state (arp_table s ! i) = ETHARP_STATE_STABLE \<and> e_ipaddr (arp_table s ! i) = ip
     \<and> ethaddr (arp_table s ! i) = mac \<and> unat (ctime (arp_table s ! i)) = k)"

lemma found_resolved:
  assumes ok: "arp_ok own s" and fd: "found ip i s0 s" and hw: "hwaddr_len nif = 6" and eth: "length eth = 6"
  defines "s2 \<equiv> upd_entry i (\<lambda>e. e\<lparr>e_state := ETHARP_STATE_STABLE, e_netif := True, ethaddr := eth, ctime := 0\<rparr>) s"
  shows "\<exists>s'. send_queue x nif i eth (arp_q (arp_table s ! i)) s2 = Some s' \<and> arp_ok own s' \<and> resolved ip eth 0 s'"
proof -
  let ?e = "arp_table s ! i"
  let ?g = "?e\<lparr>e_state := ETHARP_STATE_STABLE, e_netif := True, ethaddr := eth, ctime := 0, arp_q := []\<rparr>"
  note p = arp_ok_parts [OF ok]
  have i: "i < 10" "e_ipaddr ?e = ip" "only_at i ip (arp_table s)" using fd by (auto simp: found_def)
  have t2: "arp_table s2 = (arp_table s)[i := ?e\<lparr>e_state := ETHARP_STATE_STABLE, e_netif := True, ethaddr := eth, ctime := 0\<rparr>]" by (simp add: s2_def)
  have q: "queued (arp_table s) = mset (arp_q ?e) + queued ((arp_table s)[i := ?g])"
    using queued_upd [of i "arp_table s" ?g] i p(2) by (simp add: add.commute)
  obtain r st e where sq: "send_queue x nif i eth (arp_q ?e) s2 = Some (s2\<lparr>reg_out := r, pstore := st, penv := e, memp_arp_queue := memp_arp_queue s2 + length (arp_q ?e),
      arp_table := (arp_table s2)[i := (arp_table s2 ! i)\<lparr>arp_q := []\<rparr>]\<rparr>)" "accounted (queued ((arp_table s)[i := ?g]) + own) st"
    using send_queue_ok [OF hw, of i s2 "arp_q ?e" "queued ((arp_table s)[i := ?g]) + own" x eth] p(2,6) i by (auto simp: t2 q add.assoc s2_def)
  let ?s = "s2\<lparr>reg_out := r, pstore := st, penv := e, memp_arp_queue := memp_arp_queue s2 + length (arp_q ?e), arp_table := (arp_table s2)[i := (arp_table s2 ! i)\<lparr>arp_q := []\<rparr>]\<rparr>"
  have ts: "arp_table ?s = (arp_table s)[i := ?g]" using i(1) p(2) by (simp add: t2)
  have "entry_ok ?g" using eth by (simp add: entry_ok_def cdefs)
  then have tok: "table_ok ((arp_table s)[i := ?g])" using table_upd [OF p(1), of ?g i] i by simp
  have m: "memp_arp_queue s + length (arp_q ?e) + size (queued ((arp_table s)[i := ?g])) = 8" using p(5) q by simp
  have "arp_ok own ?s" unfolding arp_ok_def ts using tok m sq(2) p(3) by (simp add: s2_def cdefs)
  moreover have "resolved ip eth 0 ?s" unfolding resolved_def ts using i p(2) by (intro exI [of _ i]) simp
  ultimately show ?thesis using sq(1) by blast
qed

lemma update_entry_ok:
  assumes ok: "arp_ok own s" and hw: "hwaddr_len nif = 6" and eth: "length eth = 6"
  shows "\<exists>err s'. etharp_update_arp_entry x nif ip eth fl s = Some (err, s') \<and> arp_ok own s'
     \<and> (\<not> not_unicast nif ip \<and> fl = ETHARP_FLAG_TRY_HARD \<longrightarrow> err = ERR_OK \<and> resolved ip eth 0 s')"
proof (cases "not_unicast nif ip")
  case True
  then show ?thesis using ok hw by (simp add: etharp_update_arp_entry_def)
next
  case False
  from find_entry_ok [OF ok, of ip fl] show ?thesis
  proof
    assume "\<exists>i s'. etharp_find_entry (Some ip) fl s = Some (Some i, s') \<and> arp_ok own s' \<and> found ip i s s' \<and> (fl AND ETHARP_FLAG_FIND_ONLY \<noteq> 0 \<longrightarrow> s' = s)"
    then obtain i s1 where f: "etharp_find_entry (Some ip) fl s = Some (Some i, s1)" "arp_ok own s1" "found ip i s s1" by blast
    obtain s' where "send_queue x nif i eth (arp_q (arp_table s1 ! i)) (upd_entry i (\<lambda>e. e\<lparr>e_state := ETHARP_STATE_STABLE, e_netif := True, ethaddr := eth, ctime := 0\<rparr>) s1) = Some s'"
      "arp_ok own s'" "resolved ip eth 0 s'" using found_resolved [OF f(2,3) hw eth] by blast
    moreover have "i < length (arp_table s1)" using f(3) arp_ok_parts(2) [OF f(2)] by (simp add: found_def)
    ultimately show ?thesis using False hw eth f(1) by (simp add: etharp_update_arp_entry_def)
  next
    assume "etharp_find_entry (Some ip) fl s = Some (None, s) \<and> (fl AND ETHARP_FLAG_FIND_ONLY \<noteq> 0 \<or> fl AND ETHARP_FLAG_TRY_HARD = 0) \<and> (\<forall>e\<in>set (arp_table s). used e \<longrightarrow> e_ipaddr e \<noteq> ip)"
    then show ?thesis using False hw ok by (auto simp: etharp_update_arp_entry_def cdefs)
  qed
qed

text \<open>A received packet whose ARP header can be read.\<close>

definition arp_readable :: "pchain \<Rightarrow> bool" where
  "arp_readable p \<longleftrightarrow> pool_chain p \<and> nat (p_payload (hd p)) + 28 \<le> length (p_mem (hd p))"

lemma input_ok:
  assumes ok: "arp_ok own s" and hw: "hwaddr_len nif = 6" and p: "arp_readable p"
  shows "\<exists>s'. etharp_input x p nif s = Some s' \<and> arp_ok own s'"
proof -
  obtain h t where c: "p = h # t" using p by (cases p) (auto simp: arp_readable_def pool_chain_def)
  have drop: "\<exists>u. ip4_drop p v = Some u \<and> arp_ok own u" if "arp_ok own v" for v :: "'a arp_scheme"
    using drop_pool_chain [of p v] p that by (auto simp: arp_readable_def)
  have l: "length (pbuf_read h 8 6) = 6" using p by (auto simp: arp_readable_def c pbuf_read_def)
  show ?thesis
  proof (cases "get16 h 0 \<noteq> PP_HTONS LWIP_IANA_HWTYPE_ETHERNET \<or> get8 h 4 \<noteq> 6 \<or> get8 h 5 \<noteq> 4 \<or> get16 h 2 \<noteq> PP_HTONS ETHTYPE_IP")
    case True
    then show ?thesis using drop [OF ok] by (simp add: etharp_input_def c)
  next
    case False
    let ?us = "ip_addr nif \<noteq> IPADDR_ANY \<and> get32 h 24 = ip_addr nif"
    obtain err s1 where u: "etharp_update_arp_entry x nif (get32 h 14) (pbuf_read h 8 6) (if ?us then ETHARP_FLAG_TRY_HARD else ETHARP_FLAG_FIND_ONLY) s = Some (err, s1)" "arp_ok own s1"
      using update_entry_ok [OF ok hw l] by blast
    obtain err' r e where w: "etharp_raw x nif (hwaddr nif) (pbuf_read h 8 6) (hwaddr nif) (ip_addr nif) (pbuf_read h 8 6) (get32 h 14) ARP_REPLY s1 = Some (err', s1\<lparr>reg_out := r, penv := e\<rparr>)"
      using etharp_raw_upd [OF hw] by blast
    define reply where "reply \<longleftrightarrow> get16 h 6 = PP_HTONS ARP_REQUEST \<and> ?us \<and> \<not> (ip_addr nif \<noteq> IPADDR_ANY \<and> get32 h 14 = ip_addr nif)"
    have "etharp_input x p nif s = (if reply then ip4_drop p (s1\<lparr>reg_out := r, penv := e\<rparr>) else ip4_drop p s1)"
      using False u(1) w unfolding etharp_input_def c by (simp add: Let_def reply_def) auto
    then show ?thesis using drop [of s1] drop [of "s1\<lparr>reg_out := r, penv := e\<rparr>"] u(2) by simp
  qed
qed

section \<open>Output\<close>

lemma arp_ok_cached [simp]: "i < 10 \<Longrightarrow> arp_ok own s \<Longrightarrow> arp_ok own (s\<lparr>etharp_cached_entry := i\<rparr>)"
  by (simp add: arp_ok_def cdefs)

lemma output_ok:
  assumes "arp_ok own s" and "hwaddr_len nif = 6" and "a \<in># own"
  shows "\<exists>err s'. output_at x nif a dst s = Some (err, s') \<and> arp_ok own s'"
proof -
  obtain err r c where "output_at x nif a dst s = Some (err, s\<lparr>reg_out := r, pstore := (pstore s)(a := c)\<rparr>)" "accounted (queued (arp_table s) + own) ((pstore s)(a := c))"
    using output_at_ok [OF assms(2) arp_ok_parts(6) [OF assms(1)], of a x dst] assms(3) by auto
  then show ?thesis using assms(1) by (simp add: arp_ok_def)
qed

lemma rerequest_ok:
  assumes ok: "arp_ok own s" and i: "i < 10" and st: "e_state (arp_table s ! i) = ETHARP_STATE_STABLE"
  shows "arp_ok own (upd_entry i (\<lambda>e. e\<lparr>e_state := ETHARP_STATE_STABLE_REREQUESTING_1\<rparr>) (s\<lparr>reg_out := r, penv := e\<rparr>))"
  using arp_ok_parts(4) [OF ok i] table_only_at [OF arp_ok_parts(1) [OF ok] i] st i ok
  by (intro arp_ok_entry) (auto simp: entry_ok_def used_def)

lemma output_index_ok:
  assumes ok: "arp_ok own s" and hw: "hwaddr_len nif = 6" and a: "a \<in># own" and i: "i < 10" and st: "stable (arp_table s ! i)"
  shows "\<exists>err s'. etharp_output_to_arp_index x nif a i s = Some (err, s') \<and> arp_ok own s'"
proof -
  let ?e = "arp_table s ! i" and ?f = "\<lambda>e. e\<lparr>e_state := ETHARP_STATE_STABLE_REREQUESTING_1\<rparr>"
  obtain err r e where b: "etharp_request x nif (e_ipaddr ?e) s = Some (err, s\<lparr>reg_out := r, penv := e\<rparr>)" using etharp_request_upd(2) [OF hw] by blast
  obtain err' r' e' where u: "etharp_request_dst x nif (e_ipaddr ?e) (ethaddr ?e) s = Some (err', s\<lparr>reg_out := r', penv := e'\<rparr>)" using etharp_request_upd(1) [OF hw] by blast
  let ?pre = "if e_state ?e = ETHARP_STATE_STABLE
     then if ctime ?e \<ge> ARP_AGE_REREQUEST_USED_BROADCAST
          then do { (err, u) \<leftarrow> etharp_request x nif (e_ipaddr ?e) s; Some (if err = ERR_OK then upd_entry i ?f u else u) }
          else if ctime ?e \<ge> ARP_AGE_REREQUEST_USED_UNICAST
          then do { (err, u) \<leftarrow> etharp_request_dst x nif (e_ipaddr ?e) (ethaddr ?e) s; Some (if err = ERR_OK then upd_entry i ?f u else u) }
          else Some s
     else Some s"
  have "\<exists>s1. ?pre = Some s1 \<and> arp_ok own s1" unfolding b u using ok rerequest_ok [OF ok i] by simp
  then obtain s1 where s1: "?pre = Some s1" "arp_ok own s1" by blast
  have "etharp_output_to_arp_index x nif a i s = output_at x nif a (ethaddr (arp_table s1 ! i)) s1"
    unfolding etharp_output_to_arp_index_def Let_def s1(1) using st by simp
  then show ?thesis using output_ok [OF s1(2) hw a] by simp
qed

lemma enqueue_ok:
  assumes ok: "arp_ok (add_mset b own) s" and i: "i < 10" and pe: "e_state (arp_table s ! i) = ETHARP_STATE_PENDING"
  shows "\<exists>err s'. enqueue i b s = Some (err, s') \<and> arp_ok own s' \<and> (err = ERR_OK \<longleftrightarrow> memp_arp_queue s \<noteq> 0)"
proof (cases "memp_arp_queue s = 0")
  case True
  obtain c e where "free_at b s = Some (s\<lparr>pstore := (pstore s)(b := c), penv := e\<rparr>)" "accounted (queued (arp_table s) + own) ((pstore s)(b := c))"
    using free_at_ok [of b "queued (arp_table s) + own" s] arp_ok_parts(6) [OF ok] by auto
  then show ?thesis using ok True by (simp add: enqueue_def arp_ok_def)
next
  case False
  note p = arp_ok_parts [OF ok]
  let ?e = "arp_table s ! i" and ?s = "s\<lparr>memp_arp_queue := memp_arp_queue s - 1\<rparr>"
  let ?g = "\<lambda>q. ?e\<lparr>arp_q := q\<rparr>"
  have eo: "entry_ok ?e" by (rule p(4) [OF i])
  have q: "queued ((arp_table s)[i := ?g q]) + mset (arp_q ?e) = queued (arp_table s) + mset q" for q
    using queued_upd [of i "arp_table s" "?g q"] i p(2) by simp
  have tok: "table_ok ((arp_table s)[i := ?g q])" if "length q \<le> 3" for q
    using table_upd [OF p(1), of "?g q" i] table_only_at [OF p(1) i] eo pe that by (auto simp: entry_ok_def used_def cdefs)
  show ?thesis
  proof (cases "length (arp_q ?e) \<ge> 3")
    case full: True
    then obtain d qs where dq: "arp_q ?e = d # qs" by (cases "arp_q ?e") auto
    have l: "length qs = 2" using full eo dq by (simp add: entry_ok_def cdefs)
    let ?t = "(arp_table s)[i := ?g (qs @ [b])]"
    have qq: "add_mset d (queued ?t) = queued (arp_table s) + {#b#}" using q [of "qs @ [b]"] by (simp add: dq)
    have "add_mset d (queued ?t + own) = queued (arp_table s) + add_mset b own" by (simp add: qq flip: union_mset_add_mset_left)
    then have acc: "accounted (add_mset d (queued ?t + own)) (pstore s)" using p(6) by (rule ssubst)
    obtain c e where f: "free_at d (?s\<lparr>arp_table := ?t\<rparr>) = Some (?s\<lparr>arp_table := ?t, pstore := (pstore s)(d := c), penv := e\<rparr>)" "accounted (queued ?t + own) ((pstore s)(d := c))"
      using free_at_ok [of d "queued ?t + own" "?s\<lparr>arp_table := ?t\<rparr>"] acc by auto
    have "memp_arp_queue s + size (queued ?t) = 8" using p(5) arg_cong [OF qq, of size] by simp
    then have "arp_ok own (?s\<lparr>arp_table := ?t, pstore := (pstore s)(d := c), penv := e, memp_arp_queue := memp_arp_queue s\<rparr>)"
      using f(2) tok [of "qs @ [b]"] l p(3) by (simp add: arp_ok_def cdefs)
    moreover have "enqueue i b s = Some (ERR_OK, ?s\<lparr>arp_table := ?t, pstore := (pstore s)(d := c), penv := e, memp_arp_queue := memp_arp_queue s\<rparr>)"
      using False full f(1) i p(2) unfolding enqueue_def by (simp add: dq upd_entry_def ARP_QUEUE_LEN_def)
    ultimately show ?thesis using False by blast
  next
    case room: False
    let ?t = "(arp_table s)[i := ?g (arp_q ?e @ [b])]"
    have qq: "queued ?t = add_mset b (queued (arp_table s))" using q [of "arp_q ?e @ [b]"] by simp
    have "arp_ok own (?s\<lparr>arp_table := ?t\<rparr>)"
      using tok [of "arp_q ?e @ [b]"] room p(3,5,6) False by (simp add: arp_ok_def cdefs qq)
    moreover have "enqueue i b s = Some (ERR_OK, ?s\<lparr>arp_table := ?t\<rparr>)"
      using False room by (simp add: enqueue_def upd_entry_def ARP_QUEUE_LEN_def)
    ultimately show ?thesis using False by blast
  qed
qed

lemma take_over_ok:
  assumes ok: "arp_ok own s" and a: "a \<in># own" "count own a < 247"
  shows "\<exists>st. take_over x a s = Some (Some a, s\<lparr>pstore := st\<rparr>) \<and> arp_ok (add_mset a own) (s\<lparr>pstore := st\<rparr>)"
proof -
  note p = arp_ok_parts [OF ok]
  have "count (queued (arp_table s)) a \<le> 8" using count_le_size [of "queued (arp_table s)" a] p(5) by simp
  then obtain c where "ref_at a s = Some (s\<lparr>pstore := (pstore s)(a := c)\<rparr>)" "accounted (add_mset a (queued (arp_table s) + own)) ((pstore s)(a := c))"
    using ref_at_ok [OF p(6), of a] a by auto
  moreover have "copy_needed (pstore s a) = Some False" using p(6) a(1) by (simp add: accounted_def)
  ultimately show ?thesis using ok by (auto simp: take_over_def arp_ok_def)
qed

text \<open>The queue of an entry that waits, after a request was sent or not.\<close>

lemma queue_packet_ok:
  assumes ok: "arp_ok own s" and a: "a \<in># own" "count own a < 247" and i: "i < 10" and pe: "e_state (arp_table s ! i) = ETHARP_STATE_PENDING"
  shows "\<exists>err s'. do { (b, s4) \<leftarrow> take_over x a s; (case b of None \<Rightarrow> Some (ERR_MEM, s4) | Some b \<Rightarrow> enqueue i b s4) } = Some (err, s') \<and> arp_ok own s'"
proof -
  obtain st where t: "take_over x a s = Some (Some a, s\<lparr>pstore := st\<rparr>)" "arp_ok (add_mset a own) (s\<lparr>pstore := st\<rparr>)"
    using take_over_ok [OF ok a] by blast
  then show ?thesis using enqueue_ok [OF t(2) i] pe by auto
qed

lemma not_pending_stable: "used e \<Longrightarrow> e_state e \<noteq> ETHARP_STATE_PENDING \<Longrightarrow> stable e"
  by (cases "e_state e") (auto simp: used_def stable_def)

definition may_send :: "nat multiset \<Rightarrow> nat option \<Rightarrow> bool" where
  "may_send own q \<longleftrightarrow> (case q of None \<Rightarrow> True | Some a \<Rightarrow> a \<in># own \<and> count own a < 247)"

text \<open>\<open>etharp_query\<close> from the entry that was found on.\<close>

lemma query_found_ok:
  assumes ok: "arp_ok own s" and hw: "hwaddr_len nif = 6" and q: "may_send own q" and i: "i < 10" and u: "used (arp_table s ! i)"
    and s3: "(if rq then do { (err, u) \<leftarrow> etharp_request x nif ip s;
           Some (err, if err = ERR_OK \<and> e_state (arp_table u ! i) = ETHARP_STATE_PENDING \<and> re then upd_entry i (\<lambda>e. e\<lparr>ctime := 0\<rparr>) u else u) }
         else Some (ERR_MEM, s)) = Some (result, s3)"
  shows "\<exists>err s'. (case q of None \<Rightarrow> Some (result, s3)
     | Some a \<Rightarrow> if stable (arp_table s3 ! i) then output_at x nif a (ethaddr (arp_table s3 ! i)) (s3\<lparr>etharp_cached_entry := i\<rparr>)
         else do { (b, s4) \<leftarrow> take_over x a s3; (case b of None \<Rightarrow> Some (ERR_MEM, s4) | Some b \<Rightarrow> enqueue i b s4) }) = Some (err, s') \<and> arp_ok own s'"
proof -
  obtain err r e where rq: "etharp_request x nif ip s = Some (err, s\<lparr>reg_out := r, penv := e\<rparr>)" using etharp_request_upd(2) [OF hw] by blast
  note p = arp_ok_parts [OF ok]
  have "entry_ok ((arp_table s ! i)\<lparr>ctime := 0\<rparr>)" using p(4) [OF i] by (auto simp: entry_ok_def used_def cdefs)
  then have z: "arp_ok own (upd_entry i (\<lambda>e. e\<lparr>ctime := 0\<rparr>) (s\<lparr>reg_out := r, penv := e\<rparr>))"
    using ok i u table_only_at [OF p(1) i u] by (intro arp_ok_entry) simp_all
  have ok3: "arp_ok own s3" and u3: "used (arp_table s3 ! i)"
    using s3 rq ok z u i p(2) by (auto simp: used_def split: if_splits)
  show ?thesis
  proof (cases q)
    case None
    then show ?thesis using ok3 by simp
  next
    case (Some a)
    then have a: "a \<in># own" "count own a < 247" using q by (simp_all add: may_send_def)
    show ?thesis
    proof (cases "stable (arp_table s3 ! i)")
      case True
      then show ?thesis using Some output_ok [OF arp_ok_cached [OF i ok3] hw a(1)] by simp
    next
      case False
      then have "e_state (arp_table s3 ! i) = ETHARP_STATE_PENDING" using u3 not_pending_stable by blast
      then show ?thesis using Some False queue_packet_ok [OF ok3 a i] by simp
    qed
  qed
qed

lemma query_ok:
  assumes ok: "arp_ok own s" and hw: "hwaddr_len nif = 6" and q: "may_send own q"
  shows "\<exists>err s'. etharp_query x nif ip q s = Some (err, s') \<and> arp_ok own s'"
proof (cases "not_unicast nif ip")
  case True
  then show ?thesis using ok by (simp add: etharp_query_def)
next
  case False
  have th: "ETHARP_FLAG_TRY_HARD AND ETHARP_FLAG_FIND_ONLY = 0" "ETHARP_FLAG_TRY_HARD AND ETHARP_FLAG_TRY_HARD \<noteq> 0" by (simp_all add: cdefs)
  obtain i s1 where f: "etharp_find_entry (Some ip) ETHARP_FLAG_TRY_HARD s = Some (Some i, s1)" "arp_ok own s1" "found ip i s s1"
    using find_entry_ok [OF ok, of ip ETHARP_FLAG_TRY_HARD] th by auto
  have i: "i < 10" "e_ipaddr (arp_table s1 ! i) = ip" "only_at i ip (arp_table s1)" using f(3) by (auto simp: found_def)
  note p = arp_ok_parts [OF f(2)]
  define new where "new \<longleftrightarrow> e_state (arp_table s1 ! i) = ETHARP_STATE_EMPTY"
  define s2 where "s2 = (if new then upd_entry i (\<lambda>e. e\<lparr>e_state := ETHARP_STATE_PENDING, e_netif := True\<rparr>) s1 else s1)"
  have "entry_ok ((arp_table s1 ! i)\<lparr>e_state := ETHARP_STATE_PENDING, e_netif := True\<rparr>)" if new
    using p(4) [OF i(1)] f(3) that by (auto simp: entry_ok_def used_def found_def new_def cdefs)
  then have ok2: "arp_ok own s2" unfolding s2_def using f(2) i by (auto intro!: arp_ok_entry)
  have u2: "used (arp_table s2 ! i)" using i p(2) by (auto simp: s2_def new_def used_def)
  let ?rq = "if new \<or> q = None then do { (err, u) \<leftarrow> etharp_request x nif ip s2;
       Some (err, if err = ERR_OK \<and> e_state (arp_table u ! i) = ETHARP_STATE_PENDING \<and> \<not> new then upd_entry i (\<lambda>e. e\<lparr>ctime := 0\<rparr>) u else u) }
     else Some (ERR_MEM, s2)"
  obtain err rr e where "etharp_request x nif ip s2 = Some (err, s2\<lparr>reg_out := rr, penv := e\<rparr>)" using etharp_request_upd(2) [OF hw] by blast
  then have "\<exists>result s3. ?rq = Some (result, s3)" by (cases "new \<or> q = None") simp_all
  then obtain result s3 where r: "?rq = Some (result, s3)" by blast
  show ?thesis unfolding etharp_query_def if_not_P [OF False] f(1) Let_def bind.bind_lunit prod.case option.case
      new_def [symmetric] s2_def [symmetric] r by (rule query_found_ok [OF ok2 hw q i(1) u2 r])
qed

lemma find_stable_some: "find_stable ip k es = Some i \<Longrightarrow> k \<le> i \<and> i < k + length es \<and> stable (es ! (i - k)) \<and> e_ipaddr (es ! (i - k)) = ip"
proof (induction es arbitrary: k)
  case (Cons e es)
  show ?case
  proof (cases "stable e \<and> ip = e_ipaddr e")
    case True
    then show ?thesis using Cons.prems by (simp split: if_splits)
  next
    case False
    then have "find_stable ip (Suc k) es = Some i" using Cons.prems by (simp split: if_splits)
    from Cons.IH [OF this] show ?thesis by (auto simp: nth_Cons split: nat.splits) (metis Suc_diff_Suc Suc_le_eq diff_Suc_Suc old.nat.inject)+
  qed
qed simp

lemma etharp_output_ok:
  assumes ok: "arp_ok own s" and hw: "hwaddr_len nif = 6" and a: "may_send own (Some a)"
  shows "\<exists>err s'. etharp_output x nif a ip s = Some (err, s') \<and> arp_ok own s'"
proof -
  note p = arp_ok_parts [OF ok]
  have m: "a \<in># own" using a by (simp add: may_send_def)
  have to: "\<exists>err s'. (let c = arp_table s ! etharp_cached_entry s in
       if stable c \<and> dst = e_ipaddr c then etharp_output_to_arp_index x nif a (etharp_cached_entry s) s
       else case find_stable dst 0 (arp_table s) of
              Some i \<Rightarrow> etharp_output_to_arp_index x nif a i (s\<lparr>etharp_cached_entry := i\<rparr>)
            | None \<Rightarrow> etharp_query x nif dst (Some a) s) = Some (err, s') \<and> arp_ok own s'" for dst
  proof (cases "stable (arp_table s ! etharp_cached_entry s) \<and> dst = e_ipaddr (arp_table s ! etharp_cached_entry s)")
    case True
    then show ?thesis using output_index_ok [OF ok hw m p(3)] by simp
  next
    case False
    show ?thesis
    proof (cases "find_stable dst 0 (arp_table s)")
      case None
      then show ?thesis unfolding Let_def if_not_P [OF False] using query_ok [OF ok hw a] by simp
    next
      case (Some i)
      then have "i < 10" "stable (arp_table s ! i)" using find_stable_some [OF Some] p(2) by auto
      then show ?thesis unfolding Let_def if_not_P [OF False] using Some output_index_ok [OF arp_ok_cached [OF _ ok] hw m, of i i] by simp
    qed
  qed
  show ?thesis using output_ok [OF ok hw m] to ok unfolding etharp_output_def by (auto split: option.split simp: Let_def)
qed

section \<open>Frames\<close>

text \<open>A packet that leaves as one frame: room for the Ethernet header, and cut at multiples of four bytes with it.\<close>

definition framed :: "pchain \<Rightarrow> bool" where
  "framed c \<longleftrightarrow> c \<noteq> [] \<and> chain_ok c \<and> p_type (hd c) AND PBUF_TYPE_FLAG_STRUCT_DATA_CONTIGUOUS \<noteq> 0
     \<and> fst (pbuf_add_header (hd c) 14) = 0 \<and> length (chain_bytes c) + 14 < 2048 \<and> cut_aligned (snd (pbuf_add_header (hd c) 14) # tl c)"

definition ip_frame :: "netif \<Rightarrow> u8 list \<Rightarrow> pchain \<Rightarrow> u8 list" where
  "ip_frame nif dst c = dst @ hwaddr nif @ [8, 0] @ chain_bytes c"

definition sends_frames :: "arp_env \<Rightarrow> netif \<Rightarrow> bool" where
  "sends_frames x nif \<longleftrightarrow> hwaddr_len nif = 6 \<and> length (hwaddr nif) = 6 \<and> (\<forall>q. 3 \<le> length (a_after x q))"

lemma tx_fifo_fields [simp]:
  "tx_fifo (s\<lparr>pstore := st\<rparr>) = tx_fifo s" "tx_fifo (s\<lparr>penv := e\<rparr>) = tx_fifo s" "tx_fifo (s\<lparr>arp_table := t\<rparr>) = tx_fifo s"
  "tx_fifo (s\<lparr>memp_arp_queue := m\<rparr>) = tx_fifo s" "tx_fifo (s\<lparr>etharp_cached_entry := i\<rparr>) = tx_fifo s" "tx_fifo (upd_entry i f s) = tx_fifo s"
  by (simp_all add: tx_fifo_def upd_entry_def)

lemma output_at_frame:
  assumes "sends_frames x nif" and "framed (pstore s a)" and "length dst = 6"
  shows "\<exists>r c ws. output_at x nif a dst s = Some (ERR_OK, s\<lparr>reg_out := r, pstore := (pstore s)(a := c)\<rparr>)
     \<and> tx_fifo (s\<lparr>reg_out := r\<rparr>) = tx_fifo s @ ws \<and> tx_frame ws = ip_frame nif dst (pstore s a)"
proof -
  obtain h t where c: "pstore s a = h # t" using assms(2) by (cases "pstore s a") (auto simp: framed_def)
  have h': "pbuf_add_header h 14 = (0, snd (pbuf_add_header h 14))" using assms(2) by (simp add: framed_def c prod_eq_iff)
  have hw: "hwaddr_len nif = 6" "length (hwaddr nif) = 6" "\<forall>q. 3 \<le> length (a_after x q)" using assms(1) by (auto simp: sends_frames_def)
  obtain q s1 ws where o: "ethernet_output (a_after x) nif (h # t) (hwaddr nif) dst ETHTYPE_IP s = Some (ERR_OK, q, s1)" "tx_fifo s1 = tx_fifo s @ ws"
    "tx_frame ws = dst @ hwaddr nif @ store16 (lwip_htons ETHTYPE_IP) @ chain_bytes (h # t)"
    using ethernet_output_frame [OF _ _ h' _ _ hw(3,1,2) assms(3), of t ETHTYPE_IP s] assms(2) by (auto simp: framed_def c simp del: chain_bytes_simps)
  obtain r where r: "s1 = s\<lparr>reg_out := r\<rparr>" using ethernet_output_upd [OF hw(1), of "h # t" "a_after x" "hwaddr nif" dst ETHTYPE_IP s] o(1) by auto
  have "store16 (lwip_htons ETHTYPE_IP) = [8, 0]" by (simp add: store16_def lwip_htons_def PP_HTONS_def cdefs)
  then have "tx_frame ws = ip_frame nif dst (pstore s a)" using o(3) by (simp add: ip_frame_def c del: chain_bytes_simps)
  moreover have "output_at x nif a dst s = Some (ERR_OK, s\<lparr>reg_out := r, pstore := (pstore s)(a := q)\<rparr>)" using o(1) by (simp add: output_at_def c r)
  ultimately show ?thesis using o(2) r by blast
qed

lemma send_queue_frames:
  assumes fr: "sends_frames x nif" and dst: "length dst = 6" and "\<forall>a\<in>set q. framed (pstore s a)" and "distinct q"
    and "accounted (mset q + M) (pstore s)" and "send_queue x nif i dst q s = Some s'"
  shows "\<exists>wss. tx_fifo s' = tx_fifo s @ concat wss \<and> map tx_frame wss = map (\<lambda>a. ip_frame nif dst (pstore s a)) q"
  using assms
proof (induction q arbitrary: s)
  case Nil
  then show ?case by (intro exI [of _ "[]"]) simp
next
  case (Cons a q)
  let ?s = "upd_entry i (\<lambda>e. e\<lparr>arp_q := q\<rparr>) (s\<lparr>memp_arp_queue := memp_arp_queue s + 1\<rparr>)"
  obtain r c ws where o: "output_at x nif a dst ?s = Some (ERR_OK, ?s\<lparr>reg_out := r, pstore := (pstore s)(a := c)\<rparr>)"
    "tx_fifo (?s\<lparr>reg_out := r\<rparr>) = tx_fifo s @ ws" "tx_frame ws = ip_frame nif dst (pstore s a)"
    using output_at_frame [OF fr, of ?s a dst] Cons.prems(3) dst by auto
  have acc0: "accounted (mset (a # q) + M) ((pstore s)(a := c))"
    using output_at_keeps [OF _ _ _ o(1), of "mset (a # q) + M"] Cons.prems(5) fr by (simp add: sends_frames_def)
  let ?s1 = "?s\<lparr>reg_out := r, pstore := (pstore s)(a := c)\<rparr>"
  obtain d e where f: "free_at a ?s1 = Some (?s1\<lparr>pstore := (pstore ?s1)(a := d), penv := e\<rparr>)" "accounted (mset q + M) ((pstore ?s1)(a := d))"
    using free_at_ok [of a "mset q + M" ?s1] acc0 by auto
  let ?s2 = "?s1\<lparr>pstore := (pstore ?s1)(a := d), penv := e\<rparr>"
  have same: "pstore ?s2 b = pstore s b" if "b \<in> set q" for b using that Cons.prems(4) by auto
  have acc: "accounted (mset q + M) (pstore ?s2)" using f(2) by (simp del: fun_upd_apply)
  have "send_queue x nif i dst q ?s2 = Some s'" using Cons.prems(6) o(1) f(1) by simp
  then obtain wss where "tx_fifo s' = tx_fifo ?s2 @ concat wss" "map tx_frame wss = map (\<lambda>a. ip_frame nif dst (pstore ?s2 a)) q"
    using Cons.IH [OF fr dst _ _ acc] Cons.prems(3,4) same by (metis distinct.simps(2) list.set_intros(2))
  moreover have "map (\<lambda>a. ip_frame nif dst (pstore ?s2 a)) q = map (\<lambda>a. ip_frame nif dst (pstore s a)) q" using same by (intro map_cong) simp_all
  moreover have "tx_fifo ?s2 = tx_fifo s @ ws" using o(2) by (simp add: tx_fifo_def)
  ultimately show ?case using o(3) by (intro exI [of _ "ws # wss"]) simp
qed

section \<open>The learned address is used\<close>

lemma resolved_entry:
  assumes ok: "table_ok (arp_table s)" and r: "resolved ip mac k s" and i: "i < 10" "stable (arp_table s ! i)" "e_ipaddr (arp_table s ! i) = ip"
  shows "e_state (arp_table s ! i) = ETHARP_STATE_STABLE" "ethaddr (arp_table s ! i) = mac" "unat (ctime (arp_table s ! i)) = k"
proof -
  obtain j where j: "j < 10" "e_state (arp_table s ! j) = ETHARP_STATE_STABLE" "e_ipaddr (arp_table s ! j) = ip" "ethaddr (arp_table s ! j) = mac" "unat (ctime (arp_table s ! j)) = k"
    using r by (auto simp: resolved_def)
  have u: "used (arp_table s ! i)" "used (arp_table s ! j)" using i(2) j(2) by (auto simp: stable_def used_def)
  have "i = j" using ok table_len [OF ok] i(1,3) j(1,3) u unfolding table_ok_def by metis
  then show "e_state (arp_table s ! i) = ETHARP_STATE_STABLE" "ethaddr (arp_table s ! i) = mac" "unat (ctime (arp_table s ! i)) = k" using j by simp_all
qed

lemma find_stable_none: "find_stable ip k es = None \<Longrightarrow> e \<in> set es \<Longrightarrow> stable e \<Longrightarrow> e_ipaddr e \<noteq> ip"
  by (induction es arbitrary: k) (auto split: if_splits)

lemma output_resolved:
  assumes ok: "table_ok (arp_table s)" "etharp_cached_entry s < 10" and r: "resolved hop mac k s" "k < 270" and d: "ip4_addr_isbroadcast_u32 ip nif = 0" "\<not> ip4_addr_ismulticast ip" "next_hop nif ip = Some hop"
  shows "\<exists>i<10. etharp_output x nif a ip s = output_at x nif a mac (s\<lparr>etharp_cached_entry := i\<rparr>)"
proof -
  have len: "length (arp_table s) = 10" by (rule table_len [OF ok(1)])
  have idx: "etharp_output_to_arp_index x nif a i u = output_at x nif a mac u"
    if "i < 10" "stable (arp_table s ! i)" "e_ipaddr (arp_table s ! i) = hop" "arp_table u = arp_table s" for i u
    using resolved_entry [OF ok(1) r(1) that(1-3)] that(2,4) r(2) by (simp add: etharp_output_to_arp_index_def word_le_nat_alt cdefs)
  have out: "etharp_output x nif a ip s =
      (let c = arp_table s ! etharp_cached_entry s in
       if stable c \<and> hop = e_ipaddr c then etharp_output_to_arp_index x nif a (etharp_cached_entry s) s
       else case find_stable hop 0 (arp_table s) of
              Some i \<Rightarrow> etharp_output_to_arp_index x nif a i (s\<lparr>etharp_cached_entry := i\<rparr>)
            | None \<Rightarrow> etharp_query x nif hop (Some a) s)"
    using d by (simp add: etharp_output_def)
  show ?thesis
  proof (cases "stable (arp_table s ! etharp_cached_entry s) \<and> hop = e_ipaddr (arp_table s ! etharp_cached_entry s)")
    case True
    then show ?thesis unfolding out Let_def using idx [OF ok(2), of s] ok(2) by (intro exI [of _ "etharp_cached_entry s"]) simp
  next
    case False
    obtain j where "j < 10" "e_state (arp_table s ! j) = ETHARP_STATE_STABLE" "e_ipaddr (arp_table s ! j) = hop" using r(1) by (auto simp: resolved_def)
    then have "arp_table s ! j \<in> set (arp_table s)" "stable (arp_table s ! j)" "e_ipaddr (arp_table s ! j) = hop" using len by (auto simp: stable_def)
    then obtain i where i: "find_stable hop 0 (arp_table s) = Some i" using find_stable_none by fastforce
    have "i < 10" "stable (arp_table s ! i)" "e_ipaddr (arp_table s ! i) = hop" using find_stable_some [OF i] len by auto
    then show ?thesis unfolding out Let_def if_not_P [OF False] i option.case using idx [of i "s\<lparr>etharp_cached_entry := i\<rparr>"] by auto
  qed
qed

text \<open>What a packet of address resolution says to this station.\<close>

definition arp_valid :: "pchain \<Rightarrow> bool" where
  "arp_valid p \<longleftrightarrow> get16 (hd p) 0 = PP_HTONS LWIP_IANA_HWTYPE_ETHERNET \<and> get8 (hd p) 4 = 6 \<and> get8 (hd p) 5 = 4 \<and> get16 (hd p) 2 = PP_HTONS ETHTYPE_IP"

definition arp_for_us :: "pchain \<Rightarrow> netif \<Rightarrow> bool" where
  "arp_for_us p nif \<longleftrightarrow> ip_addr nif \<noteq> IPADDR_ANY \<and> get32 (hd p) 24 = ip_addr nif"

lemma input_resolves:
  assumes ok: "arp_ok own s" and hw: "hwaddr_len nif = 6" and p: "arp_readable p" and v: "arp_valid p" "arp_for_us p nif"
    and u: "\<not> not_unicast nif (get32 (hd p) 14)"
  shows "\<exists>s'. etharp_input x p nif s = Some s' \<and> arp_ok own s' \<and> resolved (get32 (hd p) 14) (pbuf_read (hd p) 8 6) 0 s'"
proof -
  obtain h t where c: "p = h # t" using p by (cases p) (auto simp: arp_readable_def pool_chain_def)
  have l: "length (pbuf_read h 8 6) = 6" using p by (auto simp: arp_readable_def c pbuf_read_def)
  obtain s1 where up: "etharp_update_arp_entry x nif (get32 h 14) (pbuf_read h 8 6) ETHARP_FLAG_TRY_HARD s = Some (ERR_OK, s1)" "arp_ok own s1"
    "resolved (get32 h 14) (pbuf_read h 8 6) 0 s1"
    using update_entry_ok [OF ok hw l, of x "get32 h 14" ETHARP_FLAG_TRY_HARD] u by (auto simp: c)
  obtain err' r e where w: "etharp_raw x nif (hwaddr nif) (pbuf_read h 8 6) (hwaddr nif) (ip_addr nif) (pbuf_read h 8 6) (get32 h 14) ARP_REPLY s1 = Some (err', s1\<lparr>reg_out := r, penv := e\<rparr>)"
    using etharp_raw_upd [OF hw] by blast
  have "\<exists>r e. etharp_input x p nif s = ip4_drop p (s1\<lparr>reg_out := r, penv := e\<rparr>)"
  proof (cases "get16 h 6 = PP_HTONS ARP_REQUEST \<and> get32 h 14 \<noteq> ip_addr nif")
    case True
    then have "etharp_input x p nif s = ip4_drop p (s1\<lparr>reg_out := r, penv := e\<rparr>)"
      using v up(1) w by (simp add: etharp_input_def c arp_valid_def arp_for_us_def Let_def)
    then show ?thesis by blast
  next
    case False
    then have "etharp_input x p nif s = ip4_drop p (s1\<lparr>reg_out := reg_out s1, penv := penv s1\<rparr>)"
      using v up(1) w by (auto simp: etharp_input_def c arp_valid_def arp_for_us_def Let_def)
    then show ?thesis by blast
  qed
  then obtain r e where inp: "etharp_input x p nif s = ip4_drop p (s1\<lparr>reg_out := r, penv := e\<rparr>)" by blast
  obtain e' where "ip4_drop p (s1\<lparr>reg_out := r, penv := e\<rparr>) = Some (s1\<lparr>reg_out := r, penv := e'\<rparr>)"
    using drop_pool_chain [of p "s1\<lparr>reg_out := r, penv := e\<rparr>"] p by (auto simp: arp_readable_def)
  then show ?thesis using inp up(2,3) by (simp add: c resolved_def)
qed

section \<open>Life of an entry\<close>

definition life :: "etharp_entry \<Rightarrow> nat" where
  "life e = (if e_state e = ETHARP_STATE_PENDING then 5 else 300)"

lemma aged_step:
  assumes ok: "entry_ok e" and u: "used e"
  shows "if unat (ctime e) + 1 < life e
    then entry_ok (aged e) \<and> used (aged e) \<and> e_ipaddr (aged e) = e_ipaddr e \<and> ethaddr (aged e) = ethaddr e \<and> arp_q (aged e) = arp_q e
      \<and> life (aged e) = life e \<and> stable (aged e) = stable e \<and> unat (ctime (aged e)) = unat (ctime e) + 1
      \<and> (e_state e = ETHARP_STATE_STABLE \<longrightarrow> e_state (aged e) = ETHARP_STATE_STABLE)
    else aged e = empty_entry"
proof -
  have b: "unat (ctime e) < 300" using ok by (auto simp: entry_ok_def cdefs word_less_nat_alt split: if_splits)
  then have s: "unat (ctime e + 1) = unat (ctime e) + 1" by (simp add: unat_word_ariths)
  have le: "ARP_MAXAGE \<le> ctime e + 1 \<longleftrightarrow> 300 \<le> unat (ctime e) + 1" "ARP_MAXPENDING \<le> ctime e + 1 \<longleftrightarrow> 5 \<le> unat (ctime e) + 1"
    using s by (simp_all add: word_le_nat_alt cdefs)
  have em: "aged e = empty_entry \<longleftrightarrow> life e \<le> unat (ctime e) + 1" unfolding aged_empty [OF u] le using b by (auto simp: life_def)
  show ?thesis
  proof (cases "unat (ctime e) + 1 < life e")
    case True
    then have ne: "aged e \<noteq> empty_entry" using em by simp
    have "ethaddr (aged e) = ethaddr e \<and> life (aged e) = life e \<and> stable (aged e) = stable e \<and> ctime (aged e) = ctime e + 1
        \<and> (e_state e = ETHARP_STATE_STABLE \<longrightarrow> e_state (aged e) = ETHARP_STATE_STABLE)"
      using ne u by (auto simp: aged_def used_def Let_def life_def stable_def)
    then show ?thesis using True aged_ok [OF ok] ne s u by simp
  next
    case False
    then show ?thesis using em by simp
  qed
qed

lemma aged_empty_pow: "(aged ^^ n) empty_entry = empty_entry"
  by (induction n) (simp_all add: aged_def)

lemma aged_pow:
  assumes "entry_ok e" and "used e"
  shows "if unat (ctime e) + n < life e
    then used ((aged ^^ n) e) \<and> e_ipaddr ((aged ^^ n) e) = e_ipaddr e \<and> ethaddr ((aged ^^ n) e) = ethaddr e \<and> arp_q ((aged ^^ n) e) = arp_q e
      \<and> stable ((aged ^^ n) e) = stable e
      \<and> unat (ctime ((aged ^^ n) e)) = unat (ctime e) + n \<and> (e_state e = ETHARP_STATE_STABLE \<longrightarrow> e_state ((aged ^^ n) e) = ETHARP_STATE_STABLE)
    else (aged ^^ n) e = empty_entry"
  using assms
proof (induction n arbitrary: e)
  case 0
  have "unat (ctime e) < life e" using 0 by (auto simp: entry_ok_def life_def cdefs word_less_nat_alt split: if_splits)
  then show ?case using 0 by simp
next
  case (Suc n)
  show ?case
  proof (cases "unat (ctime e) + 1 < life e")
    case True
    then have "if unat (ctime (aged e)) + n < life (aged e)
      then used ((aged ^^ n) (aged e)) \<and> e_ipaddr ((aged ^^ n) (aged e)) = e_ipaddr (aged e) \<and> ethaddr ((aged ^^ n) (aged e)) = ethaddr (aged e)
        \<and> arp_q ((aged ^^ n) (aged e)) = arp_q (aged e) \<and> stable ((aged ^^ n) (aged e)) = stable (aged e)
        \<and> unat (ctime ((aged ^^ n) (aged e))) = unat (ctime (aged e)) + n
        \<and> (e_state (aged e) = ETHARP_STATE_STABLE \<longrightarrow> e_state ((aged ^^ n) (aged e)) = ETHARP_STATE_STABLE)
      else (aged ^^ n) (aged e) = empty_entry" using aged_step [OF Suc.prems] by (intro Suc.IH) simp_all
    then show ?thesis using True aged_step [OF Suc.prems] by (simp add: funpow_Suc_right del: funpow.simps)
  next
    case False
    then have "aged e = empty_entry" using aged_step [OF Suc.prems] by simp
    then show ?thesis using False by (simp add: funpow_Suc_right aged_empty_pow del: funpow.simps)
  qed
qed

fun tmr_calls :: "arp_env \<Rightarrow> netif \<Rightarrow> nat \<Rightarrow> 'a arp_scheme \<Rightarrow> 'a arp_scheme option" where
  "tmr_calls x nif 0 s = Some s"
| "tmr_calls x nif (Suc n) s = do { s1 \<leftarrow> etharp_tmr x nif s; tmr_calls x nif n s1 }"

lemma tmr_calls_ok:
  assumes "arp_ok own s" and "hwaddr_len nif = 6"
  shows "\<exists>s'. tmr_calls x nif n s = Some s' \<and> arp_ok own s' \<and> arp_table s' = map (aged ^^ n) (arp_table s)"
  using assms
proof (induction n arbitrary: s)
  case 0
  then show ?case by simp
next
  case (Suc n)
  obtain s1 where s1: "etharp_tmr x nif s = Some s1" "arp_ok own s1" "arp_table s1 = map aged (arp_table s)" using etharp_tmr_ok [OF Suc.prems] by blast
  obtain s' where "tmr_calls x nif n s1 = Some s'" "arp_ok own s'" "arp_table s' = map (aged ^^ n) (arp_table s1)" using Suc.IH [OF s1(2) Suc.prems(2)] by blast
  then show ?case using s1 by (simp add: funpow_Suc_right del: funpow.simps)
qed

lemma resolved_aged:
  assumes ok: "arp_ok own s" and r: "resolved ip mac k s" and n: "k + n < 300" and t: "arp_table s' = map (aged ^^ n) (arp_table s)"
  shows "resolved ip mac (k + n) s'"
proof -
  obtain j where j: "j < 10" "e_state (arp_table s ! j) = ETHARP_STATE_STABLE" "e_ipaddr (arp_table s ! j) = ip" "ethaddr (arp_table s ! j) = mac" "unat (ctime (arp_table s ! j)) = k"
    using r by (auto simp: resolved_def)
  have "used (arp_table s ! j)" "life (arp_table s ! j) = 300" using j(2) by (simp_all add: used_def life_def)
  then show ?thesis using aged_pow [OF arp_ok_parts(4) [OF ok j(1)], of n] j n arp_ok_parts(2) [OF ok]
    unfolding resolved_def t by (intro exI [of _ j]) simp
qed

lemma tx_fifo_tables: "reg_out s' = reg_out s \<Longrightarrow> tx_fifo s' = tx_fifo s"
  by (simp add: tx_fifo_def)

section \<open>Calls\<close>

text \<open>
  The calls a program makes, with the references it holds: it submits a new packet, releases one,
  and lets this module work. A packet at an address in use cannot be submitted.
\<close>

datatype arp_call = Call_submit nat pchain | Call_release nat | Call_tmr | Call_input pchain | Call_output nat u32
  | Call_query u32 "nat option" | Call_cleanup

fun allowed :: "nat multiset \<Rightarrow> 'a arp_scheme \<Rightarrow> arp_call \<Rightarrow> bool" where
  "allowed own s (Call_submit a c) \<longleftrightarrow> a \<notin># queued (arp_table s) + own \<and> c \<noteq> [] \<and> list_all pbuf_live c \<and> p_ref (hd c) = 1 \<and> copy_needed c = Some False"
| "allowed own s (Call_release a) \<longleftrightarrow> a \<in># own"
| "allowed own s (Call_input p) \<longleftrightarrow> arp_readable p"
| "allowed own s (Call_output a ip) \<longleftrightarrow> may_send own (Some a)"
| "allowed own s (Call_query ip q) \<longleftrightarrow> may_send own q"
| "allowed own s c \<longleftrightarrow> True"

fun arp_run :: "arp_env \<Rightarrow> netif \<Rightarrow> arp_call \<Rightarrow> 'a arp_scheme \<Rightarrow> 'a arp_scheme option" where
  "arp_run x nif (Call_submit a c) s = Some (s\<lparr>pstore := (pstore s)(a := c)\<rparr>)"
| "arp_run x nif (Call_release a) s = free_at a s"
| "arp_run x nif Call_tmr s = etharp_tmr x nif s"
| "arp_run x nif (Call_input p) s = etharp_input x p nif s"
| "arp_run x nif (Call_output a ip) s = map_option snd (etharp_output x nif a ip s)"
| "arp_run x nif (Call_query ip q) s = map_option snd (etharp_query x nif ip q s)"
| "arp_run x nif Call_cleanup s = etharp_cleanup_netif s"

fun own_after :: "arp_call \<Rightarrow> nat multiset \<Rightarrow> nat multiset" where
  "own_after (Call_submit a c) own = add_mset a own"
| "own_after (Call_release a) own = own - {#a#}"
| "own_after c own = own"

text \<open>Start: an empty table, all queue elements free.\<close>

definition arp_start :: "'a arp_scheme \<Rightarrow> bool" where
  "arp_start s \<longleftrightarrow> arp_table s = replicate 10 empty_entry \<and> etharp_cached_entry s = 0 \<and> memp_arp_queue s = MEMP_NUM_ARP_QUEUE"

inductive arp_reach :: "arp_env \<Rightarrow> netif \<Rightarrow> nat multiset \<Rightarrow> 'a arp_scheme \<Rightarrow> bool" for x nif where
  start: "arp_start s \<Longrightarrow> arp_reach x nif {#} s"
| call: "arp_reach x nif own s \<Longrightarrow> allowed own s c \<Longrightarrow> arp_run x nif c s = Some s' \<Longrightarrow> arp_reach x nif (own_after c own) s'"

lemma start_ok: "arp_start s \<Longrightarrow> arp_ok {#} s"
  by (auto simp: arp_start_def arp_ok_def table_ok_def queued_def accounted_def cdefs list_all_iff)

lemma run_ok:
  assumes ok: "arp_ok own s" and hw: "hwaddr_len nif = 6" and al: "allowed own s c"
  shows "\<exists>s'. arp_run x nif c s = Some s' \<and> arp_ok (own_after c own) s'"
proof (cases c)
  case (Call_submit a d)
  have "accounted (add_mset a (queued (arp_table s) + own)) ((pstore s)(a := d))"
    using al arp_ok_parts(6) [OF ok] by (intro accounted_upd) (auto simp: Call_submit not_in_iff)
  then show ?thesis using ok by (simp add: Call_submit arp_ok_def)
next
  case (Call_release a)
  then obtain o' where o': "own = add_mset a o'" using al by (auto dest: multi_member_split)
  obtain d e where "free_at a s = Some (s\<lparr>pstore := (pstore s)(a := d), penv := e\<rparr>)" "accounted (queued (arp_table s) + o') ((pstore s)(a := d))"
    using free_at_ok [of a "queued (arp_table s) + o'" s] arp_ok_parts(6) [OF ok] by (auto simp: o')
  then show ?thesis using ok by (simp add: Call_release o' arp_ok_def)
next
  case Call_tmr
  then show ?thesis using etharp_tmr_ok [OF ok hw, of x] by auto
next
  case (Call_input p)
  then show ?thesis using input_ok [OF ok hw, of p x] al by simp
next
  case (Call_output a ip)
  then show ?thesis using etharp_output_ok [OF ok hw, of a x ip] al by auto
next
  case (Call_query ip q)
  then show ?thesis using query_ok [OF ok hw, of q x ip] al by auto
next
  case Call_cleanup
  then show ?thesis using cleanup_loop_ok [OF ok, of "[0..<10]"] by (auto simp: etharp_cleanup_netif_def cdefs)
qed

lemma reach_ok: "arp_reach x nif own s \<Longrightarrow> hwaddr_len nif = 6 \<Longrightarrow> arp_ok own s"
proof (induction rule: arp_reach.induct)
  case (call own s c s')
  then show ?case using run_ok [of own s nif c x] by auto
qed (rule start_ok)

section \<open>Properties\<close>

text \<open>
  C12. Address resolution runs safely: from an empty table, in any order of submitting and releasing
  packets, timer calls, received packets, output, queries and the clean-up of the interface, every
  call returns (no assertion fails, no released packet is used, no reference is released twice), and
  the table stays well formed: ten entries, no two for one address, packets queued only on pending
  entries and at most three on each, every queue element either free or in a queue, and the reference
  count of every packet exactly the number of references held by queues and by the program.
\<close>

theorem arp_runs_safe:
  assumes "arp_reach x nif own s" and "hwaddr_len nif = 6"
  shows "arp_ok own s \<and> (\<forall>c. allowed own s c \<longrightarrow> (\<exists>s'. arp_run x nif c s = Some s' \<and> arp_ok (own_after c own) s'))"
  using reach_ok [OF assms] run_ok [OF _ assms(2)] by blast

definition sample_arp :: arp where
  "sample_arp = \<lparr>uart_state = (\<lambda>_. 0), uart_state_n = 0, uart_rx = (\<lambda>_. 0), uart_rx_n = 0, uart_ctrl = 3, uart_bauddiv = 217,
     uart_tx = [], uart_buf = [], reg_in = (\<lambda>_ _. 0), reg_n = (\<lambda>_. 0), reg_out = [], penv = sample_env,
     arp_table = replicate 10 empty_entry, etharp_cached_entry = 0, memp_arp_queue = 8, pstore = (\<lambda>_. [])\<rparr>"

definition sample_arp_env :: arp_env where
  "sample_arp_env = \<lparr>a_malloc = (\<lambda>n. Some (replicate (unat n) 0)), a_after = (\<lambda>_. [0, 0, 0]), a_new = (\<lambda>_. 0)\<rparr>"

text \<open>A UDP packet with room for the Ethernet header, and an answer of 10.0.2.2.\<close>

definition out_packet :: pchain where
  "out_packet = [pbuf_init_alloced_pbuf (replicate 14 0 @ [1, 2, 3, 4, 5, 6]) 14 6 6 PBUF_RAM 0]"

definition router_mac :: "u8 list" where
  "router_mac = [0x52, 0x55, 0x0A, 0, 2, 2]"

definition answer_packet :: pchain where
  "answer_packet = [pbuf_init_alloced_pbuf (replicate 14 0 @ [0, 1, 8, 0, 6, 4, 0, 2] @ router_mac @ [10, 0, 2, 2, 2, 0, 0, 0, 0, 1, 10, 0, 2, 15] @ replicate 1494 0)
     14 28 28 PBUF_POOL 0]"

lemma sample_arp_start: "arp_start sample_arp"
  by (simp add: arp_start_def sample_arp_def cdefs)

lemma out_packet_ok: "out_packet \<noteq> []" "list_all pbuf_live out_packet" "p_ref (hd out_packet) = 1" "copy_needed out_packet = Some False"
  by (simp_all add: out_packet_def pbuf_init_alloced_pbuf_def pbuf_live_def pbuf_get_allocsrc_def PBUF_NEEDS_COPY_def cdefs)

theorem arp_runs_safe_witness:
  "\<exists>s'. arp_run sample_arp_env small_netif (Call_output 7 (IP4_ADDR 10 0 2 2)) (sample_arp\<lparr>pstore := (pstore sample_arp)(7 := out_packet)\<rparr>) = Some s' \<and> arp_ok {#7#} s'"
proof -
  let ?s = "sample_arp\<lparr>pstore := (pstore sample_arp)(7 := out_packet)\<rparr>"
  have "allowed {#} sample_arp (Call_submit 7 out_packet)"
    using out_packet_ok by (simp add: queued_def sample_arp_def)
  then have "arp_reach sample_arp_env small_netif (own_after (Call_submit 7 out_packet) {#}) ?s"
    by (rule arp_reach.call [OF arp_reach.start [OF sample_arp_start]]) simp
  then have r: "arp_reach sample_arp_env small_netif {#7#} ?s" by simp
  have "allowed {#7#} ?s (Call_output 7 (IP4_ADDR 10 0 2 2))" by (simp add: may_send_def)
  then show ?thesis using arp_runs_safe [OF r] by (fastforce simp: small_netif_def)
qed

text \<open>
  C14. What address resolution learns is what it uses: after a valid packet that is addressed to
  this station arrives from a unicast address, and for 269 timer calls (seconds) after that, a
  packet whose next hop is that address leaves at once, as one frame from this station's address to
  the hardware address the packet carried, with nothing sent before it.
\<close>

theorem arp_answer_is_used:
  assumes "arp_ok own s" and "sends_frames x nif" and "arp_readable p" and "arp_valid p" and "arp_for_us p nif" and "\<not> not_unicast nif (get32 (hd p) 14)"
    and "ip4_addr_isbroadcast_u32 ip nif = 0" and "\<not> ip4_addr_ismulticast ip" and "next_hop nif ip = Some (get32 (hd p) 14)"
    and "framed c" and "n < 270"
  shows "\<exists>s1 s2 s3 ws. etharp_input x p nif s = Some s1 \<and> tmr_calls x nif n s1 = Some s2
     \<and> etharp_output x nif a ip (s2\<lparr>pstore := (pstore s2)(a := c)\<rparr>) = Some (ERR_OK, s3)
     \<and> tx_fifo s3 = tx_fifo s2 @ ws \<and> tx_frame ws = ip_frame nif (pbuf_read (hd p) 8 6) c"
proof -
  have hw: "hwaddr_len nif = 6" using assms(2) by (simp add: sends_frames_def)
  obtain s1 where s1: "etharp_input x p nif s = Some s1" "arp_ok own s1" "resolved (get32 (hd p) 14) (pbuf_read (hd p) 8 6) 0 s1"
    using input_resolves [OF assms(1) hw assms(3-6)] by blast
  obtain s2 where s2: "tmr_calls x nif n s1 = Some s2" "arp_ok own s2" "arp_table s2 = map (aged ^^ n) (arp_table s1)" using tmr_calls_ok [OF s1(2) hw] by blast
  have r: "resolved (get32 (hd p) 14) (pbuf_read (hd p) 8 6) n s2" using resolved_aged [OF s1(2,3) _ s2(3)] assms(11) by simp
  let ?s = "s2\<lparr>pstore := (pstore s2)(a := c)\<rparr>"
  have "table_ok (arp_table ?s)" "etharp_cached_entry ?s < 10" "resolved (get32 (hd p) 14) (pbuf_read (hd p) 8 6) n ?s"
    using arp_ok_parts(1,3) [OF s2(2)] r by (simp_all add: resolved_def)
  then obtain i where o: "etharp_output x nif a ip ?s = output_at x nif a (pbuf_read (hd p) 8 6) (?s\<lparr>etharp_cached_entry := i\<rparr>)"
    using output_resolved [OF _ _ _ assms(11,7,8,9)] by blast
  have "length (pbuf_read (hd p) 8 6) = 6" using assms(3) by (auto simp: arp_readable_def pbuf_read_def)
  then obtain r' d ws where "output_at x nif a (pbuf_read (hd p) 8 6) (?s\<lparr>etharp_cached_entry := i\<rparr>) = Some (ERR_OK, ?s\<lparr>etharp_cached_entry := i, reg_out := r', pstore := (pstore ?s)(a := d)\<rparr>)"
    "tx_fifo (?s\<lparr>etharp_cached_entry := i, reg_out := r'\<rparr>) = tx_fifo s2 @ ws" "tx_frame ws = ip_frame nif (pbuf_read (hd p) 8 6) c"
    using output_at_frame [OF assms(2), of "?s\<lparr>etharp_cached_entry := i\<rparr>" a "pbuf_read (hd p) 8 6"] assms(10) by auto
  then show ?thesis using s1(1) s2(1) o by (auto simp: tx_fifo_def)
qed

lemma sample_addresses:
  "IP4_ADDR 10 0 2 15 = 0x0F02000A" "IP4_ADDR 10 0 2 2 = 0x0202000A" "IP4_ADDR 255 255 255 0 = 0x00FFFFFF" "IP4_ADDR 162 159 200 1 = 0x01C89FA2"
  by (simp_all add: IP4_ADDR_def PP_HTONL_def LWIP_MAKEU32_def)

lemma answer_packet_facts:
  "arp_readable answer_packet" "arp_valid answer_packet" "arp_for_us answer_packet small_netif" "get32 (hd answer_packet) 14 = IP4_ADDR 10 0 2 2"
  "pbuf_read (hd answer_packet) 8 6 = router_mac"
  by (simp_all add: arp_readable_def arp_valid_def arp_for_us_def answer_packet_def pool_chain_def pool_pbuf_def pbuf_ok_def pbuf_init_alloced_pbuf_def
      get8_def get16_def get32_def pbuf_read_def small_netif_def sample_addresses word_of_bytes_def load16_def PP_HTONS_def router_mac_def cdefs)

lemma out_packet_framed: "framed out_packet"
  by (simp add: framed_def out_packet_def pbuf_init_alloced_pbuf_def pbuf_ok_def pbuf_add_header_def pbuf_add_header_impl_def pbuf_data_def pbuf_read_def cdefs)

lemma router_route:
  "\<not> not_unicast small_netif (IP4_ADDR 10 0 2 2)" "ip4_addr_isbroadcast_u32 (IP4_ADDR 162 159 200 1) small_netif = 0"
  "\<not> ip4_addr_ismulticast (IP4_ADDR 162 159 200 1)" "next_hop small_netif (IP4_ADDR 162 159 200 1) = Some (IP4_ADDR 10 0 2 2)"
  by (simp_all add: not_unicast_def next_hop_def ip4_addr_isbroadcast_u32_def ip4_addr_ismulticast_def ip4_addr_net_eq_def ip4_addr_islinklocal_def small_netif_def
      sample_addresses PP_HTONL_def cdefs)

lemma sample_sends: "sends_frames sample_arp_env small_netif"
  by (simp add: sends_frames_def sample_arp_env_def small_netif_def)

theorem arp_answer_is_used_witness:
  "\<exists>s1 s2 s3 ws. etharp_input sample_arp_env answer_packet small_netif sample_arp = Some s1 \<and> tmr_calls sample_arp_env small_netif 269 s1 = Some s2
     \<and> etharp_output sample_arp_env small_netif 7 (IP4_ADDR 162 159 200 1) (s2\<lparr>pstore := (pstore s2)(7 := out_packet)\<rparr>) = Some (ERR_OK, s3)
     \<and> tx_fifo s3 = tx_fifo s2 @ ws \<and> tx_frame ws = router_mac @ [2, 0, 0, 0, 0, 1, 8, 0, 1, 2, 3, 4, 5, 6]"
proof -
  have "ip_frame small_netif router_mac out_packet = router_mac @ [2, 0, 0, 0, 0, 1, 8, 0, 1, 2, 3, 4, 5, 6]"
    by (simp add: ip_frame_def small_netif_def out_packet_def pbuf_init_alloced_pbuf_def pbuf_data_def pbuf_read_def)
  then show ?thesis
    using arp_answer_is_used [OF start_ok [OF sample_arp_start] sample_sends answer_packet_facts(1-3), unfolded answer_packet_facts(4,5), OF router_route out_packet_framed, of 269 7]
    by simp
qed

text \<open>
  C15. Resolution delivers what waited for it: when the answer for an address with queued packets
  comes in, every queued packet leaves, in the order in which the packets were queued, each as one
  frame to the hardware address of the answer; afterwards the queue is empty and its elements are
  free again.
\<close>

theorem arp_answer_sends_queue:
  assumes "arp_ok own s" and "sends_frames x nif" and "length mac = 6" and "\<not> not_unicast nif ip"
    and "i < 10" and "used (arp_table s ! i)" and "e_ipaddr (arp_table s ! i) = ip" and "arp_q (arp_table s ! i) = q" and "distinct q"
    and "\<forall>a\<in>set q. framed (pstore s a)"
  shows "\<exists>s' wss. etharp_update_arp_entry x nif ip mac fl s = Some (ERR_OK, s') \<and> tx_fifo s' = tx_fifo s @ concat wss
     \<and> map tx_frame wss = map (\<lambda>a. ip_frame nif mac (pstore s a)) q
     \<and> arp_table s' ! i = (arp_table s ! i)\<lparr>arp_q := [], e_state := ETHARP_STATE_STABLE, e_netif := True, ethaddr := mac, ctime := 0\<rparr>
     \<and> memp_arp_queue s' = memp_arp_queue s + length q"
proof -
  have hw: "hwaddr_len nif = 6" using assms(2) by (simp add: sends_frames_def)
  note p = arp_ok_parts [OF assms(1)]
  have mem: "arp_table s ! i \<in> set (arp_table s)" using assms(5) p(2) by simp
  obtain j where f: "etharp_find_entry (Some ip) fl s = Some (Some j, s)" "j = i"
  proof -
    obtain j s1 where f: "etharp_find_entry (Some ip) fl s = Some (Some j, s1)" "found ip j s s1"
      using find_entry_ok [OF assms(1), of ip fl] mem assms(6,7) by blast
    have s1: "s1 = s" "used (arp_table s ! j)" using f(2) mem assms(6,7) by (auto simp: found_def)
    have "j = i" using f(2) s1 p(1,2) assms(5-7) unfolding found_def only_at_def by metis
    then show ?thesis using that f(1) s1(1) by simp
  qed
  let ?s2 = "upd_entry i (\<lambda>e. e\<lparr>e_state := ETHARP_STATE_STABLE, e_netif := True, ethaddr := mac, ctime := 0\<rparr>) s"
  have t2: "i < length (arp_table ?s2)" "arp_q (arp_table ?s2 ! i) = q" using assms(5,8) p(2) by simp_all
  let ?rest = "queued ((arp_table s)[i := empty_entry])"
  have q: "queued (arp_table s) = mset q + ?rest" using queued_upd [of i "arp_table s" empty_entry] assms(5,8) p(2) by (simp add: add.commute)
  have acc: "accounted (mset q + (?rest + own)) (pstore ?s2)" using p(6) by (simp add: q add.assoc)
  obtain r st e where sq: "send_queue x nif i mac q ?s2 = Some (?s2\<lparr>reg_out := r, pstore := st, penv := e, memp_arp_queue := memp_arp_queue ?s2 + length q,
      arp_table := (arp_table ?s2)[i := (arp_table ?s2 ! i)\<lparr>arp_q := []\<rparr>]\<rparr>)" (is "_ = Some ?s'")
    using send_queue_ok [OF hw t2 acc, of x mac] by blast
  obtain wss where "tx_fifo ?s' = tx_fifo ?s2 @ concat wss" "map tx_frame wss = map (\<lambda>a. ip_frame nif mac (pstore ?s2 a)) q"
    using send_queue_frames [OF assms(2,3) _ assms(9) acc sq] assms(10) by auto
  moreover have "arp_table ?s' ! i = (arp_table s ! i)\<lparr>arp_q := [], e_state := ETHARP_STATE_STABLE, e_netif := True, ethaddr := mac, ctime := 0\<rparr>"
    using assms(5) p(2) by simp
  moreover have "etharp_update_arp_entry x nif ip mac fl s = Some (ERR_OK, ?s')"
    using f sq t2(2) assms(3,4) hw by (simp add: etharp_update_arp_entry_def Let_def del: upd_entry_simps)
  ultimately show ?thesis by (intro exI [of _ ?s'] exI [of _ wss]) simp
qed

definition waiting_entry :: etharp_entry where
  "waiting_entry = \<lparr>arp_q = [7], e_ipaddr = IP4_ADDR 10 0 2 2, e_netif = True, ethaddr = ethzero, ctime = 0, e_state = ETHARP_STATE_PENDING\<rparr>"

definition waiting_arp :: arp where
  "waiting_arp = sample_arp\<lparr>arp_table := waiting_entry # replicate 9 empty_entry, memp_arp_queue := 7, pstore := (pstore sample_arp)(7 := out_packet)\<rparr>"

lemma waiting_facts: "arp_table waiting_arp ! 0 = waiting_entry" "pstore waiting_arp 7 = out_packet" "arp_q waiting_entry = [7]" "used waiting_entry" "memp_arp_queue waiting_arp = 7"
  "e_ipaddr waiting_entry = IP4_ADDR 10 0 2 2" "life waiting_entry = 5" "ctime waiting_entry = 0"
  by (simp_all add: waiting_arp_def waiting_entry_def used_def life_def)

lemma waiting_ok: "arp_ok {#} waiting_arp"
proof -
  have t: "arp_table waiting_arp = waiting_entry # replicate 9 empty_entry" by (simp add: waiting_arp_def)
  have e: "entry_ok waiting_entry" by (simp add: entry_ok_def waiting_entry_def ethzero_def used_def cdefs)
  have u: "used ((waiting_entry # replicate 9 empty_entry) ! k) \<Longrightarrow> k = 0" if "k < 10" for k using that by (cases k) auto
  have "table_ok (arp_table waiting_arp)" unfolding table_ok_def t using e u by (auto simp: cdefs list_all_iff)
  moreover have q: "queued (arp_table waiting_arp) = {#7#}" by (simp add: t queued_def waiting_facts)
  moreover have "accounted {#7#} (pstore waiting_arp)" using out_packet_ok by (simp add: accounted_def waiting_facts)
  ultimately show ?thesis by (simp add: arp_ok_def waiting_facts cdefs) (simp add: waiting_arp_def sample_arp_def)
qed

theorem arp_answer_sends_queue_witness:
  "\<exists>s' ws. etharp_update_arp_entry sample_arp_env small_netif (IP4_ADDR 10 0 2 2) router_mac ETHARP_FLAG_FIND_ONLY waiting_arp = Some (ERR_OK, s')
     \<and> tx_fifo s' = tx_fifo waiting_arp @ ws \<and> tx_frame ws = router_mac @ [2, 0, 0, 0, 0, 1, 8, 0, 1, 2, 3, 4, 5, 6] \<and> memp_arp_queue s' = 8"
proof -
  have "ip_frame small_netif router_mac out_packet = router_mac @ [2, 0, 0, 0, 0, 1, 8, 0, 1, 2, 3, 4, 5, 6]"
    by (simp add: ip_frame_def small_netif_def out_packet_def pbuf_init_alloced_pbuf_def pbuf_data_def pbuf_read_def)
  moreover have "length router_mac = 6" by (simp add: router_mac_def)
  ultimately show ?thesis
    using arp_answer_sends_queue [OF waiting_ok sample_sends _ router_route(1), of router_mac 0 "[7]" ETHARP_FLAG_FIND_ONLY] out_packet_framed
    by (simp add: waiting_facts map_eq_Cons_conv) fastforce
qed

text \<open>
  C16. An entry lives exactly as long as it should: however often the timer is called (once a second), each call
  returns; an entry of age \<open>k\<close> is still there, with the same address, hardware address and queue,
  after \<open>n\<close> calls when \<open>k + n\<close> is below 300, or below 5 while it waits for an answer; otherwise it is
  empty and holds no packet.
\<close>

theorem arp_entry_lifetime:
  assumes "arp_ok own s" and "hwaddr_len nif = 6" and "i < 10" and "used (arp_table s ! i)"
  shows "\<exists>s'. tmr_calls x nif n s = Some s'
     \<and> (if unat (ctime (arp_table s ! i)) + n < (if e_state (arp_table s ! i) = ETHARP_STATE_PENDING then 5 else 300)
        then used (arp_table s' ! i) \<and> stable (arp_table s' ! i) = stable (arp_table s ! i) \<and> e_ipaddr (arp_table s' ! i) = e_ipaddr (arp_table s ! i)
          \<and> ethaddr (arp_table s' ! i) = ethaddr (arp_table s ! i) \<and> arp_q (arp_table s' ! i) = arp_q (arp_table s ! i)
        else arp_table s' ! i = empty_entry)"
proof -
  obtain s' where s': "tmr_calls x nif n s = Some s'" "arp_table s' = map (aged ^^ n) (arp_table s)" using tmr_calls_ok [OF assms(1,2)] by blast
  show ?thesis using s' aged_pow [OF arp_ok_parts(4) [OF assms(1,3)] assms(4), of n, unfolded life_def] assms(3) arp_ok_parts(2) [OF assms(1)] by simp
qed

theorem arp_entry_lifetime_witness:
  "\<exists>s1 s2. tmr_calls sample_arp_env small_netif 4 waiting_arp = Some s1 \<and> arp_q (arp_table s1 ! 0) = [7]
     \<and> tmr_calls sample_arp_env small_netif 5 waiting_arp = Some s2 \<and> arp_table s2 ! 0 = empty_entry"
proof -
  have "hwaddr_len small_netif = 6" by (simp add: small_netif_def)
  note l = arp_entry_lifetime [OF waiting_ok this, of 0 sample_arp_env, unfolded waiting_facts]
  have "e_state waiting_entry = ETHARP_STATE_PENDING" by (simp add: waiting_entry_def)
  then show ?thesis using l [of 4] l [of 5] waiting_facts(3,4,7,8) by auto
qed

end
