(* ===== verification/Lwip_Ip4_Out.thy ===== *)
theory Lwip_Ip4_Out
  imports Lwip_Etharp_Proofs
begin

text \<open>
  IPv4 output, \<open>ip4_output_if_src\<close>, \<open>ip4_output_if\<close> and \<open>ip4_output\<close> of
  \<open>lwip/src/core/ipv4/ip4.c\<close>, without IP options, hints and loopback. The function pointer
  \<open>netif->output\<close> (here \<open>etharp_output\<close>) and fragmentation (\<open>ip4_frag.c\<close>) are arguments. A packet is
  named by its address, since output may keep a reference to it.

  The header checksum is accumulated while the header is written; it equals the checksum of RFC
  1071 over the finished header. What is sent is a packet that IP input accepts.
\<close>

section \<open>Operations\<close>

record ipout = arp +
  ip_id :: u16

type_synonym 's netif_output = "nat \<Rightarrow> u32 \<Rightarrow> 's \<Rightarrow> (lwip_err \<times> 's) option"

definition IPH_VHL :: "u8 \<Rightarrow> u8 \<Rightarrow> u8" where "IPH_VHL v hl = push_bit 4 v OR hl"

text \<open>The checksum, in the order in which its terms are added.\<close>

definition ip4_inline_chksum :: "u8 \<Rightarrow> u8 \<Rightarrow> u8 \<Rightarrow> u8 \<Rightarrow> u16 \<Rightarrow> u16 \<Rightarrow> u32 \<Rightarrow> u32 \<Rightarrow> u16" where
  "ip4_inline_chksum v_hl tos1 ttl1 proto len' id' src dest =
     (let c = (ucast (PP_HTONS (ucast proto OR push_bit 8 (ucast ttl1))) :: u32);
          c = c + (dest AND 0xFFFF);
          c = c + drop_bit 16 dest;
          c = c + ucast (PP_HTONS (ucast tos1 OR push_bit 8 (ucast v_hl)));
          c = c + ucast len';
          c = c + ucast id';
          c = c + (src AND 0xFFFF);
          c = c + drop_bit 16 src;
          c = drop_bit 16 c + (c AND 0xFFFF);
          c = drop_bit 16 c + c
      in ucast (NOT c))"

definition ip4_hdr :: "u8 \<Rightarrow> u8 \<Rightarrow> u8 \<Rightarrow> u16 \<Rightarrow> u16 \<Rightarrow> u32 \<Rightarrow> u32 \<Rightarrow> u8 list" where
  "ip4_hdr tos1 ttl1 proto tot_len i src dest =
     (let v_hl = IPH_VHL 4 (ucast (IP_HLEN div 4)); len' = lwip_htons tot_len; id' = lwip_htons i
      in [v_hl, tos1] @ store16 len' @ store16 id' @ store16 0 @ [ttl1, proto]
         @ store16 (ip4_inline_chksum v_hl tos1 ttl1 proto len' id' src dest) @ bytes_of_word src @ bytes_of_word dest)"

text \<open>
  \<open>dest\<close> is \<open>None\<close> for \<open>LWIP_IP_HDRINCL\<close>: the packet has its IP header already. \<open>src\<close> is \<open>None\<close>
  for the null pointer. A packet that is referenced elsewhere fails an assertion.
\<close>

definition ip4_output_if_src ::
  "'a ipout_scheme netif_output \<Rightarrow> 'a ipout_scheme netif_output \<Rightarrow> nat \<Rightarrow> u32 option \<Rightarrow> u32 option \<Rightarrow> u8 \<Rightarrow> u8 \<Rightarrow> u8 \<Rightarrow> netif \<Rightarrow> 'a ipout_scheme
   \<Rightarrow> (lwip_err \<times> 'a ipout_scheme) option" where
  "ip4_output_if_src out frag a src dest ttl1 tos1 proto nif s =
     (case pstore s a of [] \<Rightarrow> None
      | h # t \<Rightarrow>
         if p_ref h \<noteq> 1 then None
         else do { (err, dst, s1) \<leftarrow>
                     (case dest of
                        Some d \<Rightarrow>
                          (case pbuf_add_header h (ucast IP_HLEN) of
                             (r, h1) \<Rightarrow>
                               if r \<noteq> 0 then Some (ERR_BUF, d, s)
                               else if p_len h1 < IP_HLEN then None
                               else let hdr = ip4_hdr tos1 ttl1 proto (p_tot_len h1) (ip_id s) (case src of None \<Rightarrow> IPADDR_ANY | Some x \<Rightarrow> x) d
                                    in Some (ERR_OK, d, s\<lparr>pstore := (pstore s)(a := pbuf_write h1 0 hdr # t), ip_id := ip_id s + 1\<rparr>))
                      | None \<Rightarrow> if p_len h < IP_HLEN then Some (ERR_BUF, 0, s) else Some (ERR_OK, get32 h 16, s));
                   if err \<noteq> ERR_OK then Some (err, s1)
                   else if mtu nif \<noteq> 0 \<and> p_tot_len (hd (pstore s1 a)) > mtu nif then frag a dst s1
                   else out a dst s1 })"

definition ip4_output_if ::
  "'a ipout_scheme netif_output \<Rightarrow> 'a ipout_scheme netif_output \<Rightarrow> nat \<Rightarrow> u32 option \<Rightarrow> u32 option \<Rightarrow> u8 \<Rightarrow> u8 \<Rightarrow> u8 \<Rightarrow> netif \<Rightarrow> 'a ipout_scheme
   \<Rightarrow> (lwip_err \<times> 'a ipout_scheme) option" where
  "ip4_output_if out frag a src dest ttl1 tos1 proto nif s =
     (let src_used = (if dest \<noteq> None \<and> (src = None \<or> src = Some IPADDR_ANY) then Some (ip_addr nif) else src)
      in ip4_output_if_src out frag a src_used dest ttl1 tos1 proto nif s)"

definition ip4_output ::
  "(netif \<Rightarrow> 'a ipout_scheme netif_output) \<Rightarrow> (netif \<Rightarrow> 'a ipout_scheme netif_output) \<Rightarrow> netif option \<Rightarrow> nat \<Rightarrow> u32 option \<Rightarrow> u32 \<Rightarrow> u8 \<Rightarrow> u8 \<Rightarrow> u8
   \<Rightarrow> 'a ipout_scheme \<Rightarrow> (lwip_err \<times> 'a ipout_scheme) option" where
  "ip4_output out frag netif_default a src dest ttl1 tos1 proto s =
     (case pstore s a of [] \<Rightarrow> None
      | h # t \<Rightarrow> if p_ref h \<noteq> 1 then None
                 else case ip4_route netif_default dest of
                        None \<Rightarrow> Some (ERR_RTE, s)
                      | Some nif \<Rightarrow> ip4_output_if (out nif) (frag nif) a src (Some dest) ttl1 tos1 proto nif s)"

section \<open>The header\<close>

lemma htons_bytes: "PP_HTONS (ucast b OR push_bit 8 (ucast a)) = load16 a b"
proof -
  have "PP_HTONS (load16 b a) = of_nat (unat a + 256 * unat b)" using htons_load16 [of b a] by (simp add: lwip_htons_def add.commute)
  also have "\<dots> = load16 a b" by (simp flip: unat_load16)
  finally show ?thesis by (simp add: load16_def)
qed

lemma word_sum_address: "word_sum (bytes_of_word w) = unat (w AND 0xFFFF) + unat (drop_bit 16 w)"
proof -
  let ?n = "unat w"
  have lt: "?n < 4294967296" using unat_u32_less by simp
  have lo: "?n mod 65536 = 256 * (?n div 256 mod 256) + ?n mod 256" using mod_mult2_eq [of ?n 256 256] by simp
  have hi: "?n div 65536 = 256 * (?n div 65536 div 256 mod 256) + ?n div 65536 mod 256"
    using mod_mult2_eq [of "?n div 65536" 256 256] lt by (simp add: less_mult_imp_div_less)
  have "word_sum (bytes_of_word w) = ?n mod 256 + 256 * (?n div 256 mod 256) + (?n div 65536 mod 256 + 256 * (?n div 65536 div 256 mod 256))"
    by (simp add: bytes_of_word_def wconv drop_bit_eq_div unat_div_word div_mult2_eq [symmetric])
  then show ?thesis using lo hi by (simp add: wconv)
qed

lemma unat_not_low: "unat (ucast (NOT (e :: u32)) :: u16) = 65535 - unat e mod 65536"
proof -
  have "(ucast (NOT e) :: u16) = NOT (ucast e)" by (rule bit_word_eqI) (auto simp: bit_simps)
  moreover have "unat (NOT (ucast e :: u16)) = 65535 - unat (ucast e :: u16)" by (rule unat_not_u16)
  moreover have "unat (ucast e :: u16) = unat e mod 65536" by (simp add: unsigned_ucast_eq take_bit_nat_def)
  ultimately show ?thesis by simp
qed

lemma unat_fold_carry:
  assumes "unat c < 65536 * 16"
  shows "unat (ucast (NOT (drop_bit 16 (drop_bit 16 c + (c AND 0xFFFF)) + (drop_bit 16 c + (c AND 0xFFFF)))) :: u16) = 65535 - ones_comp (unat (c :: u32))"
proof -
  let ?d = "drop_bit 16 c + (c AND 0xFFFF)"
  have d: "unat ?d = unat c div 65536 + unat c mod 65536" using assms by (simp add: wconv)
  have "unat c div 65536 < 16" "unat c mod 65536 < 65536" using assms by (simp_all add: less_mult_imp_div_less)
  then have dl: "unat ?d < 65536 + 15" unfolding d by linarith
  let ?e = "drop_bit 16 ?d + ?d"
  have "unat ?d div 65536 + unat ?d < 4294967296" using dl div_le_dividend [of "unat ?d" 65536] by linarith
  then have e: "unat ?e = unat ?d div 65536 + unat ?d" by (simp only: unat_add_u32 [where b = ?d] unat_drop_bit_16 [of ?d] mod_less)
  have r: "unat ?e mod 65536 = unat (FOLD_U32T ?d)" unfolding unat_fold e
    using dl by (cases "unat ?d < 65536") (auto simp: mod_if)
  have "oc_eq (unat (FOLD_U32T ?d)) (unat c)"
    using oc_eq_trans [OF fold_oc [of ?d]] fold_oc [of c] FOLD_U32T_def [of c] by simp
  moreover have "unat (FOLD_U32T ?d) \<le> 65535" using fold_le dl by simp
  ultimately have "unat ?e mod 65536 = ones_comp (unat c)" using oc_eq_ones_comp r by simp
  then show ?thesis by (simp add: unat_not_low)
qed

definition hdr_bytes :: "u8 \<Rightarrow> u8 \<Rightarrow> u8 \<Rightarrow> u8 \<Rightarrow> u16 \<Rightarrow> u16 \<Rightarrow> u16 \<Rightarrow> u32 \<Rightarrow> u32 \<Rightarrow> u8 list" where
  "hdr_bytes v_hl tos1 ttl1 proto len' id' ck src dest =
     [v_hl, tos1] @ store16 len' @ store16 id' @ store16 0 @ [ttl1, proto] @ store16 ck @ bytes_of_word src @ bytes_of_word dest"

lemma word_sum_hdr: "word_sum (hdr_bytes v_hl tos1 ttl1 proto len' id' ck src dest) =
    unat (load16 v_hl tos1) + unat len' + unat id' + unat (load16 ttl1 proto) + unat ck
    + (unat (src AND 0xFFFF) + unat (drop_bit 16 src)) + (unat (dest AND 0xFFFF) + unat (drop_bit 16 dest))"
proof -
  have "word_sum (store16 w @ xs) = unat w + word_sum xs" for w xs by (simp add: word_sum_append store16_def) (simp add: word_sum_store16 [unfolded store16_def, simplified])
  moreover have "word_sum (bytes_of_word w @ xs) = unat (w AND 0xFFFF) + unat (drop_bit 16 w) + word_sum xs" for w xs
    by (simp add: word_sum_append word_sum_address)
  ultimately show ?thesis by (simp add: hdr_bytes_def word_sum_address unat_load16)
qed

text \<open>The sum built up with the header is the checksum of the header.\<close>

lemma inline_chksum: "ip4_inline_chksum v_hl tos1 ttl1 proto len' id' src dest = rfc1071 (hdr_bytes v_hl tos1 ttl1 proto len' id' 0 src dest)"
proof -
  let ?c = "(ucast (load16 ttl1 proto) :: u32) + (dest AND 0xFFFF) + drop_bit 16 dest + ucast (load16 v_hl tos1) + ucast len' + ucast id' + (src AND 0xFFFF) + drop_bit 16 src"
  have w: "unat (ucast x :: u32) = unat x" "unat x \<le> 65535" for x :: u16 by (simp_all add: unsigned_ucast_eq take_bit_nat_def less_Suc_eq_le [symmetric])
  have a: "unat (y AND 0xFFFF) \<le> 65535" "unat (drop_bit 16 y) \<le> 65535" for y :: u32 using unat_u32_less [of y] by (simp_all add: wconv less_Suc_eq_le [symmetric] less_mult_imp_div_less)
  have add: "unat (p + q) = unat p + unat q" if "unat p \<le> m" "unat q \<le> 65535" "m \<le> 655350" for p q :: u32 and m :: nat using that by (simp add: wconv)
  have c: "unat ?c = unat (load16 ttl1 proto) + unat (dest AND 0xFFFF) + unat (drop_bit 16 dest) + unat (load16 v_hl tos1) + unat len' + unat id' + unat (src AND 0xFFFF) + unat (drop_bit 16 src)
     \<and> unat ?c \<le> 8 * 65535"
    using a [of src] a [of dest] w(2) [of "load16 ttl1 proto"] w(2) [of "load16 v_hl tos1"] w(2) [of len'] w(2) [of id']
    by (simp add: unat_add_u32 w(1) del: unat_and_mask_u32 unat_drop_bit_16)
  then have "unat ?c = word_sum (hdr_bytes v_hl tos1 ttl1 proto len' id' 0 src dest)" by (simp add: word_sum_hdr)
  moreover have "ip4_inline_chksum v_hl tos1 ttl1 proto len' id' src dest
     = ucast (NOT (drop_bit 16 (drop_bit 16 ?c + (?c AND 0xFFFF)) + (drop_bit 16 ?c + (?c AND 0xFFFF))))"
    by (simp only: ip4_inline_chksum_def Let_def htons_bytes)
  ultimately have "unat (ip4_inline_chksum v_hl tos1 ttl1 proto len' id' src dest) = unat (rfc1071 (hdr_bytes v_hl tos1 ttl1 proto len' id' 0 src dest))"
    using unat_fold_carry [of ?c] c by (simp add: unat_rfc1071)
  then show ?thesis by (simp only: unsigned_word_eqI)
qed

lemma ip4_hdr_bytes: "ip4_hdr tos1 ttl1 proto tot_len i src dest =
    hdr_bytes 0x45 tos1 ttl1 proto (lwip_htons tot_len) (lwip_htons i) (rfc1071 (hdr_bytes 0x45 tos1 ttl1 proto (lwip_htons tot_len) (lwip_htons i) 0 src dest)) src dest"
  by (simp add: ip4_hdr_def hdr_bytes_def inline_chksum IPH_VHL_def Let_def cdefs)

lemma ip4_hdr_verifies: "rfc1071 (ip4_hdr tos1 ttl1 proto tot_len i src dest) = 0"
proof -
  let ?pre = "[0x45, tos1] @ store16 (lwip_htons tot_len) @ store16 (lwip_htons i) @ store16 0 @ [ttl1, proto]"
  let ?k = "rfc1071 (hdr_bytes 0x45 tos1 ttl1 proto (lwip_htons tot_len) (lwip_htons i) 0 src dest)"
  have e: "even (length ?pre)" by (simp add: store16_def)
  have b: "hdr_bytes 0x45 tos1 ttl1 proto (lwip_htons tot_len) (lwip_htons i) ck src dest = ?pre @ store16 ck @ (bytes_of_word src @ bytes_of_word dest)" for ck
    by (simp add: hdr_bytes_def)
  show ?thesis
  proof (cases "?k = 0")
    case True
    then show ?thesis unfolding ip4_hdr_bytes by simp
  next
    case False
    then show ?thesis using rfc1071_verifies [OF e, of ?k "bytes_of_word src @ bytes_of_word dest"] unfolding ip4_hdr_bytes b by simp
  qed
qed

lemma length_ip4_hdr [simp]: "length (ip4_hdr tos1 ttl1 proto tot_len i src dest) = 20"
  by (simp add: ip4_hdr_bytes hdr_bytes_def store16_def)

lemma field16_stored: "of_nat (256 * unat (ucast w :: u8) + unat (ucast (drop_bit 8 w) :: u8)) = lwip_htons w" for w :: u16
proof -
  have "load16 (ucast w) (ucast (drop_bit 8 w)) = w" unfolding load16_def by (rule bit_word_eqI) (auto simp: bit_simps)
  then show ?thesis using htons_load16 [of "ucast w" "ucast (drop_bit 8 w)"] by simp
qed

lemma bytes_of_word_inverse: "word_of_bytes (bytes_of_word w) = w"
proof (rule bit_word_eqI)
  fix n assume "n < LENGTH(32)"
  moreover have "n < 8 \<or> 8 \<le> n \<and> n < 16 \<or> 16 \<le> n \<and> n < 24 \<or> 24 \<le> n" by linarith
  ultimately show "bit (word_of_bytes (bytes_of_word w)) n = bit w n" unfolding word_of_bytes_def bytes_of_word_def by (auto simp: bit_simps)
qed

text \<open>A packet with this header is accepted where its addresses are.\<close>

lemma ip4_hdr_accepted:
  assumes "length d + 20 < 65536" and "for_us rnif dest" and "\<not> bad_source rnif src"
  shows "ip4_spec rnif junk (ip4_hdr tos1 ttl1 proto (of_nat (length d + 20)) i src dest @ d) = Ip_upper proto src dest 20 d"
proof -
  define l where "l = (of_nat (length d + 20) :: u16)"
  define h where "h = ip4_hdr tos1 ttl1 proto l i src dest"
  have h: "length h = 20" by (simp add: h_def)
  have h0: "(h @ d) ! 0 = 0x45" "(h @ d) ! 9 = proto" by (simp_all add: h_def ip4_hdr_bytes hdr_bytes_def store16_def)
  have l: "field16 (h @ d) 2 = l"
    using field16_stored [of "lwip_htons l"] by (simp add: h_def ip4_hdr_bytes hdr_bytes_def field16_def store16_def htons_involution)
  have o: "field16 (h @ d) 6 = 0" by (simp add: h_def ip4_hdr_bytes hdr_bytes_def store16_def field16_def)
  have ad: "field32 (h @ d) 12 = src" "field32 (h @ d) 16 = dest" by (simp_all add: h_def ip4_hdr_bytes hdr_bytes_def field32_def store16_def bytes_of_word_inverse)
  have hl: "ip_hlen (h @ d) = 20" by (simp add: ip_hlen_def h0)
  have "unat l = length d + 20" unfolding l_def unat_of_nat_u16 using assms(1) by simp
  then have il: "ip_len (h @ d) = length d + 20" by (simp add: ip_len_def l)
  have "rfc1071 h = 0" unfolding h_def by (rule ip4_hdr_verifies)
  then have "ip_header_ok (h @ d)" by (simp add: ip_header_ok_def hl il h0 h)
  then have "ip4_spec rnif junk (h @ d) = Ip_upper proto src dest 20 d" using assms(2,3) by (simp add: ip4_spec_def Let_def hl il h0 o ad h)
  then show ?thesis by (simp add: h_def l_def)
qed

section \<open>The packet that is handed on\<close>

lemma add_header_room:
  assumes "p_type h AND PBUF_TYPE_FLAG_STRUCT_DATA_CONTIGUOUS \<noteq> 0" and "int n \<le> p_payload h" and "unat (p_tot_len h) + n < 65536" and "0 < n"
  shows "pbuf_add_header h (of_nat n) = (0, h\<lparr>p_payload := p_payload h - int n, p_len := p_len h + of_nat n, p_tot_len := p_tot_len h + of_nat n\<rparr>)"
proof -
  have n: "unat (of_nat n :: u32) = n" "unat (of_nat n :: u16) = n" using assms(3) by (simp_all add: wconv)
  have u: "(ucast (of_nat n :: u32) :: u16) = of_nat n" by (metis of_nat_unat n(1))
  have a: "\<not> (of_nat n :: u32) > 0xFFFF" "(of_nat n :: u32) \<noteq> 0" using n assms(3,4) by (auto simp: word_less_nat_alt)
  have "unat (of_nat n + p_tot_len h) = n + unat (p_tot_len h)" unfolding unat_word_ariths(1) n(2) using assms(3) by simp
  then have b: "\<not> of_nat n + p_tot_len h < of_nat n" unfolding word_less_nat_alt n(2) by linarith
  have i: "uint (of_nat n :: u32) = int n" using n(1) by (metis uint_nat)
  show ?thesis unfolding pbuf_add_header_def pbuf_add_header_impl_def Let_def u i using a b assms(1,2) by (simp add: u i)
qed

lemma word_of_unat: "unat w = n \<Longrightarrow> w = of_nat n" for w :: u16
  by auto

text \<open>A packet with room for the headers of IP and Ethernet that leaves in frames without padding between its parts.\<close>

definition ip_sendable :: "netif \<Rightarrow> pchain \<Rightarrow> bool" where
  "ip_sendable nif c \<longleftrightarrow> chain_ok c \<and> c \<noteq> [] \<and> p_ref (hd c) = 1 \<and> p_type (hd c) AND PBUF_TYPE_FLAG_STRUCT_DATA_CONTIGUOUS \<noteq> 0 \<and> 34 \<le> p_payload (hd c)
     \<and> (tl c \<noteq> [] \<longrightarrow> 4 dvd unat (p_len (hd c)) + 34) \<and> cut_aligned (tl c) \<and> length (chain_bytes c) + 20 \<le> unat (mtu nif) \<and> length (chain_bytes c) + 34 < 2048"

lemma output_if_src_builds:
  assumes c: "ip_sendable nif (pstore s a)"
  shows "\<exists>c. ip4_output_if_src out frag a (Some src) (Some dst) ttl1 tos1 proto nif s = out a dst (s\<lparr>pstore := (pstore s)(a := c), ip_id := ip_id s + 1\<rparr>)
     \<and> framed c \<and> chain_bytes c = ip4_hdr tos1 ttl1 proto (of_nat (length (chain_bytes (pstore s a)) + 20)) (ip_id s) src dst @ chain_bytes (pstore s a)"
proof -
  obtain h t where ht: "pstore s a = h # t" using c by (cases "pstore s a") (auto simp: ip_sendable_def)
  let ?n = "length (chain_bytes (h # t))"
  have C: "chain_ok (h # t)" "p_ref h = 1" "p_type h AND PBUF_TYPE_FLAG_STRUCT_DATA_CONTIGUOUS \<noteq> 0" "34 \<le> p_payload h"
    "t \<noteq> [] \<longrightarrow> 4 dvd unat (p_len h) + 34" "cut_aligned t" "?n + 20 \<le> unat (mtu nif)" "?n + 34 < 2048"
    using c by (auto simp: ip_sendable_def ht simp del: chain_bytes_simps)
  have tot: "unat (p_tot_len h) = ?n" by (rule chain_tot_bytes [OF C(1)])
  have len: "unat (p_len h) \<le> ?n" by (rule len_first [OF C(1)])
  let ?h1 = "h\<lparr>p_payload := p_payload h - 20, p_len := p_len h + 20, p_tot_len := p_tot_len h + 20\<rparr>"
  have add: "pbuf_add_header h 20 = (0, ?h1)" using add_header_room [of h 20] C(3,4,8) tot by simp
  have H: "pbuf_ok ?h1" "drop 20 (pbuf_data ?h1) = pbuf_data h" "unat (p_len ?h1) = unat (p_len h) + 20" "unat (p_tot_len ?h1) = ?n + 20"
    using add_header_data [of h 20 ?h1] add C(1,3,8) tot len by (auto split: list.splits)
  define hdr where "hdr = ip4_hdr tos1 ttl1 proto (p_tot_len ?h1) (ip_id s) src dst"
  have l: "length hdr = 20" by (simp add: hdr_def)
  define w where "w = pbuf_write ?h1 0 hdr"
  have w: "pbuf_ok w" "pbuf_data w = hdr @ pbuf_data h"
    using pbuf_write_ok [OF H(1), of 0 hdr] pbuf_write_data [OF H(1), of 0 hdr] H(2,3) l by (simp_all add: w_def)
  have wf: "p_len w = p_len h + 20" "p_tot_len w = p_tot_len h + 20" "p_type w = p_type h" "p_payload w = p_payload h - 20"
    by (simp_all add: write_ref w_def)
  have wl: "unat (p_len w) = unat (p_len h) + 20" "unat (p_tot_len w) = ?n + 20" using H(3,4) wf by simp_all
  have T: "unat (p_tot_len h) = unat (p_len h) + (case t of [] \<Rightarrow> 0 | r # _ \<Rightarrow> unat (p_tot_len r))" "chain_ok t"
    using C(1) by (simp_all only: chain_ok_simps)
  have "unat (p_tot_len w) = unat (p_len w) + (case t of [] \<Rightarrow> 0 | r # _ \<Rightarrow> unat (p_tot_len r))" using wl T(1) tot by linarith
  then have cok: "chain_ok (w # t)" using w(1) T(2) by (simp only: chain_ok_simps)
  have cb: "chain_bytes (w # t) = hdr @ chain_bytes (h # t)" using w(2) by simp
  have cl: "length (chain_bytes (w # t)) = ?n + 20" by (simp only: cb length_append l add.commute)
  have al: "pbuf_add_header w 14 = (0, w\<lparr>p_payload := p_payload w - 14, p_len := p_len w + 14, p_tot_len := p_tot_len w + 14\<rparr>)"
    using add_header_room [of w 14] wf C(3,4,8) wl(2) by simp
  have "unat (p_len w + 14) = unat (p_len h) + 34" unfolding unat_word_ariths(1) wl(1) using len C(8) by simp
  then have "cut_aligned (snd (pbuf_add_header w 14) # t)" using al C(5,6) by simp
  then have fr: "framed (w # t)" using cok wf C(3,8) al cl unfolding framed_def by (simp del: chain_bytes_simps)
  have "p_tot_len ?h1 = of_nat (?n + 20)" by (rule word_of_unat [OF H(4)])
  then have hb: "hdr = ip4_hdr tos1 ttl1 proto (of_nat (?n + 20)) (ip_id s) src dst" by (simp only: hdr_def)
  have "\<not> p_len ?h1 < IP_HLEN" using H(3) by (simp add: word_less_nat_alt cdefs)
  moreover have "\<not> p_tot_len w > mtu nif" unfolding word_less_nat_alt wl(2) using C(7) by simp
  ultimately have "ip4_output_if_src out frag a (Some src) (Some dst) ttl1 tos1 proto nif s = out a dst (s\<lparr>pstore := (pstore s)(a := w # t), ip_id := ip_id s + 1\<rparr>)"
    using add C(2) unfolding ip4_output_if_src_def by (simp add: ht IP_HLEN_def hdr_def w_def)
  then show ?thesis using fr cb hb unfolding ht by blast
qed

section \<open>Properties\<close>

text \<open>
  C18. The header checksum that \<open>ip4_output_if_src\<close> accumulates while it writes the header is the
  Internet checksum of the header, and the finished header verifies, for every type of service, time
  to live, protocol, length, identification, source and destination.
\<close>

theorem inline_checksum_is_rfc1071:
  "ip4_inline_chksum v_hl tos1 ttl1 proto len' id' src dest = rfc1071 ([v_hl, tos1] @ store16 len' @ store16 id' @ store16 0 @ [ttl1, proto] @ store16 0 @ bytes_of_word src @ bytes_of_word dest)
   \<and> rfc1071 (ip4_hdr tos1 ttl1 proto tot_len i src dest) = 0"
  using inline_chksum ip4_hdr_verifies by (simp add: hdr_bytes_def)

text \<open>
  C17. From the transport layer to the neighbour: when the hardware address of the next hop is known
  (learned at most 269 timer calls ago), \<open>ip4_output_if\<close> with \<open>etharp_output\<close> as the output function
  sends a packet with room for both headers at once, as one frame to that hardware address, and a
  station that takes the destination address receives in this frame an IP packet that its input
  accepts: with the given protocol, source and destination, and exactly the data that was sent.
\<close>

theorem ip4_datagram_delivered:
  assumes "table_ok (arp_table s)" and "etharp_cached_entry s < ARP_TABLE_SIZE" and "resolved hop mac k s" and "k < 270" and "length mac = 6"
    and "sends_frames x nif" and "ip4_addr_isbroadcast_u32 dst nif = 0" and "\<not> ip4_addr_ismulticast dst" and "next_hop nif dst = Some hop"
    and "ip_sendable nif (pstore s a)" and "src \<noteq> IPADDR_ANY"
    and "for_us rnif dst" and "\<not> bad_source rnif src" and "flags rnif AND NETIF_FLAG_ETHARP \<noteq> 0"
  shows "\<exists>s' ws packet. ip4_output_if (etharp_output x nif) frag a (Some src) (Some dst) ttl1 tos1 proto nif s = Some (ERR_OK, s')
     \<and> tx_fifo s' = tx_fifo s @ ws \<and> take 6 (tx_frame ws) = mac \<and> frame_spec rnif (tx_frame ws) = Fr_ip packet
     \<and> ip4_spec rnif junk packet = Ip_upper proto src dst 20 (chain_bytes (pstore s a))"
proof -
  let ?d = "chain_bytes (pstore s a)"
  let ?p = "ip4_hdr tos1 ttl1 proto (of_nat (length ?d + 20)) (ip_id s) src dst @ ?d"
  obtain c where c: "ip4_output_if_src (etharp_output x nif) frag a (Some src) (Some dst) ttl1 tos1 proto nif s
      = etharp_output x nif a dst (s\<lparr>pstore := (pstore s)(a := c), ip_id := ip_id s + 1\<rparr>)" "framed c" "chain_bytes c = ?p"
    using output_if_src_builds [OF assms(10)] by blast
  let ?s = "s\<lparr>pstore := (pstore s)(a := c), ip_id := ip_id s + 1\<rparr>"
  have "table_ok (arp_table ?s)" "etharp_cached_entry ?s < 10" "resolved hop mac k ?s" using assms(1-3) by (simp_all add: resolved_def cdefs)
  then obtain i where o: "etharp_output x nif a dst ?s = output_at x nif a mac (?s\<lparr>etharp_cached_entry := i\<rparr>)"
    using output_resolved [OF _ _ _ assms(4,7,8,9)] by blast
  obtain r q ws where w: "output_at x nif a mac (?s\<lparr>etharp_cached_entry := i\<rparr>) = Some (ERR_OK, ?s\<lparr>etharp_cached_entry := i, reg_out := r, pstore := (pstore ?s)(a := q)\<rparr>)"
    "tx_fifo (?s\<lparr>etharp_cached_entry := i, reg_out := r\<rparr>) = tx_fifo (?s\<lparr>etharp_cached_entry := i\<rparr>) @ ws" "tx_frame ws = ip_frame nif mac c"
    using output_at_frame [OF assms(6), of "?s\<lparr>etharp_cached_entry := i\<rparr>" a mac] c(2) assms(5) by auto
  have hw: "length (hwaddr nif) = 6" using assms(6) by (simp add: sends_frames_def)
  have fr: "tx_frame ws = mac @ hwaddr nif @ [8, 0] @ ?p" using w(3) c(3) by (simp add: ip_frame_def)
  have "field16 (tx_frame ws) 12 = ETHTYPE_IP" using assms(5) hw by (simp add: fr field16_def nth_append cdefs)
  then have fs: "frame_spec rnif (tx_frame ws) = Fr_ip ?p" using assms(5,14) hw by (simp add: frame_spec_def fr)
  have "length ?d + 20 < 65536" using assms(10) by (simp add: ip_sendable_def)
  then have sp: "ip4_spec rnif junk ?p = Ip_upper proto src dst 20 ?d" using ip4_hdr_accepted [OF _ assms(12,13)] by blast
  have "ip4_output_if (etharp_output x nif) frag a (Some src) (Some dst) ttl1 tos1 proto nif s = Some (ERR_OK, ?s\<lparr>etharp_cached_entry := i, reg_out := r, pstore := (pstore ?s)(a := q)\<rparr>)"
    using assms(11) c(1) o w(1) by (simp add: ip4_output_if_def)
  moreover have "tx_fifo (?s\<lparr>etharp_cached_entry := i, reg_out := r, pstore := (pstore ?s)(a := q)\<rparr>) = tx_fifo s @ ws" using w(2) by (simp add: tx_fifo_def)
  moreover have "take 6 (tx_frame ws) = mac" using assms(5) by (simp add: fr)
  ultimately show ?thesis using fs sp by blast
qed

definition known_entry :: etharp_entry where
  "known_entry = \<lparr>arp_q = [], e_ipaddr = IP4_ADDR 10 0 2 2, e_netif = True, ethaddr = router_mac, ctime = 0, e_state = ETHARP_STATE_STABLE\<rparr>"

definition datagram :: pchain where
  "datagram = [pbuf_init_alloced_pbuf (replicate 34 0 @ [1, 2, 3, 4, 5, 6]) 34 6 6 PBUF_RAM 0]"

definition sample_ipout :: ipout where
  "sample_ipout = \<lparr>uart_state = (\<lambda>_. 0), uart_state_n = 0, uart_rx = (\<lambda>_. 0), uart_rx_n = 0, uart_ctrl = 3, uart_bauddiv = 217,
     uart_tx = [], uart_buf = [], reg_in = (\<lambda>_ _. 0), reg_n = (\<lambda>_. 0), reg_out = [], penv = sample_env,
     arp_table = known_entry # replicate 9 empty_entry, etharp_cached_entry = 0, memp_arp_queue = 8, pstore = (\<lambda>_. [])(7 := datagram), ip_id = 0\<rparr>"

definition server_netif :: netif where
  "server_netif = small_netif\<lparr>ip_addr := IP4_ADDR 162 159 200 1\<rparr>"

lemma sample_ipout_facts:
  "table_ok (arp_table sample_ipout)" "etharp_cached_entry sample_ipout < ARP_TABLE_SIZE" "resolved (IP4_ADDR 10 0 2 2) router_mac 0 sample_ipout"
  "ip_sendable small_netif (pstore sample_ipout 7)" "chain_bytes (pstore sample_ipout 7) = [1, 2, 3, 4, 5, 6]" "tx_fifo sample_ipout = []"
proof -
  have t: "arp_table sample_ipout = known_entry # replicate 9 empty_entry" by (simp add: sample_ipout_def)
  have e: "entry_ok known_entry" by (simp add: entry_ok_def known_entry_def used_def router_mac_def cdefs)
  have u: "used ((known_entry # replicate 9 empty_entry) ! k) \<Longrightarrow> k = 0" if "k < 10" for k using that by (cases k) auto
  show "table_ok (arp_table sample_ipout)" unfolding table_ok_def t using e u by (auto simp: cdefs list_all_iff)
  show "etharp_cached_entry sample_ipout < ARP_TABLE_SIZE" by (simp add: sample_ipout_def cdefs)
  show "resolved (IP4_ADDR 10 0 2 2) router_mac 0 sample_ipout" unfolding resolved_def t by (intro exI [of _ 0]) (simp add: known_entry_def)
  have d: "pstore sample_ipout 7 = datagram" by (simp add: sample_ipout_def)
  show "chain_bytes (pstore sample_ipout 7) = [1, 2, 3, 4, 5, 6]"
    unfolding d by (simp add: datagram_def pbuf_init_alloced_pbuf_def pbuf_data_def pbuf_read_def)
  then show "ip_sendable small_netif (pstore sample_ipout 7)"
    unfolding d ip_sendable_def by (simp del: chain_bytes_simps) (simp add: datagram_def pbuf_init_alloced_pbuf_def pbuf_ok_def small_netif_def cdefs)
  show "tx_fifo sample_ipout = []" by (simp add: tx_fifo_def sample_ipout_def)
qed

lemma server_facts: "for_us server_netif (IP4_ADDR 162 159 200 1)" "\<not> bad_source server_netif (IP4_ADDR 10 0 2 15)" "flags server_netif AND NETIF_FLAG_ETHARP \<noteq> 0"
  "IP4_ADDR 10 0 2 15 \<noteq> IPADDR_ANY"
  by (simp_all add: for_us_def bad_source_def server_netif_def small_netif_def sample_addresses ip4_addr_ismulticast_def ip4_addr_isbroadcast_u32_def ip4_addr_net_eq_def PP_HTONL_def cdefs)

theorem ip4_datagram_delivered_witness:
  "\<exists>s' packet. ip4_output_if (etharp_output sample_arp_env small_netif) (\<lambda>_ _ _. None) 7 (Some (IP4_ADDR 10 0 2 15)) (Some (IP4_ADDR 162 159 200 1)) 255 0 17 small_netif sample_ipout = Some (ERR_OK, s')
     \<and> frame_spec server_netif (tx_frame (tx_fifo s')) = Fr_ip packet
     \<and> ip4_spec server_netif [] packet = Ip_upper 17 (IP4_ADDR 10 0 2 15) (IP4_ADDR 162 159 200 1) 20 [1, 2, 3, 4, 5, 6]"
proof -
  have "length router_mac = 6" by (simp add: router_mac_def)
  from ip4_datagram_delivered [OF sample_ipout_facts(1-3) _ this sample_sends router_route(2-4) sample_ipout_facts(4) server_facts(4,1,2,3),
      of "\<lambda>_ _ _. None" 255 0 17 "[]"]
  show ?thesis by (auto simp: sample_ipout_facts(5,6))
qed

end
