(* ===== verification/Spec2Isabelle.thy ===== *)
theory Spec2Isabelle
  imports Tts_Bridge Clock_Boot Rtos_Heap_Proofs Lwip_Ip4_Out
begin

text \<open>
  A verification library for the network-synchronised speaking clock: firmware for a
  Cortex-M3 board (QEMU's MPS2-AN385) that, when a key is pressed on its serial console, asks an
  NTP server for the time and announces it as a stream of tokens, which a script on the host
  turns into speech. It runs three tasks on FreeRTOS and uses lwIP without an operating-system
  layer over a LAN9118 Ethernet controller. All paths below are under \<open>src/\<close>.

  \<^bold>\<open>Parts and how they interact.\<close>
  \<^item> \<open>src/main.c\<close>: the UART console shared by all tasks, fault handlers, start-up.
  \<^item> \<open>src/key_task.c\<close> polls the UART and gives a binary semaphore; \<open>src/ntp_task.c\<close> takes it,
    queries the time with \<open>network/ntp_client.c\<close> and sends it to a queue of length one;
    \<open>src/speech_task.c\<close> receives from the queue and prints the tokens; \<open>scripts/tts_bridge.py\<close>
    reads them on the host.
  \<^item> \<open>network/lwip_init.c\<close> sets the stack up and drives it by polling; \<open>network/netif_qemu.c\<close> is
    the driver; in between are Ethernet, IPv4, UDP, packet buffers and checksums of lwIP.
  \<^item> FreeRTOS: the heap (\<open>heap_4.c\<close>), the lists (\<open>list.c\<close>), the scheduler (\<open>tasks.c\<close>) and the
    queues (\<open>queue.c\<close>).

  \<^bold>\<open>Theories, from the bottom up.\<close>
  \<^item> \<open>Clock_Prelude\<close>: word types, the collection \<open>cdefs\<close> of C constants, shared lemmas.
  \<^item> \<open>Uart\<close> (\<open>main.c\<close>): registers as streams of volatile reads, \<open>uart_putc\<close>, \<open>uart_puts\<close>,
    \<open>uart_printf\<close> with its static buffer, initialisation, fatal handlers, \<open>_sbrk\<close>. The locale
    \<open>console\<close> gives the rules for sequences of output operations.
  \<^item> \<open>Speech\<close> (\<open>speech_task.c\<close>, \<open>speech_tokens.h\<close>), \<open>Tts_Bridge\<close> (\<open>tts_bridge.py\<close>): the exact
    text of an announcement, that it determines the time, and that the bridge speaks it.
  \<^item> \<open>Lwip_Pbuf\<close>, \<open>Lwip_Pbuf_Proofs\<close> (\<open>pbuf.c\<close>): chains of buffers as lists of segments;
    allocation, headers, truncation, copying, release.
  \<^item> \<open>Lwip_Ip4Addr\<close> (\<open>def.c\<close>, \<open>ip4_addr.c\<close>): byte order, parsing and printing of addresses,
    masks, broadcast. \<open>Lwip_Chksum\<close> (\<open>inet_chksum.c\<close>): the optimised sum equals the definition
    of RFC 1071.
  \<^item> \<open>Lwip_Udp\<close>, \<open>Lwip_Udp_Proofs\<close> (\<open>udp.c\<close>): control blocks, ports, sending and
    demultiplexing; what is sent is received.
  \<^item> \<open>Lan9118\<close> (\<open>netif_qemu.c\<close>): device registers as read streams and a log of writes;
    initialisation with its timeouts, sending a frame, polling for frames.
  \<^item> \<open>Lwip_Ip4\<close>, \<open>Lwip_Ethernet\<close> (\<open>ip4.c\<close>, \<open>ethernet.c\<close>): input with all checks, against a
    specification of the frames and packets that are accepted; routing; Ethernet output.
  \<^item> \<open>Lwip_Etharp\<close>, \<open>Lwip_Etharp_Proofs\<close> (\<open>etharp.c\<close>): the table of hardware addresses, the packets
    that wait for one and their reference counts, requests, replies and the timer; all calls in
    any order keep the invariant \<open>arp_ok\<close> and return. \<open>Lwip_Ip4_Out\<close> (\<open>ip4.c\<close>): IP output on top of
    it; what it sends is a frame that a receiving station accepts.
  \<^item> \<open>Ntp_Client\<close>, \<open>Ntp_Proofs\<close> (\<open>ntp_client.c\<close>): request, receive callback, waiting loop,
    conversion to Indian Standard Time; \<open>ntp_polling\<close> is the contract of the function it polls.
  \<^item> \<open>Net_Stack\<close>, \<open>Network\<close>: the receive path from the device registers to the callback, and
    the client on top of it, through interpretations of the contracts below.
  \<^item> \<open>Lwip_Netif\<close> (\<open>netif.c\<close>, \<open>lwip_init.c\<close>): the interface structure, address changes and the
    status callback that tells the application the network is up.
  \<^item> \<open>Rtos_Heap\<close>, \<open>Rtos_Heap_Proofs\<close>: first fit with coalescing on block addresses; blocks in use
    never overlap, and the free list is determined by them.
  \<^item> \<open>Rtos_List\<close>: the circular lists on a store of nodes refine sequences.
  \<^item> \<open>Rtos_Tasks\<close>, \<open>Rtos_Tasks_Proofs\<close>: ready lists and bitmap, the tick with overflow of its
    counter, delays, blocking on events, suspension of the scheduler, priority inheritance; the
    invariant \<open>kernel_ok\<close>.
  \<^item> \<open>Rtos_Queue\<close>, \<open>Rtos_Queue_Proofs\<close>: queues, semaphores and mutexes on top of both; the ring
    buffer interprets the locale \<open>bounded_buffer\<close>.
  \<^item> \<open>Clock_Tasks\<close>, \<open>Clock_Proofs\<close>: the three tasks and the tick as one step relation over the
    kernel, the console and the network, and invariants of all reachable states.
  \<^item> \<open>Rtos_Boot\<close>, \<open>Rtos_Boot_Proofs\<close>: task creation and the start of the scheduler (\<open>tasks.c\<close>,
    \<open>port.c\<close>, \<open>timers.c\<close>) with the invariant \<open>boot_ok\<close>; \<open>Clock_Boot\<close> (\<open>main.c\<close>): \<open>main\<close>, which leads
    from reset to a state that the theorems on the running kernel and clock start from.

  \<^bold>\<open>Modelling conventions.\<close> C integers are words of their width (\<open>int\<close> where the code only
  compares small values); a result type \<open>option\<close> is \<open>None\<close> when an assertion fails or a busy-wait
  never ends, so that a theorem that states \<open>Some\<close> states that the code returns. Loops with a
  counter are recursion on it (the 5000 polls of the NTP client are the constant of the code, not
  a bound of the model); loops that wait for hardware are partial functions. Reading a volatile
  register consumes the next value of a stream.

  \<^bold>\<open>What is not modelled.\<close> ICMP, DHCP, DNS, fragmentation and reassembly, the lwIP heap and pools, and the
  lwIP timers are arguments of the definitions that call them, with what is required of them as
  named hypotheses. FreeRTOS timers and event groups are not used by the application: of the timers
  only the creation of their service task is modelled. Task deletion, notifications and queue
  deletion are not modelled. The context switch of the port and the code before \<open>main\<close> are assembly. TCP, IPv6, the sequential and socket interfaces, the
  lwIP applications and the other link layers are not compiled in.
\<close>

end
